(* ===== verification/Valet_Prelude.thy ===== *)
theory Valet_Prelude
  imports Main "HOL-Library.Word"
begin

text \<open>
  The prelude of the Valet development: the machine types of the C sources, the values that
  stand for a kernel crash, C array accesses with their bounds, and the generic lemmas on
  outcomes, arrays and words that every component uses.

  Conventions of the model:
  \<^item> \<open>u8\<close>, \<open>u16\<close>, \<open>u32\<close>, \<open>u64\<close> are words, so arithmetic wraps as it does in C. C's \<open>int\<close> and
    \<open>long\<close> are HOL's \<open>int\<close> where the code only counts with them, and the conversion to 32 bits
    is written out where the code narrows a value.
  \<^item> A pointer is a natural number and \<open>NULL\<close> is 0; objects live in maps from addresses.
  \<^item> An operation that can crash has a result of type \<open>'a outcome\<close>: \<open>Inl\<close> of the reason, or
    \<open>Inr\<close> of what the C function leaves behind.
\<close>

unbundle bit_operations_syntax

type_synonym u8 = "8 word"
type_synonym u16 = "16 word"
type_synonym u32 = "32 word"
type_synonym u64 = "64 word"
type_synonym ptr = nat

abbreviation (input) NULL :: ptr where "NULL \<equiv> 0"
abbreviation (input) VALET_PAGE_SIZE :: "'a::numeral" where "VALET_PAGE_SIZE \<equiv> 4096"
abbreviation (input) ONE_GB :: "'a::numeral" where "ONE_GB \<equiv> 1073741824"

named_theorems outcome_simps \<open>facts that evaluate a sequence of outcomes\<close>
named_theorems word_index \<open>facts that read word-valued ring indices as naturals\<close>

subsection \<open>Outcomes\<close>

text \<open>
  \<open>Out_Of_Bounds\<close> is an access outside an array, \<open>Null_Deref\<close> a dereference of \<open>NULL\<close> or of
  an address that holds no object, \<open>Panic\<close> and \<open>Bug_On\<close> are the calls of these names,
  and \<open>Hang\<close> is a loop that no step of the caller itself can leave.
\<close>

datatype crash = Out_Of_Bounds | Null_Deref | Panic | Bug_On | Hang

type_synonym 'a outcome = "crash + 'a"

definition bind_ok :: "'a outcome \<Rightarrow> ('a \<Rightarrow> 'b outcome) \<Rightarrow> 'b outcome" where
  "bind_ok m f = (case m of Inl e \<Rightarrow> Inl e | Inr x \<Rightarrow> f x)"

lemma bind_ok_simps [simp, outcome_simps]:
  "bind_ok (Inl e) f = Inl e"
  "bind_ok (Inr x) f = f x"
  by (simp_all add: bind_ok_def)

lemma bind_ok_eq_Inr [outcome_simps]:
  "bind_ok m f = Inr y \<longleftrightarrow> (\<exists>x. m = Inr x \<and> f x = Inr y)"
  by (cases m) auto

lemma bind_ok_eq_Inl:
  "bind_ok m f = Inl e \<longleftrightarrow> m = Inl e \<or> (\<exists>x. m = Inr x \<and> f x = Inl e)"
  by (cases m) auto

lemma bind_ok_cong [cong]:
  "m = m' \<Longrightarrow> (\<And>x. m' = Inr x \<Longrightarrow> f x = g x) \<Longrightarrow> bind_ok m f = bind_ok m' g"
  by (cases m') auto

lemma bind_ok_assoc: "bind_ok (bind_ok m f) g = bind_ok m (\<lambda>x. bind_ok (f x) g)"
  by (cases m) auto

lemma bind_ok_Inr [simp]: "bind_ok m Inr = m"
  by (cases m) auto

text \<open>A counted loop: the body runs for each index in turn and the first crash ends it.\<close>

primrec foldM :: "('i \<Rightarrow> 's \<Rightarrow> 's outcome) \<Rightarrow> 'i list \<Rightarrow> 's \<Rightarrow> 's outcome" where
  "foldM f [] s = Inr s"
| "foldM f (i # is) s = bind_ok (f i s) (foldM f is)"

lemma foldM_append: "foldM f (is @ js) s = bind_ok (foldM f is s) (foldM f js)"
  by (induction "is" arbitrary: s) (simp_all add: bind_ok_assoc)

text \<open>The invariant rule of such a loop.\<close>

lemma foldM_invariant:
  assumes "I 0 s" and "\<And>j s. j < length is \<Longrightarrow> I j s \<Longrightarrow> \<exists>s'. f (is ! j) s = Inr s' \<and> I (Suc j) s'"
  shows "\<exists>s'. foldM f is s = Inr s' \<and> I (length is) s'"
  using assms
proof (induction "is" arbitrary: I s)
  case (Cons i "is")
  obtain s1 where s1: "f i s = Inr s1" "I (Suc 0) s1" using Cons.prems(2) [of 0 s] Cons.prems(1) by auto
  have step: "\<exists>s'. f (is ! j) t = Inr s' \<and> I (Suc (Suc j)) s'" if "j < length is" "I (Suc j) t" for j t
    using Cons.prems(2) [of "Suc j" t] that by simp
  obtain s' where "foldM f is s1 = Inr s'" "I (Suc (length is)) s'"
    using Cons.IH [of "\<lambda>j. I (Suc j)" s1] s1(2) step by blast
  then show ?case using s1(1) by auto
qed simp

lemma foldM_upt:
  "(\<And>j. j < n \<Longrightarrow> f j (b j) = Inr (b (Suc j))) \<Longrightarrow> foldM f [0..<n] (b 0) = Inr (b n)"
  by (induction n) (simp_all add: foldM_append)

lemma bind_ok_if:
  "bind_ok (if c then m else m') f = (if c then bind_ok m f else bind_ok m' f)"
  by simp

subsection \<open>Arrays\<close>

text \<open>
  A C array of known extent is a list; reading or writing outside it is
  \<open>Out_Of_Bounds\<close>. \<open>iarr_get\<close> and \<open>iarr_set\<close> take a signed index.
\<close>

definition arr_get :: "'a list \<Rightarrow> nat \<Rightarrow> 'a outcome" where
  "arr_get xs i = (if i < length xs then Inr (xs ! i) else Inl Out_Of_Bounds)"

definition arr_set :: "'a list \<Rightarrow> nat \<Rightarrow> 'a \<Rightarrow> 'a list outcome" where
  "arr_set xs i v = (if i < length xs then Inr (xs[i := v]) else Inl Out_Of_Bounds)"

definition iarr_get :: "'a list \<Rightarrow> int \<Rightarrow> 'a outcome" where
  "iarr_get xs i = (if i < 0 then Inl Out_Of_Bounds else arr_get xs (nat i))"

definition iarr_set :: "'a list \<Rightarrow> int \<Rightarrow> 'a \<Rightarrow> 'a list outcome" where
  "iarr_set xs i v = (if i < 0 then Inl Out_Of_Bounds else arr_set xs (nat i) v)"

lemma arr_get_ok [simp, outcome_simps]: "i < length xs \<Longrightarrow> arr_get xs i = Inr (xs ! i)"
  by (simp add: arr_get_def)

lemma arr_set_ok [simp, outcome_simps]: "i < length xs \<Longrightarrow> arr_set xs i v = Inr (xs[i := v])"
  by (simp add: arr_set_def)

lemma arr_get_eq_Inr: "arr_get xs i = Inr v \<longleftrightarrow> i < length xs \<and> v = xs ! i"
  by (auto simp: arr_get_def)

lemma arr_set_eq_Inr: "arr_set xs i v = Inr ys \<longleftrightarrow> i < length xs \<and> ys = xs[i := v]"
  by (auto simp: arr_set_def)

lemma iarr_nat [simp, outcome_simps]:
  "iarr_get xs (int i) = arr_get xs i"
  "iarr_set xs (int i) v = arr_set xs i v"
  by (simp_all add: iarr_get_def iarr_set_def)

text \<open>\<open>memcpy\<close> of \<open>n\<close> bytes: both blocks must hold them.\<close>

definition memcpy :: "'a list \<Rightarrow> 'a list \<Rightarrow> nat \<Rightarrow> 'a list outcome" where
  "memcpy dst src n =
     (if n \<le> length dst \<and> n \<le> length src then Inr (take n src @ drop n dst)
      else Inl Out_Of_Bounds)"

lemma memcpy_full [simp]:
  "length dst = n \<Longrightarrow> length src = n \<Longrightarrow> memcpy dst src n = Inr src"
  by (simp add: memcpy_def)

lemma memcpy_eq_Inr:
  "memcpy dst src n = Inr r \<longleftrightarrow> n \<le> length dst \<and> n \<le> length src \<and> r = take n src @ drop n dst"
  by (auto simp: memcpy_def)

subsection \<open>Words and their natural values\<close>

lemma u32_unat_lt [simp]: "unat (x::u32) < 4294967296"
  using unsigned_less [of x] by simp

lemma unat_plus_u32 [word_index]: "unat (x + y :: u32) = (unat x + unat y) mod 4294967296"
  by (simp add: unat_word_ariths)

lemma unat_of_nat_u32 [word_index]: "unat (of_nat n :: u32) = n mod 4294967296"
  by (simp add: unat_of_nat)

text \<open>
  Masking with a power of two minus one is the remainder, and the remainder does not see
  the wrap-around of 32-bit counters, because the power divides \<open>2 ^ 32\<close>.
\<close>

lemma pow2_le_32:
  assumes "2 ^ k \<le> (4294967296::nat)"
  shows "k \<le> 32"
proof (rule ccontr)
  assume "\<not> k \<le> 32"
  then have "2 ^ 33 \<le> (2::nat) ^ k" by (intro power_increasing) simp_all
  with assms show False by simp
qed

lemma unat_and_mask_u32 [word_index]:
  assumes "unat m + 1 = 2 ^ k"
  shows "unat (x AND m :: u32) = unat x mod 2 ^ k"
proof -
  have "2 ^ k \<le> (4294967296::nat)"
    using u32_unat_lt [of m] assms by linarith
  then have k: "k \<le> 32" by (rule pow2_le_32)
  have u: "uint (mask k :: u32) = mask k"
    using k by (simp add: uint_mask_eq min_def)
  have "int (unat m + 1) = 2 ^ k" by (simp only: assms of_nat_power) simp
  then have "int (unat m) = mask k" unfolding mask_eq_exp_minus_1 by linarith
  then have "uint m = uint (mask k :: u32)" unfolding u by simp
  then have "m = mask k" by (simp add: word_uint_eq_iff)
  then have "unat (x AND m) = take_bit k (unat x)"
    by (simp add: unsigned_take_bit_eq flip: take_bit_eq_mask)
  then show ?thesis by (simp only: take_bit_eq_mod)
qed

lemma mod_pow2_mod_u32:
  assumes "k \<le> 32"
  shows "a mod 4294967296 mod 2 ^ k = a mod (2 ^ k :: nat)"
proof -
  have "(2::nat) ^ k dvd 2 ^ 32" using assms by (rule le_imp_power_dvd)
  then show ?thesis by (simp add: mod_mod_cancel)
qed

lemma unat_add_mask_u32 [word_index]:
  assumes "unat m + 1 = 2 ^ k"
  shows "unat ((x + y) AND m :: u32) = (unat x + unat y) mod 2 ^ k"
proof -
  have "2 ^ k \<le> (4294967296::nat)"
    using u32_unat_lt [of m] assms by linarith
  then show ?thesis
    by (simp add: unat_and_mask_u32 [OF assms] unat_plus_u32 mod_pow2_mod_u32 pow2_le_32)
qed

lemma mask_next_index:
  assumes "unat (m::u32) + 1 = 2 ^ k"
  shows "(unat ((x::u32) + 1) + t) mod 2 ^ k = (unat x + Suc t) mod 2 ^ k"
proof -
  have "unat ((x + 1) AND m) = (unat x + 1) mod 2 ^ k"
    using unat_add_mask_u32 [OF assms, of x 1] by simp
  then have "unat (x + 1) mod 2 ^ k = (unat x + 1) mod 2 ^ k"
    by (simp add: unat_and_mask_u32 [OF assms])
  then have "(unat (x + 1) + t) mod 2 ^ k = (unat x + 1 + t) mod 2 ^ k"
    by (rule mod_add_cong) simp
  then show ?thesis by simp
qed

lemma and_mask_below:
  assumes "unat m + 1 = 2 ^ k" and "unat (x::u32) \<le> unat m"
  shows "x AND m = x"
  using assms by (simp add: word_unat_eq_iff unat_and_mask_u32 [OF assms(1)])

text \<open>
  A mask of a size that a power of two divides keeps the low bits, so that it behaves as a
  remainder as far as that power goes.
\<close>

lemma and_mask_low:
  assumes "2 ^ k dvd unat m + 1"
  shows "unat (x AND m :: u32) mod 2 ^ k = unat x mod 2 ^ k"
proof -
  obtain c where c: "unat m + 1 = 2 ^ k * c" using assms by (rule dvdE)
  then have "c \<noteq> 0" by (intro notI) simp
  then obtain d where d: "c = Suc d" by (cases c) auto
  then have "unat m = 2 ^ k * d + (2 ^ k - 1)" using c by simp
  then have "unat m mod 2 ^ k = (2 ^ k - 1) mod 2 ^ k" by (simp only: mod_mult_self4)
  then have "unat m mod 2 ^ k = 2 ^ k - 1" by simp
  then have m: "take_bit k (unat m) = mask k" by (simp only: take_bit_eq_mod mask_eq_exp_minus_1)
  have "take_bit k (unat (x AND m)) = take_bit k (unat x) AND take_bit k (unat m)"
    by (simp add: unsigned_and_eq)
  also have "\<dots> = take_bit k (unat x)" unfolding m by (simp flip: take_bit_eq_mask)
  finally show ?thesis by (simp only: take_bit_eq_mod)
qed

lemma and_mask_le: "unat (x AND m :: u32) \<le> unat m"
  using word_and_le1 [of x m] by (simp add: word_le_nat_alt and.commute)

text \<open>Two offsets below the modulus that meet modulo it are equal.\<close>

lemma mod_add_eq_imp_eq:
  assumes "(a + i) mod n = (a + j) mod (n::nat)" and "i < n" and "j < n"
  shows "i = j"
  using assms
proof (induction i j rule: linorder_wlog)
  case (le i j)
  then have "n dvd (a + j) - (a + i)" by (metis mod_eq_dvd_iff_nat add_le_mono order_refl)
  then have "n dvd j - i" by simp
  moreover have "j - i < n" using le by linarith
  ultimately have "j - i = 0" by (metis dvd_imp_le not_le neq0_conv)
  with le show ?case by simp
next
  case (sym i j)
  then show ?case by metis
qed

lemma sint_small_u32:
  assumes "unat (x::u32) < 2147483648"
  shows "sint x = int (unat x)"
proof -
  have x: "uint x < 2147483648" using assms unfolding uint_nat by linarith
  have x0: "- 2147483648 \<le> uint x" using uint_ge_0 [of x] by linarith
  have "sint x = signed_take_bit 31 (uint x)" by (simp add: sint_uint)
  also have "\<dots> = uint x" using x x0 by (subst signed_take_bit_int_eq_self) simp_all
  finally show ?thesis by simp
qed

lemma unat_of_nat_u64:
  assumes "n < 18446744073709551616"
  shows "unat (of_nat n :: u64) = n"
  using assms by (intro of_nat_inverse [OF refl]) simp

lemma unat_and_3_u32: "unat ((n::u32) AND 3) = unat n mod 4"
  using unat_and_mask_u32 [of 3 2 n] by simp

lemma unat_and_not_3_u32: "unat ((n::u32) AND NOT 3) = 4 * (unat n div 4)"
proof -
  have m: "(3::u32) = mask 2" by (simp add: mask_eq_exp_minus_1)
  have "n AND NOT 3 = 4 * drop_bit 2 n"
  proof -
    have d: "Suc (Suc (i - 2)) = i" if "2 \<le> i" for i :: nat using that by simp
    have "n AND NOT (mask 2) = push_bit 2 (drop_bit 2 n)"
      by (rule bit_word_eqI) (auto simp: bit_simps not_less d)
    then show ?thesis by (simp add: m push_bit_eq_mult mult.commute)
  qed
  moreover have "unat (drop_bit 2 n) = unat n div 4"
    unfolding unat_drop_bit_eq by (simp add: drop_bit_eq_div)
  moreover have "4 * (unat n div 4) < 4294967296"
    using u32_unat_lt [of n] by linarith
  ultimately show ?thesis by (simp add: unat_word_ariths)
qed

end
