(* ===== verification/Alf_Queue.thy ===== *)
theory Alf_Queue
  imports Valet_Prelude
begin

text \<open>
  The array-based queue that carries the work of the block device (alf_queue.h,
  alf_queue.c, alf_queue_helpers.h): pages waiting to be sent (\<open>sending_list\<close>) and pages
  that may be reclaimed (\<open>reclaim_list\<close>). Producer and consumer each keep a 32-bit head and
  tail that count for ever and wrap; a slot is a counter masked with \<open>size - 1\<close>.

  The operations are modelled as one caller running to completion: a \<open>cmpxchg\<close> of the
  value just read succeeds, and a wait for another caller's tail update is a \<open>Hang\<close> when
  the tail is not already there.
\<close>

record alf_actor =
  head :: u32
  tail :: u32

record alf_queue =
  q_size :: u32
  q_mask :: u32
  q_flags :: u32
  producer :: alf_actor
  consumer :: alf_actor
  ring :: "ptr list"

text \<open>
  \<open>vzalloc\<close> of the struct and the ring together, zero filled. The argument \<open>vzalloc_ok\<close>
  says for which sizes the allocation succeeds; \<open>None\<close> is \<open>ERR_PTR(-ENOMEM)\<close>. The header
  takes three cache lines of 64 bytes.
\<close>

definition alf_queue_alloc :: "(u64 \<Rightarrow> bool) \<Rightarrow> u32 \<Rightarrow> alf_queue option" where
  "alf_queue_alloc vzalloc_ok sz =
     (let mem_size = ucast sz * 8 + 192
      in if \<not> vzalloc_ok mem_size then None
         else Some \<lparr>q_size = sz, q_mask = sz - 1, q_flags = 0,
                    producer = \<lparr>head = 0, tail = 0\<rparr>, consumer = \<lparr>head = 0, tail = 0\<rparr>,
                    ring = replicate (unat sz) NULL\<rparr>)"

subsection \<open>Copying between the caller's array and the ring\<close>

text \<open>One store \<open>ring[index] = ptr[i]\<close> and one load \<open>ptr[i] = ring[index]\<close>.\<close>

definition store1 :: "ptr list \<Rightarrow> nat \<Rightarrow> u32 \<Rightarrow> ptr list \<Rightarrow> ptr list outcome" where
  "store1 p i index r = bind_ok (arr_get p i) (\<lambda>x. arr_set r (unat index) x)"

definition load1 :: "ptr list \<Rightarrow> u32 \<Rightarrow> nat \<Rightarrow> ptr list \<Rightarrow> ptr list outcome" where
  "load1 r index i p = bind_ok (arr_get r (unat index)) (\<lambda>x. arr_set p i x)"

text \<open>The loops of the helpers, \<open>k\<close> iterations from \<open>i\<close> and \<open>index\<close>, without and with the mask.\<close>

primrec store_run :: "nat \<Rightarrow> ptr list \<Rightarrow> nat \<Rightarrow> u32 \<Rightarrow> ptr list \<Rightarrow> ptr list outcome" where
  "store_run 0 p i index r = Inr r"
| "store_run (Suc k) p i index r = bind_ok (store1 p i index r) (store_run k p (i + 1) (index + 1))"

primrec store_masked :: "nat \<Rightarrow> u32 \<Rightarrow> ptr list \<Rightarrow> nat \<Rightarrow> u32 \<Rightarrow> ptr list \<Rightarrow> ptr list outcome" where
  "store_masked 0 m p i index r = Inr r"
| "store_masked (Suc k) m p i index r =
     bind_ok (store1 p i (index AND m) r) (store_masked k m p (i + 1) (index + 1))"

primrec load_run :: "nat \<Rightarrow> ptr list \<Rightarrow> u32 \<Rightarrow> nat \<Rightarrow> ptr list \<Rightarrow> ptr list outcome" where
  "load_run 0 r index i p = Inr p"
| "load_run (Suc k) r index i p = bind_ok (load1 r index i p) (load_run k r (index + 1) (i + 1))"

primrec load_masked :: "nat \<Rightarrow> u32 \<Rightarrow> ptr list \<Rightarrow> u32 \<Rightarrow> nat \<Rightarrow> ptr list \<Rightarrow> ptr list outcome" where
  "load_masked 0 m r index i p = Inr p"
| "load_masked (Suc k) m r index i p =
     bind_ok (load1 r (index AND m) i p) (load_masked k m r (index + 1) (i + 1))"

definition helper_alf_enqueue_store_mask :: "u32 \<Rightarrow> alf_queue \<Rightarrow> ptr list \<Rightarrow> u32 \<Rightarrow> alf_queue outcome" where
  "helper_alf_enqueue_store_mask p_head q p n =
     bind_ok (store_masked (unat n) (q_mask q) p 0 p_head (ring q)) (\<lambda>r. Inr (q\<lparr>ring := r\<rparr>))"

definition helper_alf_dequeue_load_mask :: "u32 \<Rightarrow> alf_queue \<Rightarrow> ptr list \<Rightarrow> u32 \<Rightarrow> ptr list outcome" where
  "helper_alf_dequeue_load_mask c_head q p elems =
     load_masked (unat elems) (q_mask q) (ring q) c_head 0 p"

text \<open>The unrolled loop: four copies per turn, returning the running \<open>i\<close> and \<open>index\<close>.\<close>

primrec store_unroll4 :: "nat \<Rightarrow> ptr list \<Rightarrow> nat \<Rightarrow> u32 \<Rightarrow> ptr list \<Rightarrow> (nat \<times> u32 \<times> ptr list) outcome" where
  "store_unroll4 0 p i index r = Inr (i, index, r)"
| "store_unroll4 (Suc c) p i index r =
     bind_ok (store1 p i index r) (\<lambda>r. bind_ok (store1 p (i + 1) (index + 1) r) (\<lambda>r.
     bind_ok (store1 p (i + 2) (index + 2) r) (\<lambda>r. bind_ok (store1 p (i + 3) (index + 3) r) (\<lambda>r.
     store_unroll4 c p (i + 4) (index + 4) r))))"

primrec load_unroll4 :: "nat \<Rightarrow> ptr list \<Rightarrow> u32 \<Rightarrow> nat \<Rightarrow> ptr list \<Rightarrow> (nat \<times> u32 \<times> ptr list) outcome" where
  "load_unroll4 0 r index i p = Inr (i, index, p)"
| "load_unroll4 (Suc c) r index i p =
     bind_ok (load1 r index i p) (\<lambda>p. bind_ok (load1 r (index + 1) (i + 1) p) (\<lambda>p.
     bind_ok (load1 r (index + 2) (i + 2) p) (\<lambda>p. bind_ok (load1 r (index + 3) (i + 3) p) (\<lambda>p.
     load_unroll4 c r (index + 4) (i + 4) p))))"

text \<open>
  The helpers the queue uses. \<open>iterations = n & ~3UL\<close> is an \<open>int\<close>: a count with the sign
  bit set runs no turn.
\<close>

definition helper_alf_enqueue_store_unroll :: "u32 \<Rightarrow> alf_queue \<Rightarrow> ptr list \<Rightarrow> u32 \<Rightarrow> alf_queue outcome" where
  "helper_alf_enqueue_store_unroll p_head q p n =
     (let iterations = sint (n AND NOT 3);
          index = p_head AND q_mask q
      in bind_ok
           (if index + n \<le> q_mask q
            then bind_ok (store_unroll4 (nat iterations div 4) p 0 index (ring q)) (\<lambda>(i, index, r).
              if n AND 3 = 3 then
                bind_ok (store1 p i index r) (\<lambda>r. bind_ok (store1 p (i + 1) (index + 1) r) (\<lambda>r.
                  store1 p (i + 2) (index + 2) r))
              else if n AND 3 = 2 then
                bind_ok (store1 p i index r) (\<lambda>r. store1 p (i + 1) (index + 1) r)
              else if n AND 3 = 1 then store1 p i index r
              else Inr r)
            else store_masked (unat n) (q_mask q) p 0 index (ring q))
           (\<lambda>r. Inr (q\<lparr>ring := r\<rparr>)))"

definition helper_alf_dequeue_load_unroll :: "u32 \<Rightarrow> alf_queue \<Rightarrow> ptr list \<Rightarrow> u32 \<Rightarrow> ptr list outcome" where
  "helper_alf_dequeue_load_unroll c_head q p elems =
     (let iterations = sint (elems AND NOT 3);
          index = c_head AND q_mask q
      in if index + elems \<le> q_mask q
         then bind_ok (load_unroll4 (nat iterations div 4) (ring q) index 0 p) (\<lambda>(i, index, p).
           if elems AND 3 = 3 then
             bind_ok (load1 (ring q) index i p) (\<lambda>p. bind_ok (load1 (ring q) (index + 1) (i + 1) p) (\<lambda>p.
               load1 (ring q) (index + 2) (i + 2) p))
           else if elems AND 3 = 2 then
             bind_ok (load1 (ring q) index i p) (\<lambda>p. load1 (ring q) (index + 1) (i + 1) p)
           else if elems AND 3 = 1 then load1 (ring q) index i p
           else Inr p)
         else load_masked (unat elems) (q_mask q) (ring q) index 0 p)"

subsection \<open>Enqueue and dequeue\<close>

text \<open>
  The result is the C return and the queue: the number of elements stored, or 0 and the
  queue as it was when they do not all fit.
\<close>

definition alf_mp_enqueue :: "alf_queue \<Rightarrow> ptr list \<Rightarrow> u32 \<Rightarrow> (u32 \<times> alf_queue) outcome" where
  "alf_mp_enqueue q p n =
     (let p_head = head (producer q);
          c_tail = tail (consumer q);
          space = q_size q + c_tail - p_head
      in if n > space then Inr (0, q)
         else let p_next = p_head + n;
                  q = q\<lparr>producer := (producer q)\<lparr>head := p_next\<rparr>\<rparr>
              in bind_ok (helper_alf_enqueue_store_unroll p_head q p n) (\<lambda>q.
                   if tail (producer q) \<noteq> p_head then Inl Hang
                   else Inr (n, q\<lparr>producer := (producer q)\<lparr>tail := p_next\<rparr>\<rparr>)))"

definition alf_mc_dequeue :: "alf_queue \<Rightarrow> ptr list \<Rightarrow> u32 \<Rightarrow> (u32 \<times> ptr list \<times> alf_queue) outcome" where
  "alf_mc_dequeue q p n =
     (let c_head = head (consumer q);
          p_tail = tail (producer q);
          elems = p_tail - c_head
      in if elems = 0 then Inr (0, p, q)
         else let elems = min elems n;
                  c_next = c_head + elems;
                  q = q\<lparr>consumer := (consumer q)\<lparr>head := c_next\<rparr>\<rparr>
              in bind_ok (helper_alf_dequeue_load_unroll c_head q p elems) (\<lambda>p.
                   if tail (consumer q) \<noteq> c_head then Inl Hang
                   else Inr (elems, p, q\<lparr>consumer := (consumer q)\<lparr>tail := c_next\<rparr>\<rparr>)))"

text \<open>The single-producer and single-consumer variants write their tail without waiting.\<close>

definition alf_sp_enqueue :: "alf_queue \<Rightarrow> ptr list \<Rightarrow> u32 \<Rightarrow> (u32 \<times> alf_queue) outcome" where
  "alf_sp_enqueue q p n =
     (let p_head = head (producer q);
          c_tail = tail (consumer q);
          space = q_size q + c_tail - p_head
      in if n > space then Inr (0, q)
         else let p_next = p_head + n;
                  q = q\<lparr>producer := (producer q)\<lparr>head := p_next\<rparr>\<rparr>
              in bind_ok (helper_alf_enqueue_store_unroll p_head q p n) (\<lambda>q.
                   Inr (n, q\<lparr>producer := (producer q)\<lparr>tail := p_next\<rparr>\<rparr>)))"

definition alf_sc_dequeue :: "alf_queue \<Rightarrow> ptr list \<Rightarrow> u32 \<Rightarrow> (u32 \<times> ptr list \<times> alf_queue) outcome" where
  "alf_sc_dequeue q p n =
     (let c_head = head (consumer q);
          p_tail = tail (producer q);
          elems = p_tail - c_head
      in if elems = 0 then Inr (0, p, q)
         else let elems = min elems n;
                  c_next = c_head + elems;
                  q = q\<lparr>consumer := (consumer q)\<lparr>head := c_next\<rparr>\<rparr>
              in bind_ok (helper_alf_dequeue_load_unroll c_head q p elems) (\<lambda>p.
                   Inr (elems, p, q\<lparr>consumer := (consumer q)\<lparr>tail := c_next\<rparr>\<rparr>)))"

definition alf_queue_empty :: "alf_queue \<Rightarrow> bool" where
  "alf_queue_empty q \<longleftrightarrow> tail (consumer q) = tail (producer q)"

definition alf_queue_count :: "alf_queue \<Rightarrow> int" where
  "alf_queue_count q = sint (tail (producer q) - head (consumer q))"

definition alf_queue_avail_space :: "alf_queue \<Rightarrow> int" where
  "alf_queue_avail_space q = sint (q_size q + tail (consumer q) - head (producer q))"

subsection \<open>What the copy loops do\<close>

lemma unat_index_add:
  assumes "unat (index::u32) + t < 4294967296"
  shows "unat (index + of_nat t) = unat index + t"
  using assms by (simp add: unat_plus_u32 unat_of_nat_u32)

lemma store_masked_range:
  assumes "unat m + 1 = 2 ^ K" and "length r = 2 ^ K" and "k \<le> 2 ^ K" and "i + k \<le> length p"
  shows "\<exists>r'. store_masked k m p i index r = Inr r' \<and> length r' = 2 ^ K \<and>
    (\<forall>t<k. r' ! ((unat index + t) mod 2 ^ K) = p ! (i + t)) \<and>
    (\<forall>s<2 ^ K. (\<forall>t<k. (unat index + t) mod 2 ^ K \<noteq> s) \<longrightarrow> r' ! s = r ! s)"
  using assms(2-)
proof (induction k arbitrary: i index r)
  case 0
  then show ?case by simp
next
  case (Suc k)
  let ?s = "unat index mod 2 ^ K"
  let ?r1 = "r[?s := p ! i]"
  have s: "unat (index AND m) = ?s" by (rule unat_and_mask_u32 [OF assms(1)])
  have sl: "?s < length r" using Suc.prems(1) by simp
  note next_index = mask_next_index [OF assms(1), of index]
  from Suc.IH [of ?r1 "i + 1" "index + 1"] Suc.prems obtain r' where r':
    "store_masked k m p (i + 1) (index + 1) ?r1 = Inr r'" "length r' = 2 ^ K"
    "\<And>t. t < k \<Longrightarrow> r' ! ((unat index + Suc t) mod 2 ^ K) = p ! (i + 1 + t)"
    "\<And>s. s < 2 ^ K \<Longrightarrow> (\<forall>t<k. (unat index + Suc t) mod 2 ^ K \<noteq> s) \<Longrightarrow> r' ! s = ?r1 ! s"
    unfolding next_index by auto
  have "store_masked (Suc k) m p i index r = Inr r'"
    using r'(1) Suc.prems sl by (simp add: store1_def s)
  moreover have "r' ! ((unat index + t) mod 2 ^ K) = p ! (i + t)" if "t < Suc k" for t
  proof (cases t)
    case 0
    have "(unat index + Suc u) mod 2 ^ K \<noteq> ?s" if "u < k" for u
      using mod_add_eq_imp_eq [of "unat index" "Suc u" "2 ^ K" 0] that Suc.prems(2) by auto
    then show ?thesis using 0 r'(4) [of ?s] sl by simp
  next
    case (Suc u)
    then show ?thesis using r'(3) [of u] that by simp
  qed
  moreover have "r' ! s = r ! s" if "s < 2 ^ K" "\<forall>t<Suc k. (unat index + t) mod 2 ^ K \<noteq> s" for s
  proof -
    have "?s \<noteq> s" using that(2) by (metis add.right_neutral zero_less_Suc)
    moreover have "\<forall>t<k. (unat index + Suc t) mod 2 ^ K \<noteq> s"
      using that(2) by (metis Suc_less_eq)
    ultimately show ?thesis using r'(4) [OF that(1)] by simp
  qed
  ultimately show ?case using r'(2) by blast
qed

lemma load_masked_range:
  assumes "unat m + 1 = 2 ^ K" and "length r = 2 ^ K" and "i + k \<le> length p"
  shows "load_masked k m r index i p =
    Inr (take i p @ map (\<lambda>t. r ! ((unat index + t) mod 2 ^ K)) [0..<k] @ drop (i + k) p)"
  using assms(3)
proof (induction k arbitrary: i index p)
  case 0
  then show ?case by simp
next
  case (Suc k)
  let ?s = "unat index mod 2 ^ K"
  have s: "unat (index AND m) = ?s" by (rule unat_and_mask_u32 [OF assms(1)])
  note next_index = mask_next_index [OF assms(1), of index]
  have "map (\<lambda>t. r ! ((unat index + t) mod 2 ^ K)) [0..<Suc k] =
      r ! ?s # map (\<lambda>t. r ! ((unat index + Suc t) mod 2 ^ K)) [0..<k]"
    by (simp only: upt_conv_Cons [OF zero_less_Suc] map_Suc_upt [symmetric]) simp
  moreover have "take (i + 1) (p[i := r ! ?s]) = take i p @ [r ! ?s]"
    using Suc.prems by (simp add: take_Suc_conv_app_nth)
  ultimately show ?case
    using Suc.IH [of "i + 1" "p[i := r ! ?s]" "index + 1"] Suc.prems assms(2)
    by (simp add: load1_def s next_index del: upt_Suc)
qed

subsection \<open>The unrolled helpers are the masked ones\<close>

lemma store_run_add:
  "bind_ok (store_run k p i index r) (store_run j p (i + k) (index + of_nat k)) =
     store_run (k + j) p i index r"
proof (induction k arbitrary: i index r)
  case (Suc k)
  then show ?case using Suc.IH [of "i + 1" "index + 1"] by (simp add: bind_ok_assoc add.assoc)
qed simp

lemma load_run_add:
  "bind_ok (load_run k r index i p) (load_run j r (index + of_nat k) (i + k)) =
     load_run (k + j) r index i p"
proof (induction k arbitrary: i index p)
  case (Suc k)
  then show ?case using Suc.IH [of "index + 1" "i + 1"] by (simp add: bind_ok_assoc add.assoc)
qed simp

lemma store_unroll4_run:
  "store_unroll4 c p i index r =
     bind_ok (store_run (4 * c) p i index r) (\<lambda>r. Inr (i + 4 * c, index + of_nat (4 * c), r))"
proof (induction c arbitrary: i index r)
  case 0
  then show ?case by simp
next
  case (Suc c)
  have "4 * Suc c = Suc (Suc (Suc (Suc (4 * c))))" by simp
  then show ?case by (simp only: store_run.simps) (simp add: Suc.IH bind_ok_assoc algebra_simps eval_nat_numeral)
qed

lemma load_unroll4_run:
  "load_unroll4 c r index i p =
     bind_ok (load_run (4 * c) r index i p) (\<lambda>p. Inr (i + 4 * c, index + of_nat (4 * c), p))"
proof (induction c arbitrary: i index p)
  case 0
  then show ?case by simp
next
  case (Suc c)
  have "4 * Suc c = Suc (Suc (Suc (Suc (4 * c))))" by simp
  then show ?case by (simp only: load_run.simps) (simp add: Suc.IH bind_ok_assoc algebra_simps eval_nat_numeral)
qed

lemma store_run_masked:
  assumes "unat m + 1 = 2 ^ K" and "unat index + k \<le> unat m + 1"
  shows "store_run k p i index r = store_masked k m p i index r"
  using assms(2)
proof (induction k arbitrary: i index r)
  case 0
  then show ?case by simp
next
  case (Suc k)
  have i: "index AND m = index" using Suc.prems by (intro and_mask_below [OF assms(1)]) simp
  show ?case
  proof (cases k)
    case 0
    then show ?thesis by (simp add: i)
  next
    case (Suc k')
    have "unat index + 1 < 4294967296"
      using Suc Suc.prems u32_unat_lt [of m] by linarith
    then have "unat (index + 1) = unat index + 1" by (simp add: unat_plus_u32)
    then show ?thesis using Suc.IH Suc.prems by (simp add: i)
  qed
qed

lemma load_run_masked:
  assumes "unat m + 1 = 2 ^ K" and "unat index + k \<le> unat m + 1"
  shows "load_run k r index i p = load_masked k m r index i p"
  using assms(2)
proof (induction k arbitrary: i index p)
  case 0
  then show ?case by simp
next
  case (Suc k)
  have i: "index AND m = index" using Suc.prems by (intro and_mask_below [OF assms(1)]) simp
  show ?case
  proof (cases k)
    case 0
    then show ?thesis by (simp add: i)
  next
    case (Suc k')
    have "unat index + 1 < 4294967296"
      using Suc Suc.prems u32_unat_lt [of m] by linarith
    then have "unat (index + 1) = unat index + 1" by (simp add: unat_plus_u32)
    then show ?thesis using Suc.IH Suc.prems by (simp add: i)
  qed
qed

text \<open>Starting from the masked index or from the counter itself makes no difference.\<close>

lemma store_masked_from_mask:
  assumes "unat m + 1 = 2 ^ K" and "unat a mod 2 ^ K = unat b mod 2 ^ K"
  shows "store_masked k m p i a r = store_masked k m p i b r"
  using assms(2)
proof (induction k arbitrary: i a b r)
  case (Suc k)
  have "a AND m = b AND m"
    using Suc.prems by (simp add: word_unat_eq_iff unat_and_mask_u32 [OF assms(1)])
  moreover have "unat (a + 1) mod 2 ^ K = unat (b + 1) mod 2 ^ K"
    using mask_next_index [OF assms(1), of a 0] mask_next_index [OF assms(1), of b 0]
      Suc.prems by (metis add.right_neutral mod_add_left_eq)
  ultimately show ?case using Suc.IH [of "a + 1" "b + 1"] by simp
qed simp

lemma load_masked_from_mask:
  assumes "unat m + 1 = 2 ^ K" and "unat a mod 2 ^ K = unat b mod 2 ^ K"
  shows "load_masked k m r a i p = load_masked k m r b i p"
  using assms(2)
proof (induction k arbitrary: i a b p)
  case (Suc k)
  have "a AND m = b AND m"
    using Suc.prems by (simp add: word_unat_eq_iff unat_and_mask_u32 [OF assms(1)])
  moreover have "unat (a + 1) mod 2 ^ K = unat (b + 1) mod 2 ^ K"
    using mask_next_index [OF assms(1), of a 0] mask_next_index [OF assms(1), of b 0]
      Suc.prems by (metis add.right_neutral mod_add_left_eq)
  ultimately show ?case using Suc.IH [of "a + 1" "b + 1"] by simp
qed simp

lemma mod4_cases_u32:
  "n AND 3 = (3::u32) \<longleftrightarrow> unat n mod 4 = 3"
  "n AND 3 = (2::u32) \<longleftrightarrow> unat n mod 4 = 2"
  "n AND 3 = (1::u32) \<longleftrightarrow> unat n mod 4 = 1"
  by (simp_all add: word_unat_eq_iff unat_and_3_u32)

lemma small_runs:
  "store_run (Suc 0) p i index r = store1 p i index r"
  "store_run 2 p i index r = bind_ok (store1 p i index r) (store1 p (i + 1) (index + 1))"
  "store_run 3 p i index r = bind_ok (store1 p i index r) (\<lambda>r.
     bind_ok (store1 p (i + 1) (index + 1) r) (store1 p (i + 2) (index + 2)))"
  "load_run (Suc 0) r index i p = load1 r index i p"
  "load_run 2 r index i p = bind_ok (load1 r index i p) (load1 r (index + 1) (i + 1))"
  "load_run 3 r index i p = bind_ok (load1 r index i p) (\<lambda>p.
     bind_ok (load1 r (index + 1) (i + 1) p) (load1 r (index + 2) (i + 2)))"
  by (simp_all add: eval_nat_numeral algebra_simps)

lemma turns_u32:
  assumes "unat (n::u32) < 2147483648"
  shows "nat (sint (n AND NOT 3)) div 4 = unat n div 4"
proof -
  have "unat (n AND NOT 3) < 2147483648"
    unfolding unat_and_not_3_u32 using assms by linarith
  then have "sint (n AND NOT 3) = int (4 * (unat n div 4))"
    unfolding unat_and_not_3_u32 [symmetric] by (rule sint_small_u32)
  then show ?thesis by (simp only: nat_int)
qed

lemma store_unroll_run:
  assumes "unat (n::u32) < 2147483648"
  shows "bind_ok (store_unroll4 (nat (sint (n AND NOT 3)) div 4) p 0 index r) (\<lambda>(i, index, r).
      if n AND 3 = 3 then
        bind_ok (store1 p i index r) (\<lambda>r. bind_ok (store1 p (i + 1) (index + 1) r) (\<lambda>r.
          store1 p (i + 2) (index + 2) r))
      else if n AND 3 = 2 then
        bind_ok (store1 p i index r) (\<lambda>r. store1 p (i + 1) (index + 1) r)
      else if n AND 3 = 1 then store1 p i index r
      else Inr r) = store_run (unat n) p 0 index r"
proof -
  let ?c = "4 * (unat n div 4)"
  have run: "store_run (unat n) p 0 index r =
      bind_ok (store_run ?c p 0 index r) (store_run (unat n mod 4) p (0 + ?c) (index + of_nat ?c))"
    unfolding store_run_add by simp
  consider "unat n mod 4 = 0" | "unat n mod 4 = 1" | "unat n mod 4 = 2" | "unat n mod 4 = 3"
    using mod_less_divisor [of 4 "unat n"] by linarith
  then show ?thesis
    unfolding turns_u32 [OF assms] store_unroll4_run mod4_cases_u32 bind_ok_assoc run
    by cases (simp_all add: small_runs)
qed

lemma load_unroll_run:
  assumes "unat (n::u32) < 2147483648"
  shows "bind_ok (load_unroll4 (nat (sint (n AND NOT 3)) div 4) r index 0 p) (\<lambda>(i, index, p).
      if n AND 3 = 3 then
        bind_ok (load1 r index i p) (\<lambda>p. bind_ok (load1 r (index + 1) (i + 1) p) (\<lambda>p.
          load1 r (index + 2) (i + 2) p))
      else if n AND 3 = 2 then
        bind_ok (load1 r index i p) (\<lambda>p. load1 r (index + 1) (i + 1) p)
      else if n AND 3 = 1 then load1 r index i p
      else Inr p) = load_run (unat n) r index 0 p"
proof -
  let ?c = "4 * (unat n div 4)"
  have run: "load_run (unat n) r index 0 p =
      bind_ok (load_run ?c r index 0 p) (load_run (unat n mod 4) r (index + of_nat ?c) (0 + ?c))"
    unfolding load_run_add by simp
  consider "unat n mod 4 = 0" | "unat n mod 4 = 1" | "unat n mod 4 = 2" | "unat n mod 4 = 3"
    using mod_less_divisor [of 4 "unat n"] by linarith
  then show ?thesis
    unfolding turns_u32 [OF assms] load_unroll4_run mod4_cases_u32 bind_ok_assoc run
    by cases (simp_all add: small_runs)
qed

lemma unwrapped_extent:
  assumes "unat m + 1 = 2 ^ K" and "K \<le> 31" and "unat n \<le> 2 ^ K"
  shows "(x AND m) + n \<le> m \<longleftrightarrow> unat x mod 2 ^ K + unat n \<le> unat (m::u32)"
proof -
  have "(2::nat) ^ K \<le> 2 ^ 31" using assms(2) by (intro power_increasing) simp_all
  then have K: "(2::nat) ^ K \<le> 2147483648" by simp
  have "unat x mod 2 ^ K < 2 ^ K" by simp
  with assms(3) K have "unat x mod 2 ^ K + unat n < 4294967296" by linarith
  then have "unat ((x AND m) + n) = unat x mod 2 ^ K + unat n"
    by (simp add: unat_plus_u32 unat_and_mask_u32 [OF assms(1)])
  then show ?thesis by (simp add: word_le_nat_alt)
qed

lemma unwrapped_small:
  assumes "unat m + 1 = 2 ^ K" and "K \<le> 31" and "a + unat n \<le> unat (m::u32)"
  shows "unat (n::u32) < 2147483648"
proof -
  have "(2::nat) ^ K \<le> 2 ^ 31" using assms(2) by (intro power_increasing) simp_all
  then have "(2::nat) ^ K \<le> 2147483648" by simp
  with assms(1,3) show ?thesis by linarith
qed

text \<open>
  The two facts on which the rest of the queue stands: on a ring of a power of two the
  unrolled helper, with its two cases and its remainder switch, is the plain masked loop.
\<close>

lemma store_unroll_eq_mask:
  assumes "unat (q_mask q) + 1 = 2 ^ K" and "K \<le> 31" and "unat n \<le> 2 ^ K"
  shows "helper_alf_enqueue_store_unroll p_head q p n = helper_alf_enqueue_store_mask p_head q p n"
proof -
  let ?x = "p_head AND q_mask q"
  have x: "unat ?x = unat p_head mod 2 ^ K" by (rule unat_and_mask_u32 [OF assms(1)])
  have same: "store_masked (unat n) (q_mask q) p 0 ?x (ring q) =
      store_masked (unat n) (q_mask q) p 0 p_head (ring q)"
    by (rule store_masked_from_mask [OF assms(1)]) (simp add: x)
  show ?thesis
  proof (cases "?x + n \<le> q_mask q")
    case True
    then have fit: "unat ?x + unat n \<le> unat (q_mask q)"
      unfolding unwrapped_extent [OF assms] x .
    have "store_run (unat n) p 0 ?x (ring q) = store_masked (unat n) (q_mask q) p 0 ?x (ring q)"
      using fit by (intro store_run_masked [OF assms(1)]) simp
    then show ?thesis
      unfolding helper_alf_enqueue_store_unroll_def helper_alf_enqueue_store_mask_def Let_def
        store_unroll_run [OF unwrapped_small [OF assms(1,2) fit]] same
      using True by simp
  next
    case False
    then show ?thesis
      unfolding helper_alf_enqueue_store_unroll_def helper_alf_enqueue_store_mask_def Let_def same
      by simp
  qed
qed

lemma load_unroll_eq_mask:
  assumes "unat (q_mask q) + 1 = 2 ^ K" and "K \<le> 31" and "unat n \<le> 2 ^ K"
  shows "helper_alf_dequeue_load_unroll c_head q p n = helper_alf_dequeue_load_mask c_head q p n"
proof -
  let ?x = "c_head AND q_mask q"
  have x: "unat ?x = unat c_head mod 2 ^ K" by (rule unat_and_mask_u32 [OF assms(1)])
  have same: "load_masked (unat n) (q_mask q) (ring q) ?x 0 p =
      load_masked (unat n) (q_mask q) (ring q) c_head 0 p"
    by (rule load_masked_from_mask [OF assms(1)]) (simp add: x)
  show ?thesis
  proof (cases "?x + n \<le> q_mask q")
    case True
    then have fit: "unat ?x + unat n \<le> unat (q_mask q)"
      unfolding unwrapped_extent [OF assms] x .
    have "load_run (unat n) (ring q) ?x 0 p = load_masked (unat n) (q_mask q) (ring q) ?x 0 p"
      using fit by (intro load_run_masked [OF assms(1)]) simp
    then show ?thesis
      unfolding helper_alf_dequeue_load_unroll_def helper_alf_dequeue_load_mask_def Let_def
        load_unroll_run [OF unwrapped_small [OF assms(1,2) fit]] same
      using True by simp
  next
    case False
    then show ?thesis
      unfolding helper_alf_dequeue_load_unroll_def helper_alf_dequeue_load_mask_def Let_def same
      by simp
  qed
qed

subsection \<open>The queue as a list\<close>

text \<open>
  A queue at rest (every operation that began has finished, so that heads and tails agree) on
  a ring of a power of two, and the list of the elements it holds, oldest first. The counters
  wrap, so the number of elements is the 32-bit difference of the heads.
\<close>

definition alf_used :: "alf_queue \<Rightarrow> nat" where
  "alf_used q = unat (head (producer q) - head (consumer q))"

definition alf_ok :: "alf_queue \<Rightarrow> bool" where
  "alf_ok q \<longleftrightarrow>
     (\<exists>k\<in>{..31}. unat (q_size q) = 2 ^ k) \<and> q_mask q = q_size q - 1 \<and>
     length (ring q) = unat (q_size q) \<and>
     tail (producer q) = head (producer q) \<and> tail (consumer q) = head (consumer q) \<and>
     alf_used q \<le> unat (q_size q)"

definition alf_contents :: "alf_queue \<Rightarrow> ptr list" where
  "alf_contents q =
     map (\<lambda>t. ring q ! unat ((head (consumer q) + of_nat t) AND q_mask q)) [0..<alf_used q]"

lemma length_alf_contents [simp]: "length (alf_contents q) = alf_used q"
  by (simp add: alf_contents_def)

lemma alf_okE:
  assumes "alf_ok q"
  obtains K where "K \<le> 31" and "unat (q_size q) = 2 ^ K" and "unat (q_mask q) + 1 = 2 ^ K"
    and "length (ring q) = 2 ^ K" and "tail (producer q) = head (producer q)"
    and "tail (consumer q) = head (consumer q)" and "alf_used q \<le> 2 ^ K"
    and "(2::nat) ^ K \<le> 2147483648"
proof -
  from assms obtain K where K: "K \<le> 31" "unat (q_size q) = 2 ^ K" by (auto simp: alf_ok_def)
  have "q_size q \<noteq> 0" using K(2) by (auto simp: word_unat_eq_iff)
  then have "unat (q_size q - 1) + 1 = unat (q_size q)"
    by (simp add: unat_minus_one unat_gt_0)
  moreover have "(2::nat) ^ K \<le> 2 ^ 31" using K(1) by (intro power_increasing) simp_all
  ultimately show thesis using that assms K by (simp add: alf_ok_def)
qed

text \<open>On such a ring a slot is the counter modulo the size.\<close>

lemma alf_contents_mod:
  assumes "alf_ok q"
  shows "alf_contents q =
    map (\<lambda>t. ring q ! ((unat (head (consumer q)) + t) mod unat (q_size q))) [0..<alf_used q]"
proof -
  obtain K where K: "unat (q_size q) = 2 ^ K" "unat (q_mask q) + 1 = 2 ^ K" "alf_used q \<le> 2 ^ K"
    "(2::nat) ^ K \<le> 2147483648" using assms by (rule alf_okE)
  have "unat ((head (consumer q) + of_nat t) AND q_mask q) =
      (unat (head (consumer q)) + t) mod 2 ^ K" if "t < alf_used q" for t
  proof -
    have "unat (of_nat t :: u32) = t" using that K(3,4) by (simp add: unat_of_nat_u32)
    then show ?thesis by (simp add: unat_add_mask_u32 [OF K(2)])
  qed
  then show ?thesis by (simp add: alf_contents_def K(1))
qed

lemma unat_sum_slot:
  assumes "K \<le> 32"
  shows "(unat (x + y :: u32) + t) mod 2 ^ K = (unat x + (unat y + t)) mod 2 ^ K"
proof -
  have "unat (x + y) mod 2 ^ K = (unat x + unat y) mod 2 ^ K"
    unfolding unat_plus_u32 by (rule mod_pow2_mod_u32 [OF assms])
  then have "(unat (x + y) + t) mod 2 ^ K = (unat x + unat y + t) mod 2 ^ K"
    by (rule mod_add_cong) simp
  then show ?thesis by (simp add: add.assoc)
qed

lemma producer_slot:
  assumes "K \<le> 32"
  shows "(unat (head (producer q)) + t) mod 2 ^ K =
    (unat (head (consumer q)) + (alf_used q + t)) mod 2 ^ K"
proof -
  have "head (producer q) = head (consumer q) + (head (producer q) - head (consumer q))" by simp
  then show ?thesis
    using unat_sum_slot [OF assms, of "head (consumer q)" "head (producer q) - head (consumer q)" t]
    unfolding alf_used_def by simp
qed

lemma alf_space:
  assumes "alf_ok q"
  shows "unat (q_size q + tail (consumer q) - head (producer q)) = unat (q_size q) - alf_used q"
proof -
  obtain K where K: "tail (consumer q) = head (consumer q)" "unat (q_size q) = 2 ^ K" "alf_used q \<le> 2 ^ K"
    using assms by (rule alf_okE)
  have "q_size q + tail (consumer q) - head (producer q) =
      q_size q - (head (producer q) - head (consumer q))" unfolding K(1) by simp
  moreover have "head (producer q) - head (consumer q) \<le> q_size q"
    using K(2,3) unfolding word_le_nat_alt alf_used_def by simp
  ultimately show ?thesis by (simp only: unat_sub alf_used_def)
qed

lemma alf_used_advance:
  assumes "alf_used q + unat n < 4294967296"
  shows "unat (head (producer q) + n - head (consumer q)) = alf_used q + unat n"
proof -
  have "head (producer q) + n - head (consumer q) = (head (producer q) - head (consumer q)) + n"
    by simp
  moreover have "unat ((head (producer q) - head (consumer q)) + n) = alf_used q + unat n"
    using assms unfolding alf_used_def unat_plus_u32 by simp
  ultimately show ?thesis by (simp only:)
qed

lemma alf_used_consume:
  assumes "unat n \<le> alf_used q"
  shows "unat (head (producer q) - (head (consumer q) + n)) = alf_used q - unat n"
proof -
  have "head (producer q) - (head (consumer q) + n) = (head (producer q) - head (consumer q)) - n"
    by simp
  moreover have "n \<le> head (producer q) - head (consumer q)"
    using assms by (simp add: word_le_nat_alt alf_used_def)
  ultimately show ?thesis by (simp only: unat_sub alf_used_def)
qed

text \<open>A new queue is empty; the size has to be a power of two.\<close>

lemma alf_queue_alloc_ok:
  assumes "k \<le> 31" and "unat sz = 2 ^ k" and "alf_queue_alloc vok sz = Some q"
  shows "alf_ok q \<and> alf_contents q = [] \<and> q_size q = sz"
  using assms by (auto simp: alf_queue_alloc_def alf_ok_def alf_used_def alf_contents_def
      Let_def split: if_splits)

lemma store_contents:
  assumes ok: "alf_ok q" and n: "unat n \<le> length p" and space: "alf_used q + unat n \<le> unat (q_size q)"
  shows "\<exists>r. store_masked (unat n) (q_mask q) p 0 (head (producer q)) (ring q) = Inr r \<and>
    length r = unat (q_size q) \<and>
    map (\<lambda>t. r ! ((unat (head (consumer q)) + t) mod unat (q_size q))) [0..<alf_used q + unat n] =
      alf_contents q @ take (unat n) p"
proof -
  obtain K where K: "K \<le> 31" "unat (q_size q) = 2 ^ K" "unat (q_mask q) + 1 = 2 ^ K"
    "length (ring q) = 2 ^ K" using ok by (rule alf_okE)
  let ?c = "unat (head (consumer q))" and ?u = "alf_used q"
  have nK: "unat n \<le> 2 ^ K" using space K(2) by simp
  have slot: "(unat (head (producer q)) + t) mod 2 ^ K = (?c + (?u + t)) mod 2 ^ K" for t
    using K(1) by (intro producer_slot) simp
  from store_masked_range [OF K(3,4) nK, of 0 p "head (producer q)"] n obtain r where r:
    "store_masked (unat n) (q_mask q) p 0 (head (producer q)) (ring q) = Inr r" "length r = 2 ^ K"
    "\<And>t. t < unat n \<Longrightarrow> r ! ((?c + (?u + t)) mod 2 ^ K) = p ! t"
    "\<And>s. s < 2 ^ K \<Longrightarrow> (\<forall>t<unat n. (?c + (?u + t)) mod 2 ^ K \<noteq> s) \<Longrightarrow> r ! s = ring q ! s"
    unfolding slot by auto
  have old: "r ! ((?c + t) mod 2 ^ K) = ring q ! ((?c + t) mod 2 ^ K)" if "t < ?u" for t
  proof (rule r(4))
    show "\<forall>i<unat n. (?c + (?u + i)) mod 2 ^ K \<noteq> (?c + t) mod 2 ^ K"
    proof (intro allI impI notI)
      fix i assume i: "i < unat n" and eq: "(?c + (?u + i)) mod 2 ^ K = (?c + t) mod 2 ^ K"
      have "?u + i < 2 ^ K" "t < 2 ^ K" using i that space K(2) by simp_all
      from mod_add_eq_imp_eq [OF eq this] that show False by simp
    qed
  qed simp
  have "map (\<lambda>t. r ! ((?c + t) mod 2 ^ K)) [0..<?u + unat n] = alf_contents q @ take (unat n) p"
  proof (rule nth_equalityI)
    fix i assume "i < length (map (\<lambda>t. r ! ((?c + t) mod 2 ^ K)) [0..<?u + unat n])"
    then have i: "i < ?u + unat n" by simp
    show "map (\<lambda>t. r ! ((?c + t) mod 2 ^ K)) [0..<?u + unat n] ! i =
        (alf_contents q @ take (unat n) p) ! i"
      using i r(3) [of "i - ?u"] old [of i] K(2)
      by (cases "i < ?u") (simp_all add: nth_append alf_contents_mod [OF ok])
  qed (use n in simp)
  then show ?thesis using r(1,2) K(2) by auto
qed

lemma alf_enqueue_appends:
  assumes "alf_ok q" and "unat n \<le> length p" and "alf_used q + unat n \<le> unat (q_size q)"
  shows "\<exists>q'. alf_mp_enqueue q p n = Inr (n, q') \<and> alf_ok q' \<and> q_size q' = q_size q \<and>
    alf_contents q' = alf_contents q @ take (unat n) p"
proof -
  obtain K where K: "K \<le> 31" "unat (q_size q) = 2 ^ K" "unat (q_mask q) + 1 = 2 ^ K"
    "tail (producer q) = head (producer q)" "tail (consumer q) = head (consumer q)"
    "(2::nat) ^ K \<le> 2147483648" using assms(1) by (rule alf_okE)
  from store_contents [OF assms] obtain r where
    st: "store_masked (unat n) (q_mask q) p 0 (head (producer q)) (ring q) = Inr r" and
    len: "length r = unat (q_size q)" and
    cont: "map (\<lambda>t. r ! ((unat (head (consumer q)) + t) mod unat (q_size q)))
        [0..<alf_used q + unat n] = alf_contents q @ take (unat n) p" by blast
  let ?next = "head (producer q) + n"
  let ?q' = "q\<lparr>ring := r, producer := \<lparr>head = ?next, tail = ?next\<rparr>\<rparr>"
  have used: "unat (?next - head (consumer q)) = alf_used q + unat n"
    using assms(3) K by (intro alf_used_advance) linarith
  have "\<not> n > q_size q + tail (consumer q) - head (producer q)"
    unfolding word_less_nat_alt alf_space [OF assms(1)] using assms(3) by simp
  moreover have "helper_alf_enqueue_store_unroll (head (producer q))
      (q\<lparr>producer := (producer q)\<lparr>head := ?next\<rparr>\<rparr>) p n =
      Inr (q\<lparr>producer := (producer q)\<lparr>head := ?next\<rparr>, ring := r\<rparr>)"
    using st K(1,3) assms(3) K(2)
    by (subst store_unroll_eq_mask [of _ K]) (simp_all add: helper_alf_enqueue_store_mask_def)
  ultimately have "alf_mp_enqueue q p n = Inr (n, ?q')"
    using K(4) unfolding alf_mp_enqueue_def Let_def by simp
  moreover have "alf_ok ?q'"
    using assms(1,3) len used by (simp add: alf_ok_def alf_used_def)
  moreover have "alf_contents ?q' = alf_contents q @ take (unat n) p"
    using cont used \<open>alf_ok ?q'\<close> by (simp add: alf_contents_mod alf_used_def)
  ultimately show ?thesis by auto
qed

lemma alf_enqueue_full:
  assumes "alf_ok q" and "\<not> alf_used q + unat n \<le> unat (q_size q)"
  shows "alf_mp_enqueue q p n = Inr (0, q)"
proof -
  have "alf_used q \<le> unat (q_size q)" using assms(1) by (simp add: alf_ok_def)
  with assms(2) have "n > q_size q + tail (consumer q) - head (producer q)"
    unfolding word_less_nat_alt alf_space [OF assms(1)] by linarith
  then show ?thesis by (simp add: alf_mp_enqueue_def Let_def)
qed

lemma alf_dequeue_takes:
  assumes "alf_ok q" and "unat n \<le> length p"
  defines "e \<equiv> min (alf_used q) (unat n)"
  shows "\<exists>q'. alf_mc_dequeue q p n =
      Inr (of_nat e, take e (alf_contents q) @ drop e p, q') \<and> alf_ok q' \<and>
    q_size q' = q_size q \<and> alf_contents q' = drop e (alf_contents q)"
proof -
  obtain K where K: "K \<le> 31" "unat (q_size q) = 2 ^ K" "unat (q_mask q) + 1 = 2 ^ K"
    "length (ring q) = 2 ^ K" "tail (producer q) = head (producer q)"
    "tail (consumer q) = head (consumer q)" "alf_used q \<le> 2 ^ K" using assms(1) by (rule alf_okE)
  let ?c = "head (consumer q)" and ?d = "head (producer q) - head (consumer q)"
  let ?e = "min ?d n"
  let ?q1 = "q\<lparr>consumer := (consumer q)\<lparr>head := ?c + ?e\<rparr>\<rparr>"
  let ?q' = "q\<lparr>consumer := \<lparr>head = ?c + ?e, tail = ?c + ?e\<rparr>\<rparr>"
  have e: "unat ?e = e" unfolding e_def alf_used_def by (simp add: min_def word_le_nat_alt)
  have eu: "e \<le> alf_used q" "e \<le> length p" using assms(2) unfolding e_def by simp_all
  show ?thesis
  proof (cases "?d = 0")
    case True
    then have "alf_used q = 0" by (simp add: alf_used_def)
    then show ?thesis using True assms(1) K(5)
      by (simp add: alf_mc_dequeue_def e_def Let_def)
  next
    case False
    have "helper_alf_dequeue_load_unroll ?c ?q1 p ?e = load_masked e (q_mask q) (ring q) ?c 0 p"
      using K(1,3) eu(1) K(7)
      by (subst load_unroll_eq_mask [of _ K]) (simp_all add: helper_alf_dequeue_load_mask_def e)
    also have "\<dots> = Inr (map (\<lambda>t. ring q ! ((unat ?c + t) mod 2 ^ K)) [0..<e] @ drop e p)"
      using load_masked_range [OF K(3,4), of 0 e p ?c] eu(2) by simp
    also have "map (\<lambda>t. ring q ! ((unat ?c + t) mod 2 ^ K)) [0..<e] = take e (alf_contents q)"
      using eu(1) K(2) by (simp add: alf_contents_mod [OF assms(1)] take_map)
    finally have "alf_mc_dequeue q p n =
        Inr (of_nat e, take e (alf_contents q) @ drop e p, ?q')"
      using False K(5,6) unfolding alf_mc_dequeue_def Let_def e [symmetric] by simp
    moreover have used: "alf_used ?q' = alf_used q - e"
      using alf_used_consume [of ?e q] eu(1) unfolding e by (simp add: alf_used_def)
    moreover have "alf_ok ?q'"
      using assms(1) used le_trans [OF diff_le_self, of "alf_used q" "unat (q_size q)" e]
      unfolding alf_ok_def by simp
    moreover have "alf_contents ?q' = drop e (alf_contents q)"
    proof (rule nth_equalityI)
      fix t assume "t < length (alf_contents ?q')"
      then have t: "t < alf_used q - e" using used by simp
      then have "e + t < alf_used q" by simp
      moreover have "(unat (?c + ?e) + t) mod 2 ^ K = (unat ?c + (e + t)) mod 2 ^ K"
        using unat_sum_slot [of K ?c ?e t] K(1) unfolding e by simp
      ultimately show "alf_contents ?q' ! t = drop e (alf_contents q) ! t"
        using t used eu(1) K(2) alf_contents_mod [OF assms(1)] alf_contents_mod [OF \<open>alf_ok ?q'\<close>]
        by simp
    qed (use used in simp)
    ultimately show ?thesis by auto
  qed
qed

subsection \<open>The queue as its callers use it\<close>

text \<open>
  The pool moves one pointer at a time. \<open>put_index\<close> is the body that
  \<open>put_sending_index\<close> and \<open>put_reclaimable_index\<close> share: whether the element was stored.
  \<open>get_index\<close> is that of \<open>get_sending_index\<close> and \<open>get_reclaimable_index\<close>: the element
  written through the caller's pointer, or \<open>None\<close> when the call returns 1 and leaves
  that pointer alone.
\<close>

definition put_index :: "alf_queue \<Rightarrow> ptr \<Rightarrow> (bool \<times> alf_queue) outcome" where
  "put_index q tmp = bind_ok (alf_mp_enqueue q [tmp] 1) (\<lambda>(k, q). Inr (k = 1, q))"

definition get_index :: "alf_queue \<Rightarrow> (ptr option \<times> alf_queue) outcome" where
  "get_index q =
     (if alf_queue_empty q then Inr (None, q)
      else bind_ok (alf_mc_dequeue q [NULL] 1) (\<lambda>(k, p, q).
        if k = 0 then Inr (None, q) else Inr (Some (p ! 0), q)))"

text \<open>
  What a client may rely on of a bounded first-in first-out queue, and what follows for
  every history of puts and gets: the elements that came out, followed by those still
  inside, are those that were inside, followed by those accepted.
\<close>

datatype 'a fifo_op = Put 'a | Get

fun fifo_run ::
  "('q \<Rightarrow> 'a \<Rightarrow> (bool \<times> 'q) outcome) \<Rightarrow> ('q \<Rightarrow> ('a option \<times> 'q) outcome) \<Rightarrow>
   'a fifo_op list \<Rightarrow> 'q \<Rightarrow> ('a list \<times> 'a list \<times> 'q) outcome" where
  "fifo_run put get [] q = Inr ([], [], q)"
| "fifo_run put get (Put x # ops) q =
     bind_ok (put q x) (\<lambda>(b, q). bind_ok (fifo_run put get ops q) (\<lambda>(ins, outs, q).
       Inr (if b then x # ins else ins, outs, q)))"
| "fifo_run put get (Get # ops) q =
     bind_ok (get q) (\<lambda>(x, q). bind_ok (fifo_run put get ops q) (\<lambda>(ins, outs, q).
       Inr (ins, case x of None \<Rightarrow> outs | Some x \<Rightarrow> x # outs, q)))"

locale fifo =
  fixes inv :: "'q \<Rightarrow> bool"
    and contents :: "'q \<Rightarrow> 'a list"
    and capacity :: "'q \<Rightarrow> nat"
    and put :: "'q \<Rightarrow> 'a \<Rightarrow> (bool \<times> 'q) outcome"
    and get :: "'q \<Rightarrow> ('a option \<times> 'q) outcome"
  assumes put_room: "inv q \<Longrightarrow> length (contents q) < capacity q \<Longrightarrow>
      \<exists>q'. put q x = Inr (True, q') \<and> inv q' \<and> capacity q' = capacity q \<and>
        contents q' = contents q @ [x]"
    and get_empty: "inv q \<Longrightarrow> contents q = [] \<Longrightarrow> get q = Inr (None, q)"
    and get_oldest: "inv q \<Longrightarrow> contents q = x # xs \<Longrightarrow>
      \<exists>q'. get q = Inr (Some x, q') \<and> inv q' \<and> capacity q' = capacity q \<and> contents q' = xs"
    and within: "inv q \<Longrightarrow> length (contents q) \<le> capacity q"
begin

lemma get_cases:
  assumes "inv q"
  obtains (none) "get q = Inr (None, q)" "contents q = []"
    | (oldest) q' x xs where "get q = Inr (Some x, q')" "inv q'" "capacity q' = capacity q"
      "contents q = x # xs" "contents q' = xs"
proof (cases "contents q")
  case Nil
  then show thesis using get_empty [OF assms] none by blast
next
  case (Cons x xs)
  then show thesis using get_oldest [OF assms] oldest by blast
qed

text \<open>A queue that is filled and then drained gives back what was put, in order.\<close>

lemma run_puts:
  assumes "inv q" and "length (contents q) + length xs \<le> capacity q"
  shows "\<exists>q'. fifo_run put get (map Put xs) q = Inr (xs, [], q') \<and> inv q' \<and>
    contents q' = contents q @ xs"
  using assms
proof (induction xs arbitrary: q)
  case (Cons x xs)
  obtain q' where q': "put q x = Inr (True, q')" "inv q'" "capacity q' = capacity q"
    "contents q' = contents q @ [x]" using put_room [OF Cons.prems(1), of x] Cons.prems(2) by auto
  with Cons.IH [OF q'(2)] Cons.prems(2) show ?case by auto
qed simp

lemma run_gets:
  assumes "inv q"
  shows "\<exists>q'. fifo_run put get (replicate (length (contents q)) Get) q = Inr ([], contents q, q') \<and>
    inv q' \<and> contents q' = []"
  using assms
proof (induction "contents q" arbitrary: q)
  case (Cons x xs)
  obtain q' where q': "get q = Inr (Some x, q')" "inv q'" "contents q' = xs"
    using get_oldest [OF Cons.prems Cons.hyps(2) [symmetric]] by auto
  with Cons.hyps(1) [of q'] show ?case by (auto simp flip: Cons.hyps(2))
qed simp

end

text \<open>A queue that also refuses a put exactly when it is full.\<close>

locale bounded_fifo = fifo +
  assumes put_full: "inv q \<Longrightarrow> \<not> length (contents q) < capacity q \<Longrightarrow> put q x = Inr (False, q)"
begin

lemma put_cases:
  assumes "inv q"
  obtains (stored) q' where "put q x = Inr (True, q')" "inv q'" "capacity q' = capacity q"
      "contents q' = contents q @ [x]"
    | (full) "put q x = Inr (False, q)" "length (contents q) = capacity q"
  using put_room [OF assms, of x] put_full [OF assms, of x] within [OF assms] that
  by (cases "length (contents q) < capacity q") auto

lemma run_history:
  assumes "inv q"
  shows "\<exists>ins outs q'. fifo_run put get ops q = Inr (ins, outs, q') \<and> inv q' \<and>
    capacity q' = capacity q \<and> contents q @ ins = outs @ contents q'"
  using assms
proof (induction ops arbitrary: q)
  case Nil
  then show ?case by simp
next
  case (Cons op ops)
  show ?case
  proof (cases op)
    case (Put x)
    from Cons.prems show ?thesis
    proof (cases rule: put_cases [of _ x])
      case (stored q')
      with Cons.IH [OF stored(2)] show ?thesis by (auto simp: Put)
    next
      case full
      with Cons.IH [OF Cons.prems] show ?thesis by (auto simp: Put)
    qed
  next
    case Get
    from Cons.prems show ?thesis
    proof (cases rule: get_cases)
      case none
      with Cons.IH [OF Cons.prems] show ?thesis by (auto simp: Get)
    next
      case (oldest q' x xs)
      with Cons.IH [OF oldest(2)] show ?thesis by (auto simp: Get)
    qed
  qed
qed

end

lemma alf_queue_empty_iff: "alf_ok q \<Longrightarrow> alf_queue_empty q \<longleftrightarrow> alf_contents q = []"
  by (auto simp: alf_queue_empty_def alf_ok_def alf_contents_def alf_used_def unat_eq_0)

lemma put_index_ok:
  assumes "alf_ok q"
  shows "length (alf_contents q) < unat (q_size q) \<Longrightarrow>
      \<exists>q'. put_index q x = Inr (True, q') \<and> alf_ok q' \<and> q_size q' = q_size q \<and>
        alf_contents q' = alf_contents q @ [x]"
    and "\<not> length (alf_contents q) < unat (q_size q) \<Longrightarrow> put_index q x = Inr (False, q)"
  using alf_enqueue_appends [OF assms, of 1 "[x]"] alf_enqueue_full [OF assms, of 1 "[x]"]
  by (auto simp: put_index_def)

lemma get_index_ok:
  assumes "alf_ok q"
  shows "alf_contents q = [] \<Longrightarrow> get_index q = Inr (None, q)"
    and "alf_contents q = x # xs \<Longrightarrow> \<exists>q'. get_index q = Inr (Some x, q') \<and> alf_ok q' \<and>
      q_size q' = q_size q \<and> alf_contents q' = xs"
proof -
  show "get_index q = Inr (None, q)" if "alf_contents q = []"
    using that alf_queue_empty_iff [OF assms] by (simp add: get_index_def)
  assume c: "alf_contents q = x # xs"
  then have "alf_used q > 0" by (metis length_alf_contents length_greater_0_conv list.discI)
  then have "min (alf_used q) (unat (1::u32)) = 1" by simp
  with alf_dequeue_takes [OF assms, of 1 "[NULL]"] c alf_queue_empty_iff [OF assms]
  show "\<exists>q'. get_index q = Inr (Some x, q') \<and> alf_ok q' \<and> q_size q' = q_size q \<and>
      alf_contents q' = xs"
    by (auto simp: get_index_def)
qed

interpretation alf: bounded_fifo alf_ok alf_contents "\<lambda>q. unat (q_size q)" put_index get_index
proof unfold_locales
  show "length (alf_contents q) \<le> unat (q_size q)" if "alf_ok q" for q
    using that by (simp add: alf_ok_def)
  show "\<exists>q'. put_index q x = Inr (True, q') \<and> alf_ok q' \<and> unat (q_size q') = unat (q_size q) \<and>
      alf_contents q' = alf_contents q @ [x]"
    if "alf_ok q" "length (alf_contents q) < unat (q_size q)" for q x
    using put_index_ok(1) [OF that] by force
  show "\<exists>q'. get_index q = Inr (Some x, q') \<and> alf_ok q' \<and> unat (q_size q') = unat (q_size q) \<and>
      alf_contents q' = xs" if "alf_ok q" "alf_contents q = x # xs" for q x xs
    using get_index_ok(2) [OF that] by force
qed (simp_all add: put_index_ok(2) get_index_ok(1))

subsection \<open>A ring of any size\<close>

text \<open>
  One put and one get on any ring, whatever its size: the slot is the counter under the mask.
\<close>

lemma put_index_any:
  assumes "tail (producer q) = head (producer q)"
    and "1 \<le> q_size q + tail (consumer q) - head (producer q)"
    and "unat (head (producer q) AND q_mask q) < length (ring q)"
  shows "put_index q x = Inr (True, q\<lparr>
    producer := \<lparr>head = head (producer q) + 1, tail = head (producer q) + 1\<rparr>,
    ring := (ring q)[unat (head (producer q) AND q_mask q) := x]\<rparr>)"
proof -
  have "helper_alf_enqueue_store_unroll (head (producer q))
      (q\<lparr>producer := (producer q)\<lparr>head := head (producer q) + 1\<rparr>\<rparr>) [x] 1 =
      Inr (q\<lparr>producer := (producer q)\<lparr>head := head (producer q) + 1\<rparr>,
        ring := (ring q)[unat (head (producer q) AND q_mask q) := x]\<rparr>)"
    using assms(3) by (simp add: helper_alf_enqueue_store_unroll_def store1_def Let_def and.assoc)
  then show ?thesis
    using assms(1,2) by (auto simp: put_index_def alf_mp_enqueue_def Let_def not_less)
qed

lemma get_index_any:
  assumes "tail (consumer q) = head (consumer q)" and "tail (producer q) \<noteq> head (consumer q)"
    and "unat (head (consumer q) AND q_mask q) < length (ring q)"
  shows "get_index q = Inr (Some (ring q ! unat (head (consumer q) AND q_mask q)), q\<lparr>
    consumer := \<lparr>head = head (consumer q) + 1, tail = head (consumer q) + 1\<rparr>\<rparr>)"
proof -
  have m: "min (tail (producer q) - head (consumer q)) 1 = (1::u32)"
    using assms(2) by (intro min_absorb2) (simp add: word_le_nat_alt unat_gt_0 Suc_le_eq)
  have "helper_alf_dequeue_load_unroll (head (consumer q))
      (q\<lparr>consumer := (consumer q)\<lparr>head := head (consumer q) + 1\<rparr>\<rparr>) [NULL] 1 =
      Inr [ring q ! unat (head (consumer q) AND q_mask q)]"
    using assms(3) by (simp add: helper_alf_dequeue_load_unroll_def load1_def Let_def and.assoc)
  then show ?thesis
    using assms(1,2) by (simp add: get_index_def alf_queue_empty_def alf_mc_dequeue_def Let_def m)
qed

text \<open>
  A ring whose size is a multiple of \<open>2 ^ k\<close> is first in, first out as long as it holds at
  most \<open>2 ^ k\<close> elements: the counters of such a window meet in no slot.
\<close>

definition alf_win :: "nat \<Rightarrow> alf_queue \<Rightarrow> bool" where
  "alf_win k q \<longleftrightarrow> k \<le> 31 \<and> 2 ^ k dvd unat (q_size q) \<and> q_size q \<noteq> 0 \<and> q_mask q = q_size q - 1 \<and>
     length (ring q) = unat (q_size q) \<and>
     tail (producer q) = head (producer q) \<and> tail (consumer q) = head (consumer q) \<and>
     alf_used q \<le> 2 ^ k"

lemma alf_winD:
  assumes "alf_win k q"
  shows "k \<le> 31" and "2 ^ k dvd unat (q_mask q) + 1" and "unat (q_mask q) + 1 = unat (q_size q)"
    and "(2::nat) ^ k \<le> unat (q_size q)" and "unat (x AND q_mask q) < length (ring q)"
    and "(2::nat) ^ k \<le> 2147483648"
proof -
  have w: "2 ^ k dvd unat (q_size q)" "q_size q \<noteq> 0" "q_mask q = q_size q - 1"
    "length (ring q) = unat (q_size q)" "k \<le> 31" using assms by (auto simp: alf_win_def)
  show k: "k \<le> 31" by (rule w(5))
  have "unat (q_size q - 1) + 1 = unat (q_size q)" using w(2) by (simp add: unat_minus_one unat_gt_0)
  then show m: "unat (q_mask q) + 1 = unat (q_size q)" unfolding w(3) .
  show "2 ^ k dvd unat (q_mask q) + 1" unfolding m by (rule w(1))
  show "(2::nat) ^ k \<le> unat (q_size q)" using w(1,2) by (intro dvd_imp_le) (simp_all add: unat_gt_0)
  show "unat (x AND q_mask q) < length (ring q)" using and_mask_le [of x "q_mask q"] m w(4) by linarith
  have "(2::nat) ^ k \<le> 2 ^ 31" using k by (intro power_increasing) simp_all
  then show "(2::nat) ^ k \<le> 2147483648" by simp
qed

lemma window_slots_distinct:
  assumes "2 ^ k dvd unat m + 1" and "k \<le> 31" and "s < 2 ^ k" and "t < 2 ^ k"
    and "(c + of_nat s) AND m = (c + of_nat t) AND (m::u32)"
  shows "s = t"
proof (rule mod_add_eq_imp_eq [OF _ assms(3,4)])
  have le: "(2::nat) ^ k \<le> 2 ^ 31" using assms(2) by (intro power_increasing) simp_all
  have *: "unat ((c + of_nat u) AND m) mod 2 ^ k = (unat c + u) mod 2 ^ k" if "u < 2 ^ k" for u
  proof -
    have "unat (of_nat u :: u32) = u" using that le by (simp add: unat_of_nat_u32)
    then have "unat (c + of_nat u) mod 2 ^ k = (unat c + u) mod 2 ^ k"
      using unat_sum_slot [of k c "of_nat u" 0] assms(2) by simp
    then show ?thesis by (simp add: and_mask_low [OF assms(1)])
  qed
  show "(unat c + s) mod 2 ^ k = (unat c + t) mod 2 ^ k"
    using * [OF assms(3)] * [OF assms(4)] assms(5) by simp
qed

lemma of_nat_alf_used: "of_nat (alf_used q) = head (producer q) - head (consumer q)"
  by (simp add: alf_used_def)

lemma win_put_index:
  assumes "alf_win k q" and "alf_used q < 2 ^ k"
  shows "\<exists>q'. put_index q x = Inr (True, q') \<and> alf_win k q' \<and> q_size q' = q_size q \<and>
    alf_contents q' = alf_contents q @ [x]"
proof -
  note w = alf_winD [OF assms(1)]
  let ?h = "head (producer q)" and ?c = "head (consumer q)"
  let ?s = "unat (?h AND q_mask q)"
  let ?q' = "q\<lparr>producer := \<lparr>head = ?h + 1, tail = ?h + 1\<rparr>, ring := (ring q)[?s := x]\<rparr>"
  have t: "tail (producer q) = ?h" "tail (consumer q) = ?c" using assms(1) by (auto simp: alf_win_def)
  have "?h - ?c < q_size q"
    using assms(2) w(4) unfolding word_less_nat_alt alf_used_def by linarith
  then have "0 < q_size q - (?h - ?c)" by (simp add: word_less_nat_alt unat_sub word_le_nat_alt)
  then have "1 \<le> q_size q + tail (consumer q) - ?h"
    unfolding t by (simp add: word_le_nat_alt word_less_nat_alt algebra_simps)
  then have put: "put_index q x = Inr (True, ?q')" using put_index_any [of q x] t w(5) by simp
  have used: "alf_used ?q' = Suc (alf_used q)"
    using alf_used_advance [of q 1] assms(2) w(6) by (simp add: alf_used_def)
  have "alf_win k ?q'" using assms used by (simp add: alf_win_def)
  moreover have "alf_contents ?q' = alf_contents q @ [x]"
  proof (rule nth_equalityI)
    fix t assume "t < length (alf_contents ?q')"
    then have t: "t < Suc (alf_used q)" using used by simp
    have h: "?h = ?c + of_nat (alf_used q)" by (simp add: of_nat_alf_used)
    have "unat ((?c + of_nat t) AND q_mask q) \<noteq> ?s" if "t < alf_used q"
      using window_slots_distinct [OF w(2,1), of t "alf_used q" ?c] that assms(2) h
      by (auto simp flip: word_unat_eq_iff)
    moreover have "?s = unat ((?c + of_nat t) AND q_mask q)" if "t = alf_used q" using that h by simp
    ultimately have "(ring q)[?s := x] ! unat ((?c + of_nat t) AND q_mask q) =
        (if t < alf_used q then ring q ! unat ((?c + of_nat t) AND q_mask q) else x)"
      using t w(5) by (cases "t = alf_used q") (simp_all add: nth_list_update)
    then show "alf_contents ?q' ! t = (alf_contents q @ [x]) ! t"
      using t used by (simp add: alf_contents_def nth_append del: upt_Suc)
  qed (use used in simp)
  ultimately show ?thesis using put by auto
qed

lemma win_get_index:
  assumes "alf_win k q" and "alf_contents q = x # xs"
  shows "\<exists>q'. get_index q = Inr (Some x, q') \<and> alf_win k q' \<and> q_size q' = q_size q \<and>
    alf_contents q' = xs"
proof -
  note w = alf_winD [OF assms(1)]
  let ?c = "head (consumer q)"
  let ?q' = "q\<lparr>consumer := \<lparr>head = ?c + 1, tail = ?c + 1\<rparr>\<rparr>"
  have t: "tail (producer q) = head (producer q)" "tail (consumer q) = ?c"
    using assms(1) by (auto simp: alf_win_def)
  have u: "alf_used q = Suc (length xs)" using assms(2) by (metis length_Cons length_alf_contents)
  then have "head (producer q) \<noteq> ?c" by (auto simp: alf_used_def)
  then have "get_index q = Inr (Some (ring q ! unat (?c AND q_mask q)), ?q')"
    using get_index_any [of q] t w(5) by simp
  moreover have "alf_contents q = ring q ! unat (?c AND q_mask q) #
      map (\<lambda>t. ring q ! unat ((?c + of_nat (Suc t)) AND q_mask q)) [0..<length xs]"
    unfolding alf_contents_def u upt_conv_Cons [OF zero_less_Suc] map_Suc_upt [symmetric] by simp
  moreover have used: "alf_used ?q' = length xs"
    using alf_used_consume [of 1 q] u by (simp add: alf_used_def)
  moreover have "alf_win k ?q'" using assms(1) u used by (simp add: alf_win_def)
  ultimately show ?thesis using assms(2) by (auto simp: alf_contents_def add.assoc)
qed

lemma win_get_empty:
  assumes "alf_win k q" and "alf_contents q = []"
  shows "get_index q = Inr (None, q)"
proof -
  have "alf_used q = 0" using assms(2) by (metis length_alf_contents list.size(3))
  then have "tail (consumer q) = tail (producer q)"
    using assms(1) by (auto simp: alf_win_def alf_used_def unat_eq_0)
  then show ?thesis by (simp add: get_index_def alf_queue_empty_def)
qed

interpretation win: fifo "alf_win k" alf_contents "\<lambda>_. 2 ^ k" put_index get_index for k
proof unfold_locales
  show "length (alf_contents q) \<le> 2 ^ k" if "alf_win k q" for q
    using that by (simp add: alf_win_def)
qed (use win_put_index win_get_index win_get_empty in \<open>force+\<close>)

text \<open>A new queue is an empty window for every power of two that divides its size.\<close>

lemma alf_queue_alloc_win:
  assumes "k \<le> 31" and "2 ^ k dvd unat sz" and "sz \<noteq> 0" and "alf_queue_alloc vok sz = Some q"
  shows "alf_win k q \<and> alf_contents q = [] \<and> q_size q = sz"
  using assms by (auto simp: alf_queue_alloc_def alf_win_def alf_used_def alf_contents_def
      Let_def split: if_splits)

end
