(* ===== verification/Alf_Properties.thy ===== *)
theory Alf_Properties
  imports Alf_Queue
begin

text \<open>
  What the array queue guarantees: the unrolled copy loops, bulk enqueue and dequeue as list
  operations, the single-producer and single-consumer variants, the observers, the
  history of a queue under any sequence of puts and gets, and what happens with a ring whose
  size is not a power of two, as the pool allocates it.
\<close>

text \<open>
  On a ring of a power of two up to 2 ^ 31 slots, the unrolled store and load helpers, with
  their unmasked fast path, groups of four and remainder switch, do what the plain masked
  loops do, for every start counter and every count that fits the ring.
\<close>

theorem alf_unrolled_copy_equiv:
  assumes "unat (q_mask q) + 1 = 2 ^ K" and "K \<le> 31" and "unat n \<le> 2 ^ K"
  shows "helper_alf_enqueue_store_unroll h q p n = helper_alf_enqueue_store_mask h q p n \<and>
    helper_alf_dequeue_load_unroll h q p n = helper_alf_dequeue_load_mask h q p n"
  using store_unroll_eq_mask [OF assms] load_unroll_eq_mask [OF assms] by simp

definition sample_queue :: alf_queue where
  "sample_queue = \<lparr>q_size = 4, q_mask = 3, q_flags = 0,
     producer = \<lparr>head = 1, tail = 1\<rparr>, consumer = \<lparr>head = - 2, tail = - 2\<rparr>,
     ring = [12, 0, 10, 11]\<rparr>"

lemma sample_queue_ok: "alf_ok sample_queue" "alf_contents sample_queue = [10, 11, 12]"
  "q_size sample_queue = 4" "alf_used sample_queue = 3" "q_mask sample_queue = 3"
proof -
  show "alf_ok sample_queue"
    unfolding alf_ok_def by (intro conjI bexI [of _ 2]) (simp_all add: sample_queue_def alf_used_def)
qed (simp_all add: sample_queue_def alf_contents_def alf_used_def upt_rec)

theorem alf_unrolled_copy_equiv_witness:
  "helper_alf_enqueue_store_unroll (- 2) sample_queue [1, 2, 3] 3 =
     helper_alf_enqueue_store_mask (- 2) sample_queue [1, 2, 3] 3 \<and>
   helper_alf_dequeue_load_unroll (- 2) sample_queue [1, 2, 3] 3 =
     helper_alf_dequeue_load_mask (- 2) sample_queue [1, 2, 3] 3"
  by (rule alf_unrolled_copy_equiv [of _ 2]) (simp_all add: sample_queue_ok)

text \<open>
  Bulk enqueue on a queue at rest: when all \<open>n\<close> pointers fit, they are appended in order,
  \<open>n\<close> is returned and the queue stays well formed; when they do not, nothing is
  stored and 0 is returned. The 32-bit counters may wrap in between.
\<close>

theorem alf_mp_enqueue_spec:
  assumes "alf_ok q" and "unat n \<le> length p"
  shows "if length (alf_contents q) + unat n \<le> unat (q_size q)
    then \<exists>q'. alf_mp_enqueue q p n = Inr (n, q') \<and> alf_ok q' \<and> q_size q' = q_size q \<and>
      alf_contents q' = alf_contents q @ take (unat n) p
    else alf_mp_enqueue q p n = Inr (0, q)"
  using alf_enqueue_appends [OF assms] alf_enqueue_full [OF assms(1)] by simp

theorem alf_mp_enqueue_spec_witness:
  "alf_mp_enqueue sample_queue [20, 21] 2 = Inr (0, sample_queue) \<and>
   (\<exists>q'. alf_mp_enqueue sample_queue [20, 21] 1 = Inr (1, q') \<and> alf_contents q' = [10, 11, 12, 20])"
  using alf_mp_enqueue_spec [of sample_queue 2 "[20, 21]"]
    alf_mp_enqueue_spec [of sample_queue 1 "[20, 21]"]
  by (auto simp: sample_queue_ok)

text \<open>
  Bulk dequeue on a queue at rest hands out the oldest elements, as many as asked for or as
  many as there are, in order, at the front of the caller's array, and removes exactly these.
\<close>

theorem alf_mc_dequeue_spec:
  assumes "alf_ok q" and "unat n \<le> length p"
  shows "\<exists>e q'. e = min (length (alf_contents q)) (unat n) \<and>
    alf_mc_dequeue q p n = Inr (of_nat e, take e (alf_contents q) @ drop e p, q') \<and>
    alf_ok q' \<and> q_size q' = q_size q \<and> alf_contents q' = drop e (alf_contents q)"
  using alf_dequeue_takes [OF assms] by simp

theorem alf_mc_dequeue_spec_witness:
  "\<exists>q'. alf_mc_dequeue sample_queue [0, 0] 2 = Inr (2, [10, 11], q') \<and> alf_contents q' = [12]"
  using alf_mc_dequeue_spec [of sample_queue 2 "[0, 0]"] by (auto simp: sample_queue_ok)

text \<open>
  On a queue at rest the single-producer and single-consumer variants give the same results
  and leave the same queue as the multi-producer and multi-consumer ones.
\<close>

theorem alf_single_variants_agree:
  assumes "alf_ok q"
  shows "alf_sp_enqueue q p n = alf_mp_enqueue q p n \<and> alf_sc_dequeue q p n = alf_mc_dequeue q p n"
proof -
  have t: "tail (producer q) = head (producer q)" "tail (consumer q) = head (consumer q)"
    using assms by (auto simp: alf_ok_def)
  have "tail (producer q') = tail (producer q)"
    if "helper_alf_enqueue_store_unroll h (q\<lparr>producer := (producer q)\<lparr>head := x\<rparr>\<rparr>) p n = Inr q'" for h x q'
    using that unfolding helper_alf_enqueue_store_unroll_def Let_def
    by (auto simp: bind_ok_eq_Inr split: if_splits)
  then show ?thesis
    unfolding alf_sp_enqueue_def alf_mp_enqueue_def alf_sc_dequeue_def alf_mc_dequeue_def Let_def
    by (auto simp: t intro!: bind_ok_cong)
qed

theorem alf_single_variants_agree_witness:
  "alf_sp_enqueue sample_queue [20] 1 = alf_mp_enqueue sample_queue [20] 1 \<and>
   alf_sc_dequeue sample_queue [20] 1 = alf_mc_dequeue sample_queue [20] 1"
  by (rule alf_single_variants_agree) (rule sample_queue_ok)

text \<open>
  The observers of a queue at rest: it is empty iff it holds nothing, and, below the 2 ^ 31
  slots at which an \<open>int\<close> turns negative, the count is the number of elements and the
  space is the size less that number.
\<close>

theorem alf_observers:
  assumes "alf_ok q" and "unat (q_size q) < 2147483648"
  shows "(alf_queue_empty q \<longleftrightarrow> alf_contents q = []) \<and>
    alf_queue_count q = int (length (alf_contents q)) \<and>
    alf_queue_avail_space q = int (unat (q_size q)) - int (length (alf_contents q))"
proof -
  have u: "alf_used q \<le> unat (q_size q)" "tail (producer q) = head (producer q)"
    using assms(1) by (auto simp: alf_ok_def)
  have "alf_queue_count q = int (alf_used q)"
    using sint_small_u32 [of "head (producer q) - head (consumer q)"] u assms(2)
    unfolding alf_queue_count_def alf_used_def by simp
  moreover have "alf_queue_avail_space q = int (unat (q_size q) - alf_used q)"
    unfolding alf_queue_avail_space_def alf_space [OF assms(1), symmetric]
    by (rule sint_small_u32) (use alf_space [OF assms(1)] assms(2) in linarith)
  ultimately show ?thesis using u(1) alf_queue_empty_iff [OF assms(1)] by simp
qed

theorem alf_observers_witness:
  "\<not> alf_queue_empty sample_queue \<and> alf_queue_count sample_queue = 3 \<and>
   alf_queue_avail_space sample_queue = 1"
  using alf_observers [of sample_queue] by (simp add: sample_queue_ok)

text \<open>
  C20. Every history of single puts and gets on a ring of a power of two runs to the end and is
  first in, first out: what was inside followed by what was accepted is what came out
  followed by what is left inside.
\<close>

theorem alf_fifo_history:
  assumes "alf_ok q"
  shows "\<exists>ins outs q'. fifo_run put_index get_index ops q = Inr (ins, outs, q') \<and>
    alf_ok q' \<and> q_size q' = q_size q \<and> alf_contents q @ ins = outs @ alf_contents q'"
  using alf.run_history [OF assms, of ops] by (auto simp: word_unat_eq_iff)

theorem alf_fifo_history_witness:
  "\<exists>ins outs q'. fifo_run put_index get_index [Put 20, Put 21, Get, Get] sample_queue =
      Inr (ins, outs, q') \<and> [10, 11, 12] @ ins = outs @ alf_contents q'"
  using alf_fifo_history [of sample_queue "[Put 20, Put 21, Get, Get]"]
  by (auto simp: sample_queue_ok)

subsection \<open>A ring whose size is not a power of two\<close>

text \<open>
  The state of the pool's queue of 6553600 slots after \<open>k\<close> puts and no get.
\<close>

definition filled :: "nat \<Rightarrow> alf_queue \<Rightarrow> bool" where
  "filled k q \<longleftrightarrow> q_size q = 6553600 \<and> q_mask q = 6553599 \<and> length (ring q) = 6553600 \<and>
     consumer q = \<lparr>head = 0, tail = 0\<rparr> \<and> producer q = \<lparr>head = of_nat k, tail = of_nat k\<rparr>"

lemma and_mask_in_ring: "unat ((x::u32) AND 6553599) < 6553600"
proof -
  have "x AND 6553599 \<le> 6553599" by (rule word_and_le1)
  then show ?thesis by (simp add: word_le_nat_alt)
qed

lemma filled_put:
  assumes "filled k q" and "k < 6553600"
  shows "\<exists>q'. put_index q x = Inr (True, q') \<and> filled (Suc k) q' \<and>
    ring q' = (ring q)[unat ((of_nat k :: u32) AND 6553599) := x]"
proof -
  have "unat (6553600 - of_nat k :: u32) = 6553600 - k"
    using assms(2) by (subst unat_sub) (simp_all add: word_le_nat_alt unat_of_nat_u32)
  then have "1 \<le> (6553600 - of_nat k :: u32)"
    using assms(2) by (simp add: word_le_nat_alt)
  then have "put_index q x = Inr (True, q\<lparr>
      producer := \<lparr>head = of_nat k + 1, tail = of_nat k + 1\<rparr>,
      ring := (ring q)[unat ((of_nat k :: u32) AND 6553599) := x]\<rparr>)"
    using put_index_any [of q x] assms(1) and_mask_in_ring by (simp add: filled_def)
  then show ?thesis using assms(1) by (auto simp: filled_def add.commute)
qed

lemma filled_puts:
  assumes "filled k q" and "k + length xs \<le> 6553600"
  shows "\<exists>q'. fifo_run put_index get_index (map Put xs) q = Inr (xs, [], q') \<and>
    filled (k + length xs) q'"
  using assms
proof (induction xs arbitrary: k q)
  case (Cons x xs)
  obtain q' where "put_index q x = Inr (True, q')" "filled (Suc k) q'"
    using filled_put [OF Cons.prems(1), of x] Cons.prems(2) by auto
  then show ?case using Cons.IH [of "Suc k" q'] Cons.prems(2) by auto
qed simp

lemma fifo_run_append:
  "fifo_run p g (xs @ ys) q = bind_ok (fifo_run p g xs q) (\<lambda>(i, out, q).
     bind_ok (fifo_run p g ys q) (\<lambda>(i', out', q). Inr (i @ i', out @ out', q)))"
proof (induction xs arbitrary: q)
  case Nil
  then show ?case by (auto intro!: bind_ok_cong simp: case_prod_beta)
next
  case (Cons op xs)
  then show ?case
    by (cases op) (auto intro!: bind_ok_cong simp: case_prod_beta bind_ok_assoc split: option.splits)
qed

text \<open>
  C23. The pool allocates its queues with 6553600 slots, which is not a power of two: with the
  mask 6553599, the counters 0 and 262144 meet in slot 0. After 262145 accepted puts on a new
  queue, far below its size, the first get returns the last element put: the oldest one
  has been overwritten.
\<close>

theorem alf_pool_queue_overwrites:
  assumes "alf_queue_alloc vok 6553600 = Some q" and "length xs = 262145"
  shows "\<exists>q'. fifo_run put_index get_index (map Put xs @ [Get]) q = Inr (xs, [last xs], q')"
proof -
  obtain ys y where xs: "xs = ys @ [y]" using assms(2) by (cases xs rule: rev_exhaust) auto
  have "filled 0 q"
    using assms(1) by (auto simp: alf_queue_alloc_def filled_def Let_def split: if_splits)
  then obtain q1 where q1: "fifo_run put_index get_index (map Put ys) q = Inr (ys, [], q1)"
    "filled 262144 q1" using filled_puts [of 0 q ys] assms(2) by (auto simp: xs)
  obtain q2 where q2: "put_index q1 y = Inr (True, q2)" "filled 262145 q2" "ring q2 = (ring q1)[0 := y]"
    using filled_put [OF q1(2), of y] by auto
  have "get_index q2 = Inr (Some y, q2\<lparr>consumer := \<lparr>head = 1, tail = 1\<rparr>\<rparr>)"
    using get_index_any [of q2] q2(2,3) q1(2) by (simp add: filled_def)
  then show ?thesis using q1(1) q2(1) by (simp add: xs fifo_run_append)
qed

theorem alf_pool_queue_overwrites_witness:
  "\<exists>q'. fifo_run put_index get_index (map Put [0..<262145] @ [Get])
      (the (alf_queue_alloc (\<lambda>_. True) 6553600)) = Inr ([0..<262145], [262144], q')"
proof -
  have "alf_queue_alloc (\<lambda>_. True) 6553600 = Some (the (alf_queue_alloc (\<lambda>_. True) 6553600))"
    by (simp add: alf_queue_alloc_def Let_def)
  from alf_pool_queue_overwrites [OF this, of "[0..<262145]"] show ?thesis
    by simp
qed

text \<open>
  Up to 262144 elements, the largest power of two that divides 6553600, the pool's queue is
  sound in spite of its size: that many puts on a new queue are all accepted and come out
  again complete and in order.
\<close>

theorem alf_pool_queue_window:
  assumes "alf_queue_alloc vok 6553600 = Some q" and "length xs \<le> 262144"
  shows "\<exists>q'. fifo_run put_index get_index (map Put xs @ replicate (length xs) Get) q = Inr (xs, xs, q')"
proof -
  have q: "alf_win 18 q" "alf_contents q = []"
    using alf_queue_alloc_win [OF _ _ _ assms(1), of 18] by simp_all
  then obtain q1 where q1: "fifo_run put_index get_index (map Put xs) q = Inr (xs, [], q1)"
    "alf_win 18 q1" "alf_contents q1 = xs" using win.run_puts [of 18 q xs] assms(2) by auto
  then show ?thesis using win.run_gets [of 18 q1] by (auto simp: fifo_run_append)
qed

theorem alf_pool_queue_window_witness:
  "\<exists>q'. fifo_run put_index get_index (map Put [7, 8, 9] @ [Get, Get, Get])
      (the (alf_queue_alloc (\<lambda>_. True) 6553600)) = Inr ([7, 8, 9], [7, 8, 9], q')"
proof -
  have "alf_queue_alloc (\<lambda>_. True) 6553600 = Some (the (alf_queue_alloc (\<lambda>_. True) 6553600))"
    by (simp add: alf_queue_alloc_def Let_def)
  from alf_pool_queue_window [OF this, of "[7, 8, 9]"] show ?thesis
    by simp
qed

end
