(* ===== verification/Alf_Copies.thy ===== *)
theory Alf_Copies
  imports Alf_Properties
begin

text \<open>
  The other copy loops of alf_queue_helpers.h, which are there to be chosen from: each is given once, over the loop that copies consecutive elements, and
  used for storing and for loading. The interface \<open>copy_loop\<close> has what both directions have in common, and under it every variant is the masked loop.
\<close>

type_synonym 'a copying = "nat \<Rightarrow> nat \<Rightarrow> u32 \<Rightarrow> 'a \<Rightarrow> 'a outcome"

subsection \<open>The variants\<close>

text \<open>\<open>run k i index\<close> copies \<open>k\<close> elements from \<open>i\<close> and \<open>index\<close> on, \<open>masked\<close> does so with the mask.\<close>

primrec simple_copy :: "'a copying \<Rightarrow> u32 \<Rightarrow> 'a copying" where
  "simple_copy run sz 0 i index a = Inr a"
| "simple_copy run sz (Suc n) i index a =
     bind_ok (run 1 i index a) (simple_copy run sz n (i + 1) ((if index = sz then 0 else index) + 1))"

definition mask_less_copy :: "'a copying \<Rightarrow> 'a copying \<Rightarrow> u32 \<Rightarrow> u32 \<Rightarrow> u32 \<Rightarrow> 'a \<Rightarrow> 'a outcome" where
  "mask_less_copy run masked qmask start n a =
     (let index = start AND qmask
      in if index + n \<le> qmask then run (unat n) 0 index a else masked (unat n) 0 index a)"

definition mask_less2_copy :: "'a copying \<Rightarrow> u32 \<Rightarrow> u32 \<Rightarrow> u32 \<Rightarrow> 'a \<Rightarrow> 'a outcome" where
  "mask_less2_copy run qmask start n a =
     (let index = start AND qmask; k = unat qmask + 1 - unat index
      in if index + n \<le> qmask then run (unat n) 0 index a
         else bind_ok (run k 0 index a) (run (unat n - k) k 0))"

definition nomask_copy :: "'a copying \<Rightarrow> u32 \<Rightarrow> u32 \<Rightarrow> u32 \<Rightarrow> 'a \<Rightarrow> 'a outcome" where
  "nomask_copy run qmask start n a =
     (let index = start AND qmask; k = min (unat n) (unat qmask + 1 - unat index)
      in bind_ok (run k 0 index a) (run (unat n - k) k 0))"

text \<open>Duff's device: the remainder comes first, and every turn after that copies four elements, the last one first.\<close>

definition duff_turn :: "'a copying \<Rightarrow> nat \<Rightarrow> u32 \<Rightarrow> 'a \<Rightarrow> 'a outcome" where
  "duff_turn run i index a =
     bind_ok (run 1 (i + 3) (index + 3) a) (\<lambda>a. bind_ok (run 1 (i + 2) (index + 2) a) (\<lambda>a.
     bind_ok (run 1 (i + 1) (index + 1) a) (run 1 i index)))"

function duff_while :: "'a copying \<Rightarrow> nat \<Rightarrow> nat \<Rightarrow> u32 \<Rightarrow> 'a \<Rightarrow> 'a outcome" where
  "duff_while run iterations i index a =
     bind_ok (duff_turn run i index a) (\<lambda>a.
       if index + 4 \<noteq> 0 \<and> i + 4 < iterations then duff_while run iterations (i + 4) (index + 4) a else Inr a)"
  by auto
termination by (relation "measure (\<lambda>(run, iterations, i, index, a). iterations - i)") auto

declare duff_while.simps [simp del]

definition duff_copy :: "'a copying \<Rightarrow> 'a copying \<Rightarrow> u32 \<Rightarrow> u32 \<Rightarrow> u32 \<Rightarrow> 'a \<Rightarrow> 'a outcome" where
  "duff_copy run masked qmask start n a =
     (let index = start AND qmask; r = unat n mod 4; iterations = unat n - r
      in if index + n \<le> qmask
         then if r = 0 then duff_while run iterations 0 index a
              else bind_ok (if r = 3 then run 1 2 (index + 2) a else Inr a) (\<lambda>a.
                   bind_ok (if 2 \<le> r then run 1 1 (index + 1) a else Inr a) (\<lambda>a. bind_ok (run 1 0 index a) (\<lambda>a.
                     if iterations \<noteq> 0 then duff_while run iterations r (index + of_nat r) a else Inr a)))
         else masked (unat n) 0 index a)"

definition memcpy_copy :: "'a copying \<Rightarrow> u32 \<Rightarrow> u32 \<Rightarrow> u32 \<Rightarrow> u32 \<Rightarrow> 'a \<Rightarrow> 'a outcome" where
  "memcpy_copy run sz qmask start n a =
     (let next_slot = (start + n) AND qmask; head_slot = start AND qmask
      in if head_slot \<le> next_slot then run (unat (next_slot - head_slot)) 0 head_slot a
         else bind_ok (run (unat (sz - head_slot)) 0 head_slot a) (run (unat next_slot) (unat (sz - head_slot)) 0))"

subsection \<open>Storing and loading\<close>

definition storing :: "ptr list \<Rightarrow> ptr list copying" where
  "storing p k i index r = store_run k p i index r"

definition storing_masked :: "ptr list \<Rightarrow> u32 \<Rightarrow> ptr list copying" where
  "storing_masked p m k i index r = store_masked k m p i index r"

definition loading :: "ptr list \<Rightarrow> ptr list copying" where
  "loading r k i index p = load_run k r index i p"

definition loading_masked :: "ptr list \<Rightarrow> u32 \<Rightarrow> ptr list copying" where
  "loading_masked r m k i index p = load_masked k m r index i p"

definition with_ring :: "alf_queue \<Rightarrow> ptr list outcome \<Rightarrow> alf_queue outcome" where
  "with_ring q m = bind_ok m (\<lambda>r. Inr (q\<lparr>ring := r\<rparr>))"

definition helper_alf_enqueue_store_simple :: "u32 \<Rightarrow> alf_queue \<Rightarrow> ptr list \<Rightarrow> u32 \<Rightarrow> alf_queue outcome" where
  "helper_alf_enqueue_store_simple p_head q p n =
     with_ring q (simple_copy (storing p) (q_size q) (unat n) 0 (p_head AND q_mask q) (ring q))"

definition helper_alf_dequeue_load_simple :: "u32 \<Rightarrow> alf_queue \<Rightarrow> ptr list \<Rightarrow> u32 \<Rightarrow> ptr list outcome" where
  "helper_alf_dequeue_load_simple c_head q p elems =
     simple_copy (loading (ring q)) (q_size q) (unat elems) 0 (c_head AND q_mask q) p"

definition helper_alf_enqueue_store_mask_less :: "u32 \<Rightarrow> alf_queue \<Rightarrow> ptr list \<Rightarrow> u32 \<Rightarrow> alf_queue outcome" where
  "helper_alf_enqueue_store_mask_less p_head q p n =
     with_ring q (mask_less_copy (storing p) (storing_masked p (q_mask q)) (q_mask q) p_head n (ring q))"

definition helper_alf_dequeue_load_mask_less :: "u32 \<Rightarrow> alf_queue \<Rightarrow> ptr list \<Rightarrow> u32 \<Rightarrow> ptr list outcome" where
  "helper_alf_dequeue_load_mask_less c_head q p elems =
     mask_less_copy (loading (ring q)) (loading_masked (ring q) (q_mask q)) (q_mask q) c_head elems p"

definition helper_alf_enqueue_store_mask_less2 :: "u32 \<Rightarrow> alf_queue \<Rightarrow> ptr list \<Rightarrow> u32 \<Rightarrow> alf_queue outcome" where
  "helper_alf_enqueue_store_mask_less2 p_head q p n = with_ring q (mask_less2_copy (storing p) (q_mask q) p_head n (ring q))"

definition helper_alf_dequeue_load_mask_less2 :: "u32 \<Rightarrow> alf_queue \<Rightarrow> ptr list \<Rightarrow> u32 \<Rightarrow> ptr list outcome" where
  "helper_alf_dequeue_load_mask_less2 c_head q p elems = mask_less2_copy (loading (ring q)) (q_mask q) c_head elems p"

definition helper_alf_enqueue_store_nomask :: "u32 \<Rightarrow> alf_queue \<Rightarrow> ptr list \<Rightarrow> u32 \<Rightarrow> alf_queue outcome" where
  "helper_alf_enqueue_store_nomask p_head q p n = with_ring q (nomask_copy (storing p) (q_mask q) p_head n (ring q))"

definition helper_alf_dequeue_load_nomask :: "u32 \<Rightarrow> alf_queue \<Rightarrow> ptr list \<Rightarrow> u32 \<Rightarrow> ptr list outcome" where
  "helper_alf_dequeue_load_nomask c_head q p elems = nomask_copy (loading (ring q)) (q_mask q) c_head elems p"

definition helper_alf_enqueue_store_unroll_duff :: "u32 \<Rightarrow> alf_queue \<Rightarrow> ptr list \<Rightarrow> u32 \<Rightarrow> alf_queue outcome" where
  "helper_alf_enqueue_store_unroll_duff p_head q p n =
     with_ring q (duff_copy (storing p) (storing_masked p (q_mask q)) (q_mask q) p_head n (ring q))"

definition helper_alf_dequeue_load_unroll_duff :: "u32 \<Rightarrow> alf_queue \<Rightarrow> ptr list \<Rightarrow> u32 \<Rightarrow> ptr list outcome" where
  "helper_alf_dequeue_load_unroll_duff c_head q p elems =
     duff_copy (loading (ring q)) (loading_masked (ring q) (q_mask q)) (q_mask q) c_head elems p"

definition helper_alf_enqueue_store_memcpy :: "u32 \<Rightarrow> alf_queue \<Rightarrow> ptr list \<Rightarrow> u32 \<Rightarrow> alf_queue outcome" where
  "helper_alf_enqueue_store_memcpy p_head q p n = with_ring q (memcpy_copy (storing p) (q_size q) (q_mask q) p_head n (ring q))"

definition helper_alf_dequeue_load_memcpy :: "u32 \<Rightarrow> alf_queue \<Rightarrow> ptr list \<Rightarrow> u32 \<Rightarrow> ptr list outcome" where
  "helper_alf_dequeue_load_memcpy c_head q p elems = memcpy_copy (loading (ring q)) (q_size q) (q_mask q) c_head elems p"

subsection \<open>What storing and loading have in common\<close>

locale copy_loop =
  fixes run :: "nat \<Rightarrow> nat \<Rightarrow> u32 \<Rightarrow> 'a \<Rightarrow> 'a outcome" and masked :: "u32 \<Rightarrow> nat \<Rightarrow> nat \<Rightarrow> u32 \<Rightarrow> 'a \<Rightarrow> 'a outcome"
  assumes run_0: "run 0 i x a = Inr a"
    and run_add: "bind_ok (run k i x a) (run j (i + k) (x + of_nat k)) = run (k + j) i x a"
    and masked_add: "bind_ok (masked m k i x a) (masked m j (i + k) (x + of_nat k)) = masked m (k + j) i x a"
    and masked_run: "unat m + 1 = 2 ^ K \<Longrightarrow> unat x + k \<le> unat m + 1 \<Longrightarrow> masked m k i x a = run k i x a"
    and masked_from: "unat m + 1 = 2 ^ K \<Longrightarrow> unat x mod 2 ^ K = unat y mod 2 ^ K \<Longrightarrow> masked m k i x a = masked m k i y a"
    and swap: "i \<noteq> j \<Longrightarrow> x \<noteq> y \<Longrightarrow> bind_ok (run 1 i x a) (run 1 j y) = bind_ok (run 1 j y a) (run 1 i x)"
begin

lemma from_mask:
  assumes "unat m + 1 = 2 ^ K"
  shows "masked m k i (x AND m) a = masked m k i x a"
  by (rule masked_from [OF assms]) (simp add: unat_and_mask_u32 [OF assms])

lemma unwrapped:
  assumes "unat m + 1 = 2 ^ K" and "unat s mod 2 ^ K + n \<le> 2 ^ K"
  shows "run n 0 (s AND m) a = masked m n 0 s a"
proof -
  have "masked m n 0 (s AND m) a = run n 0 (s AND m) a"
    by (rule masked_run [OF assms(1)]) (use assms in \<open>simp add: unat_and_mask_u32 [OF assms(1)]\<close>)
  then show ?thesis by (simp add: from_mask [OF assms(1)])
qed

text \<open>A copy that goes over the end of the ring: the part up to the end, and the rest from the start.\<close>

lemma wrapped:
  assumes m: "unat m + 1 = 2 ^ K" and "2 ^ K \<le> unat s mod 2 ^ K + n" and "n \<le> 2 ^ K" and "k = 2 ^ K - unat s mod 2 ^ K"
  shows "bind_ok (run k 0 (s AND m) a) (run (n - k) k 0) = masked m n 0 s a"
proof -
  let ?x = "s AND m"
  have x: "unat ?x = unat s mod 2 ^ K" by (rule unat_and_mask_u32 [OF m])
  have h: "unat s mod 2 ^ K < 2 ^ K" by simp
  then have k: "k \<le> n" "unat ?x + k = unat m + 1" "0 + (n - k) \<le> unat m + 1"
    using assms unfolding x by linarith+
  have "K \<le> 32" by (rule pow2_le_32) (use m u32_unat_lt [of m] in linarith)
  then have "2 ^ K dvd (4294967296::nat)" using le_imp_power_dvd [of K 32 "2::nat"] by simp
  then have "unat (?x + of_nat k) mod 2 ^ K = (unat ?x + k) mod 2 ^ K"
    by (simp add: unat_plus_u32 unat_of_nat_u32 mod_mod_cancel mod_add_right_eq)
  then have z: "unat (?x + of_nat k) mod 2 ^ K = unat (0::u32) mod 2 ^ K" using k(2) m by simp
  have "masked m n 0 s a = masked m (k + (n - k)) 0 ?x a" using k(1) by (simp add: from_mask [OF m])
  also have "\<dots> = bind_ok (masked m k 0 ?x a) (masked m (n - k) (0 + k) (?x + of_nat k))" by (rule masked_add [symmetric])
  also have "masked m k 0 ?x a = run k 0 ?x a" by (rule masked_run [OF m]) (simp add: k(2))
  also have "masked m (n - k) (0 + k) (?x + of_nat k) = run (n - k) k 0"
    using masked_from [OF m z] masked_run [OF m, of 0 "n - k"] k(3) by (simp add: fun_eq_iff)
  finally show ?thesis by simp
qed

lemma mask_less:
  assumes "unat m + 1 = 2 ^ K" and "K \<le> 31" and "unat n \<le> 2 ^ K"
  shows "mask_less_copy run (masked m) m s n a = masked m (unat n) 0 s a"
  using unwrapped [OF assms(1), of s "unat n" a] assms(1)
  by (simp add: mask_less_copy_def Let_def unwrapped_extent [OF assms] from_mask [OF assms(1)])

lemma mask_less2:
  assumes "unat m + 1 = 2 ^ K" and "K \<le> 31" and "unat n \<le> 2 ^ K"
  shows "mask_less2_copy run m s n a = masked m (unat n) 0 s a"
proof -
  have x: "unat (s AND m) = unat s mod 2 ^ K" by (rule unat_and_mask_u32 [OF assms(1)])
  show ?thesis
    using unwrapped [OF assms(1), of s "unat n" a] wrapped [OF assms(1) _ assms(3) refl, of s a] assms(1)
    unfolding mask_less2_copy_def Let_def unwrapped_extent [OF assms] x by simp
qed

lemma nomask:
  assumes "unat m + 1 = 2 ^ K" and "unat n \<le> 2 ^ K"
  shows "nomask_copy run m s n a = masked m (unat n) 0 s a"
proof -
  have x: "unat (s AND m) = unat s mod 2 ^ K" by (rule unat_and_mask_u32 [OF assms(1)])
  show ?thesis
  proof (cases "unat s mod 2 ^ K + unat n \<le> 2 ^ K")
    case True
    then have "min (unat n) (2 ^ K - unat s mod 2 ^ K) = unat n" by simp
    then show ?thesis using unwrapped [OF assms(1) True, of a]
      unfolding nomask_copy_def Let_def x assms(1) by (cases "run (unat n) 0 (s AND m) a") (simp_all add: run_0)
  next
    case False
    then have "min (unat n) (2 ^ K - unat s mod 2 ^ K) = 2 ^ K - unat s mod 2 ^ K" by simp
    then show ?thesis using wrapped [OF assms(1) _ assms(2) refl, of s a] False
      unfolding nomask_copy_def Let_def x assms(1) by simp
  qed
qed

lemma memcpys:
  assumes "unat m + 1 = 2 ^ K" and "K \<le> 31" and "unat n < 2 ^ K" and "unat sz = 2 ^ K"
  shows "memcpy_copy run sz m s n a = masked m (unat n) 0 s a"
proof -
  have x: "unat (y AND m) = unat y mod 2 ^ K" for y by (rule unat_and_mask_u32 [OF assms(1)])
  have "2 ^ K dvd (4294967296::nat)" using assms(2) le_imp_power_dvd [of K 32 "2::nat"] by simp
  then have y: "unat (s + n) mod 2 ^ K = (unat s mod 2 ^ K + unat n) mod 2 ^ K"
    by (simp add: unat_plus_u32 mod_mod_cancel mod_add_left_eq)
  have h: "unat s mod 2 ^ K < 2 ^ K" by simp
  show ?thesis
  proof (cases "unat s mod 2 ^ K + unat n < 2 ^ K")
    case True
    then have le: "s AND m \<le> (s + n) AND m" by (simp add: word_le_nat_alt x y)
    then have "unat (((s + n) AND m) - (s AND m)) = unat n" using True by (simp add: unat_sub x y)
    then show ?thesis using le unwrapped [OF assms(1), of s "unat n" a] True by (simp add: memcpy_copy_def Let_def)
  next
    case False
    then have nx: "(unat s mod 2 ^ K + unat n) mod 2 ^ K = unat s mod 2 ^ K + unat n - 2 ^ K"
    proof -
      have "unat s mod 2 ^ K + unat n - 2 ^ K < 2 ^ K" using h assms(3) by linarith
      then show ?thesis using False by (simp add: le_mod_geq)
    qed
    then have "\<not> s AND m \<le> (s + n) AND m" using False assms(3) h by (simp add: word_le_nat_alt x y)
    moreover have "unat (sz - (s AND m)) = 2 ^ K - unat s mod 2 ^ K"
      using h assms(4) by (simp add: unat_sub word_le_nat_alt x less_imp_le)
    moreover have "unat ((s + n) AND m) = unat n - (2 ^ K - unat s mod 2 ^ K)" using False h by (simp add: x y nx)
    ultimately show ?thesis using wrapped [OF assms(1) _ _ refl, of s "unat n" a] False assms(3)
      by (simp add: memcpy_copy_def Let_def)
  qed
qed

text \<open>Copies may change places, and so a run of up to four can be done with the last copy first.\<close>

lemma exchange:
  assumes "j < 4" and "k < 4"
  shows "bind_ok (bind_ok c (run 1 (i + k) (x + of_nat k))) (run 1 (i + j) (x + of_nat j)) =
    bind_ok (bind_ok c (run 1 (i + j) (x + of_nat j))) (run 1 (i + k) (x + of_nat k))"
proof (cases "j = k")
  case False
  then have "of_nat j \<noteq> (of_nat k :: u32)" using assms by (simp add: word_unat_eq_iff unat_of_nat_u32)
  then have "bind_ok (run 1 (i + k) (x + of_nat k) b) (run 1 (i + j) (x + of_nat j)) =
      bind_ok (run 1 (i + j) (x + of_nat j) b) (run 1 (i + k) (x + of_nat k))" for b
    using False by (intro swap) simp_all
  then show ?thesis by (simp add: bind_ok_assoc)
qed simp

lemma run_Suc: "run (Suc j) i x a = bind_ok (run j i x a) (run 1 (i + j) (x + of_nat j))"
  using run_add [of j i x a 1] by simp

lemma small_numbers:
  "(3::nat) < 4" "(2::nat) < 4" "(1::nat) < 4" "(0::nat) < 4" "(4::nat) = Suc 3" "(3::nat) = Suc 2" "(2::nat) = Suc 1" "(1::nat) = Suc 0"
  by simp_all

lemma reversed:
  "run 2 i x a = bind_ok (run 1 (i + 1) (x + 1) a) (run 1 i x)"
  "run 3 i x a = bind_ok (run 1 (i + 2) (x + 2) a) (\<lambda>a. bind_ok (run 1 (i + 1) (x + 1) a) (run 1 i x))"
  "run 4 i x a = duff_turn run i x a"
proof -
  let ?o = "\<lambda>j m. bind_ok m (run 1 (i + j) (x + of_nat j))"
  note ex = exchange [where i = i and x = x]
  note n = small_numbers
  have r1: "run 1 i x a = ?o 0 (Inr a)" by simp
  have "run 2 i x a = ?o 1 (run 1 i x a)" unfolding n(7) by (rule run_Suc)
  also have "\<dots> = ?o 0 (?o 1 (Inr a))" by (simp only: r1 ex [OF n(3,4)])
  finally have r2: "run 2 i x a = ?o 0 (?o 1 (Inr a))" .
  have "run 3 i x a = ?o 2 (run 2 i x a)" unfolding n(6) by (rule run_Suc)
  also have "\<dots> = ?o 0 (?o 1 (?o 2 (Inr a)))" by (simp only: r2 ex [OF n(2,4)] ex [OF n(2,3)])
  finally have r3: "run 3 i x a = ?o 0 (?o 1 (?o 2 (Inr a)))" .
  have "run 4 i x a = ?o 3 (run 3 i x a)" unfolding n(5) by (rule run_Suc)
  also have "\<dots> = ?o 0 (?o 1 (?o 2 (?o 3 (Inr a))))" by (simp only: r3 ex [OF n(1,4)] ex [OF n(1,3)] ex [OF n(1,2)])
  finally show "run 4 i x a = duff_turn run i x a" by (simp add: duff_turn_def bind_ok_assoc)
  show "run 2 i x a = bind_ok (run 1 (i + 1) (x + 1) a) (run 1 i x)" by (simp add: r2)
  show "run 3 i x a = bind_ok (run 1 (i + 2) (x + 2) a) (\<lambda>a. bind_ok (run 1 (i + 1) (x + 1) a) (run 1 i x))"
    by (simp add: r3 bind_ok_assoc)
qed

lemmas turn = reversed(3) [symmetric]

lemma turns:
  "0 < c \<Longrightarrow> c = 1 \<or> i + 4 * (c - 1) < iterations \<Longrightarrow> iterations \<le> i + 4 * c \<Longrightarrow> unat x + 4 * c < 4294967296 \<Longrightarrow>
   duff_while run iterations i x a = run (4 * c) i x a"
proof (induction c arbitrary: i x a)
  case (Suc c)
  show ?case
  proof (cases "c = 0")
    case True
    then show ?thesis using Suc.prems by (subst duff_while.simps) (simp add: turn cong: bind_ok_cong)
  next
    case False
    then have "i + 4 < iterations" "unat (x + 4) = unat x + 4" using Suc.prems by (auto simp: unat_plus_u32)
    moreover from this have "x + 4 \<noteq> 0" by (metis add_eq_0_iff_both_eq_0 unat_0 zero_neq_numeral)
    ultimately have "duff_while run iterations i x a = bind_ok (run 4 i x a) (duff_while run iterations (i + 4) (x + 4))"
      by (subst duff_while.simps) (simp add: turn)
    also have "duff_while run iterations (i + 4) (x + 4) = run (4 * c) (i + 4) (x + 4)"
      using Suc.IH [of "i + 4" "x + 4"] Suc.prems False \<open>unat (x + 4) = unat x + 4\<close>
      by (cases c) (auto simp: fun_eq_iff)
    finally show ?thesis using run_add [of 4 i x a "4 * c"] by simp
  qed
qed simp

lemma duffs:
  assumes "unat m + 1 = 2 ^ K" and "K \<le> 31" and "0 < n" and "unat n \<le> 2 ^ K"
  shows "duff_copy run (masked m) m s n a = masked m (unat n) 0 s a"
proof (cases "(s AND m) + n \<le> m")
  case False
  then show ?thesis by (simp add: duff_copy_def from_mask [OF assms(1)])
next
  case True
  let ?x = "s AND m" and ?r = "unat n mod 4" and ?c = "unat n div 4"
  have fit: "unat s mod 2 ^ K + unat n \<le> unat m" using True unfolding unwrapped_extent [OF assms(1,2,4)] .
  then have x: "unat ?x + unat n < 4294967296" "unat ?x + unat n \<le> unat m"
    using u32_unat_lt [of m] unfolding unat_and_mask_u32 [OF assms(1)] by linarith+
  have n: "unat n = ?r + 4 * ?c" "unat n - ?r = 4 * ?c" "0 < unat n" using assms(3) by (simp_all add: word_less_nat_alt minus_mod_eq_mult_div)
  have spec: "masked m (unat n) 0 s a = run (unat n) 0 ?x a" using unwrapped [OF assms(1), of s "unat n" a] fit assms(1) by simp
  have later: "bind_ok (run ?r 0 ?x a) (\<lambda>a. if 4 * ?c \<noteq> 0 then duff_while run (4 * ?c) ?r (?x + of_nat ?r) a else Inr a) =
      run (unat n) 0 ?x a" if "?r \<noteq> 0"
  proof (cases "?c = 0")
    case True
    then show ?thesis using n(1) by simp
  next
    case False
    have "unat (?x + of_nat ?r) = unat ?x + ?r" using x(1) by (intro unat_index_add) linarith
    then have "duff_while run (4 * ?c) ?r (?x + of_nat ?r) b = run (4 * ?c) ?r (?x + of_nat ?r) b" for b
      using False x(1) n(1) by (intro turns) auto
    then show ?thesis using run_add [of ?r 0 ?x a "4 * ?c"] n(1) False by simp
  qed
  consider "?r = 0" | "?r = 1" | "?r = 2" | "?r = 3" using mod_less_divisor [of 4 "unat n"] by linarith
  then show ?thesis
  proof cases
    case 1
    then have "duff_while run (unat n) 0 ?x a = run (4 * ?c) 0 ?x a" using n x(1) by (intro turns) auto
    then show ?thesis using 1 True spec n by (simp add: duff_copy_def Let_def)
  next
    case 2
    then show ?thesis using later True spec unfolding duff_copy_def Let_def n(2) by simp
  next
    case 3
    then show ?thesis using later True spec reversed(1) [of 0 ?x a] unfolding duff_copy_def Let_def n(2) by (simp add: bind_ok_assoc)
  next
    case 4
    then show ?thesis using later True spec reversed(2) [of 0 ?x a] unfolding duff_copy_def Let_def n(2) by (simp add: bind_ok_assoc numeral_2_eq_2)
  qed
qed

end

subsection \<open>Both directions\<close>

lemma store_masked_add:
  "bind_ok (store_masked k m p i x r) (store_masked j m p (i + k) (x + of_nat k)) = store_masked (k + j) m p i x r"
proof (induction k arbitrary: i x r)
  case (Suc k)
  then show ?case using Suc.IH [of "i + 1" "x + 1"] by (simp add: bind_ok_assoc add.assoc)
qed simp

lemma load_masked_add:
  "bind_ok (load_masked k m r x i p) (load_masked j m r (x + of_nat k) (i + k)) = load_masked (k + j) m r x i p"
proof (induction k arbitrary: i x p)
  case (Suc k)
  then show ?case using Suc.IH [of "x + 1" "i + 1"] by (simp add: bind_ok_assoc add.assoc)
qed simp

lemma store1_swap:
  "x \<noteq> y \<Longrightarrow> bind_ok (store1 p i x r) (store1 p j y) = bind_ok (store1 p j y r) (store1 p i x)"
  by (auto simp: store1_def arr_get_def arr_set_def list_update_swap word_unat_eq_iff)

lemma load1_swap:
  "i \<noteq> j \<Longrightarrow> bind_ok (load1 r x i p) (load1 r y j) = bind_ok (load1 r y j p) (load1 r x i)"
  by (auto simp: load1_def arr_get_def arr_set_def list_update_swap)

interpretation stores: copy_loop "storing p" "storing_masked p" for p
proof
  show "storing p 0 i x a = Inr a" for i x a by (simp add: storing_def)
  show "bind_ok (storing p k i x a) (storing p j (i + k) (x + of_nat k)) = storing p (k + j) i x a" for k i x a j
    using store_run_add [of k p i x a j] by (simp add: storing_def [abs_def])
  show "bind_ok (storing_masked p m k i x a) (storing_masked p m j (i + k) (x + of_nat k)) = storing_masked p m (k + j) i x a" for m k i x a j
    using store_masked_add [of k m p i x a j] by (simp add: storing_masked_def [abs_def])
  show "storing_masked p m k i x a = storing p k i x a" if "unat m + 1 = 2 ^ K" "unat x + k \<le> unat m + 1" for m K x k i a
    using store_run_masked [OF that] by (simp add: storing_def storing_masked_def)
  show "storing_masked p m k i x a = storing_masked p m k i y a" if "unat m + 1 = 2 ^ K" "unat x mod 2 ^ K = unat y mod 2 ^ K" for m K x y k i a
    using store_masked_from_mask [OF that] by (simp add: storing_masked_def)
  show "bind_ok (storing p 1 i x a) (storing p 1 j y) = bind_ok (storing p 1 j y a) (storing p 1 i x)" if "x \<noteq> y" for i j x y a
    using store1_swap [OF that] by (simp add: storing_def [abs_def] small_runs)
qed

interpretation loads: copy_loop "loading r" "loading_masked r" for r
proof
  show "loading r 0 i x a = Inr a" for i x a by (simp add: loading_def)
  show "bind_ok (loading r k i x a) (loading r j (i + k) (x + of_nat k)) = loading r (k + j) i x a" for k i x a j
    using load_run_add [of k r x i a j] by (simp add: loading_def [abs_def])
  show "bind_ok (loading_masked r m k i x a) (loading_masked r m j (i + k) (x + of_nat k)) = loading_masked r m (k + j) i x a" for m k i x a j
    using load_masked_add [of k m r x i a j] by (simp add: loading_masked_def [abs_def])
  show "loading_masked r m k i x a = loading r k i x a" if "unat m + 1 = 2 ^ K" "unat x + k \<le> unat m + 1" for m K x k i a
    using load_run_masked [OF that] by (simp add: loading_def loading_masked_def)
  show "loading_masked r m k i x a = loading_masked r m k i y a" if "unat m + 1 = 2 ^ K" "unat x mod 2 ^ K = unat y mod 2 ^ K" for m K x y k i a
    using load_masked_from_mask [OF that] by (simp add: loading_masked_def)
  show "bind_ok (loading r 1 i x a) (loading r 1 j y) = bind_ok (loading r 1 j y a) (loading r 1 i x)" if "i \<noteq> j" for i j x y a
    using load1_swap [OF that] by (simp add: loading_def [abs_def] small_runs)
qed

text \<open>
  C40. The copy loops are interchangeable: on a ring of a power of two, for at least one element and fewer than there are slots, the loop in use (unrolled), the one
  with Duff's device, those that save the mask, and the block copies all store and load what the plain masked loop does, and fail when it fails.
\<close>

theorem copy_loops_agree:
  assumes "unat (q_mask q) + 1 = 2 ^ K" and "K \<le> 31" and "unat (q_size q) = 2 ^ K" and "0 < n" and "unat n < 2 ^ K"
  shows "helper_alf_enqueue_store_unroll h q p n = helper_alf_enqueue_store_mask h q p n \<and>
    helper_alf_enqueue_store_mask_less h q p n = helper_alf_enqueue_store_mask h q p n \<and>
    helper_alf_enqueue_store_mask_less2 h q p n = helper_alf_enqueue_store_mask h q p n \<and>
    helper_alf_enqueue_store_nomask h q p n = helper_alf_enqueue_store_mask h q p n \<and>
    helper_alf_enqueue_store_unroll_duff h q p n = helper_alf_enqueue_store_mask h q p n \<and>
    helper_alf_enqueue_store_memcpy h q p n = helper_alf_enqueue_store_mask h q p n \<and>
    helper_alf_dequeue_load_unroll h q p n = helper_alf_dequeue_load_mask h q p n \<and>
    helper_alf_dequeue_load_mask_less h q p n = helper_alf_dequeue_load_mask h q p n \<and>
    helper_alf_dequeue_load_mask_less2 h q p n = helper_alf_dequeue_load_mask h q p n \<and>
    helper_alf_dequeue_load_nomask h q p n = helper_alf_dequeue_load_mask h q p n \<and>
    helper_alf_dequeue_load_unroll_duff h q p n = helper_alf_dequeue_load_mask h q p n \<and>
    helper_alf_dequeue_load_memcpy h q p n = helper_alf_dequeue_load_mask h q p n"
proof -
  have n: "unat n \<le> 2 ^ K" using assms(5) by simp
  have s: "with_ring q (storing_masked p (q_mask q) (unat n) 0 h (ring q)) = helper_alf_enqueue_store_mask h q p n"
    by (simp add: with_ring_def storing_masked_def helper_alf_enqueue_store_mask_def)
  have l: "loading_masked (ring q) (q_mask q) (unat n) 0 h p = helper_alf_dequeue_load_mask h q p n"
    by (simp add: loading_masked_def helper_alf_dequeue_load_mask_def)
  show ?thesis
    unfolding helper_alf_enqueue_store_mask_less_def helper_alf_enqueue_store_mask_less2_def helper_alf_enqueue_store_nomask_def
      helper_alf_enqueue_store_unroll_duff_def helper_alf_enqueue_store_memcpy_def helper_alf_dequeue_load_mask_less_def
      helper_alf_dequeue_load_mask_less2_def helper_alf_dequeue_load_nomask_def helper_alf_dequeue_load_unroll_duff_def
      helper_alf_dequeue_load_memcpy_def
      stores.mask_less [OF assms(1,2) n] stores.mask_less2 [OF assms(1,2) n] stores.nomask [OF assms(1) n]
      stores.duffs [OF assms(1,2,4) n] stores.memcpys [OF assms(1,2,5,3)]
      loads.mask_less [OF assms(1,2) n] loads.mask_less2 [OF assms(1,2) n] loads.nomask [OF assms(1) n]
      loads.duffs [OF assms(1,2,4) n] loads.memcpys [OF assms(1,2,5,3)] s l
    using store_unroll_eq_mask [OF assms(1,2) n] load_unroll_eq_mask [OF assms(1,2) n] by blast
qed

text \<open>The sample queue has four slots; three elements are copied from its slot 2 on.\<close>

theorem copy_loops_agree_witness:
  "\<forall>p. helper_alf_enqueue_store_unroll_duff 2 sample_queue p 3 = helper_alf_enqueue_store_mask 2 sample_queue p 3 \<and>
     helper_alf_dequeue_load_memcpy 2 sample_queue p 3 = helper_alf_dequeue_load_mask 2 sample_queue p 3"
  using copy_loops_agree [of sample_queue 2 3 2] by (simp add: sample_queue_ok)

text \<open>
  What the first variant does: at the end of the ring it goes one slot too far, since it compares the index after the copy, so that a copy that has to
  go round does not stay in the ring. The block copy of as many elements as there are slots copies none when it starts at slot 0.
\<close>

lemma simple_goes_too_far:
  assumes "length (ring q) = unat (q_size q)" and "unat (h AND q_mask q) + 1 = unat (q_size q)" and "1 < unat n" and "unat n \<le> length p"
  shows "helper_alf_enqueue_store_simple h q p n = Inl Out_Of_Bounds"
proof -
  let ?x = "h AND q_mask q"
  obtain k where k: "unat n = Suc (Suc k)" using assms(3) by (metis less_imp_Suc_add One_nat_def add_Suc)
  have "unat (?x + 1) = unat ?x + 1" using assms(2) u32_unat_lt [of "q_size q"] by (simp add: unat_plus_u32)
  then have "?x + 1 = q_size q" "?x \<noteq> q_size q" using assms(2) by (auto simp: word_unat_eq_iff)
  moreover have "0 < length p" "Suc 0 < length p" using assms(4) k by linarith+
  ultimately show ?thesis using assms k
    by (simp add: helper_alf_enqueue_store_simple_def with_ring_def storing_def store1_def arr_set_def)
qed

lemma memcpy_copies_none: "unat (q_mask q) + 1 = 2 ^ K \<Longrightarrow> unat n = 2 ^ K \<Longrightarrow> helper_alf_enqueue_store_memcpy 0 q p n = Inr q"
  by (simp add: helper_alf_enqueue_store_memcpy_def memcpy_copy_def Let_def with_ring_def storing_def word_unat_eq_iff unat_and_mask_u32)

end
