(* ===== verification/Alf_Concurrent.thy ===== *)
theory Alf_Concurrent
  imports Alf_Queue
begin

text \<open>
  The array queue under several callers at once (alf_queue.h, \<open>alf_mp_enqueue\<close> and
  \<open>alf_mc_dequeue\<close>). A caller's place in its operation is a value of \<open>caller\<close>; one step is one
  access to a variable that the callers share: a read of a head or a tail, the \<open>cmpxchg\<close>,
  one copy to or from the ring, one reading of the tail in the wait, the write of the tail.
  Any caller may take the next step. Memory is sequentially consistent, as the barriers of the
  code are there to make it.

  The shared state carries, beside the queue, what no step reads: the values whose room has been
  reserved, in order, the counts of the elements published, claimed and freed, which are the
  heads and tails without their wrap-around, and the values handed out.
\<close>

datatype caller =
    Idle
  | Enq_Read "ptr list"
  | Enq_Space "ptr list" u32 nat
  | Enq_Cas "ptr list" u32 nat
  | Enq_Store "ptr list" u32 nat nat
  | Enq_Wait "ptr list" u32 nat
  | Enq_Mark "ptr list" u32 nat
  | Deq_Read u32
  | Deq_Elems u32 u32 nat
  | Deq_Cas u32 u32 u32 nat
  | Deq_Load u32 u32 nat "ptr list"
  | Deq_Wait u32 u32 nat "ptr list"
  | Deq_Mark u32 u32 nat "ptr list"

record alf_shared =
  queue :: alf_queue
  accepted :: "ptr list"
  published :: nat
  claimed :: nat
  freed :: nat
  handed :: "ptr list list"

text \<open>
  One step of a caller. \<open>Inl Hang\<close> is a turn of the wait for the callers before it that finds
  the tail not there yet. The last \<open>nat\<close> of a place before the \<open>cmpxchg\<close> is the count when the
  head was read, after it the count at which the caller's elements start.
\<close>

fun caller_step :: "caller \<Rightarrow> alf_shared \<Rightarrow> (caller \<times> alf_shared) outcome" where
  "caller_step Idle s = Inr (Idle, s)"
| "caller_step (Enq_Read xs) s =
     Inr (Enq_Space xs (head (producer (queue s))) (length (accepted s)), s)"
| "caller_step (Enq_Space xs p_head snap) s =
     (let q = queue s; space = q_size q + tail (consumer q) - p_head
      in if of_nat (length xs) > space then Inr (Idle, s) else Inr (Enq_Cas xs p_head snap, s))"
| "caller_step (Enq_Cas xs p_head snap) s =
     (let q = queue s
      in if head (producer q) = p_head
         then Inr (Enq_Store xs p_head (length (accepted s)) 0,
           s\<lparr>queue := q\<lparr>producer := (producer q)\<lparr>head := p_head + of_nat (length xs)\<rparr>\<rparr>,
             accepted := accepted s @ xs\<rparr>)
         else Inr (Enq_Read xs, s))"
| "caller_step (Enq_Store xs p_head st i) s =
     (let q = queue s
      in if i < length xs
         then bind_ok (store1 xs i ((p_head + of_nat i) AND q_mask q) (ring q))
           (\<lambda>r. Inr (Enq_Store xs p_head st (i + 1), s\<lparr>queue := q\<lparr>ring := r\<rparr>\<rparr>))
         else Inr (Enq_Wait xs p_head st, s))"
| "caller_step (Enq_Wait xs p_head st) s =
     (if tail (producer (queue s)) \<noteq> p_head then Inl Hang else Inr (Enq_Mark xs p_head st, s))"
| "caller_step (Enq_Mark xs p_head st) s =
     (let q = queue s
      in Inr (Idle, s\<lparr>queue := q\<lparr>producer := (producer q)\<lparr>tail := p_head + of_nat (length xs)\<rparr>\<rparr>,
           published := published s + length xs\<rparr>))"
| "caller_step (Deq_Read n) s = Inr (Deq_Elems n (head (consumer (queue s))) (claimed s), s)"
| "caller_step (Deq_Elems n c_head snap) s =
     (let elems = tail (producer (queue s)) - c_head
      in if elems = 0 then Inr (Idle, s) else Inr (Deq_Cas n c_head (min elems n) snap, s))"
| "caller_step (Deq_Cas n c_head elems snap) s =
     (let q = queue s
      in if head (consumer q) = c_head
         then Inr (Deq_Load c_head elems (claimed s) [],
           s\<lparr>queue := q\<lparr>consumer := (consumer q)\<lparr>head := c_head + elems\<rparr>\<rparr>,
             claimed := claimed s + unat elems\<rparr>)
         else Inr (Deq_Read n, s))"
| "caller_step (Deq_Load c_head elems st got) s =
     (let q = queue s
      in if length got < unat elems
         then bind_ok (arr_get (ring q) (unat ((c_head + of_nat (length got)) AND q_mask q)))
           (\<lambda>x. Inr (Deq_Load c_head elems st (got @ [x]), s))
         else Inr (Deq_Wait c_head elems st got, s))"
| "caller_step (Deq_Wait c_head elems st got) s =
     (if tail (consumer (queue s)) \<noteq> c_head then Inl Hang else Inr (Deq_Mark c_head elems st got, s))"
| "caller_step (Deq_Mark c_head elems st got) s =
     (let q = queue s
      in Inr (Idle, s\<lparr>queue := q\<lparr>consumer := (consumer q)\<lparr>tail := c_head + elems\<rparr>\<rparr>,
           freed := freed s + unat elems, handed := handed s @ [got]\<rparr>))"

text \<open>
  A \<open>cmpxchg\<close> compares 32 bits of a count: it would take a head that has gone round the whole
  range since it was read for the one it knows. Such a step, of a caller that stood still
  while \<open>2 ^ 32\<close> elements went by, is left out.
\<close>

fun overtaken :: "caller \<Rightarrow> alf_shared \<Rightarrow> bool" where
  "overtaken (Enq_Cas xs p_head snap) s \<longleftrightarrow> length (accepted s) - snap \<ge> 2 ^ 32"
| "overtaken (Deq_Cas n c_head elems snap) s \<longleftrightarrow> claimed s - snap \<ge> 2 ^ 32"
| "overtaken _ s \<longleftrightarrow> False"

text \<open>
  The runs of a queue that is new and whose callers never have more than \<open>w\<close> elements reserved
  and not yet freed; on a ring of a power of two the queue sees to it itself for its size.
  A call asks for at least one element, as every call in the block device does.
\<close>

definition new_shared :: "alf_queue \<Rightarrow> alf_shared" where
  "new_shared q = \<lparr>queue = q, accepted = [], published = 0, claimed = 0, freed = 0, handed = []\<rparr>"

type_synonym alf_system = "alf_shared \<times> (nat \<Rightarrow> caller)"

inductive alf_run :: "nat \<Rightarrow> alf_queue \<Rightarrow> alf_system \<Rightarrow> bool" for w q where
  start: "alf_run w q (new_shared q, \<lambda>_. Idle)"
| enqueue: "alf_run w q (s, cs) \<Longrightarrow> cs t = Idle \<Longrightarrow> xs \<noteq> [] \<Longrightarrow> length xs < 2 ^ 32 \<Longrightarrow>
    alf_run w q (s, cs(t := Enq_Read xs))"
| dequeue: "alf_run w q (s, cs) \<Longrightarrow> cs t = Idle \<Longrightarrow> n \<noteq> 0 \<Longrightarrow> alf_run w q (s, cs(t := Deq_Read n))"
| step: "alf_run w q (s, cs) \<Longrightarrow> \<not> overtaken (cs t) s \<Longrightarrow> caller_step (cs t) s = Inr (c, s') \<Longrightarrow>
    length (accepted s') \<le> freed s' + w \<Longrightarrow> alf_run w q (s', cs(t := c))"

subsection \<open>What each caller knows\<close>

definition slot :: "alf_shared \<Rightarrow> nat \<Rightarrow> nat" where
  "slot s j = unat ((of_nat j :: u32) AND q_mask (queue s))"

text \<open>The elements a caller is storing, and those it is loading.\<close>

fun putting :: "caller \<Rightarrow> nat set" where
  "putting (Enq_Store xs p_head st i) = {st..<st + length xs}"
| "putting (Enq_Wait xs p_head st) = {st..<st + length xs}"
| "putting (Enq_Mark xs p_head st) = {st..<st + length xs}"
| "putting _ = {}"

fun taking :: "caller \<Rightarrow> nat set" where
  "taking (Deq_Load c_head elems st got) = {st..<st + unat elems}"
| "taking (Deq_Wait c_head elems st got) = {st..<st + unat elems}"
| "taking (Deq_Mark c_head elems st got) = {st..<st + unat elems}"
| "taking _ = {}"

definition stored :: "alf_shared \<Rightarrow> ptr list \<Rightarrow> u32 \<Rightarrow> nat \<Rightarrow> nat \<Rightarrow> bool" where
  "stored s xs p_head st i \<longleftrightarrow> xs \<noteq> [] \<and> p_head = of_nat st \<and> published s \<le> st \<and>
     st + length xs \<le> length (accepted s) \<and> take (length xs) (drop st (accepted s)) = xs \<and>
     i \<le> length xs \<and> (\<forall>j<i. ring (queue s) ! slot s (st + j) = xs ! j)"

definition loaded :: "alf_shared \<Rightarrow> u32 \<Rightarrow> u32 \<Rightarrow> nat \<Rightarrow> ptr list \<Rightarrow> bool" where
  "loaded s c_head elems st got \<longleftrightarrow> elems \<noteq> 0 \<and> c_head = of_nat st \<and> freed s \<le> st \<and>
     st + unat elems \<le> claimed s \<and> length got \<le> unat elems \<and>
     got = take (length got) (drop st (accepted s))"

fun caller_ok :: "alf_shared \<Rightarrow> caller \<Rightarrow> bool" where
  "caller_ok s Idle \<longleftrightarrow> True"
| "caller_ok s (Enq_Read xs) \<longleftrightarrow> xs \<noteq> [] \<and> length xs < 2 ^ 32"
| "caller_ok s (Enq_Space xs p_head snap) \<longleftrightarrow> xs \<noteq> [] \<and> length xs < 2 ^ 32 \<and> p_head = of_nat snap \<and>
     snap \<le> length (accepted s)"
| "caller_ok s (Enq_Cas xs p_head snap) \<longleftrightarrow> xs \<noteq> [] \<and> length xs < 2 ^ 32 \<and> p_head = of_nat snap \<and>
     snap \<le> length (accepted s) \<and>
     (length (accepted s) = snap \<longrightarrow> snap + length xs \<le> freed s + unat (q_size (queue s)))"
| "caller_ok s (Enq_Store xs p_head st i) \<longleftrightarrow> stored s xs p_head st i"
| "caller_ok s (Enq_Wait xs p_head st) \<longleftrightarrow> stored s xs p_head st (length xs)"
| "caller_ok s (Enq_Mark xs p_head st) \<longleftrightarrow> stored s xs p_head st (length xs) \<and> st = published s"
| "caller_ok s (Deq_Read n) \<longleftrightarrow> n \<noteq> 0"
| "caller_ok s (Deq_Elems n c_head snap) \<longleftrightarrow> n \<noteq> 0 \<and> c_head = of_nat snap \<and> snap \<le> claimed s"
| "caller_ok s (Deq_Cas n c_head elems snap) \<longleftrightarrow> n \<noteq> 0 \<and> elems \<noteq> 0 \<and> c_head = of_nat snap \<and>
     snap \<le> claimed s \<and> (claimed s = snap \<longrightarrow> snap + unat elems \<le> published s)"
| "caller_ok s (Deq_Load c_head elems st got) \<longleftrightarrow> loaded s c_head elems st got"
| "caller_ok s (Deq_Wait c_head elems st got) \<longleftrightarrow>
     loaded s c_head elems st got \<and> length got = unat elems"
| "caller_ok s (Deq_Mark c_head elems st got) \<longleftrightarrow>
     loaded s c_head elems st got \<and> length got = unat elems \<and> st = freed s"

text \<open>The queue with its counts.\<close>

definition shared_ok :: "nat \<Rightarrow> alf_shared \<Rightarrow> bool" where
  "shared_ok k s \<longleftrightarrow> (let q = queue s in
     k \<le> 31 \<and> 2 ^ k dvd unat (q_size q) \<and> q_size q \<noteq> 0 \<and> q_mask q = q_size q - 1 \<and>
     length (ring q) = unat (q_size q) \<and>
     producer q = \<lparr>head = of_nat (length (accepted s)), tail = of_nat (published s)\<rparr> \<and>
     consumer q = \<lparr>head = of_nat (claimed s), tail = of_nat (freed s)\<rparr> \<and>
     freed s \<le> claimed s \<and> claimed s \<le> published s \<and> published s \<le> length (accepted s) \<and>
     length (accepted s) \<le> freed s + 2 ^ k \<and>
     concat (handed s) = take (freed s) (accepted s) \<and>
     (\<forall>j. freed s \<le> j \<longrightarrow> j < published s \<longrightarrow> ring q ! slot s j = accepted s ! j))"

text \<open>The elements in work: each belongs to one caller.\<close>

definition owned :: "(nat \<Rightarrow> nat set) \<Rightarrow> nat set \<Rightarrow> bool" where
  "owned f A \<longleftrightarrow> (\<forall>t u. t \<noteq> u \<longrightarrow> f t \<inter> f u = {}) \<and> (\<Union>t. f t) = A"

lemma owned_upd:
  assumes "owned f A" and "B \<inter> (A - f t) = {}"
  shows "owned (f(t := B)) (A - f t \<union> B)"
proof -
  have "u = t \<or> f u \<subseteq> A - f t" for u using assms(1) unfolding owned_def by blast
  then have *: "f u \<inter> B = {}" if "u \<noteq> t" for u using assms(2) that by blast
  have "(\<Union>u. (f(t := B)) u) = (\<Union>u\<in>-{t}. f u) \<union> B" by auto
  moreover have "(\<Union>u\<in>-{t}. f u) = A - f t" using assms(1) unfolding owned_def by blast
  moreover have "(f(t := B)) u \<inter> (f(t := B)) v = {}" if "u \<noteq> v" for u v
    using that * [of u] * [of v] assms(1) by (simp add: owned_def Int_commute)
  ultimately show ?thesis by (simp add: owned_def)
qed

lemma owned_disjoint: "owned f A \<Longrightarrow> t \<noteq> u \<Longrightarrow> f t \<inter> f u = {}"
  by (simp add: owned_def)

definition system_ok :: "nat \<Rightarrow> alf_system \<Rightarrow> bool" where
  "system_ok k = (\<lambda>(s, cs). shared_ok k s \<and> (\<forall>t. caller_ok s (cs t)) \<and>
     owned (\<lambda>t. putting (cs t)) {published s..<length (accepted s)} \<and>
     owned (\<lambda>t. taking (cs t)) {freed s..<claimed s})"

subsection \<open>Each step keeps it\<close>

lemma slot_inj:
  assumes "shared_ok k s" and "freed s \<le> i" "i < freed s + 2 ^ k" "freed s \<le> j" "j < freed s + 2 ^ k"
    and "slot s i = slot s j"
  shows "i = j"
proof -
  have sz: "q_size (queue s) \<noteq> 0" and m: "q_mask (queue s) = q_size (queue s) - 1"
    and d: "2 ^ k dvd unat (q_size (queue s))" and k: "k \<le> 31"
    using assms(1) by (simp_all add: shared_ok_def Let_def)
  have m': "unat (q_mask (queue s)) + 1 = unat (q_size (queue s))"
    using sz by (simp add: m unat_minus_one unat_gt_0)
  have *: "(of_nat a :: u32) = of_nat (freed s) + of_nat (a - freed s)" if "freed s \<le> a" for a
    using that by (simp flip: of_nat_add)
  have "i - freed s = j - freed s"
  proof (rule window_slots_distinct [of k "q_mask (queue s)" _ _ "of_nat (freed s)"])
    show "2 ^ k dvd unat (q_mask (queue s)) + 1" using d m' by simp
    show "(of_nat (freed s) + of_nat (i - freed s)) AND q_mask (queue s) =
        (of_nat (freed s) + of_nat (j - freed s)) AND q_mask (queue s)"
      using assms(6) * [OF assms(2)] * [OF assms(4)] by (simp add: slot_def word_unat_eq_iff)
  qed (use assms k in auto)
  then show ?thesis using assms(2,4) by simp
qed

lemma slot_in_ring: "shared_ok k s \<Longrightarrow> slot s j < length (ring (queue s))"
  using and_mask_le [of "of_nat j" "q_mask (queue s)"]
  by (auto simp: shared_ok_def slot_def Let_def unat_minus_one unat_gt_0 intro: le_less_trans)

lemma of_nat_window:
  assumes "(of_nat a :: u32) = of_nat b" and "a \<le> c + 2147483648" "c \<le> a" "b \<le> c + 2147483648" "c \<le> b"
  shows "a = b"
proof -
  have "unat (of_nat a :: u32) = unat (of_nat b :: u32)" using assms(1) by simp
  then have "a mod 4294967296 = b mod 4294967296" by (simp add: unat_of_nat_u32)
  then have "(c + (a - c)) mod 4294967296 = (c + (b - c)) mod 4294967296" using assms by simp
  then have "a - c = b - c" by (rule mod_add_eq_imp_eq) (use assms in auto)
  then show ?thesis using assms by simp
qed


text \<open>
  What a step of one caller does to the others: the counts only grow, the values accepted are
  only added to, and a slot changes only under the caller that has it.
\<close>

lemma stored_frame:
  assumes "stored s xs p_head st i" and "q_mask (queue s') = q_mask (queue s)"
    and "\<exists>ys. accepted s' = accepted s @ ys" and "published s' \<le> st"
    and "\<And>j. st \<le> j \<Longrightarrow> j < st + length xs \<Longrightarrow> ring (queue s') ! slot s j = ring (queue s) ! slot s j"
  shows "stored s' xs p_head st i"
proof -
  have "slot s' = slot s" using assms(2) by (simp add: slot_def fun_eq_iff)
  then show ?thesis using assms by (auto simp: stored_def)
qed

lemma loaded_frame:
  assumes "loaded s c_head elems st got" and "\<exists>ys. accepted s' = accepted s @ ys"
    and "freed s' \<le> st" and "claimed s \<le> claimed s'" and "claimed s \<le> length (accepted s)"
  shows "loaded s' c_head elems st got"
  using assms by (auto simp: loaded_def)

lemma caller_frame:
  assumes "caller_ok s c" and "q_mask (queue s') = q_mask (queue s)" "q_size (queue s') = q_size (queue s)"
    and ys: "accepted s' = accepted s @ ys" and "claimed s \<le> claimed s'" "freed s \<le> freed s'"
      "published s \<le> published s'" and "claimed s \<le> length (accepted s)"
    and st: "\<And>j. j \<in> putting c \<Longrightarrow> published s' \<le> j \<and> ring (queue s') ! slot s j = ring (queue s) ! slot s j"
    and ld: "\<And>j. j \<in> taking c \<Longrightarrow> freed s' \<le> j"
    and mark: "\<And>xs h st. c = Enq_Mark xs h st \<Longrightarrow> published s' = published s"
      "\<And>h e st got. c = Deq_Mark h e st got \<Longrightarrow> freed s' = freed s"
  shows "caller_ok s' c"
proof -
  have S: "stored s' xs h p i" if "stored s xs h p i" "putting c = {p..<p + length xs}" for xs h p i
  proof (rule stored_frame [OF that(1) assms(2)])
    have "p \<in> putting c" using that by (simp add: stored_def)
    then show "published s' \<le> p" using st by blast
  qed (use that(2) st ys in auto)
  have L: "loaded s' h e p got" if "loaded s h e p got" "taking c = {p..<p + unat e}" for h e p got
  proof (rule loaded_frame [OF that(1)])
    have "p \<in> taking c" using that by (simp add: loaded_def unat_gt_0)
    then show "freed s' \<le> p" using ld by blast
  qed (use assms in auto)
  show ?thesis using assms(1,3,5-8) ys mark
    by (cases c) (auto intro: S L)
qed


lemma system_okD:
  assumes "system_ok k (s, cs)"
  shows "shared_ok k s" "caller_ok s (cs u)" "owned (\<lambda>t. putting (cs t)) {published s..<length (accepted s)}"
    "owned (\<lambda>t. taking (cs t)) {freed s..<claimed s}"
  using assms by (simp_all add: system_ok_def)

lemma putting_bounds:
  assumes "system_ok k (s, cs)" and "j \<in> putting (cs u)"
  shows "published s \<le> j \<and> j < length (accepted s)"
  using system_okD(3) [OF assms(1)] assms(2) by (fastforce simp: owned_def)

lemma taking_bounds:
  assumes "system_ok k (s, cs)" and "j \<in> taking (cs u)"
  shows "freed s \<le> j \<and> j < claimed s"
  using system_okD(4) [OF assms(1)] assms(2) by (fastforce simp: owned_def)

text \<open>A step that leaves the counts and the ring alone.\<close>

lemma quiet_step:
  assumes ok: "system_ok k (s, cs)" and "caller_ok s c"
    and "putting c = putting (cs t)" "taking c = taking (cs t)"
  shows "system_ok k (s, cs(t := c))"
proof -
  have "(\<lambda>u. putting ((cs(t := c)) u)) = (\<lambda>u. putting (cs u))"
    "(\<lambda>u. taking ((cs(t := c)) u)) = (\<lambda>u. taking (cs u))" using assms(3,4) by (auto simp: fun_eq_iff)
  then show ?thesis using ok assms(2) by (simp add: system_ok_def)
qed

lemma system_okI:
  assumes ok: "system_ok k (s, cs)" and "shared_ok k s'" and "caller_ok s' c"
    and "\<And>u. u \<noteq> t \<Longrightarrow> caller_ok s' (cs u)"
    and "putting c \<inter> ({published s..<length (accepted s)} - putting (cs t)) = {}"
    and "{published s..<length (accepted s)} - putting (cs t) \<union> putting c =
      {published s'..<length (accepted s')}"
    and "taking c \<inter> ({freed s..<claimed s} - taking (cs t)) = {}"
    and "{freed s..<claimed s} - taking (cs t) \<union> taking c = {freed s'..<claimed s'}"
  shows "system_ok k (s', cs(t := c))"
proof -
  have "(\<lambda>u. putting ((cs(t := c)) u)) = (\<lambda>u. putting (cs u))(t := putting c)"
    "(\<lambda>u. taking ((cs(t := c)) u)) = (\<lambda>u. taking (cs u))(t := taking c)" by (auto simp: fun_eq_iff)
  then show ?thesis
    using owned_upd [OF system_okD(3) [OF ok] assms(5)] owned_upd [OF system_okD(4) [OF ok] assms(7)]
      assms(2-4) unfolding assms(6) assms(8) by (simp add: system_ok_def)
qed

lemma claim_room:
  assumes ok: "system_ok k (s, cs)" and cs: "cs t = Enq_Cas xs h snap"
    and cas: "head (producer (queue s)) = h"
    and room: "length (accepted s) + length xs \<le> freed s + 2 ^ k"
  shows "system_ok k (s\<lparr>queue := (queue s)\<lparr>producer := (producer (queue s))\<lparr>head := h + of_nat (length xs)\<rparr>\<rparr>,
      accepted := accepted s @ xs\<rparr>, cs(t := Enq_Store xs h (length (accepted s)) 0))"
    (is "system_ok k (?s, _)")
proof (rule system_okI [OF ok])
  have S: "shared_ok k s" and C: "caller_ok s (cs t)" by (rule system_okD [OF ok])+
  have le: "published s \<le> length (accepted s)" "claimed s \<le> length (accepted s)"
    using S by (auto simp: shared_ok_def Let_def)
  have h: "h = of_nat (length (accepted s))" using S cas by (auto simp: shared_ok_def Let_def)
  have sl: "slot ?s = slot s" by (simp add: slot_def fun_eq_iff)
  show "shared_ok k ?s" using S room h unfolding shared_ok_def Let_def sl by (auto simp: nth_append)
  show "caller_ok ?s (Enq_Store xs h (length (accepted s)) 0)"
    using C cs h le by (simp add: stored_def)
  show "caller_ok ?s (cs u)" if "u \<noteq> t" for u
    using putting_bounds [OF ok, of _ u] taking_bounds [OF ok, of _ u] le
    by (intro caller_frame [OF system_okD(2) [OF ok, of u]]) auto
qed (use cs system_okD(1) [OF ok] in \<open>auto simp: shared_ok_def Let_def\<close>)


lemma store_one:
  assumes ok: "system_ok k (s, cs)" and cs: "cs t = Enq_Store xs h st i" and i: "i < length xs"
  shows "system_ok k (s\<lparr>queue := (queue s)\<lparr>ring := (ring (queue s))[slot s (st + i) := xs ! i]\<rparr>\<rparr>,
      cs(t := Enq_Store xs h st (i + 1)))"
    (is "system_ok k (?s, _)")
proof -
  have S: "shared_ok k s" and C: "caller_ok s (cs t)" by (rule system_okD [OF ok])+
  have st: "stored s xs h st i" using C cs by simp
  then have mem: "st + i < length (accepted s)" "published s \<le> st + i" using i by (auto simp: stored_def)
  have win: "freed s \<le> claimed s" "claimed s \<le> published s" "published s \<le> length (accepted s)"
    "length (accepted s) \<le> freed s + 2 ^ k" using S by (auto simp: shared_ok_def Let_def)
  have sl: "slot ?s = slot s" by (simp add: slot_def fun_eq_iff)
  have ring: "ring (queue ?s) ! slot s j = ring (queue s) ! slot s j"
    if "freed s \<le> j" "j < length (accepted s)" "j \<noteq> st + i" for j
  proof -
    have "slot s (st + i) \<noteq> slot s j" using slot_inj [OF S, of j "st + i"] that mem win by linarith
    then show ?thesis by simp
  qed
  show ?thesis
  proof (rule system_okI [OF ok])
    have "ring (queue ?s) ! slot s j = accepted s ! j" if "freed s \<le> j" "j < published s" for j
      using ring [of j] that S mem win by (auto simp: shared_ok_def Let_def)
    then show "shared_ok k ?s" using S unfolding shared_ok_def Let_def sl by simp
    have "ring (queue ?s) ! slot s (st + j) = xs ! j" if "j < i + 1" for j
    proof (cases "j = i")
      case True
      then show ?thesis using slot_in_ring [OF S] by simp
    next
      case False
      then show ?thesis using ring [of "st + j"] st that mem win by (auto simp: stored_def)
    qed
    then show "caller_ok ?s (Enq_Store xs h st (i + 1))" using st i by (auto simp: stored_def sl)
    show "caller_ok ?s (cs u)" if "u \<noteq> t" for u
    proof (rule caller_frame [OF system_okD(2) [OF ok, of u]])
      fix j assume j: "j \<in> putting (cs u)"
      have "st + i \<in> putting (cs t)" using cs i by simp
      then have "j \<noteq> st + i" using j owned_disjoint [OF system_okD(3) [OF ok] that] by blast
      then show "published ?s \<le> j \<and> ring (queue ?s) ! slot s j = ring (queue s) ! slot s j"
        using putting_bounds [OF ok j] ring [of j] win by simp
    qed (use taking_bounds [OF ok, of _ u] win in auto)
  qed (use cs st in \<open>auto simp: stored_def\<close>)
qed

lemma publish:
  assumes ok: "system_ok k (s, cs)" and cs: "cs t = Enq_Mark xs h st"
  shows "system_ok k (s\<lparr>queue := (queue s)\<lparr>producer := (producer (queue s))\<lparr>tail := h + of_nat (length xs)\<rparr>\<rparr>,
      published := published s + length xs\<rparr>, cs(t := Idle))"
    (is "system_ok k (?s, _)")
proof (rule system_okI [OF ok])
  have S: "shared_ok k s" and C: "caller_ok s (cs t)" by (rule system_okD [OF ok])+
  have st: "stored s xs h (published s) (length xs)" "st = published s" using C cs by auto
  have sl: "slot ?s = slot s" by (simp add: slot_def fun_eq_iff)
  have new: "ring (queue s) ! slot s j = accepted s ! j"
    if "published s \<le> j" "j < published s + length xs" for j
  proof -
    have "ring (queue s) ! slot s (published s + (j - published s)) = xs ! (j - published s)"
      using st(1) that unfolding stored_def by (metis less_diff_conv2 add.commute)
    moreover have "xs ! (j - published s) = take (length xs) (drop (published s) (accepted s)) ! (j - published s)"
      using st(1) by (simp add: stored_def)
    ultimately show ?thesis using that st(1) by (simp add: stored_def)
  qed
  show "shared_ok k ?s" using S st new unfolding shared_ok_def Let_def sl stored_def
    by (auto simp: not_less)
  show "caller_ok ?s Idle" by simp
  show "caller_ok ?s (cs u)" if "u \<noteq> t" for u
  proof -
    have d: "putting (cs u) \<inter> {published s..<published s + length xs} = {}"
      using owned_disjoint [OF system_okD(3) [OF ok] that] cs st(2) by simp
    have "xs \<noteq> []" using st(1) by (simp add: stored_def)
    then have nm: "cs u \<noteq> Enq_Mark ys h' p" for ys h' p
      using d system_okD(2) [OF ok, of u] by (auto simp: stored_def)
    show ?thesis
    proof (rule caller_frame [OF system_okD(2) [OF ok, of u]])
      fix j assume "j \<in> putting (cs u)"
      then have "j \<notin> {published s..<published s + length xs}" "published s \<le> j"
        using d putting_bounds [OF ok] by auto
      then show "published ?s \<le> j \<and> ring (queue ?s) ! slot s j = ring (queue s) ! slot s j" by auto
    qed (use taking_bounds [OF ok, of _ u] S nm in \<open>auto simp: shared_ok_def Let_def\<close>)
  qed
qed (use cs system_okD(2) [OF ok, of t] in \<open>auto simp: stored_def\<close>)


lemma claim_elements:
  assumes ok: "system_ok k (s, cs)" and cs: "cs t = Deq_Cas n h e snap"
    and cas: "head (consumer (queue s)) = h" and near: "claimed s - snap < 2 ^ 32"
  shows "system_ok k (s\<lparr>queue := (queue s)\<lparr>consumer := (consumer (queue s))\<lparr>head := h + e\<rparr>\<rparr>,
      claimed := claimed s + unat e\<rparr>, cs(t := Deq_Load h e (claimed s) []))"
    (is "system_ok k (?s, _)")
proof (rule system_okI [OF ok])
  have S: "shared_ok k s" and C: "caller_ok s (cs t)" by (rule system_okD [OF ok])+
  have h: "h = of_nat (claimed s)" using S cas by (auto simp: shared_ok_def Let_def)
  have e: "e \<noteq> 0" "h = of_nat snap" "snap \<le> claimed s"
    "claimed s = snap \<Longrightarrow> snap + unat e \<le> published s" using C cs by auto
  have "claimed s mod 4294967296 = snap mod 4294967296"
    using h e(2) by (metis unat_of_nat_u32)
  then have "(snap + (claimed s - snap)) mod 4294967296 = (snap + 0) mod 4294967296" using e(3) by simp
  then have "claimed s - snap = 0" by (rule mod_add_eq_imp_eq) (use near in auto)
  then have "claimed s = snap" using e(3) by simp
  then have room: "claimed s + unat e \<le> published s" using e(4) by simp
  have sl: "slot ?s = slot s" by (simp add: slot_def fun_eq_iff)
  show "shared_ok k ?s" using S room h unfolding shared_ok_def Let_def sl by auto
  show "caller_ok ?s (Deq_Load h e (claimed s) [])"
    using S h e(1) by (simp add: loaded_def shared_ok_def Let_def)
  show "caller_ok ?s (cs u)" if "u \<noteq> t" for u
    using putting_bounds [OF ok, of _ u] taking_bounds [OF ok, of _ u] S
    by (intro caller_frame [OF system_okD(2) [OF ok, of u]]) (auto simp: shared_ok_def Let_def)
qed (use cs system_okD(1) [OF ok] in \<open>auto simp: shared_ok_def Let_def\<close>)

lemma hand_over:
  assumes ok: "system_ok k (s, cs)" and cs: "cs t = Deq_Mark h e st got"
  shows "system_ok k (s\<lparr>queue := (queue s)\<lparr>consumer := (consumer (queue s))\<lparr>tail := h + e\<rparr>\<rparr>,
      freed := freed s + unat e, handed := handed s @ [got]\<rparr>, cs(t := Idle))"
    (is "system_ok k (?s, _)")
proof (rule system_okI [OF ok])
  have S: "shared_ok k s" and C: "caller_ok s (cs t)" by (rule system_okD [OF ok])+
  have ld: "loaded s h e (freed s) got" "length got = unat e" "st = freed s" using C cs by auto
  have sl: "slot ?s = slot s" by (simp add: slot_def fun_eq_iff)
  have "concat (handed ?s) = take (freed s + unat e) (accepted s)"
    using S ld by (simp add: shared_ok_def Let_def loaded_def take_add)
  then show "shared_ok k ?s" using S ld unfolding shared_ok_def Let_def sl loaded_def by auto
  show "caller_ok ?s Idle" by simp
  show "caller_ok ?s (cs u)" if "u \<noteq> t" for u
  proof -
    have d: "taking (cs u) \<inter> {freed s..<freed s + unat e} = {}"
      using owned_disjoint [OF system_okD(4) [OF ok] that] cs ld(3) by simp
    have "0 < unat e" using ld(1) by (simp add: loaded_def unat_gt_0)
    then have nm: "cs u \<noteq> Deq_Mark h' e' p g" for h' e' p g
      using d system_okD(2) [OF ok, of u] by (auto simp: loaded_def unat_gt_0)
    show ?thesis
    proof (rule caller_frame [OF system_okD(2) [OF ok, of u]])
      fix j assume "j \<in> taking (cs u)"
      then have "j \<notin> {freed s..<freed s + unat e}" "freed s \<le> j" using d taking_bounds [OF ok] by auto
      then show "freed ?s \<le> j" by auto
    qed (use putting_bounds [OF ok, of _ u] S nm in \<open>auto simp: shared_ok_def Let_def\<close>)
  qed
qed (use cs system_okD(2) [OF ok, of t] in \<open>auto simp: loaded_def\<close>)

lemma load_one:
  assumes ok: "system_ok k (s, cs)" and cs: "cs t = Deq_Load h e st got" and "length got < unat e"
  shows "system_ok k (s, cs(t := Deq_Load h e st (got @ [ring (queue s) ! slot s (st + length got)])))"
proof (rule quiet_step [OF ok])
  have S: "shared_ok k s" and C: "caller_ok s (cs t)" by (rule system_okD [OF ok])+
  have ld: "loaded s h e st got" using C cs by simp
  have "ring (queue s) ! slot s (st + length got) = accepted s ! (st + length got)"
    using S ld assms(3) by (auto simp: shared_ok_def Let_def loaded_def)
  moreover have "st + length got < length (accepted s)"
    using S ld assms(3) by (auto simp: shared_ok_def Let_def loaded_def)
  ultimately show "caller_ok s (Deq_Load h e st (got @ [ring (queue s) ! slot s (st + length got)]))"
    using ld assms(3) by (auto simp: loaded_def take_Suc_conv_app_nth)
qed (use cs in auto)


text \<open>What the two tests before the \<open>cmpxchg\<close> tell a caller, if nobody comes before it.\<close>

lemma window_le:
  assumes "shared_ok k s"
  shows "(2::nat) ^ k \<le> 2147483648" and "2 ^ k \<le> unat (q_size (queue s))"
proof -
  have k: "k \<le> 31" "2 ^ k dvd unat (q_size (queue s))" "q_size (queue s) \<noteq> 0"
    using assms by (simp_all add: shared_ok_def Let_def)
  then have "(2::nat) ^ k \<le> 2 ^ 31" by (intro power_increasing) simp_all
  then show "(2::nat) ^ k \<le> 2147483648" by simp
  show "2 ^ k \<le> unat (q_size (queue s))" using k by (intro dvd_imp_le) (simp_all add: unat_gt_0)
qed

lemma unat_of_nat_diff:
  assumes "b \<le> a" and "a - b < 4294967296"
  shows "unat (of_nat a - of_nat b :: u32) = a - b"
proof -
  have "(of_nat a - of_nat b :: u32) = of_nat (a - b)" using assms(1) by (rule of_nat_diff [symmetric])
  then show ?thesis using assms(2) by (simp only: unat_of_nat_u32 mod_less)
qed

lemma free_room:
  assumes S: "shared_ok k s"
  shows "unat (q_size (queue s) + tail (consumer (queue s)) - of_nat (length (accepted s))) =
    unat (q_size (queue s)) - (length (accepted s) - freed s)"
proof -
  let ?d = "of_nat (length (accepted s)) - of_nat (freed s) :: u32"
  have le: "freed s \<le> length (accepted s)" "length (accepted s) - freed s \<le> 2 ^ k"
    and t: "tail (consumer (queue s)) = of_nat (freed s)"
    using S by (auto simp: shared_ok_def Let_def)
  have u: "unat ?d = length (accepted s) - freed s"
    using le window_le [OF S] by (intro unat_of_nat_diff) auto
  then have "?d \<le> q_size (queue s)" using le(2) window_le(2) [OF S] unfolding word_le_nat_alt by linarith
  then have "unat (q_size (queue s) - ?d) = unat (q_size (queue s)) - (length (accepted s) - freed s)"
    using u by (simp only: unat_sub)
  moreover have "q_size (queue s) + of_nat (freed s) - of_nat (length (accepted s)) = q_size (queue s) - ?d"
    by simp
  ultimately show ?thesis unfolding t by (simp only:)
qed

lemma ready_elements:
  assumes S: "shared_ok k s"
  shows "unat (tail (producer (queue s)) - of_nat (claimed s)) = published s - claimed s"
proof -
  have le: "claimed s \<le> published s" "published s - claimed s \<le> 2 ^ k"
    and t: "tail (producer (queue s)) = of_nat (published s)"
    using S by (auto simp: shared_ok_def Let_def)
  show ?thesis unfolding t using le window_le(1) [OF S] by (intro unat_of_nat_diff) auto
qed

lemma system_step:
  assumes ok: "system_ok k (s, cs)" and near: "\<not> overtaken (cs t) s"
    and step: "caller_step (cs t) s = Inr (c, s')" and room: "length (accepted s') \<le> freed s' + 2 ^ k"
  shows "system_ok k (s', cs(t := c))"
proof -
  have S: "shared_ok k s" and C: "caller_ok s (cs t)" by (rule system_okD [OF ok])+
  have le: "freed s \<le> length (accepted s)" "length (accepted s) \<le> freed s + 2 ^ k"
    using S by (auto simp: shared_ok_def Let_def)
  note Q = quiet_step [OF ok, of c t]
  show ?thesis
  proof (cases "cs t")
    case Idle
    then show ?thesis using step Q by auto
  next
    case (Enq_Read xs)
    then show ?thesis using Q step C S Q by (auto simp: shared_ok_def Let_def)
  next
    case (Enq_Space xs h snap)
    have "snap + length xs \<le> freed s + unat (q_size (queue s))"
      if "length (accepted s) = snap" "\<not> of_nat (length xs) > q_size (queue s) + tail (consumer (queue s)) - h"
      using that C free_room [OF S] le window_le [OF S] Enq_Space
      by (auto simp: not_less word_le_nat_alt unat_of_nat_u32 Suc_le_eq)
    then show ?thesis using Q step C Enq_Space by (auto simp: Let_def split: if_splits)
  next
    case (Enq_Cas xs h snap)
    then show ?thesis using Q step C claim_room [OF ok Enq_Cas] room
      by (auto simp: Let_def split: if_splits)
  next
    case (Enq_Store xs h st i)
    then have "(h + of_nat i) AND q_mask (queue s) = of_nat (st + i) AND q_mask (queue s)"
      using C by (simp add: stored_def)
    then show ?thesis using Q step C store_one [OF ok Enq_Store] Enq_Store slot_in_ring [OF S, of "st + i"]
      by (auto simp: Let_def store1_def slot_def stored_def split: if_splits)
  next
    case (Enq_Wait xs h st)
    have "published s = st" if "tail (producer (queue s)) = h"
    proof (rule of_nat_window [of _ _ "published s"])
      show "(of_nat (published s) :: u32) = of_nat st" using S C that Enq_Wait
        by (auto simp: shared_ok_def Let_def stored_def)
    qed (use S C Enq_Wait window_le(1) [OF S] in \<open>auto simp: shared_ok_def Let_def stored_def\<close>)
    then show ?thesis using Q step C Enq_Wait by (auto split: if_splits)
  next
    case (Enq_Mark xs h st)
    then show ?thesis using step publish [OF ok Enq_Mark] by (auto simp: Let_def)
  next
    case (Deq_Read n)
    then show ?thesis using Q step C S Q by (auto simp: shared_ok_def Let_def)
  next
    case (Deq_Elems n h snap)
    have "snap + unat (min (tail (producer (queue s)) - h) n) \<le> published s" if "claimed s = snap"
      using that C ready_elements [OF S] S Deq_Elems
      by (auto simp: min_def word_le_nat_alt shared_ok_def Let_def)
    then show ?thesis using Q step C Deq_Elems
      by (auto simp: Let_def min_def split: if_splits)
  next
    case (Deq_Cas n h e snap)
    then show ?thesis using Q step C claim_elements [OF ok Deq_Cas] near
      by (auto simp: Let_def split: if_splits)
  next
    case (Deq_Load h e st got)
    then have "(h + of_nat (length got)) AND q_mask (queue s) = of_nat (st + length got) AND q_mask (queue s)"
      using C by (simp add: loaded_def)
    then show ?thesis using Q step C load_one [OF ok Deq_Load] Deq_Load slot_in_ring [OF S, of "st + length got"]
      by (auto simp: Let_def slot_def loaded_def split: if_splits)
  next
    case (Deq_Wait h e st got)
    have "freed s = st" if "tail (consumer (queue s)) = h"
    proof (rule of_nat_window [of _ _ "freed s"])
      show "(of_nat (freed s) :: u32) = of_nat st" using S C that Deq_Wait
        by (auto simp: shared_ok_def Let_def loaded_def)
    qed (use S C Deq_Wait window_le(1) [OF S] in \<open>auto simp: shared_ok_def Let_def loaded_def\<close>)
    then show ?thesis using Q step C Deq_Wait by (auto split: if_splits)
  next
    case (Deq_Mark h e st got)
    then show ?thesis using step hand_over [OF ok Deq_Mark] by (auto simp: Let_def)
  qed
qed


subsection \<open>Every run keeps it\<close>

lemma new_shared_ok:
  assumes "alf_queue_alloc vok sz = Some q" and "k \<le> 31" "2 ^ k dvd unat sz" "sz \<noteq> 0"
  shows "system_ok k (new_shared q, \<lambda>_. Idle)"
  using assms by (auto simp: alf_queue_alloc_def system_ok_def new_shared_def shared_ok_def owned_def
      Let_def split: if_splits)

lemma run_ok:
  assumes "alf_queue_alloc vok sz = Some q" and "k \<le> 31" "2 ^ k dvd unat sz" "sz \<noteq> 0"
    and "alf_run (2 ^ k) q \<sigma>"
  shows "system_ok k \<sigma>"
  using assms(5)
proof (induction rule: alf_run.induct)
  case start
  then show ?case using new_shared_ok [OF assms(1-4)] .
next
  case (enqueue s cs t xs)
  show ?case by (rule quiet_step [OF enqueue.IH]) (use enqueue.hyps in auto)
next
  case (dequeue s cs t n)
  show ?case by (rule quiet_step [OF dequeue.IH]) (use dequeue.hyps in auto)
next
  case (step s cs t c s')
  then show ?case using system_step by blast
qed

text \<open>A step that does not end is a wait; no access leaves the ring.\<close>

lemma step_faults_not:
  assumes "system_ok k (s, cs)" and "caller_step (cs t) s = Inl e"
  shows "e = Hang"
proof -
  have S: "shared_ok k s" and C: "caller_ok s (cs t)" by (rule system_okD [OF assms(1)])+
  have in_ring: "unat ((h + of_nat i) AND q_mask (queue s)) < length (ring (queue s))"
    if "h = of_nat st" for h st i
    using that slot_in_ring [OF S, of "st + i"] by (simp add: slot_def)
  show ?thesis using assms(2) C in_ring
    by (cases "cs t") (auto simp: Let_def store1_def stored_def loaded_def split: if_splits)
qed

text \<open>A ring of a power of two never holds more than its size, whatever its callers ask for.\<close>

lemma room_by_size:
  assumes ok: "system_ok k (s, cs)" and "unat (q_size (queue s)) = 2 ^ k"
    and near: "\<not> overtaken (cs t) s" and step: "caller_step (cs t) s = Inr (c, s')"
  shows "length (accepted s') \<le> freed s' + 2 ^ k"
proof -
  have S: "shared_ok k s" and C: "caller_ok s (cs t)" by (rule system_okD [OF ok])+
  have le: "length (accepted s) \<le> freed s + 2 ^ k" and hd: "head (producer (queue s)) = of_nat (length (accepted s))"
    using S by (auto simp: shared_ok_def Let_def)
  show ?thesis
  proof (cases "cs t")
    case (Enq_Cas xs h snap)
    show ?thesis
    proof (cases "head (producer (queue s)) = h")
      case True
      have sn: "snap \<le> length (accepted s)" "h = of_nat snap" using C Enq_Cas by auto
      have "length (accepted s) - snap < 4294967296" using near Enq_Cas by simp
      then have "length (accepted s) - snap = unat (of_nat (length (accepted s)) - of_nat snap :: u32)"
        using unat_of_nat_diff [OF sn(1)] by simp
      then have "length (accepted s) = snap" using True hd sn by simp
      then show ?thesis using C Enq_Cas True step assms(2) by (auto simp: Let_def)
    qed (use step le Enq_Cas in \<open>auto simp: Let_def\<close>)
  qed (use step le in \<open>auto simp: Let_def store1_def arr_get_def bind_ok_eq_Inr split: if_splits\<close>)
qed

lemma run_size: "alf_run w q \<sigma> \<Longrightarrow> q_size (queue (fst \<sigma>)) = q_size q"
proof (induction rule: alf_run.induct)
  case (step s cs t c s')
  then show ?case
    by (cases "cs t") (auto simp: Let_def bind_ok_eq_Inr split: if_splits)
qed (simp_all add: new_shared_def)

text \<open>At rest the ring holds what has been accepted and not yet handed out.\<close>

lemma rest_contents:
  assumes ok: "system_ok k (s, cs)" and rest: "\<And>t. cs t = Idle"
  shows "alf_contents (queue s) = drop (freed s) (accepted s)"
    and "alf_win k (queue s)"
proof -
  have S: "shared_ok k s" by (rule system_okD(1) [OF ok])
  have e: "published s = length (accepted s)" "claimed s = freed s"
    using system_okD(3,4) [OF ok] rest S by (auto simp: owned_def shared_ok_def Let_def)
  have q: "head (producer (queue s)) = of_nat (length (accepted s))" "head (consumer (queue s)) = of_nat (freed s)"
    "freed s \<le> length (accepted s)" "length (accepted s) \<le> freed s + 2 ^ k"
    "\<And>j. freed s \<le> j \<Longrightarrow> j < length (accepted s) \<Longrightarrow> ring (queue s) ! slot s j = accepted s ! j"
    using S e by (auto simp: shared_ok_def Let_def)
  have u: "alf_used (queue s) = length (accepted s) - freed s"
    unfolding alf_used_def q(1,2) using q(3,4) window_le [OF S] by (intro unat_of_nat_diff) auto
  show "alf_contents (queue s) = drop (freed s) (accepted s)"
  proof (rule nth_equalityI)
    fix i assume "i < length (alf_contents (queue s))"
    then show "alf_contents (queue s) ! i = drop (freed s) (accepted s) ! i"
      using q(3) q(5) [of "freed s + i"] by (simp add: alf_contents_def u q(2) slot_def)
  qed (use u in simp)
  show "alf_win k (queue s)" using S u q(4) e by (auto simp: alf_win_def shared_ok_def Let_def)
qed

end
