(* ===== verification/Alf_Turns.thy ===== *)
theory Alf_Turns
  imports Alf_Concurrent
begin

text \<open>
  Progress of the array queue under several callers, and one caller alone: schedules, the
  interface that both sides of the queue share (what comes first has an owner whose steps bring
  it to its end), and the agreement of an uninterrupted caller with the operation as a whole.
\<close>

subsection \<open>Nobody waits for ever\<close>

text \<open>A schedule names the callers that step, in turn.\<close>

primrec run_callers :: "nat list \<Rightarrow> alf_system \<Rightarrow> alf_system outcome" where
  "run_callers [] \<sigma> = Inr \<sigma>"
| "run_callers (t # ts) \<sigma> =
     bind_ok (caller_step (snd \<sigma> t) (fst \<sigma>)) (\<lambda>(c, s'). run_callers ts (s', (snd \<sigma>)(t := c)))"

lemma run_callers_append:
  "run_callers (ts @ us) \<sigma> = bind_ok (run_callers ts \<sigma>) (run_callers us)"
  by (induction ts arbitrary: \<sigma>) (auto simp: bind_ok_assoc split: prod.splits intro!: bind_ok_cong)

text \<open>The steps a caller has left once its elements are its own.\<close>

fun todo :: "caller \<Rightarrow> nat" where
  "todo (Enq_Store xs h st i) = length xs - i + 3"
| "todo (Enq_Wait xs h st) = 2"
| "todo (Enq_Mark xs h st) = 1"
| "todo (Deq_Load h e st got) = unat e - length got + 3"
| "todo (Deq_Wait h e st got) = 2"
| "todo (Deq_Mark h e st got) = 1"
| "todo _ = 0"

text \<open>The caller whose elements come first, next to the tail, is not held up.\<close>

lemma first_putter_steps:
  assumes ok: "system_ok k (s, cs)" and mem: "published s \<in> putting (cs t)"
  shows "\<exists>c s'. caller_step (cs t) s = Inr (c, s') \<and> \<not> overtaken (cs t) s \<and> system_ok k (s', cs(t := c)) \<and>
    accepted s' = accepted s \<and> freed s' = freed s \<and> claimed s' = claimed s \<and>
    (published s' = published s \<and> published s \<in> putting c \<and> todo c < todo (cs t) \<or>
     published s < published s' \<and> c = Idle)"
proof -
  have S: "shared_ok k s" and C: "caller_ok s (cs t)" by (rule system_okD [OF ok])+
  have room: "length (accepted s) \<le> freed s + 2 ^ k"
    and t: "tail (producer (queue s)) = of_nat (published s)" using S by (auto simp: shared_ok_def Let_def)
  note step = system_step [OF ok, of t]
  show ?thesis
  proof (cases "cs t")
    case (Enq_Store xs h st i)
    then have st: "st = published s" using C mem by (auto simp: stored_def)
    have "(h + of_nat i) AND q_mask (queue s) = of_nat (st + i) AND q_mask (queue s)"
      using C Enq_Store by (simp add: stored_def)
    then show ?thesis using step room C Enq_Store st slot_in_ring [OF S, of "st + i"]
      by (cases "i < length xs") (auto simp: Let_def store1_def slot_def stored_def)
  next
    case (Enq_Wait xs h st)
    then have "st = published s" using C mem by (auto simp: stored_def)
    then show ?thesis using step room C Enq_Wait t by (auto simp: stored_def)
  next
    case (Enq_Mark xs h st)
    then show ?thesis using step room C by (auto simp: Let_def stored_def)
  qed (use mem in auto)
qed

lemma first_taker_steps:
  assumes ok: "system_ok k (s, cs)" and mem: "freed s \<in> taking (cs t)"
  shows "\<exists>c s'. caller_step (cs t) s = Inr (c, s') \<and> \<not> overtaken (cs t) s \<and> system_ok k (s', cs(t := c)) \<and>
    accepted s' = accepted s \<and> published s' = published s \<and> claimed s' = claimed s \<and> freed s \<le> freed s' \<and>
    (freed s' = freed s \<and> freed s \<in> taking c \<and> todo c < todo (cs t) \<or> freed s < freed s' \<and> c = Idle)"
proof -
  have S: "shared_ok k s" and C: "caller_ok s (cs t)" by (rule system_okD [OF ok])+
  have room: "length (accepted s) \<le> freed s + 2 ^ k"
    and t: "tail (consumer (queue s)) = of_nat (freed s)" using S by (auto simp: shared_ok_def Let_def)
  note step = system_step [OF ok, of t]
  show ?thesis
  proof (cases "cs t")
    case (Deq_Load h e st got)
    then have st: "st = freed s" using C mem by (auto simp: loaded_def)
    have "(h + of_nat (length got)) AND q_mask (queue s) = of_nat (st + length got) AND q_mask (queue s)"
      using C Deq_Load by (simp add: loaded_def)
    then show ?thesis using step room C Deq_Load st slot_in_ring [OF S, of "st + length got"]
      by (cases "length got < unat e") (auto simp: Let_def slot_def loaded_def unat_gt_0)
  next
    case (Deq_Wait h e st got)
    then have "st = freed s" using C mem by (auto simp: loaded_def)
    then show ?thesis using step room C Deq_Wait t by (auto simp: loaded_def unat_gt_0)
  next
    case (Deq_Mark h e st got)
    then show ?thesis using step room C by (auto simp: Let_def loaded_def unat_gt_0)
  qed (use mem in auto)
qed


text \<open>
  Both sides of the queue serve their callers in turn: what comes first, at the tail, has an
  owner as long as something is in work, and each of its steps brings it nearer to its end. So
  everything in work can be brought to its end by the steps of its owners alone. \<open>kept\<close> is
  what these steps leave as it is.
\<close>

locale in_turn =
  fixes run :: "alf_system \<Rightarrow> bool" and first :: "alf_shared \<Rightarrow> nat" and last :: "alf_shared \<Rightarrow> nat"
    and mine :: "caller \<Rightarrow> nat set" and kept :: "alf_shared \<Rightarrow> 'k"
  assumes first_steps: "run (s, cs) \<Longrightarrow> first s \<in> mine (cs t) \<Longrightarrow>
      \<exists>c s'. caller_step (cs t) s = Inr (c, s') \<and> run (s', cs(t := c)) \<and> last s' = last s \<and> kept s' = kept s \<and>
        (first s' = first s \<and> first s \<in> mine c \<and> todo c < todo (cs t) \<or> first s < first s')"
    and first_le: "run (s, cs) \<Longrightarrow> first s \<le> last s"
    and first_owned: "run (s, cs) \<Longrightarrow> first s \<noteq> last s \<Longrightarrow> \<exists>t. first s \<in> mine (cs t)"
begin

lemma advances:
  assumes "run (s, cs)" and "first s \<in> mine (cs t)"
  shows "\<exists>ts s' cs'. run_callers ts (s, cs) = Inr (s', cs') \<and> run (s', cs') \<and> last s' = last s \<and>
    kept s' = kept s \<and> first s < first s'"
  using assms
proof (induction "todo (cs t)" arbitrary: s cs rule: less_induct)
  case less
  obtain c s1 where c: "caller_step (cs t) s = Inr (c, s1)" "run (s1, cs(t := c))" "last s1 = last s" "kept s1 = kept s"
    and cases: "first s1 = first s \<and> first s \<in> mine c \<and> todo c < todo (cs t) \<or> first s < first s1"
    using first_steps [OF less.prems] by blast
  show ?case
  proof (cases "first s < first s1")
    case True
    then have "run_callers [t] (s, cs) = Inr (s1, cs(t := c)) \<and> first s < first s1" using c(1) by simp
    then show ?thesis using c by blast
  next
    case False
    then have "todo ((cs(t := c)) t) < todo (cs t)" "first s1 \<in> mine ((cs(t := c)) t)" "first s1 = first s"
      using cases by auto
    then obtain ts s' cs' where "run_callers ts (s1, cs(t := c)) = Inr (s', cs')" "run (s', cs')"
      "last s' = last s1" "kept s' = kept s1" "first s < first s'"
      using less.hyps [OF _ c(2)] by (metis (no_types))
    then show ?thesis using c(1,3,4) by (intro exI [of _ "t # ts"]) auto
  qed
qed

lemma all_served:
  assumes "run (s, cs)"
  shows "\<exists>ts s' cs'. run_callers ts (s, cs) = Inr (s', cs') \<and> run (s', cs') \<and> kept s' = kept s \<and>
    last s' = last s \<and> first s' = last s'"
  using assms
proof (induction "last s - first s" arbitrary: s cs rule: less_induct)
  case less
  show ?case
  proof (cases "first s = last s")
    case True
    then show ?thesis using less.prems by (intro exI [of _ "[]"]) auto
  next
    case False
    then obtain t where "first s \<in> mine (cs t)" using first_owned [OF less.prems] by blast
    then obtain ts s1 cs1 where 1: "run_callers ts (s, cs) = Inr (s1, cs1)" "run (s1, cs1)"
      "last s1 = last s" "kept s1 = kept s" "first s < first s1"
      using advances [OF less.prems] by blast
    have "last s1 - first s1 < last s - first s" using 1 first_le [OF less.prems] False by simp
    from less.hyps [OF this 1(2)] obtain us s' cs' where "run_callers us (s1, cs1) = Inr (s', cs')"
      "run (s', cs')" "kept s' = kept s" "last s' = last s" "first s' = last s'" using 1 by auto
    then show ?thesis using 1(1) by (intro exI [of _ "ts @ us"]) (auto simp: run_callers_append)
  qed
qed

end

definition sound_run :: "nat \<Rightarrow> alf_queue \<Rightarrow> alf_system \<Rightarrow> bool" where
  "sound_run k q \<sigma> \<longleftrightarrow> alf_run (2 ^ k) q \<sigma> \<and> system_ok k \<sigma>"

lemma sound_step:
  assumes "sound_run k q (s, cs)" and "caller_step (cs t) s = Inr (c, s')" and "\<not> overtaken (cs t) s"
    and "system_ok k (s', cs(t := c))"
  shows "sound_run k q (s', cs(t := c))"
proof -
  have "length (accepted s') \<le> freed s' + 2 ^ k"
    using system_okD(1) [OF assms(4)] by (simp add: shared_ok_def Let_def)
  with assms show ?thesis using alf_run.step [of "2 ^ k" q s cs t] by (simp add: sound_run_def)
qed

lemma owned_first:
  assumes "owned (\<lambda>t. f (cs t)) {a..<b}" and "a \<le> b" "a \<noteq> b"
  shows "\<exists>t. a \<in> f (cs t)"
proof -
  have "a \<in> (\<Union>t. f (cs t))" using assms by (simp add: owned_def)
  then show ?thesis by blast
qed

interpretation putters: in_turn "sound_run k q" published "\<lambda>s. length (accepted s)" putting
  "\<lambda>s. (accepted s, claimed s, freed s)" for k q
proof unfold_locales
  fix s cs t assume r: "sound_run k q (s, cs)" and m: "published s \<in> putting (cs t)"
  then obtain c s' where "caller_step (cs t) s = Inr (c, s')" "\<not> overtaken (cs t) s" "system_ok k (s', cs(t := c))"
    "accepted s' = accepted s" "freed s' = freed s" "claimed s' = claimed s"
    "published s' = published s \<and> published s \<in> putting c \<and> todo c < todo (cs t) \<or> published s < published s'"
    using first_putter_steps [of k s cs t] m by (auto simp: sound_run_def)
  then show "\<exists>c s'. caller_step (cs t) s = Inr (c, s') \<and> sound_run k q (s', cs(t := c)) \<and>
      length (accepted s') = length (accepted s) \<and>
      (accepted s', claimed s', freed s') = (accepted s, claimed s, freed s) \<and>
      (published s' = published s \<and> published s \<in> putting c \<and> todo c < todo (cs t) \<or> published s < published s')"
    using sound_step [OF r] by auto
qed (use owned_first [of putting] in \<open>auto simp: sound_run_def system_ok_def shared_ok_def Let_def\<close>)

interpretation takers: in_turn "sound_run k q" freed claimed taking
  "\<lambda>s. (accepted s, published s)" for k q
proof unfold_locales
  fix s cs t assume r: "sound_run k q (s, cs)" and m: "freed s \<in> taking (cs t)"
  then obtain c s' where "caller_step (cs t) s = Inr (c, s')" "\<not> overtaken (cs t) s" "system_ok k (s', cs(t := c))"
    "accepted s' = accepted s" "published s' = published s" "claimed s' = claimed s"
    "freed s' = freed s \<and> freed s \<in> taking c \<and> todo c < todo (cs t) \<or> freed s < freed s'"
    using first_taker_steps [of k s cs t] m by (auto simp: sound_run_def)
  then show "\<exists>c s'. caller_step (cs t) s = Inr (c, s') \<and> sound_run k q (s', cs(t := c)) \<and> claimed s' = claimed s \<and>
      (accepted s', published s') = (accepted s, published s) \<and>
      (freed s' = freed s \<and> freed s \<in> taking c \<and> todo c < todo (cs t) \<or> freed s < freed s')"
    using sound_step [OF r] by auto
qed (use owned_first [of taking] in \<open>auto simp: sound_run_def system_ok_def shared_ok_def Let_def\<close>)


subsection \<open>One caller alone\<close>

text \<open>
  A caller that runs alone on a queue at rest does what the operation as a whole does: the
  steps of the copy are those of the masked loops, to which the unrolled ones come down.
\<close>

lemma run_copies:
  assumes "cs t = Enq_Store xs h st i" and "i + k = length xs"
    and "store_masked k (q_mask (queue s)) xs i (h + of_nat i) (ring (queue s)) = Inr r"
  shows "run_callers (replicate k t) (s, cs) =
    Inr (s\<lparr>queue := (queue s)\<lparr>ring := r\<rparr>\<rparr>, cs(t := Enq_Store xs h st (length xs)))"
  using assms
proof (induction k arbitrary: i s cs)
  case 0
  then have "cs = cs(t := Enq_Store xs h st (length xs))" by (auto simp: fun_eq_iff)
  then show ?case using 0 by simp
next
  case (Suc k)
  then obtain r1 where r1: "store1 xs i ((h + of_nat i) AND q_mask (queue s)) (ring (queue s)) = Inr r1"
    "store_masked k (q_mask (queue s)) xs (i + 1) (h + of_nat i + 1) r1 = Inr r"
    by (auto simp: bind_ok_eq_Inr)
  let ?s = "s\<lparr>queue := (queue s)\<lparr>ring := r1\<rparr>\<rparr>" and ?cs = "cs(t := Enq_Store xs h st (i + 1))"
  have "run_callers (replicate k t) (?s, ?cs) =
      Inr (?s\<lparr>queue := (queue ?s)\<lparr>ring := r\<rparr>\<rparr>, ?cs(t := Enq_Store xs h st (length xs)))"
    using Suc.prems(2) r1(2) by (intro Suc.IH) (auto simp: add_ac)
  moreover have "?s\<lparr>queue := (queue ?s)\<lparr>ring := r\<rparr>\<rparr> = s\<lparr>queue := (queue s)\<lparr>ring := r\<rparr>\<rparr>" by simp
  moreover have "run_callers (replicate (Suc k) t) (s, cs) = run_callers (replicate k t) (?s, ?cs)"
    using Suc.prems(1,2) r1(1) by (simp add: Let_def)
  ultimately show ?case unfolding fun_upd_upd by (simp only:)
qed

lemma run_loads:
  assumes "cs t = Deq_Load h e st got" and "length got + k = unat e"
    and "\<And>j. j < unat e \<Longrightarrow> unat ((h + of_nat j) AND q_mask (queue s)) < length (ring (queue s))"
  shows "run_callers (replicate k t) (s, cs) =
    Inr (s, cs(t := Deq_Load h e st
      (got @ map (\<lambda>j. ring (queue s) ! unat ((h + of_nat j) AND q_mask (queue s))) [length got..<unat e])))"
  using assms(1,2)
proof (induction k arbitrary: got cs)
  case 0
  then have "cs = cs(t := Deq_Load h e st got)" by (auto simp: fun_eq_iff)
  then show ?case using 0 by simp
next
  case (Suc k)
  let ?x = "ring (queue s) ! unat ((h + of_nat (length got)) AND q_mask (queue s))"
  have "run_callers (replicate (Suc k) t) (s, cs) =
      run_callers (replicate k t) (s, cs(t := Deq_Load h e st (got @ [?x])))"
    using Suc.prems assms(3) by (simp add: Let_def)
  moreover have "run_callers (replicate k t) (s, cs(t := Deq_Load h e st (got @ [?x]))) = Inr (s, cs(t := Deq_Load h e st
      ((got @ [?x]) @ map (\<lambda>j. ring (queue s) ! unat ((h + of_nat j) AND q_mask (queue s))) [length (got @ [?x])..<unat e])))"
    using Suc.prems(2) Suc.IH [of "cs(t := Deq_Load h e st (got @ [?x]))" "got @ [?x]"]
    unfolding fun_upd_upd by (simp only: length_append_singleton add_Suc_right add_Suc fun_upd_same simp_thms)
  moreover have "[length got..<unat e] = length got # [length (got @ [?x])..<unat e]"
    using Suc.prems(2) by (simp add: upt_conv_Cons)
  ultimately show ?case by (simp only: list.map append_assoc append_Cons append_Nil)
qed

lemma alone_enqueue:
  assumes "alf_ok (queue s)" and "length xs < 2 ^ 32"
    and "alf_mp_enqueue (queue s) xs (of_nat (length xs)) = Inr (r, q')"
  shows "\<exists>m s'. run_callers (replicate m t) (s, cs(t := Enq_Read xs)) = Inr (s', cs(t := Idle)) \<and> queue s' = q' \<and>
    accepted s' = accepted s @ (if r = 0 then [] else xs)"
proof -
  let ?q = "queue s" and ?n = "of_nat (length xs) :: u32"
  obtain K where K: "K \<le> 31" "unat (q_size ?q) = 2 ^ K" "unat (q_mask ?q) + 1 = 2 ^ K"
    "tail (producer ?q) = head (producer ?q)" using assms(1) by (rule alf_okE)
  have n: "unat ?n = length xs" using assms(2) by (simp add: unat_of_nat_u32)
  show ?thesis
  proof (cases "?n > q_size ?q + tail (consumer ?q) - head (producer ?q)")
    case True
    then have "run_callers (replicate 2 t) (s, cs(t := Enq_Read xs)) = Inr (s, cs(t := Idle))"
      by (simp add: numeral_2_eq_2 Let_def)
    then show ?thesis using assms(3) True by (auto simp: alf_mp_enqueue_def Let_def)
  next
    case False
    let ?h = "head (producer ?q)"
    let ?q1 = "?q\<lparr>producer := (producer ?q)\<lparr>head := ?h + ?n\<rparr>\<rparr>"
    have "?n \<le> q_size ?q"
      using False alf_space [OF assms(1)] by (simp add: not_less word_le_nat_alt)
    then have le: "unat ?n \<le> 2 ^ K" using K(2) by (simp add: word_le_nat_alt)
    have "helper_alf_enqueue_store_unroll ?h ?q1 xs ?n = helper_alf_enqueue_store_mask ?h ?q1 xs ?n"
      using K le by (intro store_unroll_eq_mask) auto
    then obtain ring' where ring': "store_masked (length xs) (q_mask ?q) xs 0 ?h (ring ?q) = Inr ring'"
      and q': "r = ?n" "q' = ?q1\<lparr>ring := ring', producer := \<lparr>head = ?h + ?n, tail = ?h + ?n\<rparr>\<rparr>"
      using assms(3) False K(4) n by (auto simp: alf_mp_enqueue_def helper_alf_enqueue_store_mask_def Let_def bind_ok_eq_Inr split: if_splits)
    let ?s1 = "s\<lparr>queue := ?q1, accepted := accepted s @ xs\<rparr>"
    let ?cs1 = "cs(t := Enq_Store xs ?h (length (accepted s)) 0)"
    let ?s2 = "?s1\<lparr>queue := ?q1\<lparr>ring := ring'\<rparr>\<rparr>"
    have "run_callers (replicate 3 t) (s, cs(t := Enq_Read xs)) = Inr (?s1, ?cs1)"
      using False by (simp add: numeral_3_eq_3 Let_def)
    moreover have "run_callers (replicate (length xs) t) (?s1, ?cs1) =
        Inr (?s2, cs(t := Enq_Store xs ?h (length (accepted s)) (length xs)))"
      using run_copies [of ?cs1 t xs ?h _ 0 "length xs" ?s1 ring'] ring' by simp
    moreover have "run_callers (replicate 3 t) (?s2, cs(t := Enq_Store xs ?h (length (accepted s)) (length xs))) =
        Inr (?s2\<lparr>queue := q', published := published s + length xs\<rparr>, cs(t := Idle))"
      using K(4) q'(2) by (simp add: numeral_3_eq_3 Let_def)
    ultimately have "run_callers (replicate (3 + length xs + 3) t) (s, cs(t := Enq_Read xs)) =
        Inr (?s2\<lparr>queue := q', published := published s + length xs\<rparr>, cs(t := Idle))"
      by (simp only: replicate_add run_callers_append bind_ok_simps)
    moreover have "(r = 0) = (xs = [])" using q'(1) n by (metis length_0_conv unat_eq_zero)
    ultimately show ?thesis by (intro exI conjI) auto
  qed
qed


lemma alone_dequeue:
  assumes "alf_ok (queue s)" and "n \<noteq> 0" and "unat n \<le> length p"
    and "alf_mc_dequeue (queue s) p n = Inr (r, p', q')"
  shows "\<exists>m s'. run_callers (replicate m t) (s, cs(t := Deq_Read n)) = Inr (s', cs(t := Idle)) \<and> queue s' = q' \<and>
    handed s' = handed s @ (if r = 0 then [] else [take (unat r) p'])"
proof -
  let ?q = "queue s" and ?h = "head (consumer (queue s))"
  let ?d = "tail (producer ?q) - ?h"
  obtain K where K: "unat (q_mask ?q) + 1 = 2 ^ K" "length (ring ?q) = 2 ^ K"
    "tail (consumer ?q) = ?h" "tail (producer ?q) = head (producer ?q)" using assms(1) by (rule alf_okE)
  have in_ring: "unat (x AND q_mask ?q) < length (ring ?q)" for x
    using and_mask_le [of x "q_mask ?q"] K(1,2) by linarith
  show ?thesis
  proof (cases "?d = 0")
    case True
    then have "run_callers (replicate 2 t) (s, cs(t := Deq_Read n)) = Inr (s, cs(t := Idle))"
      by (simp add: numeral_2_eq_2 Let_def)
    then show ?thesis using assms(4) True by (auto simp: alf_mc_dequeue_def Let_def)
  next
    case False
    let ?e = "min ?d n" and ?p = "claimed s"
    have e0: "?e \<noteq> 0" using False assms(2) by (simp add: min_def)
    let ?q1 = "?q\<lparr>consumer := (consumer ?q)\<lparr>head := ?h + ?e\<rparr>\<rparr>"
    let ?s1 = "s\<lparr>queue := ?q1, claimed := ?p + unat ?e\<rparr>"
    let ?got = "map (\<lambda>j. ring ?q ! unat ((?h + of_nat j) AND q_mask ?q)) [0..<unat ?e]"
    let ?s2 = "?s1\<lparr>queue := q', freed := freed s + unat ?e, handed := handed s @ [?got]\<rparr>"
    have r: "r = ?e" "q' = ?q\<lparr>consumer := \<lparr>head = ?h + ?e, tail = ?h + ?e\<rparr>\<rparr>"
      using assms(4) False K(3) by (auto simp: alf_mc_dequeue_def Let_def bind_ok_eq_Inr)
    have eu: "unat ?e = min (alf_used ?q) (unat n)"
      unfolding alf_used_def K(4) by (simp add: min_def word_le_nat_alt)
    have "p' = take (unat ?e) (alf_contents ?q) @ drop (unat ?e) p"
      using alf_dequeue_takes [OF assms(1,3)] assms(4) unfolding eu [symmetric] by auto
    moreover have "length (take (unat ?e) (alf_contents ?q)) = unat ?e" using eu by simp
    ultimately have "take (unat r) p' = take (unat ?e) (alf_contents ?q)"
      unfolding r(1) by (metis append_eq_conv_conj)
    also have "\<dots> = ?got" using eu by (simp add: alf_contents_def take_map min_def)
    finally have got: "take (unat r) p' = ?got" .
    have "run_callers (replicate 3 t) (s, cs(t := Deq_Read n)) = Inr (?s1, cs(t := Deq_Load ?h ?e ?p []))"
      using False by (simp add: numeral_3_eq_3 Let_def)
    moreover have "run_callers (replicate (unat ?e) t) (?s1, cs(t := Deq_Load ?h ?e ?p [])) =
        Inr (?s1, cs(t := Deq_Load ?h ?e ?p ?got))"
      using run_loads [of "cs(t := Deq_Load ?h ?e ?p [])" t ?h ?e ?p "[]" "unat ?e" ?s1] in_ring
      unfolding fun_upd_upd by simp
    moreover have "run_callers (replicate 3 t) (?s1, cs(t := Deq_Load ?h ?e ?p ?got)) = Inr (?s2, cs(t := Idle))"
      using K(3) r(2) by (simp add: numeral_3_eq_3 Let_def)
    ultimately have "run_callers (replicate (3 + unat ?e + 3) t) (s, cs(t := Deq_Read n)) = Inr (?s2, cs(t := Idle))"
      by (simp only: replicate_add run_callers_append bind_ok_simps)
    then show ?thesis using r(1) e0 got by (intro exI conjI) auto
  qed
qed

end
