(* ===== verification/Alf_Concurrent_Properties.thy ===== *)
theory Alf_Concurrent_Properties
  imports Alf_Turns
begin

text \<open>
  The properties of the array queue under interleaved callers: order, progress, and agreement
  with the sequential operations.
\<close>

subsection \<open>Properties\<close>

text \<open>
  C9. First in, first out under any interleaving of its callers: on a new queue, as long as no
  more than \<open>2 ^ k\<close> elements are reserved at a time (\<open>2 ^ k\<close> divides the size; a ring of
  a power of two keeps to its size by itself), what has been handed out, one dequeue after
  another, is the beginning of what has been accepted, one enqueue after another; the rest is
  at most \<open>2 ^ k\<close> elements, and when no caller is at work it is what the ring holds. No caller
  ever accesses memory outside the ring: a turn without progress is a wait for the tail. On a
  ring of \<open>2 ^ k\<close> slots the limit never holds back a step of a caller.
\<close>

theorem alf_concurrent_fifo:
  assumes "alf_queue_alloc vok sz = Some q" and "k \<le> 31" "2 ^ k dvd unat sz" "sz \<noteq> 0"
    and "alf_run (2 ^ k) q (s, cs)"
  shows "(\<exists>rest. accepted s = concat (handed s) @ rest \<and> length rest \<le> 2 ^ k) \<and>
    ((\<forall>t. cs t = Idle) \<longrightarrow> accepted s = concat (handed s) @ alf_contents (queue s) \<and>
      tail (producer (queue s)) = head (producer (queue s)) \<and>
      tail (consumer (queue s)) = head (consumer (queue s))) \<and>
    (\<forall>t e. caller_step (cs t) s = Inl e \<longrightarrow> e = Hang) \<and>
    (unat sz = 2 ^ k \<longrightarrow> (\<forall>t c s'. \<not> overtaken (cs t) s \<longrightarrow> caller_step (cs t) s = Inr (c, s') \<longrightarrow>
      alf_run (2 ^ k) q (s', cs(t := c))))"
proof -
  have ok: "system_ok k (s, cs)" by (rule run_ok [OF assms])
  have S: "concat (handed s) = take (freed s) (accepted s)" "length (accepted s) \<le> freed s + 2 ^ k"
    using system_okD(1) [OF ok] by (auto simp: shared_ok_def Let_def)
  have sz: "q_size (queue s) = sz"
    using run_size [OF assms(5)] assms(1) by (auto simp: alf_queue_alloc_def Let_def split: if_splits)
  show ?thesis
  proof (intro conjI allI impI exI [of _ "drop (freed s) (accepted s)"])
    show "accepted s = concat (handed s) @ drop (freed s) (accepted s)" by (simp add: S(1))
    show "length (drop (freed s) (accepted s)) \<le> 2 ^ k" using S(2) by simp
    show "e = Hang" if "caller_step (cs t) s = Inl e" for t e using step_faults_not [OF ok that] .
    show "alf_run (2 ^ k) q (s', cs(t := c))"
      if "unat sz = 2 ^ k" "\<not> overtaken (cs t) s" "caller_step (cs t) s = Inr (c, s')" for t c s'
      using alf_run.step [OF assms(5) that(2,3)] room_by_size [OF ok _ that(2,3)] that(1) sz by simp
    assume "\<forall>t. cs t = Idle"
    then have "alf_contents (queue s) = drop (freed s) (accepted s)" "alf_win k (queue s)"
      using rest_contents [OF ok] by auto
    then show "accepted s = concat (handed s) @ alf_contents (queue s)"
      "tail (producer (queue s)) = head (producer (queue s))"
      "tail (consumer (queue s)) = head (consumer (queue s))" using S(1) by (auto simp: alf_win_def)
  qed
qed

text \<open>
  C10. Nobody waits for ever: in any state that interleaved callers can reach, there is a
  sequence of their steps, without a new call or a new claim, after which every element claimed
  for storing is published, every element claimed for loading is handed out, and no caller is
  left in the copying or waiting part of its operation.
\<close>

theorem alf_concurrent_progress:
  assumes "alf_queue_alloc vok sz = Some q" and "k \<le> 31" "2 ^ k dvd unat sz" "sz \<noteq> 0"
    and "alf_run (2 ^ k) q (s, cs)"
  shows "\<exists>ts s' cs'. run_callers ts (s, cs) = Inr (s', cs') \<and> alf_run (2 ^ k) q (s', cs') \<and>
    accepted s' = accepted s \<and> published s' = length (accepted s) \<and> claimed s' = claimed s \<and>
    concat (handed s') = take (claimed s) (accepted s) \<and> (\<forall>t. putting (cs' t) = {} \<and> taking (cs' t) = {})"
proof -
  have "sound_run k q (s, cs)" using run_ok [OF assms] assms(5) by (simp add: sound_run_def)
  from putters.all_served [OF this] obtain ts s1 cs1 where 1: "run_callers ts (s, cs) = Inr (s1, cs1)"
    "sound_run k q (s1, cs1)" "accepted s1 = accepted s" "claimed s1 = claimed s"
    "published s1 = length (accepted s1)" by auto
  from takers.all_served [OF 1(2)] obtain us s2 cs2 where 2: "run_callers us (s1, cs1) = Inr (s2, cs2)"
    "sound_run k q (s2, cs2)" "accepted s2 = accepted s1" "published s2 = published s1"
    "claimed s2 = claimed s1" "freed s2 = claimed s2" by auto
  have ok: "system_ok k (s2, cs2)" using 2(2) by (simp add: sound_run_def)
  have "putting (cs2 t) = {} \<and> taking (cs2 t) = {}" for t
    using system_okD(3,4) [OF ok] 1 2 by (auto simp: owned_def)
  moreover have "concat (handed s2) = take (claimed s) (accepted s)"
    using system_okD(1) [OF ok] 1 2 by (simp add: shared_ok_def Let_def)
  moreover have "run_callers (ts @ us) (s, cs) = Inr (s2, cs2)" using 1(1) 2(1) by (simp add: run_callers_append)
  ultimately show ?thesis using 1 2 by (intro exI [of _ "ts @ us"]) (auto simp: sound_run_def)
qed

text \<open>
  C39. The interleaved model and the sequential one are the same code: on a queue at rest, a
  caller whose steps nobody interrupts returns with the queue, the values stored and the values
  loaded that \<open>alf_mp_enqueue\<close> and \<open>alf_mc_dequeue\<close>, with their unrolled copies, give.
\<close>

theorem alf_alone_agrees:
  assumes "alf_ok (queue s)"
  shows "(\<forall>xs r q'. length xs < 2 ^ 32 \<longrightarrow> alf_mp_enqueue (queue s) xs (of_nat (length xs)) = Inr (r, q') \<longrightarrow>
      (\<exists>m s'. run_callers (replicate m t) (s, cs(t := Enq_Read xs)) = Inr (s', cs(t := Idle)) \<and>
        queue s' = q' \<and> accepted s' = accepted s @ (if r = 0 then [] else xs))) \<and>
    (\<forall>n p r p' q'. n \<noteq> 0 \<longrightarrow> unat n \<le> length p \<longrightarrow> alf_mc_dequeue (queue s) p n = Inr (r, p', q') \<longrightarrow>
      (\<exists>m s'. run_callers (replicate m t) (s, cs(t := Deq_Read n)) = Inr (s', cs(t := Idle)) \<and>
        queue s' = q' \<and> handed s' = handed s @ (if r = 0 then [] else [take (unat r) p'])))"
  using alone_enqueue [OF assms] alone_dequeue [OF assms] by blast

subsection \<open>Samples\<close>

text \<open>A schedule with the conditions of a run checked at each step.\<close>

primrec play :: "nat \<Rightarrow> nat list \<Rightarrow> alf_system \<Rightarrow> alf_system option" where
  "play w [] \<sigma> = Some \<sigma>"
| "play w (t # ts) \<sigma> = (if overtaken (snd \<sigma> t) (fst \<sigma>) then None else
     case caller_step (snd \<sigma> t) (fst \<sigma>) of
       Inl e \<Rightarrow> None
     | Inr (c, s') \<Rightarrow> if length (accepted s') \<le> freed s' + w then play w ts (s', (snd \<sigma>)(t := c)) else None)"

lemma play_run:
  assumes "alf_run w q \<sigma>" and "play w ts \<sigma> = Some \<sigma>'"
  shows "alf_run w q \<sigma>' \<and> (\<forall>u. u \<notin> set ts \<longrightarrow> snd \<sigma>' u = snd \<sigma> u)"
  using assms
proof (induction ts arbitrary: \<sigma>)
  case (Cons t ts)
  obtain s cs where \<sigma>: "\<sigma> = (s, cs)" by (cases \<sigma>)
  with Cons.prems(2) obtain c s' where c: "\<not> overtaken (cs t) s" "caller_step (cs t) s = Inr (c, s')"
    "length (accepted s') \<le> freed s' + w" "play w ts (s', cs(t := c)) = Some \<sigma>'"
    by (auto split: if_splits sum.splits)
  have "alf_run w q (s', cs(t := c))" using Cons.prems(1) c unfolding \<sigma> by (intro alf_run.step)
  from Cons.IH [OF this c(4)] show ?case by (auto simp: \<sigma>)
qed simp

definition ring4 :: alf_queue where
  "ring4 = \<lparr>q_size = 4, q_mask = 3, q_flags = 0, producer = \<lparr>head = 0, tail = 0\<rparr>,
     consumer = \<lparr>head = 0, tail = 0\<rparr>, ring = [0, 0, 0, 0]\<rparr>"

lemma ring4_alloc: "alf_queue_alloc (\<lambda>_. True) 4 = Some ring4"
proof -
  have "replicate 4 (0::nat) = [0, 0, 0, 0]" by (simp add: numeral_eq_Suc)
  then show ?thesis by (simp add: alf_queue_alloc_def ring4_def)
qed

text \<open>
  Two callers enqueue at once: caller 1 reads the head before caller 0's \<open>cmpxchg\<close> and has to
  try again, then stores before caller 0 does and waits for it. Later caller 2 dequeues.
\<close>

definition racing :: alf_system where
  "racing = (new_shared ring4, (\<lambda>_. Idle)(0 := Enq_Read [7], 1 := Enq_Read [8]))"

lemma racing_run: "alf_run 4 ring4 racing"
  unfolding racing_def by (intro alf_run.enqueue alf_run.start) simp_all

definition raced :: alf_system where
  "raced = the (play 4 [0, 1, 0, 1, 0, 1, 1, 1, 1, 1, 1] racing)"

lemma raced_play: "play 4 [0, 1, 0, 1, 0, 1, 1, 1, 1, 1, 1] racing = Some raced"
  by (simp add: raced_def racing_def new_shared_def ring4_def Let_def store1_def)

lemma raced_state:
  "snd raced 0 = Enq_Store [7] 0 0 0" "snd raced 1 = Enq_Wait [8] 1 1" "accepted (fst raced) = [7, 8]"
  "caller_step (snd raced 1) (fst raced) = Inl Hang" "claimed (fst raced) = 0"
  by (simp_all add: raced_def racing_def new_shared_def ring4_def Let_def store1_def)


theorem alf_concurrent_progress_witness:
  "alf_run 4 ring4 raced \<and> caller_step (snd raced 1) (fst raced) = Inl Hang \<and>
   (\<exists>ts s' cs'. run_callers ts raced = Inr (s', cs') \<and> published s' = 2)"
proof -
  have run: "alf_run 4 ring4 raced" using play_run [OF racing_run raced_play] by simp
  then have "alf_run (2 ^ 2) ring4 (fst raced, snd raced)" by simp
  from alf_concurrent_progress [OF ring4_alloc _ _ _ this] obtain ts s' cs'
    where "run_callers ts (fst raced, snd raced) = Inr (s', cs')" "published s' = length (accepted (fst raced))"
    by auto
  then have "run_callers ts raced = Inr (s', cs') \<and> published s' = 2" using raced_state(3) by simp
  then show ?thesis using run raced_state(4) by blast
qed

text \<open>Both finish in turn, and caller 2 takes what came first.\<close>

definition later :: alf_system where
  "later = the (play 4 [0, 0, 0, 0, 1, 1] raced)"

definition served :: alf_system where
  "served = the (play 4 [2, 2, 2, 2, 2, 2, 2] (fst later, (snd later)(2 := Deq_Read 1)))"

lemma served_plays:
  "play 4 [0, 0, 0, 0, 1, 1] raced = Some later" "snd later 2 = Idle"
  "play 4 [2, 2, 2, 2, 2, 2, 2] (fst later, (snd later)(2 := Deq_Read 1)) = Some served"
  "snd served 0 = Idle" "snd served 1 = Idle" "snd served 2 = Idle" "handed (fst served) = [[7]]"
  "accepted (fst served) = [7, 8]"
  by (simp_all add: later_def served_def raced_def racing_def new_shared_def ring4_def Let_def store1_def)

theorem alf_concurrent_fifo_witness:
  "alf_run 4 ring4 served \<and> handed (fst served) = [[7]] \<and> alf_contents (queue (fst served)) = [8]"
proof -
  have r: "alf_run 4 ring4 raced" and i: "snd raced u = Idle" if "u \<notin> {0, 1}" for u
    using play_run [OF racing_run raced_play] that by (auto simp: racing_def)
  have l: "alf_run 4 ring4 later" and li: "snd later u = Idle" if "u \<notin> {0, 1}" for u
    using play_run [OF r served_plays(1)] that i [of u] by auto
  have "alf_run 4 ring4 (fst later, snd later)" using l [of 2] by simp
  then have "alf_run 4 ring4 (fst later, (snd later)(2 := Deq_Read 1))"
    using served_plays(2) by (intro alf_run.dequeue) auto
  note s = play_run [OF this served_plays(3)]
  have "snd served u = Idle" for u
    using s li [of u] served_plays(4-6) by (cases "u \<in> {0, 1, 2}") auto
  moreover have "alf_run (2 ^ 2) ring4 (fst served, snd served)" using s by simp
  ultimately show ?thesis
    using alf_concurrent_fifo [OF ring4_alloc _ _ _ \<open>alf_run (2 ^ 2) _ _\<close>] s served_plays(7,8) by auto
qed

theorem alf_alone_agrees_witness:
  "\<exists>m s'. run_callers (replicate m 5) (new_shared ring4, (\<lambda>_. Idle)(5 := Enq_Read [7])) =
     Inr (s', (\<lambda>_. Idle)(5 := Idle)) \<and> ring (queue s') = [7, 0, 0, 0]"
proof -
  have ok: "alf_ok (queue (new_shared ring4))"
    by (auto simp: new_shared_def ring4_def alf_ok_def alf_used_def intro: bexI [of _ 2])
  have "alf_mp_enqueue (queue (new_shared ring4)) [7] (of_nat (length [7::ptr])) =
      Inr (1, ring4\<lparr>producer := \<lparr>head = 1, tail = 1\<rparr>, ring := [7, 0, 0, 0]\<rparr>)"
    by (simp add: new_shared_def ring4_def alf_mp_enqueue_def helper_alf_enqueue_store_unroll_def
        store1_def Let_def)
  moreover have "length [7::ptr] < 2 ^ 32" by simp
  ultimately obtain m s' where "run_callers (replicate m 5) (new_shared ring4, (\<lambda>_. Idle)(5 := Enq_Read [7])) =
      Inr (s', (\<lambda>_. Idle)(5 := Idle))" "queue s' = ring4\<lparr>producer := \<lparr>head = 1, tail = 1\<rparr>, ring := [7, 0, 0, 0]\<rparr>"
    using alf_alone_agrees [OF ok, of 5 "\<lambda>_. Idle", THEN conjunct1] by blast
  then show ?thesis by (intro exI [of _ m] exI [of _ s']) simp
qed

end
