(* ===== verification/Mempool.thy ===== *)
theory Mempool
  imports Alf_Queue
begin

text \<open>
  The local page pool (valet_mempool.c, valet_mempool.h) and the objects it works on: the
  entries of the page table (\<open>struct tree_entry\<close> and its flags, gpt.h and gpt.c), the
  items of the sending list (\<open>struct local_page_list\<close>) and the pages.

  The memory is a record of three heaps, maps from addresses to objects, beside the
  static variable \<open>valet_page_pool\<close>. What the kernel's allocators answer is an argument of
  the operations that ask: an address (\<open>NULL\<close> for a failure) and the stale contents.
  The locks are not modelled; an operation runs alone from entry to return.
\<close>

subsection \<open>Data\<close>

datatype entry_flags = UPDATING | RECLAIMABLE | RECLAIMED

fun BIT :: "entry_flags \<Rightarrow> u8" where
  "BIT UPDATING = 1"
| "BIT RECLAIMABLE = 2"
| "BIT RECLAIMED = 4"

record tree_entry =
  te_index :: nat
  te_page :: ptr
  te_len :: u16
  te_flags :: u8
  te_ref_count :: int

record local_page_list =
  li_ref_count :: int
  li_start_index :: nat
  li_len :: nat
  batch_list :: "ptr list"

datatype mempool_state = MEMP_IDLE | MEMP_SHRINK | MEMP_EXPAND

record valet_mempool =
  cap_nr :: int
  new_cap_nr :: int
  curr_nr :: int
  used_nr :: int
  threshold :: int
  elements :: "ptr list"
  init_done :: int
  min_pool_pages :: int
  max_pool_pages :: int
  threshold_page_shrink :: int
  threshold_page_expand :: int
  sending_list :: "alf_queue option"
  reclaim_list :: "alf_queue option"
  memp_state :: mempool_state

type_synonym page = "u8 list"

record valet_mem =
  pool :: valet_mempool
  entries :: "ptr \<rightharpoonup> tree_entry"
  items :: "ptr \<rightharpoonup> local_page_list"
  pages :: "ptr \<rightharpoonup> page"

abbreviation (input) RDMA_WR_BUF_LEN :: nat where "RDMA_WR_BUF_LEN \<equiv> 128"
abbreviation (input) RESIZING_UNIT_IN_PAGES :: nat where "RESIZING_UNIT_IN_PAGES \<equiv> 262144"

text \<open>Reading an object through a pointer.\<close>

definition deref :: "(ptr \<rightharpoonup> 'o) \<Rightarrow> ptr \<Rightarrow> 'o outcome" where
  "deref h a = (case h a of None \<Rightarrow> Inl Null_Deref | Some x \<Rightarrow> Inr x)"

definition deref_queue :: "alf_queue option \<Rightarrow> alf_queue outcome" where
  "deref_queue oq = (case oq of None \<Rightarrow> Inl Null_Deref | Some q \<Rightarrow> Inr q)"

lemma deref_Some [simp]: "h a = Some x \<Longrightarrow> deref h a = Inr x"
  by (simp add: deref_def)

lemma deref_eq_Inr: "deref h a = Inr x \<longleftrightarrow> h a = Some x"
  by (simp add: deref_def split: option.splits)

lemma deref_queue_Some [simp]: "deref_queue (Some q) = Inr q"
  by (simp add: deref_queue_def)

lemma deref_queue_eq_Inr: "deref_queue oq = Inr q \<longleftrightarrow> oq = Some q"
  by (simp add: deref_queue_def split: option.splits)

subsection \<open>Entry flags\<close>

definition test_flag :: "tree_entry \<Rightarrow> entry_flags \<Rightarrow> bool" where
  "test_flag e f \<longleftrightarrow> te_flags e AND BIT f \<noteq> 0"

definition set_flag :: "entry_flags \<Rightarrow> tree_entry \<Rightarrow> tree_entry" where
  "set_flag f e = e\<lparr>te_flags := te_flags e OR BIT f\<rparr>"

definition clear_flag :: "entry_flags \<Rightarrow> tree_entry \<Rightarrow> tree_entry" where
  "clear_flag f e = e\<lparr>te_flags := te_flags e AND NOT (BIT f)\<rparr>"

subsection \<open>The items and the two index queues\<close>

text \<open>\<open>kmalloc\<close> answers with an address and what the memory held before.\<close>

definition get_free_item :: "ptr \<times> local_page_list \<Rightarrow> 'a valet_mem_scheme \<Rightarrow> (ptr \<times> 'a valet_mem_scheme) outcome" where
  "get_free_item grant s =
     (if fst grant = NULL then Inl Panic
      else Inr (fst grant, s\<lparr>items := (items s)(fst grant \<mapsto> snd grant)\<rparr>))"

definition put_free_item :: "ptr \<Rightarrow> 'a valet_mem_scheme \<Rightarrow> 'a valet_mem_scheme" where
  "put_free_item tmp s = s\<lparr>items := (items s)(tmp := None)\<rparr>"

text \<open>The results are the C returns, 1 for a failure; a getter also gives what it wrote.\<close>

definition put_sending_index :: "ptr \<Rightarrow> 'a valet_mem_scheme \<Rightarrow> (int \<times> 'a valet_mem_scheme) outcome" where
  "put_sending_index tmp s =
     bind_ok (deref_queue (sending_list (pool s))) (\<lambda>q. bind_ok (put_index q tmp) (\<lambda>(b, q).
       Inr (if b then 0 else 1, s\<lparr>pool := (pool s)\<lparr>sending_list := Some q\<rparr>\<rparr>)))"

definition get_sending_index :: "'a valet_mem_scheme \<Rightarrow> (ptr option \<times> 'a valet_mem_scheme) outcome" where
  "get_sending_index s =
     (if init_done (pool s) = 0 then Inr (None, s)
      else bind_ok (deref_queue (sending_list (pool s))) (\<lambda>q. bind_ok (get_index q) (\<lambda>(x, q).
        Inr (x, s\<lparr>pool := (pool s)\<lparr>sending_list := Some q\<rparr>\<rparr>))))"

definition put_reclaimable_index :: "ptr \<Rightarrow> 'a valet_mem_scheme \<Rightarrow> (int \<times> 'a valet_mem_scheme) outcome" where
  "put_reclaimable_index tmp s =
     bind_ok (deref_queue (reclaim_list (pool s))) (\<lambda>q. bind_ok (put_index q tmp) (\<lambda>(b, q).
       Inr (if b then 0 else 1, s\<lparr>pool := (pool s)\<lparr>reclaim_list := Some q\<rparr>\<rparr>)))"

definition get_reclaimable_index :: "'a valet_mem_scheme \<Rightarrow> (ptr option \<times> 'a valet_mem_scheme) outcome" where
  "get_reclaimable_index s =
     bind_ok (deref_queue (reclaim_list (pool s))) (\<lambda>q. bind_ok (get_index q) (\<lambda>(x, q).
       Inr (x, s\<lparr>pool := (pool s)\<lparr>reclaim_list := Some q\<rparr>\<rparr>)))"

subsection \<open>Free pages\<close>

text \<open>\<open>__free_pages\<close>, \<open>clear_highpage\<close>: the page has to be there.\<close>

definition free_page :: "ptr \<Rightarrow> 'a valet_mem_scheme \<Rightarrow> 'a valet_mem_scheme outcome" where
  "free_page p s =
     bind_ok (deref (pages s) p) (\<lambda>_. Inr (s\<lparr>pages := (pages s)(p := None)\<rparr>))"

definition clear_highpage :: "ptr \<Rightarrow> 'a valet_mem_scheme \<Rightarrow> 'a valet_mem_scheme outcome" where
  "clear_highpage p s =
     bind_ok (deref (pages s) p) (\<lambda>_.
       Inr (s\<lparr>pages := (pages s)(p \<mapsto> replicate VALET_PAGE_SIZE 0)\<rparr>))"

definition valet_add_element :: "ptr \<Rightarrow> 'a valet_mem_scheme \<Rightarrow> 'a valet_mem_scheme outcome" where
  "valet_add_element element s =
     (let P = pool s
      in if curr_nr P \<ge> cap_nr P then free_page element s
         else bind_ok (iarr_set (elements P) (curr_nr P) element) (\<lambda>es.
           Inr (s\<lparr>pool := P\<lparr>elements := es, curr_nr := curr_nr P + 1, used_nr := used_nr P - 1\<rparr>\<rparr>)))"

definition valet_remove_element :: "'a valet_mem_scheme \<Rightarrow> (ptr \<times> 'a valet_mem_scheme) outcome" where
  "valet_remove_element s =
     (let P = pool s
      in if curr_nr P > 0
         then if curr_nr P \<le> 0 then Inl Panic
              else bind_ok (iarr_get (elements P) (curr_nr P - 1)) (\<lambda>element.
                Inr (element, s\<lparr>pool := P\<lparr>curr_nr := curr_nr P - 1, used_nr := used_nr P + 1\<rparr>\<rparr>))
         else Inr (NULL, s))"

definition valet_mempool_free :: "ptr \<Rightarrow> 'a valet_mem_scheme \<Rightarrow> 'a valet_mem_scheme outcome" where
  "valet_mempool_free element s =
     (if element = NULL then Inr s
      else bind_ok (clear_highpage element s) (valet_add_element element))"

subsection \<open>Reclaiming and allocating\<close>

definition valet_mempool_reclaim :: "'a valet_mem_scheme \<Rightarrow> (ptr \<times> 'a valet_mem_scheme) outcome" where
  "valet_mempool_reclaim s =
     bind_ok (get_reclaimable_index s) (\<lambda>(x, s).
       case x of None \<Rightarrow> Inr (NULL, s)
       | Some a \<Rightarrow> bind_ok (deref (entries s) a) (\<lambda>e.
           if test_flag e UPDATING then Inr (NULL, s)
           else let e = clear_flag RECLAIMABLE e
                in if te_page e = NULL then Inr (NULL, s\<lparr>entries := (entries s)(a \<mapsto> e)\<rparr>)
                   else Inr (te_page e, s\<lparr>entries := (entries s)(a \<mapsto> e\<lparr>te_page := NULL\<rparr>)\<rparr>)))"

text \<open>
  \<open>valet_mempool_alloc\<close> calls \<open>valet_mempool_reclaim\<close> until it gets a page. Every failing
  call takes an entry off the reclaim list or finds it empty, and then changes nothing any
  more: after one call for each element and one more, no further call of this thread can
  succeed, and the loop is a \<open>Hang\<close>.
\<close>

primrec reclaim_loop :: "nat \<Rightarrow> 'a valet_mem_scheme \<Rightarrow> (ptr \<times> 'a valet_mem_scheme) outcome" where
  "reclaim_loop 0 s = Inl Hang"
| "reclaim_loop (Suc k) s =
     bind_ok (valet_mempool_reclaim s) (\<lambda>(element, s).
       if element = NULL then reclaim_loop k s else Inr (element, s))"

definition reclaim_turns :: "'a valet_mem_scheme \<Rightarrow> nat" where
  "reclaim_turns s = (case reclaim_list (pool s) of None \<Rightarrow> 1 | Some q \<Rightarrow> Suc (alf_used q))"

definition valet_mempool_alloc :: "'a valet_mem_scheme \<Rightarrow> (ptr \<times> 'a valet_mem_scheme) outcome" where
  "valet_mempool_alloc s =
     bind_ok (valet_remove_element s) (\<lambda>(element, s).
       if element = NULL then reclaim_loop (reclaim_turns s) s else Inr (element, s))"

definition valet_alloc :: "'a valet_mem_scheme \<Rightarrow> (ptr \<times> 'a valet_mem_scheme) outcome" where
  "valet_alloc s = valet_mempool_alloc s"

definition valet_free :: "ptr \<Rightarrow> 'a valet_mem_scheme \<Rightarrow> 'a valet_mem_scheme outcome" where
  "valet_free element s = valet_mempool_free element s"

subsection \<open>Creating and resizing\<close>

text \<open>
  The loop that empties the pool runs while \<open>curr_nr\<close> is not 0; one turn more than there are
  elements is enough. \<open>vfree\<close> of the array leaves it without elements.
\<close>

primrec free_pool_loop :: "nat \<Rightarrow> 'a valet_mem_scheme \<Rightarrow> 'a valet_mem_scheme outcome" where
  "free_pool_loop 0 s = Inl Hang"
| "free_pool_loop (Suc k) s =
     (if curr_nr (pool s) = 0 then Inr s
      else bind_ok (valet_remove_element s) (\<lambda>(element, s).
        bind_ok (free_page element s) (free_pool_loop k)))"

definition valet_free_pool :: "'a valet_mem_scheme \<Rightarrow> 'a valet_mem_scheme outcome" where
  "valet_free_pool s =
     bind_ok (free_pool_loop (Suc (nat (curr_nr (pool s)))) s) (\<lambda>s.
       Inr (s\<lparr>pool := (pool s)\<lparr>elements := []\<rparr>\<rparr>))"

text \<open>
  \<open>alloc i\<close> is the answer of the \<open>i\<close>th call of \<open>alloc_page\<close>, \<open>vmalloc n\<close> the array of
  \<open>n\<close> stale slots or a failure. The boolean is the error return.
\<close>

primrec create_loop ::
  "nat \<Rightarrow> (nat \<Rightarrow> ptr \<times> page) \<Rightarrow> nat \<Rightarrow> 'a valet_mem_scheme \<Rightarrow> (int \<times> 'a valet_mem_scheme) outcome" where
  "create_loop 0 alloc i s = Inr (0, s)"
| "create_loop (Suc k) alloc i s =
     (let (element, stale) = alloc i; P = pool s
      in if element = NULL then bind_ok (valet_free_pool s) (\<lambda>s. Inr (1, s))
         else bind_ok (iarr_set (elements P) (curr_nr P) element) (\<lambda>es.
           create_loop k alloc (i + 1)
             (s\<lparr>pages := (pages s)(element \<mapsto> stale),
                pool := P\<lparr>elements := es, curr_nr := curr_nr P + 1\<rparr>\<rparr>)))"

definition valet_mempool_create ::
  "(nat \<Rightarrow> ptr list option) \<Rightarrow> (nat \<Rightarrow> ptr \<times> page) \<Rightarrow> int \<Rightarrow> int \<Rightarrow> 'a valet_mem_scheme \<Rightarrow>
   (int \<times> 'a valet_mem_scheme) outcome" where
  "valet_mempool_create vmalloc alloc freeram cap s =
     (case vmalloc (nat cap) of None \<Rightarrow> Inr (1, s)
      | Some es \<Rightarrow>
          bind_ok
            (create_loop (nat cap) alloc 0
               (s\<lparr>pool := (pool s)\<lparr>elements := es, cap_nr := cap, threshold := cap - cap div 4,
                  curr_nr := 0, used_nr := 0\<rparr>\<rparr>))
            (\<lambda>(err, s). if err \<noteq> 0 then Inr (err, s)
               else Inr (0, s\<lparr>pool := (pool s)\<lparr>threshold_page_shrink := freeram * 15 div 100,
                                threshold_page_expand := freeram * 30 div 100\<rparr>\<rparr>)))"

text \<open>
  Shrinking frees pages while more than \<open>new_cap\<close> are free. Otherwise, at the minimum, it
  moves up to one unit of reclaimable pages to the pool and runs off the end of
  the function without a \<open>return\<close>: the result is then \<open>None\<close>.
\<close>

primrec shrink_loop :: "nat \<Rightarrow> int \<Rightarrow> 'a valet_mem_scheme \<Rightarrow> 'a valet_mem_scheme outcome" where
  "shrink_loop 0 new_cap s = (if new_cap < curr_nr (pool s) then Inl Hang else Inr s)"
| "shrink_loop (Suc k) new_cap s =
     (if new_cap < curr_nr (pool s)
      then bind_ok (valet_remove_element s) (\<lambda>(element, s).
        bind_ok (free_page element s) (shrink_loop k new_cap))
      else Inr s)"

primrec reclaim_unit :: "nat \<Rightarrow> 'a valet_mem_scheme \<Rightarrow> 'a valet_mem_scheme outcome" where
  "reclaim_unit 0 s = Inr s"
| "reclaim_unit (Suc k) s =
     bind_ok (valet_mempool_reclaim s) (\<lambda>(element, s).
       bind_ok (if element \<noteq> NULL then valet_free element s else Inr s) (reclaim_unit k))"

definition valet_mempool_shrink :: "int \<Rightarrow> 'a valet_mem_scheme \<Rightarrow> (int option \<times> 'a valet_mem_scheme) outcome" where
  "valet_mempool_shrink new_cap s =
     (if new_cap \<le> 0 then Inl Panic
      else if new_cap < cap_nr (pool s)
      then bind_ok (shrink_loop (nat (curr_nr (pool s))) new_cap s) (\<lambda>s.
        Inr (Some 0, s\<lparr>pool := (pool s)\<lparr>cap_nr := new_cap, threshold := new_cap\<rparr>\<rparr>))
      else if min_pool_pages (pool s) = cap_nr (pool s)
      then bind_ok (reclaim_unit RESIZING_UNIT_IN_PAGES s) (\<lambda>s. Inr (None, s))
      else Inr (None, s))"

primrec expand_loop ::
  "nat \<Rightarrow> (nat \<Rightarrow> ptr \<times> page) \<Rightarrow> nat \<Rightarrow> 'a valet_mem_scheme \<Rightarrow> 'a valet_mem_scheme outcome" where
  "expand_loop 0 alloc i s = Inr s"
| "expand_loop (Suc k) alloc i s =
     (let (element, stale) = alloc i; P = pool s
      in if element = NULL then expand_loop k alloc (i + 1) s
         else bind_ok (iarr_set (elements P) (curr_nr P) element) (\<lambda>es.
           expand_loop k alloc (i + 1)
             (s\<lparr>pages := (pages s)(element \<mapsto> stale),
                pool := P\<lparr>elements := es, curr_nr := curr_nr P + 1\<rparr>\<rparr>)))"

definition valet_mempool_expand ::
  "(nat \<Rightarrow> ptr list option) \<Rightarrow> (nat \<Rightarrow> ptr \<times> page) \<Rightarrow> int \<Rightarrow> 'a valet_mem_scheme \<Rightarrow>
   (int \<times> 'a valet_mem_scheme) outcome" where
  "valet_mempool_expand vmalloc alloc new_cap s =
     (if new_cap \<le> 0 then Inl Panic
      else case vmalloc (nat new_cap) of None \<Rightarrow> Inr (1, s)
      | Some new_elements \<Rightarrow>
          bind_ok (memcpy new_elements (elements (pool s)) (nat (curr_nr (pool s)))) (\<lambda>es.
          bind_ok
            (expand_loop RESIZING_UNIT_IN_PAGES alloc 0
               (s\<lparr>pool := (pool s)\<lparr>elements := es, cap_nr := new_cap,
                                  threshold := new_cap - new_cap div 4\<rparr>\<rparr>))
            (\<lambda>s. Inr (0, s))))"

text \<open>
  One turn of \<open>mempool_thread_fn\<close>, with the free memory that \<open>si_meminfo\<close> reports and the
  value \<open>garbage\<close> that the caller reads when the shrinking function returns none.
\<close>

definition mempool_thread_step ::
  "(nat \<Rightarrow> ptr list option) \<Rightarrow> (nat \<Rightarrow> ptr \<times> page) \<Rightarrow> int \<Rightarrow> int \<Rightarrow> 'a valet_mem_scheme \<Rightarrow>
   'a valet_mem_scheme outcome" where
  "mempool_thread_step vmalloc alloc garbage freemem_pages s =
     (let P = pool s; unit = int RESIZING_UNIT_IN_PAGES
      in if freemem_pages < threshold_page_shrink P then
           let new = (if cap_nr P \<le> unit then min_pool_pages P else cap_nr P - unit);
               new = (if new < min_pool_pages P then min_pool_pages P else new)
           in bind_ok (valet_mempool_shrink new
                 (s\<lparr>pool := P\<lparr>memp_state := MEMP_SHRINK, new_cap_nr := new, threshold := new\<rparr>\<rparr>))
               (\<lambda>(err, s). if (case err of Some e \<Rightarrow> e | None \<Rightarrow> garbage) \<noteq> 0 then Inr s
                  else Inr (s\<lparr>pool := (pool s)\<lparr>memp_state := MEMP_IDLE\<rparr>\<rparr>))
         else if freemem_pages > threshold_page_expand P then
           let s = s\<lparr>pool := P\<lparr>memp_state := MEMP_EXPAND\<rparr>\<rparr>
           in if used_nr P \<ge> threshold P then
                if max_pool_pages P = cap_nr P then Inr s
                else let new = cap_nr P + unit;
                         new = (if new > max_pool_pages P then max_pool_pages P else new)
                     in bind_ok (valet_mempool_expand vmalloc alloc new
                           (s\<lparr>pool := (pool s)\<lparr>new_cap_nr := new\<rparr>\<rparr>))
                         (\<lambda>(err, s). if err \<noteq> 0
                            then Inr (s\<lparr>pool := (pool s)\<lparr>memp_state := MEMP_IDLE\<rparr>\<rparr>)
                            else Inr s)
              else Inr s
         else Inr (s\<lparr>pool := P\<lparr>memp_state := MEMP_IDLE\<rparr>\<rparr>))"

definition set_mempool_size :: "int \<Rightarrow> int \<Rightarrow> int \<Rightarrow> 'a valet_mem_scheme \<Rightarrow> 'a valet_mem_scheme" where
  "set_mempool_size freemem_pages request_min request_max s =
     s\<lparr>pool := (pool s)\<lparr>
        min_pool_pages := (if request_min = 0 then 5 * (freemem_pages div 100) else request_min),
        max_pool_pages := (if request_max = 0 then 40 * (freemem_pages div 100) else request_max)\<rparr>\<rparr>"

text \<open>
  Both queues get \<open>max_pool_pages\<close> slots, an argument of type \<open>u32\<close>. The integer is the
  C return: 1 when a part could not be allocated.
\<close>

definition mempool_init ::
  "(u64 \<Rightarrow> bool) \<Rightarrow> (nat \<Rightarrow> ptr list option) \<Rightarrow> (nat \<Rightarrow> ptr \<times> page) \<Rightarrow> int \<Rightarrow> 'a valet_mem_scheme \<Rightarrow>
   (int \<times> 'a valet_mem_scheme) outcome" where
  "mempool_init vzalloc_ok vmalloc alloc freeram s =
     (let s = s\<lparr>pool := (pool s)\<lparr>init_done := 0\<rparr>\<rparr>;
          s = set_mempool_size freeram 131072 6553600 s
      in bind_ok (valet_mempool_create vmalloc alloc freeram (min_pool_pages (pool s)) s) (\<lambda>(err, s).
           if err \<noteq> 0 then Inr (1, s)
           else case alf_queue_alloc vzalloc_ok (of_int (max_pool_pages (pool s))) of
             None \<Rightarrow> Inr (1, s\<lparr>pool := (pool s)\<lparr>sending_list := None\<rparr>\<rparr>)
           | Some q \<Rightarrow>
               (let s = s\<lparr>pool := (pool s)\<lparr>sending_list := Some q\<rparr>\<rparr>
                in case alf_queue_alloc vzalloc_ok (of_int (max_pool_pages (pool s))) of
                     None \<Rightarrow> Inr (1, s\<lparr>pool := (pool s)\<lparr>reclaim_list := None\<rparr>\<rparr>)
                   | Some q \<Rightarrow> Inr (0, s\<lparr>pool := (pool s)\<lparr>reclaim_list := Some q, init_done := 1\<rparr>\<rparr>))))"

end
