(* ===== verification/Pool_Invariant.thy ===== *)
theory Pool_Invariant
  imports Mempool
begin

text \<open>
  The invariant of the page pool and what each pool operation does to it: every page is
  free, held by exactly one entry of the page table, or in the hands of the caller; the
  reclaim list holds entries that carry the flag \<open>RECLAIMABLE\<close>, each at most once.
\<close>

subsection \<open>Flags\<close>

lemma test_set_flag [simp]: "test_flag (set_flag f e) g \<longleftrightarrow> f = g \<or> test_flag e g"
proof -
  have "(x OR BIT f) AND BIT g \<noteq> 0 \<longleftrightarrow> f = g \<or> x AND BIT g \<noteq> 0" for x :: u8
    by (cases f; cases g) (simp_all add: bit.conj_disj_distrib2)
  then show ?thesis by (simp add: test_flag_def set_flag_def)
qed

lemma test_clear_flag [simp]: "test_flag (clear_flag f e) g \<longleftrightarrow> f \<noteq> g \<and> test_flag e g"
proof -
  have "(x AND NOT (BIT f)) AND BIT g = (if f = g then 0 else x AND BIT g)" for x :: u8
    by (cases f; cases g) (simp_all add: and.assoc)
  then show ?thesis by (simp add: test_flag_def clear_flag_def)
qed

lemma flag_fields [simp]:
  "te_page (set_flag f e) = te_page e" "te_page (clear_flag f e) = te_page e"
  "te_len (set_flag f e) = te_len e" "te_len (clear_flag f e) = te_len e"
  "te_ref_count (set_flag f e) = te_ref_count e" "te_ref_count (clear_flag f e) = te_ref_count e"
  by (simp_all add: set_flag_def clear_flag_def)

lemma test_flag_update [simp]:
  "test_flag (e\<lparr>te_page := p\<rparr>) f = test_flag e f"
  "test_flag (e\<lparr>te_len := l\<rparr>) f = test_flag e f"
  "test_flag (e\<lparr>te_ref_count := r\<rparr>) f = test_flag e f"
  by (simp_all add: test_flag_def)

subsection \<open>The invariant\<close>

definition free_list :: "'a valet_mem_scheme \<Rightarrow> ptr list" where
  "free_list s = take (nat (curr_nr (pool s))) (elements (pool s))"

definition reclaim_contents :: "'a valet_mem_scheme \<Rightarrow> ptr list" where
  "reclaim_contents s = (case reclaim_list (pool s) of None \<Rightarrow> [] | Some q \<Rightarrow> alf_contents q)"

definition is_page :: "'a valet_mem_scheme \<Rightarrow> ptr \<Rightarrow> bool" where
  "is_page s p \<longleftrightarrow> p \<noteq> NULL \<and> (\<exists>b. pages s p = Some b \<and> length b = VALET_PAGE_SIZE)"

definition mapped :: "'a valet_mem_scheme \<Rightarrow> ptr \<Rightarrow> bool" where
  "mapped s p \<longleftrightarrow> p \<noteq> NULL \<and> (\<exists>a e. entries s a = Some e \<and> te_page e = p)"

definition pool_shape :: "'a valet_mem_scheme \<Rightarrow> bool" where
  "pool_shape s \<longleftrightarrow> 0 \<le> curr_nr (pool s) \<and> curr_nr (pool s) \<le> cap_nr (pool s) \<and>
     cap_nr (pool s) \<le> int (length (elements (pool s)))"

definition pages_ok :: "'a valet_mem_scheme \<Rightarrow> bool" where
  "pages_ok s \<longleftrightarrow> distinct (free_list s) \<and> (\<forall>p\<in>set (free_list s). is_page s p \<and> \<not> mapped s p) \<and>
     (\<forall>p. mapped s p \<longrightarrow> is_page s p) \<and>
     (\<forall>a b e f. entries s a = Some e \<longrightarrow> entries s b = Some f \<longrightarrow> te_page e = te_page f \<longrightarrow>
        te_page e \<noteq> NULL \<longrightarrow> a = b)"

definition reclaim_ok :: "nat \<Rightarrow> 'a valet_mem_scheme \<Rightarrow> bool" where
  "reclaim_ok k s \<longleftrightarrow> (\<exists>q. reclaim_list (pool s) = Some q \<and> alf_win k q) \<and>
     distinct (reclaim_contents s) \<and>
     (\<forall>a\<in>set (reclaim_contents s). \<exists>e. entries s a = Some e \<and> test_flag e RECLAIMABLE)"

definition pool_ok :: "nat \<Rightarrow> 'a valet_mem_scheme \<Rightarrow> bool" where
  "pool_ok k s \<longleftrightarrow> pool_shape s \<and> pages_ok s \<and> reclaim_ok k s"

text \<open>The part that does not need the queues, which the pool gets only after its pages.\<close>

definition core_ok :: "'a valet_mem_scheme \<Rightarrow> bool" where
  "core_ok s \<longleftrightarrow> pool_shape s \<and> pages_ok s"

lemma pool_ok_core: "pool_ok k s \<longleftrightarrow> core_ok s \<and> reclaim_ok k s"
  by (auto simp: pool_ok_def core_ok_def)

text \<open>A page that the caller holds and nobody else.\<close>

definition held :: "'a valet_mem_scheme \<Rightarrow> ptr \<Rightarrow> bool" where
  "held s p \<longleftrightarrow> is_page s p \<and> p \<notin> set (free_list s) \<and> \<not> mapped s p"

lemma length_free_list: "pool_shape s \<Longrightarrow> length (free_list s) = nat (curr_nr (pool s))"
  by (auto simp: pool_shape_def free_list_def)

lemma free_list_nonempty:
  "pool_shape s \<Longrightarrow> free_list s = [] \<longleftrightarrow> curr_nr (pool s) = 0"
  by (auto simp: pool_shape_def free_list_def)

subsection \<open>The free list\<close>

lemma remove_element_empty:
  "\<not> curr_nr (pool s) > 0 \<Longrightarrow> valet_remove_element s = Inr (NULL, s)"
  by (simp add: valet_remove_element_def Let_def)

lemma remove_element_last:
  assumes "pool_shape s" and "curr_nr (pool s) > 0"
  shows "\<exists>s'. valet_remove_element s = Inr (last (free_list s), s') \<and>
    s' = s\<lparr>pool := (pool s)\<lparr>curr_nr := curr_nr (pool s) - 1, used_nr := used_nr (pool s) + 1\<rparr>\<rparr> \<and>
    free_list s' = butlast (free_list s) \<and> pool_shape s' \<and> free_list s \<noteq> []"
proof -
  let ?P = "pool s"
  obtain n where n: "curr_nr ?P = int (Suc n)" using assms(2) by (metis zero_less_imp_eq_int Suc_pred)
  have len: "Suc n \<le> length (elements ?P)" using assms(1) n by (simp add: pool_shape_def)
  have "iarr_get (elements ?P) (curr_nr ?P - 1) = Inr (elements ?P ! n)"
    using len by (simp add: n iarr_get_def)
  moreover have "free_list s \<noteq> []" "length (free_list s) = Suc n"
    using len by (auto simp: free_list_def n nat_add_distrib)
  moreover have "last (free_list s) = elements ?P ! n"
    using calculation(2,3) by (simp add: last_conv_nth) (simp add: free_list_def n nat_add_distrib)
  moreover have "butlast (free_list s) = take n (elements ?P)"
    using len by (simp add: free_list_def n butlast_take nat_add_distrib)
  ultimately show ?thesis
    using assms n by (auto simp: valet_remove_element_def Let_def pool_shape_def free_list_def)
qed

lemma add_element_room:
  assumes "pool_shape s" and "curr_nr (pool s) < cap_nr (pool s)"
  shows "\<exists>s'. valet_add_element p s = Inr s' \<and>
    s' = s\<lparr>pool := (pool s)\<lparr>elements := (elements (pool s))[nat (curr_nr (pool s)) := p],
             curr_nr := curr_nr (pool s) + 1, used_nr := used_nr (pool s) - 1\<rparr>\<rparr> \<and>
    free_list s' = free_list s @ [p] \<and> pool_shape s'"
proof -
  let ?P = "pool s"
  have c: "0 \<le> curr_nr ?P" "nat (curr_nr ?P) < length (elements ?P)"
    using assms by (auto simp: pool_shape_def)
  have "iarr_set (elements ?P) (curr_nr ?P) p = Inr ((elements ?P)[nat (curr_nr ?P) := p])"
    using c by (simp add: iarr_set_def)
  moreover have "take (nat (curr_nr ?P + 1)) ((elements ?P)[nat (curr_nr ?P) := p]) =
      free_list s @ [p]"
    using c by (simp add: free_list_def nat_add_distrib take_Suc_conv_app_nth)
  ultimately show ?thesis
    using assms by (auto simp: valet_add_element_def Let_def pool_shape_def free_list_def)
qed

lemma butlast_set: "distinct xs \<Longrightarrow> set (butlast xs) = set xs - {last xs}"
  by (cases xs rule: rev_cases) auto

text \<open>What the parts of the invariant do not look at.\<close>

lemma frame_simps [simp]:
  "is_page (s\<lparr>pool := P\<rparr>) p = is_page s p" "is_page (s\<lparr>entries := E\<rparr>) p = is_page s p"
  "is_page (s\<lparr>items := I\<rparr>) p = is_page s p"
  "mapped (s\<lparr>pool := P\<rparr>) p = mapped s p" "mapped (s\<lparr>pages := G\<rparr>) p = mapped s p"
  "mapped (s\<lparr>items := I\<rparr>) p = mapped s p"
  "free_list (s\<lparr>entries := E\<rparr>) = free_list s" "free_list (s\<lparr>pages := G\<rparr>) = free_list s"
  "free_list (s\<lparr>items := I\<rparr>) = free_list s"
  "reclaim_contents (s\<lparr>entries := E\<rparr>) = reclaim_contents s"
  "reclaim_contents (s\<lparr>pages := G\<rparr>) = reclaim_contents s"
  "reclaim_contents (s\<lparr>items := I\<rparr>) = reclaim_contents s"
  "reclaim_ok k (s\<lparr>pages := G\<rparr>) = reclaim_ok k s" "reclaim_ok k (s\<lparr>items := I\<rparr>) = reclaim_ok k s"
  "pool_shape (s\<lparr>entries := E\<rparr>) = pool_shape s" "pool_shape (s\<lparr>pages := G\<rparr>) = pool_shape s"
  "pool_shape (s\<lparr>items := I\<rparr>) = pool_shape s" "pages_ok (s\<lparr>items := I\<rparr>) = pages_ok s"
  by (simp_all add: is_page_def mapped_def free_list_def reclaim_contents_def reclaim_ok_def
      pool_shape_def pages_ok_def)

lemma pool_frame_simps [simp]:
  "free_list (s\<lparr>pool := (pool s)\<lparr>reclaim_list := r\<rparr>\<rparr>) = free_list s"
  "free_list (s\<lparr>pool := (pool s)\<lparr>sending_list := r\<rparr>\<rparr>) = free_list s"
  "pool_shape (s\<lparr>pool := (pool s)\<lparr>reclaim_list := r\<rparr>\<rparr>) = pool_shape s"
  "pool_shape (s\<lparr>pool := (pool s)\<lparr>sending_list := r\<rparr>\<rparr>) = pool_shape s"
  "reclaim_contents (s\<lparr>pool := (pool s)\<lparr>sending_list := r\<rparr>\<rparr>) = reclaim_contents s"
  "reclaim_contents (s\<lparr>pool := (pool s)\<lparr>reclaim_list := Some q\<rparr>\<rparr>) = alf_contents q"
  by (simp_all add: free_list_def reclaim_contents_def pool_shape_def)

lemma reclaim_ok_pool:
  "reclaim_list P = reclaim_list (pool s) \<Longrightarrow> reclaim_ok k (s\<lparr>pool := P\<rparr>) = reclaim_ok k s"
  by (simp add: reclaim_ok_def reclaim_contents_def)

lemma pages_ok_sending [simp]:
  "pages_ok (s\<lparr>pool := (pool s)\<lparr>sending_list := r\<rparr>\<rparr>) = pages_ok s"
  "pages_ok (s\<lparr>pool := (pool s)\<lparr>reclaim_list := r\<rparr>\<rparr>) = pages_ok s"
  by (simp_all add: pages_ok_def)

lemma remove_element_held:
  assumes "core_ok s" and "curr_nr (pool s) > 0"
  shows "\<exists>s'. valet_remove_element s = Inr (last (free_list s), s') \<and>
    s' = s\<lparr>pool := (pool s)\<lparr>curr_nr := curr_nr (pool s) - 1, used_nr := used_nr (pool s) + 1\<rparr>\<rparr> \<and>
    free_list s' = butlast (free_list s) \<and> core_ok s' \<and> held s' (last (free_list s))"
proof -
  have ok: "pool_shape s" "pages_ok s" using assms(1) by (auto simp: core_ok_def)
  obtain s' where s': "valet_remove_element s = Inr (last (free_list s), s')"
    "s' = s\<lparr>pool := (pool s)\<lparr>curr_nr := curr_nr (pool s) - 1, used_nr := used_nr (pool s) + 1\<rparr>\<rparr>"
    "free_list s' = butlast (free_list s)" "pool_shape s'" "free_list s \<noteq> []"
    using remove_element_last [OF ok(1) assms(2)] by blast
  have f: "set (free_list s') = set (free_list s) - {last (free_list s)}"
    using ok(2) s'(3) by (simp add: pages_ok_def butlast_set)
  have "pages_ok s'"
    using ok(2) f s'(3) unfolding pages_ok_def by (simp add: s'(2) distinct_butlast)
  moreover have "held s' (last (free_list s))"
    using ok(2) f s'(5) unfolding held_def pages_ok_def by (simp add: s'(2))
  ultimately show ?thesis using s' by (auto simp: core_ok_def)
qed

definition same_but_counts :: "'a valet_mem_scheme \<Rightarrow> 'a valet_mem_scheme \<Rightarrow> bool" where
  "same_but_counts s s' \<longleftrightarrow> (\<exists>es c u G. s' = s\<lparr>pages := G,
     pool := (pool s)\<lparr>elements := es, curr_nr := c, used_nr := u\<rparr>\<rparr>)"

lemma same_but_countsI:
  "s' = s\<lparr>pages := G, pool := (pool s)\<lparr>elements := es, curr_nr := c, used_nr := u\<rparr>\<rparr> \<Longrightarrow>
   same_but_counts s s'"
  unfolding same_but_counts_def by blast

text \<open>Giving a page back: it joins the free list, or is freed when the pool is full.\<close>

lemma free_held:
  assumes "pool_ok k s" and "held s p"
  shows "\<exists>s'. valet_free p s = Inr s' \<and> pool_ok k s' \<and> same_but_counts s s' \<and>
    (if curr_nr (pool s) < cap_nr (pool s)
     then free_list s' = free_list s @ [p] \<and> pages s' = (pages s)(p \<mapsto> replicate VALET_PAGE_SIZE 0)
     else free_list s' = free_list s \<and> pages s' = (pages s)(p := None))"
proof -
  have ok: "pool_shape s" "pages_ok s" "reclaim_ok k s" using assms(1) by (auto simp: pool_ok_def)
  have p: "p \<noteq> NULL" "p \<notin> set (free_list s)" "\<not> mapped s p" using assms(2)
    by (auto simp: held_def is_page_def)
  obtain b where b: "pages s p = Some b" using assms(2) by (auto simp: held_def is_page_def)
  let ?z = "replicate VALET_PAGE_SIZE (0::u8)"
  let ?s1 = "s\<lparr>pages := (pages s)(p \<mapsto> ?z)\<rparr>"
  have free: "valet_free p s = valet_add_element p ?s1"
    using p(1) b by (simp add: valet_free_def valet_mempool_free_def clear_highpage_def)
  have others: "is_page (s\<lparr>pages := (pages s)(p := o')\<rparr>) x = is_page s x" if "x \<noteq> p" for x o'
    using that by (simp add: is_page_def)
  have self: "is_page ?s1 p" using p(1) by (simp add: is_page_def)
  have nf: "x \<noteq> p" if "x \<in> set (free_list s) \<or> mapped s x" for x using p that by blast
  show ?thesis
  proof (cases "curr_nr (pool s) < cap_nr (pool s)")
    case True
    obtain s' where s': "valet_add_element p ?s1 = Inr s'"
      "s' = ?s1\<lparr>pool := (pool s)\<lparr>elements := (elements (pool s))[nat (curr_nr (pool s)) := p],
             curr_nr := curr_nr (pool s) + 1, used_nr := used_nr (pool s) - 1\<rparr>\<rparr>"
      "free_list s' = free_list s @ [p]" "pool_shape s'"
      using add_element_room [of ?s1 p] ok(1) True by auto
    have pg: "is_page s' x = is_page ?s1 x" "mapped s' x = mapped s x" for x by (simp_all add: s'(2))
    have "entries s' = entries s" by (simp add: s'(2))
    then have "pages_ok s'"
      using ok(2) p(2,3) self nf others unfolding pages_ok_def s'(3) pg by auto
    moreover have "reclaim_ok k s'" using ok(3) by (simp add: s'(2) reclaim_ok_pool)
    ultimately have "pool_ok k s'" using s'(4) by (simp add: pool_ok_def)
    moreover have "same_but_counts s s'" by (rule same_but_countsI) (simp add: s'(2))
    moreover have "pages s' = (pages s)(p \<mapsto> ?z)" by (simp add: s'(2))
    ultimately show ?thesis using True free s'(1,3) by auto
  next
    case False
    let ?s2 = "s\<lparr>pages := (pages s)(p := None)\<rparr>"
    have "valet_add_element p ?s1 = Inr ?s2"
      using False by (simp add: valet_add_element_def free_page_def Let_def)
    moreover have "pages_ok ?s2"
      using ok(2) nf others unfolding pages_ok_def by auto
    moreover have "same_but_counts s ?s2" by (rule same_but_countsI [where es = "elements (pool s)" and
          c = "curr_nr (pool s)" and u = "used_nr (pool s)"]) simp
    ultimately show ?thesis using False free ok by (auto simp: pool_ok_def)
  qed
qed

subsection \<open>Reclaiming\<close>

text \<open>
  What one call does to the entry it takes off the list, and whether it yields a page.
\<close>

definition reclaimed_entry :: "tree_entry \<Rightarrow> tree_entry" where
  "reclaimed_entry e =
     (if test_flag e UPDATING then e else (clear_flag RECLAIMABLE e)\<lparr>te_page := NULL\<rparr>)"

definition yields :: "tree_entry \<Rightarrow> bool" where
  "yields e \<longleftrightarrow> \<not> test_flag e UPDATING \<and> te_page e \<noteq> NULL"

lemma reclaim_empty:
  assumes "reclaim_ok k s" and "reclaim_contents s = []"
  shows "valet_mempool_reclaim s = Inr (NULL, s)"
proof -
  obtain q where q: "reclaim_list (pool s) = Some q" "alf_win k q"
    using assms(1) by (auto simp: reclaim_ok_def)
  then have "get_index q = Inr (None, q)"
    using assms(2) by (intro win_get_empty) (auto simp: reclaim_contents_def)
  moreover have "s\<lparr>pool := (pool s)\<lparr>reclaim_list := Some q\<rparr>\<rparr> = s" using q(1) by simp
  ultimately show ?thesis using q(1) by (simp add: valet_mempool_reclaim_def get_reclaimable_index_def)
qed

lemma update_same_entry: "entries s a = Some e \<Longrightarrow> s\<lparr>entries := (entries s)(a \<mapsto> e)\<rparr> = s"
  by (simp add: fun_upd_idem)

lemma same_page: "te_page e = NULL \<Longrightarrow> (clear_flag f e)\<lparr>te_page := NULL\<rparr> = clear_flag f e"
  by (cases e) (simp add: clear_flag_def)

text \<open>
  The state after one call: the list is one entry shorter and this entry is updated.
\<close>

lemma reclaim_first:
  assumes "reclaim_ok k s" and "reclaim_contents s = a # as"
  obtains q e where "alf_win k q" and "alf_contents q = as" and "entries s a = Some e"
    and "valet_mempool_reclaim s =
      Inr (if yields e then te_page e else NULL,
           s\<lparr>pool := (pool s)\<lparr>reclaim_list := Some q\<rparr>,
             entries := (entries s)(a \<mapsto> reclaimed_entry e)\<rparr>)"
proof -
  obtain q0 where q0: "reclaim_list (pool s) = Some q0" "alf_win k q0"
    using assms(1) by (auto simp: reclaim_ok_def)
  have "alf_contents q0 = a # as" using assms(2) q0(1) by (simp add: reclaim_contents_def)
  then obtain q where q: "get_index q0 = Inr (Some a, q)" "alf_win k q" "alf_contents q = as"
    using win_get_index [OF q0(2)] by blast
  obtain e where e: "entries s a = Some e"
    using assms by (auto simp: reclaim_ok_def)
  let ?s1 = "s\<lparr>pool := (pool s)\<lparr>reclaim_list := Some q\<rparr>\<rparr>"
  have "get_reclaimable_index s = Inr (Some a, ?s1)"
    using q(1) q0(1) by (simp add: get_reclaimable_index_def)
  then have "valet_mempool_reclaim s =
      Inr (if yields e then te_page e else NULL,
           ?s1\<lparr>entries := (entries s)(a \<mapsto> reclaimed_entry e)\<rparr>)"
    using e update_same_entry [of ?s1 a e]
    by (auto simp: valet_mempool_reclaim_def Let_def yields_def reclaimed_entry_def same_page)
  then show thesis using that q(2,3) e by simp
qed

lemma pages_ok_unmap:
  assumes "pages_ok s" and "entries s a = Some e" and "te_page e' = te_page e \<or> te_page e' = NULL"
  shows "pages_ok (s\<lparr>entries := (entries s)(a \<mapsto> e')\<rparr>)"
proof -
  let ?s = "s\<lparr>entries := (entries s)(a \<mapsto> e')\<rparr>"
  have m: "mapped s p" if "mapped ?s p" for p
    using that assms(2,3) by (force simp: mapped_def split: if_splits)
  have "b = c" if eq: "entries ?s b = Some f" "entries ?s c = Some g" "te_page f = te_page g"
    "te_page f \<noteq> NULL" for b c f g
  proof -
    obtain f' where f': "entries s b = Some f'" "te_page f' = te_page f"
      using eq assms(2,3) by (cases "b = a") auto
    obtain g' where g': "entries s c = Some g'" "te_page g' = te_page g"
      using eq assms(2,3) by (cases "c = a") auto
    show ?thesis using assms(1) f' g' eq(3,4) unfolding pages_ok_def by metis
  qed
  then show ?thesis using assms(1) m unfolding pages_ok_def by (auto simp del: fun_upd_apply)
qed

text \<open>\<open>reclaim_step\<close> collects what one or several calls leave as it was.\<close>

definition reclaim_step :: "ptr list \<Rightarrow> 'a valet_mem_scheme \<Rightarrow> 'a valet_mem_scheme \<Rightarrow> bool" where
  "reclaim_step xs s s' \<longleftrightarrow> reclaim_contents s = xs @ reclaim_contents s' \<and>
     (\<exists>q. s' = s\<lparr>pool := (pool s)\<lparr>reclaim_list := Some q\<rparr>,
       entries := (\<lambda>a. if a \<in> set xs then map_option reclaimed_entry (entries s a) else entries s a)\<rparr>)"

lemma reclaim_first_ok:
  assumes "pool_ok k s" and "reclaim_contents s = a # as"
  obtains s' e where "entries s a = Some e" and "pool_ok k s'" and "reclaim_contents s' = as"
    and "reclaim_step [a] s s'"
    and "valet_mempool_reclaim s = Inr (if yields e then te_page e else NULL, s')"
    and "yields e \<Longrightarrow> held s' (te_page e)"
proof -
  have ok: "pool_shape s" "pages_ok s" "reclaim_ok k s" using assms(1) by (auto simp: pool_ok_def)
  obtain q e where q: "alf_win k q" "alf_contents q = as" "entries s a = Some e"
    "valet_mempool_reclaim s = Inr (if yields e then te_page e else NULL,
       s\<lparr>pool := (pool s)\<lparr>reclaim_list := Some q\<rparr>, entries := (entries s)(a \<mapsto> reclaimed_entry e)\<rparr>)"
    using reclaim_first [OF ok(3) assms(2)] by metis
  let ?s1 = "s\<lparr>pool := (pool s)\<lparr>reclaim_list := Some q\<rparr>\<rparr>"
  let ?s' = "?s1\<lparr>entries := (entries s)(a \<mapsto> reclaimed_entry e)\<rparr>"
  have c: "reclaim_contents ?s' = as" using q(2) by simp
  have "pages_ok ?s1" using ok(2) by simp
  then have pg: "pages_ok ?s'"
    using pages_ok_unmap [of ?s1 a e "reclaimed_entry e"] q(3) by (simp add: reclaimed_entry_def)
  have na: "a \<notin> set as" using ok(3) assms(2) by (simp add: reclaim_ok_def)
  have "reclaim_ok k ?s'"
    using ok(3) assms(2) q(1,3) na c by (auto simp: reclaim_ok_def)
  then have "pool_ok k ?s'" using ok(1) pg by (simp add: pool_ok_def)
  moreover have "entries ?s' = (\<lambda>b. if b \<in> set [a] then map_option reclaimed_entry (entries s b) else entries s b)"
    using q(3) by (auto simp: fun_eq_iff)
  then have "reclaim_step [a] s ?s'"
    unfolding reclaim_step_def c using assms(2) by auto
  moreover have "held ?s' (te_page e)" if y: "yields e"
  proof -
    have nz: "te_page e \<noteq> NULL" and ne: "reclaimed_entry e = (clear_flag RECLAIMABLE e)\<lparr>te_page := NULL\<rparr>"
      using y by (auto simp: yields_def reclaimed_entry_def)
    have "mapped s (te_page e)" using q(3) nz by (auto simp: mapped_def)
    then have "is_page s (te_page e)" "te_page e \<notin> set (free_list s)"
      using ok(2) by (auto simp: pages_ok_def)
    moreover have "\<not> mapped ?s' (te_page e)"
    proof
      assume "mapped ?s' (te_page e)"
      then obtain b f where "b \<noteq> a" "entries s b = Some f" "te_page f = te_page e"
        using nz by (auto simp: mapped_def ne split: if_splits)
      then show False using ok(2) q(3) nz unfolding pages_ok_def by metis
    qed
    ultimately show ?thesis by (simp add: held_def)
  qed
  ultimately show thesis using that q(3,4) c by simp
qed

lemma reclaim_step_trans:
  assumes "reclaim_step xs s s'" and "reclaim_step ys s' s''" and "set xs \<inter> set ys = {}"
  shows "reclaim_step (xs @ ys) s s''"
proof -
  obtain q where q: "s' = s\<lparr>pool := (pool s)\<lparr>reclaim_list := Some q\<rparr>,
      entries := (\<lambda>a. if a \<in> set xs then map_option reclaimed_entry (entries s a) else entries s a)\<rparr>"
    using assms(1) by (auto simp: reclaim_step_def)
  obtain r where r: "s'' = s'\<lparr>pool := (pool s')\<lparr>reclaim_list := Some r\<rparr>,
      entries := (\<lambda>a. if a \<in> set ys then map_option reclaimed_entry (entries s' a) else entries s' a)\<rparr>"
    using assms(2) by (auto simp: reclaim_step_def)
  have "(\<lambda>a. if a \<in> set ys then map_option reclaimed_entry (entries s' a) else entries s' a) =
      (\<lambda>a. if a \<in> set (xs @ ys) then map_option reclaimed_entry (entries s a) else entries s a)"
    using assms(3) by (auto simp: q fun_eq_iff)
  then have "s'' = s\<lparr>pool := (pool s)\<lparr>reclaim_list := Some r\<rparr>,
      entries := (\<lambda>a. if a \<in> set (xs @ ys) then map_option reclaimed_entry (entries s a) else entries s a)\<rparr>"
    unfolding r by (simp add: q)
  moreover have "reclaim_contents s = (xs @ ys) @ reclaim_contents s''"
    using assms(1,2) by (simp add: reclaim_step_def)
  ultimately show ?thesis by (auto simp: reclaim_step_def)
qed

text \<open>
  The loop of the allocator: it returns exactly when an entry on the list yields a page, and
  takes everything up to the first such entry off the list.
\<close>

lemma reclaim_loop_ok:
  assumes "pool_ok k s" and "length (reclaim_contents s) < n"
  shows "if \<exists>a\<in>set (reclaim_contents s). yields (the (entries s a))
    then \<exists>p s' xs. reclaim_loop n s = Inr (p, s') \<and> pool_ok k s' \<and> held s' p \<and> reclaim_step xs s s' \<and>
      length (filter (\<lambda>a. yields (the (entries s a))) xs) = 1
    else reclaim_loop n s = Inl Hang"
  using assms
proof (induction n arbitrary: s)
  case (Suc n)
  show ?case
  proof (cases "reclaim_contents s")
    case Nil
    have "reclaim_loop m s = Inl Hang" for m
      using reclaim_empty [OF _ Nil, of k] Suc.prems(1) by (induction m) (auto simp: pool_ok_def)
    then show ?thesis using Nil by simp
  next
    case (Cons a as)
    obtain s' e where r: "entries s a = Some e" "pool_ok k s'" "reclaim_contents s' = as"
      "reclaim_step [a] s s'"
      "valet_mempool_reclaim s = Inr (if yields e then te_page e else NULL, s')"
      "yields e \<Longrightarrow> held s' (te_page e)" using reclaim_first_ok [OF Suc.prems(1) Cons] by metis
    show ?thesis
    proof (cases "yields e")
      case True
      then have "te_page e \<noteq> NULL" by (simp add: yields_def)
      then have "reclaim_loop (Suc n) s = Inr (te_page e, s')" using r(5) True by simp
      moreover have "length (filter (\<lambda>a. yields (the (entries s a))) [a]) = 1" using r(1) True by simp
      ultimately show ?thesis using True Cons r by (metis list.set_intros(1) option.sel)
    next
      case False
      have d: "distinct (a # as)" using Suc.prems(1) Cons by (auto simp: pool_ok_def reclaim_ok_def)
      have same: "entries s' b = entries s b" if "b \<in> set as" for b
        using r(4) that d by (auto simp: reclaim_step_def)
      have step: "reclaim_loop (Suc n) s = reclaim_loop n s'" using r(5) False by simp
      have ex: "(\<exists>b\<in>set (reclaim_contents s). yields (the (entries s b))) \<longleftrightarrow>
          (\<exists>b\<in>set (reclaim_contents s'). yields (the (entries s' b)))"
        using Cons r(1,3) False same by auto
      have IH: "if \<exists>b\<in>set (reclaim_contents s'). yields (the (entries s' b))
          then \<exists>p s'' xs. reclaim_loop n s' = Inr (p, s'') \<and> pool_ok k s'' \<and> held s'' p \<and> reclaim_step xs s' s'' \<and>
            length (filter (\<lambda>a. yields (the (entries s' a))) xs) = 1
          else reclaim_loop n s' = Inl Hang"
        using Suc.prems(2) Cons r(3) by (intro Suc.IH [OF r(2)]) simp
      have "reclaim_step (a # xs) s s'' \<and>
          length (filter (\<lambda>a. yields (the (entries s a))) (a # xs)) =
          length (filter (\<lambda>a. yields (the (entries s' a))) xs)" if x: "reclaim_step xs s' s''" for xs s''
      proof -
        have sub: "set xs \<subseteq> set as" using x r(3) by (auto simp: reclaim_step_def)
        then have "filter (\<lambda>a. yields (the (entries s a))) xs = filter (\<lambda>a. yields (the (entries s' a))) xs"
          using same by (intro filter_cong) auto
        then show ?thesis using reclaim_step_trans [OF r(4) x] sub d r(1) False by auto
      qed
      then show ?thesis using IH unfolding ex step by (metis (no_types, lifting))
    qed
  qed
qed simp

text \<open>Beyond \<open>reclaim_turns\<close> more turns change nothing: the bound on the loop loses no result.\<close>

lemma reclaim_loop_more:
  assumes "pool_ok k s" and "length (reclaim_contents s) < n" and "n \<le> m"
  shows "reclaim_loop m s = reclaim_loop n s"
proof -
  have mono: "reclaim_loop (Suc j) t = Inr r" if "reclaim_loop j t = Inr r" for j r and t :: "'a valet_mem_scheme"
    using that
  proof (induction j arbitrary: t)
    case (Suc j)
    from Suc.prems obtain p u where u: "valet_mempool_reclaim t = Inr (p, u)"
      "(if p = NULL then reclaim_loop j u else Inr (p, u)) = Inr r" by (auto simp: bind_ok_eq_Inr)
    then have "(if p = NULL then reclaim_loop (Suc j) u else Inr (p, u)) = Inr r"
      using Suc.IH [of u] by (cases "p = NULL") (simp_all del: reclaim_loop.simps)
    then show ?case unfolding reclaim_loop.simps(2) [of "Suc j"] u(1) by simp
  qed simp
  have up: "reclaim_loop (n + d) s = Inr r" if "reclaim_loop n s = Inr r" for d r
  proof (induction d)
    case (Suc d)
    then show ?case using mono by (metis add_Suc_right)
  qed (use that in simp)
  show ?thesis
    using reclaim_loop_ok [OF assms(1,2)] reclaim_loop_ok [OF assms(1), of m] assms(2,3) up [of _ "m - n"]
    by (auto split: if_splits)
qed

definition alloc_frame :: "'a valet_mem_scheme \<Rightarrow> 'a valet_mem_scheme \<Rightarrow> bool" where
  "alloc_frame s s' \<longleftrightarrow> (\<exists>xs P. reclaim_contents s = xs @ reclaim_contents s' \<and>
     sending_list P = sending_list (pool s) \<and> init_done P = init_done (pool s) \<and>
     s' = s\<lparr>pool := P,
       entries := (\<lambda>a. if a \<in> set xs then map_option reclaimed_entry (entries s a) else entries s a)\<rparr>)"

lemma alloc_frameI:
  assumes "reclaim_contents s = xs @ reclaim_contents s'" and "sending_list P = sending_list (pool s)"
    and "init_done P = init_done (pool s)" and "s' = s\<lparr>pool := P,
       entries := (\<lambda>a. if a \<in> set xs then map_option reclaimed_entry (entries s a) else entries s a)\<rparr>"
  shows "alloc_frame s s'"
  unfolding alloc_frame_def using assms by (intro exI conjI)

lemma reclaim_step_frame:
  assumes "reclaim_step xs s s'"
  shows "alloc_frame s s'"
proof -
  obtain q where "s' = s\<lparr>pool := (pool s)\<lparr>reclaim_list := Some q\<rparr>,
       entries := (\<lambda>a. if a \<in> set xs then map_option reclaimed_entry (entries s a) else entries s a)\<rparr>"
    using assms by (auto simp: reclaim_step_def)
  moreover have "reclaim_contents s = xs @ reclaim_contents s'"
    using assms by (simp add: reclaim_step_def)
  ultimately show ?thesis by (intro alloc_frameI) simp_all
qed

text \<open>The pages an allocation can still find: the free ones and those of yielding entries.\<close>

definition avail :: "'a valet_mem_scheme \<Rightarrow> nat" where
  "avail s = length (free_list s) +
     length (filter (\<lambda>a. yields (the (entries s a))) (reclaim_contents s))"

definition can_alloc :: "'a valet_mem_scheme \<Rightarrow> bool" where
  "can_alloc s \<longleftrightarrow> free_list s \<noteq> [] \<or> (\<exists>a\<in>set (reclaim_contents s). yields (the (entries s a)))"

lemma can_alloc_avail: "can_alloc s \<longleftrightarrow> avail s > 0"
  by (auto simp: can_alloc_def avail_def filter_empty_conv)

lemma reclaim_step_avail:
  assumes "pool_ok k s" and "reclaim_step xs s s'"
    and "length (filter (\<lambda>a. yields (the (entries s a))) xs) = 1"
  shows "Suc (avail s') = avail s"
proof -
  have "distinct (xs @ reclaim_contents s')" and c: "reclaim_contents s = xs @ reclaim_contents s'"
    using assms(1,2) by (auto simp: pool_ok_def reclaim_ok_def reclaim_step_def)
  then have "entries s' a = entries s a" if "a \<in> set (reclaim_contents s')" for a
    using assms(2) that by (auto simp: reclaim_step_def)
  then have "filter (\<lambda>a. yields (the (entries s' a))) (reclaim_contents s') =
      filter (\<lambda>a. yields (the (entries s a))) (reclaim_contents s')"
    by (intro filter_cong) simp_all
  moreover have "free_list s' = free_list s" using assms(2) by (auto simp: reclaim_step_def)
  ultimately show ?thesis using assms(3) c by (simp add: avail_def)
qed

lemma alloc_ok:
  assumes "pool_ok k s" and "can_alloc s"
  shows "\<exists>p s'. valet_alloc s = Inr (p, s') \<and> pool_ok k s' \<and> held s' p \<and> alloc_frame s s' \<and> Suc (avail s') = avail s"
    and "free_list s \<noteq> [] \<Longrightarrow> \<exists>s'. valet_alloc s = Inr (last (free_list s), s') \<and>
      free_list s' = butlast (free_list s) \<and> entries s' = entries s"
proof -
  have ok: "pool_shape s" "reclaim_ok k s" using assms by (auto simp: pool_ok_def)
  have taken: "\<exists>s'. valet_alloc s = Inr (last (free_list s), s') \<and> pool_ok k s' \<and>
      held s' (last (free_list s)) \<and> alloc_frame s s' \<and> Suc (avail s') = avail s \<and> free_list s' = butlast (free_list s) \<and>
      entries s' = entries s" if "free_list s \<noteq> []"
  proof -
    have c: "curr_nr (pool s) > 0" using that ok(1) by (auto simp: free_list_def pool_shape_def)
    obtain s' where s': "valet_remove_element s = Inr (last (free_list s), s')"
      "s' = s\<lparr>pool := (pool s)\<lparr>curr_nr := curr_nr (pool s) - 1, used_nr := used_nr (pool s) + 1\<rparr>\<rparr>"
      "free_list s' = butlast (free_list s)" "core_ok s'" "held s' (last (free_list s))"
      using remove_element_held [OF _ c] assms(1) by (auto simp: pool_ok_core)
    have "pool_ok k s'" using s'(4) ok(2) by (simp add: pool_ok_core s'(2) reclaim_ok_pool)
    moreover have "last (free_list s) \<noteq> NULL" using s'(5) by (simp add: held_def is_page_def)
    then have "valet_alloc s = Inr (last (free_list s), s')"
      using s'(1) by (simp add: valet_alloc_def valet_mempool_alloc_def)
    moreover have "alloc_frame s s'"
      by (rule alloc_frameI [of _ "[]" _ "pool s'"]) (simp_all add: s'(2) reclaim_contents_def)
    moreover have "entries s' = entries s" by (simp add: s'(2))
    moreover have "Suc (avail s') = avail s"
      using that s'(3) \<open>entries s' = entries s\<close> by (simp add: avail_def s'(2) reclaim_contents_def)
    ultimately show ?thesis using s'(3,5) by blast
  qed
  then show "free_list s \<noteq> [] \<Longrightarrow> \<exists>s'. valet_alloc s = Inr (last (free_list s), s') \<and>
      free_list s' = butlast (free_list s) \<and> entries s' = entries s" by blast
  show "\<exists>p s'. valet_alloc s = Inr (p, s') \<and> pool_ok k s' \<and> held s' p \<and> alloc_frame s s' \<and>
      Suc (avail s') = avail s"
  proof (cases "free_list s = []")
    case True
    then have "\<not> curr_nr (pool s) > 0" using ok(1) by (auto simp: free_list_def pool_shape_def)
    then have "valet_alloc s = reclaim_loop (reclaim_turns s) s"
      by (simp add: valet_alloc_def valet_mempool_alloc_def remove_element_empty)
    moreover have "length (reclaim_contents s) < reclaim_turns s"
      using ok(2) by (auto simp: reclaim_ok_def reclaim_turns_def reclaim_contents_def)
    ultimately show ?thesis
      using reclaim_loop_ok [OF assms(1), of "reclaim_turns s"] assms(2) True reclaim_step_frame
        reclaim_step_avail [OF assms(1)]
      unfolding can_alloc_def by (metis (no_types, lifting))
  qed (use taken in blast)
qed

lemma alloc_hang:
  assumes "pool_ok k s" and "\<not> can_alloc s"
  shows "valet_alloc s = Inl Hang"
proof -
  have "pool_shape s" "reclaim_ok k s" using assms by (auto simp: pool_ok_def)
  then have "\<not> curr_nr (pool s) > 0" "length (reclaim_contents s) < reclaim_turns s"
    using assms(2)
    by (auto simp: can_alloc_def free_list_def pool_shape_def reclaim_ok_def reclaim_turns_def reclaim_contents_def)
  then show ?thesis
    using reclaim_loop_ok [OF assms(1), of "reclaim_turns s"] assms(2)
    by (simp add: valet_alloc_def valet_mempool_alloc_def remove_element_empty can_alloc_def)
qed

end
