(* ===== verification/Pool_Resize.thy ===== *)
theory Pool_Resize
  imports Pool_Invariant
begin

text \<open>
  Creating, growing, shrinking and emptying the page pool, and the step of its resizing thread.
  The page allocator is an argument: \<open>grants_ok\<close> states what the kernel guarantees of it,
  that a page it hands out is in nobody's hands and is handed out once.
\<close>

definition grants_ok :: "(nat \<Rightarrow> ptr \<times> page) \<Rightarrow> nat set \<Rightarrow> 'a valet_mem_scheme \<Rightarrow> bool" where
  "grants_ok alloc I s \<longleftrightarrow>
     (\<forall>i\<in>I. fst (alloc i) \<noteq> NULL \<longrightarrow> pages s (fst (alloc i)) = None \<and> length (snd (alloc i)) = VALET_PAGE_SIZE) \<and>
     (\<forall>i\<in>I. \<forall>j\<in>I. fst (alloc i) \<noteq> NULL \<longrightarrow> fst (alloc i) = fst (alloc j) \<longrightarrow> i = j)"

definition all_granted :: "(nat \<Rightarrow> ptr \<times> page) \<Rightarrow> nat set \<Rightarrow> bool" where
  "all_granted alloc I \<longleftrightarrow> (\<forall>i\<in>I. fst (alloc i) \<noteq> NULL)"

subsection \<open>One page more\<close>

text \<open>The state after a granted page has been written behind the last free one.\<close>

definition grown :: "ptr \<Rightarrow> page \<Rightarrow> 'a valet_mem_scheme \<Rightarrow> 'a valet_mem_scheme" where
  "grown p b s = s\<lparr>pages := (pages s)(p \<mapsto> b),
     pool := (pool s)\<lparr>elements := (elements (pool s))[nat (curr_nr (pool s)) := p],
                      curr_nr := curr_nr (pool s) + 1\<rparr>\<rparr>"

lemma grown_fields [simp]:
  "entries (grown p b s) = entries s" "items (grown p b s) = items s"
  "cap_nr (pool (grown p b s)) = cap_nr (pool s)" "curr_nr (pool (grown p b s)) = curr_nr (pool s) + 1"
  "used_nr (pool (grown p b s)) = used_nr (pool s)"
  "reclaim_list (pool (grown p b s)) = reclaim_list (pool s)"
  "sending_list (pool (grown p b s)) = sending_list (pool s)"
  "pages (grown p b s) = (pages s)(p \<mapsto> b)"
  by (simp_all add: grown_def)

lemma grown_ok:
  assumes "pool_shape s" and "curr_nr (pool s) < cap_nr (pool s)" and "pages_ok s"
    and "p \<noteq> NULL" and "pages s p = None" and "length b = VALET_PAGE_SIZE"
  shows "pool_shape (grown p b s)" and "pages_ok (grown p b s)"
    and "free_list (grown p b s) = free_list s @ [p]"
    and "iarr_set (elements (pool s)) (curr_nr (pool s)) p = Inr ((elements (pool s))[nat (curr_nr (pool s)) := p])"
proof -
  have c: "0 \<le> curr_nr (pool s)" "nat (curr_nr (pool s)) < length (elements (pool s))"
    using assms(1,2) by (auto simp: pool_shape_def)
  show "iarr_set (elements (pool s)) (curr_nr (pool s)) p = Inr ((elements (pool s))[nat (curr_nr (pool s)) := p])"
    using c by (simp add: iarr_set_def)
  show "pool_shape (grown p b s)" using assms(1,2) by (simp add: pool_shape_def grown_def)
  show f: "free_list (grown p b s) = free_list s @ [p]"
    using c by (simp add: free_list_def grown_def nat_add_distrib take_Suc_conv_app_nth)
  have np: "\<not> is_page s p" using assms(5) by (simp add: is_page_def)
  have pg: "is_page (grown p b s) x = (x = p \<or> is_page s x)" for x
    using assms(4-6) by (auto simp: is_page_def)
  have "mapped (grown p b s) x = mapped s x" for x by (simp add: mapped_def)
  then show "pages_ok (grown p b s)"
    using assms(3) np unfolding pages_ok_def f pg by auto
qed

lemma grants_ok_grown:
  assumes "grants_ok alloc {i..<i + Suc k} s" and "fst (alloc i) \<noteq> NULL"
  shows "grants_ok alloc {Suc i..<Suc i + k} (grown (fst (alloc i)) (snd (alloc i)) s)"
proof -
  have "fst (alloc j) \<noteq> fst (alloc i)" if "j \<in> {Suc i..<Suc i + k}" for j
    using assms that unfolding grants_ok_def by (metis atLeastLessThan_iff add_Suc_right add_Suc le_refl
        Suc_le_lessD less_imp_le less_irrefl less_add_Suc1)
  then show ?thesis using assms(1) unfolding grants_ok_def by auto
qed

lemma grants_okD:
  "grants_ok alloc I s \<Longrightarrow> i \<in> I \<Longrightarrow> alloc i = (p, b) \<Longrightarrow> p \<noteq> NULL \<Longrightarrow>
   pages s p = None \<and> length b = VALET_PAGE_SIZE"
  unfolding grants_ok_def by force

lemma grants_ok_skip:
  "grants_ok alloc {i..<i + Suc k} s \<Longrightarrow> grants_ok alloc {Suc i..<Suc i + k} s"
  unfolding grants_ok_def by auto

text \<open>What the two filling loops keep: everything but the free list and the new pages.\<close>

definition same_but_free :: "'a valet_mem_scheme \<Rightarrow> 'a valet_mem_scheme \<Rightarrow> bool" where
  "same_but_free s s' \<longleftrightarrow> (\<exists>es n G. s' = s\<lparr>pages := G, pool := (pool s)\<lparr>elements := es, curr_nr := n\<rparr>\<rparr>)"

lemma same_but_free_refl: "same_but_free s s"
proof -
  have "s = s\<lparr>pages := pages s, pool := (pool s)\<lparr>elements := elements (pool s), curr_nr := curr_nr (pool s)\<rparr>\<rparr>"
    by simp
  then show ?thesis unfolding same_but_free_def by blast
qed

lemma same_but_free_grown:
  assumes "same_but_free (grown p b s) s'"
  shows "same_but_free s s'"
proof -
  from assms obtain es n G where "s' = (grown p b s)\<lparr>pages := G,
      pool := (pool (grown p b s))\<lparr>elements := es, curr_nr := n\<rparr>\<rparr>" unfolding same_but_free_def by blast
  then have "s' = s\<lparr>pages := G, pool := (pool s)\<lparr>elements := es, curr_nr := n\<rparr>\<rparr>"
    by (simp add: grown_def)
  then show ?thesis unfolding same_but_free_def by blast
qed

lemma same_but_freeD:
  assumes "same_but_free s s'"
  shows "entries s' = entries s" "items s' = items s" "cap_nr (pool s') = cap_nr (pool s)"
    "reclaim_list (pool s') = reclaim_list (pool s)" "sending_list (pool s') = sending_list (pool s)"
    "used_nr (pool s') = used_nr (pool s)" "min_pool_pages (pool s') = min_pool_pages (pool s)"
    "max_pool_pages (pool s') = max_pool_pages (pool s)" "threshold (pool s') = threshold (pool s)"
    "init_done (pool s') = init_done (pool s)" "reclaim_ok k s' = reclaim_ok k s"
  using assms by (auto simp: same_but_free_def reclaim_ok_pool)

lemma expand_loop_ok:
  assumes "pool_shape s" and "pages_ok s" and "grants_ok alloc {i..<i + n} s"
    and "curr_nr (pool s) + int n \<le> cap_nr (pool s)"
  shows "\<exists>s'. expand_loop n alloc i s = Inr s' \<and> pool_shape s' \<and> pages_ok s' \<and>
    free_list s' = free_list s @ filter (\<lambda>p. p \<noteq> NULL) (map (fst \<circ> alloc) [i..<i + n]) \<and> same_but_free s s'"
  using assms
proof (induction n arbitrary: i s)
  case 0
  then show ?case by (simp add: same_but_free_refl)
next
  case (Suc n)
  obtain p b where a: "alloc i = (p, b)" by fastforce
  have up: "[i..<i + Suc n] = i # [Suc i..<Suc i + n]" by (simp add: upt_conv_Cons)
  show ?case
  proof (cases "p = NULL")
    case True
    then show ?thesis
      using Suc.IH [of s "Suc i"] Suc.prems grants_ok_skip [OF Suc.prems(3)] a unfolding up by auto
  next
    case False
    have fresh: "pages s p = None" "length b = VALET_PAGE_SIZE"
      using grants_okD [OF Suc.prems(3) _ a False] by simp_all
    have room: "curr_nr (pool s) < cap_nr (pool s)" using Suc.prems(4) by simp
    note g = grown_ok [OF Suc.prems(1) room Suc.prems(2) False fresh]
    have gr: "grants_ok alloc {Suc i..<Suc i + n} (grown p b s)"
      using grants_ok_grown [OF Suc.prems(3)] False a by simp
    have "expand_loop (Suc n) alloc i s = expand_loop n alloc (Suc i) (grown p b s)"
      using a False g(4) by (simp add: grown_def Let_def)
    then show ?thesis
      using Suc.IH [OF g(1,2) gr] Suc.prems(4) same_but_free_grown g(3) a False unfolding up
      by auto
  qed
qed

lemma create_loop_ok:
  assumes "pool_shape s" and "pages_ok s" and "grants_ok alloc {i..<i + n} s"
    and "all_granted alloc {i..<i + n}" and "curr_nr (pool s) + int n \<le> cap_nr (pool s)"
  shows "\<exists>s'. create_loop n alloc i s = Inr (0, s') \<and> pool_shape s' \<and> pages_ok s' \<and>
    free_list s' = free_list s @ map (fst \<circ> alloc) [i..<i + n] \<and> same_but_free s s'"
  using assms
proof (induction n arbitrary: i s)
  case 0
  then show ?case by (simp add: same_but_free_refl)
next
  case (Suc n)
  obtain p b where a: "alloc i = (p, b)" by fastforce
  have up: "[i..<i + Suc n] = i # [Suc i..<Suc i + n]" by (simp add: upt_conv_Cons)
  have p: "p \<noteq> NULL" using Suc.prems(4) a by (force simp: all_granted_def)
  have fresh: "pages s p = None" "length b = VALET_PAGE_SIZE"
    using grants_okD [OF Suc.prems(3) _ a p] by simp_all
  have room: "curr_nr (pool s) < cap_nr (pool s)" using Suc.prems(5) by simp
  note g = grown_ok [OF Suc.prems(1) room Suc.prems(2) p fresh]
  have gr: "grants_ok alloc {Suc i..<Suc i + n} (grown p b s)"
    using grants_ok_grown [OF Suc.prems(3)] p a by simp
  have "create_loop (Suc n) alloc i s = create_loop n alloc (Suc i) (grown p b s)"
    using a p g(4) by (simp add: grown_def Let_def)
  moreover have "all_granted alloc {Suc i..<Suc i + n}" using Suc.prems(4) by (auto simp: all_granted_def)
  ultimately show ?case
    using Suc.IH [OF g(1,2) gr] Suc.prems(5) same_but_free_grown g(3) a unfolding up by auto
qed

subsection \<open>Emptying and shrinking\<close>

text \<open>One page less: taken from the free list and given back to the kernel.\<close>

lemma drop_element_ok:
  assumes "core_ok s" and "curr_nr (pool s) > 0"
  shows "\<exists>s'. bind_ok (valet_remove_element s) (\<lambda>(element, s). bind_ok (free_page element s) f) = f s' \<and>
    core_ok s' \<and> free_list s' = butlast (free_list s) \<and>
    s' = s\<lparr>pages := (pages s)(last (free_list s) := None),
           pool := (pool s)\<lparr>curr_nr := curr_nr (pool s) - 1, used_nr := used_nr (pool s) + 1\<rparr>\<rparr>"
proof -
  let ?p = "last (free_list s)"
  obtain s1 where s1: "valet_remove_element s = Inr (?p, s1)"
    "s1 = s\<lparr>pool := (pool s)\<lparr>curr_nr := curr_nr (pool s) - 1, used_nr := used_nr (pool s) + 1\<rparr>\<rparr>"
    "free_list s1 = butlast (free_list s)" "core_ok s1" "held s1 ?p"
    using remove_element_held [OF assms] by blast
  let ?s' = "s1\<lparr>pages := (pages s1)(?p := None)\<rparr>"
  obtain b where "pages s1 ?p = Some b" using s1(5) by (auto simp: held_def is_page_def)
  then have "bind_ok (valet_remove_element s) (\<lambda>(element, s). bind_ok (free_page element s) f) = f ?s'"
    using s1(1) by (simp add: free_page_def)
  moreover have "x \<noteq> ?p" if "x \<in> set (free_list s1) \<or> mapped s1 x" for x
    using that s1(5) by (auto simp: held_def)
  then have "pages_ok ?s'"
    using s1(4) unfolding core_ok_def pages_ok_def by (auto simp: is_page_def)
  then have "core_ok ?s'" using s1(4) by (simp add: core_ok_def)
  moreover have "?s' = s\<lparr>pages := (pages s)(?p := None),
      pool := (pool s)\<lparr>curr_nr := curr_nr (pool s) - 1, used_nr := used_nr (pool s) + 1\<rparr>\<rparr>"
    by (simp add: s1(2))
  moreover have "free_list ?s' = butlast (free_list s)" using s1(3) by simp
  ultimately show ?thesis by blast
qed

text \<open>What shrinking and emptying keep, and what they free.\<close>

definition shrunk_to :: "nat \<Rightarrow> 'a valet_mem_scheme \<Rightarrow> 'a valet_mem_scheme \<Rightarrow> bool" where
  "shrunk_to n s s' \<longleftrightarrow> free_list s' = take n (free_list s) \<and>
     (\<exists>u. s' = s\<lparr>pages := pages s |` (- set (drop n (free_list s))),
                 pool := (pool s)\<lparr>curr_nr := int (length (free_list s')), used_nr := u\<rparr>\<rparr>)"

lemma shrunk_to_refl:
  assumes "pool_shape s" and "length (free_list s) \<le> n"
  shows "shrunk_to n s s"
proof -
  have "s = s\<lparr>pages := pages s |` (- set (drop n (free_list s))),
      pool := (pool s)\<lparr>curr_nr := int (length (free_list s)), used_nr := used_nr (pool s)\<rparr>\<rparr>"
    using assms length_free_list [OF assms(1)] by (simp add: pool_shape_def restrict_map_def)
  then show ?thesis using assms(2) unfolding shrunk_to_def by (metis take_all)
qed

lemma shrunk_to_drop:
  assumes "shrunk_to n s1 s'" and "free_list s1 = butlast (free_list s)" and "n < length (free_list s)"
    and "s1 = s\<lparr>pages := (pages s)(last (free_list s) := None),
           pool := (pool s)\<lparr>curr_nr := c, used_nr := w\<rparr>\<rparr>"
  shows "shrunk_to n s s'"
proof -
  let ?f = "free_list s"
  have ne: "?f \<noteq> []" using assms(3) by auto
  then have f: "?f = butlast ?f @ [last ?f]" by simp
  have n: "n \<le> length (butlast ?f)" using assms(3) by simp
  have t: "take n (butlast ?f) = take n ?f" using n by (subst (2) f) simp
  have d: "set (drop n ?f) = insert (last ?f) (set (drop n (butlast ?f)))"
    using n by (subst f) (simp del: append_butlast_last_id)
  obtain u where u: "s' = s1\<lparr>pages := pages s1 |` (- set (drop n (butlast ?f))),
      pool := (pool s1)\<lparr>curr_nr := int (length (free_list s')), used_nr := u\<rparr>\<rparr>"
    and fl: "free_list s' = take n ?f"
    using assms(1) unfolding shrunk_to_def assms(2) t by auto
  have "pages s1 |` (- set (drop n (butlast ?f))) = pages s |` (- set (drop n ?f))"
    unfolding d by (auto simp: assms(4) restrict_map_def fun_eq_iff)
  then have "s' = s\<lparr>pages := pages s |` (- set (drop n ?f)),
      pool := (pool s)\<lparr>curr_nr := int (length (free_list s')), used_nr := u\<rparr>\<rparr>"
    by (subst u) (simp add: assms(4))
  then show ?thesis using fl unfolding shrunk_to_def by blast
qed

lemma shrink_loop_ok:
  assumes "core_ok s" and "nat (curr_nr (pool s)) \<le> n" and "0 \<le> c"
  shows "\<exists>s'. shrink_loop n c s = Inr s' \<and> core_ok s' \<and> shrunk_to (nat c) s s'"
  using assms(1,2)
proof (induction n arbitrary: s)
  case 0
  then have "curr_nr (pool s) = 0" "pool_shape s" by (auto simp: core_ok_def pool_shape_def)
  then show ?case
    using 0 assms(3) shrunk_to_refl [of s "nat c"] by (simp add: length_free_list)
next
  case (Suc n)
  have shape: "pool_shape s" using Suc.prems(1) by (simp add: core_ok_def)
  show ?case
  proof (cases "c < curr_nr (pool s)")
    case True
    let ?f = "free_list s"
    obtain s1 where s1: "bind_ok (valet_remove_element s) (\<lambda>(element, s).
        bind_ok (free_page element s) (shrink_loop n c)) = shrink_loop n c s1" "core_ok s1"
      "free_list s1 = butlast ?f"
      "s1 = s\<lparr>pages := (pages s)(last ?f := None),
         pool := (pool s)\<lparr>curr_nr := curr_nr (pool s) - 1, used_nr := used_nr (pool s) + 1\<rparr>\<rparr>"
      using drop_element_ok [OF Suc.prems(1), of "shrink_loop n c"] True assms(3) by auto
    have len: "length ?f = nat (curr_nr (pool s))" by (rule length_free_list [OF shape])
    have "nat c < length ?f" using True assms(3) len by simp
    moreover have "nat (curr_nr (pool s1)) \<le> n" using Suc.prems(2) True assms(3) by (simp add: s1(4))
    then obtain s' where "shrink_loop n c s1 = Inr s'" "core_ok s'" "shrunk_to (nat c) s1 s'"
      using Suc.IH [OF s1(2)] by blast
    ultimately show ?thesis using shrunk_to_drop [OF _ s1(3) _ s1(4)] s1(1) True by auto
  next
    case False
    then show ?thesis using Suc.prems shrunk_to_refl [OF shape, of "nat c"] length_free_list [OF shape] by auto
  qed
qed

lemma free_pool_loop_ok:
  assumes "core_ok s" and "nat (curr_nr (pool s)) < n"
  shows "\<exists>s'. free_pool_loop n s = Inr s' \<and> core_ok s' \<and> shrunk_to 0 s s'"
  using assms
proof (induction n arbitrary: s)
  case (Suc n)
  have shape: "pool_shape s" using Suc.prems(1) by (simp add: core_ok_def)
  let ?f = "free_list s"
  show ?case
  proof (cases "curr_nr (pool s) = 0")
    case True
    then show ?thesis using Suc.prems shrunk_to_refl [OF shape] length_free_list [OF shape] by auto
  next
    case False
    then have pos: "curr_nr (pool s) > 0" using shape by (simp add: pool_shape_def)
    obtain s1 where s1: "bind_ok (valet_remove_element s) (\<lambda>(element, s).
        bind_ok (free_page element s) (free_pool_loop n)) = free_pool_loop n s1" "core_ok s1"
      "free_list s1 = butlast ?f"
      "s1 = s\<lparr>pages := (pages s)(last ?f := None),
         pool := (pool s)\<lparr>curr_nr := curr_nr (pool s) - 1, used_nr := used_nr (pool s) + 1\<rparr>\<rparr>"
      using drop_element_ok [OF Suc.prems(1) pos, of "free_pool_loop n"] by auto
    have "0 < length ?f" using pos length_free_list [OF shape] by simp
    moreover have "nat (curr_nr (pool s1)) < n" using Suc.prems(2) pos by (simp add: s1(4))
    then obtain s' where "free_pool_loop n s1 = Inr s'" "core_ok s'" "shrunk_to 0 s1 s'"
      using Suc.IH [OF s1(2)] by blast
    ultimately show ?thesis using shrunk_to_drop [OF _ s1(3) _ s1(4)] s1(1) False by auto
  qed
qed simp

end
