(* ===== verification/Pool_Properties.thy ===== *)
theory Pool_Properties
  imports Pool_Resize
begin

text \<open>
  The page pool as its clients see it: who owns a page after an allocation or a release, when an
  allocation returns, what initialisation establishes, what a failing creation leaves
  behind, and that the resizing thread keeps the invariant.
\<close>

subsection \<open>Lemmas on whole operations\<close>

lemma shrink_ok:
  assumes "pool_ok k s" and "0 < c" and "c < cap_nr (pool s)"
  shows "\<exists>s1 s'. valet_mempool_shrink c s = Inr (Some 0, s') \<and> pool_ok k s' \<and> shrunk_to (nat c) s s1 \<and>
    s' = s1\<lparr>pool := (pool s1)\<lparr>cap_nr := c, threshold := c\<rparr>\<rparr>"
proof -
  have core: "core_ok s" "reclaim_ok k s" using assms(1) by (auto simp: pool_ok_core)
  obtain s1 where s1: "shrink_loop (nat (curr_nr (pool s))) c s = Inr s1" "core_ok s1"
    "shrunk_to (nat c) s s1" using shrink_loop_ok [OF core(1), of _ c] assms(2) by force
  let ?s' = "s1\<lparr>pool := (pool s1)\<lparr>cap_nr := c, threshold := c\<rparr>\<rparr>"
  obtain u where u: "s1 = s\<lparr>pages := pages s |` (- set (drop (nat c) (free_list s))),
      pool := (pool s)\<lparr>curr_nr := int (length (free_list s1)), used_nr := u\<rparr>\<rparr>"
    using s1(3) by (auto simp: shrunk_to_def)
  have "free_list s1 = take (nat c) (free_list s)" using s1(3) by (simp add: shrunk_to_def)
  then have "int (length (free_list s1)) \<le> c" using assms(2) by simp
  moreover have "curr_nr (pool s1) = int (length (free_list s1))" by (subst u) simp
  moreover have "elements (pool s1) = elements (pool s)" by (subst u) simp
  ultimately have "pool_shape ?s'"
    using core(1) assms(3) by (simp add: core_ok_def pool_shape_def)
  moreover have "pages_ok ?s'" using s1(2) by (simp add: core_ok_def pages_ok_def free_list_def)
  moreover have "reclaim_list (pool s1) = reclaim_list (pool s)" by (subst u) simp
  then have "reclaim_ok k ?s'"
    using core(2) by (subst u) (simp add: reclaim_ok_def reclaim_contents_def)
  ultimately have "pool_ok k ?s'" by (simp add: pool_ok_def)
  then show ?thesis using s1 assms(2,3) by (auto simp: valet_mempool_shrink_def)
qed

definition resize_limits :: "'a valet_mem_scheme \<Rightarrow> int \<times> int \<times> int" where
  "resize_limits s = (cap_nr (pool s), min_pool_pages (pool s), max_pool_pages (pool s))"

lemma reclaim_unit_ok:
  assumes "pool_ok k s"
  shows "\<exists>s'. reclaim_unit n s = Inr s' \<and> pool_ok k s' \<and> resize_limits s' = resize_limits s"
  using assms
proof (induction n arbitrary: s)
  case (Suc n)
  show ?case
  proof (cases "reclaim_contents s")
    case Nil
    then have "valet_mempool_reclaim s = Inr (NULL, s)"
      using reclaim_empty [of k s] Suc.prems by (simp add: pool_ok_def)
    then show ?thesis using Suc.IH [OF Suc.prems] by simp
  next
    case (Cons a as)
    obtain s1 e where r: "pool_ok k s1" "reclaim_step [a] s s1"
      "valet_mempool_reclaim s = Inr (if yields e then te_page e else NULL, s1)"
      "yields e \<Longrightarrow> held s1 (te_page e)" using reclaim_first_ok [OF Suc.prems Cons] by metis
    have l1: "resize_limits s1 = resize_limits s" using r(2) by (auto simp: reclaim_step_def resize_limits_def)
    obtain s2 where s2: "(if yields e then valet_free (te_page e) s1 else Inr s1) = Inr s2"
      "pool_ok k s2" "resize_limits s2 = resize_limits s1"
    proof (cases "yields e")
      case True
      then obtain s2 where "valet_free (te_page e) s1 = Inr s2" "pool_ok k s2" "same_but_counts s1 s2"
        using free_held [OF r(1) r(4)] by blast
      moreover from this(3) have "resize_limits s2 = resize_limits s1"
        by (auto simp: same_but_counts_def resize_limits_def)
      ultimately show thesis using that True by simp
    qed (use that r(1) in simp)
    have "te_page e \<noteq> NULL" if "yields e" using that by (simp add: yields_def)
    then have "reclaim_unit (Suc n) s = reclaim_unit n s2" using r(3) s2(1) by (auto split: if_splits)
    then show ?thesis using Suc.IH [OF s2(2)] s2(3) l1 by auto
  qed
qed simp

definition vmalloc_fits :: "(nat \<Rightarrow> ptr list option) \<Rightarrow> bool" where
  "vmalloc_fits vmalloc \<longleftrightarrow> (\<forall>n es. vmalloc n = Some es \<longrightarrow> length es = n)"

lemma expand_ok:
  assumes "pool_ok k s" and "grants_ok alloc {0..<RESIZING_UNIT_IN_PAGES} s" and "vmalloc_fits vmalloc"
    and "curr_nr (pool s) + int RESIZING_UNIT_IN_PAGES \<le> c"
  shows "if vmalloc (nat c) = None then valet_mempool_expand vmalloc alloc c s = Inr (1, s)
    else \<exists>s'. valet_mempool_expand vmalloc alloc c s = Inr (0, s') \<and> pool_ok k s' \<and> cap_nr (pool s') = c \<and>
      free_list s' = free_list s @
        filter (\<lambda>p. p \<noteq> NULL) (map (fst \<circ> alloc) [0..<RESIZING_UNIT_IN_PAGES]) \<and>
      min_pool_pages (pool s') = min_pool_pages (pool s) \<and> max_pool_pages (pool s') = max_pool_pages (pool s)"
proof -
  have core: "pool_shape s" "pages_ok s" "reclaim_ok k s" using assms(1) by (auto simp: pool_ok_def)
  have c: "0 < c" using assms(4) core(1) by (simp add: pool_shape_def)
  show ?thesis
  proof (cases "vmalloc (nat c)")
    case None
    then show ?thesis using c by (simp add: valet_mempool_expand_def)
  next
    case (Some es)
    have len: "length es = nat c" using assms(3) Some by (simp add: vmalloc_fits_def)
    let ?n = "nat (curr_nr (pool s))"
    let ?es = "take ?n (elements (pool s)) @ drop ?n es"
    let ?s1 = "s\<lparr>pool := (pool s)\<lparr>elements := ?es, cap_nr := c, threshold := c - c div 4\<rparr>\<rparr>"
    have n: "?n \<le> length es" "?n \<le> length (elements (pool s))"
      using core(1) assms(4) len by (auto simp: pool_shape_def)
    have f: "free_list ?s1 = free_list s" using n by (simp add: free_list_def)
    have shape: "pool_shape ?s1" using core(1) n len assms(4) c by (auto simp: pool_shape_def)
    have pg: "pages_ok ?s1" using core(2) f by (simp add: pages_ok_def)
    have gr: "grants_ok alloc {0..<0 + RESIZING_UNIT_IN_PAGES} ?s1"
      using assms(2) by (simp add: grants_ok_def)
    have room: "curr_nr (pool ?s1) + int RESIZING_UNIT_IN_PAGES \<le> cap_nr (pool ?s1)" using assms(4) by simp
    obtain s' where s': "expand_loop RESIZING_UNIT_IN_PAGES alloc 0 ?s1 = Inr s'" "pool_shape s'" "pages_ok s'"
      "free_list s' = free_list s @ filter (\<lambda>p. p \<noteq> NULL) (map (fst \<circ> alloc) [0..<RESIZING_UNIT_IN_PAGES])"
      "same_but_free ?s1 s'"
      using expand_loop_ok [OF shape pg gr room] unfolding f add_0 by blast
    note d = same_but_freeD [OF s'(5)]
    have "reclaim_ok k s'" using d(11) [of k] core(3) by (simp add: reclaim_ok_pool)
    moreover have "valet_mempool_expand vmalloc alloc c s = Inr (0, s')"
      using c Some n s'(1) by (simp add: valet_mempool_expand_def memcpy_def)
    ultimately show ?thesis using s' d Some by (simp add: pool_ok_def)
  qed
qed

text \<open>The state in which \<open>valet_mempool_create\<close> starts to fill the pool.\<close>

definition unfilled :: "ptr list \<Rightarrow> int \<Rightarrow> 'a valet_mem_scheme \<Rightarrow> 'a valet_mem_scheme" where
  "unfilled es cap s = s\<lparr>pool := (pool s)\<lparr>elements := es, cap_nr := cap, threshold := cap - cap div 4,
     curr_nr := 0, used_nr := 0\<rparr>\<rparr>"

definition nothing_mapped :: "'a valet_mem_scheme \<Rightarrow> bool" where
  "nothing_mapped s \<longleftrightarrow> (\<forall>a e. entries s a = Some e \<longrightarrow> te_page e = NULL)"

lemma unfilled_ok:
  assumes "nothing_mapped s" and "0 \<le> cap" and "length es = nat cap"
  shows "pool_shape (unfilled es cap s)" and "pages_ok (unfilled es cap s)"
    and "free_list (unfilled es cap s) = []"
proof -
  have f: "free_list (unfilled es cap s) = []" by (simp add: unfilled_def free_list_def)
  then show "free_list (unfilled es cap s) = []" .
  show "pool_shape (unfilled es cap s)" using assms(2,3) by (simp add: unfilled_def pool_shape_def)
  have "\<not> mapped (unfilled es cap s) p" for p using assms(1) by (auto simp: mapped_def nothing_mapped_def unfilled_def)
  then show "pages_ok (unfilled es cap s)"
    using assms(1) f by (auto simp: pages_ok_def nothing_mapped_def unfilled_def)
qed

lemma create_ok:
  assumes "nothing_mapped s" and "0 \<le> cap" and "vmalloc (nat cap) = Some es" and "length es = nat cap"
    and "grants_ok alloc {0..<nat cap} s" and "all_granted alloc {0..<nat cap}"
  shows "\<exists>s'. valet_mempool_create vmalloc alloc freeram cap s = Inr (0, s') \<and> core_ok s' \<and>
    free_list s' = map (fst \<circ> alloc) [0..<nat cap] \<and> entries s' = entries s \<and>
    max_pool_pages (pool s') = max_pool_pages (pool s) \<and> cap_nr (pool s') = cap"
proof -
  let ?s0 = "unfilled es cap s"
  note u = unfilled_ok [OF assms(1,2,4)]
  have gr: "grants_ok alloc {0..<0 + nat cap} ?s0" "all_granted alloc {0..<0 + nat cap}"
    using assms(5,6) by (simp_all add: grants_ok_def unfilled_def)
  have room: "curr_nr (pool ?s0) + int (nat cap) \<le> cap_nr (pool ?s0)" using assms(2) by (simp add: unfilled_def)
  obtain s1 where s1: "create_loop (nat cap) alloc 0 ?s0 = Inr (0, s1)" "pool_shape s1" "pages_ok s1"
    "free_list s1 = map (fst \<circ> alloc) [0..<nat cap]" "same_but_free ?s0 s1"
    using create_loop_ok [OF u(1,2) gr room] unfolding u(3) by auto
  let ?s' = "s1\<lparr>pool := (pool s1)\<lparr>threshold_page_shrink := freeram * 15 div 100,
      threshold_page_expand := freeram * 30 div 100\<rparr>\<rparr>"
  have fl: "free_list ?s' = free_list s1" by (simp add: free_list_def)
  have "pool_shape ?s'" using s1(2) by (simp add: pool_shape_def)
  moreover have "pages_ok ?s'" using s1(3) unfolding pages_ok_def fl by simp
  moreover have "valet_mempool_create vmalloc alloc freeram cap s = Inr (0, ?s')"
    using s1(1) assms(3) by (simp add: valet_mempool_create_def unfilled_def)
  ultimately show ?thesis
    using s1(4) fl same_but_freeD(1,3,8) [OF s1(5)] by (simp add: core_ok_def unfilled_def)
qed

text \<open>The loop that meets a failing allocation after \<open>j\<close> pages gives all of them back.\<close>

lemma create_loop_fail:
  assumes "core_ok s" and "grants_ok alloc {i..<i + n} s" and "curr_nr (pool s) + int n \<le> cap_nr (pool s)"
    and "j < n" and "all_granted alloc {i..<i + j}" and "fst (alloc (i + j)) = NULL"
  shows "\<exists>s'. create_loop n alloc i s = Inr (1, s') \<and> curr_nr (pool s') = 0 \<and> elements (pool s') = [] \<and>
    pages s' = pages s |` (- set (free_list s)) \<and> entries s' = entries s"
  using assms
proof (induction n arbitrary: i s j)
  case (Suc n)
  obtain p b where a: "alloc i = (p, b)" by fastforce
  have core: "pool_shape s" "pages_ok s" using Suc.prems(1) by (auto simp: core_ok_def)
  show ?case
  proof (cases j)
    case 0
    obtain s1 where s1: "free_pool_loop (Suc (nat (curr_nr (pool s)))) s = Inr s1" "shrunk_to 0 s s1"
      using free_pool_loop_ok [OF Suc.prems(1)] by blast
    obtain u where u: "s1 = s\<lparr>pages := pages s |` (- set (free_list s)), pool := (pool s)\<lparr>curr_nr := 0, used_nr := u\<rparr>\<rparr>"
      using s1(2) by (auto simp: shrunk_to_def)
    have "p = NULL" using Suc.prems(6) 0 a by simp
    then show ?thesis using a s1(1) by (simp add: u valet_free_pool_def)
  next
    case (Suc j')
    have p: "p \<noteq> NULL" using Suc.prems(5) Suc a by (force simp: all_granted_def)
    have fresh: "pages s p = None" "length b = VALET_PAGE_SIZE"
      using grants_okD [OF Suc.prems(2) _ a p] by simp_all
    have room: "curr_nr (pool s) < cap_nr (pool s)" using Suc.prems(3) by simp
    note g = grown_ok [OF core(1) room core(2) p fresh]
    have gr: "grants_ok alloc {Suc i..<Suc i + n} (grown p b s)"
      using grants_ok_grown [OF Suc.prems(2)] p a by simp
    have step: "create_loop (Suc n) alloc i s = create_loop n alloc (Suc i) (grown p b s)"
      using a p g(4) by (simp add: grown_def Let_def)
    have core': "core_ok (grown p b s)" using g(1,2) by (simp add: core_ok_def)
    have gd: "all_granted alloc {Suc i..<Suc i + j'}" using Suc.prems(5) Suc by (auto simp: all_granted_def)
    have pages: "pages (grown p b s) |` (- set (free_list (grown p b s))) = pages s |` (- set (free_list s))"
      using fresh(1) unfolding g(3) by (auto simp: restrict_map_def fun_eq_iff)
    have "\<exists>s'. create_loop n alloc (Suc i) (grown p b s) = Inr (1, s') \<and> curr_nr (pool s') = 0 \<and>
        elements (pool s') = [] \<and>
        pages s' = pages (grown p b s) |` (- set (free_list (grown p b s))) \<and> entries s' = entries (grown p b s)"
      using Suc.prems(3,4,6) Suc by (intro Suc.IH [OF core' gr _ _ gd]) auto
    then show ?thesis unfolding step pages by simp
  qed
qed simp

subsection \<open>The properties\<close>

text \<open>
  C19. An allocation on a sound pool returns exactly when a page is free or an entry on the
  reclaim list can give one up (it is not being updated and has a page); otherwise the
  caller loops. The page it returns is in nobody else's hands: not free and in no entry.
  The pool stays sound, the entries that changed were taken off the reclaim list, and the
  number of pages that further allocations can find has gone down by exactly one.
\<close>

theorem pool_alloc_exclusive:
  assumes "pool_ok k s"
  shows "if can_alloc s
    then \<exists>p s'. valet_alloc s = Inr (p, s') \<and> pool_ok k s' \<and> held s' p \<and> alloc_frame s s' \<and>
      Suc (avail s') = avail s
    else valet_alloc s = Inl Hang"
  using alloc_ok(1) [OF assms] alloc_hang [OF assms] by simp

text \<open>
  An allocation never takes the page of an entry that is being updated, nor of one that is
  not on the reclaim list: such entries are the same afterwards.
\<close>

theorem pool_alloc_spares:
  assumes "pool_ok k s" and "valet_alloc s = Inr (p, s')" and "entries s a = Some e"
    and "test_flag e UPDATING \<or> a \<notin> set (reclaim_contents s)"
  shows "entries s' a = Some e"
proof -
  have "can_alloc s" using assms(1,2) alloc_hang by fastforce
  then have "alloc_frame s s'" using alloc_ok(1) [OF assms(1)] assms(2) by auto
  then show ?thesis
    using assms(3,4) by (auto simp: alloc_frame_def reclaimed_entry_def)
qed

text \<open>
  Giving back a page that only the caller holds keeps the pool sound: the page is zeroed and
  becomes the next one to be handed out, or, when the pool is full, returns to the kernel.
\<close>

theorem pool_free_returns:
  assumes "pool_ok k s" and "held s p"
  shows "\<exists>s'. valet_free p s = Inr s' \<and> pool_ok k s' \<and> entries s' = entries s \<and>
    (if curr_nr (pool s) < cap_nr (pool s)
     then free_list s' = free_list s @ [p] \<and> pages s' p = Some (replicate VALET_PAGE_SIZE 0)
     else free_list s' = free_list s \<and> pages s' p = None)"
proof -
  obtain s' where "valet_free p s = Inr s'" "pool_ok k s'" "same_but_counts s s'"
    "if curr_nr (pool s) < cap_nr (pool s)
     then free_list s' = free_list s @ [p] \<and> pages s' = (pages s)(p \<mapsto> replicate VALET_PAGE_SIZE 0)
     else free_list s' = free_list s \<and> pages s' = (pages s)(p := None)"
    using free_held [OF assms] by blast
  then show ?thesis by (auto simp: same_but_counts_def split: if_splits)
qed

subsection \<open>Initialisation and resizing\<close>

lemma mempool_init_ok:
  assumes "nothing_mapped s" and "vmalloc 131072 = Some es" and "length es = 131072"
    and "grants_ok alloc {0..<131072} s" and "all_granted alloc {0..<131072}" and "vzalloc_ok 52428992"
  shows "\<exists>s' q. mempool_init vzalloc_ok vmalloc alloc freeram s = Inr (0, s') \<and> pool_ok 18 s' \<and>
    free_list s' = map (fst \<circ> alloc) [0..<131072] \<and> init_done (pool s') = 1 \<and>
    sending_list (pool s') = Some q \<and> alf_win 18 q \<and> alf_contents q = [] \<and> reclaim_contents s' = []"
proof -
  let ?s0 = "set_mempool_size freeram 131072 6553600 (s\<lparr>pool := (pool s)\<lparr>init_done := 0\<rparr>\<rparr>)"
  have "nothing_mapped ?s0" "grants_ok alloc {0..<131072} ?s0"
    using assms(1,4) by (simp_all add: nothing_mapped_def grants_ok_def set_mempool_size_def)
  then obtain s1 where s1: "valet_mempool_create vmalloc alloc freeram 131072 ?s0 = Inr (0, s1)" "core_ok s1"
    "free_list s1 = map (fst \<circ> alloc) [0..<131072]" "max_pool_pages (pool s1) = 6553600"
    using create_ok [of ?s0 131072 vmalloc es alloc freeram] assms(2,3,5)
    by (auto simp: set_mempool_size_def)
  define q where "q = the (alf_queue_alloc vzalloc_ok 6553600)"
  have q: "alf_queue_alloc vzalloc_ok 6553600 = Some q" using assms(6) by (simp add: q_def alf_queue_alloc_def Let_def)
  then have w: "alf_win 18 q" "alf_contents q = []" using alf_queue_alloc_win [OF _ _ _ q, of 18] by simp_all
  let ?s' = "s1\<lparr>pool := (pool s1)\<lparr>sending_list := Some q, reclaim_list := Some q, init_done := 1\<rparr>\<rparr>"
  have "mempool_init vzalloc_ok vmalloc alloc freeram s = Inr (0, ?s')"
    using s1(1,4) q by (simp add: mempool_init_def Let_def) (simp add: set_mempool_size_def)
  moreover have f: "free_list ?s' = free_list s1" by (simp add: free_list_def)
  moreover have "pool_shape ?s'" using s1(2) by (simp add: core_ok_def pool_shape_def)
  moreover have "pages_ok ?s'" using s1(2) unfolding pages_ok_def f core_ok_def by simp
  moreover have "reclaim_contents ?s' = []" using w by (simp add: reclaim_contents_def)
  moreover have "reclaim_ok 18 ?s'" using w by (simp add: reclaim_ok_def reclaim_contents_def)
  ultimately show ?thesis using s1(3) w by (auto simp: pool_ok_def)
qed

text \<open>
  C22. When the allocators deliver, initialisation returns 0 and leaves a sound pool that owns
  exactly the 131072 pages granted, with both queues empty. The pool is sound with the
  window 2 ^ 18, the largest power of two that divides the size of the queues.
\<close>

theorem mempool_init_establishes:
  assumes "nothing_mapped s" and "vmalloc 131072 = Some es" and "length es = 131072"
    and "grants_ok alloc {0..<131072} s" and "all_granted alloc {0..<131072}" and "vzalloc_ok 52428992"
  shows "\<exists>s' q. mempool_init vzalloc_ok vmalloc alloc freeram s = Inr (0, s') \<and> pool_ok 18 s' \<and>
    free_list s' = map (fst \<circ> alloc) [0..<131072] \<and> init_done (pool s') = 1 \<and>
    sending_list (pool s') = Some q \<and> alf_win 18 q \<and> alf_contents q = [] \<and> reclaim_contents s' = []"
  using assms by (rule mempool_init_ok)

text \<open>
  C18. Error path of creation: when the kernel refuses a page after granting \<open>j\<close> of them, every
  granted page goes back, creation returns 1 and the pool is left without elements.
\<close>

theorem mempool_create_rolls_back:
  assumes "nothing_mapped s" and "vmalloc (nat cap) = Some es" and "length es = nat cap"
    and "grants_ok alloc {0..<nat cap} s" and "j < nat cap" and "all_granted alloc {0..<j}"
    and "fst (alloc j) = NULL"
  shows "\<exists>s'. valet_mempool_create vmalloc alloc freeram cap s = Inr (1, s') \<and>
    curr_nr (pool s') = 0 \<and> elements (pool s') = [] \<and> pages s' = pages s \<and> entries s' = entries s"
proof -
  have c: "0 \<le> cap" using assms(5) by simp
  let ?s0 = "unfilled es cap s"
  note u = unfilled_ok [OF assms(1) c assms(3)]
  have g: "grants_ok alloc {0..<0 + nat cap} ?s0" using assms(4) by (simp add: grants_ok_def unfilled_def)
  have "\<exists>s'. create_loop (nat cap) alloc 0 ?s0 = Inr (1, s') \<and> curr_nr (pool s') = 0 \<and>
      elements (pool s') = [] \<and> pages s' = pages ?s0 |` (- set (free_list ?s0)) \<and> entries s' = entries ?s0"
    using u assms(5-7) c
    by (intro create_loop_fail [OF _ g, of j]) (simp_all add: core_ok_def unfilled_def)
  then show ?thesis
    using assms(2) unfolding u(3) by (auto simp: valet_mempool_create_def unfilled_def restrict_map_def)
qed

lemma pool_ok_control [simp]:
  "pool_ok k (s\<lparr>pool := (pool s)\<lparr>memp_state := m\<rparr>\<rparr>) = pool_ok k s"
  "pool_ok k (s\<lparr>pool := (pool s)\<lparr>new_cap_nr := n\<rparr>\<rparr>) = pool_ok k s"
  "pool_ok k (s\<lparr>pool := (pool s)\<lparr>threshold := t\<rparr>\<rparr>) = pool_ok k s"
  "pool_ok k (s\<lparr>pool := (pool s)\<lparr>memp_state := m, new_cap_nr := n\<rparr>\<rparr>) = pool_ok k s"
  "pool_ok k (s\<lparr>pool := (pool s)\<lparr>new_cap_nr := n, memp_state := m\<rparr>\<rparr>) = pool_ok k s"
  "pool_ok k (s\<lparr>pool := (pool s)\<lparr>memp_state := m, new_cap_nr := n, threshold := t\<rparr>\<rparr>) = pool_ok k s"
  by (simp_all add: pool_ok_def pool_shape_def pages_ok_def reclaim_ok_def reclaim_contents_def free_list_def)

lemma thread_shrink:
  assumes "pool_ok k s" and "0 < min_pool_pages (pool s)" and "min_pool_pages (pool s) \<le> new"
    and "new \<le> cap_nr (pool s)" and "new = cap_nr (pool s) \<longrightarrow> min_pool_pages (pool s) = new"
  shows "\<exists>err s'. valet_mempool_shrink new s = Inr (err, s') \<and> pool_ok k s' \<and>
    resize_limits s' = (new, min_pool_pages (pool s), max_pool_pages (pool s))"
proof (cases "new < cap_nr (pool s)")
  case True
  then obtain s1 s' where s': "valet_mempool_shrink new s = Inr (Some 0, s')" "pool_ok k s'"
    "shrunk_to (nat new) s s1" "s' = s1\<lparr>pool := (pool s1)\<lparr>cap_nr := new, threshold := new\<rparr>\<rparr>"
    using shrink_ok [OF assms(1), of new] assms(2,3) by auto
  obtain u G n where "s1 = s\<lparr>pages := G, pool := (pool s)\<lparr>curr_nr := n, used_nr := u\<rparr>\<rparr>"
    using s'(3) by (auto simp: shrunk_to_def)
  then have "resize_limits s' = (new, min_pool_pages (pool s), max_pool_pages (pool s))"
    by (simp add: s'(4) resize_limits_def)
  then show ?thesis using s'(1,2) by blast
next
  case False
  then have eq: "new = cap_nr (pool s)" "min_pool_pages (pool s) = cap_nr (pool s)" using assms(4,5) by auto
  obtain s' where s': "reclaim_unit RESIZING_UNIT_IN_PAGES s = Inr s'" "pool_ok k s'"
    "resize_limits s' = resize_limits s" using reclaim_unit_ok [OF assms(1)] by blast
  have "valet_mempool_shrink new s = Inr (None, s')"
    unfolding valet_mempool_shrink_def s'(1) using assms(2) eq by simp
  then show ?thesis using s'(2,3) eq by (auto simp: resize_limits_def)
qed

lemma shrink_turn:
  assumes "pool_ok k s" and "0 < min_pool_pages (pool s)"
    and "min_pool_pages (pool s) \<le> cap_nr (pool s)" and "cap_nr (pool s) \<le> max_pool_pages (pool s)"
    and shrink: "freemem < threshold_page_shrink (pool s)"
  shows "\<exists>s'. mempool_thread_step vmalloc alloc garbage freemem s = Inr s' \<and> pool_ok k s' \<and>
    min_pool_pages (pool s') \<le> cap_nr (pool s') \<and> cap_nr (pool s') \<le> max_pool_pages (pool s') \<and>
    min_pool_pages (pool s') = min_pool_pages (pool s) \<and> max_pool_pages (pool s') = max_pool_pages (pool s)"
proof -
  let ?P = "pool s" and ?unit = "int RESIZING_UNIT_IN_PAGES"
  define new where "new = (let n = (if cap_nr ?P \<le> ?unit then min_pool_pages ?P else cap_nr ?P - ?unit)
    in if n < min_pool_pages ?P then min_pool_pages ?P else n)"
  let ?s1 = "s\<lparr>pool := ?P\<lparr>memp_state := MEMP_SHRINK, new_cap_nr := new, threshold := new\<rparr>\<rparr>"
  have "min_pool_pages ?P \<le> new" "new \<le> cap_nr ?P" "new = cap_nr ?P \<longrightarrow> min_pool_pages ?P = new"
    using assms(3) by (auto simp: new_def Let_def)
  then obtain err s2 where s2: "valet_mempool_shrink new ?s1 = Inr (err, s2)" "pool_ok k s2"
    "resize_limits s2 = (new, min_pool_pages ?P, max_pool_pages ?P)"
    using thread_shrink [of k ?s1 new] assms(1,2) by auto
  have st: "mempool_thread_step vmalloc alloc garbage freemem s =
      bind_ok (valet_mempool_shrink new ?s1) (\<lambda>(err, s).
        if (case err of Some e \<Rightarrow> e | None \<Rightarrow> garbage) \<noteq> 0 then Inr s
        else Inr (s\<lparr>pool := (pool s)\<lparr>memp_state := MEMP_IDLE\<rparr>\<rparr>))"
    using shrink by (simp add: mempool_thread_step_def Let_def new_def)
  show ?thesis
    unfolding st s2(1) using s2(2,3) assms(4) \<open>min_pool_pages ?P \<le> new\<close> \<open>new \<le> cap_nr ?P\<close>
    by (auto simp: resize_limits_def)
qed

lemma expand_turn:
  assumes "pool_ok k s" and "0 < min_pool_pages (pool s)"
    and "min_pool_pages (pool s) \<le> cap_nr (pool s)" and "cap_nr (pool s) \<le> max_pool_pages (pool s)"
    and "grants_ok alloc {0..<RESIZING_UNIT_IN_PAGES} s" and "vmalloc_fits vmalloc"
    and "curr_nr (pool s) + int RESIZING_UNIT_IN_PAGES \<le> max_pool_pages (pool s)"
    and expand: "\<not> freemem < threshold_page_shrink (pool s)" "freemem > threshold_page_expand (pool s)"
      "used_nr (pool s) \<ge> threshold (pool s)" "max_pool_pages (pool s) \<noteq> cap_nr (pool s)"
  shows "\<exists>s'. mempool_thread_step vmalloc alloc garbage freemem s = Inr s' \<and> pool_ok k s' \<and>
    min_pool_pages (pool s') \<le> cap_nr (pool s') \<and> cap_nr (pool s') \<le> max_pool_pages (pool s') \<and>
    min_pool_pages (pool s') = min_pool_pages (pool s) \<and> max_pool_pages (pool s') = max_pool_pages (pool s)"
proof -
  let ?P = "pool s" and ?unit = "int RESIZING_UNIT_IN_PAGES"
  define new where "new = (if cap_nr ?P + ?unit > max_pool_pages ?P then max_pool_pages ?P else cap_nr ?P + ?unit)"
  let ?s1 = "s\<lparr>pool := ?P\<lparr>memp_state := MEMP_EXPAND, new_cap_nr := new\<rparr>\<rparr>"
  have "curr_nr ?P \<le> cap_nr ?P" using assms(1) by (simp add: pool_ok_def pool_shape_def)
  then have room: "curr_nr (pool ?s1) + ?unit \<le> new" using assms(7) by (simp add: new_def)
  have "grants_ok alloc {0..<RESIZING_UNIT_IN_PAGES} ?s1" using assms(5) by (simp add: grants_ok_def)
  note ex = expand_ok [OF _ this assms(6) room, of k]
  have st: "mempool_thread_step vmalloc alloc garbage freemem s =
      bind_ok (valet_mempool_expand vmalloc alloc new ?s1) (\<lambda>(err, s). if err \<noteq> 0
        then Inr (s\<lparr>pool := (pool s)\<lparr>memp_state := MEMP_IDLE\<rparr>\<rparr>) else Inr s)"
    using expand by (simp add: mempool_thread_step_def Let_def new_def)
  have "min_pool_pages ?P \<le> new" "new \<le> max_pool_pages ?P" using assms(3,4) by (auto simp: new_def)
  then show ?thesis
    using ex assms(1,3,4) unfolding st by (cases "vmalloc (nat new)") auto
qed

text \<open>
  C21. A turn of the resizing thread on a sound pool within its limits ends without a crash,
  whatever the free memory and whatever value the caller reads from a shrinking call that
  returned none; the pool stays sound and its capacity within the limits. The step at
  the maximum needs room for a whole unit of pages, because the loop that fills the new
  array always asks for a whole unit.
\<close>

theorem mempool_thread_step_safe:
  assumes "pool_ok k s" and "0 < min_pool_pages (pool s)"
    and "min_pool_pages (pool s) \<le> cap_nr (pool s)" and "cap_nr (pool s) \<le> max_pool_pages (pool s)"
    and "grants_ok alloc {0..<RESIZING_UNIT_IN_PAGES} s" and "vmalloc_fits vmalloc"
    and "curr_nr (pool s) + int RESIZING_UNIT_IN_PAGES \<le> max_pool_pages (pool s)"
  shows "\<exists>s'. mempool_thread_step vmalloc alloc garbage freemem s = Inr s' \<and> pool_ok k s' \<and>
    min_pool_pages (pool s') \<le> cap_nr (pool s') \<and> cap_nr (pool s') \<le> max_pool_pages (pool s') \<and>
    min_pool_pages (pool s') = min_pool_pages (pool s) \<and> max_pool_pages (pool s') = max_pool_pages (pool s)"
proof -
  let ?P = "pool s"
  consider (shrink) "freemem < threshold_page_shrink ?P"
    | (expand) "\<not> freemem < threshold_page_shrink ?P" "freemem > threshold_page_expand ?P"
        "used_nr ?P \<ge> threshold ?P" "max_pool_pages ?P \<noteq> cap_nr ?P"
    | (idle) "\<not> freemem < threshold_page_shrink ?P"
        "\<not> (freemem > threshold_page_expand ?P \<and> used_nr ?P \<ge> threshold ?P \<and> max_pool_pages ?P \<noteq> cap_nr ?P)"
    by blast
  then show ?thesis
  proof cases
    case shrink
    then show ?thesis by (rule shrink_turn [OF assms(1-4)])
  next
    case expand
    then show ?thesis by (rule expand_turn [OF assms])
  next
    case idle
    then show ?thesis using assms(1-4) by (auto simp: mempool_thread_step_def Let_def)
  qed
qed

lemma expand_loop_overflow:
  assumes "all_granted alloc {i..<i + n}" and "0 \<le> curr_nr (pool s)"
    and "int (length (elements (pool s))) < curr_nr (pool s) + int n"
    and "curr_nr (pool s) \<le> int (length (elements (pool s)))"
  shows "expand_loop n alloc i s = Inl Out_Of_Bounds"
  using assms
proof (induction n arbitrary: i s)
  case (Suc n)
  obtain p b where a: "alloc i = (p, b)" by fastforce
  have p: "p \<noteq> NULL" using Suc.prems(1) a by (force simp: all_granted_def)
  have g: "all_granted alloc {Suc i..<Suc i + n}" using Suc.prems(1) by (auto simp: all_granted_def)
  show ?case
  proof (cases "nat (curr_nr (pool s)) < length (elements (pool s))")
    case True
    then show ?thesis
      using a p Suc.prems(2-4) Suc.IH [OF g] by (simp add: Let_def iarr_set_def)
  next
    case False
    then show ?thesis using a p Suc.prems(2) by (simp add: Let_def iarr_set_def arr_set_def)
  qed
qed simp

text \<open>
  C23. The room in the previous property is needed: with fewer than a unit of free slots in the
  new array and a kernel that grants every page, \<open>valet_mempool_expand\<close> writes behind
  the end of the array.
\<close>

theorem mempool_expand_overflows:
  assumes "pool_shape s" and "vmalloc (nat c) = Some es" and "length es = nat c"
    and "curr_nr (pool s) \<le> c" and "0 < c" and "c < curr_nr (pool s) + int RESIZING_UNIT_IN_PAGES"
    and "all_granted alloc {0..<RESIZING_UNIT_IN_PAGES}"
  shows "valet_mempool_expand vmalloc alloc c s = Inl Out_Of_Bounds"
proof -
  let ?n = "nat (curr_nr (pool s))"
  let ?s1 = "s\<lparr>pool := (pool s)\<lparr>elements := take ?n (elements (pool s)) @ drop ?n es, cap_nr := c,
      threshold := c - c div 4\<rparr>\<rparr>"
  have n: "?n \<le> length es" "?n \<le> length (elements (pool s))" "0 \<le> curr_nr (pool s)"
    using assms by (auto simp: pool_shape_def)
  have "expand_loop RESIZING_UNIT_IN_PAGES alloc 0 ?s1 = Inl Out_Of_Bounds"
    using assms(3-7) n by (intro expand_loop_overflow) simp_all
  then show ?thesis using assms(2,5) n by (simp add: valet_mempool_expand_def memcpy_def)
qed

subsection \<open>A concrete pool\<close>

text \<open>
  Four slots, one free page, two entries on the reclaim list of which the first is being
  updated, and a page, 103, that is in the caller's hands.
\<close>

definition sample_reclaim :: alf_queue where
  "sample_reclaim = \<lparr>q_size = 4, q_mask = 3, q_flags = 0, producer = \<lparr>head = 2, tail = 2\<rparr>,
     consumer = \<lparr>head = 0, tail = 0\<rparr>, ring = [8, 7, 0, 0]\<rparr>"

definition sample_pool :: valet_mempool where
  "sample_pool = \<lparr>cap_nr = 4, new_cap_nr = 0, curr_nr = 1, used_nr = 3, threshold = 3,
     elements = [100, 0, 0, 0], init_done = 1, min_pool_pages = 2, max_pool_pages = 300000,
     threshold_page_shrink = 10, threshold_page_expand = 20,
     sending_list = Some sample_reclaim, reclaim_list = Some sample_reclaim, memp_state = MEMP_IDLE\<rparr>"

definition sample_mem :: valet_mem where
  "sample_mem = \<lparr>pool = sample_pool,
     entries = [7 \<mapsto> \<lparr>te_index = 0, te_page = 101, te_len = 4096, te_flags = 2, te_ref_count = 0\<rparr>,
                8 \<mapsto> \<lparr>te_index = 0, te_page = 102, te_len = 4096, te_flags = 3, te_ref_count = 1\<rparr>],
     items = Map.empty,
     pages = (\<lambda>p. if p \<in> {100, 101, 102, 103} then Some (replicate 4096 0) else None)\<rparr>"

lemma sample_reclaim_ok: "alf_win 2 sample_reclaim" "alf_contents sample_reclaim = [8, 7]"
  by (simp_all add: sample_reclaim_def alf_win_def alf_used_def alf_contents_def upt_rec)

lemma sample_mem_lists: "free_list sample_mem = [100]" "reclaim_contents sample_mem = [8, 7]"
  by (simp_all add: sample_mem_def sample_pool_def free_list_def reclaim_contents_def sample_reclaim_ok)

lemma sample_mem_fields:
  "curr_nr (pool sample_mem) = 1" "cap_nr (pool sample_mem) = 4"
  "min_pool_pages (pool sample_mem) = 2" "max_pool_pages (pool sample_mem) = 300000"
  "p \<ge> 1000 \<Longrightarrow> pages sample_mem p = None" "pool_shape sample_mem"
  by (simp_all add: sample_mem_def sample_pool_def pool_shape_def)

lemma sample_mapped: "mapped sample_mem p \<longleftrightarrow> p = 101 \<or> p = 102"
proof
  assume "p = 101 \<or> p = 102"
  then show "mapped sample_mem p"
    unfolding mapped_def by (elim disjE; intro conjI exI [of _ "p - 94"]) (simp_all add: sample_mem_def)
qed (auto simp: mapped_def sample_mem_def split: if_splits)

lemma sample_is_page: "is_page sample_mem p \<longleftrightarrow> p \<in> {100, 101, 102, 103}"
  by (auto simp: is_page_def sample_mem_def)

lemma sample_mem_ok: "pool_ok 2 sample_mem"
proof -
  have "pool_shape sample_mem" by (simp add: pool_shape_def sample_mem_def sample_pool_def)
  moreover have "pages_ok sample_mem"
    unfolding pages_ok_def sample_mem_lists sample_mapped sample_is_page
    by (auto simp: sample_mem_def split: if_splits)
  moreover have "reclaim_ok 2 sample_mem"
    unfolding reclaim_ok_def sample_mem_lists
    by (auto simp: sample_mem_def sample_pool_def sample_reclaim_ok test_flag_def)
  ultimately show ?thesis by (simp add: pool_ok_def)
qed

lemma sample_held: "held sample_mem 103"
  by (simp add: held_def sample_mapped sample_is_page sample_mem_lists)

lemma sample_can_alloc: "can_alloc sample_mem"
  by (simp add: can_alloc_def sample_mem_lists)

theorem pool_alloc_exclusive_witness:
  "\<exists>p s'. valet_alloc sample_mem = Inr (p, s') \<and> pool_ok 2 s' \<and> held s' p \<and> alloc_frame sample_mem s' \<and>
     Suc (avail s') = avail sample_mem"
  using pool_alloc_exclusive [OF sample_mem_ok] sample_can_alloc by simp

theorem pool_alloc_spares_witness:
  "entries (snd (projr (valet_alloc sample_mem))) 8 =
     Some \<lparr>te_index = 0, te_page = 102, te_len = 4096, te_flags = 3, te_ref_count = 1\<rparr>"
proof -
  obtain p s' where s': "valet_alloc sample_mem = Inr (p, s')"
    using alloc_ok(1) [OF sample_mem_ok sample_can_alloc] by blast
  have "entries s' 8 = Some \<lparr>te_index = 0, te_page = 102, te_len = 4096, te_flags = 3, te_ref_count = 1\<rparr>"
    by (rule pool_alloc_spares [OF sample_mem_ok s']) (simp_all add: sample_mem_def test_flag_def)
  then show ?thesis by (simp add: s')
qed

theorem pool_free_returns_witness:
  "\<exists>s'. valet_free 103 sample_mem = Inr s' \<and> pool_ok 2 s' \<and> free_list s' = [100, 103]"
  using pool_free_returns [OF sample_mem_ok sample_held]
  by (auto simp: sample_mem_lists sample_mem_fields)

definition sample_alloc :: "nat \<Rightarrow> ptr \<times> page" where
  "sample_alloc i = (1000 + i, replicate 4096 0)"

definition sample_vmalloc :: "nat \<Rightarrow> ptr list option" where
  "sample_vmalloc n = Some (replicate n 0)"

lemma sample_grants:
  assumes "\<And>p. p \<ge> 1000 \<Longrightarrow> pages s p = None"
  shows "grants_ok sample_alloc I s" and "all_granted sample_alloc I"
  using assms by (simp_all add: grants_ok_def all_granted_def sample_alloc_def)

definition blank_mem :: valet_mem where
  "blank_mem = \<lparr>pool = sample_pool, entries = Map.empty, items = Map.empty, pages = Map.empty\<rparr>"

lemma blank_mem_simps: "nothing_mapped blank_mem" "pages blank_mem p = None"
  by (simp_all add: blank_mem_def nothing_mapped_def)

theorem mempool_init_establishes_witness:
  "\<exists>s'. mempool_init (\<lambda>_. True) sample_vmalloc sample_alloc 1000000 blank_mem = Inr (0, s') \<and> pool_ok 18 s'"
  using mempool_init_establishes [OF blank_mem_simps(1), of sample_vmalloc "replicate 131072 0" sample_alloc
      "\<lambda>_. True" 1000000] sample_grants [of blank_mem]
  by (auto simp: sample_vmalloc_def blank_mem_simps)

definition refusing_alloc :: "nat \<Rightarrow> ptr \<times> page" where
  "refusing_alloc i = (if i = 2 then (0, []) else sample_alloc i)"

theorem mempool_create_rolls_back_witness:
  "\<exists>s'. valet_mempool_create sample_vmalloc refusing_alloc 1000 4 blank_mem = Inr (1, s') \<and>
     pages s' = pages blank_mem"
proof -
  have "sample_vmalloc (nat 4) = Some (replicate 4 0)" by (simp add: sample_vmalloc_def)
  moreover have "grants_ok refusing_alloc {0..<nat 4} blank_mem"
    by (auto simp: grants_ok_def refusing_alloc_def sample_alloc_def blank_mem_simps)
  moreover have "all_granted refusing_alloc {0..<2}" "fst (refusing_alloc 2) = NULL"
    by (simp_all add: all_granted_def refusing_alloc_def sample_alloc_def)
  ultimately show ?thesis
    using mempool_create_rolls_back [OF blank_mem_simps(1), of sample_vmalloc 4 "replicate 4 0"
        refusing_alloc 2 1000] by auto
qed

theorem mempool_thread_step_safe_witness:
  "\<exists>s'. mempool_thread_step sample_vmalloc sample_alloc 5 30 sample_mem = Inr s' \<and> pool_ok 2 s'"
  using mempool_thread_step_safe [OF sample_mem_ok, of sample_alloc sample_vmalloc 5 30]
    sample_grants [of sample_mem "{0..<262144}"]
  by (auto simp: sample_mem_fields vmalloc_fits_def sample_vmalloc_def)

theorem mempool_expand_overflows_witness:
  "valet_mempool_expand sample_vmalloc sample_alloc 8 sample_mem = Inl Out_Of_Bounds"
  by (rule mempool_expand_overflows [of _ _ _ "replicate 8 0"])
     (simp_all add: sample_mem_fields sample_vmalloc_def all_granted_def sample_alloc_def)

end
