(* ===== verification/Gpt.thy ===== *)
theory Gpt
  imports Pool_Invariant
begin

text \<open>
  The global page table (gpt.c, gpt.h): a radix tree from page indices to entries, and the two
  paths of the block device through it, writing a request into local pages and reading a
  page back. The tree is a map; \<open>radix_tree_preload\<close> and \<open>kmalloc\<close> answer through
  arguments. A write puts its pages on the sending list, from which the remote path takes them.
\<close>

record gpt_mem = valet_mem +
  gpt_pages :: "nat \<rightharpoonup> ptr"
  gpt_init_done :: int

abbreviation (input) SECTORS_PER_PAGE_SHIFT :: nat where "SECTORS_PER_PAGE_SHIFT \<equiv> 3"

definition gpt_init :: "'a gpt_mem_scheme \<Rightarrow> int \<times> 'a gpt_mem_scheme" where
  "gpt_init s = (0, s\<lparr>gpt_pages := Map.empty, gpt_init_done := 1\<rparr>)"

definition gpt_lookup_page :: "nat \<Rightarrow> 'a gpt_mem_scheme \<Rightarrow> ptr" where
  "gpt_lookup_page index s = (case gpt_pages s index of None \<Rightarrow> NULL | Some a \<Rightarrow> a)"

text \<open>
  The new object gets its fields only after the page has been allocated, so it enters the heap
  here at that point. The address is \<open>NULL\<close> when \<open>kmalloc\<close> fails.
\<close>

definition gpt_alloc_entry :: "ptr \<times> tree_entry \<Rightarrow> 'a gpt_mem_scheme \<Rightarrow> (ptr \<times> 'a gpt_mem_scheme) outcome" where
  "gpt_alloc_entry grant s =
     (if fst grant = NULL then Inr (NULL, s)
      else bind_ok (valet_alloc s) (\<lambda>(page, s).
        if page = NULL then Inr (NULL, s)
        else Inr (fst grant, s\<lparr>entries := (entries s)(fst grant \<mapsto>
               (snd grant)\<lparr>te_page := page, te_len := 4096, te_flags := 0\<rparr>)\<rparr>)))"

definition update_entry :: "ptr \<Rightarrow> (tree_entry \<Rightarrow> tree_entry) \<Rightarrow> 'a gpt_mem_scheme \<Rightarrow> 'a gpt_mem_scheme outcome" where
  "update_entry a f s =
     bind_ok (deref (entries s) a) (\<lambda>e. Inr (s\<lparr>entries := (entries s)(a \<mapsto> f e)\<rparr>))"

definition gpt_insert_page ::
  "ptr \<times> tree_entry \<Rightarrow> bool \<Rightarrow> nat \<Rightarrow> 'a gpt_mem_scheme \<Rightarrow> (ptr \<times> 'a gpt_mem_scheme) outcome" where
  "gpt_insert_page grant preload_ok index s =
     (case gpt_pages s index of
        None \<Rightarrow>
          bind_ok (gpt_alloc_entry grant s) (\<lambda>(entry, s).
            if entry = NULL then Inr (NULL, s)
            else bind_ok (update_entry entry (\<lambda>e. e\<lparr>te_ref_count := 0\<rparr>) s) (\<lambda>s.
              if \<not> preload_ok
              then bind_ok (deref (entries s) entry) (\<lambda>e.
                bind_ok (valet_free (te_page e) s) (\<lambda>s.
                  Inr (NULL, s\<lparr>entries := (entries s)(entry := None)\<rparr>)))
              else if gpt_pages s index \<noteq> None then Inl Panic
              else Inr (entry, s\<lparr>gpt_pages := (gpt_pages s)(index \<mapsto> entry)\<rparr>)))
      | Some entry \<Rightarrow>
          bind_ok (deref (entries s) entry) (\<lambda>e.
          bind_ok (if te_page e = NULL
                   then bind_ok (valet_alloc s) (\<lambda>(page, s).
                     bind_ok (update_entry entry (\<lambda>e. e\<lparr>te_page := page\<rparr>) s) (\<lambda>s. Inr (page \<noteq> NULL, s)))
                   else Inr (True, s)) (\<lambda>(ok, s).
            if \<not> ok then Inr (NULL, s)
            else bind_ok (update_entry entry (\<lambda>e. e\<lparr>te_ref_count := te_ref_count e + 1\<rparr>) s) (\<lambda>s.
              bind_ok (update_entry entry (set_flag UPDATING) s) (\<lambda>s. Inr (entry, s))))))"

definition gpt_free_entry :: "nat \<Rightarrow> 'a gpt_mem_scheme \<Rightarrow> 'a gpt_mem_scheme outcome" where
  "gpt_free_entry index s =
     (case gpt_pages s index of None \<Rightarrow> Inr s
      | Some entry \<Rightarrow>
          (let s = s\<lparr>gpt_pages := (gpt_pages s)(index := None)\<rparr>
           in bind_ok (deref (entries s) entry) (\<lambda>e.
                bind_ok (valet_free (te_page e) s) (\<lambda>s.
                  Inr (s\<lparr>entries := (entries s)(entry := None)\<rparr>)))))"

definition gpt_remove_page :: "nat \<Rightarrow> 'a gpt_mem_scheme \<Rightarrow> (ptr \<times> 'a gpt_mem_scheme) outcome" where
  "gpt_remove_page index s =
     (case gpt_pages s index of None \<Rightarrow> Inr (NULL, s)
      | Some entry \<Rightarrow>
          bind_ok (deref (entries s) entry) (\<lambda>e.
          bind_ok (update_entry entry (\<lambda>e. e\<lparr>te_page := NULL, te_len := 0\<rparr>) s) (\<lambda>s.
            Inr (te_page e, s))))"

subsection \<open>Writing\<close>

text \<open>
  \<open>bufs\<close> is what \<open>bio_data\<close> gives along the chain of bios of the request, \<open>pos\<close> its first
  sector and \<open>n\<close> its \<open>nr_phys_segments\<close>. The first loop fills the batch list of the
  item with entries, the second copies the data.
\<close>

primrec insert_batch ::
  "nat \<Rightarrow> (nat \<Rightarrow> ptr \<times> tree_entry) \<Rightarrow> (nat \<Rightarrow> bool) \<Rightarrow> ptr \<Rightarrow> nat \<Rightarrow> nat \<Rightarrow> 'a gpt_mem_scheme \<Rightarrow>
   'a gpt_mem_scheme outcome" where
  "insert_batch 0 grants preload item start i s = Inr s"
| "insert_batch (Suc k) grants preload item start i s =
     bind_ok (gpt_insert_page (grants i) (preload i) (start + i) s) (\<lambda>(entry, s).
       bind_ok (deref (items s) item) (\<lambda>it. bind_ok (arr_set (batch_list it) i entry) (\<lambda>b.
         insert_batch k grants preload item start (i + 1)
           (s\<lparr>items := (items s)(item \<mapsto> it\<lparr>batch_list := b\<rparr>)\<rparr>))))"

primrec copy_batch ::
  "nat \<Rightarrow> page list \<Rightarrow> ptr \<Rightarrow> nat \<Rightarrow> 'a gpt_mem_scheme \<Rightarrow> 'a gpt_mem_scheme outcome" where
  "copy_batch 0 bufs item i s = Inr s"
| "copy_batch (Suc k) bufs item i s =
     bind_ok (deref (items s) item) (\<lambda>it. bind_ok (arr_get (batch_list it) i) (\<lambda>entry.
     bind_ok (if i < length bufs then Inr (bufs ! i) else Inl Null_Deref) (\<lambda>buffer.
     bind_ok (deref (entries s) entry) (\<lambda>e. bind_ok (deref (pages s) (te_page e)) (\<lambda>cmem.
     bind_ok (memcpy cmem buffer VALET_PAGE_SIZE) (\<lambda>cmem.
       copy_batch k bufs item (i + 1)
         (s\<lparr>pages := (pages s)(te_page e \<mapsto> cmem),
            entries := (entries s)(entry \<mapsto> e\<lparr>te_len := 4096\<rparr>)\<rparr>)))))))"

text \<open>
  The result is the C return: 1 before the table is initialised, 0 when the request has been
  ended. The last loop retries until the item is on the sending list.
\<close>

definition write_to_brd ::
  "ptr \<times> local_page_list \<Rightarrow> (nat \<Rightarrow> ptr \<times> tree_entry) \<Rightarrow> (nat \<Rightarrow> bool) \<Rightarrow> nat \<Rightarrow> nat \<Rightarrow> page list \<Rightarrow>
   'a gpt_mem_scheme \<Rightarrow> (int \<times> 'a gpt_mem_scheme) outcome" where
  "write_to_brd grant grants preload pos n bufs s =
     (if gpt_init_done s = 0 then Inr (1, s)
      else let start_index = pos div 2 ^ SECTORS_PER_PAGE_SHIFT
           in bind_ok (get_free_item grant s) (\<lambda>(item, s).
              bind_ok (deref (items s) item) (\<lambda>it.
              let s = s\<lparr>items := (items s)(item \<mapsto> it\<lparr>li_start_index := start_index, li_len := n\<rparr>)\<rparr>
              in bind_ok (insert_batch n grants preload item start_index 0 s) (\<lambda>s.
                 bind_ok (copy_batch n bufs item 0 s) (\<lambda>s.
                 bind_ok (put_sending_index item s) (\<lambda>(ret, s).
                   if ret \<noteq> 0 then Inl Hang else Inr (0, s)))))))"

subsection \<open>Reading\<close>

text \<open>
  A page that is present is copied into the buffer of the request; otherwise the remote read
  of rdmabox.c takes over with the index.
\<close>

datatype read_result = Not_Ready | Local page | Remote nat

definition read_from_brd :: "nat \<Rightarrow> page \<Rightarrow> 'a gpt_mem_scheme \<Rightarrow> read_result outcome" where
  "read_from_brd pos buffer s =
     (if gpt_init_done s = 0 then Inr Not_Ready
      else let index = pos div 2 ^ SECTORS_PER_PAGE_SHIFT
           in case gpt_pages s index of None \<Rightarrow> Inr (Remote index)
              | Some entry \<Rightarrow>
                  bind_ok (deref (entries s) entry) (\<lambda>e.
                    if te_page e = NULL then Inr (Remote index)
                    else bind_ok (deref (pages s) (te_page e)) (\<lambda>cmem.
                      bind_ok (memcpy buffer cmem (unat (te_len e))) (\<lambda>b. Inr (Local b)))))"

end
