(* ===== verification/Gpt_Properties.thy ===== *)
theory Gpt_Properties
  imports Gpt Pool_Properties
begin

text \<open>
  The page table keeps the pool sound, a write puts every page of the request where the next
  read finds it, and no other index ever reads foreign data.
\<close>

subsection \<open>The invariant\<close>

definition tree_ok :: "'a gpt_mem_scheme \<Rightarrow> bool" where
  "tree_ok s \<longleftrightarrow> (\<forall>i a. gpt_pages s i = Some a \<longrightarrow> a \<noteq> NULL \<and> entries s a \<noteq> None) \<and>
     (\<forall>i j a. gpt_pages s i = Some a \<longrightarrow> gpt_pages s j = Some a \<longrightarrow> i = j)"

definition gpt_ok :: "nat \<Rightarrow> 'a gpt_mem_scheme \<Rightarrow> bool" where
  "gpt_ok k s \<longleftrightarrow> pool_ok k s \<and> tree_ok s"

definition page_of :: "'a valet_mem_scheme \<Rightarrow> ptr \<Rightarrow> ptr" where
  "page_of s a = te_page (the (entries s a))"

text \<open>An entry whose page no allocation can take away.\<close>

definition pinned :: "'a valet_mem_scheme \<Rightarrow> ptr \<Rightarrow> bool" where
  "pinned s a \<longleftrightarrow> (\<exists>e. entries s a = Some e \<and> te_page e \<noteq> NULL \<and>
     (test_flag e UPDATING \<or> a \<notin> set (reclaim_contents s)))"

text \<open>The same entry, up to its flags, or one that has lost its page.\<close>

definition kept :: "tree_entry \<Rightarrow> tree_entry \<Rightarrow> bool" where
  "kept e e' \<longleftrightarrow> te_len e' = te_len e \<and> (te_page e' = te_page e \<or> te_page e' = NULL)"

lemma kept_refl [simp]: "kept e e" by (simp add: kept_def)

lemma kept_trans: "kept e f \<Longrightarrow> kept f g \<Longrightarrow> kept e g" by (auto simp: kept_def)

lemma kept_reclaimed: "kept e (reclaimed_entry e)" by (simp add: kept_def reclaimed_entry_def)

subsection \<open>Updating an entry\<close>

lemma pages_ok_map:
  assumes "pages_ok s" and "held s p" and "te_page e' = p"
    and "entries s a = None \<or> (\<exists>e. entries s a = Some e \<and> te_page e = NULL)"
  shows "pages_ok (s\<lparr>entries := (entries s)(a \<mapsto> e')\<rparr>)"
proof -
  let ?s = "s\<lparr>entries := (entries s)(a \<mapsto> e')\<rparr>"
  have p: "is_page s p" "p \<notin> set (free_list s)" "\<not> mapped s p" "p \<noteq> NULL"
    using assms(2) by (auto simp: held_def is_page_def)
  have m: "mapped ?s x \<Longrightarrow> x = p \<or> mapped s x" for x
    using assms(3) by (force simp: mapped_def split: if_splits)
  have "b = c" if eq: "entries ?s b = Some f" "entries ?s c = Some g" "te_page f = te_page g"
    "te_page f \<noteq> NULL" for b c f g
  proof (rule ccontr)
    assume ne: "b \<noteq> c"
    have own: False if "x \<noteq> a" "entries s x = Some h" "te_page h = p" for x h
      using p(3,4) that by (auto simp: mapped_def)
    consider "b = a" | "c = a" | "b \<noteq> a" "c \<noteq> a" by blast
    then show False
    proof cases
      case 3
      then show False using assms(1) eq ne unfolding pages_ok_def by (auto split: if_splits)
    qed (use eq ne own [of b] own [of c] assms(3) in \<open>auto split: if_splits\<close>)
  qed
  moreover have "\<not> mapped ?s x" if "x \<in> set (free_list s)" for x
    using m [of x] that p(2) assms(1) by (auto simp: pages_ok_def)
  moreover have "is_page s x" if "mapped ?s x" for x
    using m [OF that] p(1) assms(1) by (auto simp: pages_ok_def)
  ultimately show ?thesis
    using assms(1) unfolding pages_ok_def by (auto simp del: fun_upd_apply)
qed

lemma reclaim_ok_entry:
  assumes "reclaim_ok k s" and "a \<in> set (reclaim_contents s) \<Longrightarrow> test_flag e' RECLAIMABLE"
  shows "reclaim_ok k (s\<lparr>entries := (entries s)(a \<mapsto> e')\<rparr>)"
  using assms by (auto simp: reclaim_ok_def)

lemma pool_ok_install:
  assumes "pool_ok k s" and "held s p" and "te_page e' = p"
    and "entries s a = None \<or> (\<exists>e. entries s a = Some e \<and> te_page e = NULL)"
    and "a \<in> set (reclaim_contents s) \<Longrightarrow> test_flag e' RECLAIMABLE"
  shows "pool_ok k (s\<lparr>entries := (entries s)(a \<mapsto> e')\<rparr>)"
proof -
  have "reclaim_ok k (s\<lparr>entries := (entries s)(a \<mapsto> e')\<rparr>)"
    using assms(1,5) by (intro reclaim_ok_entry) (auto simp: pool_ok_def)
  then show ?thesis using assms(1) pages_ok_map [OF _ assms(2-4)] by (simp add: pool_ok_def)
qed

lemma pool_ok_touch:
  assumes "pool_ok k s" and "entries s a = Some e" and "te_page e' = te_page e"
    and "test_flag e RECLAIMABLE \<Longrightarrow> test_flag e' RECLAIMABLE"
  shows "pool_ok k (s\<lparr>entries := (entries s)(a \<mapsto> e')\<rparr>)"
proof -
  have "reclaim_ok k (s\<lparr>entries := (entries s)(a \<mapsto> e')\<rparr>)"
    using assms by (intro reclaim_ok_entry) (auto simp: pool_ok_def reclaim_ok_def)
  then show ?thesis using assms(1-3) pages_ok_unmap [of s a e e'] by (simp add: pool_ok_def)
qed

lemma length_filter_upd:
  assumes "distinct xs"
  shows "length (filter P xs) \<le> Suc (length (filter (\<lambda>x. x \<noteq> a \<and> P x) xs))"
  using assms
proof (induction xs)
  case (Cons x xs)
  show ?case
  proof (cases "x = a")
    case True
    then have "filter (\<lambda>x. x \<noteq> a \<and> P x) xs = filter P xs" using Cons.prems by (intro filter_cong) auto
    then show ?thesis using True by simp
  qed (use Cons in simp)
qed simp

lemma avail_touch:
  assumes "pool_ok k s"
  shows "avail s \<le> Suc (avail (s\<lparr>entries := (entries s)(a \<mapsto> e')\<rparr>))"
proof -
  let ?P = "\<lambda>b. yields (the (entries s b))"
  have d: "distinct (reclaim_contents s)" using assms by (simp add: pool_ok_def reclaim_ok_def)
  have le: "length (filter (\<lambda>b. b \<noteq> a \<and> ?P b) xs) \<le>
      length (filter (\<lambda>b. yields (the (((entries s)(a \<mapsto> e')) b))) xs)" for xs
    by (induction xs) auto
  have "length (filter ?P (reclaim_contents s)) \<le>
      Suc (length (filter (\<lambda>b. yields (the (((entries s)(a \<mapsto> e')) b))) (reclaim_contents s)))"
    using length_filter_upd [OF d, of ?P a] le [of "reclaim_contents s"] by linarith
  then show ?thesis by (simp add: avail_def del: fun_upd_apply)
qed

lemma avail_install:
  assumes "entries s a = None \<or> (\<exists>e. entries s a = Some e \<and> te_page e = NULL)" and "reclaim_ok k s"
  shows "avail s \<le> avail (s\<lparr>entries := (entries s)(a \<mapsto> e')\<rparr>)"
proof -
  have "length (filter (\<lambda>b. yields (the (entries s b))) xs) \<le>
      length (filter (\<lambda>b. yields (the (((entries s)(a \<mapsto> e')) b))) xs)"
    if "set xs \<subseteq> set (reclaim_contents s)" for xs
    using that assms by (induction xs) (auto simp: yields_def reclaim_ok_def)
  from this [OF order_refl] show ?thesis by (simp add: avail_def del: fun_upd_apply)
qed

subsection \<open>Allocation seen from the page table\<close>

definition took :: "nat \<Rightarrow> 'a gpt_mem_scheme \<Rightarrow> ptr \<Rightarrow> 'a gpt_mem_scheme \<Rightarrow> bool" where
  "took k s p s' \<longleftrightarrow> pool_ok k s' \<and> held s' p \<and> Suc (avail s') = avail s \<and> tree_ok s' \<and>
     gpt_pages s' = gpt_pages s \<and> gpt_init_done s' = gpt_init_done s \<and> gpt_mem.more s' = gpt_mem.more s \<and> pages s' = pages s \<and>
     items s' = items s \<and> sending_list (pool s') = sending_list (pool s) \<and>
     init_done (pool s') = init_done (pool s) \<and>
     (\<forall>b e. entries s b = Some e \<longrightarrow> (\<exists>e'. entries s' b = Some e' \<and> kept e e')) \<and>
     (\<forall>b. entries s b = None \<longrightarrow> entries s' b = None) \<and>
     (\<forall>b. pinned s b \<longrightarrow> pinned s' b \<and> page_of s' b = page_of s b)"

lemma alloc_pages:
  assumes "gpt_ok k s" and "avail s > 0"
  shows "\<exists>p s'. valet_alloc s = Inr (p, s') \<and> took k s p s'"
proof -
  have pool: "pool_ok k s" and tree: "tree_ok s" using assms(1) by (auto simp: gpt_ok_def)
  obtain p s' where a: "valet_alloc s = Inr (p, s')" "pool_ok k s'" "held s' p" "alloc_frame s s'"
    "Suc (avail s') = avail s" using alloc_ok(1) [OF pool] assms(2) can_alloc_avail by blast
  obtain xs P where x: "reclaim_contents s = xs @ reclaim_contents s'"
    "sending_list P = sending_list (pool s)" "init_done P = init_done (pool s)"
    "s' = s\<lparr>pool := P, entries := (\<lambda>a. if a \<in> set xs then map_option reclaimed_entry (entries s a)
       else entries s a)\<rparr>" using a(4) unfolding alloc_frame_def by blast
  have en: "entries s' b = (if b \<in> set xs then map_option reclaimed_entry (entries s b) else entries s b)" for b
    by (simp add: x(4))
  have f: "gpt_pages s' = gpt_pages s" "gpt_init_done s' = gpt_init_done s" "gpt_mem.more s' = gpt_mem.more s" "pages s' = pages s"
    "items s' = items s" "sending_list (pool s') = sending_list (pool s)"
    "init_done (pool s') = init_done (pool s)" using x(2,3) by (simp_all add: x(4))
  have keep: "\<exists>e'. entries s' b = Some e' \<and> kept e e'" if "entries s b = Some e" for b e
    using that by (auto simp: en kept_reclaimed)
  have none: "entries s' b = None" if "entries s b = None" for b using that by (simp add: en)
  have pin: "pinned s' b \<and> page_of s' b = page_of s b" if b: "pinned s b" for b
  proof -
    from b obtain e where e: "entries s b = Some e" "te_page e \<noteq> NULL"
      "test_flag e UPDATING \<or> b \<notin> set (reclaim_contents s)" by (auto simp: pinned_def)
    have "entries s' b = Some e" using e x(1) by (auto simp: en reclaimed_entry_def)
    then show ?thesis using e x(1) by (auto simp: pinned_def page_of_def)
  qed
  have "tree_ok s'"
    using tree keep unfolding tree_ok_def f(1) by (metis not_None_eq)
  then have "took k s p s'" unfolding took_def using a(2,3,5) f keep none pin by blast
  then show ?thesis using a(1) by blast
qed

subsection \<open>Inserting a page\<close>

text \<open>What an insertion at \<open>index\<close> that ends in entry \<open>a\<close> guarantees.\<close>

definition inserted :: "nat \<Rightarrow> nat \<Rightarrow> 'a gpt_mem_scheme \<Rightarrow> ptr \<Rightarrow> 'a gpt_mem_scheme \<Rightarrow> bool" where
  "inserted k index s a s' \<longleftrightarrow> gpt_ok k s' \<and> gpt_pages s' = (gpt_pages s)(index \<mapsto> a) \<and> pinned s' a \<and>
     pages s' = pages s \<and> items s' = items s \<and> gpt_init_done s' = gpt_init_done s \<and> gpt_mem.more s' = gpt_mem.more s \<and>
     sending_list (pool s') = sending_list (pool s) \<and> init_done (pool s') = init_done (pool s) \<and>
     avail s \<le> Suc (avail s') \<and>
     (\<forall>b. pinned s b \<longrightarrow> pinned s' b \<and> page_of s' b = page_of s b) \<and>
     (\<forall>b e. b \<noteq> a \<longrightarrow> entries s b = Some e \<longrightarrow> (\<exists>e'. entries s' b = Some e' \<and> kept e e')) \<and>
     (\<forall>b. b \<noteq> a \<longrightarrow> entries s b = None \<longrightarrow> entries s' b = None)"

text \<open>The pool does not see the tree.\<close>

lemma tree_frame_simps [simp]:
  "free_list (s\<lparr>gpt_pages := g\<rparr>) = free_list s" "reclaim_contents (s\<lparr>gpt_pages := g\<rparr>) = reclaim_contents s"
  "is_page (s\<lparr>gpt_pages := g\<rparr>) p = is_page s p" "mapped (s\<lparr>gpt_pages := g\<rparr>) p = mapped s p"
  "pool_shape (s\<lparr>gpt_pages := g\<rparr>) = pool_shape s" "page_of (s\<lparr>gpt_pages := g\<rparr>) a = page_of s a"
  by (simp_all add: free_list_def reclaim_contents_def is_page_def mapped_def pool_shape_def page_of_def)

lemma tree_frame_simps2 [simp]:
  "pages_ok (s\<lparr>gpt_pages := g\<rparr>) = pages_ok s" "reclaim_ok k (s\<lparr>gpt_pages := g\<rparr>) = reclaim_ok k s"
  "avail (s\<lparr>gpt_pages := g\<rparr>) = avail s" "pinned (s\<lparr>gpt_pages := g\<rparr>) a = pinned s a"
  by (simp_all add: pages_ok_def reclaim_ok_def avail_def pinned_def)

lemma pool_ok_tree [simp]: "pool_ok k (s\<lparr>gpt_pages := g\<rparr>) = pool_ok k s"
  by (simp add: pool_ok_def)

lemma tree_ok_entry: "tree_ok s \<Longrightarrow> tree_ok (s\<lparr>entries := (entries s)(a \<mapsto> e)\<rparr>)"
  by (auto simp: tree_ok_def)

lemma pinned_other:
  "b \<noteq> a \<Longrightarrow> pinned (s\<lparr>entries := (entries s)(a \<mapsto> e)\<rparr>) b = pinned s b"
  "b \<noteq> a \<Longrightarrow> page_of (s\<lparr>entries := (entries s)(a \<mapsto> e)\<rparr>) b = page_of s b"
  by (simp_all add: pinned_def page_of_def)

lemma insert_new:
  assumes "gpt_ok k s" and "gpt_pages s index = None" and "avail s > 0"
    and "fst grant \<noteq> NULL" and "entries s (fst grant) = None"
  shows "\<exists>s'. gpt_insert_page grant True index s = Inr (fst grant, s') \<and> inserted k index s (fst grant) s'"
proof -
  let ?a = "fst grant"
  obtain p s1 where run1: "valet_alloc s = Inr (p, s1)" and t: "took k s p s1"
    using alloc_pages [OF assms(1,3)] by blast
  have a: "pool_ok k s1" "held s1 p" "Suc (avail s1) = avail s"
    "tree_ok s1" "gpt_pages s1 = gpt_pages s" "gpt_init_done s1 = gpt_init_done s" "pages s1 = pages s"
    "items s1 = items s" "sending_list (pool s1) = sending_list (pool s)" "init_done (pool s1) = init_done (pool s)"
    "\<And>b e. entries s b = Some e \<Longrightarrow> \<exists>e'. entries s1 b = Some e' \<and> kept e e'"
    "\<And>b. entries s b = None \<Longrightarrow> entries s1 b = None"
    "\<And>b. pinned s b \<Longrightarrow> pinned s1 b \<and> page_of s1 b = page_of s b"
    "gpt_mem.more s1 = gpt_mem.more s"
    using t unfolding took_def by blast+
  let ?e = "(snd grant)\<lparr>te_page := p, te_len := 4096, te_flags := 0, te_ref_count := 0\<rparr>"
  let ?s2 = "s1\<lparr>entries := (entries s1)(?a \<mapsto> ?e)\<rparr>"
  let ?s' = "?s2\<lparr>gpt_pages := (gpt_pages s)(index \<mapsto> ?a)\<rparr>"
  have p: "p \<noteq> NULL" using a(2) by (simp add: held_def is_page_def)
  have run: "gpt_insert_page grant True index s = Inr (?a, ?s')"
    using run1 a(5) p assms(2,4) by (simp add: gpt_insert_page_def gpt_alloc_entry_def update_entry_def)
  have none: "entries s1 ?a = None" using a(12) assms(5) by simp
  have nr: "?a \<notin> set (reclaim_contents s1)" using a(1) none by (force simp: pool_ok_def reclaim_ok_def)
  have "pool_ok k ?s2" by (rule pool_ok_install [OF a(1,2)]) (use none nr in simp_all)
  then have pool: "pool_ok k ?s'" by (simp only: pool_ok_tree)
  have "gpt_pages s i \<noteq> Some ?a" for i
    using a(4,5) none unfolding tree_ok_def by metis
  then have tree: "tree_ok ?s'" using a(4,5) assms(4) by (auto simp: tree_ok_def)
  have cong: "pinned ?s' b = pinned ?s2 b" "page_of ?s' b = page_of ?s2 b" "avail ?s' = avail ?s2" for b
    by (simp_all only: tree_frame_simps tree_frame_simps2)
  have pin: "pinned ?s' b \<and> page_of ?s' b = page_of s b" if "pinned s b" for b
  proof -
    have "b \<noteq> ?a" using that assms(5) by (auto simp: pinned_def)
    then show ?thesis using a(13) [OF that] unfolding cong by (simp add: pinned_other)
  qed
  have "avail s1 \<le> avail ?s2" using avail_install [of s1 ?a k ?e] none a(1) by (simp add: pool_ok_def)
  then have av: "avail s \<le> Suc (avail ?s')" unfolding cong using a(3) by simp
  have self: "pinned ?s' ?a" unfolding cong using p nr by (simp add: pinned_def)
  have kp: "\<exists>e'. entries ?s' b = Some e' \<and> kept e e'" if "b \<noteq> ?a" "entries s b = Some e" for b e
    using a(11) [OF that(2)] that(1) by auto
  have "inserted k index s ?a ?s'"
    unfolding inserted_def gpt_ok_def using pool tree self a(6-10,12,14) av pin kp by simp
  then show ?thesis using run by blast
qed

lemma insert_missing:
  assumes "gpt_ok k s" and "gpt_pages s index = Some a" and "avail s > 0"
    and "entries s a = Some e" and "te_page e = NULL"
  shows "\<exists>s'. gpt_insert_page grant pre index s = Inr (a, s') \<and> inserted k index s a s'"
proof -
  obtain p s1 where run1: "valet_alloc s = Inr (p, s1)" and t: "took k s p s1"
    using alloc_pages [OF assms(1,3)] by blast
  have al: "pool_ok k s1" "held s1 p" "Suc (avail s1) = avail s"
    "tree_ok s1" "gpt_pages s1 = gpt_pages s" "gpt_init_done s1 = gpt_init_done s" "pages s1 = pages s"
    "items s1 = items s" "sending_list (pool s1) = sending_list (pool s)" "init_done (pool s1) = init_done (pool s)"
    "\<And>b e. entries s b = Some e \<Longrightarrow> \<exists>e'. entries s1 b = Some e' \<and> kept e e'"
    "\<And>b. entries s b = None \<Longrightarrow> entries s1 b = None"
    "\<And>b. pinned s b \<Longrightarrow> pinned s1 b \<and> page_of s1 b = page_of s b"
    "gpt_mem.more s1 = gpt_mem.more s"
    using t unfolding took_def by blast+
  obtain e1 where e1: "entries s1 a = Some e1" "te_page e1 = NULL"
    using al(11) [OF assms(4)] assms(5) by (auto simp: kept_def)
  have p: "p \<noteq> NULL" using al(2) by (simp add: held_def is_page_def)
  have an: "a \<noteq> NULL" using assms(1,2) by (auto simp: gpt_ok_def tree_ok_def)
  let ?e = "set_flag UPDATING (e1\<lparr>te_page := p, te_ref_count := te_ref_count e1 + 1\<rparr>)"
  let ?s' = "s1\<lparr>entries := (entries s1)(a \<mapsto> ?e)\<rparr>"
  have run: "gpt_insert_page grant pre index s = Inr (a, ?s')"
    using run1 assms(2,4,5) e1 p by (simp add: gpt_insert_page_def update_entry_def)
  have rec: "test_flag e1 RECLAIMABLE" if "a \<in> set (reclaim_contents s1)"
    using al(1) e1 that by (auto simp: pool_ok_def reclaim_ok_def)
  have pool: "pool_ok k ?s'" by (rule pool_ok_install [OF al(1,2)]) (use e1 rec in simp_all)
  have pin: "pinned ?s' b \<and> page_of ?s' b = page_of s b" if "pinned s b" for b
  proof -
    have "b \<noteq> a" using that assms(4,5) by (auto simp: pinned_def)
    then show ?thesis using al(13) [OF that] by (simp add: pinned_other)
  qed
  have "avail s1 \<le> avail ?s'" using avail_install [of s1 a k ?e] e1 al(1) by (simp add: pool_ok_def)
  then have av: "avail s \<le> Suc (avail ?s')" using al(3) by simp
  have "inserted k index s a ?s'"
    unfolding inserted_def gpt_ok_def
    using pool tree_ok_entry [OF al(4)] al(5-10,12,14) assms(2) av pin p al(11)
    by (auto simp: pinned_def [of ?s' a] fun_upd_idem)
  then show ?thesis using run by blast
qed

lemma insert_present:
  assumes "gpt_ok k s" and "gpt_pages s index = Some a" and "entries s a = Some e" and "te_page e \<noteq> NULL"
  shows "\<exists>s'. gpt_insert_page grant pre index s = Inr (a, s') \<and> inserted k index s a s'"
proof -
  let ?e = "set_flag UPDATING (e\<lparr>te_ref_count := te_ref_count e + 1\<rparr>)"
  let ?s' = "s\<lparr>entries := (entries s)(a \<mapsto> ?e)\<rparr>"
  have run: "gpt_insert_page grant pre index s = Inr (a, ?s')"
    using assms(2-4) by (simp add: gpt_insert_page_def update_entry_def)
  have ok: "pool_ok k s" "tree_ok s" using assms(1) by (auto simp: gpt_ok_def)
  have pool: "pool_ok k ?s'" using pool_ok_touch [OF ok(1) assms(3), of ?e] by simp
  have pin: "pinned ?s' b \<and> page_of ?s' b = page_of s b" if "pinned s b" for b
    using that assms(3,4) by (cases "b = a") (auto simp: pinned_def page_of_def)
  have "inserted k index s a ?s'"
    unfolding inserted_def gpt_ok_def
    using pool tree_ok_entry [OF ok(2)] assms(2,4) pin avail_touch [OF ok(1)]
    by (auto simp: pinned_def [of ?s' a] fun_upd_idem)
  then show ?thesis using run by blast
qed

lemma insert_page_ok:
  assumes "gpt_ok k s" and "avail s > 0" and "fst grant \<noteq> NULL" and "entries s (fst grant) = None"
  shows "\<exists>a s'. gpt_insert_page grant True index s = Inr (a, s') \<and> inserted k index s a s' \<and>
    (a = fst grant \<or> gpt_pages s index = Some a)"
proof (cases "gpt_pages s index")
  case None
  then show ?thesis using insert_new [OF assms(1) None assms(2-4)] by blast
next
  case (Some a)
  then obtain e where "entries s a = Some e"
    using assms(1) unfolding gpt_ok_def tree_ok_def by (metis not_None_eq)
  then show ?thesis
    using insert_missing [OF assms(1) Some assms(2)] insert_present [OF assms(1) Some] Some by blast
qed

subsection \<open>The batch of a request\<close>

lemma items_frame [simp]:
  "avail (s\<lparr>items := I\<rparr>) = avail s" "pinned (s\<lparr>items := I\<rparr>) a = pinned s a"
  "page_of (s\<lparr>items := I\<rparr>) a = page_of s a"
  by (simp_all add: avail_def pinned_def page_of_def)

lemma gpt_ok_items [simp]: "gpt_ok k (s\<lparr>items := I\<rparr>) = gpt_ok k s"
  by (simp add: gpt_ok_def pool_ok_def tree_ok_def)

text \<open>What \<open>kmalloc\<close> promises for the entries of one batch: new, distinct addresses.\<close>

definition entry_grants_ok :: "(nat \<Rightarrow> ptr \<times> tree_entry) \<Rightarrow> nat set \<Rightarrow> 'a gpt_mem_scheme \<Rightarrow> bool" where
  "entry_grants_ok grants I s \<longleftrightarrow> inj_on (fst \<circ> grants) I \<and>
     (\<forall>j\<in>I. fst (grants j) \<noteq> NULL \<and> entries s (fst (grants j)) = None)"

text \<open>
  The state after the entries \<open>b ! i\<close>, \<dots>, \<open>b ! (i + n - 1)\<close> have been inserted.
\<close>

definition batch_done ::
  "nat \<Rightarrow> ptr \<Rightarrow> nat \<Rightarrow> nat \<Rightarrow> nat \<Rightarrow> 'a gpt_mem_scheme \<Rightarrow> local_page_list \<Rightarrow> 'a gpt_mem_scheme \<Rightarrow> ptr list \<Rightarrow> bool" where
  "batch_done k item start i n s it s' b \<longleftrightarrow> gpt_ok k s' \<and> items s' = (items s)(item \<mapsto> it\<lparr>batch_list := b\<rparr>) \<and>
     length b = length (batch_list it) \<and> (\<forall>j<i. b ! j = batch_list it ! j) \<and>
     (\<forall>j\<in>{i..<i + n}. gpt_pages s' (start + j) = Some (b ! j) \<and> pinned s' (b ! j)) \<and>
     (\<forall>x. x \<notin> {start + i..<start + i + n} \<longrightarrow> gpt_pages s' x = gpt_pages s x) \<and>
     pages s' = pages s \<and> gpt_init_done s' = gpt_init_done s \<and> gpt_mem.more s' = gpt_mem.more s \<and>
     sending_list (pool s') = sending_list (pool s) \<and> init_done (pool s') = init_done (pool s) \<and>
     (\<forall>c. pinned s c \<longrightarrow> pinned s' c \<and> page_of s' c = page_of s c) \<and>
     (\<forall>c e. entries s c = Some e \<longrightarrow> c \<notin> (\<lambda>j. b ! j) ` {i..<i + n} \<longrightarrow> (\<exists>e'. entries s' c = Some e' \<and> kept e e'))"

lemma batch_done_Suc:
  assumes "inserted k (start + i) s a s1" and "i < length (batch_list it)"
    and "batch_done k item start (Suc i) n (s1\<lparr>items := (items s1)(item \<mapsto> it\<lparr>batch_list := (batch_list it)[i := a]\<rparr>)\<rparr>)
      (it\<lparr>batch_list := (batch_list it)[i := a]\<rparr>) s' b"
  shows "batch_done k item start i (Suc n) s it s' b"
proof -
  have ins: "gpt_pages s1 = (gpt_pages s)(start + i \<mapsto> a)" "pinned s1 a" "pages s1 = pages s" "items s1 = items s"
    "gpt_init_done s1 = gpt_init_done s" "sending_list (pool s1) = sending_list (pool s)"
    "init_done (pool s1) = init_done (pool s)"
    "\<And>c. pinned s c \<Longrightarrow> pinned s1 c \<and> page_of s1 c = page_of s c"
    "\<And>c e. c \<noteq> a \<Longrightarrow> entries s c = Some e \<Longrightarrow> \<exists>e'. entries s1 c = Some e' \<and> kept e e'"
    "gpt_mem.more s1 = gpt_mem.more s"
    using assms(1) unfolding inserted_def by blast+
  note bd = assms(3) [unfolded batch_done_def, simplified]
  have bi: "b ! i = a" using bd assms(2) by simp
  have here: "gpt_pages s' (start + i) = Some a" using bd ins(1) by simp
  have pin: "pinned s' c \<and> page_of s' c = page_of s c" if "pinned s c" for c
    using bd ins(8) [OF that] by simp
  have kp: "\<exists>e'. entries s' c = Some e' \<and> kept e e'"
    if c: "entries s c = Some e" "c \<notin> (\<lambda>j. b ! j) ` {i..<i + Suc n}" for c e
  proof -
    have "c \<noteq> a" using c(2) bi by auto
    then obtain e1 where "entries s1 c = Some e1" "kept e e1" using ins(9) c(1) by blast
    moreover have "c \<notin> (\<lambda>j. b ! j) ` {Suc i..<Suc (i + n)}" using c(2) by auto
    ultimately show ?thesis using bd kept_trans by meson
  qed
  have rng: "j \<in> {i..<i + Suc n} \<longleftrightarrow> j = i \<or> j \<in> {Suc i..<Suc (i + n)}" for j by auto
  have "pinned s' a" using bd ins(2) by simp
  then have in_range: "gpt_pages s' (start + j) = Some (b ! j) \<and> pinned s' (b ! j)" if "j \<in> {i..<i + Suc n}" for j
    using that bd here bi unfolding rng by auto
  have out: "gpt_pages s' x = gpt_pages s x" if "x \<notin> {start + i..<start + i + Suc n}" for x
    using that bd ins(1) by auto
  show ?thesis
    unfolding batch_done_def using bd ins(3-7,10) pin kp in_range out assms(2) by (simp add: nth_list_update)
qed

lemma insert_batch_ok:
  assumes "gpt_ok k s" and "items s item = Some it" and "i + n \<le> length (batch_list it)" and "n \<le> avail s"
    and "entry_grants_ok grants {i..<i + n} s" and "\<And>j. j \<in> {i..<i + n} \<Longrightarrow> preload j"
  shows "\<exists>s' b. insert_batch n grants preload item start i s = Inr s' \<and> batch_done k item start i n s it s' b"
  using assms
proof (induction n arbitrary: i s it)
  case 0
  have "items s = (items s)(item \<mapsto> it\<lparr>batch_list := batch_list it\<rparr>)" using 0(2) by (simp add: fun_upd_idem)
  then have "batch_done k item start i 0 s it s (batch_list it)"
    using 0(1) unfolding batch_done_def by auto
  then show ?case by auto
next
  case (Suc n)
  have i: "i \<in> {i..<i + Suc n}" by simp
  have g: "fst (grants i) \<noteq> NULL" "entries s (fst (grants i)) = None"
    using Suc.prems(5) i unfolding entry_grants_ok_def by blast+
  have av: "avail s > 0" using Suc.prems(4) by simp
  obtain a s1 where ins: "gpt_insert_page (grants i) True (start + i) s = Inr (a, s1)"
    "inserted k (start + i) s a s1" "a = fst (grants i) \<or> gpt_pages s (start + i) = Some a"
    using insert_page_ok [OF Suc.prems(1) av g] by blast
  have pre: "preload i" using Suc.prems(6) i by blast
  let ?it = "it\<lparr>batch_list := (batch_list it)[i := a]\<rparr>"
  let ?s2 = "s1\<lparr>items := (items s1)(item \<mapsto> ?it)\<rparr>"
  have s1: "gpt_ok k s1" "items s1 = items s" "avail s \<le> Suc (avail s1)"
    "\<And>c. c \<noteq> a \<Longrightarrow> entries s c = None \<Longrightarrow> entries s1 c = None"
    using ins(2) unfolding inserted_def by blast+
  have fresh: "entries s1 (fst (grants j)) = None" if "j \<in> {Suc i..<Suc i + n}" for j
  proof (rule s1(4))
    have j: "j \<in> {i..<i + Suc n}" "j \<noteq> i" using that by auto
    then show none: "entries s (fst (grants j)) = None" using Suc.prems(5) unfolding entry_grants_ok_def by blast
    have "fst (grants j) \<noteq> fst (grants i)" using Suc.prems(5) j i unfolding entry_grants_ok_def inj_on_def by auto
    moreover have "entries s a \<noteq> None" if "gpt_pages s (start + i) = Some a"
      using Suc.prems(1) that unfolding gpt_ok_def tree_ok_def by blast
    ultimately show "fst (grants j) \<noteq> a" using ins(3) none by metis
  qed
  have "inj_on (fst \<circ> grants) {Suc i..<Suc i + n}"
    using Suc.prems(5) unfolding entry_grants_ok_def by (auto intro: inj_on_subset)
  then have "entry_grants_ok grants {Suc i..<Suc i + n} ?s2"
    using Suc.prems(5) fresh unfolding entry_grants_ok_def by auto
  moreover have "gpt_ok k ?s2" "items ?s2 item = Some ?it" using s1(1) by simp_all
  moreover have "n \<le> avail ?s2" using s1(3) Suc.prems(4) by simp
  moreover have "Suc i + n \<le> length (batch_list ?it)" using Suc.prems(3) by simp
  ultimately obtain s' b where r: "insert_batch n grants preload item start (Suc i) ?s2 = Inr s'"
    "batch_done k item start (Suc i) n ?s2 ?it s' b"
    using Suc.IH [of ?s2 ?it "Suc i"] Suc.prems(6) by force
  have "insert_batch (Suc n) grants preload item start i s = Inr s'"
    using ins(1) pre s1(2) Suc.prems(2,3) r(1) by simp
  moreover have "batch_done k item start i (Suc n) s it s' b"
    using Suc.prems(3) by (intro batch_done_Suc [OF ins(2) _ r(2)]) simp
  ultimately show ?case by blast
qed

text \<open>Copying one buffer into the page of one entry.\<close>

definition copied1 :: "page \<Rightarrow> ptr \<Rightarrow> tree_entry \<Rightarrow> 'a gpt_mem_scheme \<Rightarrow> 'a gpt_mem_scheme" where
  "copied1 buf c e s = s\<lparr>pages := (pages s)(te_page e \<mapsto> buf), entries := (entries s)(c \<mapsto> e\<lparr>te_len := 4096\<rparr>)\<rparr>"

lemma copied1_fields [simp]:
  "items (copied1 buf c e s) = items s" "pool (copied1 buf c e s) = pool s"
  "gpt_pages (copied1 buf c e s) = gpt_pages s" "gpt_init_done (copied1 buf c e s) = gpt_init_done s" "gpt_mem.more (copied1 buf c e s) = gpt_mem.more s"
  "pages (copied1 buf c e s) = (pages s)(te_page e \<mapsto> buf)"
  "entries (copied1 buf c e s) = (entries s)(c \<mapsto> e\<lparr>te_len := 4096\<rparr>)"
  by (simp_all add: copied1_def)

lemma copied1_ok:
  assumes "gpt_ok k s" and "entries s c = Some e" and "te_page e \<noteq> NULL" and "length buf = VALET_PAGE_SIZE"
  shows "gpt_ok k (copied1 buf c e s)"
proof -
  let ?s1 = "s\<lparr>pages := (pages s)(te_page e \<mapsto> buf)\<rparr>"
  have "mapped s (te_page e)" using assms(2,3) by (auto simp: mapped_def)
  then have "is_page s (te_page e)" using assms(1) by (auto simp: gpt_ok_def pool_ok_def pages_ok_def)
  then have "is_page ?s1 p = is_page s p" for p using assms(3,4) by (auto simp: is_page_def)
  then have "pages_ok ?s1" using assms(1) by (simp add: gpt_ok_def pool_ok_def pages_ok_def)
  then have "pool_ok k ?s1" using assms(1) by (simp add: gpt_ok_def pool_ok_def)
  then have "pool_ok k (?s1\<lparr>entries := (entries ?s1)(c \<mapsto> e\<lparr>te_len := 4096\<rparr>)\<rparr>)"
    by (rule pool_ok_touch) (use assms(2) in simp_all)
  then show ?thesis using assms(1) by (auto simp: gpt_ok_def copied1_def tree_ok_def)
qed

lemma pinned_page:
  assumes "gpt_ok k s" and "pinned s c"
  obtains e old where "entries s c = Some e" "te_page e \<noteq> NULL" "pages s (te_page e) = Some old"
    "length old = VALET_PAGE_SIZE"
proof -
  obtain e where e: "entries s c = Some e" "te_page e \<noteq> NULL" using assms(2) by (auto simp: pinned_def)
  then have "mapped s (te_page e)" by (auto simp: mapped_def)
  then have "is_page s (te_page e)" using assms(1) by (auto simp: gpt_ok_def pool_ok_def pages_ok_def)
  then show thesis using that e by (auto simp: is_page_def)
qed

definition copied ::
  "nat \<Rightarrow> page list \<Rightarrow> ptr list \<Rightarrow> nat \<Rightarrow> nat \<Rightarrow> 'a gpt_mem_scheme \<Rightarrow> 'a gpt_mem_scheme \<Rightarrow> bool" where
  "copied k bufs b i n s s' \<longleftrightarrow> gpt_ok k s' \<and> items s' = items s \<and> pool s' = pool s \<and>
     gpt_pages s' = gpt_pages s \<and> gpt_init_done s' = gpt_init_done s \<and> gpt_mem.more s' = gpt_mem.more s \<and>
     (\<forall>j\<in>{i..<i + n}. \<exists>e. entries s' (b ! j) = Some e \<and> te_len e = 4096 \<and> te_page e \<noteq> NULL \<and>
        pages s' (te_page e) = Some (bufs ! j)) \<and>
     (\<forall>c. map_option te_page (entries s' c) = map_option te_page (entries s c)) \<and>
     (\<forall>c. c \<notin> (\<lambda>j. b ! j) ` {i..<i + n} \<longrightarrow> entries s' c = entries s c) \<and>
     (\<forall>x. x \<notin> (\<lambda>j. page_of s (b ! j)) ` {i..<i + n} \<longrightarrow> pages s' x = pages s x)"

lemma same_page_same_entry:
  assumes "gpt_ok k s" and "pinned s c" and "entries s d = Some e" and "page_of s c = te_page e"
  shows "c = d"
  using assms unfolding gpt_ok_def pool_ok_def pages_ok_def pinned_def page_of_def by (metis option.sel)

lemma copy_batch_ok:
  assumes "gpt_ok k s" and "items s item = Some it" and "i + n \<le> length (batch_list it)"
    and "i + n \<le> length bufs" and "\<forall>x\<in>set bufs. length x = VALET_PAGE_SIZE"
    and "\<forall>j\<in>{i..<i + n}. pinned s (batch_list it ! j)" and "inj_on (\<lambda>j. batch_list it ! j) {i..<i + n}"
  shows "\<exists>s'. copy_batch n bufs item i s = Inr s' \<and> copied k bufs (batch_list it) i n s s'"
  using assms
proof (induction n arbitrary: i s)
  case 0
  then show ?case by (simp add: copied_def)
next
  case (Suc n)
  let ?b = "batch_list it"
  let ?c = "?b ! i"
  have i: "i \<in> {i..<i + Suc n}" by simp
  have later: "j \<in> {i..<i + Suc n}" "j \<noteq> i" if "j \<in> {Suc i..<Suc i + n}" for j using that by auto
  have "pinned s ?c" using Suc.prems(6) i by blast
  then obtain e old where e: "entries s ?c = Some e" "te_page e \<noteq> NULL" "pages s (te_page e) = Some old"
    "length old = VALET_PAGE_SIZE" by (rule pinned_page [OF Suc.prems(1)])
  have buf: "length (bufs ! i) = VALET_PAGE_SIZE" using Suc.prems(4,5) by simp
  let ?s1 = "copied1 (bufs ! i) ?c e s"
  have ok1: "gpt_ok k ?s1" by (rule copied1_ok [OF Suc.prems(1) e(1,2) buf])
  have pg: "page_of ?s1 d = page_of s d" for d using e(1) by (simp add: page_of_def)
  have pin: "pinned ?s1 d" if "pinned s d" for d
    using that e by (auto simp: pinned_def reclaim_contents_def)
  have "inj_on (\<lambda>j. ?b ! j) {Suc i..<Suc i + n}" using Suc.prems(7) by (rule inj_on_subset) auto
  moreover have "\<forall>j\<in>{Suc i..<Suc i + n}. pinned ?s1 (?b ! j)" using Suc.prems(6) later pin by blast
  ultimately obtain s' where r: "copy_batch n bufs item (Suc i) ?s1 = Inr s'" "copied k bufs ?b (Suc i) n ?s1 s'"
    using Suc.IH [of ?s1 "Suc i"] ok1 Suc.prems(2-5) by auto
  have run: "copy_batch (Suc n) bufs item i s = Inr s'"
    using Suc.prems(2-4) e buf r(1) by (simp add: copied1_def)
  note cp = r(2) [unfolded copied_def]
  have apart: "te_page e \<notin> (\<lambda>j. page_of ?s1 (?b ! j)) ` {Suc i..<Suc i + n}"
  proof
    assume "te_page e \<in> (\<lambda>j. page_of ?s1 (?b ! j)) ` {Suc i..<Suc i + n}"
    then obtain j where j: "j \<in> {Suc i..<Suc i + n}" "page_of s (?b ! j) = te_page e" unfolding pg by auto
    then have "?b ! j = ?c"
      using same_page_same_entry [OF Suc.prems(1) _ e(1)] Suc.prems(6) later by blast
    then show False using Suc.prems(7) later [OF j(1)] i unfolding inj_on_def by blast
  qed
  have notc: "?c \<notin> (\<lambda>j. ?b ! j) ` {Suc i..<Suc i + n}"
    using Suc.prems(7) later i unfolding inj_on_def by (metis imageE)
  have mine: "entries s' ?c = Some (e\<lparr>te_len := 4096\<rparr>)" "pages s' (te_page e) = Some (bufs ! i)"
    using cp notc apart by simp_all
  have rng: "j \<in> {i..<i + Suc n} \<longleftrightarrow> j = i \<or> j \<in> {Suc i..<Suc i + n}" for j by auto
  have fin: "\<exists>f. entries s' (?b ! j) = Some f \<and> te_len f = 4096 \<and> te_page f \<noteq> NULL \<and>
      pages s' (te_page f) = Some (bufs ! j)" if "j \<in> {i..<i + Suc n}" for j
    using that mine e(2) cp unfolding rng by auto
  have pages': "pages s' x = pages s x" if "x \<notin> (\<lambda>j. page_of s (?b ! j)) ` {i..<i + Suc n}" for x
  proof -
    have "x \<noteq> te_page e" using that i e(1) by (force simp: page_of_def)
    moreover have "x \<notin> (\<lambda>j. page_of ?s1 (?b ! j)) ` {Suc i..<Suc i + n}" using that later(1) unfolding pg by blast
    ultimately show ?thesis using cp by simp
  qed
  have ents: "entries s' c = entries s c" if "c \<notin> (\<lambda>j. ?b ! j) ` {i..<i + Suc n}" for c
  proof -
    have "c \<noteq> ?c" using that i by blast
    moreover have "c \<notin> (\<lambda>j. ?b ! j) ` {Suc i..<Suc i + n}" using that later(1) by blast
    ultimately show ?thesis using cp by simp
  qed
  have same: "map_option te_page (entries s' c) = map_option te_page (entries s c)" for c
    using cp e(1) by auto
  have "copied k bufs ?b i (Suc n) s s'"
    unfolding copied_def using cp fin pages' ents same by simp
  then show ?case using run by blast
qed

subsection \<open>A whole write\<close>

lemma gpt_ok_sending [simp]: "gpt_ok k (s\<lparr>pool := (pool s)\<lparr>sending_list := q\<rparr>\<rparr>) = gpt_ok k s"
  by (simp add: gpt_ok_def pool_ok_def tree_ok_def reclaim_ok_pool)

lemma put_sending_ok:
  assumes "sending_list (pool s) = Some q" and "alf_win j q" and "alf_used q < 2 ^ j"
  shows "\<exists>q'. put_sending_index item s = Inr (0, s\<lparr>pool := (pool s)\<lparr>sending_list := Some q'\<rparr>\<rparr>) \<and>
    alf_win j q' \<and> alf_contents q' = alf_contents q @ [item]"
  using win_put_index [OF assms(2,3), of item] assms(1) by (auto simp: put_sending_index_def)

text \<open>
  What the environment has to provide for a write: an initialised table, memory for the item
  and the entries, enough pages to allocate, buffers of a page each and room on the
  sending list, whose window is \<open>2 ^ j\<close>.
\<close>

definition write_ready ::
  "nat \<Rightarrow> nat \<Rightarrow> ptr \<times> local_page_list \<Rightarrow> (nat \<Rightarrow> ptr \<times> tree_entry) \<Rightarrow> nat \<Rightarrow> page list \<Rightarrow> 'a gpt_mem_scheme \<Rightarrow> bool" where
  "write_ready k j grant grants n bufs s \<longleftrightarrow> gpt_ok k s \<and> gpt_init_done s \<noteq> 0 \<and> fst grant \<noteq> NULL \<and>
     length (batch_list (snd grant)) = RDMA_WR_BUF_LEN \<and> n \<le> RDMA_WR_BUF_LEN \<and> n \<le> avail s \<and>
     entry_grants_ok grants {0..<n} s \<and> n \<le> length bufs \<and> (\<forall>x\<in>set bufs. length x = VALET_PAGE_SIZE) \<and>
     (\<exists>q. sending_list (pool s) = Some q \<and> alf_win j q \<and> alf_used q < 2 ^ j)"

lemma write_ok:
  fixes pos :: nat
  assumes "write_ready k j grant grants n bufs s" and "\<forall>i<n. preload i"
  defines "start \<equiv> pos div 8"
  defines "item \<equiv> fst grant"
  shows "\<exists>s0 s1 s2 b q q'. write_to_brd grant grants preload pos n bufs s =
      Inr (0, s2\<lparr>pool := (pool s2)\<lparr>sending_list := Some q'\<rparr>\<rparr>) \<and>
    s0 = s\<lparr>items := (items s)(item \<mapsto> (snd grant)\<lparr>li_start_index := start, li_len := n\<rparr>)\<rparr> \<and>
    batch_done k item start 0 n s0 ((snd grant)\<lparr>li_start_index := start, li_len := n\<rparr>) s1 b \<and>
    copied k bufs b 0 n s1 s2 \<and> sending_list (pool s) = Some q \<and> alf_win j q' \<and>
    alf_contents q' = alf_contents q @ [item]"
proof -
  have w: "gpt_ok k s" "gpt_init_done s \<noteq> 0" "item \<noteq> NULL" "length (batch_list (snd grant)) = RDMA_WR_BUF_LEN"
    "n \<le> RDMA_WR_BUF_LEN" "n \<le> avail s" "entry_grants_ok grants {0..<n} s" "n \<le> length bufs"
    "\<forall>x\<in>set bufs. length x = VALET_PAGE_SIZE"
    using assms(1) unfolding write_ready_def item_def by blast+
  obtain q where q: "sending_list (pool s) = Some q" "alf_win j q" "alf_used q < 2 ^ j"
    using assms(1) unfolding write_ready_def by blast
  let ?it = "(snd grant)\<lparr>li_start_index := start, li_len := n\<rparr>"
  let ?s0 = "s\<lparr>items := (items s)(item \<mapsto> ?it)\<rparr>"
  have "\<exists>s1 b. insert_batch n grants preload item start 0 ?s0 = Inr s1 \<and> batch_done k item start 0 n ?s0 ?it s1 b"
    using w assms(2) by (intro insert_batch_ok) (simp_all add: entry_grants_ok_def)
  then obtain s1 b where s1: "insert_batch n grants preload item start 0 ?s0 = Inr s1"
    "batch_done k item start 0 n ?s0 ?it s1 b" by blast
  note bd = s1(2) [unfolded batch_done_def]
  have it1: "items s1 item = Some (?it\<lparr>batch_list := b\<rparr>)" using bd by simp
  have "inj_on (\<lambda>j. b ! j) {0..<0 + n}"
  proof (rule inj_onI)
    fix x y assume "x \<in> {0..<0 + n}" "y \<in> {0..<0 + n}" "b ! x = b ! y"
    then have "gpt_pages s1 (start + x) = Some (b ! x)" "gpt_pages s1 (start + y) = Some (b ! x)" using bd by auto
    then show "x = y" using bd unfolding gpt_ok_def tree_ok_def by (metis add_left_cancel)
  qed
  then have "\<exists>s2. copy_batch n bufs item 0 s1 = Inr s2 \<and> copied k bufs (batch_list (?it\<lparr>batch_list := b\<rparr>)) 0 n s1 s2"
    using bd w(4,5,8,9) by (intro copy_batch_ok [OF _ it1]) auto
  then obtain s2 where s2: "copy_batch n bufs item 0 s1 = Inr s2" "copied k bufs b 0 n s1 s2" by auto
  have "sending_list (pool s2) = Some q" using s2(2) bd q(1) by (simp add: copied_def)
  from put_sending_ok [OF this q(2,3), of item] obtain q' where
    q': "put_sending_index item s2 = Inr (0, s2\<lparr>pool := (pool s2)\<lparr>sending_list := Some q'\<rparr>\<rparr>)"
      "alf_win j q'" "alf_contents q' = alf_contents q @ [item]" by blast
  have "write_to_brd grant grants preload pos n bufs s =
      Inr (0, s2\<lparr>pool := (pool s2)\<lparr>sending_list := Some q'\<rparr>\<rparr>)"
    using w(2,3) s1(1) s2(1) q'(1) unfolding item_def start_def
    by (simp add: write_to_brd_def get_free_item_def Let_def)
  then show ?thesis using s1(2) s2(2) q q' by blast
qed

lemma read_local:
  assumes "gpt_init_done s \<noteq> 0" and "gpt_pages s x = Some a" and "entries s a = Some e" and "te_len e = 4096"
    and "te_page e \<noteq> NULL" and "pages s (te_page e) = Some d" and "length d = VALET_PAGE_SIZE"
    and "length buffer = VALET_PAGE_SIZE" and "pos div 8 = x"
  shows "read_from_brd pos buffer s = Inr (Local d)"
  using assms by (simp add: read_from_brd_def Let_def)

lemma read_sending [simp]:
  "read_from_brd pos buffer (s\<lparr>pool := P\<rparr>) = read_from_brd pos buffer s"
  by (simp add: read_from_brd_def Let_def split: option.split cong: if_cong)

text \<open>
  C1. Read your write: a write request of up to 128 pages for which there is memory is ended with
  0; afterwards the table is sound, the item with its entries is the newest on the sending
  list, and a read of any of its pages is answered locally with the bytes written.
\<close>

theorem write_then_read:
  assumes "write_ready k j grant grants n bufs s" and "\<forall>i<n. preload i"
  shows "\<exists>s' q q'. write_to_brd grant grants preload pos n bufs s = Inr (0, s') \<and> gpt_ok k s' \<and>
    sending_list (pool s) = Some q \<and> sending_list (pool s') = Some q' \<and> alf_win j q' \<and>
    alf_contents q' = alf_contents q @ [fst grant] \<and>
    (\<exists>it. items s' (fst grant) = Some it \<and> li_start_index it = pos div 8 \<and> li_len it = n \<and>
      (\<forall>i<n. gpt_pages s' (pos div 8 + i) = Some (batch_list it ! i))) \<and>
    (\<forall>i<n. \<forall>buffer. length buffer = VALET_PAGE_SIZE \<longrightarrow>
      read_from_brd (8 * (pos div 8 + i)) buffer s' = Inr (Local (bufs ! i)))"
proof -
  obtain s0 s1 s2 b q q' where w: "write_to_brd grant grants preload pos n bufs s =
      Inr (0, s2\<lparr>pool := (pool s2)\<lparr>sending_list := Some q'\<rparr>\<rparr>)"
    "s0 = s\<lparr>items := (items s)(fst grant \<mapsto> (snd grant)\<lparr>li_start_index := pos div 8, li_len := n\<rparr>)\<rparr>"
    "batch_done k (fst grant) (pos div 8) 0 n s0 ((snd grant)\<lparr>li_start_index := pos div 8, li_len := n\<rparr>) s1 b"
    "copied k bufs b 0 n s1 s2" "sending_list (pool s) = Some q" "alf_win j q'"
    "alf_contents q' = alf_contents q @ [fst grant]"
    using write_ok [OF assms, where pos = pos] by auto
  note bd = w(3) [unfolded batch_done_def] and cp = w(4) [unfolded copied_def]
  have bufs: "length (bufs ! i) = VALET_PAGE_SIZE" if "i < n" for i
    using assms(1) that unfolding write_ready_def by auto
  have init: "gpt_init_done s2 \<noteq> 0" using assms(1) cp bd w(2) by (simp add: write_ready_def)
  have tree: "gpt_pages s2 (pos div 8 + i) = Some (b ! i)" if "i < n" for i using that bd cp by simp
  have "read_from_brd (8 * (pos div 8 + i)) buffer s2 = Inr (Local (bufs ! i))"
    if i: "i < n" "length buffer = VALET_PAGE_SIZE" for i buffer
  proof -
    obtain e where "entries s2 (b ! i) = Some e" "te_len e = 4096" "te_page e \<noteq> NULL"
      "pages s2 (te_page e) = Some (bufs ! i)" using cp i(1) by force
    then show ?thesis using read_local [OF init tree [OF i(1)]] bufs i by simp
  qed
  moreover have "items s2 (fst grant) =
      Some ((snd grant)\<lparr>li_start_index := pos div 8, li_len := n, batch_list := b\<rparr>)"
    using bd cp by simp
  moreover have "gpt_ok k s2" using cp by blast
  ultimately show ?thesis using w(1,5,6,7) tree by auto
qed

lemma read_kept:
  assumes "gpt_pages s x = Some a" and "gpt_pages s' x = Some a" and "gpt_init_done s \<noteq> 0" and "gpt_init_done s' = gpt_init_done s"
    and "entries s a = Some e" and "entries s' a = Some e'" and "kept e e'"
    and "te_page e' \<noteq> NULL \<Longrightarrow> pages s' (te_page e) = pages s (te_page e)"
  shows "read_from_brd (8 * x) buffer s' = read_from_brd (8 * x) buffer s \<or> read_from_brd (8 * x) buffer s' = Inr (Remote x)"
proof (cases "te_page e' = NULL")
  case True
  then show ?thesis using assms(2-4,6) by (simp add: read_from_brd_def Let_def)
next
  case False
  then have pg: "te_page e' = te_page e" "te_len e' = te_len e" using assms(7) by (auto simp: kept_def)
  then have "deref (pages s') (te_page e') = deref (pages s) (te_page e)" using assms(8) False by (simp add: deref_def)
  then show ?thesis using assms(1-6) pg by (simp add: read_from_brd_def Let_def)
qed

text \<open>
  C2. No foreign data: after such a write, a read of any index outside the request gives what it
  gave before, or finds that the page has been reclaimed and goes to the remote side. It
  never returns other bytes.
\<close>

theorem write_spares_others:
  assumes "write_ready k j grant grants n bufs s" and "\<forall>i<n. preload i"
    and "x \<notin> {pos div 8..<pos div 8 + n}"
  shows "\<exists>s'. write_to_brd grant grants preload pos n bufs s = Inr (0, s') \<and>
    (read_from_brd (8 * x) buffer s' = read_from_brd (8 * x) buffer s \<or>
     read_from_brd (8 * x) buffer s' = Inr (Remote x))"
proof -
  obtain s0 s1 s2 b and q' :: alf_queue where w: "write_to_brd grant grants preload pos n bufs s =
      Inr (0, s2\<lparr>pool := (pool s2)\<lparr>sending_list := Some q'\<rparr>\<rparr>)"
    "s0 = s\<lparr>items := (items s)(fst grant \<mapsto> (snd grant)\<lparr>li_start_index := pos div 8, li_len := n\<rparr>)\<rparr>"
    "batch_done k (fst grant) (pos div 8) 0 n s0 ((snd grant)\<lparr>li_start_index := pos div 8, li_len := n\<rparr>) s1 b"
    "copied k bufs b 0 n s1 s2"
    using write_ok [OF assms(1,2), where pos = pos] by auto
  note bd = w(3) [unfolded batch_done_def] and cp = w(4) [unfolded copied_def]
  have same: "gpt_init_done s2 = gpt_init_done s" "gpt_pages s2 x = gpt_pages s x" "pages s1 = pages s"
    using bd cp assms(3) by (auto simp: w(2))
  have "read_from_brd (8 * x) buffer s2 = read_from_brd (8 * x) buffer s \<or>
      read_from_brd (8 * x) buffer s2 = Inr (Remote x)"
  proof (cases "gpt_pages s x")
    case None
    then show ?thesis using same by (simp add: read_from_brd_def)
  next
    case (Some a)
    have ok: "gpt_ok k s" "gpt_init_done s \<noteq> 0" using assms(1) by (auto simp: write_ready_def)
    obtain e where e: "entries s a = Some e" using ok(1) Some unfolding gpt_ok_def tree_ok_def by (metis not_None_eq)
    have nb: "a \<noteq> b ! i" if "i < n" for i
    proof
      assume "a = b ! i"
      then have "gpt_pages s1 (pos div 8 + i) = Some a" "gpt_pages s1 x = Some a"
        using bd that assms(3) Some by (auto simp: w(2))
      then have "x = pos div 8 + i" using bd unfolding gpt_ok_def tree_ok_def by metis
      then show False using assms(3) that by simp
    qed
    then have out: "a \<notin> (\<lambda>j. b ! j) ` {0..<0 + n}" by (auto simp: image_iff)
    have "entries s0 a = Some e" using e by (simp add: w(2))
    then obtain e' where e': "entries s1 a = Some e'" "kept e e'" using bd out by meson
    moreover have "entries s2 a = entries s1 a" using cp out by blast
    ultimately have e2: "entries s2 a = Some e'" by simp
    have "pages s2 (te_page e) = pages s (te_page e)" if np: "te_page e' \<noteq> NULL"
    proof -
      have pg: "te_page e' = te_page e" using np e'(2) by (auto simp: kept_def)
      have "te_page e' \<noteq> page_of s1 (b ! i)" if "i < n" for i
        using same_page_same_entry [of k s1 "b ! i" a e'] bd that e'(1) nb [OF that] np by auto
      then have "te_page e' \<notin> (\<lambda>j. page_of s1 (b ! j)) ` {0..<0 + n}" by (auto simp: image_iff)
      then show ?thesis using cp pg same(3) by simp
    qed
    then show ?thesis using read_kept [OF Some _ ok(2) same(1) e e2 e'(2)] same(2) Some by simp
  qed
  then show ?thesis using w(1) by auto
qed

text \<open>
  Before the table is initialised neither path touches anything: a write returns 1 and leaves
  the state alone, a read reports that the table is not ready.
\<close>

theorem brd_not_ready:
  assumes "gpt_init_done s = 0"
  shows "write_to_brd grant grants preload pos n bufs s = Inr (1, s) \<and>
    read_from_brd pos buffer s = Inr Not_Ready"
  using assms by (simp add: write_to_brd_def read_from_brd_def)

subsection \<open>A concrete table\<close>

definition sample_gpt :: gpt_mem where
  "sample_gpt = \<lparr>pool = sample_pool, entries = entries sample_mem, items = Map.empty,
     pages = pages sample_mem, gpt_pages = [50 \<mapsto> 7, 51 \<mapsto> 8], gpt_init_done = 1\<rparr>"

definition sample_item :: "ptr \<times> local_page_list" where
  "sample_item = (900, \<lparr>li_ref_count = 0, li_start_index = 0, li_len = 0, batch_list = replicate 128 0\<rparr>)"

definition sample_entries :: "nat \<Rightarrow> ptr \<times> tree_entry" where
  "sample_entries i = (500 + i, \<lparr>te_index = 0, te_page = 0, te_len = 0, te_flags = 0, te_ref_count = 0\<rparr>)"

definition sample_bufs :: "page list" where
  "sample_bufs = [replicate 4096 1, replicate 4096 2]"

lemma sample_gpt_base: "pool_ok k sample_gpt = pool_ok k sample_mem" "avail sample_gpt = avail sample_mem"
proof -
  have "pool sample_gpt = pool sample_mem" "entries sample_gpt = entries sample_mem" "pages sample_gpt = pages sample_mem"
    by (simp_all add: sample_gpt_def sample_mem_def)
  then show "pool_ok k sample_gpt = pool_ok k sample_mem" "avail sample_gpt = avail sample_mem"
    by (simp_all add: pool_ok_def pool_shape_def pages_ok_def reclaim_ok_def reclaim_contents_def free_list_def
        is_page_def mapped_def avail_def)
qed

lemma sample_avail: "avail sample_mem = 2"
  unfolding avail_def sample_mem_lists by (simp add: sample_mem_def yields_def test_flag_def)

lemma sample_write_ready: "write_ready 2 2 sample_item sample_entries 2 sample_bufs sample_gpt"
proof -
  have "tree_ok sample_gpt" by (auto simp: tree_ok_def sample_gpt_def sample_mem_def split: if_splits)
  then have "gpt_ok 2 sample_gpt" by (simp add: gpt_ok_def sample_gpt_base sample_mem_ok)
  moreover have "entry_grants_ok sample_entries {0..<2} sample_gpt"
    by (auto simp: entry_grants_ok_def sample_entries_def sample_gpt_def sample_mem_def inj_on_def)
  moreover have "sending_list (pool sample_gpt) = Some sample_reclaim" "alf_used sample_reclaim < 2 ^ 2"
    by (simp_all add: sample_gpt_def sample_pool_def sample_reclaim_def alf_used_def)
  ultimately show ?thesis
    using sample_reclaim_ok(1) sample_avail
    by (auto simp: write_ready_def sample_gpt_base sample_item_def sample_bufs_def) (simp add: sample_gpt_def)
qed

theorem write_then_read_witness:
  "\<exists>s'. write_to_brd sample_item sample_entries (\<lambda>_. True) 408 2 sample_bufs sample_gpt = Inr (0, s') \<and>
     read_from_brd (8 * (408 div 8 + 1)) (replicate 4096 0) s' = Inr (Local (sample_bufs ! 1))"
proof -
  obtain s' where "write_to_brd sample_item sample_entries (\<lambda>_. True) 408 2 sample_bufs sample_gpt = Inr (0, s')"
    "\<forall>i<2. \<forall>buffer. length buffer = VALET_PAGE_SIZE \<longrightarrow>
      read_from_brd (8 * (408 div 8 + i)) buffer s' = Inr (Local (sample_bufs ! i))"
    using write_then_read [OF sample_write_ready, of "\<lambda>_. True" 408] by auto
  then show ?thesis by (metis length_replicate one_less_numeral_iff semiring_norm(76))
qed

theorem write_spares_others_witness:
  "\<exists>s'. write_to_brd sample_item sample_entries (\<lambda>_. True) 408 2 sample_bufs sample_gpt = Inr (0, s') \<and>
     (read_from_brd (8 * 50) (replicate 4096 0) s' = read_from_brd (8 * 50) (replicate 4096 0) sample_gpt \<or>
      read_from_brd (8 * 50) (replicate 4096 0) s' = Inr (Remote 50))"
  by (rule write_spares_others [OF sample_write_ready]) simp_all

theorem brd_not_ready_witness:
  "write_to_brd sample_item sample_entries (\<lambda>_. True) 408 2 sample_bufs (sample_gpt\<lparr>gpt_init_done := 0\<rparr>) =
     Inr (1, sample_gpt\<lparr>gpt_init_done := 0\<rparr>)"
  using brd_not_ready [of "sample_gpt\<lparr>gpt_init_done := 0\<rparr>"] by simp

end
