(* ===== verification/Teardown.thy ===== *)
theory Teardown
  imports Gpt_Properties
begin

text \<open>
  Taking pool and page table down (\<open>valet_mempool_destroy\<close> of valet_mempool.c, \<open>gpt_free_pages\<close> and \<open>gpt_destroy\<close> of gpt.c). The structures themselves are
  static variables; giving them up has no effect here.

  \<open>gang\<close> is the kernel's \<open>radix_tree_gang_lookup\<close> for sixteen entries and \<open>index\<close> the field \<open>index\<close> of a page, which belongs to the
  kernel and which the module never sets.
\<close>

definition valet_mempool_destroy :: "'a valet_mem_scheme \<Rightarrow> 'a valet_mem_scheme outcome" where
  "valet_mempool_destroy s =
     (if curr_nr (pool s) \<noteq> cap_nr (pool s) then Inl Panic else bind_ok (valet_free_pool s) valet_free_pool)"

abbreviation (input) FREE_BATCH :: nat where "FREE_BATCH \<equiv> 16"

primrec free_batch :: "(ptr \<Rightarrow> nat) \<Rightarrow> ptr list \<Rightarrow> nat \<Rightarrow> 'a gpt_mem_scheme \<Rightarrow> (nat \<times> 'a gpt_mem_scheme) outcome" where
  "free_batch index [] pos s = Inr (pos, s)"
| "free_batch index (a # as) pos s =
     bind_ok (deref (entries s) a) (\<lambda>e. bind_ok (deref (pages s) (te_page e)) (\<lambda>_.
       let i = index (te_page e) in
       if i < pos then Inl Panic
       else if gpt_pages s i \<noteq> Some a then Inl Panic
       else bind_ok (free_page (te_page e) (s\<lparr>gpt_pages := (gpt_pages s)(i := None)\<rparr>)) (\<lambda>s.
              free_batch index as i (s\<lparr>entries := (entries s)(a := None)\<rparr>))))"

primrec gpt_free_pages ::
  "nat \<Rightarrow> ((nat \<rightharpoonup> ptr) \<Rightarrow> nat \<Rightarrow> ptr list) \<Rightarrow> (ptr \<Rightarrow> nat) \<Rightarrow> nat \<Rightarrow> 'a gpt_mem_scheme \<Rightarrow> 'a gpt_mem_scheme outcome" where
  "gpt_free_pages 0 gang index pos s = Inl Hang"
| "gpt_free_pages (Suc k) gang index pos s =
     (let es = gang (gpt_pages s) pos in
      bind_ok (free_batch index es pos s) (\<lambda>(pos, s).
        if length es = FREE_BATCH then gpt_free_pages k gang index (pos + 1) s else Inr s))"

definition gpt_destroy ::
  "nat \<Rightarrow> ((nat \<rightharpoonup> ptr) \<Rightarrow> nat \<Rightarrow> ptr list) \<Rightarrow> (ptr \<Rightarrow> nat) \<Rightarrow> 'a gpt_mem_scheme \<Rightarrow> 'a gpt_mem_scheme outcome" where
  "gpt_destroy fuel gang index s = gpt_free_pages fuel gang index 0 s"

subsection \<open>The pool\<close>

lemma free_pool_all:
  assumes "core_ok s"
  shows "\<exists>s'. valet_free_pool s = Inr s' \<and> curr_nr (pool s') = 0 \<and> pages s' = pages s |` (- set (free_list s)) \<and> entries s' = entries s"
proof -
  have "nat (curr_nr (pool s)) < Suc (nat (curr_nr (pool s)))" by simp
  from free_pool_loop_ok [OF assms this] obtain s1
    where s1: "free_pool_loop (Suc (nat (curr_nr (pool s)))) s = Inr s1" "core_ok s1" "shrunk_to 0 s s1" by blast
  then show ?thesis by (auto simp: shrunk_to_def valet_free_pool_def)
qed

text \<open>A pool whose pages have all come back is taken down: its pages are given back to the system, and no other.\<close>

lemma pool_destroyed:
  assumes "core_ok s" and "curr_nr (pool s) = cap_nr (pool s)"
  shows "\<exists>s'. valet_mempool_destroy s = Inr s' \<and> curr_nr (pool s') = 0 \<and> elements (pool s') = [] \<and> pages s' = pages s |` (- set (free_list s)) \<and>
    entries s' = entries s"
proof -
  obtain s1 where s1: "valet_free_pool s = Inr s1" "curr_nr (pool s1) = 0" "pages s1 = pages s |` (- set (free_list s))" "entries s1 = entries s"
    using free_pool_all [OF assms(1)] by blast
  then show ?thesis using assms(2) by (simp add: valet_mempool_destroy_def valet_free_pool_def [of s1])
qed

subsection \<open>The page table\<close>

definition gang_ok :: "((nat \<rightharpoonup> ptr) \<Rightarrow> nat \<Rightarrow> ptr list) \<Rightarrow> bool" where
  "gang_ok gang \<longleftrightarrow> (\<forall>T pos. finite (dom T) \<longrightarrow> gang T pos = map (\<lambda>i. the (T i)) (take FREE_BATCH (sorted_list_of_set {i \<in> dom T. pos \<le> i})))"

text \<open>Every page knows the index it is entered under.\<close>

definition indexed :: "(ptr \<Rightarrow> nat) \<Rightarrow> 'a gpt_mem_scheme \<Rightarrow> bool" where
  "indexed index s \<longleftrightarrow> (\<forall>i a. gpt_pages s i = Some a \<longrightarrow> (\<exists>e. entries s a = Some e \<and> pages s (te_page e) \<noteq> None \<and> index (te_page e) = i))"

definition entries_at :: "nat set \<Rightarrow> 'a gpt_mem_scheme \<Rightarrow> ptr set" where
  "entries_at K s = {a. \<exists>i\<in>K. gpt_pages s i = Some a}"

definition freed_at :: "nat set \<Rightarrow> 'a gpt_mem_scheme \<Rightarrow> 'a gpt_mem_scheme" where
  "freed_at K s = s\<lparr>gpt_pages := gpt_pages s |` (- K), pages := pages s |` (- page_of s ` entries_at K s),
     entries := entries s |` (- entries_at K s)\<rparr>"

lemma freed_nothing: "freed_at {} s = s"
  by (simp add: freed_at_def entries_at_def restrict_map_def)

lemma indexed_get:
  assumes "indexed index s" and "gpt_pages s i = Some a"
  shows "entries s a \<noteq> None" and "pages s (page_of s a) \<noteq> None" and "index (page_of s a) = i"
  using assms by (fastforce simp: indexed_def page_of_def)+

lemma freed_step:
  assumes "indexed index s" and "gpt_pages s i = Some a"
  shows "freed_at {i} s = s\<lparr>gpt_pages := (gpt_pages s)(i := None), pages := (pages s)(page_of s a := None), entries := (entries s)(a := None)\<rparr>"
  using assms(2) by (simp add: freed_at_def entries_at_def restrict_map_def fun_eq_iff fun_upd_def cong: if_cong)

lemma freed_indexed:
  assumes "indexed index s" and "gpt_pages s i = Some a"
  shows "indexed index (freed_at {i} s)"
  unfolding freed_step [OF assms] indexed_def
proof (intro allI impI)
  fix j b
  let ?s = "s\<lparr>gpt_pages := (gpt_pages s)(i := None), pages := (pages s)(page_of s a := None), entries := (entries s)(a := None)\<rparr>"
  assume "gpt_pages ?s j = Some b"
  then have j: "j \<noteq> i" "gpt_pages s j = Some b" by (simp_all split: if_splits)
  note a = indexed_get [OF assms] and b = indexed_get [OF assms(1) j(2)]
  obtain e where e: "entries s b = Some e" using b(1) by blast
  have "b \<noteq> a" "page_of s b \<noteq> page_of s a" using a(3) b(3) j(1) by auto
  then show "\<exists>e. entries ?s b = Some e \<and> pages ?s (te_page e) \<noteq> None \<and> index (te_page e) = j"
    using b e by (simp add: page_of_def)
qed

lemma freed_more:
  assumes "indexed index s" and "gpt_pages s i = Some a" and "i \<notin> K"
  shows "freed_at K (freed_at {i} s) = freed_at (insert i K) s"
proof -
  let ?s = "freed_at {i} s"
  note st = freed_step [OF assms(1,2)]
  have at: "entries_at K ?s = entries_at K s" using assms(3) by (auto simp: st entries_at_def)
  have other: "b \<noteq> a" if "b \<in> entries_at K s" for b
    using that indexed_get(3) [OF assms(1)] assms(2,3) by (auto simp: entries_at_def)
  then have "page_of ?s ` entries_at K s = page_of s ` entries_at K s" by (intro image_cong) (simp_all add: st page_of_def)
  moreover have "entries_at (insert i K) s = insert a (entries_at K s)" using assms(2) by (auto simp: entries_at_def)
  ultimately show ?thesis unfolding freed_at_def [of K] freed_at_def [of "insert i K"] at
    by (simp add: st) (simp add: restrict_map_def fun_eq_iff)
qed

lemma freed_union:
  assumes "finite K" and "indexed index s" and "K \<subseteq> dom (gpt_pages s)" and "K \<inter> L = {}"
  shows "indexed index (freed_at K s) \<and> freed_at L (freed_at K s) = freed_at (K \<union> L) s"
  using assms
proof (induction K arbitrary: s)
  case empty
  then show ?case by (simp add: freed_nothing)
next
  case (insert i K)
  obtain a where a: "gpt_pages s i = Some a" using insert.prems(2) by auto
  let ?s = "freed_at {i} s"
  have "K \<subseteq> dom (gpt_pages ?s)" using insert.hyps(2) insert.prems(2) by (auto simp: freed_step [OF insert.prems(1) a])
  then show ?case
    using insert.IH [OF freed_indexed [OF insert.prems(1) a]] insert.prems(3) freed_more [OF insert.prems(1) a] insert.hyps(2) by simp
qed

lemma free_batch_ok:
  assumes "indexed index s" and "sorted_wrt (<) ks" and "\<forall>i\<in>set ks. pos \<le> i \<and> gpt_pages s i \<noteq> None"
  shows "free_batch index (map (\<lambda>i. the (gpt_pages s i)) ks) pos s = Inr (if ks = [] then pos else last ks, freed_at (set ks) s)"
  using assms
proof (induction ks arbitrary: pos s)
  case Nil
  then show ?case by (simp add: freed_nothing)
next
  case (Cons i ks)
  obtain a where a: "gpt_pages s i = Some a" using Cons.prems(3) by auto
  let ?s = "freed_at {i} s"
  note get = indexed_get [OF Cons.prems(1) a] and st = freed_step [OF Cons.prems(1) a]
  obtain e where e: "entries s a = Some e" using get(1) by blast
  have i: "i \<notin> set ks" using Cons.prems(2) by auto
  have same: "gpt_pages ?s j = gpt_pages s j" if "j \<in> set ks" for j using that i by (auto simp: st)
  have "free_batch index (map (\<lambda>i. the (gpt_pages s i)) (i # ks)) pos s = free_batch index (map (\<lambda>i. the (gpt_pages s i)) ks) i ?s"
    using a e get Cons.prems(3) by (auto simp: st page_of_def free_page_def)
  also have "map (\<lambda>i. the (gpt_pages s i)) ks = map (\<lambda>i. the (gpt_pages ?s i)) ks" using same by simp
  also have "free_batch index \<dots> i ?s = Inr (if ks = [] then i else last ks, freed_at (set ks) ?s)"
    using Cons.prems same by (intro Cons.IH freed_indexed [OF Cons.prems(1) a]) auto
  finally show ?case using freed_more [OF Cons.prems(1) a i] by simp
qed

lemma free_pages_ok:
  assumes "gang_ok gang" and "indexed index s" and "finite (dom (gpt_pages s))" and "dom (gpt_pages s) \<subseteq> {pos..}"
    and "card (dom (gpt_pages s)) < FREE_BATCH * k"
  shows "gpt_free_pages k gang index pos s = Inr (freed_at (dom (gpt_pages s)) s)"
  using assms(2-5)
proof (induction k arbitrary: pos s)
  case (Suc k)
  let ?D = "dom (gpt_pages s)"
  let ?l = "sorted_list_of_set ?D"
  let ?ks = "take FREE_BATCH ?l"
  have "{i \<in> ?D. pos \<le> i} = ?D" using Suc.prems(3) by auto
  then have gang: "gang (gpt_pages s) pos = map (\<lambda>i. the (gpt_pages s i)) ?ks" using assms(1) Suc.prems(2) by (simp add: gang_ok_def)
  have set: "set ?l = ?D" "length ?l = card ?D" "sorted_wrt (<) ?l" using Suc.prems(2) by (simp_all add: strict_sorted_iff)
  then have ks: "sorted_wrt (<) ?ks" "set ?ks \<subseteq> ?D" using set_take_subset [of FREE_BATCH ?l] by simp_all
  then have run: "free_batch index (map (\<lambda>i. the (gpt_pages s i)) ?ks) pos s = Inr (if ?ks = [] then pos else last ?ks, freed_at (set ?ks) s)"
    using Suc.prems(3) by (intro free_batch_ok [OF Suc.prems(1)]) auto
  show ?case
  proof (cases "FREE_BATCH \<le> card ?D")
    case False
    then have "?ks = ?l" using set(2) by simp
    then show ?thesis using run gang set False by (simp add: Let_def)
  next
    case True
    let ?s = "freed_at (set ?ks) s" and ?p = "last ?ks + 1"
    have "length ?ks = FREE_BATCH" using True set(2) by simp
    then have len: "length ?ks = FREE_BATCH" "?ks \<noteq> []" by (simp, fastforce)
    have u: "indexed index ?s" "freed_at (?D - set ?ks) ?s = freed_at ?D s"
      using freed_union [OF _ Suc.prems(1), of "set ?ks" "?D - set ?ks"] ks(2) by (simp_all add: Un_absorb1)
    have dom: "dom (gpt_pages ?s) = ?D - set ?ks" by (auto simp: freed_at_def)
    have "set ?ks \<union> set (drop FREE_BATCH ?l) = ?D" using set(1) by (metis append_take_drop_id set_append)
    moreover have "set ?ks \<inter> set (drop FREE_BATCH ?l) = {}"
      using distinct_sorted_list_of_set [of ?D] by (metis append_take_drop_id distinct_append)
    ultimately have rest: "set (drop FREE_BATCH ?l) = ?D - set ?ks" by blast
    have above: "last ?ks < j" if "j \<in> set (drop FREE_BATCH ?l)" for j
      using set(3) len(2) that by (metis append_take_drop_id last_in_set sorted_wrt_append)
    have "?p \<le> j" if "j \<in> dom (gpt_pages ?s)" for j using above [of j] that unfolding dom rest by simp
    then have "dom (gpt_pages ?s) \<subseteq> {?p..}" by blast
    moreover have "card (set ?ks) = FREE_BATCH" using len(1) distinct_sorted_list_of_set [of ?D] by (metis distinct_card distinct_take)
    then have "card (dom (gpt_pages ?s)) < FREE_BATCH * k" "finite (dom (gpt_pages ?s))"
      using Suc.prems(2,4) ks(2) True unfolding dom by (simp_all add: card_Diff_subset finite_subset less_diff_conv2)
    ultimately have "gpt_free_pages k gang index ?p ?s = Inr (freed_at ?D s)" using Suc.IH [OF u(1)] dom u(2) by simp
    then show ?thesis using run gang len by (simp add: Let_def)
  qed
qed simp

lemma free_batch_first:
  assumes "gpt_pages s i = Some a" and "entries s a = Some e" and "pages s (te_page e) \<noteq> None" and "gpt_pages s (index (te_page e)) = None"
  shows "free_batch index (a # as) 0 s = Inl Panic"
  using assms by auto

text \<open>
  The page table is emptied only if the kernel's index of a page says where the page is entered. Then every entry and its page are given back, and nothing
  else, in one turn more than there are full batches. The module never sets this index. A page whose index, still zero, names an empty place ends the
  removal in a panic, though every other page may be right.
\<close>

theorem gpt_destroy_needs_index:
  assumes "gang_ok gang" and "finite (dom (gpt_pages s))"
  shows "(indexed index s \<longrightarrow> gpt_destroy (Suc (card (dom (gpt_pages s)) div FREE_BATCH)) gang index s = Inr (freed_at (dom (gpt_pages s)) s) \<and>
      gpt_pages (freed_at (dom (gpt_pages s)) s) = Map.empty) \<and>
    (\<forall>i a e. gpt_pages s i = Some a \<and> (\<forall>j<i. gpt_pages s j = None) \<and> entries s a = Some e \<and> pages s (te_page e) \<noteq> None \<and>
       index (te_page e) = 0 \<and> 0 < i \<longrightarrow> gpt_destroy (Suc k) gang index s = Inl Panic)"
proof (intro conjI impI allI)
  assume "indexed index s"
  then show "gpt_destroy (Suc (card (dom (gpt_pages s)) div FREE_BATCH)) gang index s = Inr (freed_at (dom (gpt_pages s)) s)"
    unfolding gpt_destroy_def by (rule free_pages_ok [OF assms(1) _ assms(2)]) (simp_all only: atLeast_0 subset_UNIV, presburger)
  show "gpt_pages (freed_at (dom (gpt_pages s)) s) = Map.empty" by (auto simp: freed_at_def restrict_map_def fun_eq_iff)
next
  fix i a e
  assume i: "gpt_pages s i = Some a \<and> (\<forall>j<i. gpt_pages s j = None) \<and> entries s a = Some e \<and> pages s (te_page e) \<noteq> None \<and> index (te_page e) = 0 \<and> 0 < i"
  let ?D = "dom (gpt_pages s)"
  have "Min ?D = i" using i assms(2) by (intro Min_eqI) (auto simp: not_less [symmetric])
  moreover have "?D \<noteq> {}" using i by auto
  ultimately have "sorted_list_of_set ?D = i # sorted_list_of_set (?D - {i})" using assms(2) sorted_list_of_set_nonempty [of ?D] by simp
  then have "gang (gpt_pages s) 0 = a # map (\<lambda>i. the (gpt_pages s i)) (take 15 (sorted_list_of_set (?D - {i})))"
    using assms i by (simp add: gang_ok_def)
  then show "gpt_destroy (Suc k) gang index s = Inl Panic"
    using free_batch_first [of s i a e index] i by (simp add: gpt_destroy_def)
qed

definition sample_gang :: "(nat \<rightharpoonup> ptr) \<Rightarrow> nat \<Rightarrow> ptr list" where
  "sample_gang T pos = map (\<lambda>i. the (T i)) (take FREE_BATCH (sorted_list_of_set {i \<in> dom T. pos \<le> i}))"

text \<open>One page, entered under the index 5.\<close>

definition sample_table :: gpt_mem where
  "sample_table = sample_gpt\<lparr>gpt_pages := [5 \<mapsto> 7]\<rparr>"

theorem gpt_destroy_needs_index_witness:
  "gpt_destroy 1 sample_gang (\<lambda>_. 0) sample_table = Inl Panic \<and> gpt_destroy 1 sample_gang (\<lambda>p. p - 96) sample_table = Inr (freed_at {5} sample_table)"
proof -
  have g: "gang_ok sample_gang" by (simp add: gang_ok_def sample_gang_def)
  have f: "finite (dom (gpt_pages sample_table))" by (simp add: sample_table_def)
  have e: "gpt_pages sample_table i = (if i = 5 then Some 7 else None)" "entries sample_table 7 = Some \<lparr>te_index = 0, te_page = 101, te_len = 4096, te_flags = 2, te_ref_count = 0\<rparr>"
    "pages sample_table 101 \<noteq> None" for i
    by (simp_all add: sample_table_def sample_gpt_def sample_mem_def)
  have "indexed (\<lambda>p. p - 96) sample_table" using e by (simp add: indexed_def)
  moreover have "dom (gpt_pages sample_table) = {5}" by (simp add: sample_table_def)
  ultimately have "gpt_destroy 1 sample_gang (\<lambda>p. p - 96) sample_table = Inr (freed_at {5} sample_table)"
    using gpt_destroy_needs_index [OF g f, of "\<lambda>p. p - 96"] by simp
  moreover have "gpt_destroy 1 sample_gang (\<lambda>_. 0) sample_table = Inl Panic"
    using gpt_destroy_needs_index [OF g f, of "\<lambda>_. 0" 0] e by simp
  ultimately show ?thesis by simp
qed

end
