(* ===== verification/Byte_Order.thy ===== *)
theory Byte_Order
  imports Valet_Prelude
begin

text \<open>
  Byte order of the control messages. The daemon writes the address of a registered region
  with its own \<open>htonll\<close> (daemon.c) and its key with \<open>htonl\<close>; the block device
  reads them back with the \<open>ntohll\<close> macro (valet_drv.h, daemon.h) and \<open>ntohl\<close>. Both run
  on little-endian machines, where \<open>htonl\<close> and \<open>ntohl\<close> reverse the four bytes.
\<close>

definition htonl :: "u32 \<Rightarrow> u32" where
  "htonl x = push_bit 24 (x AND 0xff) OR push_bit 8 (x AND 0xff00)
     OR (drop_bit 8 x AND 0xff00) OR (drop_bit 24 x AND 0xff)"

definition ntohl :: "u32 \<Rightarrow> u32" where
  "ntohl x = htonl x"

text \<open>The little-endian branch of the daemon's \<open>htonll\<close>.\<close>

definition htonll :: "u64 \<Rightarrow> u64" where
  "htonll v = push_bit 32 (ucast (htonl (ucast (v AND 0xFFFFFFFF))))
     OR ucast (htonl (ucast (drop_bit 32 v)))"

text \<open>The macro isolates the low half by shifting it up and down again.\<close>

definition ntohll :: "u64 \<Rightarrow> u64" where
  "ntohll x = push_bit 32 (ucast (ntohl (ucast (drop_bit 32 (push_bit 32 x)))))
     OR ucast (ntohl (ucast (drop_bit 32 x)))"

subsection \<open>Reversing four bytes\<close>

lemma less_32_cases:
  "n < 32 \<Longrightarrow> n \<in> {0,1,2,3,4,5,6,7,8,9,10,11,12,13,14,15,16,17,18,19,20,21,22,23,24,25,26,27,28,29,30,31::nat}"
  by (simp; presburger)

lemma bit_htonl:
  assumes "n < 32"
  shows "bit (htonl x) n \<longleftrightarrow> bit x (8 * (3 - n div 8) + n mod 8)"
proof -
  have m: "(0xff::u32) = mask 8" "(0xff00::u32) = push_bit 8 (mask 8)"
    by (simp_all add: mask_eq_exp_minus_1)
  show ?thesis
    using less_32_cases [OF assms] unfolding htonl_def m
    by (elim insertE emptyE) (simp_all add: bit_simps flip: numeral_2_eq_2)
qed

lemma htonl_htonl [simp]: "htonl (htonl x) = x"
proof (rule bit_word_eqI)
  fix n assume "n < LENGTH(32)"
  then have n: "n < 32" by simp
  show "bit (htonl (htonl x)) n = bit x n"
    using less_32_cases [OF n] by (elim insertE emptyE) (simp_all add: bit_htonl flip: numeral_2_eq_2)
qed

lemma ntohl_htonl [simp]: "ntohl (htonl x) = x"
  by (simp add: ntohl_def)

subsection \<open>Two halves of a 64-bit word\<close>

definition join32 :: "u32 \<Rightarrow> u32 \<Rightarrow> u64" where
  "join32 hi lo = push_bit 32 (ucast hi) OR ucast lo"

lemma join32_hi [simp]: "ucast (drop_bit 32 (join32 hi lo)) = hi"
  by (rule bit_word_eqI) (auto simp: join32_def bit_simps dest: bit_imp_le_length)

lemma join32_lo [simp]: "ucast (drop_bit 32 (push_bit 32 (join32 hi lo))) = lo"
  by (rule bit_word_eqI) (auto simp: join32_def bit_simps dest: bit_imp_le_length)

lemma join32_split: "join32 (ucast (drop_bit 32 x)) (ucast (x AND 0xFFFFFFFF)) = x"
proof -
  have m: "(0xFFFFFFFF::u64) = mask 32" by (simp add: mask_eq_exp_minus_1)
  show ?thesis unfolding m
    by (rule bit_word_eqI) (auto simp: join32_def bit_simps)
qed

lemma htonll_join32:
  "htonll x = join32 (htonl (ucast (x AND 0xFFFFFFFF))) (htonl (ucast (drop_bit 32 x)))"
  by (simp add: htonll_def join32_def)

lemma ntohll_join32:
  "ntohll x = join32 (ntohl (ucast (drop_bit 32 (push_bit 32 x)))) (ntohl (ucast (drop_bit 32 x)))"
  by (simp add: ntohll_def join32_def)

lemma ntohll_htonll [simp]: "ntohll (htonll x) = x"
  by (simp add: htonll_join32 ntohll_join32 join32_split)

text \<open>
  C25. The address and the key of a registered memory region survive the trip from the daemon
  to the block device: the macro \<open>ntohll\<close> undoes the daemon's \<open>htonll\<close> on every
  64-bit address, and \<open>ntohl\<close> undoes \<open>htonl\<close> on every 32-bit key.
\<close>

theorem region_descriptor_roundtrip: "ntohll (htonll addr) = addr \<and> ntohl (htonl rkey) = rkey"
  by simp

end
