(* ===== verification/Page_Bitmap.thy ===== *)
theory Page_Bitmap
  imports Valet_Prelude
begin

text \<open>
  The per-block page bitmap of the client (rdmabox.c, from \<open>valet_bitmap_set\<close> on). A remote
  block of 1 GB holds 262144 pages; \<open>bitmap_g\<close> is an array of 8192 ints, one bit per page,
  set when the page has been written to the remote block. \<open>request_read\<close> fetches a page
  remotely only when its bit is set.
\<close>

type_synonym bitmap = "u32 list"

abbreviation (input) BITMAP_SHIFT :: nat where "BITMAP_SHIFT \<equiv> 5"
abbreviation (input) BITMAP_MASK :: int where "BITMAP_MASK \<equiv> 0x1f"
abbreviation (input) BITMAP_INT_SIZE :: nat where "BITMAP_INT_SIZE \<equiv> 8192"

text \<open>\<open>bitmap[i >> BITMAP_SHIFT] |= 1 << (i & BITMAP_MASK)\<close> with a signed index.\<close>

definition valet_bitmap_set :: "bitmap \<Rightarrow> int \<Rightarrow> bitmap outcome" where
  "valet_bitmap_set bm i =
     bind_ok (iarr_get bm (drop_bit BITMAP_SHIFT i)) (\<lambda>w.
       iarr_set bm (drop_bit BITMAP_SHIFT i) (w OR push_bit (nat (i AND BITMAP_MASK)) 1))"

definition valet_bitmap_test :: "bitmap \<Rightarrow> int \<Rightarrow> bool outcome" where
  "valet_bitmap_test bm i =
     bind_ok (iarr_get bm (drop_bit BITMAP_SHIFT i)) (\<lambda>w.
       if w AND push_bit (nat (i AND BITMAP_MASK)) 1 \<noteq> 0 then Inr True else Inr False)"

definition valet_bitmap_clear :: "bitmap \<Rightarrow> int \<Rightarrow> bitmap outcome" where
  "valet_bitmap_clear bm i =
     bind_ok (iarr_get bm (drop_bit BITMAP_SHIFT i)) (\<lambda>w.
       iarr_set bm (drop_bit BITMAP_SHIFT i) (w AND NOT (push_bit (nat (i AND BITMAP_MASK)) 1)))"

text \<open>\<open>memset\<close> of \<open>ONE_GB / (4096 * 8)\<close> bytes, four bytes per int.\<close>

definition valet_bitmap_init :: "bitmap \<Rightarrow> bitmap outcome" where
  "valet_bitmap_init bm =
     (let cells = ONE_GB div (4096 * 8) div 4
      in if length bm < cells then Inl Out_Of_Bounds
         else Inr (replicate cells 0 @ drop cells bm))"

text \<open>The loop of the two group operations: \<open>op (start_page + i)\<close> for \<open>i\<close> below a count.\<close>

fun bitmap_iter :: "('b \<Rightarrow> int \<Rightarrow> 'b outcome) \<Rightarrow> int \<Rightarrow> nat \<Rightarrow> 'b \<Rightarrow> 'b outcome" where
  "bitmap_iter f p 0 bm = Inr bm"
| "bitmap_iter f p (Suc n) bm = bind_ok (f bm p) (bitmap_iter f (p + 1) n)"

text \<open>\<open>offset\<close> and \<open>len\<close> are \<open>unsigned long\<close>; the quotients are narrowed to \<open>int\<close>.\<close>

definition c_int :: "u64 \<Rightarrow> int" where
  "c_int x = sint (ucast x :: u32)"

definition valet_bitmap_group_set :: "bitmap \<Rightarrow> u64 \<Rightarrow> u64 \<Rightarrow> bitmap outcome" where
  "valet_bitmap_group_set bm offset len =
     bitmap_iter valet_bitmap_set (c_int (offset div VALET_PAGE_SIZE))
       (nat (c_int (len div VALET_PAGE_SIZE))) bm"

definition valet_bitmap_group_clear :: "bitmap \<Rightarrow> u64 \<Rightarrow> u64 \<Rightarrow> bitmap outcome" where
  "valet_bitmap_group_clear bm offset len =
     bitmap_iter valet_bitmap_clear (c_int (offset div VALET_PAGE_SIZE))
       (nat (c_int (len div VALET_PAGE_SIZE))) bm"

subsection \<open>A bitmap as a set of page numbers\<close>

text \<open>
  The interface the group operations rely on: a membership test over page numbers below a
  capacity, and two updates that change exactly one page number. The lemmas on a run of
  updates are proved once here.
\<close>

locale page_set =
  fixes upd :: "'b \<Rightarrow> int \<Rightarrow> 'b outcome"
    and mem :: "'b \<Rightarrow> int \<Rightarrow> bool outcome"
    and ok :: "'b \<Rightarrow> bool"
    and cap :: int
    and v :: bool
  assumes upd_ok: "ok b \<Longrightarrow> 0 \<le> i \<Longrightarrow> i < cap \<Longrightarrow> \<exists>b'. upd b i = Inr b' \<and> ok b'"
    and mem_upd: "ok b \<Longrightarrow> 0 \<le> i \<Longrightarrow> i < cap \<Longrightarrow> upd b i = Inr b' \<Longrightarrow> 0 \<le> j \<Longrightarrow> j < cap \<Longrightarrow>
      mem b' j = (if j = i then Inr v else mem b j)"
begin

lemma iter_upd:
  assumes "ok b" and "0 \<le> p" and "p + int n \<le> cap"
  shows "\<exists>b'. bitmap_iter upd p n b = Inr b' \<and> ok b' \<and>
    (\<forall>j. 0 \<le> j \<longrightarrow> j < cap \<longrightarrow> mem b' j = (if p \<le> j \<and> j < p + int n then Inr v else mem b j))"
  using assms
proof (induction n arbitrary: p b)
  case 0
  then show ?case by auto
next
  case (Suc n)
  then obtain b1 where b1: "upd b p = Inr b1" "ok b1"
    using upd_ok [of b p] by auto
  from Suc.IH [of b1 "p + 1"] b1 Suc.prems obtain b' where b':
    "bitmap_iter upd (p + 1) n b1 = Inr b'" "ok b'"
    "\<And>j. 0 \<le> j \<Longrightarrow> j < cap \<Longrightarrow>
      mem b' j = (if p + 1 \<le> j \<and> j < p + 1 + int n then Inr v else mem b1 j)"
    by auto
  have "mem b' j = (if p \<le> j \<and> j < p + int (Suc n) then Inr v else mem b j)"
    if "0 \<le> j" "j < cap" for j
    using that b'(3) [OF that] mem_upd [OF Suc.prems(1) _ _ b1(1) that] Suc.prems by auto
  with b1 b'(1,2) show ?case by auto
qed

end

subsection \<open>The bits of the implementation\<close>

lemma page_index_split:
  "drop_bit 5 (int k) = int (k div 32)"
  "nat (int k AND 31) = k mod 32"
proof -
  show "drop_bit 5 (int k) = int (k div 32)"
    by (simp add: drop_bit_eq_div zdiv_int)
  have "int k AND 31 = int k mod 32"
    using take_bit_eq_mask [of 5 "int k"] by (simp add: take_bit_eq_mod mask_eq_exp_minus_1)
  then show "nat (int k AND 31) = k mod 32"
    by (simp add: nat_mod_distrib)
qed

lemma and_single_bit_eq_0: "w AND 2 ^ n = 0 \<longleftrightarrow> \<not> bit (w::u32) n"
  using bit_iff_and_push_bit_not_eq_0 [of w n] by simp

lemma page_number_obtain:
  assumes "0 \<le> i" and "i < 262144"
  obtains k where "i = int k" and "k < 262144"
proof -
  from assms(1) obtain k where "i = int k" by (rule nonneg_int_cases)
  with assms(2) that show ?thesis by simp
qed

abbreviation bitmap_ok :: "bitmap \<Rightarrow> bool" where
  "bitmap_ok bm \<equiv> length bm = BITMAP_INT_SIZE"

lemma valet_bitmap_test_bit:
  assumes "bitmap_ok bm" and "k < 262144"
  shows "valet_bitmap_test bm (int k) = Inr (bit (bm ! (k div 32)) (k mod 32))"
proof -
  have "k div 32 < 8192" using assms(2) by linarith
  with assms(1) show ?thesis
    by (auto simp: valet_bitmap_test_def page_index_split and_single_bit_eq_0)
qed

lemma valet_bitmap_set_bit:
  assumes "bitmap_ok bm" and "k < 262144"
  shows "valet_bitmap_set bm (int k) =
    Inr (bm[k div 32 := (bm ! (k div 32)) OR push_bit (k mod 32) 1])"
proof -
  have "k div 32 < 8192" using assms(2) by linarith
  with assms(1) show ?thesis by (simp add: valet_bitmap_set_def page_index_split)
qed

lemma valet_bitmap_clear_bit:
  assumes "bitmap_ok bm" and "k < 262144"
  shows "valet_bitmap_clear bm (int k) =
    Inr (bm[k div 32 := (bm ! (k div 32)) AND NOT (push_bit (k mod 32) 1)])"
proof -
  have "k div 32 < 8192" using assms(2) by linarith
  with assms(1) show ?thesis by (simp add: valet_bitmap_clear_def page_index_split)
qed

lemma div_mod_32_eq: "k div 32 = j div 32 \<Longrightarrow> k mod 32 = j mod 32 \<Longrightarrow> k = (j::nat)"
  by (metis div_mult_mod_eq)

interpretation bset: page_set valet_bitmap_set valet_bitmap_test bitmap_ok 262144 True
proof
  fix bm :: bitmap and i :: int
  assume "bitmap_ok bm" "0 \<le> i" "i < 262144"
  then show "\<exists>b'. valet_bitmap_set bm i = Inr b' \<and> bitmap_ok b'"
    using valet_bitmap_set_bit [of bm "nat i"] by simp
next
  fix bm b' :: bitmap and i j :: int
  assume a: "bitmap_ok bm" "0 \<le> i" "i < 262144" "valet_bitmap_set bm i = Inr b'"
    "0 \<le> j" "j < 262144"
  obtain k where k: "i = int k" "k < 262144" using a(2,3) by (rule page_number_obtain)
  obtain l where l: "j = int l" "l < 262144" using a(5,6) by (rule page_number_obtain)
  note kl = k(1) l(1) k(2) l(2)
  have b': "b' = bm[k div 32 := (bm ! (k div 32)) OR push_bit (k mod 32) 1]"
    using a(4) valet_bitmap_set_bit [OF a(1) kl(3)] kl by simp
  have "k div 32 < 8192" "l div 32 < 8192" using kl by linarith+
  then show "valet_bitmap_test b' j = (if j = i then Inr True else valet_bitmap_test bm j)"
    using a(1) kl div_mod_32_eq [of k l]
    by (auto simp: b' valet_bitmap_test_bit nth_list_update bit_simps)
qed

interpretation bclr: page_set valet_bitmap_clear valet_bitmap_test bitmap_ok 262144 False
proof
  fix bm :: bitmap and i :: int
  assume "bitmap_ok bm" "0 \<le> i" "i < 262144"
  then show "\<exists>b'. valet_bitmap_clear bm i = Inr b' \<and> bitmap_ok b'"
    using valet_bitmap_clear_bit [of bm "nat i"] by simp
next
  fix bm b' :: bitmap and i j :: int
  assume a: "bitmap_ok bm" "0 \<le> i" "i < 262144" "valet_bitmap_clear bm i = Inr b'"
    "0 \<le> j" "j < 262144"
  obtain k where k: "i = int k" "k < 262144" using a(2,3) by (rule page_number_obtain)
  obtain l where l: "j = int l" "l < 262144" using a(5,6) by (rule page_number_obtain)
  note kl = k(1) l(1) k(2) l(2)
  have b': "b' = bm[k div 32 := (bm ! (k div 32)) AND NOT (push_bit (k mod 32) 1)]"
    using a(4) valet_bitmap_clear_bit [OF a(1) kl(3)] kl by simp
  have "k div 32 < 8192" "l div 32 < 8192" using kl by linarith+
  then show "valet_bitmap_test b' j = (if j = i then Inr False else valet_bitmap_test bm j)"
    using a(1) kl div_mod_32_eq [of k l]
    by (auto simp: b' valet_bitmap_test_bit nth_list_update bit_simps dest: bit_imp_le_length)
qed

subsection \<open>Group operations over a block\<close>

lemma c_int_small:
  assumes "unat x < 2147483648"
  shows "c_int x = int (unat x)"
proof -
  have "unat (ucast x :: u32) = unat x"
    using assms by (simp add: unsigned_ucast_eq take_bit_nat_eq_self)
  then show ?thesis using assms by (simp add: c_int_def sint_small_u32)
qed

lemma c_int_page_quotient:
  assumes "unat x \<le> 1073741824"
  shows "c_int (x div 4096) = int (unat x div 4096)"
proof -
  have q: "unat (x div 4096 :: u64) = unat x div 4096" by (simp add: unat_div)
  have "unat x div 4096 \<le> 1073741824 div 4096" by (rule div_le_mono [OF assms])
  then show ?thesis using c_int_small [of "x div 4096"] by (simp add: q)
qed

lemma group_in_block:
  assumes "unat offset + unat len \<le> (1073741824::nat)"
  shows "int (unat offset div 4096) + int (unat len div 4096) \<le> 262144"
  using assms by linarith

lemma group_set_ok:
  assumes "bitmap_ok bm" and "unat offset + unat len \<le> ONE_GB"
  shows "\<exists>bm'. valet_bitmap_group_set bm offset len = Inr bm' \<and> bitmap_ok bm' \<and>
    (\<forall>p<262144. valet_bitmap_test bm' (int p) =
       (if unat offset div 4096 \<le> p \<and> p < unat offset div 4096 + unat len div 4096
        then Inr True else valet_bitmap_test bm (int p)))"
  using bset.iter_upd [OF assms(1) _ group_in_block [OF assms(2)]] assms(2)
  by (fastforce simp: valet_bitmap_group_set_def c_int_page_quotient)

text \<open>
  C24. Recording a completed write: for an extent inside a 1 GB block,
  \<open>valet_bitmap_group_set\<close> stays inside the bitmap and sets the bits of exactly the pages
  of the extent, leaving every other page's bit as it was.
\<close>

theorem bitmap_group_set_exact:
  assumes "bitmap_ok bm" and "unat offset + unat len \<le> ONE_GB"
  shows "\<exists>bm'. valet_bitmap_group_set bm offset len = Inr bm' \<and> bitmap_ok bm' \<and>
    (\<forall>p<262144. valet_bitmap_test bm' (int p) =
       (if unat offset div 4096 \<le> p \<and> p < unat offset div 4096 + unat len div 4096
        then Inr True else valet_bitmap_test bm (int p)))"
  by (rule group_set_ok [OF assms])

theorem bitmap_group_set_exact_witness:
  "\<exists>bm'. valet_bitmap_group_set (replicate 8192 0) 8192 4096 = Inr bm' \<and> bitmap_ok bm' \<and>
    (\<forall>p<262144. valet_bitmap_test bm' (int p) =
       (if 2 \<le> p \<and> p < 3 then Inr True else valet_bitmap_test (replicate 8192 0) (int p)))"
  using bitmap_group_set_exact [of "replicate 8192 0" 8192 4096] by simp

text \<open>
  Forgetting an extent: \<open>valet_bitmap_group_clear\<close> clears exactly the pages of the
  extent, and \<open>valet_bitmap_init\<close> leaves no page recorded.
\<close>

theorem bitmap_group_clear_exact:
  assumes "bitmap_ok bm" and "unat offset + unat len \<le> ONE_GB"
  shows "(\<exists>bm'. valet_bitmap_group_clear bm offset len = Inr bm' \<and> bitmap_ok bm' \<and>
    (\<forall>p<262144. valet_bitmap_test bm' (int p) =
       (if unat offset div 4096 \<le> p \<and> p < unat offset div 4096 + unat len div 4096
        then Inr False else valet_bitmap_test bm (int p)))) \<and>
    (\<exists>bm0. valet_bitmap_init bm = Inr bm0 \<and> bitmap_ok bm0 \<and>
      (\<forall>p<262144. valet_bitmap_test bm0 (int p) = Inr False))"
proof
  show "\<exists>bm'. valet_bitmap_group_clear bm offset len = Inr bm' \<and> bitmap_ok bm' \<and>
    (\<forall>p<262144. valet_bitmap_test bm' (int p) =
       (if unat offset div 4096 \<le> p \<and> p < unat offset div 4096 + unat len div 4096
        then Inr False else valet_bitmap_test bm (int p)))"
    using bclr.iter_upd [OF assms(1) _ group_in_block [OF assms(2)]] assms(2)
    by (fastforce simp: valet_bitmap_group_clear_def c_int_page_quotient)
  have "p div 32 < 8192" if "p < 262144" for p :: nat using that by linarith
  then show "\<exists>bm0. valet_bitmap_init bm = Inr bm0 \<and> bitmap_ok bm0 \<and>
      (\<forall>p<262144. valet_bitmap_test bm0 (int p) = Inr False)"
    using assms(1) by (auto simp: valet_bitmap_init_def Let_def valet_bitmap_test_bit)
qed

theorem bitmap_group_clear_exact_witness:
  "(\<exists>bm'. valet_bitmap_group_clear (replicate 8192 1) 0 4096 = Inr bm' \<and> bitmap_ok bm' \<and>
    (\<forall>p<262144. valet_bitmap_test bm' (int p) =
       (if p < 1 then Inr False else valet_bitmap_test (replicate 8192 1) (int p)))) \<and>
    (\<exists>bm0. valet_bitmap_init (replicate 8192 1) = Inr bm0 \<and> bitmap_ok bm0 \<and>
      (\<forall>p<262144. valet_bitmap_test bm0 (int p) = Inr False))"
  using bitmap_group_clear_exact [of "replicate 8192 1" 0 4096] by simp

end
