(* ===== verification/Rdma_State.thy ===== *)
theory Rdma_State
  imports Byte_Order Page_Bitmap Gpt
begin

text \<open>
  The session of the block device with its remote nodes (rdmabox.h) and the handlers that change
  it when a control message arrives or has been sent (rdmabox.c): which gigabyte of the
  device lives in which block of which node, the state of each block, the context pools.

  Nodes are indices into \<open>cb_list\<close>; a pointer to a remote block is the pair of the node and
  the block. The pointers \<open>valet_sess\<close> back to the single session are left out. Work
  requests handed to the network card are appended to \<open>posted\<close>.
\<close>

abbreviation (input) MAX_MR_SIZE_GB :: nat where "MAX_MR_SIZE_GB \<equiv> 32"
abbreviation (input) SWAPSPACE_SIZE_G :: nat where "SWAPSPACE_SIZE_G \<equiv> 40"
abbreviation (input) NUM_REPLICA :: nat where "NUM_REPLICA \<equiv> 1"
abbreviation (input) SERVER_SELECT_NUM :: nat where "SERVER_SELECT_NUM \<equiv> 2"
abbreviation (input) NO_CB_MAPPED :: int where "NO_CB_MAPPED \<equiv> - 1"
abbreviation (input) RB_MAPPED :: int where "RB_MAPPED \<equiv> 1"
abbreviation (input) RB_UNMAPPED :: int where "RB_UNMAPPED \<equiv> 0"
abbreviation (input) DEV_RDMA_ON :: int where "DEV_RDMA_ON \<equiv> 1"
abbreviation (input) DEV_RDMA_OFF :: int where "DEV_RDMA_OFF \<equiv> 0"

datatype msg_opcode = DONE | RESP_MR_MAP | RESP_MIG_MAP | REQ_QUERY | RESP_QUERY | EVICT
  | REQ_MR_MAP | REQ_MIG_MAP | REQ_MIGRATION | DONE_MIGRATION | DELETE_RB

datatype remote_block_handler_state = RBH_IDLE | RBH_READY | RBH_EVICT | RBH_MIGRATION_READY
  | RBH_MIGRATION_DONE | RBH_DELETE_RB

datatype test_state = IDLE | CONNECT_REQUEST | ADDR_RESOLVED | ROUTE_RESOLVED | CONNECTED
  | RECV_QUERY_REPL | RECV_MR_MAP | RECV_EVICT | RECV_MIG_MAP | RECV_MIGRATION_DONE
  | CM_DISCONNECT | ERROR

text \<open>The test \<open>cb->state < CONNECTED\<close> compares enumeration values.\<close>

fun before_connected :: "test_state \<Rightarrow> bool" where
  "before_connected IDLE = True"
| "before_connected CONNECT_REQUEST = True"
| "before_connected ADDR_RESOLVED = True"
| "before_connected ROUTE_RESOLVED = True"
| "before_connected _ = False"

datatype remote_block_state = ACTIVE | READONLY | NONE_ALLOWED | INACTIVE

datatype cb_state = CB_IDLE | CB_CONNECTED | CB_MAPPED | CB_MIGRATING | CB_EVICTING | CB_FAIL

fun before_migrating :: "cb_state \<Rightarrow> bool" where
  "before_migrating CB_IDLE = True"
| "before_migrating CB_CONNECTED = True"
| "before_migrating CB_MAPPED = True"
| "before_migrating _ = False"

record message =
  m_type :: msg_opcode
  m_size_gb :: int
  m_rb_index :: int
  m_cb_index :: int
  m_replica_index :: int
  m_buf :: "u64 list"
  m_rkey :: "u32 list"

record remote_block =
  remote_rkey :: u32
  remote_addr :: u64
  rb_state :: remote_block_state
  bitmap_g :: "bitmap option"
  rb_replica_index :: int

record remote_block_handler =
  remote_blocks :: "remote_block list"
  remote_mapped :: "int list"
  block_size_gb :: int
  target_size_gb :: int
  age_sum :: int
  rb_idx_map :: "int list"
  mig_rb_idx :: "bool list"
  c_state :: remote_block_handler_state
  dest_rb_index :: int
  dest_cb_index :: int
  src_rb_index :: int
  src_cb_index :: int
  client_swapspace_index :: int
  rbh_replica_index :: int

record kernel_cb =
  cb_index :: int
  rbh :: remote_block_handler
  cb_st :: test_state
  recv_buf :: message
  send_buf :: message

record rdma_freepool =
  fp_cap_nr :: nat
  fp_curr_nr :: nat
  fp_elements :: "ptr list"

datatype ctx_flight = CTX_IDLE | CTX_R_IN_FLIGHT | CTX_W_IN_FLIGHT

record rdma_ctx =
  rdma_buf :: "u8 list"
  ctx_req :: ptr
  ctx_rb_index :: int
  ctx_cb :: nat
  ctx_offset :: u64
  ctx_len :: u64
  ctx_rb :: "(nat \<times> nat) option"
  sending_item :: ptr
  in_flight :: ctx_flight
  ctx_replica_index :: nat

record valet_session =
  cb_num :: nat
  mapped_cb_num :: int
  cb_list :: "kernel_cb list"
  cb_state_list :: "cb_state list"
  cb_index_map :: "int list list"
  mapping_swapspace_to_rb :: "int list list"
  rdma_on :: int
  rdma_write_freepool :: rdma_freepool
  rdma_read_freepool :: rdma_freepool

text \<open>
  A posted write carries node, key, address, the bytes and its context; it is followed by a write
  of the current time to the header of the block. A posted read carries the context
  that receives the page.
\<close>

datatype work_request =
    WR_Write nat u32 u64 "u8 list" ptr
  | WR_Header nat u32 u64 "int \<times> int"
  | WR_Read nat u32 u64 ptr

record rdma_mem = gpt_mem +
  sess :: valet_session
  ctxs :: "ptr \<rightharpoonup> rdma_ctx"
  posted :: "work_request list"

definition isRDMAon :: "valet_session \<Rightarrow> bool" where
  "isRDMAon S \<longleftrightarrow> rdma_on S = DEV_RDMA_ON"

subsection \<open>The context pools\<close>

definition put_rdma_freepool :: "ptr \<Rightarrow> rdma_freepool \<Rightarrow> rdma_freepool outcome" where
  "put_rdma_freepool element p =
     (if fp_curr_nr p \<ge> fp_cap_nr p then Inl Bug_On
      else bind_ok (arr_set (fp_elements p) (fp_curr_nr p) element) (\<lambda>es.
        Inr (p\<lparr>fp_elements := es, fp_curr_nr := fp_curr_nr p + 1\<rparr>)))"

definition get_rdma_freepool :: "rdma_freepool \<Rightarrow> (ptr \<times> rdma_freepool) outcome" where
  "get_rdma_freepool p =
     (if fp_curr_nr p > 0
      then bind_ok (arr_get (fp_elements p) (fp_curr_nr p - 1)) (\<lambda>element.
        Inr (element, p\<lparr>fp_curr_nr := fp_curr_nr p - 1\<rparr>))
      else Inr (NULL, p))"

text \<open>
  Creation: one context per slot, with a zeroed buffer. \<open>kz i\<close> is the address \<open>kzalloc\<close>
  gives for the \<open>i\<close>th context and whether its buffers could be allocated too. A context that
  could not be allocated is written through at once.
\<close>

primrec freepool_fill ::
  "nat \<Rightarrow> (nat \<Rightarrow> ptr \<times> bool) \<Rightarrow> nat \<Rightarrow> nat \<Rightarrow> rdma_freepool \<Rightarrow> (ptr \<rightharpoonup> rdma_ctx) \<Rightarrow>
   (int \<times> rdma_freepool \<times> (ptr \<rightharpoonup> rdma_ctx)) outcome" where
  "freepool_fill 0 kz buf_size i p cs = Inr (0, p, cs)"
| "freepool_fill (Suc k) kz buf_size i p cs =
     (if fst (kz i) = NULL then Inl Null_Deref
      else if \<not> snd (kz i) then Inr (1, p, cs)
      else bind_ok (put_rdma_freepool (fst (kz i)) p) (\<lambda>p.
        freepool_fill k kz buf_size (i + 1) p (cs(fst (kz i) \<mapsto>
          \<lparr>rdma_buf = replicate buf_size 0, ctx_req = NULL, ctx_rb_index = - 1, ctx_cb = 0, ctx_offset = 0,
           ctx_len = 0, ctx_rb = None, sending_item = NULL, in_flight = CTX_IDLE, ctx_replica_index = 0\<rparr>))))"

definition rdma_freepool_create ::
  "(nat \<Rightarrow> ptr \<times> bool) \<Rightarrow> bool \<Rightarrow> nat \<Rightarrow> nat \<Rightarrow> rdma_freepool \<Rightarrow> (ptr \<rightharpoonup> rdma_ctx) \<Rightarrow>
   (int \<times> rdma_freepool \<times> (ptr \<rightharpoonup> rdma_ctx)) outcome" where
  "rdma_freepool_create kz elements_ok cap buf_size p cs =
     (if \<not> elements_ok then Inr (1, p, cs)
      else freepool_fill cap kz buf_size 0
             \<lparr>fp_cap_nr = cap, fp_curr_nr = 0, fp_elements = replicate cap NULL\<rparr> cs)"

subsection \<open>Remote blocks of a node\<close>

text \<open>
  The common part of \<open>valet_migration_block_init\<close> and \<open>valet_remote_block_init\<close>: block \<open>i\<close> gets
  the key and address of the received message, in host order, and an empty bitmap.
\<close>

definition block_install :: "bool \<Rightarrow> int \<Rightarrow> int \<Rightarrow> nat \<Rightarrow> kernel_cb \<Rightarrow> kernel_cb outcome" where
  "block_install kzalloc_ok swapspace replica i cb =
     (let H = rbh cb
      in bind_ok (arr_get (m_rkey (recv_buf cb)) i) (\<lambda>key. bind_ok (arr_get (m_buf (recv_buf cb)) i) (\<lambda>addr.
         bind_ok (arr_get (remote_blocks H) i) (\<lambda>rb.
         bind_ok (if kzalloc_ok then valet_bitmap_init (replicate BITMAP_INT_SIZE 0) else Inl Null_Deref) (\<lambda>bm.
         bind_ok (arr_set (remote_blocks H) i (rb\<lparr>remote_rkey := ntohl key, remote_addr := ntohll addr,
                    bitmap_g := Some bm, rb_replica_index := replica\<rparr>)) (\<lambda>rbs.
         bind_ok (arr_set (rb_idx_map H) i swapspace) (\<lambda>idx.
         bind_ok (arr_set (remote_mapped H) i RB_MAPPED) (\<lambda>ma.
           Inr (cb\<lparr>rbh := H\<lparr>remote_blocks := rbs, rb_idx_map := idx, remote_mapped := ma,
                              block_size_gb := block_size_gb H + 1\<rparr>\<rparr>)))))))))"

definition set_mig :: "nat \<Rightarrow> bool \<Rightarrow> kernel_cb \<Rightarrow> kernel_cb outcome" where
  "set_mig i b cb =
     bind_ok (arr_set (mig_rb_idx (rbh cb)) i b) (\<lambda>m. Inr (cb\<lparr>rbh := (rbh cb)\<lparr>mig_rb_idx := m\<rparr>\<rparr>))"

definition valet_migration_block_init :: "bool \<Rightarrow> kernel_cb \<Rightarrow> kernel_cb outcome" where
  "valet_migration_block_init kzalloc_ok cb =
     (let m = recv_buf cb;
          cb = cb\<lparr>rbh := (rbh cb)\<lparr>client_swapspace_index := m_size_gb m, dest_cb_index := m_cb_index m,
                                 dest_rb_index := m_rb_index m\<rparr>\<rparr>
      in foldM (\<lambda>i cb. bind_ok (arr_get (m_rkey (recv_buf cb)) i) (\<lambda>key.
           if key \<noteq> 0
           then bind_ok (set_mig i True cb) (\<lambda>cb.
                bind_ok (block_install kzalloc_ok (client_swapspace_index (rbh cb)) (m_replica_index m) i cb) (\<lambda>cb.
                  Inr (cb\<lparr>rbh := (rbh cb)\<lparr>c_state := RBH_MIGRATION_READY\<rparr>\<rparr>)))
           else set_mig i False cb)) [0..<MAX_MR_SIZE_GB] cb)"

text \<open>Accesses to the session: a node, an entry of the two per-replica tables.\<close>

definition get_node :: "int \<Rightarrow> valet_session \<Rightarrow> kernel_cb outcome" where
  "get_node c S = iarr_get (cb_list S) c"

definition set_node :: "int \<Rightarrow> kernel_cb \<Rightarrow> valet_session \<Rightarrow> valet_session outcome" where
  "set_node c cb S = bind_ok (iarr_set (cb_list S) c cb) (\<lambda>l. Inr (S\<lparr>cb_list := l\<rparr>))"

definition tab_get :: "int list list \<Rightarrow> int \<Rightarrow> int \<Rightarrow> int outcome" where
  "tab_get t r i = bind_ok (iarr_get t r) (\<lambda>row. iarr_get row i)"

definition tab_set :: "int list list \<Rightarrow> int \<Rightarrow> int \<Rightarrow> int \<Rightarrow> int list list outcome" where
  "tab_set t r i v = bind_ok (iarr_get t r) (\<lambda>row. bind_ok (iarr_set row i v) (\<lambda>row. iarr_set t r row))"

text \<open>
  \<open>valet_remote_block_init\<close> takes the first block with a key in the message and enters it in
  both tables of the session. The loop ends there.
\<close>

primrec remote_block_init_loop :: "bool \<Rightarrow> nat list \<Rightarrow> int \<Rightarrow> valet_session \<Rightarrow> valet_session outcome" where
  "remote_block_init_loop kzalloc_ok [] c S = Inr S"
| "remote_block_init_loop kzalloc_ok (i # is) c S =
     bind_ok (get_node c S) (\<lambda>cb. bind_ok (arr_get (m_rkey (recv_buf cb)) i) (\<lambda>key.
       let select_idx = m_size_gb (recv_buf cb); replica = m_replica_index (recv_buf cb)
       in if key \<noteq> 0 then
         bind_ok (block_install kzalloc_ok select_idx replica i cb) (\<lambda>cb.
         bind_ok (tab_set (mapping_swapspace_to_rb S) replica select_idx (int i)) (\<lambda>ms.
         bind_ok (tab_set (cb_index_map S) replica select_idx (cb_index cb)) (\<lambda>cm.
         bind_ok (arr_get (remote_blocks (rbh cb)) i) (\<lambda>rb.
         bind_ok (arr_set (remote_blocks (rbh cb)) i (rb\<lparr>rb_state := ACTIVE\<rparr>)) (\<lambda>rbs.
           set_node c (cb\<lparr>rbh := (rbh cb)\<lparr>remote_blocks := rbs, c_state := RBH_READY\<rparr>\<rparr>)
             (S\<lparr>mapping_swapspace_to_rb := ms, cb_index_map := cm\<rparr>))))))
       else remote_block_init_loop kzalloc_ok is c S))"

definition valet_remote_block_init :: "bool \<Rightarrow> int \<Rightarrow> valet_session \<Rightarrow> valet_session outcome" where
  "valet_remote_block_init kzalloc_ok c S = remote_block_init_loop kzalloc_ok [0..<MAX_MR_SIZE_GB] c S"

subsection \<open>Control messages\<close>

definition evict_handler_prep :: "kernel_cb \<Rightarrow> kernel_cb outcome" where
  "evict_handler_prep cb =
     (let m = recv_buf cb;
          cb = cb\<lparr>rbh := (rbh cb)\<lparr>client_swapspace_index := m_size_gb m, src_cb_index := m_cb_index m,
                                 src_rb_index := m_rb_index m, rbh_replica_index := m_replica_index m\<rparr>\<rparr>
      in foldM (\<lambda>i cb. bind_ok (arr_get (m_rkey m) i) (\<lambda>key. set_mig i (key \<noteq> 0) cb)) [0..<MAX_MR_SIZE_GB] cb)"

text \<open>
  A \<open>RESP_QUERY\<close> is read through \<open>struct query_message\<close>, whose eight-byte \<open>sum\<close> lies over the
  fields \<open>rb_index\<close> and \<open>cb_index\<close> of a \<open>struct message\<close>.
\<close>

definition query_sum :: "message \<Rightarrow> int" where
  "query_sum m = m_rb_index m mod 4294967296 + 4294967296 * (m_cb_index m mod 4294967296)"

text \<open>
  The handler of a received message on node \<open>c\<close>; the length check of the completion is the
  argument \<open>len_ok\<close>. The integer is the C return.
\<close>

definition recv_msg_handler :: "bool \<Rightarrow> bool \<Rightarrow> int \<Rightarrow> valet_session \<Rightarrow> (int \<times> valet_session) outcome" where
  "recv_msg_handler kzalloc_ok len_ok c S =
     bind_ok (get_node c S) (\<lambda>cb.
       if \<not> len_ok then Inr (- 1, S)
       else if before_connected (cb_st cb) then Inr (- 1, S)
       else case m_type (recv_buf cb) of
         RESP_QUERY \<Rightarrow>
           bind_ok (set_node c (cb\<lparr>rbh := (rbh cb)\<lparr>target_size_gb := m_size_gb (recv_buf cb),
                                                age_sum := query_sum (recv_buf cb)\<rparr>,
                                   cb_st := RECV_QUERY_REPL\<rparr>) S) (\<lambda>S. Inr (0, S))
       | RESP_MIG_MAP \<Rightarrow>
           bind_ok (valet_migration_block_init kzalloc_ok (cb\<lparr>cb_st := RECV_MIG_MAP\<rparr>)) (\<lambda>cb.
             bind_ok (set_node c cb S) (\<lambda>S. Inr (0, S)))
       | RESP_MR_MAP \<Rightarrow>
           bind_ok (iarr_set (cb_state_list S) (cb_index cb) CB_MAPPED) (\<lambda>l.
           bind_ok (set_node c (cb\<lparr>cb_st := RECV_MR_MAP\<rparr>) (S\<lparr>cb_state_list := l\<rparr>)) (\<lambda>S.
           bind_ok (valet_remote_block_init kzalloc_ok c S) (\<lambda>S. Inr (0, S))))
       | DONE_MIGRATION \<Rightarrow>
           bind_ok (set_node c (cb\<lparr>cb_st := RECV_MIGRATION_DONE,
                                   rbh := (rbh cb)\<lparr>c_state := RBH_MIGRATION_DONE\<rparr>\<rparr>) S) (\<lambda>S. Inr (0, S))
       | EVICT \<Rightarrow>
           bind_ok (evict_handler_prep (cb\<lparr>cb_st := RECV_EVICT\<rparr>)) (\<lambda>cb.
           bind_ok (set_node c (cb\<lparr>rbh := (rbh cb)\<lparr>c_state := RBH_EVICT\<rparr>\<rparr>) S) (\<lambda>S. Inr (0, S)))
       | _ \<Rightarrow> Inr (- 1, S))"

definition send_done_postwork :: "int \<Rightarrow> valet_session \<Rightarrow> (int \<times> valet_session) outcome" where
  "send_done_postwork c S =
     bind_ok (get_node c S) (\<lambda>cb.
       if before_connected (cb_st cb) then Inr (- 1, S)
       else if m_type (send_buf cb) = DELETE_RB
       then bind_ok (set_node c (cb\<lparr>rbh := (rbh cb)\<lparr>c_state := RBH_DELETE_RB\<rparr>\<rparr>) S) (\<lambda>S. Inr (0, S))
       else Inr (0, S))"

subsection \<open>Migration\<close>

definition set_rb_state :: "int \<Rightarrow> int \<Rightarrow> remote_block_state \<Rightarrow> valet_session \<Rightarrow> valet_session outcome" where
  "set_rb_state c select_idx st S =
     bind_ok (tab_get (mapping_swapspace_to_rb S) 0 select_idx) (\<lambda>rb_index.
     bind_ok (get_node c S) (\<lambda>cb. bind_ok (iarr_get (remote_blocks (rbh cb)) rb_index) (\<lambda>rb.
     bind_ok (iarr_set (remote_blocks (rbh cb)) rb_index (rb\<lparr>rb_state := st\<rparr>)) (\<lambda>rbs.
       set_node c (cb\<lparr>rbh := (rbh cb)\<lparr>remote_blocks := rbs\<rparr>\<rparr>) S))))"

text \<open>One turn of the loop of \<open>reset_migration_info\<close>; \<open>new\<close> is the node of the destination, if any.\<close>

definition reset_block :: "int \<Rightarrow> int \<Rightarrow> nat \<Rightarrow> kernel_cb \<Rightarrow> valet_session \<Rightarrow> (kernel_cb \<times> valet_session) outcome" where
  "reset_block replica evict_idx i cb S =
     (let H = rbh cb
      in bind_ok (arr_get (remote_blocks H) i) (\<lambda>rb.
         bind_ok (case bitmap_g rb of None \<Rightarrow> Inl Null_Deref | Some bm \<Rightarrow> valet_bitmap_init bm) (\<lambda>bm.
         bind_ok (arr_set (remote_blocks H) i (rb\<lparr>remote_rkey := 0, remote_addr := 0, bitmap_g := Some bm\<rparr>)) (\<lambda>rbs.
         bind_ok (arr_set (rb_idx_map H) i (- 1)) (\<lambda>idx.
         bind_ok (arr_set (remote_mapped H) i RB_UNMAPPED) (\<lambda>ma.
         bind_ok (arr_set (mig_rb_idx H) i False) (\<lambda>mig.
         bind_ok (tab_set (cb_index_map S) replica evict_idx NO_CB_MAPPED) (\<lambda>cm.
           Inr (cb\<lparr>rbh := H\<lparr>remote_blocks := rbs, rb_idx_map := idx, remote_mapped := ma, mig_rb_idx := mig,
                              block_size_gb := block_size_gb H - 1, c_state := RBH_IDLE\<rparr>\<rparr>,
                S\<lparr>cb_index_map := cm\<rparr>)))))))))"

definition reset_migration_turn :: "int \<Rightarrow> int option \<Rightarrow> int \<Rightarrow> int \<Rightarrow> nat \<Rightarrow> valet_session \<Rightarrow> valet_session outcome" where
  "reset_migration_turn old new replica evict_idx i S =
     bind_ok (get_node old S) (\<lambda>cb. bind_ok (arr_get (mig_rb_idx (rbh cb)) i) (\<lambda>m.
     bind_ok (if m then bind_ok (reset_block replica evict_idx i cb S) (\<lambda>(cb, S). set_node old cb S)
              else Inr S) (\<lambda>S.
       case new of None \<Rightarrow> Inr S
       | Some n \<Rightarrow> bind_ok (get_node n S) (\<lambda>cb. bind_ok (set_mig i False cb) (\<lambda>cb. set_node n cb S)))))"

definition reset_migration_info :: "int \<Rightarrow> int option \<Rightarrow> int \<Rightarrow> int \<Rightarrow> valet_session \<Rightarrow> valet_session outcome" where
  "reset_migration_info old new replica evict_idx S =
     foldM (reset_migration_turn old new replica evict_idx) [0..<MAX_MR_SIZE_GB] S"

text \<open>
  The phases of \<open>migration_handler\<close> between its waits. The eviction phase runs when an
  \<open>EVICT\<close> message has arrived for node \<open>old\<close>; the switch when the destination has reported
  \<open>DONE_MIGRATION\<close>; the last phase when the \<open>DELETE_RB\<close> message has been sent.
\<close>

definition migration_start :: "int \<Rightarrow> valet_session \<Rightarrow> valet_session outcome" where
  "migration_start old S =
     bind_ok (get_node old S) (\<lambda>cb.
     bind_ok (iarr_set (cb_state_list S) (src_cb_index (rbh cb)) CB_MIGRATING) (\<lambda>l.
       set_rb_state old (client_swapspace_index (rbh cb)) READONLY (S\<lparr>cb_state_list := l\<rparr>)))"

definition migration_switch :: "int \<Rightarrow> int \<Rightarrow> valet_session \<Rightarrow> valet_session outcome" where
  "migration_switch old new S =
     bind_ok (get_node old S) (\<lambda>ocb. bind_ok (get_node new S) (\<lambda>ncb.
     let evict_idx = client_swapspace_index (rbh ocb)
     in bind_ok (tab_set (cb_index_map S) 0 evict_idx (dest_cb_index (rbh ncb))) (\<lambda>cm.
        bind_ok (tab_set (mapping_swapspace_to_rb S) 0 evict_idx (dest_rb_index (rbh ncb))) (\<lambda>ms.
        bind_ok (iarr_get (remote_blocks (rbh ocb)) (src_rb_index (rbh ocb))) (\<lambda>srb.
        bind_ok (iarr_get (remote_blocks (rbh ncb)) (dest_rb_index (rbh ncb))) (\<lambda>drb.
        bind_ok (case (bitmap_g drb, bitmap_g srb) of
                   (Some d, Some b) \<Rightarrow> memcpy d b BITMAP_INT_SIZE | _ \<Rightarrow> Inl Null_Deref) (\<lambda>bm.
        bind_ok (iarr_set (remote_blocks (rbh ncb)) (dest_rb_index (rbh ncb)) (drb\<lparr>bitmap_g := Some bm\<rparr>)) (\<lambda>rbs.
          set_node new (ncb\<lparr>rbh := (rbh ncb)\<lparr>c_state := RBH_READY, remote_blocks := rbs\<rparr>\<rparr>)
            (S\<lparr>cb_index_map := cm, mapping_swapspace_to_rb := ms\<rparr>)))))))))"

definition migration_finish :: "int \<Rightarrow> int \<Rightarrow> valet_session \<Rightarrow> valet_session outcome" where
  "migration_finish old new S =
     bind_ok (get_node old S) (\<lambda>cb.
     bind_ok (reset_migration_info old (Some new) (rbh_replica_index (rbh cb)) (client_swapspace_index (rbh cb)) S) (\<lambda>S.
     bind_ok (iarr_set (cb_state_list S) (src_cb_index (rbh cb)) CB_MAPPED) (\<lambda>l.
       set_rb_state old (client_swapspace_index (rbh cb)) INACTIVE (S\<lparr>cb_state_list := l\<rparr>))))"

text \<open>Without a destination the block is given up: the source deletes it and the mapping goes.\<close>

definition migration_give_up :: "int \<Rightarrow> valet_session \<Rightarrow> valet_session outcome" where
  "migration_give_up old S =
     bind_ok (get_node old S) (\<lambda>cb.
     bind_ok (reset_migration_info old None (rbh_replica_index (rbh cb)) (client_swapspace_index (rbh cb)) S) (\<lambda>S.
       set_rb_state old (client_swapspace_index (rbh cb)) INACTIVE S))"

text \<open>The \<open>DELETE_RB\<close> message marks the blocks to delete with key 1.\<close>

definition delete_rb_message :: "kernel_cb \<Rightarrow> kernel_cb outcome" where
  "delete_rb_message cb =
     bind_ok (foldM (\<lambda>i ks. bind_ok (arr_get (mig_rb_idx (rbh cb)) i) (\<lambda>m.
                arr_set ks i (if m then 1 else 0))) [0..<MAX_MR_SIZE_GB] (m_rkey (send_buf cb))) (\<lambda>ks.
       Inr (cb\<lparr>send_buf := (send_buf cb)\<lparr>m_rkey := ks, m_type := DELETE_RB\<rparr>\<rparr>))"

end
