(* ===== verification/Node_Select.thy ===== *)
theory Node_Select
  imports Rdma_State
begin

text \<open>
  Choosing and mapping a remote node (rdmabox.c): the connection to a node, the query of its free
  memory, the choice of the node with the most free memory among a random sample, and the
  request that maps a gigabyte of the device to a block of that node.

  A function that waits for a message has as an argument the messages that arrive before
  the wait is over, each with the node it comes from; when the awaited state is not reached
  then, the wait does not end (\<open>Hang\<close>). Data completions during a wait are left out. The
  answers of the RDMA library are arguments too.
\<close>

subsection \<open>Completions of control messages\<close>

text \<open>
  What the completion handler does with one received message, and with one finished send: a
  failure of the handler puts the node into the state \<open>ERROR\<close>, in which it reacts no more.
\<close>

definition recv_completion :: "bool \<Rightarrow> int \<times> message \<Rightarrow> valet_session \<Rightarrow> valet_session outcome" where
  "recv_completion kzalloc_ok cm S =
     (case cm of (c, m) \<Rightarrow> bind_ok (get_node c S) (\<lambda>cb.
       if cb_st cb = ERROR then Inr S
       else bind_ok (set_node c (cb\<lparr>recv_buf := m\<rparr>) S) (\<lambda>S.
         bind_ok (recv_msg_handler kzalloc_ok True c S) (\<lambda>(ret, S).
           if ret \<noteq> 0 then bind_ok (get_node c S) (\<lambda>cb. set_node c (cb\<lparr>cb_st := ERROR\<rparr>) S)
           else Inr S))))"

definition send_completion :: "int \<Rightarrow> valet_session \<Rightarrow> valet_session outcome" where
  "send_completion c S =
     bind_ok (get_node c S) (\<lambda>cb.
       if cb_st cb = ERROR then Inr S
       else bind_ok (send_done_postwork c S) (\<lambda>(ret, S).
         if ret \<noteq> 0 then bind_ok (get_node c S) (\<lambda>cb. set_node c (cb\<lparr>cb_st := ERROR\<rparr>) S)
         else Inr S))"

definition wait_state ::
  "bool \<Rightarrow> (int \<times> message) list \<Rightarrow> int \<Rightarrow> test_state \<Rightarrow> valet_session \<Rightarrow> valet_session outcome" where
  "wait_state kzalloc_ok arrivals c st S =
     bind_ok (foldM (recv_completion kzalloc_ok) arrivals S) (\<lambda>S. bind_ok (get_node c S) (\<lambda>cb.
       if cb_st cb = st then Inr S else Inl Hang))"

subsection \<open>Connection\<close>

fun state_value :: "test_state \<Rightarrow> nat" where
  "state_value IDLE = 1"
| "state_value CONNECT_REQUEST = 2"
| "state_value ADDR_RESOLVED = 3"
| "state_value ROUTE_RESOLVED = 4"
| "state_value CONNECTED = 5"
| "state_value RECV_QUERY_REPL = 6"
| "state_value RECV_MR_MAP = 7"
| "state_value RECV_EVICT = 8"
| "state_value RECV_MIG_MAP = 9"
| "state_value RECV_MIGRATION_DONE = 10"
| "state_value CM_DISCONNECT = 11"
| "state_value ERROR = 12"

datatype cm_event = EV_ADDR_RESOLVED | EV_ROUTE_RESOLVED | EV_CONNECT_REQUEST | EV_ESTABLISHED
  | EV_CM_ERROR | EV_DISCONNECTED | EV_DEVICE_REMOVAL | EV_OTHER

fun valet_cma_event_handler :: "cm_event \<Rightarrow> kernel_cb \<Rightarrow> kernel_cb" where
  "valet_cma_event_handler EV_ADDR_RESOLVED cb = cb\<lparr>cb_st := ADDR_RESOLVED\<rparr>"
| "valet_cma_event_handler EV_ROUTE_RESOLVED cb = cb\<lparr>cb_st := ROUTE_RESOLVED\<rparr>"
| "valet_cma_event_handler EV_CONNECT_REQUEST cb = cb\<lparr>cb_st := CONNECT_REQUEST\<rparr>"
| "valet_cma_event_handler EV_ESTABLISHED cb = cb\<lparr>cb_st := CONNECTED\<rparr>"
| "valet_cma_event_handler EV_CM_ERROR cb = cb\<lparr>cb_st := ERROR\<rparr>"
| "valet_cma_event_handler EV_DISCONNECTED cb = cb\<lparr>cb_st := CM_DISCONNECT\<rparr>"
| "valet_cma_event_handler EV_DEVICE_REMOVAL cb = cb"
| "valet_cma_event_handler EV_OTHER cb = cb"

record connect_env =
  ce_create_id :: bool
  ce_resolve_addr :: int
  ce_route_events :: "cm_event list"
  ce_setup :: int
  ce_connect :: int
  ce_connect_events :: "cm_event list"

text \<open>
  A node that is used for the first time gets empty tables; \<open>None\<close> when the
  connection identifier could not be created and the block has been freed.
\<close>

definition control_block_init :: "bool \<Rightarrow> kernel_cb \<Rightarrow> kernel_cb option" where
  "control_block_init create_id_ok cb =
     (if \<not> create_id_ok then None
      else Some (cb\<lparr>cb_st := IDLE,
        rbh := (rbh cb)\<lparr>block_size_gb := 0,
          remote_blocks := replicate MAX_MR_SIZE_GB
            \<lparr>remote_rkey = 0, remote_addr = 0, rb_state = ACTIVE, bitmap_g = None, rb_replica_index = 0\<rparr>,
          remote_mapped := replicate MAX_MR_SIZE_GB RB_UNMAPPED,
          rb_idx_map := replicate MAX_MR_SIZE_GB (- 1),
          mig_rb_idx := replicate MAX_MR_SIZE_GB False,
          c_state := RBH_IDLE\<rparr>\<rparr>))"

definition valet_bind_client :: "connect_env \<Rightarrow> kernel_cb \<Rightarrow> (int \<times> kernel_cb) outcome" where
  "valet_bind_client ce cb =
     (if ce_resolve_addr ce \<noteq> 0 then Inr (ce_resolve_addr ce, cb)
      else let cb = fold valet_cma_event_handler (ce_route_events ce) cb
           in if state_value (cb_st cb) < state_value ROUTE_RESOLVED then Inl Hang
              else if cb_st cb \<noteq> ROUTE_RESOLVED then Inr (- 4, cb)
              else Inr (0, cb))"

definition valet_connect_client :: "connect_env \<Rightarrow> kernel_cb \<Rightarrow> (int \<times> kernel_cb) outcome" where
  "valet_connect_client ce cb =
     (if ce_connect ce \<noteq> 0 then Inr (ce_connect ce, cb)
      else let cb = fold valet_cma_event_handler (ce_connect_events ce) cb
           in if state_value (cb_st cb) < state_value CONNECTED then Inl Hang
              else if cb_st cb = ERROR then Inr (- 1, cb)
              else Inr (0, cb))"

text \<open>The queue pair, the buffers and the first receive are set up in between; \<open>ce_setup\<close> is the first error there.\<close>

definition connect_remote :: "connect_env \<Rightarrow> kernel_cb \<Rightarrow> (int \<times> kernel_cb) outcome" where
  "connect_remote ce cb =
     bind_ok (valet_bind_client ce cb) (\<lambda>(ret, cb).
       if ret \<noteq> 0 then Inr (ret, cb)
       else if ce_setup ce \<noteq> 0 then Inr (ce_setup ce, cb)
       else valet_connect_client ce cb)"

subsection \<open>The choice of a node\<close>

text \<open>
  \<open>ne_query i c\<close> are the messages that arrive while turn \<open>i\<close> of the selection waits for the
  answer of node \<open>c\<close>, \<open>ne_map c\<close> those while the mapping waits.
\<close>

record net_env =
  ne_random :: "nat \<Rightarrow> nat"
  ne_connect :: "nat \<Rightarrow> connect_env"
  ne_query :: "nat \<Rightarrow> nat \<Rightarrow> (int \<times> message) list"
  ne_map :: "nat \<Rightarrow> (int \<times> message) list"
  ne_kzalloc :: bool

definition find_candidates :: "valet_session \<Rightarrow> (int list \<times> nat) outcome" where
  "find_candidates S =
     foldM (\<lambda>i (candidate, n). bind_ok (arr_get (cb_state_list S) i) (\<lambda>st.
         if before_migrating st
         then bind_ok (arr_set candidate n (int i)) (\<lambda>candidate. Inr (candidate, n + 1))
         else Inr (candidate, n)))
       [0..<cb_num S] (replicate (cb_num S) (- 1), 0)"

text \<open>
  The search for an index that has not been taken, from a random start and round the table. It
  looks at \<open>n\<close> indices; after that it would only see the same ones again.
\<close>

primrec probe :: "nat \<Rightarrow> bool list \<Rightarrow> nat \<Rightarrow> nat \<Rightarrow> nat outcome" where
  "probe 0 select_history n k = Inl Hang"
| "probe (Suc fuel) select_history n k =
     bind_ok (arr_get select_history k) (\<lambda>h.
       if h then probe fuel select_history n ((k + 1) mod n) else Inr k)"

definition pick_candidate ::
  "int list \<Rightarrow> nat \<Rightarrow> nat \<Rightarrow> nat \<Rightarrow> bool list \<Rightarrow> (nat \<times> bool list) outcome" where
  "pick_candidate candidate n rnd i select_history =
     (if n \<le> SERVER_SELECT_NUM
      then bind_ok (arr_get candidate i) (\<lambda>c. Inr (nat c, select_history))
      else bind_ok (probe n select_history n (rnd mod n)) (\<lambda>k.
           bind_ok (arr_set select_history k True) (\<lambda>h.
           bind_ok (arr_get candidate k) (\<lambda>c. Inr (nat c, h)))))"

definition query_node :: "net_env \<Rightarrow> nat \<Rightarrow> nat \<Rightarrow> valet_session \<Rightarrow> valet_session outcome" where
  "query_node env i c S =
     bind_ok (arr_get (cb_state_list S) c) (\<lambda>st. bind_ok (get_node (int c) S) (\<lambda>cb.
       if st \<noteq> CB_IDLE
       then bind_ok (set_node (int c) (cb\<lparr>send_buf := (send_buf cb)\<lparr>m_type := REQ_QUERY\<rparr>\<rparr>) S) (\<lambda>S.
         wait_state (ne_kzalloc env) (ne_query env i c) (int c) RECV_QUERY_REPL S)
       else case control_block_init (ce_create_id (ne_connect env c)) cb of
         None \<Rightarrow> Inl Null_Deref
       | Some cb \<Rightarrow>
           bind_ok (connect_remote (ne_connect env c) cb) (\<lambda>(ret, cb).
           bind_ok (set_node (int c) cb S) (\<lambda>S.
           bind_ok (wait_state (ne_kzalloc env) (ne_query env i c) (int c) RECV_QUERY_REPL S) (\<lambda>S.
           bind_ok (arr_set (cb_state_list S) c CB_CONNECTED) (\<lambda>l.
             Inr (S\<lparr>cb_state_list := l\<rparr>)))))))"

record selection =
  select_history :: "bool list"
  free_mem :: "int list"
  free_mem_sorted :: "nat list"
  num_available_servers :: nat

primrec select_loop ::
  "net_env \<Rightarrow> int list \<Rightarrow> nat \<Rightarrow> nat list \<Rightarrow> selection \<Rightarrow> valet_session \<Rightarrow> (selection \<times> valet_session) outcome" where
  "select_loop env candidate n [] L S = Inr (L, S)"
| "select_loop env candidate n (i # is) L S =
     bind_ok (pick_candidate candidate n (ne_random env i) i (select_history L)) (\<lambda>(c, h).
     bind_ok (query_node env i c S) (\<lambda>S. bind_ok (get_node (int c) S) (\<lambda>cb.
       let L = L\<lparr>select_history := h\<rparr>; a = num_available_servers L
       in if target_size_gb (rbh cb) = 0 then select_loop env candidate n is L S
          else bind_ok (arr_set (free_mem L) a (target_size_gb (rbh cb))) (\<lambda>fm.
               bind_ok (arr_set (free_mem_sorted L) a c) (\<lambda>fs.
                 let L = L\<lparr>free_mem := fm, free_mem_sorted := fs, num_available_servers := a + 1\<rparr>
                 in if a + 1 = SERVER_SELECT_NUM then Inr (L, S)
                    else select_loop env candidate n is L S)))))"

text \<open>The exchange sort in descending order of free memory, on both arrays at once.\<close>

definition sort_step :: "nat \<times> nat \<Rightarrow> int list \<times> nat list \<Rightarrow> (int list \<times> nat list) outcome" where
  "sort_step ij a =
     (case (ij, a) of ((i, j), (fm, fs)) \<Rightarrow>
       bind_ok (arr_get fm i) (\<lambda>x. bind_ok (arr_get fm j) (\<lambda>y.
         if x < y
         then bind_ok (arr_set fm i y) (\<lambda>fm. bind_ok (arr_set fm j x) (\<lambda>fm.
              bind_ok (arr_get fs i) (\<lambda>u. bind_ok (arr_get fs j) (\<lambda>v.
              bind_ok (arr_set fs i v) (\<lambda>fs. bind_ok (arr_set fs j u) (\<lambda>fs. Inr (fm, fs)))))))
         else Inr (fm, fs))))"

definition sort_free_mem :: "nat \<Rightarrow> int list \<times> nat list \<Rightarrow> (int list \<times> nat list) outcome" where
  "sort_free_mem n a = foldM sort_step (concat (map (\<lambda>i. map (Pair i) [i + 1..<n]) [0..<n - 1])) a"

text \<open>The number of nodes found and the list of them.\<close>

definition find_the_best_node ::
  "net_env \<Rightarrow> nat \<Rightarrow> valet_session \<Rightarrow> (nat list \<times> valet_session) outcome" where
  "find_the_best_node env num_replica S =
     bind_ok (find_candidates S) (\<lambda>(candidate, n).
     bind_ok (select_loop env candidate n [0..<n]
                \<lparr>select_history = replicate (cb_num S) False, free_mem = replicate SERVER_SELECT_NUM (- 1),
                 free_mem_sorted = replicate SERVER_SELECT_NUM (cb_num S), num_available_servers = 0\<rparr> S) (\<lambda>(L, S).
       if num_available_servers L < num_replica then Inr ([], S)
       else bind_ok (sort_free_mem (num_available_servers L) (free_mem L, free_mem_sorted L)) (\<lambda>(fm, fs).
            bind_ok (foldM (\<lambda>i l. bind_ok (arr_get fs i) (\<lambda>c. Inr (l @ [c]))) [0..<num_replica] []) (\<lambda>l.
              Inr (l, S)))))"

subsection \<open>Mapping a gigabyte\<close>

text \<open>
  The result is the number of replicas mapped and the nodes. The set-up of the data path when
  the node has not been mapped before changes no state of the model.
\<close>

primrec block_map_loop ::
  "net_env \<Rightarrow> nat \<Rightarrow> nat list \<Rightarrow> nat \<Rightarrow> valet_session \<Rightarrow> valet_session outcome" where
  "block_map_loop env select_idx [] i S = Inr S"
| "block_map_loop env select_idx (c # cs) i S =
     bind_ok (get_node (int c) S) (\<lambda>cb.
     bind_ok (set_node (int c) (cb\<lparr>send_buf := (send_buf cb)\<lparr>m_type := REQ_MR_MAP,
                m_size_gb := int select_idx, m_replica_index := int i\<rparr>\<rparr>)
              (S\<lparr>mapped_cb_num := mapped_cb_num S + 1\<rparr>)) (\<lambda>S.
     bind_ok (wait_state (ne_kzalloc env) (ne_map env c) (int c) RECV_MR_MAP S) (\<lambda>S.
       block_map_loop env select_idx cs (i + 1) (S\<lparr>rdma_on := DEV_RDMA_ON\<rparr>))))"

definition valet_remote_block_map ::
  "net_env \<Rightarrow> nat \<Rightarrow> valet_session \<Rightarrow> (nat list \<times> valet_session) outcome" where
  "valet_remote_block_map env select_idx S =
     bind_ok (find_the_best_node env NUM_REPLICA S) (\<lambda>(l, S).
       if length l < NUM_REPLICA then Inr (l, S)
       else bind_ok (block_map_loop env select_idx l 0 S) (\<lambda>S. Inr (l, S)))"

text \<open>\<open>None\<close> when no node could be found.\<close>

definition get_cb :: "net_env \<Rightarrow> nat \<Rightarrow> valet_session \<Rightarrow> (nat option \<times> valet_session) outcome" where
  "get_cb env swapspace_index S =
     bind_ok (tab_get (cb_index_map S) 0 (int swapspace_index)) (\<lambda>cb_index.
       if cb_index = NO_CB_MAPPED
       then bind_ok (valet_remote_block_map env swapspace_index S) (\<lambda>(l, S).
              if length l \<noteq> NUM_REPLICA then Inr (None, S) else Inr (Some (l ! 0), S))
       else bind_ok (iarr_get (cb_list S) cb_index) (\<lambda>_. Inr (Some (nat cb_index), S)))"

text \<open>The destination of a migration is told where the block comes from.\<close>

primrec migration_source :: "nat list \<Rightarrow> remote_block_handler \<Rightarrow> message \<Rightarrow> message outcome" where
  "migration_source [] H m = Inr m"
| "migration_source (i # is) H m =
     bind_ok (arr_get (mig_rb_idx H) i) (\<lambda>f.
       if f then bind_ok (arr_get (remote_blocks H) i) (\<lambda>rb.
         bind_ok (arr_set (m_rkey m) i (remote_rkey rb)) (\<lambda>ks. bind_ok (arr_set (m_buf m) i (remote_addr rb)) (\<lambda>bs.
           Inr (m\<lparr>m_rkey := ks, m_buf := bs\<rparr>))))
       else bind_ok (arr_set (m_rkey m) i 0) (\<lambda>ks. migration_source is H (m\<lparr>m_rkey := ks\<rparr>)))"

definition valet_migration_block_map ::
  "net_env \<Rightarrow> nat \<Rightarrow> int \<Rightarrow> int \<Rightarrow> int \<Rightarrow> valet_session \<Rightarrow> (nat option \<times> valet_session) outcome" where
  "valet_migration_block_map env evict_idx old src_cb replica S =
     bind_ok (find_the_best_node env 1 S) (\<lambda>(l, S).
       case l of [] \<Rightarrow> Inr (None, S)
       | c # _ \<Rightarrow>
         bind_ok (tab_get (mapping_swapspace_to_rb S) replica (int evict_idx)) (\<lambda>src_rb.
         bind_ok (get_node old S) (\<lambda>ocb. bind_ok (get_node (int c) S) (\<lambda>cb.
         bind_ok (migration_source [0..<MAX_MR_SIZE_GB] (rbh ocb) (send_buf cb)) (\<lambda>m.
         bind_ok (set_node (int c) (cb\<lparr>send_buf := m\<lparr>m_type := REQ_MIG_MAP, m_size_gb := int evict_idx,
                    m_rb_index := src_rb, m_cb_index := src_cb, m_replica_index := replica\<rparr>\<rparr>) S) (\<lambda>S.
         bind_ok (wait_state (ne_kzalloc env) (ne_map env c) (int c) RECV_MIG_MAP S) (\<lambda>S.
           Inr (Some c, S))))))))"

end
