(* ===== verification/Node_Properties.thy ===== *)
theory Node_Properties
  imports Node_Select
begin

text \<open>
  The choice of a remote node: the search over the sampled candidates ends, asks no node twice
  and finds a node with free memory whenever there is one, the better one of the first two.
\<close>

subsection \<open>Candidates and the random search\<close>

definition candidates :: "valet_session \<Rightarrow> nat list" where
  "candidates S = filter (\<lambda>i. before_migrating (cb_state_list S ! i)) [0..<cb_num S]"

definition padded :: "nat \<Rightarrow> nat list \<Rightarrow> int list" where
  "padded n C = map int C @ replicate (n - length C) (- 1)"

lemma padded_nth [simp]: "i < length C \<Longrightarrow> padded n C ! i = int (C ! i)"
  by (simp add: padded_def nth_append)

lemma padded_length: "length C \<le> n \<Longrightarrow> length (padded n C) = n"
  by (simp add: padded_def)

lemma padded_snoc:
  assumes "length C < n"
  shows "(padded n C)[length C := int c] = padded n (C @ [c])"
proof -
  have "n - length C = Suc (n - length (C @ [c]))" using assms by simp
  then show ?thesis by (simp add: padded_def list_update_append)
qed

lemma find_candidates_eq:
  assumes "length (cb_state_list S) = cb_num S"
  shows "find_candidates S = Inr (padded (cb_num S) (candidates S), length (candidates S))"
proof -
  let ?C = "\<lambda>j. filter (\<lambda>i. before_migrating (cb_state_list S ! i)) [0..<j]"
  let ?f = "\<lambda>i (candidate, n). bind_ok (arr_get (cb_state_list S) i) (\<lambda>st.
         if before_migrating st
         then bind_ok (arr_set candidate n (int i)) (\<lambda>candidate. Inr (candidate, n + 1))
         else Inr (candidate, n))"
  have "foldM ?f [0..<j] (replicate (cb_num S) (- 1), 0) = Inr (padded (cb_num S) (?C j), length (?C j))"
    if "j \<le> cb_num S" for j
    using that
  proof (induction j)
    case 0
    then show ?case by (simp add: padded_def)
  next
    case (Suc j)
    have "length (?C j) \<le> length [0..<j]" by (rule length_filter_le)
    then have l: "length (?C j) < cb_num S" using Suc.prems by simp
    then show ?case using Suc assms
      by (simp add: foldM_append padded_length padded_snoc split: prod.split)
  qed
  from this [of "cb_num S"] show ?thesis by (simp add: find_candidates_def candidates_def)
qed

lemma candidates_distinct [simp]: "distinct (candidates S)"
  by (simp add: candidates_def)

lemma candidates_bounds: "c \<in> set (candidates S) \<Longrightarrow> c < cb_num S"
  by (simp add: candidates_def)

lemma candidates_length: "length (candidates S) \<le> cb_num S"
  using length_filter_le [of _ "[0..<cb_num S]"] by (simp add: candidates_def)

text \<open>The search goes round the table, so it meets every index, and a free one ends it.\<close>

lemma probe_ok_dist:
  assumes "d < fuel" and "d < n" and "\<not> h ! ((k + d) mod n)" and "n \<le> length h" and "k < n"
  shows "\<exists>j. probe fuel h n k = Inr j \<and> j < n \<and> \<not> h ! j"
  using assms
proof (induction fuel arbitrary: d k)
  case (Suc fuel)
  show ?case
  proof (cases "h ! k")
    case True
    then obtain e where d: "d = Suc e" using Suc.prems by (cases d) auto
    have "\<not> h ! (((k + 1) mod n + e) mod n)" using Suc.prems(3) by (simp add: d mod_add_left_eq)
    then have "\<exists>j. probe fuel h n ((k + 1) mod n) = Inr j \<and> j < n \<and> \<not> h ! j"
      using Suc.IH [of e "(k + 1) mod n"] Suc.prems d by simp
    then show ?thesis using True Suc.prems by simp
  qed (use Suc.prems in simp)
qed simp

lemma probe_ok:
  assumes "j < n" and "\<not> h ! j" and "n \<le> length h" and "k < n"
  shows "\<exists>j. probe n h n k = Inr j \<and> j < n \<and> \<not> h ! j"
proof -
  have "(k + (j + n - k) mod n) mod n = j" 
  proof -
    have "(k + (j + n - k) mod n) mod n = (k + (j + n - k)) mod n" by (simp add: mod_add_right_eq)
    also have "k + (j + n - k) = j + n" using assms by simp
    finally show ?thesis using assms by simp
  qed
  then show ?thesis using assms
    by (intro probe_ok_dist [where d = "(j + n - k) mod n"]) simp_all
qed

text \<open>What is known of the nodes asked before turn \<open>i\<close>.\<close>

definition asked_ok :: "nat list \<Rightarrow> nat \<Rightarrow> nat list \<Rightarrow> bool list \<Rightarrow> bool" where
  "asked_ok C i asked h \<longleftrightarrow> distinct asked \<and> set asked \<subseteq> set C \<and> length asked = i \<and>
     length C \<le> length h \<and>
     (if length C \<le> SERVER_SELECT_NUM then asked = take i C
      else \<forall>k<length C. h ! k \<longleftrightarrow> C ! k \<in> set asked)"

lemma unasked:
  assumes "distinct C" and "length asked < length C"
  shows "\<exists>k<length C. C ! k \<notin> set asked"
proof (rule ccontr)
  assume "\<not> ?thesis"
  then have "set C \<subseteq> set asked" by (auto simp: in_set_conv_nth)
  then have "card (set C) \<le> card (set asked)" by (simp add: card_mono)
  also have "\<dots> \<le> length asked" by (rule card_length)
  finally show False using assms by (simp add: distinct_card)
qed

lemma pick_ok:
  assumes "asked_ok C i asked h" and "distinct C" and "i < length C" and "length C \<le> N"
  shows "\<exists>c h'. pick_candidate (padded N C) (length C) r i h = Inr (c, h') \<and>
    c \<in> set C \<and> c \<notin> set asked \<and> asked_ok C (Suc i) (asked @ [c]) h'"
proof (cases "length C \<le> SERVER_SELECT_NUM")
  case True
  then have a: "asked = take i C" using assms by (simp add: asked_ok_def)
  have n: "C ! i \<notin> set (take i C)" using assms by (auto simp: in_set_conv_nth nth_eq_iff_index_eq)
  have p: "pick_candidate (padded N C) (length C) r i h = Inr (C ! i, h)"
    using assms True by (simp add: pick_candidate_def padded_length)
  have "asked_ok C (Suc i) (asked @ [C ! i]) h"
    using assms True n by (auto simp: asked_ok_def a take_Suc_conv_app_nth)
  then show ?thesis using p n a assms by auto
next
  case False
  obtain k where k: "k < length C" "C ! k \<notin> set asked"
    using unasked [of C asked] assms by (auto simp: asked_ok_def)
  have h: "\<not> h ! k" "length C \<le> length h" using k assms False by (auto simp: asked_ok_def)
  have "r mod length C < length C" using k by (intro mod_less_divisor) linarith
  then obtain j where j: "probe (length C) h (length C) (r mod length C) = Inr j" "j < length C" "\<not> h ! j"
    using probe_ok [OF k(1) h] by blast
  have p: "pick_candidate (padded N C) (length C) r i h = Inr (C ! j, h[j := True])"
    using assms False j by (simp add: pick_candidate_def padded_length asked_ok_def)
  have "asked_ok C (Suc i) (asked @ [C ! j]) (h[j := True])"
    using assms False j by (auto simp: asked_ok_def nth_list_update nth_eq_iff_index_eq)
  moreover have "C ! j \<notin> set asked" using assms False j by (auto simp: asked_ok_def)
  ultimately show ?thesis using p j by auto
qed

subsection \<open>Asking a node\<close>

definition tables_ok :: "kernel_cb \<Rightarrow> bool" where
  "tables_ok cb \<longleftrightarrow> length (remote_blocks (rbh cb)) = MAX_MR_SIZE_GB \<and> length (remote_mapped (rbh cb)) = MAX_MR_SIZE_GB \<and>
     length (rb_idx_map (rbh cb)) = MAX_MR_SIZE_GB \<and> length (mig_rb_idx (rbh cb)) = MAX_MR_SIZE_GB"

text \<open>The shape of a session: one control block and state per node, the tables of used nodes allocated.\<close>

definition session_ok :: "valet_session \<Rightarrow> bool" where
  "session_ok S \<longleftrightarrow> length (cb_list S) = cb_num S \<and> length (cb_state_list S) = cb_num S \<and>
     (\<forall>c<cb_num S. cb_index (cb_list S ! c) = int c \<and>
        (cb_state_list S ! c \<noteq> CB_IDLE \<longrightarrow> tables_ok (cb_list S ! c)))"

text \<open>A node that is or can be connected, and a network that answers every query with \<open>F c\<close>.\<close>

definition conn_ok :: "connect_env \<Rightarrow> bool" where
  "conn_ok ce \<longleftrightarrow> ce_create_id ce \<and> ce_resolve_addr ce = 0 \<and> ce_setup ce = 0 \<and> ce_connect ce = 0 \<and>
     ce_route_events ce = [EV_ADDR_RESOLVED, EV_ROUTE_RESOLVED] \<and> ce_connect_events ce = [EV_ESTABLISHED]"

definition connected :: "kernel_cb \<Rightarrow> bool" where
  "connected cb \<longleftrightarrow> \<not> before_connected (cb_st cb) \<and> cb_st cb \<noteq> ERROR"

definition reachable_node :: "net_env \<Rightarrow> valet_session \<Rightarrow> nat \<Rightarrow> bool" where
  "reachable_node env S c \<longleftrightarrow> c < cb_num S \<and>
     (if cb_state_list S ! c = CB_IDLE then conn_ok (ne_connect env c) else connected (cb_list S ! c))"

definition answers :: "net_env \<Rightarrow> (nat \<Rightarrow> int) \<Rightarrow> nat list \<Rightarrow> bool" where
  "answers env F C \<longleftrightarrow> (\<forall>i. \<forall>c\<in>set C. \<exists>m. ne_query env i c = [(int c, m)] \<and> m_type m = RESP_QUERY \<and> m_size_gb m = F c)"

text \<open>A query leaves the tables of a node in use; a new node starts with empty ones.\<close>

definition tables_kept :: "bool \<Rightarrow> kernel_cb \<Rightarrow> kernel_cb \<Rightarrow> bool" where
  "tables_kept fresh cb cb' \<longleftrightarrow>
     (if fresh then remote_mapped (rbh cb') = replicate MAX_MR_SIZE_GB RB_UNMAPPED
      else remote_blocks (rbh cb') = remote_blocks (rbh cb) \<and> remote_mapped (rbh cb') = remote_mapped (rbh cb) \<and>
        rb_idx_map (rbh cb') = rb_idx_map (rbh cb))"

definition queried :: "(nat \<Rightarrow> int) \<Rightarrow> nat \<Rightarrow> valet_session \<Rightarrow> valet_session \<Rightarrow> bool" where
  "queried F c S S' \<longleftrightarrow> (\<exists>cb st. S' = S\<lparr>cb_list := (cb_list S)[c := cb], cb_state_list := (cb_state_list S)[c := st]\<rparr> \<and>
     cb_index cb = int c \<and> cb_st cb = RECV_QUERY_REPL \<and> target_size_gb (rbh cb) = F c \<and> tables_ok cb \<and>
     tables_kept (cb_state_list S ! c = CB_IDLE) (cb_list S ! c) cb \<and>
     st = (if cb_state_list S ! c = CB_IDLE then CB_CONNECTED else cb_state_list S ! c))"

lemma get_node_ok [simp]: "c < length (cb_list S) \<Longrightarrow> get_node (int c) S = Inr (cb_list S ! c)"
  by (simp add: get_node_def)

lemma set_node_ok [simp]:
  "c < length (cb_list S) \<Longrightarrow> set_node (int c) cb S = Inr (S\<lparr>cb_list := (cb_list S)[c := cb]\<rparr>)"
  by (simp add: set_node_def)

lemma recv_query_reply:
  assumes "c < length (cb_list S)" and "connected (cb_list S ! c)" and "m_type m = RESP_QUERY"
  shows "recv_completion kz (int c, m) S = Inr (S\<lparr>cb_list := (cb_list S)[c :=
    (cb_list S ! c)\<lparr>recv_buf := m, rbh := (rbh (cb_list S ! c))\<lparr>target_size_gb := m_size_gb m, age_sum := query_sum m\<rparr>,
      cb_st := RECV_QUERY_REPL\<rparr>]\<rparr>)"
  using assms by (simp add: recv_completion_def recv_msg_handler_def connected_def)

lemma wait_query_reply:
  assumes "c < length (cb_list S)" and "connected (cb_list S ! c)" and "m_type m = RESP_QUERY"
  shows "wait_state kz [(int c, m)] (int c) RECV_QUERY_REPL S = Inr (S\<lparr>cb_list := (cb_list S)[c :=
    (cb_list S ! c)\<lparr>recv_buf := m, rbh := (rbh (cb_list S ! c))\<lparr>target_size_gb := m_size_gb m, age_sum := query_sum m\<rparr>,
      cb_st := RECV_QUERY_REPL\<rparr>]\<rparr>)"
  using assms by (simp add: wait_state_def recv_query_reply)

lemma connect_remote_ok:
  assumes "conn_ok ce" and "control_block_init (ce_create_id ce) cb = Some cb'"
  shows "connect_remote ce cb' = Inr (0, cb'\<lparr>cb_st := CONNECTED\<rparr>)"
  using assms by (simp add: conn_ok_def connect_remote_def valet_bind_client_def valet_connect_client_def)

lemma query_ok:
  assumes "session_ok S" and "reachable_node env S c" and "answers env F C" and "c \<in> set C"
  shows "\<exists>S'. query_node env i c S = Inr S' \<and> queried F c S S'"
proof -
  have l: "c < length (cb_list S)" "c < length (cb_state_list S)" "cb_index (cb_list S ! c) = int c"
    using assms by (auto simp: session_ok_def reachable_node_def)
  obtain m where m: "ne_query env i c = [(int c, m)]" "m_type m = RESP_QUERY" "m_size_gb m = F c"
    using assms by (auto simp: answers_def)
  show ?thesis
  proof (cases "cb_state_list S ! c = CB_IDLE")
    case True
    then have ce: "conn_ok (ne_connect env c)" using assms by (simp add: reachable_node_def)
    then obtain cb where cb: "control_block_init (ce_create_id (ne_connect env c)) (cb_list S ! c) = Some cb"
      by (simp add: control_block_init_def conn_ok_def)
    then have t: "tables_ok cb" "cb_index cb = int c" "remote_mapped (rbh cb) = replicate MAX_MR_SIZE_GB RB_UNMAPPED"
      using l by (auto simp: control_block_init_def tables_ok_def split: if_splits)
    then show ?thesis
      using True l m cb connect_remote_ok [OF ce cb]
      by (simp add: query_node_def wait_query_reply connected_def queried_def tables_ok_def tables_kept_def)
         (rule exI, rule conjI, rule refl, simp)
  next
    case False
    then have "connected (cb_list S ! c)" "tables_ok (cb_list S ! c)"
      using assms by (auto simp: reachable_node_def session_ok_def)
    then show ?thesis using False l m
      by (simp add: query_node_def wait_query_reply connected_def queried_def tables_ok_def tables_kept_def)
         (rule exI, rule conjI, rule refl, simp)
  qed
qed

subsection \<open>The sample\<close>

text \<open>The nodes of \<open>asked\<close> have answered; nothing else of the session has changed.\<close>

definition surveyed :: "(nat \<Rightarrow> int) \<Rightarrow> nat list \<Rightarrow> valet_session \<Rightarrow> valet_session \<Rightarrow> bool" where
  "surveyed F asked S0 S \<longleftrightarrow> (\<exists>cl sl. S = S0\<lparr>cb_list := cl, cb_state_list := sl\<rparr>) \<and> session_ok S \<and>
     (\<forall>c<cb_num S0. if c \<in> set asked
        then cb_st (cb_list S ! c) = RECV_QUERY_REPL \<and> target_size_gb (rbh (cb_list S ! c)) = F c \<and>
          tables_kept (cb_state_list S0 ! c = CB_IDLE) (cb_list S0 ! c) (cb_list S ! c) \<and>
          cb_state_list S ! c = (if cb_state_list S0 ! c = CB_IDLE then CB_CONNECTED else cb_state_list S0 ! c)
        else cb_list S ! c = cb_list S0 ! c \<and> cb_state_list S ! c = cb_state_list S0 ! c)"

lemma surveyed_refl: "session_ok S \<Longrightarrow> surveyed F [] S S"
  unfolding surveyed_def by (auto intro!: exI [of _ "cb_list S"] exI [of _ "cb_state_list S"])

lemma surveyed_cb_num: "surveyed F asked S0 S \<Longrightarrow> cb_num S = cb_num S0"
  by (auto simp: surveyed_def)

lemma queried_session_ok:
  assumes "session_ok S" and "queried F c S S'" and "c < cb_num S"
  shows "session_ok S'"
  using assms unfolding session_ok_def queried_def by (auto simp: nth_list_update)

lemma queried_surveyed:
  assumes "surveyed F asked S0 S" and "queried F c S S'" and "c < cb_num S0" and "c \<notin> set asked"
  shows "surveyed F (asked @ [c]) S0 S'"
proof -
  have s: "session_ok S" using assms by (simp add: surveyed_def)
  then have s': "session_ok S'" using assms queried_session_ok surveyed_cb_num by metis
  obtain cl sl where S: "S = S0\<lparr>cb_list := cl, cb_state_list := sl\<rparr>" using assms(1) by (auto simp: surveyed_def)
  have l: "length cl = cb_num S0" "length sl = cb_num S0" using s unfolding S session_ok_def by simp_all
  obtain cb st where q: "S' = S\<lparr>cb_list := (cb_list S)[c := cb], cb_state_list := (cb_state_list S)[c := st]\<rparr>"
      "cb_st cb = RECV_QUERY_REPL" "target_size_gb (rbh cb) = F c"
      "st = (if cb_state_list S ! c = CB_IDLE then CB_CONNECTED else cb_state_list S ! c)"
      "tables_kept (cb_state_list S ! c = CB_IDLE) (cb_list S ! c) cb"
    using assms(2) unfolding queried_def by blast
  have e: "\<exists>cl sl. S' = S0\<lparr>cb_list := cl, cb_state_list := sl\<rparr>" unfolding q(1) S by auto
  have n: "cb_list S' = cl[c := cb]" "cb_state_list S' = sl[c := st]" unfolding q(1) S by simp_all
  have cs: "cb_list S = cl" "cb_state_list S = sl" unfolding S by simp_all
  have old: "\<forall>d<cb_num S0. if d \<in> set asked
        then cb_st (cl ! d) = RECV_QUERY_REPL \<and> target_size_gb (rbh (cl ! d)) = F d \<and>
          tables_kept (cb_state_list S0 ! d = CB_IDLE) (cb_list S0 ! d) (cl ! d) \<and>
          sl ! d = (if cb_state_list S0 ! d = CB_IDLE then CB_CONNECTED else cb_state_list S0 ! d)
        else cl ! d = cb_list S0 ! d \<and> sl ! d = cb_state_list S0 ! d"
    using assms(1) unfolding surveyed_def cs by blast
  then have o: "sl ! c = cb_state_list S0 ! c" "cl ! c = cb_list S0 ! c" using assms(3,4) by auto
  have "st = (if cb_state_list S0 ! c = CB_IDLE then CB_CONNECTED else cb_state_list S0 ! c)"
    "tables_kept (cb_state_list S0 ! c = CB_IDLE) (cb_list S0 ! c) cb"
    using q(4,5) unfolding cs o by simp_all
  then show ?thesis using old s' e l assms(3,4) q(2,3)
    unfolding surveyed_def n by (auto simp: nth_list_update)
qed

lemma reachable_surveyed:
  assumes "surveyed F asked S0 S" and "reachable_node env S0 c" and "c \<notin> set asked"
  shows "reachable_node env S c"
  using assms surveyed_cb_num [OF assms(1)] by (simp add: surveyed_def reachable_node_def)

abbreviation (input) available :: "(nat \<Rightarrow> int) \<Rightarrow> nat list \<Rightarrow> nat list" where
  "available F \<equiv> filter (\<lambda>c. F c \<noteq> 0)"

definition collected :: "(nat \<Rightarrow> int) \<Rightarrow> nat list \<Rightarrow> selection \<Rightarrow> bool" where
  "collected F asked L \<longleftrightarrow> length (free_mem L) = SERVER_SELECT_NUM \<and> length (free_mem_sorted L) = SERVER_SELECT_NUM \<and>
     num_available_servers L = length (available F asked) \<and> num_available_servers L \<le> SERVER_SELECT_NUM \<and>
     take (num_available_servers L) (free_mem L) = map F (available F asked) \<and>
     take (num_available_servers L) (free_mem_sorted L) = available F asked"

lemma collected_skip:
  "F c = 0 \<Longrightarrow> collected F asked L \<Longrightarrow> collected F (asked @ [c]) (L\<lparr>select_history := h\<rparr>)"
  by (auto simp: collected_def)

lemma collected_add:
  assumes "F c \<noteq> 0" and "collected F asked L" and "a = num_available_servers L" and "a < SERVER_SELECT_NUM"
  shows "collected F (asked @ [c]) (L\<lparr>select_history := h, free_mem := (free_mem L)[a := F c],
    free_mem_sorted := (free_mem_sorted L)[a := c], num_available_servers := a + 1\<rparr>)"
  using assms by (auto simp: collected_def take_Suc_conv_app_nth)

lemma select_loop_ok:
  assumes "asked_ok C i asked (select_history L)" and "surveyed F asked S0 S" and "collected F asked L"
    and "num_available_servers L < SERVER_SELECT_NUM"
    and "distinct C" and "\<forall>c\<in>set C. reachable_node env S0 c" and "answers env F C"
    and "length C \<le> cb_num S0" and "i \<le> length C"
  shows "\<exists>asked' L' S'. select_loop env (padded (cb_num S0) C) (length C) [i..<length C] L S = Inr (L', S') \<and>
    surveyed F asked' S0 S' \<and> collected F asked' L' \<and> distinct asked' \<and> set asked' \<subseteq> set C \<and>
    (num_available_servers L' < SERVER_SELECT_NUM \<longrightarrow> set asked' = set C)"
  using assms(1-4,9)
proof (induction "length C - i" arbitrary: i asked L S)
  case 0
  then have i: "i = length C" by simp
  have a: "distinct asked" "set asked \<subseteq> set C" "length asked = length C" using 0 by (auto simp: asked_ok_def i)
  then have "set asked = set C" using assms(5) by (metis card_subset_eq distinct_card finite_set)
  then show ?case using 0 i a by auto
next
  case (Suc k)
  then have i: "i < length C" by simp
  obtain c h where p: "pick_candidate (padded (cb_num S0) C) (length C) (ne_random env i) i (select_history L) = Inr (c, h)"
      "c \<in> set C" "c \<notin> set asked" "asked_ok C (Suc i) (asked @ [c]) h"
    using pick_ok [OF Suc.prems(1) assms(5) i assms(8)] by blast
  have s: "session_ok S" using Suc.prems by (simp add: surveyed_def)
  have r: "reachable_node env S c" using reachable_surveyed Suc.prems(2) assms(6) p by blast
  obtain S1 where q: "query_node env i c S = Inr S1" "queried F c S S1"
    using query_ok [OF s r assms(7) p(2)] by blast
  have c: "c < cb_num S0" using r surveyed_cb_num [OF Suc.prems(2)] by (simp add: reachable_node_def)
  have s1: "surveyed F (asked @ [c]) S0 S1" using queried_surveyed Suc.prems(2) q(2) c p(3) by blast
  have g: "get_node (int c) S1 = Inr (cb_list S1 ! c)" "target_size_gb (rbh (cb_list S1 ! c)) = F c"
    using s1 c surveyed_cb_num [OF s1] by (auto simp: surveyed_def session_ok_def)
  have step: "select_loop env (padded (cb_num S0) C) (length C) [i..<length C] L S =
    bind_ok (pick_candidate (padded (cb_num S0) C) (length C) (ne_random env i) i (select_history L)) (\<lambda>(c, h).
     bind_ok (query_node env i c S) (\<lambda>S. bind_ok (get_node (int c) S) (\<lambda>cb.
       let L = L\<lparr>select_history := h\<rparr>; a = num_available_servers L
       in if target_size_gb (rbh cb) = 0 then select_loop env (padded (cb_num S0) C) (length C) [Suc i..<length C] L S
          else bind_ok (arr_set (free_mem L) a (target_size_gb (rbh cb))) (\<lambda>fm.
               bind_ok (arr_set (free_mem_sorted L) a c) (\<lambda>fs.
                 let L = L\<lparr>free_mem := fm, free_mem_sorted := fs, num_available_servers := a + 1\<rparr>
                 in if a + 1 = SERVER_SELECT_NUM then Inr (L, S)
                    else select_loop env (padded (cb_num S0) C) (length C) [Suc i..<length C] L S)))))"
    using i by (simp add: upt_conv_Cons)
  show ?case
  proof (cases "F c = 0")
    case True
    have "\<exists>asked' L' S'. select_loop env (padded (cb_num S0) C) (length C) [Suc i..<length C] (L\<lparr>select_history := h\<rparr>) S1 = Inr (L', S') \<and>
        surveyed F asked' S0 S' \<and> collected F asked' L' \<and> distinct asked' \<and> set asked' \<subseteq> set C \<and>
        (num_available_servers L' < SERVER_SELECT_NUM \<longrightarrow> set asked' = set C)"
      using Suc.hyps(1) [of "Suc i" "asked @ [c]" "L\<lparr>select_history := h\<rparr>" S1] Suc.hyps(2) i Suc.prems(4) p(4) s1
        collected_skip [OF True Suc.prems(3)] by simp
    then show ?thesis unfolding step by (simp add: p(1) q(1) g True)
  next
    case False
    let ?a = "num_available_servers L"
    let ?L = "L\<lparr>select_history := h, free_mem := (free_mem L)[?a := F c],
      free_mem_sorted := (free_mem_sorted L)[?a := c], num_available_servers := ?a + 1\<rparr>"
    have col: "collected F (asked @ [c]) ?L"
      using collected_add [OF False Suc.prems(3) refl Suc.prems(4)] .
    have len: "?a < length (free_mem L)" "?a < length (free_mem_sorted L)"
      using Suc.prems(3,4) by (simp_all add: collected_def)
    have d: "distinct (asked @ [c])" "set (asked @ [c]) \<subseteq> set C" using p(4) by (auto simp: asked_ok_def)
    show ?thesis
    proof (cases "?a + 1 = SERVER_SELECT_NUM")
      case True
      then show ?thesis unfolding step using False s1 col d len
        by (intro exI [of _ "asked @ [c]"] exI [of _ ?L] exI [of _ S1]) (simp add: p(1) q(1) g)
    next
      case n: False
      have "\<exists>asked' L' S'. select_loop env (padded (cb_num S0) C) (length C) [Suc i..<length C] ?L S1 = Inr (L', S') \<and>
          surveyed F asked' S0 S' \<and> collected F asked' L' \<and> distinct asked' \<and> set asked' \<subseteq> set C \<and>
          (num_available_servers L' < SERVER_SELECT_NUM \<longrightarrow> set asked' = set C)"
        using Suc.hyps(1) [of "Suc i" "asked @ [c]" ?L S1] Suc.hyps(2) i Suc.prems(4) p(4) s1 col n by simp
      then show ?thesis unfolding step using False len n by (simp add: p(1) q(1) g Let_def)
    qed
  qed
qed

subsection \<open>The chosen node\<close>

lemma sort_free_mem_one: "sort_free_mem 1 (fm, fs) = Inr (fm, fs)"
  by (simp add: sort_free_mem_def)

lemma sort_free_mem_two:
  "sort_free_mem 2 ([x, y], [a, b]) = Inr (if x < y then ([y, x], [b, a]) else ([x, y], [a, b]))"
  by (simp add: sort_free_mem_def sort_step_def upt_rec)

lemma best_of_one:
  assumes "collected F asked L" and "available F asked = [a]"
  shows "\<exists>fm fs. sort_free_mem (num_available_servers L) (free_mem L, free_mem_sorted L) = Inr (fm, fs) \<and>
    fs ! 0 = a \<and> length fs = SERVER_SELECT_NUM"
  using assms sort_free_mem_one by (auto simp: collected_def take_Suc_conv_app_nth)

lemma take_two: "length xs = 2 \<Longrightarrow> take 2 xs = xs"
  by simp

lemma best_of_two:
  assumes "collected F asked L" and "available F asked = [a, b]"
  shows "\<exists>fm fs. sort_free_mem (num_available_servers L) (free_mem L, free_mem_sorted L) = Inr (fm, fs) \<and>
    fs ! 0 = (if F a < F b then b else a) \<and> length fs = SERVER_SELECT_NUM"
proof -
  have l: "num_available_servers L = 2" "free_mem L = [F a, F b]" "free_mem_sorted L = [a, b]"
    using assms by (auto simp: collected_def)
  then show ?thesis using sort_free_mem_two [of "F a" "F b" a b] by auto
qed

definition best_of :: "(nat \<Rightarrow> int) \<Rightarrow> nat set \<Rightarrow> nat \<Rightarrow> bool" where
  "best_of F C c \<longleftrightarrow> c \<in> C \<and> F c \<noteq> 0 \<and>
     ((\<exists>d\<in>C. d \<noteq> c \<and> F d \<noteq> 0) \<longrightarrow> (\<exists>d\<in>C. d \<noteq> c \<and> F d \<noteq> 0 \<and> F d \<le> F c))"

lemma available_cases:
  assumes "length (available F asked) \<le> 2"
  obtains "available F asked = []" | a where "available F asked = [a]" | a b where "available F asked = [a, b]"
  using assms by (cases "available F asked" rule: remdups_adj.cases) auto

lemma find_best_ok:
  assumes "session_ok S" and "\<forall>c\<in>set (candidates S). reachable_node env S c" and "answers env F (candidates S)"
  shows "\<exists>l S' asked. find_the_best_node env 1 S = Inr (l, S') \<and> surveyed F asked S S' \<and>
    (if \<forall>c\<in>set (candidates S). F c = 0 then l = []
     else \<exists>c. l = [c] \<and> best_of F (set (candidates S)) c \<and> c \<in> set asked)"
proof -
  let ?C = "candidates S"
  let ?L = "\<lparr>select_history = replicate (cb_num S) False, free_mem = replicate SERVER_SELECT_NUM (- 1),
    free_mem_sorted = replicate SERVER_SELECT_NUM (cb_num S), num_available_servers = 0\<rparr>"
  have i: "asked_ok ?C 0 [] (select_history ?L)" "collected F [] ?L"
    using candidates_length [of S] by (auto simp: asked_ok_def collected_def)
  obtain asked L S' where sl: "select_loop env (padded (cb_num S) ?C) (length ?C) [0..<length ?C] ?L S = Inr (L, S')"
      "surveyed F asked S S'" "collected F asked L" "distinct asked" "set asked \<subseteq> set ?C"
      "num_available_servers L < SERVER_SELECT_NUM \<longrightarrow> set asked = set ?C"
    using select_loop_ok [OF i(1) surveyed_refl [OF assms(1)] i(2) _ candidates_distinct assms(2,3) candidates_length]
    by auto
  have len: "length (cb_state_list S) = cb_num S" using assms by (simp add: session_ok_def)
  have n: "num_available_servers L = length (available F asked)" "num_available_servers L \<le> 2"
    using sl(3) by (simp_all add: collected_def)
  have run: "find_the_best_node env 1 S =
     (if num_available_servers L < 1 then Inr ([], S')
      else bind_ok (sort_free_mem (num_available_servers L) (free_mem L, free_mem_sorted L)) (\<lambda>(fm, fs).
            bind_ok (arr_get fs 0) (\<lambda>c. Inr ([c], S'))))"
    using sl(1) by (simp add: find_the_best_node_def find_candidates_eq [OF len] bind_ok_assoc split: prod.split)
  have zero: "(\<forall>c\<in>set ?C. F c = 0) \<longleftrightarrow> available F asked = []"
  proof
    show "available F asked = []" if "\<forall>c\<in>set ?C. F c = 0" using that sl(5) unfolding filter_empty_conv by blast
    assume a: "available F asked = []"
    then have "num_available_servers L < SERVER_SELECT_NUM" using n(1) by simp
    then have e: "set asked = set ?C" using sl(6) by blast
    have "\<forall>c\<in>set asked. F c = 0" using a unfolding filter_empty_conv by blast
    then show "\<forall>c\<in>set ?C. F c = 0" unfolding e .
  qed
  have "length (available F asked) \<le> 2" using n by simp
  then show ?thesis
  proof (cases rule: available_cases)
    case 1
    then show ?thesis using run zero n sl(2) by auto
  next
    case (2 a)
    then have a: "a \<in> set asked" "F a \<noteq> 0" by (auto simp: filter_eq_Cons_iff)
    obtain fm fs where f: "sort_free_mem (num_available_servers L) (free_mem L, free_mem_sorted L) = Inr (fm, fs)"
        "fs ! 0 = a" "length fs = SERVER_SELECT_NUM" using best_of_one [OF sl(3) 2] by blast
    have "find_the_best_node env 1 S = Inr ([a], S')" using run 2 n f by simp
    moreover have "\<forall>d\<in>set ?C. F d \<noteq> 0 \<longrightarrow> d = a"
    proof -
      have "set asked = set ?C" using n 2 sl(6) by simp
      moreover have "\<forall>d\<in>set asked. F d \<noteq> 0 \<longrightarrow> d \<in> set (available F asked)" by simp
      ultimately show ?thesis unfolding 2 by simp
    qed
    ultimately show ?thesis using a zero 2 sl(2,5) unfolding best_of_def by auto
  next
    case (3 a b)
    let ?c = "if F a < F b then b else a"
    have m: "a \<in> set (available F asked)" "b \<in> set (available F asked)" unfolding 3 by simp_all
    have "distinct (available F asked)" using sl(4) by simp
    then have d: "a \<noteq> b" unfolding 3 by simp
    have ab: "a \<in> set asked" "F a \<noteq> 0" "b \<in> set asked" "F b \<noteq> 0" "a \<noteq> b"
      using m d by simp_all
    obtain fm fs where f: "sort_free_mem (num_available_servers L) (free_mem L, free_mem_sorted L) = Inr (fm, fs)"
        "fs ! 0 = ?c" "length fs = SERVER_SELECT_NUM" using best_of_two [OF sl(3) 3] by blast
    have "find_the_best_node env 1 S = Inr ([?c], S')" using run 3 n f by simp
    moreover have "best_of F (set ?C) ?c" using ab sl(5) unfolding best_of_def by auto
    moreover have "?c \<in> set asked" using ab by simp
    ultimately show ?thesis using zero 3 sl(2) by auto
  qed
qed

end
