(* ===== verification/Block_Map.thy ===== *)
theory Block_Map
  imports Node_Properties
begin

text \<open>
  Where each gigabyte of the device lives. The two tables of the session and the tables of the
  nodes together are read as one partial function, from gigabytes to blocks; the
  invariant makes it injective. The handlers of rdmabox.c that change the tables are
  shown to update that function.
\<close>

subsection \<open>The placement\<close>

definition tab_ok :: "int list list \<Rightarrow> bool" where
  "tab_ok t \<longleftrightarrow> length t = NUM_REPLICA \<and> length (t ! 0) = SWAPSPACE_SIZE_G"

definition placement :: "valet_session \<Rightarrow> nat \<rightharpoonup> nat \<times> nat" where
  "placement S g =
     (if g < SWAPSPACE_SIZE_G \<and> cb_index_map S ! 0 ! g \<noteq> NO_CB_MAPPED
      then Some (nat (cb_index_map S ! 0 ! g), nat (mapping_swapspace_to_rb S ! 0 ! g)) else None)"

abbreviation (input) node_rbh :: "valet_session \<Rightarrow> nat \<Rightarrow> remote_block_handler" where
  "node_rbh S c \<equiv> rbh (cb_list S ! c)"

definition block_at :: "valet_session \<Rightarrow> nat \<Rightarrow> nat \<Rightarrow> remote_block" where
  "block_at S c i = remote_blocks (node_rbh S c) ! i"

text \<open>A placed gigabyte: its block exists, is marked as its own, and has a bitmap.\<close>

definition placed_ok :: "valet_session \<Rightarrow> nat \<Rightarrow> nat \<Rightarrow> nat \<Rightarrow> bool" where
  "placed_ok S g c i \<longleftrightarrow> cb_index_map S ! 0 ! g = int c \<and> mapping_swapspace_to_rb S ! 0 ! g = int i \<and>
     c < cb_num S \<and> i < MAX_MR_SIZE_GB \<and> cb_state_list S ! c \<noteq> CB_IDLE \<and>
     remote_mapped (node_rbh S c) ! i = RB_MAPPED \<and> rb_idx_map (node_rbh S c) ! i = int g \<and>
     (\<exists>bm. bitmap_g (block_at S c i) = Some bm \<and> bitmap_ok bm)"

definition maps_ok :: "valet_session \<Rightarrow> bool" where
  "maps_ok S \<longleftrightarrow> session_ok S \<and> tab_ok (cb_index_map S) \<and> tab_ok (mapping_swapspace_to_rb S) \<and>
     (\<forall>g c i. placement S g = Some (c, i) \<longrightarrow> placed_ok S g c i)"

lemma maps_ok_placed: "maps_ok S \<Longrightarrow> placement S g = Some (c, i) \<Longrightarrow> placed_ok S g c i"
  by (simp add: maps_ok_def)

lemma placement_injective:
  assumes "maps_ok S" and "placement S g = Some b" and "placement S h = Some b"
  shows "g = h"
  using maps_ok_placed [OF assms(1), of g "fst b" "snd b"] maps_ok_placed [OF assms(1), of h "fst b" "snd b"]
    assms(2,3) by (simp add: placed_ok_def)

lemma tab_set_0:
  assumes "tab_ok t" and "g < SWAPSPACE_SIZE_G"
  shows "tab_set t 0 (int g) v = Inr [(t ! 0)[g := v]]"
  using assms by (cases t) (auto simp: tab_set_def tab_ok_def iarr_get_def iarr_set_def)

lemma tab_get_0:
  assumes "tab_ok t" and "g < SWAPSPACE_SIZE_G"
  shows "tab_get t 0 (int g) = Inr (t ! 0 ! g)"
  using assms by (simp add: tab_get_def tab_ok_def iarr_get_def)

lemma tab_ok_upd [simp]: "tab_ok t \<Longrightarrow> tab_ok [(t ! 0)[g := v]]"
  by (simp add: tab_ok_def)

subsection \<open>A map reply\<close>

text \<open>The message names block \<open>i\<close> first, for gigabyte \<open>g\<close> of the primary copy.\<close>

definition map_reply :: "message \<Rightarrow> nat \<Rightarrow> nat \<Rightarrow> bool" where
  "map_reply m g i \<longleftrightarrow> m_type m = RESP_MR_MAP \<and> m_size_gb m = int g \<and> m_replica_index m = 0 \<and>
     g < SWAPSPACE_SIZE_G \<and> i < MAX_MR_SIZE_GB \<and> length (m_rkey m) = MAX_MR_SIZE_GB \<and> length (m_buf m) = MAX_MR_SIZE_GB \<and>
     m_rkey m ! i \<noteq> 0 \<and> (\<forall>j<i. m_rkey m ! j = 0)"

definition installed :: "message \<Rightarrow> nat \<Rightarrow> nat \<Rightarrow> kernel_cb \<Rightarrow> kernel_cb" where
  "installed m g i cb = cb\<lparr>rbh := (rbh cb)\<lparr>
     rb_idx_map := (rb_idx_map (rbh cb))[i := int g], remote_mapped := (remote_mapped (rbh cb))[i := RB_MAPPED],
     block_size_gb := block_size_gb (rbh cb) + 1,
     remote_blocks := (remote_blocks (rbh cb))[i := (remote_blocks (rbh cb) ! i)\<lparr>remote_rkey := ntohl (m_rkey m ! i),
        remote_addr := ntohll (m_buf m ! i), bitmap_g := Some (replicate BITMAP_INT_SIZE 0), rb_replica_index := 0,
        rb_state := ACTIVE\<rparr>],
     c_state := RBH_READY\<rparr>\<rparr>"

lemma bitmap_init_zero: "valet_bitmap_init (replicate BITMAP_INT_SIZE 0) = Inr (replicate BITMAP_INT_SIZE 0)"
  by (simp add: valet_bitmap_init_def)

lemma block_install_ok:
  assumes "tables_ok cb" and "length (m_rkey (recv_buf cb)) = MAX_MR_SIZE_GB"
    and "length (m_buf (recv_buf cb)) = MAX_MR_SIZE_GB" and "i < MAX_MR_SIZE_GB"
  shows "block_install True g r i cb = Inr (cb\<lparr>rbh := (rbh cb)\<lparr>
     remote_blocks := (remote_blocks (rbh cb))[i := (remote_blocks (rbh cb) ! i)\<lparr>remote_rkey := ntohl (m_rkey (recv_buf cb) ! i),
        remote_addr := ntohll (m_buf (recv_buf cb) ! i), bitmap_g := Some (replicate BITMAP_INT_SIZE 0), rb_replica_index := r\<rparr>],
     rb_idx_map := (rb_idx_map (rbh cb))[i := g], remote_mapped := (remote_mapped (rbh cb))[i := RB_MAPPED],
     block_size_gb := block_size_gb (rbh cb) + 1\<rparr>\<rparr>)"
  using assms by (simp add: block_install_def tables_ok_def bitmap_init_zero Let_def)

lemma remote_block_init_skip:
  assumes "c < length (cb_list S)" and "\<forall>j\<in>set js. j < length (m_rkey (recv_buf (cb_list S ! c))) \<and> m_rkey (recv_buf (cb_list S ! c)) ! j = 0"
  shows "remote_block_init_loop kz (js @ is) (int c) S = remote_block_init_loop kz is (int c) S"
  using assms(2) by (induction js) (simp_all add: assms(1) Let_def)

lemma remote_block_init_ok:
  fixes S :: valet_session
  assumes "c < length (cb_list S)" and "tables_ok (cb_list S ! c)" and "map_reply (recv_buf (cb_list S ! c)) g i"
    and "tab_ok (cb_index_map S)" and "tab_ok (mapping_swapspace_to_rb S)"
    and "cb_index (cb_list S ! c) = int c"
  shows "valet_remote_block_init True (int c) S = Inr (S\<lparr>
    mapping_swapspace_to_rb := [(mapping_swapspace_to_rb S ! 0)[g := int i]],
    cb_index_map := [(cb_index_map S ! 0)[g := int c]],
    cb_list := (cb_list S)[c := installed (recv_buf (cb_list S ! c)) g i (cb_list S ! c)]\<rparr>)"
proof -
  let ?cb = "cb_list S ! c"
  have m: "i < MAX_MR_SIZE_GB" "g < SWAPSPACE_SIZE_G" "m_rkey (recv_buf ?cb) ! i \<noteq> 0" "length (m_rkey (recv_buf ?cb)) = MAX_MR_SIZE_GB"
    "length (m_buf (recv_buf ?cb)) = MAX_MR_SIZE_GB" "m_size_gb (recv_buf ?cb) = int g" "m_replica_index (recv_buf ?cb) = 0"
    "\<forall>j<i. m_rkey (recv_buf ?cb) ! j = 0"
    using assms(3) by (simp_all add: map_reply_def)
  have "[0..<MAX_MR_SIZE_GB] = [0..<i] @ i # [Suc i..<MAX_MR_SIZE_GB]"
    using m(1) by (metis upt_add_eq_append upt_conv_Cons le_add_diff_inverse less_imp_le zero_le)
  then have "valet_remote_block_init True (int c) S =
    remote_block_init_loop True (i # [Suc i..<MAX_MR_SIZE_GB]) (int c) S"
    unfolding valet_remote_block_init_def using remote_block_init_skip [of c S "[0..<i]"] assms(1) m by simp
  also have "\<dots> = Inr (S\<lparr>
    mapping_swapspace_to_rb := [(mapping_swapspace_to_rb S ! 0)[g := int i]],
    cb_index_map := [(cb_index_map S ! 0)[g := int c]],
    cb_list := (cb_list S)[c := installed (recv_buf ?cb) g i ?cb]\<rparr>)"
    using assms m by (simp add: Let_def block_install_ok tab_set_0 tables_ok_def installed_def)
  finally show ?thesis .
qed

text \<open>What the arrival of such a message makes of the session.\<close>

definition mapped_session :: "nat \<Rightarrow> message \<Rightarrow> nat \<Rightarrow> nat \<Rightarrow> valet_session \<Rightarrow> valet_session" where
  "mapped_session c m g i S = S\<lparr>
    cb_state_list := (cb_state_list S)[c := CB_MAPPED],
    mapping_swapspace_to_rb := [(mapping_swapspace_to_rb S ! 0)[g := int i]],
    cb_index_map := [(cb_index_map S ! 0)[g := int c]],
    cb_list := (cb_list S)[c := installed m g i ((cb_list S ! c)\<lparr>recv_buf := m, cb_st := RECV_MR_MAP\<rparr>)]\<rparr>"

lemma recv_map_reply:
  assumes "maps_ok S" and "c < cb_num S" and "tables_ok (cb_list S ! c)" and "connected (cb_list S ! c)"
    and "map_reply m g i"
  shows "recv_completion True (int c, m) S = Inr (mapped_session c m g i S)"
proof -
  have s: "length (cb_list S) = cb_num S" "length (cb_state_list S) = cb_num S" "cb_index (cb_list S ! c) = int c"
    "tab_ok (cb_index_map S)" "tab_ok (mapping_swapspace_to_rb S)"
    using assms(1,2) by (simp_all add: maps_ok_def session_ok_def)
  let ?S = "S\<lparr>cb_state_list := (cb_state_list S)[c := CB_MAPPED],
    cb_list := (cb_list S)[c := (cb_list S ! c)\<lparr>recv_buf := m, cb_st := RECV_MR_MAP\<rparr>]\<rparr>"
  have t: "m_type m = RESP_MR_MAP" using assms(5) by (simp add: map_reply_def)
  have "valet_remote_block_init True (int c) ?S = Inr (mapped_session c m g i S)"
    using remote_block_init_ok [of c ?S g i] assms s by (simp add: tables_ok_def mapped_session_def)
  then show ?thesis using assms(2,4) s t
    by (simp add: recv_completion_def recv_msg_handler_def connected_def)
qed

lemma mapped_session_shape:
  assumes "maps_ok S" and "c < cb_num S" and "tables_ok (cb_list S ! c)"
  shows "session_ok (mapped_session c m g i S)" "tab_ok (cb_index_map (mapped_session c m g i S))"
    "tab_ok (mapping_swapspace_to_rb (mapped_session c m g i S))"
  using assms by (auto simp: maps_ok_def session_ok_def mapped_session_def installed_def tables_ok_def nth_list_update)

lemma placement_mapped:
  assumes "maps_ok S" and "map_reply m g i"
  shows "placement (mapped_session c m g i S) = (placement S)(g \<mapsto> (c, i))"
  using assms by (auto simp: placement_def mapped_session_def maps_ok_def tab_ok_def map_reply_def nth_list_update)

text \<open>Every other block, of this and of every other node, is as it was.\<close>

definition other_blocks_same :: "nat \<Rightarrow> nat \<Rightarrow> valet_session \<Rightarrow> valet_session \<Rightarrow> bool" where
  "other_blocks_same c i S S' \<longleftrightarrow> (\<forall>d j. d < cb_num S \<longrightarrow> j < MAX_MR_SIZE_GB \<longrightarrow> (d, j) \<noteq> (c, i) \<longrightarrow>
     block_at S' d j = block_at S d j \<and> remote_mapped (node_rbh S' d) ! j = remote_mapped (node_rbh S d) ! j \<and>
     rb_idx_map (node_rbh S' d) ! j = rb_idx_map (node_rbh S d) ! j)"

lemma mapped_others:
  assumes "maps_ok S" and "c < cb_num S" and "tables_ok (cb_list S ! c)"
  shows "other_blocks_same c i S (mapped_session c m g i S)"
  using assms by (auto simp: other_blocks_same_def maps_ok_def session_ok_def tables_ok_def mapped_session_def
      installed_def block_at_def nth_list_update)

lemma placed_ok_frame:
  assumes "placed_ok S h d j" and "other_blocks_same c i S S'" and "(d, j) \<noteq> (c, i)"
    and "cb_index_map S' ! 0 ! h = cb_index_map S ! 0 ! h"
    and "mapping_swapspace_to_rb S' ! 0 ! h = mapping_swapspace_to_rb S ! 0 ! h"
    and "cb_num S' = cb_num S" and "\<forall>d<cb_num S. cb_state_list S ! d \<noteq> CB_IDLE \<longrightarrow> cb_state_list S' ! d \<noteq> CB_IDLE"
  shows "placed_ok S' h d j"
  using assms unfolding placed_ok_def other_blocks_same_def by auto

lemma mapped_placed:
  assumes "maps_ok S" and "c < cb_num S" and "tables_ok (cb_list S ! c)" and "map_reply m g i"
  shows "placed_ok (mapped_session c m g i S) g c i"
  using assms by (auto simp: placed_ok_def mapped_session_def installed_def maps_ok_def session_ok_def tab_ok_def
      tables_ok_def map_reply_def block_at_def)

lemma mapped_maps_ok:
  assumes "maps_ok S" and "c < cb_num S" and "tables_ok (cb_list S ! c)" and "map_reply m g i"
    and "remote_mapped (node_rbh S c) ! i = RB_UNMAPPED"
  shows "maps_ok (mapped_session c m g i S)"
proof -
  let ?S = "mapped_session c m g i S"
  have "placed_ok ?S h d j" if p: "placement ?S h = Some (d, j)" for h d j
  proof (cases "h = g")
    case True
    then show ?thesis using p placement_mapped [OF assms(1,4)] mapped_placed [OF assms(1-4)] by simp
  next
    case False
    then have "placement S h = Some (d, j)" using p placement_mapped [OF assms(1,4)] by simp
    then have o: "placed_ok S h d j" using assms(1) maps_ok_placed by blast
    then have "(d, j) \<noteq> (c, i)" using assms(5) by (auto simp: placed_ok_def)
    moreover have "cb_index_map ?S ! 0 ! h = cb_index_map S ! 0 ! h"
      "mapping_swapspace_to_rb ?S ! 0 ! h = mapping_swapspace_to_rb S ! 0 ! h" "cb_num ?S = cb_num S"
      using False by (simp_all add: mapped_session_def)
    moreover have "\<forall>d<cb_num S. cb_state_list S ! d \<noteq> CB_IDLE \<longrightarrow> cb_state_list ?S ! d \<noteq> CB_IDLE"
      using assms(1,2) by (auto simp: mapped_session_def nth_list_update maps_ok_def session_ok_def)
    ultimately show ?thesis using placed_ok_frame [OF o mapped_others [OF assms(1-3)]] by blast
  qed
  then show ?thesis unfolding maps_ok_def using mapped_session_shape [OF assms(1-3)] by blast
qed

subsection \<open>Finding or making a place\<close>

lemma surveyed_tables:
  assumes "surveyed F asked S S'"
  shows "cb_index_map S' = cb_index_map S" "mapping_swapspace_to_rb S' = mapping_swapspace_to_rb S"
    "cb_num S' = cb_num S" "placement S' = placement S" "session_ok S'"
  using assms unfolding surveyed_def placement_def by auto

lemma surveyed_node:
  assumes "surveyed F asked S S'" and "c < cb_num S" and "cb_state_list S ! c \<noteq> CB_IDLE"
  shows "tables_kept False (cb_list S ! c) (cb_list S' ! c)" "cb_state_list S' ! c \<noteq> CB_IDLE"
  using assms unfolding surveyed_def by (auto simp: tables_kept_def split: if_splits)

lemma surveyed_maps_ok:
  assumes "maps_ok S" and "surveyed F asked S S'"
  shows "maps_ok S'"
proof -
  have "placed_ok S' g c i" if "placement S' g = Some (c, i)" for g c i
  proof -
    have "placed_ok S g c i" using that surveyed_tables(4) [OF assms(2)] maps_ok_placed [OF assms(1)] by simp
    then show ?thesis using surveyed_node [OF assms(2), of c] surveyed_tables [OF assms(2)]
      by (auto simp: placed_ok_def block_at_def tables_kept_def)
  qed
  then show ?thesis using assms(1) surveyed_tables [OF assms(2)] by (simp add: maps_ok_def)
qed

text \<open>
  The nodes answer a mapping request with a block they have not given away, and the daemon is
  the one that knows: \<open>M c\<close> is the reply of node \<open>c\<close>, \<open>B c\<close> the block it names.
\<close>

definition offers :: "net_env \<Rightarrow> valet_session \<Rightarrow> nat \<Rightarrow> (nat \<Rightarrow> message) \<Rightarrow> (nat \<Rightarrow> nat) \<Rightarrow> bool" where
  "offers env S g M B \<longleftrightarrow> ne_kzalloc env \<and> (\<forall>c\<in>set (candidates S). ne_map env c = [(int c, M c)] \<and> map_reply (M c) g (B c) \<and>
     (cb_state_list S ! c = CB_IDLE \<or> remote_mapped (node_rbh S c) ! B c = RB_UNMAPPED))"

definition request_sent :: "nat \<Rightarrow> nat \<Rightarrow> valet_session \<Rightarrow> valet_session" where
  "request_sent g c S = S\<lparr>mapped_cb_num := mapped_cb_num S + 1, cb_list := (cb_list S)[c := (cb_list S ! c)\<lparr>send_buf :=
     (send_buf (cb_list S ! c))\<lparr>m_type := REQ_MR_MAP, m_size_gb := int g, m_replica_index := 0\<rparr>\<rparr>]\<rparr>"

lemma request_sent_node: "c < cb_num S \<Longrightarrow> length (cb_list S) = cb_num S \<Longrightarrow>
    cb_list (request_sent g c S) ! d = (if d = c then (cb_list S ! c)\<lparr>send_buf :=
     (send_buf (cb_list S ! c))\<lparr>m_type := REQ_MR_MAP, m_size_gb := int g, m_replica_index := 0\<rparr>\<rparr> else cb_list S ! d)"
  by (auto simp: request_sent_def nth_list_update)

lemma request_sent_maps_ok:
  assumes "maps_ok S" and "c < cb_num S"
  shows "maps_ok (request_sent g c S)" "placement (request_sent g c S) = placement S"
proof -
  have l: "length (cb_list S) = cb_num S" using assms by (simp add: maps_ok_def session_ok_def)
  have p: "placement (request_sent g c S) = placement S" by (rule ext) (simp add: placement_def request_sent_def)
  have f: "cb_state_list (request_sent g c S) = cb_state_list S" "cb_index_map (request_sent g c S) = cb_index_map S"
      "mapping_swapspace_to_rb (request_sent g c S) = mapping_swapspace_to_rb S" "cb_num (request_sent g c S) = cb_num S"
      "length (cb_list (request_sent g c S)) = length (cb_list S)"
    by (simp_all add: request_sent_def)
  have "placed_ok (request_sent g c S) h d i = placed_ok S h d i" for h d i
    by (simp add: placed_ok_def f block_at_def request_sent_node [OF assms(2) l])
  then show "maps_ok (request_sent g c S)" using assms(1)
    by (simp add: maps_ok_def session_ok_def f p request_sent_node [OF assms(2) l] tables_ok_def)
  show "placement (request_sent g c S) = placement S" by (rule p)
qed

lemma placement_rdma_on [simp]: "placement (S\<lparr>rdma_on := v\<rparr>) = placement S"
  by (rule ext) (simp add: placement_def cong: if_cong)

lemma maps_ok_rdma_on [simp]: "maps_ok (S\<lparr>rdma_on := v\<rparr>) = maps_ok S"
  by (simp add: maps_ok_def session_ok_def placed_ok_def block_at_def)

lemma block_map_ok:
  assumes "maps_ok S" and "c < cb_num S" and "connected (cb_list S ! c)" and "tables_ok (cb_list S ! c)"
    and "ne_kzalloc env" and "ne_map env c = [(int c, m)]" and "map_reply m g i"
    and "remote_mapped (node_rbh S c) ! i = RB_UNMAPPED"
  shows "\<exists>S'. block_map_loop env g [c] 0 S = Inr S' \<and> maps_ok S' \<and> placement S' = (placement S)(g \<mapsto> (c, i)) \<and>
    isRDMAon S' \<and> remote_rkey (block_at S' c i) = ntohl (m_rkey m ! i) \<and> remote_addr (block_at S' c i) = ntohll (m_buf m ! i) \<and>
    rb_state (block_at S' c i) = ACTIVE \<and> bitmap_g (block_at S' c i) = Some (replicate BITMAP_INT_SIZE 0) \<and>
    other_blocks_same c i S S'"
proof -
  let ?R = "request_sent g c S"
  have l: "length (cb_list S) = cb_num S" using assms by (simp add: maps_ok_def session_ok_def)
  have R: "maps_ok ?R" "placement ?R = placement S" "c < cb_num ?R" "c < length (cb_list ?R)"
    using request_sent_maps_ok [OF assms(1,2)] assms(2) l by (simp_all add: request_sent_def)
  have n: "tables_ok (cb_list ?R ! c)" "connected (cb_list ?R ! c)" "remote_mapped (node_rbh ?R c) ! i = RB_UNMAPPED"
    using assms request_sent_node [OF assms(2) l] by (simp_all add: tables_ok_def connected_def)
  let ?T = "mapped_session c m g i ?R"
  have i: "i < MAX_MR_SIZE_GB" using assms(7) by (simp add: map_reply_def)
  have w: "wait_state True [(int c, m)] (int c) RECV_MR_MAP ?R = Inr ?T"
    using recv_map_reply [OF R(1,3) n(1,2) assms(7)] R(4)
    by (simp add: wait_state_def) (simp add: mapped_session_def installed_def)
  have run: "block_map_loop env g [c] 0 S = Inr (?T\<lparr>rdma_on := DEV_RDMA_ON\<rparr>)"
    using w assms(2,5,6) l by (simp add: request_sent_def)
  have b: "block_at ?T c i = (block_at ?R c i)\<lparr>remote_rkey := ntohl (m_rkey m ! i), remote_addr := ntohll (m_buf m ! i),
      bitmap_g := Some (replicate BITMAP_INT_SIZE 0), rb_replica_index := 0, rb_state := ACTIVE\<rparr>"
    using n(1) i R(4) by (simp add: block_at_def mapped_session_def installed_def tables_ok_def)
  have "other_blocks_same c i ?R ?T" by (rule mapped_others [OF R(1,3) n(1)])
  then have "other_blocks_same c i S (?T\<lparr>rdma_on := DEV_RDMA_ON\<rparr>)"
    unfolding other_blocks_same_def block_at_def request_sent_node [OF assms(2) l]
    by (auto simp: request_sent_def)
  then show ?thesis using run mapped_maps_ok [OF R(1,3) n(1) assms(7) n(3)] placement_mapped [OF R(1) assms(7)] b
    by (simp add: R(2) isRDMAon_def) (simp add: block_at_def)
qed

lemma get_cb_mapped:
  assumes "maps_ok S" and "placement S g = Some (c, i)"
  shows "get_cb env g S = Inr (Some c, S)"
proof -
  have p: "placed_ok S g c i" by (rule maps_ok_placed [OF assms])
  moreover have "g < SWAPSPACE_SIZE_G" using assms(2) by (simp add: placement_def split: if_splits)
  moreover have "tab_ok (cb_index_map S)" "length (cb_list S) = cb_num S"
    using assms(1) by (simp_all add: maps_ok_def session_ok_def)
  ultimately show ?thesis by (simp add: get_cb_def tab_get_0 placed_ok_def)
qed

text \<open>The block that a new mapping leaves on the node.\<close>

definition fresh_block :: "message \<Rightarrow> nat \<Rightarrow> remote_block \<Rightarrow> bool" where
  "fresh_block m i rb \<longleftrightarrow> remote_rkey rb = ntohl (m_rkey m ! i) \<and> remote_addr rb = ntohll (m_buf m ! i) \<and>
     rb_state rb = ACTIVE \<and> bitmap_g rb = Some (replicate BITMAP_INT_SIZE 0)"

lemma get_cb_new:
  assumes "maps_ok S" and "g < SWAPSPACE_SIZE_G" and "placement S g = None"
    and "\<forall>c\<in>set (candidates S). reachable_node env S c" and "answers env F (candidates S)" and "offers env S g M B"
  shows "if \<forall>c\<in>set (candidates S). F c = 0
    then \<exists>S'. get_cb env g S = Inr (None, S') \<and> maps_ok S' \<and> placement S' = placement S
    else \<exists>c S'. get_cb env g S = Inr (Some c, S') \<and> best_of F (set (candidates S)) c \<and> maps_ok S' \<and>
      placement S' = (placement S)(g \<mapsto> (c, B c)) \<and> isRDMAon S' \<and> fresh_block (M c) (B c) (block_at S' c (B c))"
proof -
  have s: "session_ok S" using assms(1) by (simp add: maps_ok_def)
  have "cb_index_map S ! 0 ! g = NO_CB_MAPPED" using assms(2,3) by (simp add: placement_def split: if_splits)
  then have g: "get_cb env g S = bind_ok (valet_remote_block_map env g S) (\<lambda>(l, S).
      if length l \<noteq> NUM_REPLICA then Inr (None, S) else Inr (Some (l ! 0), S))"
    using assms(1,2) by (simp add: get_cb_def tab_get_0 maps_ok_def)
  obtain l T asked where f: "find_the_best_node env 1 S = Inr (l, T)" "surveyed F asked S T"
      "if \<forall>c\<in>set (candidates S). F c = 0 then l = []
       else \<exists>c. l = [c] \<and> best_of F (set (candidates S)) c \<and> c \<in> set asked"
    using find_best_ok [OF s assms(4,5)] by blast
  have T: "maps_ok T" "placement T = placement S" "cb_num T = cb_num S"
    using surveyed_maps_ok [OF assms(1) f(2)] surveyed_tables [OF f(2)] by auto
  show ?thesis
  proof (cases "\<forall>c\<in>set (candidates S). F c = 0")
    case True
    then have "get_cb env g S = Inr (None, T)" using f(1,3) by (simp add: g valet_remote_block_map_def)
    then show ?thesis using True T by auto
  next
    case False
    then obtain c where c: "l = [c]" "best_of F (set (candidates S)) c" "c \<in> set asked"
      using f(3) unfolding if_not_P [OF False] by blast
    have cC: "c \<in> set (candidates S)" using c(2) by (simp add: best_of_def)
    then have cn: "c < cb_num S" by (rule candidates_bounds)
    have o: "ne_kzalloc env" "ne_map env c = [(int c, M c)]" "map_reply (M c) g (B c)"
      "cb_state_list S ! c = CB_IDLE \<or> remote_mapped (node_rbh S c) ! B c = RB_UNMAPPED"
      using assms(6) cC unfolding offers_def by blast+
    have b: "B c < MAX_MR_SIZE_GB" using o(3) by (simp add: map_reply_def)
    have a: "cb_st (cb_list T ! c) = RECV_QUERY_REPL" "cb_state_list T ! c \<noteq> CB_IDLE"
      "tables_kept (cb_state_list S ! c = CB_IDLE) (cb_list S ! c) (cb_list T ! c)"
      using f(2) c(3) cn unfolding surveyed_def by auto
    have n: "tables_ok (cb_list T ! c)" "connected (cb_list T ! c)" "remote_mapped (node_rbh T c) ! B c = RB_UNMAPPED"
      using a T(1,3) cn o(4) b by (auto simp: maps_ok_def session_ok_def connected_def tables_kept_def split: if_splits)
    obtain S' where m: "block_map_loop env g [c] 0 T = Inr S'" "maps_ok S'" "placement S' = (placement T)(g \<mapsto> (c, B c))"
        "isRDMAon S'" "fresh_block (M c) (B c) (block_at S' c (B c))"
      using block_map_ok [OF T(1) _ n(2,1) o(1-3) n(3)] cn T(3) unfolding fresh_block_def by auto
    have "get_cb env g S = Inr (Some c, S')" using f(1) c(1) m(1) by (simp add: g valet_remote_block_map_def)
    then show ?thesis unfolding if_not_P [OF False] using c(2) m(2-5) T(2) by auto
  qed
qed

end
