(* ===== verification/Migration.thy ===== *)
theory Migration
  imports Block_Map
begin

text \<open>
  The migration of a gigabyte from a node that evicts it (\<open>migration_handler\<close> and
  \<open>reset_migration_info\<close> of rdmabox.c): giving the block up when there is no destination,
  switching to the destination, and the clean-up that follows.
\<close>

subsection \<open>Forgetting the source block\<close>

text \<open>An eviction marks one block of the node.\<close>

definition marked :: "nat \<Rightarrow> kernel_cb \<Rightarrow> bool" where
  "marked b cb \<longleftrightarrow> b < MAX_MR_SIZE_GB \<and> mig_rb_idx (rbh cb) = (replicate MAX_MR_SIZE_GB False)[b := True]"

definition dropped :: "nat \<Rightarrow> kernel_cb \<Rightarrow> kernel_cb" where
  "dropped b cb = cb\<lparr>rbh := (rbh cb)\<lparr>
     remote_blocks := (remote_blocks (rbh cb))[b := (remote_blocks (rbh cb) ! b)\<lparr>remote_rkey := 0, remote_addr := 0,
       bitmap_g := Some (replicate BITMAP_INT_SIZE 0)\<rparr>],
     rb_idx_map := (rb_idx_map (rbh cb))[b := - 1], remote_mapped := (remote_mapped (rbh cb))[b := RB_UNMAPPED],
     mig_rb_idx := replicate MAX_MR_SIZE_GB False, block_size_gb := block_size_gb (rbh cb) - 1, c_state := RBH_IDLE\<rparr>\<rparr>"

lemma dropped_tables [simp]: "tables_ok cb \<Longrightarrow> tables_ok (dropped b cb)"
  by (auto simp: tables_ok_def dropped_def)

definition unplaced :: "nat \<Rightarrow> nat \<Rightarrow> nat \<Rightarrow> valet_session \<Rightarrow> valet_session" where
  "unplaced c b g S = S\<lparr>cb_index_map := [(cb_index_map S ! 0)[g := NO_CB_MAPPED]],
     cb_list := (cb_list S)[c := dropped b (cb_list S ! c)]\<rparr>"

lemma reset_block_ok:
  assumes "tables_ok cb" and "marked b cb" and "bitmap_g (remote_blocks (rbh cb) ! b) = Some bm" and "bitmap_ok bm"
    and "tab_ok (cb_index_map S)" and "g < SWAPSPACE_SIZE_G"
  shows "reset_block 0 (int g) b cb S = Inr (dropped b cb, S\<lparr>cb_index_map := [(cb_index_map S ! 0)[g := NO_CB_MAPPED]]\<rparr>)"
proof -
  have i: "valet_bitmap_init bm = Inr (replicate BITMAP_INT_SIZE 0)"
    using assms(4) by (simp add: valet_bitmap_init_def)
  have m: "(replicate MAX_MR_SIZE_GB False)[b := False] = replicate MAX_MR_SIZE_GB False"
    by (cases "b < MAX_MR_SIZE_GB") (simp_all add: list_update_same_conv list_update_beyond)
  show ?thesis
    using assms by (simp add: reset_block_def Let_def tables_ok_def marked_def dropped_def tab_set_0 i m)
qed

text \<open>The loop, when the destination is \<open>new\<close>: its marks go one by one, the block of the source at its turn.\<close>

definition unmarked :: "nat \<Rightarrow> kernel_cb \<Rightarrow> kernel_cb" where
  "unmarked j cb = cb\<lparr>rbh := (rbh cb)\<lparr>mig_rb_idx := replicate j False @ drop j (mig_rb_idx (rbh cb))\<rparr>\<rparr>"

definition reset_upto :: "nat \<Rightarrow> nat option \<Rightarrow> nat \<Rightarrow> nat \<Rightarrow> nat \<Rightarrow> valet_session \<Rightarrow> valet_session" where
  "reset_upto c new b g j S =
     (let S = (if b < j then unplaced c b g S else S)
      in case new of None \<Rightarrow> S
         | Some n \<Rightarrow> S\<lparr>cb_list := (cb_list S)[n := unmarked j (cb_list S ! n)]\<rparr>)"

lemma unmarked_Suc:
  assumes "j < length (mig_rb_idx (rbh cb))"
  shows "set_mig j False (unmarked j cb) = Inr (unmarked (Suc j) cb)"
proof -
  have "drop j (mig_rb_idx (rbh cb)) = mig_rb_idx (rbh cb) ! j # drop (Suc j) (mig_rb_idx (rbh cb))"
    using assms by (simp add: Cons_nth_drop_Suc)
  then show ?thesis using assms
    by (simp add: set_mig_def unmarked_def list_update_append replicate_append_same)
qed

definition reset_ready :: "nat \<Rightarrow> nat option \<Rightarrow> nat \<Rightarrow> nat \<Rightarrow> valet_session \<Rightarrow> bool" where
  "reset_ready c new b g S \<longleftrightarrow> maps_ok S \<and> c < cb_num S \<and> tables_ok (cb_list S ! c) \<and> marked b (cb_list S ! c) \<and>
     g < SWAPSPACE_SIZE_G \<and> (\<exists>bm. bitmap_g (block_at S c b) = Some bm \<and> bitmap_ok bm) \<and>
     (case new of None \<Rightarrow> True | Some n \<Rightarrow> n < cb_num S \<and> n \<noteq> c \<and> tables_ok (cb_list S ! n))"

lemma reset_turn_source:
  assumes "c < length (cb_list T)" and "j < MAX_MR_SIZE_GB" and "cb_list T ! c = (if b < j then dropped b cb else cb)"
    and "tables_ok cb" and "marked b cb" and "bitmap_g (remote_blocks (rbh cb) ! b) = Some bm" and "bitmap_ok bm"
    and "tab_ok (cb_index_map T)" and "g < SWAPSPACE_SIZE_G"
  shows "reset_migration_turn (int c) None 0 (int g) j T =
    Inr (if j = b then T\<lparr>cb_index_map := [(cb_index_map T ! 0)[g := NO_CB_MAPPED]], cb_list := (cb_list T)[c := dropped b cb]\<rparr> else T)"
proof -
  have "mig_rb_idx (rbh (cb_list T ! c)) ! j = (j = b)" "j < length (mig_rb_idx (rbh (cb_list T ! c)))"
    using assms by (auto simp: marked_def dropped_def nth_list_update split: if_splits)
  then show ?thesis using assms(1,3) reset_block_ok [OF assms(4-9)]
    by (simp add: reset_migration_turn_def)
qed

lemma reset_turn_Some:
  "reset_migration_turn old (Some n) r e j T = bind_ok (reset_migration_turn old None r e j T) (\<lambda>T.
     bind_ok (get_node n T) (\<lambda>cb. bind_ok (set_mig j False cb) (\<lambda>cb. set_node n cb T)))"
  by (simp add: reset_migration_turn_def bind_ok_assoc)

lemma reset_upto_step:
  assumes "reset_ready c new b g S" and "j < MAX_MR_SIZE_GB"
  shows "reset_migration_turn (int c) (map_option int new) 0 (int g) j (reset_upto c new b g j S) =
    Inr (reset_upto c new b g (Suc j) S)"
proof -
  have s: "length (cb_list S) = cb_num S" "tab_ok (cb_index_map S)" using assms by (simp_all add: reset_ready_def maps_ok_def session_ok_def)
  have r: "c < cb_num S" "tables_ok (cb_list S ! c)" "marked b (cb_list S ! c)" "g < SWAPSPACE_SIZE_G"
    using assms by (simp_all add: reset_ready_def)
  obtain bm where bm: "bitmap_g (remote_blocks (node_rbh S c) ! b) = Some bm" "bitmap_ok bm"
    using assms by (auto simp: reset_ready_def block_at_def)
  let ?T = "reset_upto c new b g j S"
  have T: "c < length (cb_list ?T)" "cb_list ?T ! c = (if b < j then dropped b (cb_list S ! c) else cb_list S ! c)"
    "tab_ok (cb_index_map ?T)"
    using assms r s by (auto simp: reset_upto_def reset_ready_def unplaced_def split: option.splits)
  have src: "reset_migration_turn (int c) None 0 (int g) j ?T =
    Inr (if j = b then ?T\<lparr>cb_index_map := [(cb_index_map ?T ! 0)[g := NO_CB_MAPPED]],
      cb_list := (cb_list ?T)[c := dropped b (cb_list S ! c)]\<rparr> else ?T)"
    by (rule reset_turn_source [OF T(1) assms(2) T(2) r(2,3) bm T(3) r(4)])
  show ?thesis
  proof (cases new)
    case None
    then show ?thesis using src by (auto simp: reset_upto_def unplaced_def)
  next
    case (Some n)
    then have n: "n < cb_num S" "n \<noteq> c" "tables_ok (cb_list S ! n)" using assms by (simp_all add: reset_ready_def)
    then show ?thesis using Some src r s assms(2) unmarked_Suc [of j "cb_list S ! n"]
      by (auto simp: reset_turn_Some reset_upto_def unplaced_def tables_ok_def list_update_swap Let_def)
  qed
qed

definition reset_all :: "nat \<Rightarrow> nat option \<Rightarrow> nat \<Rightarrow> nat \<Rightarrow> valet_session \<Rightarrow> valet_session" where
  "reset_all c new b g S = reset_upto c new b g MAX_MR_SIZE_GB S"

lemma reset_migration_ok:
  assumes "reset_ready c new b g S"
  shows "reset_migration_info (int c) (map_option int new) 0 (int g) S = Inr (reset_all c new b g S)"
proof -
  have "reset_upto c new b g 0 S = S"
    using assms by (cases new) (auto simp: reset_upto_def unmarked_def)
  moreover have "foldM (reset_migration_turn (int c) (map_option int new) 0 (int g)) [0..<MAX_MR_SIZE_GB]
      (reset_upto c new b g 0 S) = Inr (reset_upto c new b g MAX_MR_SIZE_GB S)"
    by (rule foldM_upt [where b = "\<lambda>j. reset_upto c new b g j S"]) (rule reset_upto_step [OF assms])
  ultimately show ?thesis by (simp add: reset_migration_info_def reset_all_def)
qed

subsection \<open>Changes that leave the placement alone\<close>

definition same_map :: "valet_session \<Rightarrow> valet_session \<Rightarrow> bool" where
  "same_map S S' \<longleftrightarrow> cb_num S' = cb_num S \<and> cb_index_map S' = cb_index_map S \<and>
     mapping_swapspace_to_rb S' = mapping_swapspace_to_rb S \<and> length (cb_list S') = length (cb_list S) \<and>
     length (cb_state_list S') = length (cb_state_list S) \<and>
     (\<forall>d<cb_num S. (cb_state_list S' ! d = CB_IDLE \<longleftrightarrow> cb_state_list S ! d = CB_IDLE) \<and>
       cb_index (cb_list S' ! d) = cb_index (cb_list S ! d) \<and> (tables_ok (cb_list S ! d) \<longrightarrow> tables_ok (cb_list S' ! d)) \<and>
       remote_mapped (node_rbh S' d) = remote_mapped (node_rbh S d) \<and> rb_idx_map (node_rbh S' d) = rb_idx_map (node_rbh S d) \<and>
       (\<forall>j<MAX_MR_SIZE_GB. bitmap_g (block_at S' d j) = bitmap_g (block_at S d j)))"

lemma same_map_placement: "same_map S S' \<Longrightarrow> placement S' = placement S"
  by (rule ext) (simp add: placement_def same_map_def)

lemma same_map_maps_ok:
  assumes "same_map S S'" and "maps_ok S"
  shows "maps_ok S'"
proof -
  have "placed_ok S' g c i" if "placement S' g = Some (c, i)" for g c i
    using maps_ok_placed [OF assms(2), of g c i] that same_map_placement [OF assms(1)] assms(1)
    by (auto simp: placed_ok_def same_map_def)
  then show ?thesis using assms by (auto simp: maps_ok_def session_ok_def same_map_def)
qed

definition with_state :: "nat \<Rightarrow> nat \<Rightarrow> remote_block_state \<Rightarrow> valet_session \<Rightarrow> valet_session" where
  "with_state c i st S = S\<lparr>cb_list := (cb_list S)[c := (cb_list S ! c)\<lparr>rbh := (node_rbh S c)\<lparr>remote_blocks :=
     (remote_blocks (node_rbh S c))[i := (remote_blocks (node_rbh S c) ! i)\<lparr>rb_state := st\<rparr>]\<rparr>\<rparr>]\<rparr>"

lemma set_rb_state_ok:
  assumes "session_ok S" and "tab_ok (mapping_swapspace_to_rb S)" and "g < SWAPSPACE_SIZE_G" and "mapping_swapspace_to_rb S ! 0 ! g = int i" and "i < MAX_MR_SIZE_GB"
    and "c < cb_num S" and "tables_ok (cb_list S ! c)"
  shows "set_rb_state (int c) (int g) st S = Inr (with_state c i st S)" "same_map S (with_state c i st S)"
  using assms by (auto simp: set_rb_state_def tab_get_0 session_ok_def with_state_def tables_ok_def
      same_map_def block_at_def nth_list_update)

subsection \<open>Dropping a gigabyte\<close>

lemma unplaced_others:
  assumes "maps_ok S" and "c < cb_num S" and "tables_ok (cb_list S ! c)"
  shows "other_blocks_same c b S (unplaced c b g S)"
  using assms by (auto simp: other_blocks_same_def maps_ok_def session_ok_def tables_ok_def unplaced_def dropped_def
      block_at_def nth_list_update)

lemma unplaced_ok:
  assumes "maps_ok S" and "placement S g = Some (c, b)"
  shows "maps_ok (unplaced c b g S)" "placement (unplaced c b g S) = (placement S)(g := None)"
proof -
  let ?S = "unplaced c b g S"
  have p: "placed_ok S g c b" by (rule maps_ok_placed [OF assms])
  then have c: "c < cb_num S" "tables_ok (cb_list S ! c)"
    using assms(1) by (auto simp: placed_ok_def maps_ok_def session_ok_def)
  have g: "g < SWAPSPACE_SIZE_G" using assms(2) by (simp add: placement_def split: if_splits)
  then show pl: "placement ?S = (placement S)(g := None)"
    using assms(1) by (auto simp: placement_def unplaced_def maps_ok_def tab_ok_def)
  have "placed_ok ?S h d j" if q: "placement ?S h = Some (d, j)" for h d j
  proof -
    have h: "h \<noteq> g" "placement S h = Some (d, j)" using q unfolding pl by (auto split: if_splits)
    have "(d, j) \<noteq> (c, b)"
    proof
      assume "(d, j) = (c, b)"
      then have "placement S h = Some (c, b)" using h(2) by (simp only:)
      then have "h = g" using assms(2) by (rule placement_injective [OF assms(1)])
      then show False using h(1) by contradiction
    qed
    then show ?thesis
      using h by (intro placed_ok_frame [OF maps_ok_placed [OF assms(1) h(2)] unplaced_others [OF assms(1) c]])
        (simp_all add: unplaced_def)
  qed
  moreover have "session_ok ?S" "tab_ok (cb_index_map ?S)" "tab_ok (mapping_swapspace_to_rb ?S)"
    using assms(1) c by (auto simp: maps_ok_def session_ok_def unplaced_def dropped_def tables_ok_def nth_list_update)
  ultimately show "maps_ok ?S" by (simp add: maps_ok_def)
qed

text \<open>What a node has stored when it has received an \<open>EVICT\<close> for the gigabyte \<open>g\<close> in its block \<open>b\<close>.\<close>

definition evicting :: "nat \<Rightarrow> nat \<Rightarrow> nat \<Rightarrow> valet_session \<Rightarrow> bool" where
  "evicting c b g S \<longleftrightarrow> placement S g = Some (c, b) \<and> marked b (cb_list S ! c) \<and>
     client_swapspace_index (node_rbh S c) = int g \<and> src_rb_index (node_rbh S c) = int b \<and>
     src_cb_index (node_rbh S c) = int c \<and> rbh_replica_index (node_rbh S c) = 0"

lemma evicting_ready:
  assumes "maps_ok S" and "evicting c b g S"
  shows "reset_ready c None b g S"
  using assms maps_ok_placed [OF assms(1), of g c b]
  by (auto simp: evicting_def reset_ready_def placed_ok_def maps_ok_def session_ok_def placement_def split: if_splits)

lemma give_up_ok:
  assumes "maps_ok S" and "evicting c b g S"
  shows "\<exists>S'. migration_give_up (int c) S = Inr S' \<and> maps_ok S' \<and> placement S' = (placement S)(g := None) \<and>
    remote_mapped (node_rbh S' c) ! b = RB_UNMAPPED \<and> other_blocks_same c b S S'"
proof -
  have r: "reset_ready c None b g S" by (rule evicting_ready [OF assms])
  then have c: "c < cb_num S" "tables_ok (cb_list S ! c)" "g < SWAPSPACE_SIZE_G" "length (cb_list S) = cb_num S" "b < MAX_MR_SIZE_GB"
    by (auto simp: reset_ready_def maps_ok_def session_ok_def marked_def)
  let ?U = "unplaced c b g S"
  have u: "maps_ok ?U" "placement ?U = (placement S)(g := None)"
    using unplaced_ok [OF assms(1)] assms(2) by (simp_all add: evicting_def)
  have U: "c < cb_num ?U" "tables_ok (cb_list ?U ! c)" "cb_list ?U ! c = dropped b (cb_list S ! c)"
    using c by (simp_all add: unplaced_def dropped_def tables_ok_def)
  have m: "mapping_swapspace_to_rb ?U ! 0 ! g = int b"
    using maps_ok_placed [OF assms(1), of g c b] assms(2) by (simp add: unplaced_def evicting_def placed_ok_def)
  have su: "session_ok ?U" "tab_ok (mapping_swapspace_to_rb ?U)" using u(1) by (simp_all add: maps_ok_def)
  note st = set_rb_state_ok [OF su c(3) m c(5) U(1,2), of INACTIVE]
  have "migration_give_up (int c) S = Inr (with_state c b INACTIVE ?U)"
    using reset_migration_ok [OF r] st(1) assms(2) c(1,4)
    by (simp add: migration_give_up_def evicting_def reset_all_def reset_upto_def c(5) Let_def)
  moreover have "other_blocks_same c b S (with_state c b INACTIVE ?U)"
    using unplaced_others [OF assms(1) c(1,2), of b g] c
    unfolding other_blocks_same_def with_state_def block_at_def by (auto simp: nth_list_update unplaced_def tables_ok_def)
  moreover have "remote_mapped (node_rbh (with_state c b INACTIVE ?U) c) ! b = RB_UNMAPPED"
    using c U(3) by (simp add: with_state_def unplaced_def dropped_def tables_ok_def)
  ultimately show ?thesis using same_map_maps_ok [OF st(2) u(1)] same_map_placement [OF st(2)] u(2) by auto
qed

subsection \<open>Moving a gigabyte\<close>

text \<open>What a node has stored when it has answered \<open>RESP_MIG_MAP\<close> with its block \<open>d\<close> for the gigabyte \<open>g\<close>.\<close>

definition destination :: "nat \<Rightarrow> nat \<Rightarrow> nat \<Rightarrow> valet_session \<Rightarrow> bool" where
  "destination n d g S \<longleftrightarrow> n < cb_num S \<and> d < MAX_MR_SIZE_GB \<and> cb_state_list S ! n \<noteq> CB_IDLE \<and>
     dest_cb_index (node_rbh S n) = int n \<and> dest_rb_index (node_rbh S n) = int d \<and>
     remote_mapped (node_rbh S n) ! d = RB_MAPPED \<and> rb_idx_map (node_rbh S n) ! d = int g \<and>
     (\<exists>bm. bitmap_g (block_at S n d) = Some bm \<and> bitmap_ok bm)"

definition switched :: "nat \<Rightarrow> nat \<Rightarrow> nat \<Rightarrow> bitmap \<Rightarrow> valet_session \<Rightarrow> valet_session" where
  "switched n d g bm S = S\<lparr>cb_index_map := [(cb_index_map S ! 0)[g := int n]],
     mapping_swapspace_to_rb := [(mapping_swapspace_to_rb S ! 0)[g := int d]],
     cb_list := (cb_list S)[n := (cb_list S ! n)\<lparr>rbh := (node_rbh S n)\<lparr>c_state := RBH_READY, remote_blocks :=
       (remote_blocks (node_rbh S n))[d := (block_at S n d)\<lparr>bitmap_g := Some bm\<rparr>]\<rparr>\<rparr>]\<rparr>"

lemma switch_ok:
  assumes "maps_ok S" and "evicting c b g S" and "destination n d g S" and "n \<noteq> c"
  obtains bm where "bitmap_g (block_at S c b) = Some bm" "bitmap_ok bm"
    "migration_switch (int c) (int n) S = Inr (switched n d g bm S)"
    "maps_ok (switched n d g bm S)" "placement (switched n d g bm S) = (placement S)(g \<mapsto> (n, d))"
proof -
  have p: "placed_ok S g c b" "g < SWAPSPACE_SIZE_G"
    using assms(2) maps_ok_placed [OF assms(1), of g c b] by (auto simp: evicting_def placement_def split: if_splits)
  obtain bm where bm: "bitmap_g (block_at S c b) = Some bm" "bitmap_ok bm" using p(1) by (auto simp: placed_ok_def)
  obtain bm' where bm': "bitmap_g (block_at S n d) = Some bm'" "bitmap_ok bm'" using assms(3) by (auto simp: destination_def)
  have s: "length (cb_list S) = cb_num S" "tab_ok (cb_index_map S)" "tab_ok (mapping_swapspace_to_rb S)"
    "tables_ok (cb_list S ! n)" "tables_ok (cb_list S ! c)" "session_ok S"
    using assms(1,3) p(1) by (auto simp: maps_ok_def session_ok_def destination_def placed_ok_def)
  have run: "migration_switch (int c) (int n) S = Inr (switched n d g bm S)"
    using assms(2,3) p s bm bm'
    by (simp add: migration_switch_def Let_def evicting_def destination_def placed_ok_def tab_set_0 tables_ok_def
        switched_def block_at_def)
  let ?S = "switched n d g bm S"
  have pl: "placement ?S = (placement S)(g \<mapsto> (n, d))"
    using p(2) s(2,3) by (auto simp: placement_def switched_def tab_ok_def nth_list_update)
  have "placed_ok ?S h x j" if q: "placement ?S h = Some (x, j)" for h x j
  proof (cases "h = g")
    case True
    then have "x = n" "j = d" using q unfolding pl by auto
    then show ?thesis using True p(2) s bm(2) assms(3)
      by (auto simp: placed_ok_def switched_def tab_ok_def destination_def block_at_def tables_ok_def)
  next
    case False
    then have "placed_ok S h x j" using q maps_ok_placed [OF assms(1)] unfolding pl by simp
    then show ?thesis using False s(1,4) assms(3)
      by (auto simp: placed_ok_def switched_def block_at_def tables_ok_def nth_list_update destination_def)
  qed
  moreover have "session_ok ?S" "tab_ok (cb_index_map ?S)" "tab_ok (mapping_swapspace_to_rb ?S)"
    using s assms(3) by (auto simp: session_ok_def switched_def tables_ok_def nth_list_update destination_def)
  ultimately show thesis using that [OF bm run _ pl] by (simp add: maps_ok_def)
qed

lemma finish_ok:
  assumes "reset_ready c (Some n) b g S" and "client_swapspace_index (node_rbh S c) = int g"
    and "src_cb_index (node_rbh S c) = int c" and "rbh_replica_index (node_rbh S c) = 0"
    and "mapping_swapspace_to_rb S ! 0 ! g = int d" and "d < MAX_MR_SIZE_GB"
  shows "\<exists>S'. migration_finish (int c) (int n) S = Inr S' \<and> placement S' = (placement S)(g := None)"
proof -
  let ?R = "reset_all c (Some n) b g S"
  have r: "maps_ok S" "c < cb_num S" "tables_ok (cb_list S ! c)" "b < MAX_MR_SIZE_GB" "g < SWAPSPACE_SIZE_G" "n < cb_num S" "n \<noteq> c"
      "tables_ok (cb_list S ! n)"
    using assms(1) by (auto simp: reset_ready_def marked_def)
  have s: "session_ok S" "tab_ok (cb_index_map S)" "tab_ok (mapping_swapspace_to_rb S)"
    "length (cb_list S) = cb_num S" "length (cb_state_list S) = cb_num S" using r(1) by (simp_all add: maps_ok_def session_ok_def)
  have R: "cb_num ?R = cb_num S" "mapping_swapspace_to_rb ?R = mapping_swapspace_to_rb S" "cb_state_list ?R = cb_state_list S"
      "cb_index_map ?R = [(cb_index_map S ! 0)[g := NO_CB_MAPPED]]" "length (cb_list ?R) = cb_num S"
      "cb_list ?R ! c = dropped b (cb_list S ! c)"
    using r s by (simp_all add: reset_all_def reset_upto_def unplaced_def)
  let ?T = "?R\<lparr>cb_state_list := (cb_state_list S)[c := CB_MAPPED]\<rparr>"
  have node: "cb_index (cb_list ?R ! x) = cb_index (cb_list S ! x)" "tables_ok (cb_list S ! x) \<Longrightarrow> tables_ok (cb_list ?R ! x)" for x
    using r s by (auto simp: reset_all_def reset_upto_def unplaced_def dropped_def unmarked_def tables_ok_def nth_list_update)
  have st: "session_ok ?T" "tab_ok (mapping_swapspace_to_rb ?T)"
    using s r node by (auto simp: session_ok_def R nth_list_update)
  have set: "set_rb_state (int c) (int g) INACTIVE ?T = Inr (with_state c d INACTIVE ?T)" "same_map ?T (with_state c d INACTIVE ?T)"
    using set_rb_state_ok [OF st r(5), of d c] assms(5,6) r(2,3) node(2) by (simp_all add: R)
  have "migration_finish (int c) (int n) S = Inr (with_state c d INACTIVE ?T)"
    using reset_migration_ok [OF assms(1)] assms(2-4) set(1) r(2) s(4,5) by (simp add: migration_finish_def R)
  moreover have "placement ?T = (placement S)(g := None)"
    using s r(5) by (auto simp: placement_def R tab_ok_def)
  ultimately show ?thesis using same_map_placement [OF set(2)] by auto
qed

end
