(* ===== verification/Session_Properties.thy ===== *)
theory Session_Properties
  imports Migration
begin

text \<open>The properties of the session: the choice of a node, the placement of a gigabyte and its migration.\<close>

subsection \<open>Sample sessions\<close>

definition blank_message :: message where
  "blank_message = \<lparr>m_type = DONE, m_size_gb = 0, m_rb_index = 0, m_cb_index = 0, m_replica_index = 0,
     m_buf = replicate MAX_MR_SIZE_GB 0, m_rkey = replicate MAX_MR_SIZE_GB 0\<rparr>"

definition blank_block :: remote_block where
  "blank_block = \<lparr>remote_rkey = 0, remote_addr = 0, rb_state = ACTIVE, bitmap_g = None, rb_replica_index = 0\<rparr>"

definition blank_rbh :: remote_block_handler where
  "blank_rbh = \<lparr>remote_blocks = replicate MAX_MR_SIZE_GB blank_block, remote_mapped = replicate MAX_MR_SIZE_GB RB_UNMAPPED,
     block_size_gb = 0, target_size_gb = 0, age_sum = 0, rb_idx_map = replicate MAX_MR_SIZE_GB (- 1),
     mig_rb_idx = replicate MAX_MR_SIZE_GB False, c_state = RBH_IDLE, dest_rb_index = 0, dest_cb_index = 0,
     src_rb_index = 0, src_cb_index = 0, client_swapspace_index = 0, rbh_replica_index = 0\<rparr>"

definition sample_cb :: "nat \<Rightarrow> kernel_cb" where
  "sample_cb c = \<lparr>cb_index = int c, rbh = blank_rbh, cb_st = CONNECTED, recv_buf = blank_message, send_buf = blank_message\<rparr>"

definition empty_freepool :: rdma_freepool where
  "empty_freepool = \<lparr>fp_cap_nr = 0, fp_curr_nr = 0, fp_elements = []\<rparr>"

text \<open>Three nodes: one never used, two connected; nothing is mapped.\<close>

definition sample_session :: valet_session where
  "sample_session = \<lparr>cb_num = 3, mapped_cb_num = 0, cb_list = map sample_cb [0, 1, 2],
     cb_state_list = [CB_IDLE, CB_CONNECTED, CB_MAPPED], cb_index_map = [replicate SWAPSPACE_SIZE_G NO_CB_MAPPED],
     mapping_swapspace_to_rb = [replicate SWAPSPACE_SIZE_G (- 1)], rdma_on = DEV_RDMA_OFF,
     rdma_write_freepool = empty_freepool, rdma_read_freepool = empty_freepool\<rparr>"

definition sample_connect :: connect_env where
  "sample_connect = \<lparr>ce_create_id = True, ce_resolve_addr = 0, ce_route_events = [EV_ADDR_RESOLVED, EV_ROUTE_RESOLVED],
     ce_setup = 0, ce_connect = 0, ce_connect_events = [EV_ESTABLISHED]\<rparr>"

definition sample_free :: "nat \<Rightarrow> int" where
  "sample_free c = (if c = 0 then 4 else if c = 1 then 0 else 7)"

definition sample_reply :: message where
  "sample_reply = blank_message\<lparr>m_type := RESP_MR_MAP, m_size_gb := 3,
     m_rkey := (replicate MAX_MR_SIZE_GB 0)[5 := htonl 77], m_buf := (replicate MAX_MR_SIZE_GB 0)[5 := htonll 4096]\<rparr>"

definition sample_net :: net_env where
  "sample_net = \<lparr>ne_random = (\<lambda>i. 5), ne_connect = (\<lambda>c. sample_connect),
     ne_query = (\<lambda>i c. [(int c, blank_message\<lparr>m_type := RESP_QUERY, m_size_gb := sample_free c\<rparr>)]),
     ne_map = (\<lambda>c. [(int c, sample_reply)]), ne_kzalloc = True\<rparr>"

lemmas sample_session_defs = sample_session_def sample_cb_def blank_rbh_def blank_block_def blank_message_def
  sample_net_def sample_connect_def sample_reply_def

lemma less_3_iff: "c < (3::nat) \<longleftrightarrow> c = 0 \<or> c = 1 \<or> c = 2"
  by auto

lemma sample_session_ok: "session_ok sample_session"
  by (simp add: session_ok_def tables_ok_def sample_session_defs less_3_iff all_conj_distrib flip: numeral_2_eq_2)

lemma sample_candidates: "candidates sample_session = [0, 1, 2]"
  by (simp add: candidates_def sample_session_def upt_rec)

lemma sample_reachable: "\<forall>c\<in>set (candidates sample_session). reachable_node sample_net sample_session c"
  unfolding sample_candidates by (simp add: reachable_node_def conn_ok_def connected_def sample_session_defs)

lemma sample_answers: "answers sample_net sample_free (candidates sample_session)"
  by (simp add: answers_def sample_net_def)

lemma sample_unplaced: "placement sample_session g = None"
  by (simp add: placement_def sample_session_def)

lemma sample_maps_ok: "maps_ok sample_session"
  using sample_session_ok by (simp add: maps_ok_def tab_ok_def sample_unplaced) (simp add: sample_session_def)

lemma sample_offers: "offers sample_net sample_session 3 (\<lambda>_. sample_reply) (\<lambda>_. 5)"
  unfolding offers_def sample_candidates
  by (simp add: map_reply_def sample_session_defs htonl_def)

subsection \<open>The choice of a node\<close>

text \<open>
  C25. The choice of a remote node, when every candidate is reachable and answers the query for its
  free memory: the search ends, whatever the random numbers are; it finds no node only if no
  candidate has free memory, and otherwise a candidate with free memory that has at
  least as much as another one, when there is another one. Nothing but the answers of the nodes
  asked has changed in the session.
\<close>

theorem best_node_found:
  assumes "session_ok S" and "\<forall>c\<in>set (candidates S). reachable_node env S c" and "answers env F (candidates S)"
  shows "\<exists>l S' asked. find_the_best_node env 1 S = Inr (l, S') \<and> surveyed F asked S S' \<and>
    (if \<forall>c\<in>set (candidates S). F c = 0 then l = []
     else \<exists>c. l = [c] \<and> best_of F (set (candidates S)) c \<and> c \<in> set asked)"
  by (rule find_best_ok [OF assms])

theorem best_node_found_witness:
  "\<exists>l S' asked. find_the_best_node sample_net 1 sample_session = Inr (l, S') \<and> surveyed sample_free asked sample_session S' \<and>
    (\<exists>c. l = [c] \<and> best_of sample_free {0, 1, 2} c \<and> c \<in> set asked)"
  using best_node_found [OF sample_session_ok sample_reachable sample_answers]
  by (simp add: sample_candidates sample_free_def)

subsection \<open>Placing a gigabyte\<close>

text \<open>
  C24. Where a gigabyte of the device is kept: a gigabyte that has been placed stays with its node
  and its block; one that has not is placed on the node chosen, in the block this node
  offers, whose key and address are those of the reply in host order and whose
  bitmap says that no page has been written. The invariant of the tables holds again, by
  which two gigabytes never share a block.
\<close>

theorem remote_block_placed:
  assumes "maps_ok S" and "g < SWAPSPACE_SIZE_G" and "\<forall>c\<in>set (candidates S). reachable_node env S c"
    and "answers env F (candidates S)" and "offers env S g M B"
  shows "case placement S g of Some (c, i) \<Rightarrow> get_cb env g S = Inr (Some c, S)
    | None \<Rightarrow> if \<forall>c\<in>set (candidates S). F c = 0
        then \<exists>S'. get_cb env g S = Inr (None, S') \<and> maps_ok S' \<and> placement S' = placement S
        else \<exists>c S'. get_cb env g S = Inr (Some c, S') \<and> best_of F (set (candidates S)) c \<and> maps_ok S' \<and>
          placement S' = (placement S)(g \<mapsto> (c, B c)) \<and> isRDMAon S' \<and> fresh_block (M c) (B c) (block_at S' c (B c))"
proof (cases "placement S g")
  case None
  then show ?thesis using get_cb_new [OF assms(1,2) None assms(3-5)] by simp
next
  case (Some b)
  then show ?thesis using get_cb_mapped [OF assms(1), of g "fst b" "snd b" env] by (simp split: prod.split)
qed

theorem remote_block_placed_witness:
  "\<exists>c S'. get_cb sample_net 3 sample_session = Inr (Some c, S') \<and> best_of sample_free {0, 1, 2} c \<and> maps_ok S' \<and>
    placement S' = (placement sample_session)(3 \<mapsto> (c, 5)) \<and> isRDMAon S' \<and> fresh_block sample_reply 5 (block_at S' c 5)"
  using remote_block_placed [OF sample_maps_ok _ sample_reachable sample_answers sample_offers]
  by (simp add: sample_candidates sample_free_def sample_unplaced)

subsection \<open>Migration\<close>

text \<open>Gigabyte 3 is in block 5 of node 1, which evicts it; node 2 has answered with its block 7.\<close>

definition sample_block :: "u32 \<Rightarrow> remote_block" where
  "sample_block key = blank_block\<lparr>remote_rkey := key, bitmap_g := Some ((replicate BITMAP_INT_SIZE 0)[0 := key])\<rparr>"

definition sample_eviction :: valet_session where
  "sample_eviction = sample_session\<lparr>
     cb_index_map := [(replicate SWAPSPACE_SIZE_G NO_CB_MAPPED)[3 := 1]],
     mapping_swapspace_to_rb := [(replicate SWAPSPACE_SIZE_G (- 1))[3 := 5]],
     cb_state_list := [CB_IDLE, CB_MIGRATING, CB_MAPPED],
     cb_list := [sample_cb 0,
       (sample_cb 1)\<lparr>rbh := blank_rbh\<lparr>remote_blocks := (replicate MAX_MR_SIZE_GB blank_block)[5 := sample_block 9],
         remote_mapped := (replicate MAX_MR_SIZE_GB RB_UNMAPPED)[5 := RB_MAPPED], rb_idx_map := (replicate MAX_MR_SIZE_GB (- 1))[5 := 3],
         mig_rb_idx := (replicate MAX_MR_SIZE_GB False)[5 := True], client_swapspace_index := 3, src_rb_index := 5, src_cb_index := 1\<rparr>\<rparr>,
       (sample_cb 2)\<lparr>rbh := blank_rbh\<lparr>remote_blocks := (replicate MAX_MR_SIZE_GB blank_block)[7 := sample_block 0],
         remote_mapped := (replicate MAX_MR_SIZE_GB RB_UNMAPPED)[7 := RB_MAPPED], rb_idx_map := (replicate MAX_MR_SIZE_GB (- 1))[7 := 3],
         mig_rb_idx := (replicate MAX_MR_SIZE_GB False)[7 := True], dest_cb_index := 2, dest_rb_index := 7\<rparr>\<rparr>]\<rparr>"

lemma sample_eviction_placement: "placement sample_eviction h = (if h = 3 then Some (1, 5) else None)"
  by (auto simp: placement_def sample_eviction_def nth_list_update)

lemma sample_eviction_placed: "placed_ok sample_eviction 3 1 5"
  by (simp add: placed_ok_def sample_eviction_def block_at_def sample_block_def) (simp add: sample_session_def)

lemma sample_eviction_ok: "maps_ok sample_eviction"
proof -
  have "session_ok sample_eviction"
    by (simp add: session_ok_def tables_ok_def sample_eviction_def)
       (simp add: sample_session_defs less_3_iff all_conj_distrib flip: numeral_2_eq_2)
  then show ?thesis using sample_eviction_placed
    by (auto simp: maps_ok_def sample_eviction_placement split: if_splits) (simp_all add: tab_ok_def sample_eviction_def)
qed

lemma sample_evicting: "evicting 1 5 3 sample_eviction"
  by (simp add: evicting_def sample_eviction_placement marked_def) (simp add: sample_eviction_def blank_rbh_def)

lemma sample_destination: "destination 2 7 3 sample_eviction"
  by (simp add: destination_def sample_eviction_def block_at_def sample_block_def) (simp add: sample_session_def)

text \<open>
  An eviction for which there is no other node: the gigabyte loses its place, its block can be
  offered again, and nothing else changes its place.
\<close>

theorem migration_given_up:
  assumes "maps_ok S" and "evicting c b g S"
  shows "\<exists>S'. migration_give_up (int c) S = Inr S' \<and> maps_ok S' \<and> placement S' = (placement S)(g := None) \<and>
    remote_mapped (node_rbh S' c) ! b = RB_UNMAPPED \<and> other_blocks_same c b S S'"
  by (rule give_up_ok [OF assms])

theorem migration_given_up_witness:
  "\<exists>S'. migration_give_up 1 sample_eviction = Inr S' \<and> maps_ok S' \<and> placement S' = (placement sample_eviction)(3 := None) \<and>
    remote_mapped (node_rbh S' 1) ! 5 = RB_UNMAPPED \<and> other_blocks_same 1 5 sample_eviction S'"
  using migration_given_up [OF sample_eviction_ok sample_evicting] by simp

text \<open>
  C26. A migration with a destination: the switch moves the gigabyte to the block of the
  destination, whose bitmap becomes that of the source; but the clean-up that follows removes
  the gigabyte from the placement, so that the copy at the destination cannot be found.
\<close>

theorem migration_loses_destination:
  assumes "maps_ok S" and "evicting c b g S" and "destination n d g S" and "n \<noteq> c"
  shows "\<exists>S1 S2. migration_switch (int c) (int n) S = Inr S1 \<and> maps_ok S1 \<and> placement S1 = (placement S)(g \<mapsto> (n, d)) \<and>
    bitmap_g (block_at S1 n d) = bitmap_g (block_at S c b) \<and>
    migration_finish (int c) (int n) S1 = Inr S2 \<and> placement S2 = (placement S)(g := None)"
proof -
  obtain bm where bm: "bitmap_g (block_at S c b) = Some bm" "bitmap_ok bm"
    and sw: "migration_switch (int c) (int n) S = Inr (switched n d g bm S)" "maps_ok (switched n d g bm S)"
      "placement (switched n d g bm S) = (placement S)(g \<mapsto> (n, d))"
    by (rule switch_ok [OF assms])
  let ?S = "switched n d g bm S"
  have r: "reset_ready c None b g S" by (rule evicting_ready [OF assms(1,2)])
  have s: "length (cb_list S) = cb_num S" "tables_ok (cb_list S ! n)" "n < cb_num S" "d < MAX_MR_SIZE_GB" "c < cb_num S" "g < SWAPSPACE_SIZE_G"
      "tab_ok (mapping_swapspace_to_rb S)"
    using assms(1,3) r by (auto simp: maps_ok_def session_ok_def destination_def reset_ready_def)
  have node: "cb_list ?S ! c = cb_list S ! c" "block_at ?S c b = block_at S c b" "cb_num ?S = cb_num S"
      "mapping_swapspace_to_rb ?S ! 0 ! g = int d" "tables_ok (cb_list ?S ! n)"
    using assms(4) s by (auto simp: switched_def block_at_def tables_ok_def tab_ok_def)
  have "reset_ready c (Some n) b g ?S"
    using r sw(2) s assms(4) by (simp add: reset_ready_def node)
  then obtain S2 where "migration_finish (int c) (int n) ?S = Inr S2" "placement S2 = (placement ?S)(g := None)"
    using finish_ok [of c n b g ?S d] assms(2) s by (auto simp: evicting_def node)
  moreover have "bitmap_g (block_at ?S n d) = Some bm"
    using s by (simp add: switched_def block_at_def tables_ok_def)
  ultimately show ?thesis using sw bm by auto
qed

theorem migration_loses_destination_witness:
  "\<exists>S1 S2. migration_switch 1 2 sample_eviction = Inr S1 \<and> maps_ok S1 \<and> placement S1 = (placement sample_eviction)(3 \<mapsto> (2, 7)) \<and>
    bitmap_g (block_at S1 2 7) = bitmap_g (block_at sample_eviction 1 5) \<and>
    migration_finish 1 2 S1 = Inr S2 \<and> placement S2 = (placement sample_eviction)(3 := None)"
  using migration_loses_destination [OF sample_eviction_ok sample_evicting sample_destination] by simp

end
