(* ===== verification/Rdma_Path.thy ===== *)
theory Rdma_Path
  imports Node_Select
begin

text \<open>
  The data path to the remote nodes (rdmabox.c): taking items off the sending list, merging
  adjacent ones, splitting at a gigabyte boundary, posting the RDMA writes, what their
  completion does to the page table entries, and reading a page back.

  An \<open>io_env\<close> is what one remote write or read meets: the network for the choice of a
  node, the time, and the result of \<open>ib_post_send\<close>. Positions and offsets on the device are
  naturals; the device has 40 GB, far below \<open>2 ^ 64\<close>. The number of replicas is one and
  \<open>DISKBACKUP\<close> is not defined, as in the sources.
\<close>

record io_env =
  io_net :: net_env
  io_now :: "int \<times> int"
  io_post :: int

abbreviation (input) HEADER_SIZE :: u64 where "HEADER_SIZE \<equiv> 4096"

subsection \<open>Contexts\<close>

definition update_ctx :: "ptr \<Rightarrow> (rdma_ctx \<Rightarrow> rdma_ctx) \<Rightarrow> rdma_mem \<Rightarrow> rdma_mem outcome" where
  "update_ctx x f s = bind_ok (deref (ctxs s) x) (\<lambda>c. Inr (s\<lparr>ctxs := (ctxs s)(x \<mapsto> f c)\<rparr>))"

text \<open>Taking a context retries until there is one; returning it must find a free slot.\<close>

definition take_write_ctx :: "rdma_mem \<Rightarrow> (ptr \<times> rdma_mem) outcome" where
  "take_write_ctx s =
     bind_ok (get_rdma_freepool (rdma_write_freepool (sess s))) (\<lambda>(x, p).
       if x = NULL then Inl Hang else Inr (x, s\<lparr>sess := (sess s)\<lparr>rdma_write_freepool := p\<rparr>\<rparr>))"

definition take_read_ctx :: "rdma_mem \<Rightarrow> (ptr \<times> rdma_mem) outcome" where
  "take_read_ctx s =
     bind_ok (get_rdma_freepool (rdma_read_freepool (sess s))) (\<lambda>(x, p).
       if x = NULL then Inl Hang else Inr (x, s\<lparr>sess := (sess s)\<lparr>rdma_read_freepool := p\<rparr>\<rparr>))"

definition give_write_ctx :: "ptr \<Rightarrow> rdma_mem \<Rightarrow> rdma_mem outcome" where
  "give_write_ctx x s =
     bind_ok (put_rdma_freepool x (rdma_write_freepool (sess s))) (\<lambda>p.
       Inr (s\<lparr>sess := (sess s)\<lparr>rdma_write_freepool := p\<rparr>\<rparr>))"

definition give_read_ctx :: "ptr \<Rightarrow> rdma_mem \<Rightarrow> rdma_mem outcome" where
  "give_read_ctx x s =
     bind_ok (put_rdma_freepool x (rdma_read_freepool (sess s))) (\<lambda>p.
       Inr (s\<lparr>sess := (sess s)\<lparr>rdma_read_freepool := p\<rparr>\<rparr>))"

subsection \<open>Writing\<close>

text \<open>\<open>memcpy\<close> of a page to a position inside the buffer of a context.\<close>

definition buf_write :: "u8 list \<Rightarrow> nat \<Rightarrow> u8 list \<Rightarrow> u8 list outcome" where
  "buf_write buf off data =
     (if length data < VALET_PAGE_SIZE \<or> length buf < off + VALET_PAGE_SIZE then Inl Out_Of_Bounds
      else Inr (take off buf @ take VALET_PAGE_SIZE data @ drop (off + VALET_PAGE_SIZE) buf))"

definition fill_rdma_buf :: "local_page_list \<Rightarrow> rdma_mem \<Rightarrow> u8 list \<Rightarrow> u8 list outcome" where
  "fill_rdma_buf it s buf =
     foldM (\<lambda>i buf. bind_ok (arr_get (batch_list it) i) (\<lambda>entry. bind_ok (deref (entries s) entry) (\<lambda>e.
         if te_page e = NULL then Inr buf
         else bind_ok (deref (pages s) (te_page e)) (\<lambda>cmem. buf_write buf (i * VALET_PAGE_SIZE) cmem))))
       [0..<li_len it] buf"

text \<open>\<open>__rdma_write\<close>: the block is looked up again for the replica.\<close>

definition rdma_write_post :: "io_env \<Rightarrow> nat \<Rightarrow> nat \<Rightarrow> nat \<Rightarrow> nat \<Rightarrow> ptr \<Rightarrow> rdma_mem \<Rightarrow> (int \<times> rdma_mem) outcome" where
  "rdma_write_post env c swapspace_index offset replica_index x s =
     bind_ok (tab_get (mapping_swapspace_to_rb (sess s)) (int replica_index) (int swapspace_index)) (\<lambda>rb_index.
     bind_ok (get_node (int c) (sess s)) (\<lambda>cb. bind_ok (iarr_get (remote_blocks (rbh cb)) rb_index) (\<lambda>rb.
     bind_ok (update_ctx x (\<lambda>ctx. ctx\<lparr>ctx_offset := of_nat offset, ctx_cb := c, ctx_rb := Some (c, nat rb_index),
                                   ctx_rb_index := rb_index\<rparr>) s) (\<lambda>s.
     bind_ok (deref (ctxs s) x) (\<lambda>ctx.
       if io_post env \<noteq> 0 then Inr (io_post env, s)
       else Inr (0, s\<lparr>posted := posted s @
              [WR_Write c (remote_rkey rb) (remote_addr rb + HEADER_SIZE + of_nat offset)
                 (take (unat (ctx_len ctx)) (rdma_buf ctx)) x,
               WR_Header c (remote_rkey rb) (remote_addr rb) (io_now env)]\<rparr>))))))"

definition rdma_write :: "io_env \<Rightarrow> nat \<Rightarrow> nat \<Rightarrow> ptr \<Rightarrow> rdma_mem \<Rightarrow> (int \<times> rdma_mem) outcome" where
  "rdma_write env swapspace_index offset tmp s =
     bind_ok (get_cb (io_net env) swapspace_index (sess s)) (\<lambda>(cb, S).
     let s = s\<lparr>sess := S\<rparr>
     in case cb of None \<Rightarrow> Inr (1, s)
      | Some c \<Rightarrow>
          bind_ok (tab_get (mapping_swapspace_to_rb S) 0 (int swapspace_index)) (\<lambda>rb_index.
          bind_ok (get_node (int c) S) (\<lambda>cb. bind_ok (iarr_get (remote_blocks (rbh cb)) rb_index) (\<lambda>rb.
            if rb_state rb \<noteq> ACTIVE
            then bind_ok (put_sending_index tmp s) (\<lambda>(ret, s). if ret \<noteq> 0 then Inl Hang else Inr (0, s))
            else
              bind_ok (deref (items s) tmp) (\<lambda>it.
              let s = s\<lparr>items := (items s)(tmp \<mapsto> it\<lparr>li_ref_count := 0\<rparr>)\<rparr>
              in bind_ok (take_write_ctx s) (\<lambda>(x, s).
                 bind_ok (deref (ctxs s) x) (\<lambda>ctx.
                 bind_ok (fill_rdma_buf it s (rdma_buf ctx)) (\<lambda>buf.
                 bind_ok (update_ctx x (\<lambda>ctx. ctx\<lparr>in_flight := CTX_W_IN_FLIGHT, ctx_replica_index := 0, rdma_buf := buf,
                            ctx_len := of_nat (li_len it * VALET_PAGE_SIZE), sending_item := tmp\<rparr>) s) (\<lambda>s.
                   rdma_write_post env c swapspace_index offset 0 x s)))))))))"

text \<open>The first index of the request that lies in another gigabyte.\<close>

primrec border_loop :: "nat \<Rightarrow> nat \<Rightarrow> nat \<Rightarrow> nat \<Rightarrow> nat" where
  "border_loop 0 start swapspace_index border = border"
| "border_loop (Suc k) start swapspace_index border =
     (if swapspace_index \<noteq> (start + border * VALET_PAGE_SIZE) div ONE_GB then border
      else border_loop k start swapspace_index (border + 1))"

text \<open>
  A request that crosses a gigabyte is split; the second part goes first, in an item of its own. An
  item has at least one page.
\<close>

definition split_item :: "ptr \<times> local_page_list \<Rightarrow> ptr \<Rightarrow> nat \<Rightarrow> rdma_mem \<Rightarrow> (ptr \<times> rdma_mem) outcome" where
  "split_item grant tmp border s =
     bind_ok (get_free_item grant s) (\<lambda>(sec, s).
     bind_ok (deref (items s) tmp) (\<lambda>it. bind_ok (deref (items s) sec) (\<lambda>it2.
     bind_ok (foldM (\<lambda>i b. bind_ok (arr_get (batch_list it) i) (\<lambda>e. arr_set b (i - border) e))
                [border..<li_len it] (batch_list it2)) (\<lambda>b.
       Inr (sec, s\<lparr>items := (items s)
         (sec \<mapsto> it2\<lparr>batch_list := b, li_start_index := li_start_index it + border, li_len := li_len it - border\<rparr>,
          tmp \<mapsto> it\<lparr>li_len := border\<rparr>)\<rparr>)))))"

definition request_write ::
  "io_env \<Rightarrow> io_env \<Rightarrow> ptr \<times> local_page_list \<Rightarrow> ptr \<Rightarrow> rdma_mem \<Rightarrow> (int \<times> rdma_mem) outcome" where
  "request_write env env2 grant tmp s =
     bind_ok (deref (items s) tmp) (\<lambda>it.
     let start = li_start_index it * VALET_PAGE_SIZE;
         swapspace_index = start div ONE_GB;
         boundary_index = (start + li_len it * VALET_PAGE_SIZE - VALET_PAGE_SIZE) div ONE_GB;
         rb_offset = start mod ONE_GB;
         border = border_loop (li_len it) start swapspace_index 0
     in bind_ok (if swapspace_index \<noteq> boundary_index
          then bind_ok (split_item grant tmp border s) (\<lambda>(sec, s).
                 let sec_start = (li_start_index it + border) * VALET_PAGE_SIZE
                 in rdma_write env2 (sec_start div ONE_GB) (sec_start mod ONE_GB) sec s)
          else Inr (0, s)) (\<lambda>(ret, s).
            if ret \<noteq> 0 then Inr (1, s)
            else bind_ok (rdma_write env swapspace_index rb_offset tmp s) (\<lambda>(ret, s).
              Inr (if ret \<noteq> 0 then 1 else 0, s))))"

subsection \<open>The sender\<close>

text \<open>\<open>envs\<close> and \<open>grants\<close> give what the \<open>k\<close>th turn from the end meets.\<close>

definition send_item :: "io_env \<times> io_env \<Rightarrow> ptr \<times> local_page_list \<Rightarrow> ptr \<Rightarrow> rdma_mem \<Rightarrow> rdma_mem outcome" where
  "send_item env grant tmp s =
     bind_ok (request_write (fst env) (snd env) grant tmp s) (\<lambda>(err, s).
       if err \<noteq> 0 then bind_ok (put_sending_index tmp s) (\<lambda>(ret, s). if ret \<noteq> 0 then Inl Hang else Inr s)
       else Inr s)"

definition merge_items :: "ptr \<Rightarrow> ptr \<Rightarrow> rdma_mem \<Rightarrow> rdma_mem outcome" where
  "merge_items tmp_first tmp s =
     bind_ok (deref (items s) tmp_first) (\<lambda>f. bind_ok (deref (items s) tmp) (\<lambda>t.
     bind_ok (foldM (\<lambda>i b. bind_ok (arr_get (batch_list t) i) (\<lambda>e. arr_set b (li_len f + i) e))
                [0..<li_len t] (batch_list f)) (\<lambda>b.
       Inr (put_free_item tmp (s\<lparr>items := (items s)(tmp_first \<mapsto> f\<lparr>batch_list := b, li_len := li_len f + li_len t\<rparr>)\<rparr>)))))"

text \<open>
  The loop ends when the list is empty; each turn takes one item off it. A turn may put an item
  back, so that the list need not become empty: fuel.
\<close>

primrec sender_loop ::
  "nat \<Rightarrow> (nat \<Rightarrow> io_env \<times> io_env) \<Rightarrow> (nat \<Rightarrow> ptr \<times> local_page_list) \<Rightarrow> ptr option \<Rightarrow> bool \<Rightarrow> rdma_mem \<Rightarrow>
   (int \<times> rdma_mem) outcome" where
  "sender_loop 0 envs grants tmp_first must_go s = Inl Hang"
| "sender_loop (Suc k) envs grants tmp_first must_go s =
     bind_ok (get_sending_index s) (\<lambda>(x, s).
       case x of
         None \<Rightarrow> (case tmp_first of None \<Rightarrow> Inr (0, s)
                  | Some f \<Rightarrow> bind_ok (send_item (envs k) (grants k) f s) (\<lambda>s. Inr (0, s)))
       | Some tmp \<Rightarrow>
         (case tmp_first of
            None \<Rightarrow> if must_go then bind_ok (send_item (envs k) (grants k) tmp s) (\<lambda>s. Inr (0, s))
                    else sender_loop k envs grants (Some tmp) must_go s
          | Some f \<Rightarrow>
              bind_ok (deref (items s) tmp) (\<lambda>t. bind_ok (deref (items s) f) (\<lambda>i.
                if li_start_index t = li_start_index i + li_len i \<and> li_len i + li_len t \<le> RDMA_WR_BUF_LEN
                then bind_ok (merge_items f tmp s) (sender_loop k envs grants (Some f) must_go)
                else bind_ok (send_item (envs k) (grants k) f s) (sender_loop k envs grants (Some tmp) True)))))"

definition remote_sender_fn ::
  "nat \<Rightarrow> (nat \<Rightarrow> io_env \<times> io_env) \<Rightarrow> (nat \<Rightarrow> ptr \<times> local_page_list) \<Rightarrow> rdma_mem \<Rightarrow> (int \<times> rdma_mem) outcome" where
  "remote_sender_fn fuel envs grants s = sender_loop fuel envs grants None False s"

subsection \<open>Completion of a write\<close>

definition entry_written :: "ptr \<Rightarrow> rdma_mem \<Rightarrow> rdma_mem outcome" where
  "entry_written entry s =
     bind_ok (update_entry entry (\<lambda>e. let e = e\<lparr>te_ref_count := te_ref_count e - 1\<rparr>
         in if te_ref_count e \<le> 0 then (clear_flag UPDATING e)\<lparr>te_ref_count := 0\<rparr> else e) s) (\<lambda>s.
     bind_ok (deref (entries s) entry) (\<lambda>e.
       if \<not> test_flag e RECLAIMABLE
       then bind_ok (update_entry entry (set_flag RECLAIMABLE) s) (\<lambda>s.
            bind_ok (put_reclaimable_index entry s) (\<lambda>(err, s). Inr s))
       else Inr s))"

definition set_block_bitmap :: "nat \<times> nat \<Rightarrow> u64 \<Rightarrow> u64 \<Rightarrow> valet_session \<Rightarrow> valet_session outcome" where
  "set_block_bitmap b offset len S =
     bind_ok (get_node (int (fst b)) S) (\<lambda>cb. bind_ok (arr_get (remote_blocks (rbh cb)) (snd b)) (\<lambda>rb.
     bind_ok (case bitmap_g rb of None \<Rightarrow> Inl Null_Deref | Some bm \<Rightarrow> valet_bitmap_group_set bm offset len) (\<lambda>bm.
     bind_ok (arr_set (remote_blocks (rbh cb)) (snd b) (rb\<lparr>bitmap_g := Some bm\<rparr>)) (\<lambda>rbs.
       set_node (int (fst b)) (cb\<lparr>rbh := (rbh cb)\<lparr>remote_blocks := rbs\<rparr>\<rparr>) S))))"

text \<open>\<open>num_replica\<close> is \<open>NUM_REPLICA\<close>; a context with a replica index other than 0 does not exist.\<close>

definition write_done_postwork :: "ptr \<Rightarrow> rdma_mem \<Rightarrow> (int \<times> rdma_mem) outcome" where
  "write_done_postwork x s =
     (if x = NULL then Inr (1, s)
      else bind_ok (deref (ctxs s) x) (\<lambda>ctx.
        case ctx_rb ctx of None \<Rightarrow> Inr (1, s)
        | Some b \<Rightarrow>
          if sending_item ctx = NULL then Inr (1, s)
          else
            bind_ok (deref (items s) (sending_item ctx)) (\<lambda>it.
            let n = li_ref_count it + 1;
                s = s\<lparr>items := (items s)(sending_item ctx \<mapsto> it\<lparr>li_ref_count := n\<rparr>)\<rparr>
            in bind_ok (set_block_bitmap b (ctx_offset ctx) (ctx_len ctx) (sess s)) (\<lambda>S.
               let s = s\<lparr>sess := S\<rparr>
               in if ctx_replica_index ctx = 0 \<and> n < int NUM_REPLICA then Inr (0, s)
                  else
                    bind_ok (if n \<ge> int NUM_REPLICA
                      then bind_ok (foldM (\<lambda>i s. bind_ok (arr_get (batch_list it) i) (\<lambda>entry. entry_written entry s))
                             [0..<li_len it] s) (\<lambda>s. Inr (put_free_item (sending_item ctx) s))
                      else Inr s) (\<lambda>s.
                    bind_ok (update_ctx x (\<lambda>c. c\<lparr>sending_item := NULL, ctx_rb_index := - 1, ctx_rb := None,
                               in_flight := CTX_IDLE\<rparr>) s) (\<lambda>s.
                    bind_ok (give_write_ctx x s) (\<lambda>s. Inr (0, s))))))))"

subsection \<open>Reading\<close>

definition rdma_read :: "io_env \<Rightarrow> nat \<Rightarrow> nat \<Rightarrow> remote_block \<Rightarrow> nat \<Rightarrow> ptr \<Rightarrow> rdma_mem \<Rightarrow> (int \<times> rdma_mem) outcome" where
  "rdma_read env c rb_index rb offset req s =
     bind_ok (take_read_ctx s) (\<lambda>(x, s).
     bind_ok (update_ctx x (\<lambda>ctx. ctx\<lparr>ctx_rb_index := int rb_index, ctx_cb := c, ctx_req := req,
                in_flight := CTX_R_IN_FLIGHT\<rparr>) s) (\<lambda>s.
       if io_post env \<noteq> 0 then Inr (io_post env, s)
       else Inr (0, s\<lparr>posted := posted s @
              [WR_Read c (remote_rkey rb) (remote_addr rb + HEADER_SIZE + of_nat offset) x]\<rparr>)))"

primrec read_replicas :: "io_env \<Rightarrow> nat list \<Rightarrow> nat \<Rightarrow> nat \<Rightarrow> ptr \<Rightarrow> rdma_mem \<Rightarrow> (int \<times> rdma_mem) outcome" where
  "read_replicas env [] swapspace_index rb_offset req s = Inr (1, s)"
| "read_replicas env (r # rs) swapspace_index rb_offset req s =
     bind_ok (tab_get (cb_index_map (sess s)) (int r) (int swapspace_index)) (\<lambda>cb_index.
       if cb_index = NO_CB_MAPPED then read_replicas env rs swapspace_index rb_offset req s
       else
         bind_ok (get_node cb_index (sess s)) (\<lambda>cb.
         bind_ok (tab_get (mapping_swapspace_to_rb (sess s)) (int r) (int swapspace_index)) (\<lambda>rb_index.
         bind_ok (iarr_get (remote_blocks (rbh cb)) rb_index) (\<lambda>rb.
           if rb_state rb = READONLY \<or> rb_state rb = NONE_ALLOWED
           then read_replicas env rs swapspace_index rb_offset req s
           else
             bind_ok (case bitmap_g rb of None \<Rightarrow> Inl Null_Deref
                      | Some bm \<Rightarrow> valet_bitmap_test bm (int (rb_offset div VALET_PAGE_SIZE))) (\<lambda>recorded.
             if recorded
             then bind_ok (rdma_read env (nat cb_index) (nat rb_index) rb rb_offset req s) (\<lambda>(retval, s).
                    if retval \<noteq> 0 then read_replicas env rs swapspace_index rb_offset req s else Inr (0, s))
             else read_replicas env rs swapspace_index rb_offset req s)))))"

definition request_read :: "io_env \<Rightarrow> nat \<Rightarrow> ptr \<Rightarrow> rdma_mem \<Rightarrow> (int \<times> rdma_mem) outcome" where
  "request_read env pos req s =
     (if \<not> isRDMAon (sess s) then Inr (1, s)
      else let start = pos * 512
           in read_replicas env [0..<NUM_REPLICA] (start div ONE_GB) (start mod ONE_GB) req s)"

text \<open>
  The whole read of the block device: a page found locally or nowhere ends the request at
  once, with the buffer as it is then; otherwise the request is in flight.
\<close>

datatype read_end = Read_Failed | Read_Ended page | Read_In_Flight

definition radix_read :: "io_env \<Rightarrow> nat \<Rightarrow> ptr \<Rightarrow> page \<Rightarrow> rdma_mem \<Rightarrow> (read_end \<times> rdma_mem) outcome" where
  "radix_read env pos req buffer s =
     bind_ok (read_from_brd pos buffer s) (\<lambda>r. case r of
         Not_Ready \<Rightarrow> Inr (Read_Failed, s)
       | Local d \<Rightarrow> Inr (Read_Ended d, s)
       | Remote index \<Rightarrow> bind_ok (request_read env pos req s) (\<lambda>(ret, s).
           Inr (if ret \<noteq> 0 then Read_Ended buffer else Read_In_Flight, s)))"

text \<open>
  The completion copies the page from the context to the buffer of the request and ends it; the
  result is the request and its data.
\<close>

definition read_done_postwork :: "ptr \<Rightarrow> page \<Rightarrow> rdma_mem \<Rightarrow> ((ptr \<times> page) \<times> rdma_mem) outcome" where
  "read_done_postwork x buffer s =
     bind_ok (deref (ctxs s) x) (\<lambda>ctx.
     bind_ok (memcpy buffer (rdma_buf ctx) VALET_PAGE_SIZE) (\<lambda>d.
     bind_ok (update_ctx x (\<lambda>c. c\<lparr>in_flight := CTX_IDLE, ctx_rb_index := - 1, ctx_req := NULL\<rparr>) s) (\<lambda>s.
     bind_ok (give_read_ctx x s) (\<lambda>s. Inr ((ctx_req ctx, d), s)))))"

subsection \<open>Waiting for transfers in flight\<close>

text \<open>
  One pass over the slots of a pool: the contexts of transfers of the given kind that are in
  flight to the block with key \<open>rkey\<close>.
\<close>

definition ctx_active :: "ctx_flight \<Rightarrow> u32 \<Rightarrow> ptr \<Rightarrow> rdma_mem \<Rightarrow> bool" where
  "ctx_active fl rkey x s \<longleftrightarrow>
     (case ctxs s x of None \<Rightarrow> False
      | Some ctx \<Rightarrow> (case ctx_rb ctx of None \<Rightarrow> False
          | Some (c, i) \<Rightarrow> (case get_node (int c) (sess s) of Inl _ \<Rightarrow> False
              | Inr cb \<Rightarrow> i < length (remote_blocks (rbh cb)) \<and> remote_rkey (remote_blocks (rbh cb) ! i) = rkey)
              \<and> in_flight ctx = fl))"

definition active_transfers :: "u32 \<Rightarrow> bool \<Rightarrow> rdma_mem \<Rightarrow> nat" where
  "active_transfers rkey writeonlycheck s =
     length (filter (\<lambda>x. ctx_active CTX_W_IN_FLIGHT rkey x s)
       (take (fp_cap_nr (rdma_write_freepool (sess s))) (fp_elements (rdma_write_freepool (sess s))))) +
     (if writeonlycheck then 0
      else length (filter (\<lambda>x. ctx_active CTX_R_IN_FLIGHT rkey x s)
        (take (fp_cap_nr (rdma_read_freepool (sess s))) (fp_elements (rdma_read_freepool (sess s))))))"

definition valet_wait_in_flight_requests :: "u32 \<Rightarrow> bool \<Rightarrow> rdma_mem \<Rightarrow> int outcome" where
  "valet_wait_in_flight_requests rkey writeonlycheck s =
     (if active_transfers rkey writeonlycheck s = 0 then Inr 0 else Inl Hang)"

subsection \<open>A request of the block layer\<close>

text \<open>
  \<open>valet_request\<close>: a write goes to the page table and then the sender runs; a read
  ends at once or later. The block layer sees an error only for a write.
\<close>

datatype blk_request = READ nat ptr page | WRITE nat nat "page list"

record blk_env =
  be_item :: "ptr \<times> local_page_list"
  be_entries :: "nat \<Rightarrow> ptr \<times> tree_entry"
  be_preload :: "nat \<Rightarrow> bool"
  be_io :: io_env
  be_fuel :: nat
  be_envs :: "nat \<Rightarrow> io_env \<times> io_env"
  be_grants :: "nat \<Rightarrow> ptr \<times> local_page_list"

definition valet_request :: "blk_env \<Rightarrow> blk_request \<Rightarrow> rdma_mem \<Rightarrow> (int \<times> read_end option \<times> rdma_mem) outcome" where
  "valet_request be r s =
     (case r of
        READ pos req buffer \<Rightarrow>
          bind_ok (radix_read (be_io be) pos req buffer s) (\<lambda>(e, s). Inr (0, Some e, s))
      | WRITE pos n bufs \<Rightarrow>
          bind_ok (write_to_brd (be_item be) (be_entries be) (be_preload be) pos n bufs s) (\<lambda>(err, s).
            if err \<noteq> 0 then Inr (1, None, s)
            else bind_ok (remote_sender_fn (be_fuel be) (be_envs be) (be_grants be) s) (\<lambda>(_, s).
              Inr (0, None, s))))"

end
