(* ===== verification/Path_Lemmas.thy ===== *)
theory Path_Lemmas
  imports Rdma_Path Migration
begin

text \<open>
  The steps of the data path one by one: what a remote write posts, what its completion records,
  what a remote read posts.
\<close>

subsection \<open>The pages of an item\<close>

text \<open>The item \<open>it\<close> refers, entry by entry, to the pages with the contents \<open>ds\<close>.\<close>

definition item_pages :: "local_page_list \<Rightarrow> 'a gpt_mem_scheme \<Rightarrow> page list \<Rightarrow> bool" where
  "item_pages it s ds \<longleftrightarrow> length ds = li_len it \<and> li_len it \<le> length (batch_list it) \<and> li_len it \<le> RDMA_WR_BUF_LEN \<and>
     (\<forall>j<li_len it. length (ds ! j) = VALET_PAGE_SIZE \<and>
       (\<exists>e. entries s (batch_list it ! j) = Some e \<and> te_page e \<noteq> NULL \<and> pages s (te_page e) = Some (ds ! j)))"

lemma concat_pages_length:
  "(\<forall>j<length ds. length (ds ! j) = n) \<Longrightarrow> length (concat ds) = n * length (ds :: 'a list list)"
proof (induction ds)
  case (Cons d ds)
  have "length d = n" using Cons.prems by force
  moreover have "\<forall>j<length ds. length (ds ! j) = n" using Cons.prems by force
  ultimately show ?case using Cons.IH by simp
qed simp

lemma concat_page_slice:
  assumes "\<forall>j<length ds. length (ds ! j) = n" and "j < length ds"
  shows "take n (drop (n * j) (concat ds)) = ds ! j"
  using assms
proof (induction ds arbitrary: j)
  case (Cons d ds)
  have d: "length d = n" using Cons.prems(1) by force
  have ds: "\<forall>j<length ds. length (ds ! j) = n" using Cons.prems(1) by force
  show ?case
  proof (cases j)
    case 0
    then show ?thesis using d by simp
  next
    case (Suc k)
    then have "take n (drop (n * k) (concat ds)) = ds ! k" using Cons.IH [OF ds] Cons.prems(2) by simp
    then show ?thesis using d Suc by simp
  qed
qed simp

lemma item_pages_bytes: "item_pages it s ds \<Longrightarrow> length (concat ds) = VALET_PAGE_SIZE * li_len it"
  using concat_pages_length [of ds VALET_PAGE_SIZE] by (simp add: item_pages_def)

lemma fill_rdma_buf_ok:
  assumes "item_pages it s ds" and "VALET_PAGE_SIZE * li_len it \<le> length buf"
  shows "fill_rdma_buf it s buf = Inr (concat ds @ drop (VALET_PAGE_SIZE * li_len it) buf)"
proof -
  let ?f = "\<lambda>i buf. bind_ok (arr_get (batch_list it) i) (\<lambda>entry. bind_ok (deref (entries s) entry) (\<lambda>e.
         if te_page e = NULL then Inr buf
         else bind_ok (deref (pages s) (te_page e)) (\<lambda>cmem. buf_write buf (i * VALET_PAGE_SIZE) cmem)))"
  let ?b = "\<lambda>j. concat (take j ds) @ drop (VALET_PAGE_SIZE * j) buf"
  have step: "?f j (?b j) = Inr (?b (Suc j))" if j: "j < li_len it" for j
  proof -
    obtain e where e: "entries s (batch_list it ! j) = Some e" "te_page e \<noteq> NULL" "pages s (te_page e) = Some (ds ! j)"
      using assms(1) j by (auto simp: item_pages_def)
    have l: "length (concat (take j ds)) = VALET_PAGE_SIZE * j"
      using concat_pages_length [of "take j ds" VALET_PAGE_SIZE] assms(1) j by (simp add: item_pages_def)
    have d: "length (ds ! j) = VALET_PAGE_SIZE" "j < length ds" "j < length (batch_list it)"
      using assms(1) j by (auto simp: item_pages_def)
    have b: "VALET_PAGE_SIZE * j + VALET_PAGE_SIZE \<le> length buf"
      using assms(2) j by (metis Suc_leI mult_Suc_right mult_le_mono2 order_trans add.commute)
    then have "buf_write (?b j) (j * VALET_PAGE_SIZE) (ds ! j) = Inr (?b (Suc j))"
      using l d by (simp add: buf_write_def mult.commute take_Suc_conv_app_nth)
    then show ?thesis using e d by simp
  qed
  have "foldM ?f [0..<li_len it] (?b 0) = Inr (?b (li_len it))" by (rule foldM_upt [where b = ?b]) (rule step)
  then show ?thesis using assms(1) by (simp add: fill_rdma_buf_def item_pages_def)
qed

subsection \<open>A remote write\<close>

text \<open>A context \<open>x\<close> is on top of the pool, with room for a full item.\<close>

definition write_ctx_ready :: "ptr \<Rightarrow> rdma_ctx \<Rightarrow> rdma_mem \<Rightarrow> bool" where
  "write_ctx_ready x ctx s \<longleftrightarrow> (let p = rdma_write_freepool (sess s) in
     0 < fp_curr_nr p \<and> fp_curr_nr p \<le> length (fp_elements p) \<and> fp_curr_nr p \<le> fp_cap_nr p \<and>
     length (fp_elements p) = fp_cap_nr p \<and>
     fp_elements p ! (fp_curr_nr p - 1) = x \<and> x \<noteq> NULL \<and>
     ctxs s x = Some ctx \<and> length (rdma_buf ctx) = VALET_PAGE_SIZE * RDMA_WR_BUF_LEN)"

definition block_addr :: "valet_session \<Rightarrow> nat \<Rightarrow> nat \<Rightarrow> nat \<Rightarrow> u64" where
  "block_addr S c i offset = remote_addr (block_at S c i) + HEADER_SIZE + of_nat offset"

text \<open>The state after the write of the pages \<open>ds\<close> of an item to offset \<open>off\<close> of block \<open>i\<close> of node \<open>c\<close>.\<close>

definition write_posted :: "io_env \<Rightarrow> nat \<Rightarrow> nat \<Rightarrow> nat \<Rightarrow> ptr \<Rightarrow> local_page_list \<Rightarrow> page list \<Rightarrow> ptr \<Rightarrow> rdma_ctx \<Rightarrow> rdma_mem \<Rightarrow> rdma_mem" where
  "write_posted env c i off tmp it ds x ctx s = s\<lparr>
     items := (items s)(tmp \<mapsto> it\<lparr>li_ref_count := 0\<rparr>),
     sess := (sess s)\<lparr>rdma_write_freepool := (rdma_write_freepool (sess s))
       \<lparr>fp_curr_nr := fp_curr_nr (rdma_write_freepool (sess s)) - 1\<rparr>\<rparr>,
     ctxs := (ctxs s)(x \<mapsto> ctx\<lparr>in_flight := CTX_W_IN_FLIGHT, ctx_replica_index := 0,
       rdma_buf := concat ds @ drop (VALET_PAGE_SIZE * li_len it) (rdma_buf ctx),
       ctx_len := of_nat (li_len it * VALET_PAGE_SIZE), sending_item := tmp, ctx_offset := of_nat off, ctx_cb := c,
       ctx_rb := Some (c, i), ctx_rb_index := int i\<rparr>),
     posted := posted s @ [WR_Write c (remote_rkey (block_at (sess s) c i)) (block_addr (sess s) c i off) (concat ds) x,
       WR_Header c (remote_rkey (block_at (sess s) c i)) (remote_addr (block_at (sess s) c i)) (io_now env)]\<rparr>"

lemma placed_lookup:
  assumes "maps_ok S" and "placement S g = Some (c, i)"
  shows "tab_get (mapping_swapspace_to_rb S) 0 (int g) = Inr (int i)" "tab_get (cb_index_map S) 0 (int g) = Inr (int c)"
    "get_node (int c) S = Inr (cb_list S ! c)" "i < length (remote_blocks (node_rbh S c))" "c < length (cb_list S)"
  using maps_ok_placed [OF assms] assms
  by (auto simp: placed_ok_def maps_ok_def session_ok_def tab_get_0 tables_ok_def placement_def split: if_splits)

lemma rdma_write_ok:
  assumes "maps_ok (sess s)" and "placement (sess s) g = Some (c, i)" and "rb_state (block_at (sess s) c i) = ACTIVE"
    and "items s tmp = Some it" and "item_pages it s ds" and "write_ctx_ready x ctx s" and "io_post env = 0"
  shows "rdma_write env g off tmp s = Inr (0, write_posted env c i off tmp it ds x ctx s)"
proof -
  note l = placed_lookup [OF assms(1,2)]
  let ?p = "rdma_write_freepool (sess s)"
  have w: "0 < fp_curr_nr ?p" "fp_curr_nr ?p \<le> length (fp_elements ?p)" "fp_elements ?p ! (fp_curr_nr ?p - 1) = x"
    "x \<noteq> NULL" "ctxs s x = Some ctx" "length (rdma_buf ctx) = VALET_PAGE_SIZE * RDMA_WR_BUF_LEN"
    using assms(6) by (simp_all add: write_ctx_ready_def Let_def)
  let ?t = "s\<lparr>items := (items s)(tmp \<mapsto> it\<lparr>li_ref_count := 0\<rparr>)\<rparr>"
  have t: "take_write_ctx ?t = Inr (x, ?t\<lparr>sess := (sess s)\<lparr>rdma_write_freepool := ?p\<lparr>fp_curr_nr := fp_curr_nr ?p - 1\<rparr>\<rparr>\<rparr>)"
    using w by (simp add: take_write_ctx_def get_rdma_freepool_def)
  have len: "li_len it \<le> RDMA_WR_BUF_LEN" "length (concat ds) = VALET_PAGE_SIZE * li_len it"
    using assms(5) item_pages_bytes by (auto simp: item_pages_def)
  have ip: "item_pages it (?t\<lparr>sess := S\<rparr>) ds" for S using assms(5) by (simp add: item_pages_def)
  have f: "fill_rdma_buf it (?t\<lparr>sess := S\<rparr>) (rdma_buf ctx) = Inr (concat ds @ drop (VALET_PAGE_SIZE * li_len it) (rdma_buf ctx))" for S
    using fill_rdma_buf_ok [OF ip] w(6) len by simp
  have "unat (of_nat (li_len it * VALET_PAGE_SIZE) :: u64) = VALET_PAGE_SIZE * li_len it"
    using len(1) by (subst unat_of_nat_u64) simp_all
  then have u: "unat (of_nat (li_len it) * VALET_PAGE_SIZE :: u64) = VALET_PAGE_SIZE * li_len it" by simp
  show ?thesis
    using l w(5) len(2) assms(3,4,7) get_cb_mapped [OF assms(1,2), of "io_net env"]
    by (simp add: rdma_write_def t f Let_def block_at_def update_ctx_def rdma_write_post_def u
        write_posted_def block_addr_def)
qed

subsection \<open>Gigabytes and pages\<close>

abbreviation (input) PAGES_PER_GB :: nat where "PAGES_PER_GB \<equiv> 262144"

lemma page_gb: "p * VALET_PAGE_SIZE div ONE_GB = p div PAGES_PER_GB" for p :: nat
proof -
  have "p * 4096 div (4096 * 262144) = p * 4096 div 4096 div (262144::nat)" by (simp only: div_mult2_eq)
  then show ?thesis by simp
qed

lemma page_offset: "p * VALET_PAGE_SIZE mod ONE_GB = (p mod PAGES_PER_GB) * VALET_PAGE_SIZE" for p :: nat
  using mult_mod_left [of p "262144::nat" "4096"] by simp

lemma page_sum:
  fixes p b :: nat
  shows "(p * VALET_PAGE_SIZE + b * VALET_PAGE_SIZE) div ONE_GB = (p + b) div PAGES_PER_GB"
    "(p * VALET_PAGE_SIZE + b * VALET_PAGE_SIZE) mod ONE_GB = ((p + b) mod PAGES_PER_GB) * VALET_PAGE_SIZE"
  using page_gb [of "p + b"] page_offset [of "p + b"] by (simp_all only: add_mult_distrib)

lemma page_last:
  fixes p n :: nat
  assumes "0 < n"
  shows "(p * VALET_PAGE_SIZE + n * VALET_PAGE_SIZE - VALET_PAGE_SIZE) div ONE_GB = (p + n - 1) div PAGES_PER_GB"
proof -
  have "p * 4096 + n * 4096 - 4096 = (p + n - 1) * (4096::nat)" using assms by (simp add: algebra_simps)
  then show ?thesis by (simp only: page_gb)
qed

lemma border_loop_stops:
  assumes "b \<le> d" and "d \<le> b + k" and "\<forall>j. b \<le> j \<and> j < d \<longrightarrow> (p + j) div PAGES_PER_GB = g"
    and "d < b + k \<longrightarrow> (p + d) div PAGES_PER_GB \<noteq> g"
  shows "border_loop k (p * VALET_PAGE_SIZE) g b = d"
  using assms
proof (induction k arbitrary: b)
  case (Suc k)
  have e: "p * 4096 + b * 4096 = (p + b) * (4096::nat)" by (simp add: algebra_simps)
  have g: "(p * 4096 + b * 4096) div 1073741824 = (p + b) div (262144::nat)" unfolding e by (rule page_gb)
  show ?case
  proof (cases "b = d")
    case True
    then have "g \<noteq> (p * 4096 + b * 4096) div 1073741824" unfolding g using Suc.prems(4) by (simp del: div_mult_self1)
    then show ?thesis using True by simp
  next
    case False
    then have "border_loop k (p * VALET_PAGE_SIZE) g (b + 1) = d"
      using Suc.prems by (intro Suc.IH) auto
    moreover have "g = (p * 4096 + b * 4096) div 1073741824" unfolding g using Suc.prems(1,3) False by auto
    ultimately show ?thesis by simp
  qed
qed simp

text \<open>A request of at most 128 pages meets at most one boundary.\<close>

lemma same_block:
  fixes p j N :: nat
  assumes "0 < N"
  shows "(p + j) div N = p div N \<longleftrightarrow> j < N - p mod N"
proof -
  have "p + j = (p mod N + j) + N * (p div N)" by simp
  then have "(p + j) div N = ((p mod N + j) + N * (p div N)) div N" by simp
  also have "\<dots> = p div N + (p mod N + j) div N" using assms by (simp only: div_mult_self2)
  finally have "(p + j) div N = p div N \<longleftrightarrow> p mod N + j < N" using assms by (simp add: div_eq_0_iff)
  then show ?thesis by linarith
qed

lemmas same_gb = same_block [of PAGES_PER_GB, simplified]

lemma next_block:
  fixes p N :: nat
  assumes "0 < N"
  shows "(p + (N - p mod N)) div N = Suc (p div N)" "(p + (N - p mod N)) mod N = 0"
proof -
  have "p mod N < N" using assms by simp
  moreover have "N * (p div N) + p mod N = p" by simp
  ultimately have "p + (N - p mod N) = N * Suc (p div N)" by (simp; linarith)
  then show "(p + (N - p mod N)) div N = Suc (p div N)" "(p + (N - p mod N)) mod N = 0"
    using assms by (simp_all del: mult_Suc_right)
qed

lemmas after_border = next_block [of PAGES_PER_GB, simplified]

lemma border_of:
  assumes "p div PAGES_PER_GB \<noteq> (p + n - 1) div PAGES_PER_GB" and "0 < n"
  shows "PAGES_PER_GB - p mod PAGES_PER_GB < n"
    and "border_loop n (p * VALET_PAGE_SIZE) (p div PAGES_PER_GB) 0 = PAGES_PER_GB - p mod PAGES_PER_GB"
proof -
  let ?d = "PAGES_PER_GB - p mod PAGES_PER_GB"
  have "p + n - 1 = p + (n - 1)" using assms(2) by simp
  then have "\<not> n - 1 < ?d" using same_gb [of p "n - 1"] assms(1) by metis
  then show d: "?d < n" using assms(2) by linarith
  show "border_loop n (p * VALET_PAGE_SIZE) (p div PAGES_PER_GB) 0 = ?d"
  proof (rule border_loop_stops)
    show "\<forall>j. 0 \<le> j \<and> j < ?d \<longrightarrow> (p + j) div PAGES_PER_GB = p div PAGES_PER_GB"
    proof (intro allI impI)
      fix j assume "0 \<le> j \<and> j < ?d"
      then show "(p + j) div PAGES_PER_GB = p div PAGES_PER_GB" unfolding same_gb by blast
    qed
    show "?d < 0 + n \<longrightarrow> (p + ?d) div PAGES_PER_GB \<noteq> p div PAGES_PER_GB" unfolding same_gb by blast
  qed (use d in simp_all)
qed

subsection \<open>A whole request\<close>

text \<open>The page with index \<open>x\<close>: its gigabyte, its offset there, the block it goes to and the address in that block.\<close>

abbreviation (input) gb_of :: "nat \<Rightarrow> nat" where "gb_of x \<equiv> x div PAGES_PER_GB"
abbreviation (input) offset_of :: "nat \<Rightarrow> nat" where "offset_of x \<equiv> (x mod PAGES_PER_GB) * VALET_PAGE_SIZE"

definition writable :: "valet_session \<Rightarrow> nat \<Rightarrow> nat \<Rightarrow> nat \<Rightarrow> bool" where
  "writable S x c i \<longleftrightarrow> placement S (gb_of x) = Some (c, i) \<and> rb_state (block_at S c i) = ACTIVE"

definition page_posted :: "work_request list \<Rightarrow> nat \<Rightarrow> u32 \<Rightarrow> u64 \<Rightarrow> page \<Rightarrow> bool" where
  "page_posted ws c key a d \<longleftrightarrow> (\<exists>a0 data x k. WR_Write c key a0 data x \<in> set ws \<and> a = a0 + of_nat (VALET_PAGE_SIZE * k) \<and>
     VALET_PAGE_SIZE * k + VALET_PAGE_SIZE \<le> length data \<and> take VALET_PAGE_SIZE (drop (VALET_PAGE_SIZE * k) data) = d)"

lemma page_posted_mono: "page_posted ws c key a d \<Longrightarrow> set ws \<subseteq> set ws' \<Longrightarrow> page_posted ws' c key a d"
  unfolding page_posted_def by blast

lemma item_pages_posted:
  assumes "item_pages it s ds" and "j < li_len it" and "offset_of (p + j) = offset_of p + VALET_PAGE_SIZE * j"
    and "WR_Write c key (block_addr S c i (offset_of p)) (concat ds) x \<in> set ws"
  shows "page_posted ws c key (block_addr S c i (offset_of (p + j))) (ds ! j)"
proof -
  have ds: "\<forall>j<length ds. length (ds ! j) = VALET_PAGE_SIZE" "length ds = li_len it" using assms(1) by (simp_all add: item_pages_def)
  have l: "length (concat ds) = VALET_PAGE_SIZE * li_len it" by (rule item_pages_bytes [OF assms(1)])
  have "VALET_PAGE_SIZE * Suc j \<le> VALET_PAGE_SIZE * li_len it" using assms(2) by (intro mult_le_mono2) simp
  then have "VALET_PAGE_SIZE * j + VALET_PAGE_SIZE \<le> length (concat ds)" unfolding l by simp
  moreover have "take VALET_PAGE_SIZE (drop (VALET_PAGE_SIZE * j) (concat ds)) = ds ! j"
    using concat_page_slice [OF ds(1), of j] assms(2) ds(2) by simp
  moreover have "block_addr S c i (offset_of (p + j)) = block_addr S c i (offset_of p) + of_nat (VALET_PAGE_SIZE * j)"
    by (simp only: block_addr_def assms(3) of_nat_add add.assoc)
  ultimately show ?thesis using assms(4) unfolding page_posted_def by blast
qed

lemma offset_in_block:
  fixes p j :: nat
  assumes "gb_of (p + j) = gb_of p"
  shows "offset_of (p + j) = offset_of p + VALET_PAGE_SIZE * j"
proof -
  have "p + j = PAGES_PER_GB * (p div PAGES_PER_GB) + (p + j) mod PAGES_PER_GB"
    using mult_div_mod_eq [of PAGES_PER_GB "p + j"] unfolding assms by simp
  moreover have "p = PAGES_PER_GB * (p div PAGES_PER_GB) + p mod PAGES_PER_GB"
    using mult_div_mod_eq [of PAGES_PER_GB p] by simp
  ultimately have "(p + j) mod PAGES_PER_GB = p mod PAGES_PER_GB + j" by linarith
  then show ?thesis by simp
qed

lemma same_gb_between:
  fixes p n j :: nat
  assumes "gb_of (p + n - 1) = gb_of p" and "j < n"
  shows "gb_of (p + j) = gb_of p"
proof -
  have "p + n - 1 = p + (n - 1)" using assms(2) by simp
  then have "n - 1 < PAGES_PER_GB - p mod PAGES_PER_GB" using assms(1) same_gb [of p "n - 1"] by metis
  then show ?thesis using assms(2) unfolding same_gb by linarith
qed

lemma request_write_one:
  assumes "maps_ok (sess s)" and "items s tmp = Some it" and "item_pages it s ds" and "0 < li_len it"
    and "gb_of (li_start_index it + li_len it - 1) = gb_of (li_start_index it)"
    and "writable (sess s) (li_start_index it) c i" and "write_ctx_ready x ctx s" and "io_post env = 0"
  shows "request_write env env2 grant tmp s = Inr (0, write_posted env c i (offset_of (li_start_index it)) tmp it ds x ctx s)"
proof -
  have p: "placement (sess s) (gb_of (li_start_index it)) = Some (c, i)" "rb_state (block_at (sess s) c i) = ACTIVE"
    using assms(6) by (simp_all add: writable_def)
  show ?thesis
    using rdma_write_ok [OF assms(1) p assms(2,3,7,8)] assms(2,5)
    by (simp add: request_write_def Let_def page_gb page_offset page_last [OF assms(4)])
qed

subsection \<open>A request across a boundary\<close>

lemma copy_run:
  assumes "a + n \<le> length xs" and "k + n \<le> length ys"
  shows "foldM (\<lambda>i b. bind_ok (arr_get xs i) (\<lambda>e. arr_set b (k + (i - a)) e)) [a..<a + n] ys =
    Inr (take k ys @ take n (drop a xs) @ drop (k + n) ys)"
  using assms
proof (induction n)
  case (Suc n)
  have u: "[a..<a + Suc n] = [a..<a + n] @ [a + n]" by simp
  have t: "take (Suc n) (drop a xs) = take n (drop a xs) @ [xs ! (a + n)]" "length (take n (drop a xs)) = n"
    using Suc.prems by (simp_all add: take_Suc_conv_app_nth)
  have d: "drop (k + n) ys = ys ! (k + n) # drop (k + Suc n) ys" using Suc.prems by (simp add: Cons_nth_drop_Suc)
  have "(take k ys @ take n (drop a xs) @ drop (k + n) ys)[k + n := xs ! (a + n)] =
      take k ys @ take (Suc n) (drop a xs) @ drop (k + Suc n) ys"
    using Suc.prems t unfolding d by (simp add: list_update_append)
  then show ?case unfolding u using Suc t by (simp add: foldM_append)
qed simp

definition second_half :: "local_page_list \<Rightarrow> nat \<Rightarrow> local_page_list \<Rightarrow> local_page_list" where
  "second_half it b it2 = it2\<lparr>batch_list := take (li_len it - b) (drop b (batch_list it)) @ drop (li_len it - b) (batch_list it2),
     li_start_index := li_start_index it + b, li_len := li_len it - b\<rparr>"

lemma split_item_ok:
  assumes "items s tmp = Some it" and "sec \<noteq> NULL" and "sec \<noteq> tmp" and "b \<le> li_len it"
    and "li_len it \<le> length (batch_list it)" and "li_len it \<le> length (batch_list it2)"
  shows "split_item (sec, it2) tmp b s = Inr (sec, s\<lparr>items := (items s)(sec \<mapsto> second_half it b it2, tmp \<mapsto> it\<lparr>li_len := b\<rparr>)\<rparr>)"
proof -
  have n: "[b..<li_len it] = [b..<b + (li_len it - b)]" using assms(4) by simp
  have "foldM (\<lambda>i x. bind_ok (arr_get (batch_list it) i) (\<lambda>e. arr_set x (i - b) e)) [b..<li_len it] (batch_list it2) =
      Inr (take (li_len it - b) (drop b (batch_list it)) @ drop (li_len it - b) (batch_list it2))"
    unfolding n using copy_run [of b "li_len it - b" "batch_list it" 0 "batch_list it2"] assms by simp
  then show ?thesis using assms(1-3) by (simp add: split_item_def get_free_item_def second_half_def)
qed

lemma item_pages_second:
  assumes "item_pages it s ds" and "b \<le> li_len it" and "length (batch_list it2) = RDMA_WR_BUF_LEN"
  shows "item_pages (second_half it b it2) s (drop b ds)"
  using assms by (auto simp: item_pages_def second_half_def nth_append)

lemma item_pages_first:
  assumes "item_pages it s ds" and "b \<le> li_len it"
  shows "item_pages (it\<lparr>li_len := b\<rparr>) s (take b ds)"
  using assms by (auto simp: item_pages_def)

text \<open>Taking a context leaves the tables of the session alone.\<close>

lemma write_freepool_frame [simp]:
  "maps_ok (S\<lparr>rdma_write_freepool := p\<rparr>) = maps_ok S"
  "placement (S\<lparr>rdma_write_freepool := p\<rparr>) g = placement S g"
  "block_at (S\<lparr>rdma_write_freepool := p\<rparr>) = block_at S"
  "block_addr (S\<lparr>rdma_write_freepool := p\<rparr>) = block_addr S"
proof -
  have pl: "placement (S\<lparr>rdma_write_freepool := p\<rparr>) g = placement S g" for g by (simp add: placement_def cong: if_cong)
  show "placement (S\<lparr>rdma_write_freepool := p\<rparr>) g = placement S g" by (rule pl)
  show "maps_ok (S\<lparr>rdma_write_freepool := p\<rparr>) = maps_ok S"
    by (simp add: maps_ok_def session_ok_def placed_ok_def block_at_def pl)
  show "block_at (S\<lparr>rdma_write_freepool := p\<rparr>) = block_at S" by (simp add: fun_eq_iff block_at_def)
  then show "block_addr (S\<lparr>rdma_write_freepool := p\<rparr>) = block_addr S" by (simp add: fun_eq_iff block_addr_def)
qed

text \<open>A second context \<open>y\<close> lies below the first.\<close>

definition second_ctx_ready :: "ptr \<Rightarrow> ptr \<Rightarrow> rdma_ctx \<Rightarrow> rdma_mem \<Rightarrow> bool" where
  "second_ctx_ready x y ctx s \<longleftrightarrow> (let p = rdma_write_freepool (sess s) in
     1 < fp_curr_nr p \<and> fp_elements p ! (fp_curr_nr p - 2) = y \<and> y \<noteq> NULL \<and> y \<noteq> x \<and>
     ctxs s y = Some ctx \<and> length (rdma_buf ctx) = VALET_PAGE_SIZE * RDMA_WR_BUF_LEN)"

lemma second_ctx:
  assumes "write_ctx_ready x ctx s" and "second_ctx_ready x y ctx2 s"
  shows "write_ctx_ready y ctx2 (write_posted env c i off tmp it ds x ctx' s)"
  using assms by (auto simp: write_ctx_ready_def second_ctx_ready_def write_posted_def Let_def numeral_2_eq_2)

lemma write_ctx_items: "write_ctx_ready x ctx (s\<lparr>items := m\<rparr>) = write_ctx_ready x ctx s"
  "second_ctx_ready x y ctx (s\<lparr>items := m\<rparr>) = second_ctx_ready x y ctx s"
  by (simp_all add: write_ctx_ready_def second_ctx_ready_def)

lemma request_write_two:
  assumes "maps_ok (sess s)" and "items s tmp = Some it" and "item_pages it s ds" and "0 < li_len it"
    and "gb_of (li_start_index it + li_len it - 1) \<noteq> gb_of (li_start_index it)"
    and "b = PAGES_PER_GB - li_start_index it mod PAGES_PER_GB"
    and "writable (sess s) (li_start_index it) c i" and "writable (sess s) (li_start_index it + b) c' i'"
    and "write_ctx_ready x ctx s" and "second_ctx_ready x y ctx' s" and "io_post env = 0" and "io_post env2 = 0"
    and "sec \<noteq> NULL" and "sec \<noteq> tmp" and "length (batch_list it2) = RDMA_WR_BUF_LEN"
  shows "request_write env env2 (sec, it2) tmp s = Inr (0,
    write_posted env c i (offset_of (li_start_index it)) tmp (it\<lparr>li_len := b\<rparr>) (take b ds) y ctx'
     (write_posted env2 c' i' (offset_of (li_start_index it + b)) sec (second_half it b it2) (drop b ds) x ctx
       (s\<lparr>items := (items s)(sec \<mapsto> second_half it b it2, tmp \<mapsto> it\<lparr>li_len := b\<rparr>)\<rparr>)))"
proof -
  let ?p = "li_start_index it"
  let ?s1 = "s\<lparr>items := (items s)(sec \<mapsto> second_half it b it2, tmp \<mapsto> it\<lparr>li_len := b\<rparr>)\<rparr>"
  let ?s2 = "write_posted env2 c' i' (offset_of (?p + b)) sec (second_half it b it2) (drop b ds) x ctx ?s1"
  have b: "b < li_len it" "border_loop (li_len it) (?p * VALET_PAGE_SIZE) (gb_of ?p) 0 = b"
    using border_of [of ?p "li_len it"] assms(4,5,6) by simp_all
  have len: "li_len it \<le> length (batch_list it)" "li_len it \<le> RDMA_WR_BUF_LEN" using assms(3) by (simp_all add: item_pages_def)
  have sp: "split_item (sec, it2) tmp b s = Inr (sec, ?s1)"
    using split_item_ok [OF assms(2,13,14) _ len(1), of b it2] b(1) len(2) assms(15) by simp
  have ip: "item_pages it ?s1 ds" using assms(3) by (simp add: item_pages_def)
  have w': "placement (sess ?s1) (gb_of (?p + b)) = Some (c', i')" "rb_state (block_at (sess ?s1) c' i') = ACTIVE"
    using assms(8) by (simp_all add: writable_def)
  have one: "rdma_write env2 (gb_of (?p + b)) (offset_of (?p + b)) sec ?s1 = Inr (0, ?s2)"
    using assms(1,9,12,14) b(1) item_pages_second [OF ip _ assms(15), of b]
    by (intro rdma_write_ok [OF _ w']) (simp_all add: write_ctx_items)
  have i2: "items ?s2 tmp = Some (it\<lparr>li_len := b\<rparr>)" "maps_ok (sess ?s2)"
    "placement (sess ?s2) (gb_of ?p) = Some (c, i)" "rb_state (block_at (sess ?s2) c i) = ACTIVE"
    using assms(1,7,14) by (simp_all add: write_posted_def writable_def)
  have "item_pages (it\<lparr>li_len := b\<rparr>) ?s2 (take b ds)"
    using item_pages_first [OF ip, of b] b(1) by (simp add: write_posted_def item_pages_def)
  then have two: "rdma_write env (gb_of ?p) (offset_of ?p) tmp ?s2 =
      Inr (0, write_posted env c i (offset_of ?p) tmp (it\<lparr>li_len := b\<rparr>) (take b ds) y ctx' ?s2)"
    using second_ctx [of x ctx ?s1 y ctx'] assms(9-11) by (intro rdma_write_ok [OF i2(2-4,1)]) (simp_all add: write_ctx_items)
  have "(?p * VALET_PAGE_SIZE) div ONE_GB \<noteq> (?p * VALET_PAGE_SIZE + li_len it * VALET_PAGE_SIZE - VALET_PAGE_SIZE) div ONE_GB"
    unfolding page_gb page_last [OF assms(4)] using assms(5) by metis
  then show ?thesis
    using assms(2) sp one two by (simp add: request_write_def Let_def page_gb page_offset page_sum b(2))
qed

end
