(* ===== verification/Completion.thy ===== *)
theory Completion
  imports Path_Lemmas Gpt_Properties
begin

text \<open>
  The completion of a remote write (\<open>write_done_postwork\<close> of rdmabox.c): the pages it carried are
  recorded in the bitmap of the block, their entries become reclaimable, and the
  context and the item are free again.
\<close>

subsection \<open>One entry\<close>

definition written_entry :: "tree_entry \<Rightarrow> tree_entry" where
  "written_entry e =
     (let e = e\<lparr>te_ref_count := te_ref_count e - 1\<rparr>;
          e = (if te_ref_count e \<le> 0 then (clear_flag UPDATING e)\<lparr>te_ref_count := 0\<rparr> else e)
      in if test_flag e RECLAIMABLE then e else set_flag RECLAIMABLE e)"

lemma test_flag_ref [simp]: "test_flag (e\<lparr>te_ref_count := n\<rparr>) f = test_flag e f"
  by (simp add: test_flag_def)

lemma written_entry_simps [simp]:
  "te_page (written_entry e) = te_page e" "te_len (written_entry e) = te_len e"
  "test_flag (written_entry e) RECLAIMABLE" "te_ref_count (written_entry e) = max 0 (te_ref_count e - 1)"
  "test_flag (written_entry e) UPDATING \<longleftrightarrow> test_flag e UPDATING \<and> 1 < te_ref_count e"
  by (auto simp: written_entry_def Let_def)

lemma written_entry_code:
  "written_entry e = (let e' = (if te_ref_count e \<le> 1 then (clear_flag UPDATING (e\<lparr>te_ref_count := te_ref_count e - 1\<rparr>))\<lparr>te_ref_count := 0\<rparr>
     else e\<lparr>te_ref_count := te_ref_count e - 1\<rparr>)
   in if test_flag e RECLAIMABLE then e' else set_flag RECLAIMABLE e')"
  by (auto simp: written_entry_def Let_def)

text \<open>The state after the entries \<open>es\<close> have been handled.\<close>

definition completed :: "nat \<Rightarrow> ptr list \<Rightarrow> 'a valet_mem_scheme \<Rightarrow> 'a valet_mem_scheme \<Rightarrow> bool" where
  "completed k es s s' \<longleftrightarrow> pool_ok k s' \<and>
     (\<exists>r. s' = s\<lparr>entries := (\<lambda>a. if a \<in> set es then Some (written_entry (the (entries s a))) else entries s a),
             pool := (pool s)\<lparr>reclaim_list := r\<rparr>\<rparr>) \<and>
     reclaim_contents s' = reclaim_contents s @ filter (\<lambda>a. \<not> test_flag (the (entries s a)) RECLAIMABLE) es"

lemma completed_Nil: "pool_ok k s \<Longrightarrow> completed k [] s s"
  by (auto simp: completed_def intro!: exI [of _ "reclaim_list (pool s)"])

lemma put_reclaimable_ok:
  assumes "pool_ok k s" and "length (reclaim_contents s) < 2 ^ k" and "a \<notin> set (reclaim_contents s)"
    and "entries s a = Some e" and "test_flag e RECLAIMABLE"
  shows "\<exists>r. put_reclaimable_index a s = Inr (0, s\<lparr>pool := (pool s)\<lparr>reclaim_list := r\<rparr>\<rparr>) \<and>
    pool_ok k (s\<lparr>pool := (pool s)\<lparr>reclaim_list := r\<rparr>\<rparr>) \<and>
    reclaim_contents (s\<lparr>pool := (pool s)\<lparr>reclaim_list := r\<rparr>\<rparr>) = reclaim_contents s @ [a]"
proof -
  obtain q where q: "reclaim_list (pool s) = Some q" "alf_win k q" using assms(1) by (auto simp: pool_ok_def reclaim_ok_def)
  then have c: "reclaim_contents s = alf_contents q" by (simp add: reclaim_contents_def)
  have "length (alf_contents q) < 2 ^ k" using assms(2) c by simp
  then obtain q' where q': "put_index q a = Inr (True, q')" "alf_win k q'" "alf_contents q' = alf_contents q @ [a]"
    using win.put_room [OF q(2)] by blast
  let ?s = "s\<lparr>pool := (pool s)\<lparr>reclaim_list := Some q'\<rparr>\<rparr>"
  have r: "reclaim_contents ?s = reclaim_contents s @ [a]" using q' c by (simp add: reclaim_contents_def)
  have "reclaim_ok k ?s" using assms q' r unfolding pool_ok_def reclaim_ok_def by auto
  moreover have "pool_shape ?s" "pages_ok ?s" using assms(1) by (simp_all add: pool_ok_def pool_shape_def)
  ultimately have "pool_ok k ?s" by (simp add: pool_ok_def)
  then show ?thesis using q(1) q'(1) r by (intro exI [of _ "Some q'"]) (simp add: put_reclaimable_index_def)
qed

lemma entry_written_ok:
  fixes s :: rdma_mem
  assumes "pool_ok k s" and "entries s a = Some e" and "length (reclaim_contents s) < 2 ^ k"
  shows "\<exists>s'. entry_written a s = Inr s' \<and> completed k [a] s s'"
proof -
  define f where "f = (\<lambda>e. let e = e\<lparr>te_ref_count := te_ref_count e - 1\<rparr>
         in if te_ref_count e \<le> 0 then (clear_flag UPDATING e)\<lparr>te_ref_count := 0\<rparr> else e)"
  have f: "te_page (f e) = te_page e" "test_flag (f e) RECLAIMABLE = test_flag e RECLAIMABLE" by (simp_all add: f_def Let_def)
  have we: "written_entry e = (if test_flag e RECLAIMABLE then f e else set_flag RECLAIMABLE (f e))"
    by (auto simp: written_entry_def f_def Let_def)
  have run: "entry_written a s = bind_ok (update_entry a f s) (\<lambda>s. bind_ok (deref (entries s) a) (\<lambda>e.
       if \<not> test_flag e RECLAIMABLE
       then bind_ok (update_entry a (set_flag RECLAIMABLE) s) (\<lambda>s.
            bind_ok (put_reclaimable_index a s) (\<lambda>(err, s). Inr s))
       else Inr s))" by (simp add: entry_written_def f_def)
  let ?t = "s\<lparr>entries := (entries s)(a \<mapsto> written_entry e)\<rparr>"
  have e: "(\<lambda>b. if b \<in> set [a] then Some (written_entry (the (entries s b))) else entries s b) = (entries s)(a \<mapsto> written_entry e)"
    using assms(2) by auto
  have t: "pool_ok k ?t" "reclaim_contents ?t = reclaim_contents s"
    using pool_ok_touch [OF assms(1,2), of "written_entry e"] by (simp_all add: reclaim_contents_def)
  show ?thesis
  proof (cases "test_flag e RECLAIMABLE")
    case True
    then have "entry_written a s = Inr ?t" using assms(2) f by (simp add: run update_entry_def we)
    moreover have "completed k [a] s ?t"
      unfolding completed_def e using t True assms(2) by (auto intro!: exI [of _ "reclaim_list (pool s)"])
    ultimately show ?thesis by blast
  next
    case False
    have "a \<notin> set (reclaim_contents s)" using assms(1,2) False by (auto simp: pool_ok_def reclaim_ok_def)
    then obtain r where r: "put_reclaimable_index a ?t = Inr (0, ?t\<lparr>pool := (pool ?t)\<lparr>reclaim_list := r\<rparr>\<rparr>)"
        "pool_ok k (?t\<lparr>pool := (pool ?t)\<lparr>reclaim_list := r\<rparr>\<rparr>)"
        "reclaim_contents (?t\<lparr>pool := (pool ?t)\<lparr>reclaim_list := r\<rparr>\<rparr>) = reclaim_contents s @ [a]"
      using put_reclaimable_ok [OF t(1), of a "written_entry e"] assms(3) t(2) by auto
    have "entry_written a s = Inr (?t\<lparr>pool := (pool ?t)\<lparr>reclaim_list := r\<rparr>\<rparr>)"
      using assms(2) f r(1) False by (simp add: run update_entry_def we)
    moreover have "completed k [a] s (?t\<lparr>pool := (pool ?t)\<lparr>reclaim_list := r\<rparr>\<rparr>)"
      unfolding completed_def e using r(2,3) False assms(2) by auto
    ultimately show ?thesis by blast
  qed
qed

lemma completed_snoc:
  assumes "completed k es s t" and "completed k [a] t u" and "a \<notin> set es"
  shows "completed k (es @ [a]) s u"
proof -
  obtain r where t: "t = s\<lparr>entries := (\<lambda>a. if a \<in> set es then Some (written_entry (the (entries s a))) else entries s a),
             pool := (pool s)\<lparr>reclaim_list := r\<rparr>\<rparr>" using assms(1) by (auto simp: completed_def)
  obtain r' where u: "u = t\<lparr>entries := (\<lambda>b. if b \<in> set [a] then Some (written_entry (the (entries t b))) else entries t b),
             pool := (pool t)\<lparr>reclaim_list := r'\<rparr>\<rparr>" using assms(2) unfolding completed_def by blast
  have a: "entries t a = entries s a" using assms(3) by (simp add: t)
  have "u = s\<lparr>entries := (\<lambda>b. if b \<in> set (es @ [a]) then Some (written_entry (the (entries s b))) else entries s b),
             pool := (pool s)\<lparr>reclaim_list := r'\<rparr>\<rparr>"
    unfolding u t using assms(3) by (auto simp: fun_eq_iff)
  moreover have "reclaim_contents u = reclaim_contents t @ filter (\<lambda>a. \<not> test_flag (the (entries t a)) RECLAIMABLE) [a]"
    using assms(2) unfolding completed_def by blast
  moreover have "reclaim_contents t = reclaim_contents s @ filter (\<lambda>a. \<not> test_flag (the (entries s a)) RECLAIMABLE) es"
    using assms(1) unfolding completed_def by blast
  moreover have "pool_ok k u" using assms(2) unfolding completed_def by blast
  ultimately show ?thesis unfolding completed_def using a by auto
qed

lemma entries_written_ok:
  fixes s :: rdma_mem
  assumes "pool_ok k s" and "n \<le> length es" and "distinct (take n es)" and "\<forall>a\<in>set (take n es). entries s a \<noteq> None"
    and "length (reclaim_contents s) + n \<le> 2 ^ k"
  shows "\<exists>s'. foldM (\<lambda>i s. bind_ok (arr_get es i) (\<lambda>a. entry_written a s)) [0..<n] s = Inr s' \<and> completed k (take n es) s s'"
  using assms(2-5)
proof (induction n)
  case 0
  then show ?case using completed_Nil [OF assms(1)] by simp
next
  case (Suc n)
  have tk: "take (Suc n) es = take n es @ [es ! n]" using Suc.prems(1) by (simp add: take_Suc_conv_app_nth)
  have d: "distinct (take n es)" "es ! n \<notin> set (take n es)" using Suc.prems(2) unfolding tk by auto
  have ne: "\<forall>a\<in>set (take n es). entries s a \<noteq> None" "entries s (es ! n) \<noteq> None" using Suc.prems(3) unfolding tk by auto
  obtain t where t: "foldM (\<lambda>i s. bind_ok (arr_get es i) (\<lambda>a. entry_written a s)) [0..<n] s = Inr t" "completed k (take n es) s t"
    using Suc.IH d ne Suc.prems by fastforce
  have pt: "pool_ok k t" "entries t (es ! n) = entries s (es ! n)" "length (reclaim_contents t) \<le> length (reclaim_contents s) + n"
  proof -
    show "pool_ok k t" using t(2) unfolding completed_def by blast
    show "entries t (es ! n) = entries s (es ! n)" using t(2) d(2) unfolding completed_def by auto
    have "reclaim_contents t = reclaim_contents s @ filter (\<lambda>a. \<not> test_flag (the (entries s a)) RECLAIMABLE) (take n es)"
      using t(2) unfolding completed_def by blast
    then show "length (reclaim_contents t) \<le> length (reclaim_contents s) + n"
      using length_filter_le [of "\<lambda>a. \<not> test_flag (the (entries s a)) RECLAIMABLE" "take n es"] by simp
  qed
  obtain e where e: "entries t (es ! n) = Some e" using ne(2) pt(2) by auto
  obtain u where u: "entry_written (es ! n) t = Inr u" "completed k [es ! n] t u"
    using entry_written_ok [OF pt(1) e] pt(3) Suc.prems(4) by fastforce
  have "completed k (take (Suc n) es) s u" unfolding tk by (rule completed_snoc [OF t(2) u(2) d(2)])
  then show ?case using t(1) u(1) Suc.prems(1) by (simp add: foldM_append)
qed

subsection \<open>The bitmap\<close>

definition with_bitmap :: "nat \<Rightarrow> nat \<Rightarrow> bitmap \<Rightarrow> valet_session \<Rightarrow> valet_session" where
  "with_bitmap c i bm S = S\<lparr>cb_list := (cb_list S)[c := (cb_list S ! c)\<lparr>rbh := (node_rbh S c)\<lparr>remote_blocks :=
     (remote_blocks (node_rbh S c))[i := (remote_blocks (node_rbh S c) ! i)\<lparr>bitmap_g := Some bm\<rparr>]\<rparr>\<rparr>]\<rparr>"

lemma with_bitmap_block:
  assumes "c < length (cb_list S)" and "i < length (remote_blocks (node_rbh S c))"
  shows "block_at (with_bitmap c i bm S) c i = (block_at S c i)\<lparr>bitmap_g := Some bm\<rparr>"
    "(d, j) \<noteq> (c, i) \<Longrightarrow> block_at (with_bitmap c i bm S) d j = block_at S d j"
  using assms by (auto simp: with_bitmap_def block_at_def nth_list_update)

lemma with_bitmap_placement [simp]: "placement (with_bitmap c i bm S) = placement S"
  by (rule ext) (simp add: placement_def with_bitmap_def cong: if_cong)

lemma with_bitmap_maps_ok:
  assumes "maps_ok S" and "bitmap_ok bm" and "c < length (cb_list S)" and "i < length (remote_blocks (node_rbh S c))"
  shows "maps_ok (with_bitmap c i bm S)"
proof -
  have "placed_ok (with_bitmap c i bm S) g d j" if "placed_ok S g d j" for g d j
    using that assms(2-4)
    by (cases "(d, j) = (c, i)") (auto simp: placed_ok_def with_bitmap_def block_at_def nth_list_update)
  moreover have "session_ok (with_bitmap c i bm S)"
    using assms(1,3) by (auto simp: maps_ok_def session_ok_def with_bitmap_def tables_ok_def nth_list_update)
  ultimately show ?thesis using assms(1) by (simp add: maps_ok_def) (simp add: with_bitmap_def)
qed

text \<open>The bits of the pages \<open>off\<close> to \<open>off + n\<close> of a block have been set, no other bit has changed.\<close>

definition bits_set :: "bitmap \<Rightarrow> bitmap \<Rightarrow> nat \<Rightarrow> nat \<Rightarrow> bool" where
  "bits_set bm bm' p n \<longleftrightarrow> bitmap_ok bm' \<and> (\<forall>q<PAGES_PER_GB. valet_bitmap_test bm' (int q) =
     (if p \<le> q \<and> q < p + n then Inr True else valet_bitmap_test bm (int q)))"

lemma set_block_bitmap_ok:
  assumes "c < length (cb_list S)" and "i < length (remote_blocks (node_rbh S c))" and "bitmap_g (block_at S c i) = Some bm"
    and "bitmap_ok bm" and "p + n \<le> PAGES_PER_GB"
  shows "\<exists>bm'. set_block_bitmap (c, i) (of_nat (p * VALET_PAGE_SIZE)) (of_nat (n * VALET_PAGE_SIZE)) S = Inr (with_bitmap c i bm' S) \<and>
    bits_set bm bm' p n"
proof -
  have u: "unat (of_nat (p * VALET_PAGE_SIZE) :: u64) = p * VALET_PAGE_SIZE" "unat (of_nat (n * VALET_PAGE_SIZE) :: u64) = n * VALET_PAGE_SIZE"
    using assms(5) by (simp_all add: unat_of_nat_u64 del: of_nat_mult)
  have "p * VALET_PAGE_SIZE + n * VALET_PAGE_SIZE \<le> (ONE_GB::nat)" using assms(5) by simp
  then obtain bm' where bm': "valet_bitmap_group_set bm (of_nat (p * VALET_PAGE_SIZE)) (of_nat (n * VALET_PAGE_SIZE)) = Inr bm'" "bits_set bm bm' p n"
    using group_set_ok [OF assms(4), of "of_nat (p * VALET_PAGE_SIZE)" "of_nat (n * VALET_PAGE_SIZE)"]
    unfolding u bits_set_def by auto
  then show ?thesis using assms(1-3)
    by (intro exI [of _ bm']) (simp add: set_block_bitmap_def with_bitmap_def block_at_def)
qed

subsection \<open>The whole completion\<close>

lemma pool_ok_cong:
  "pool s' = pool s \<Longrightarrow> entries s' = entries s \<Longrightarrow> pages s' = pages s \<Longrightarrow> pool_ok k s' = pool_ok k s"
  by (simp add: pool_ok_def pool_shape_def pages_ok_def reclaim_ok_def free_list_def is_page_def mapped_def reclaim_contents_def)

text \<open>A write in flight: context \<open>x\<close> carries the item \<open>tmp\<close> to page \<open>p\<close> of block \<open>i\<close> of node \<open>c\<close>.\<close>

definition write_in_flight :: "ptr \<Rightarrow> ptr \<Rightarrow> local_page_list \<Rightarrow> nat \<Rightarrow> nat \<Rightarrow> nat \<Rightarrow> rdma_mem \<Rightarrow> bool" where
  "write_in_flight x tmp it c i p s \<longleftrightarrow> x \<noteq> NULL \<and> tmp \<noteq> NULL \<and> items s tmp = Some it \<and> li_ref_count it = 0 \<and>
     p + li_len it \<le> PAGES_PER_GB \<and>
     (\<exists>ctx. ctxs s x = Some ctx \<and> ctx_rb ctx = Some (c, i) \<and> sending_item ctx = tmp \<and> ctx_replica_index ctx = 0 \<and>
       ctx_offset ctx = of_nat (p * VALET_PAGE_SIZE) \<and> ctx_len ctx = of_nat (li_len it * VALET_PAGE_SIZE))"

text \<open>Its entries exist, and the reclaim list has room for them.\<close>

definition batch_ready :: "nat \<Rightarrow> local_page_list \<Rightarrow> rdma_mem \<Rightarrow> bool" where
  "batch_ready k it s \<longleftrightarrow> pool_ok k s \<and> li_len it \<le> length (batch_list it) \<and> distinct (take (li_len it) (batch_list it)) \<and>
     (\<forall>a\<in>set (take (li_len it) (batch_list it)). entries s a \<noteq> None) \<and> length (reclaim_contents s) + li_len it \<le> 2 ^ k"

definition pool_slot_free :: "rdma_freepool \<Rightarrow> bool" where
  "pool_slot_free p \<longleftrightarrow> fp_curr_nr p < fp_cap_nr p \<and> length (fp_elements p) = fp_cap_nr p"

definition given_back :: "ptr \<Rightarrow> rdma_freepool \<Rightarrow> rdma_freepool" where
  "given_back x p = p\<lparr>fp_elements := (fp_elements p)[fp_curr_nr p := x], fp_curr_nr := fp_curr_nr p + 1\<rparr>"

lemma put_rdma_freepool_ok: "pool_slot_free p \<Longrightarrow> put_rdma_freepool x p = Inr (given_back x p)"
  by (simp add: put_rdma_freepool_def pool_slot_free_def given_back_def)

definition write_recorded :: "nat \<Rightarrow> ptr \<Rightarrow> ptr \<Rightarrow> local_page_list \<Rightarrow> nat \<Rightarrow> nat \<Rightarrow> nat \<Rightarrow> rdma_mem \<Rightarrow> rdma_mem \<Rightarrow> bool" where
  "write_recorded k x tmp it c i p s s' \<longleftrightarrow> pool_ok k s' \<and>
     entries s' = (\<lambda>a. if a \<in> set (take (li_len it) (batch_list it)) then Some (written_entry (the (entries s a))) else entries s a) \<and>
     reclaim_contents s' = reclaim_contents s @
       filter (\<lambda>a. \<not> test_flag (the (entries s a)) RECLAIMABLE) (take (li_len it) (batch_list it)) \<and>
     items s' = (items s)(tmp := None) \<and> pages s' = pages s \<and> gpt_pages s' = gpt_pages s \<and> posted s' = posted s \<and>
     gpt_init_done s' = gpt_init_done s \<and>
     ctxs s' = (ctxs s)(x \<mapsto> (the (ctxs s x))\<lparr>sending_item := NULL, ctx_rb_index := - 1, ctx_rb := None, in_flight := CTX_IDLE\<rparr>) \<and>
     (\<exists>bm bm'. bitmap_g (block_at (sess s) c i) = Some bm \<and> bits_set bm bm' p (li_len it) \<and>
        sess s' = (with_bitmap c i bm' (sess s))\<lparr>rdma_write_freepool := given_back x (rdma_write_freepool (sess s))\<rparr>)"

lemma write_done_ok:
  assumes "maps_ok (sess s)" and "placement (sess s) g = Some (c, i)" and "write_in_flight x tmp it c i p s"
    and "batch_ready k it s" and "pool_slot_free (rdma_write_freepool (sess s))"
  shows "\<exists>s'. write_done_postwork x s = Inr (0, s') \<and> write_recorded k x tmp it c i p s s'"
proof -
  let ?es = "take (li_len it) (batch_list it)"
  obtain ctx where w: "x \<noteq> NULL" "tmp \<noteq> NULL" "items s tmp = Some it" "li_ref_count it = 0" "p + li_len it \<le> PAGES_PER_GB"
      "ctxs s x = Some ctx" "ctx_rb ctx = Some (c, i)" "sending_item ctx = tmp" "ctx_replica_index ctx = 0"
      "ctx_offset ctx = of_nat (p * VALET_PAGE_SIZE)" "ctx_len ctx = of_nat (li_len it * VALET_PAGE_SIZE)"
    using assms(3) unfolding write_in_flight_def by blast
  note l = placed_lookup [OF assms(1,2)]
  obtain bm where bm: "bitmap_g (block_at (sess s) c i) = Some bm" "bitmap_ok bm"
    using maps_ok_placed [OF assms(1,2)] by (auto simp: placed_ok_def)
  obtain bm' where bm': "set_block_bitmap (c, i) (ctx_offset ctx) (ctx_len ctx) (sess s) = Inr (with_bitmap c i bm' (sess s))"
      "bits_set bm bm' p (li_len it)"
    unfolding w(10,11) using set_block_bitmap_ok [OF l(5,4) bm w(5)] by blast
  define t where "t = s\<lparr>items := (items s)(tmp \<mapsto> it\<lparr>li_ref_count := 1\<rparr>), sess := with_bitmap c i bm' (sess s)\<rparr>"
  have tf: "pool t = pool s" "entries t = entries s" "pages t = pages s" "gpt_pages t = gpt_pages s" "gpt_init_done t = gpt_init_done s"
    "ctxs t = ctxs s" "posted t = posted s" "items t = (items s)(tmp \<mapsto> it\<lparr>li_ref_count := 1\<rparr>)" "sess t = with_bitmap c i bm' (sess s)"
    by (simp_all add: t_def)
  have rc: "reclaim_contents t = reclaim_contents s" by (simp add: reclaim_contents_def tf)
  have b: "pool_ok k s" "li_len it \<le> length (batch_list it)" "distinct ?es" "\<forall>a\<in>set ?es. entries s a \<noteq> None"
      "length (reclaim_contents s) + li_len it \<le> 2 ^ k" using assms(4) unfolding batch_ready_def by blast+
  have pt: "pool_ok k t" using b(1) pool_ok_cong [of t s k] tf by simp
  obtain u where u: "foldM (\<lambda>i s. bind_ok (arr_get (batch_list it) i) (\<lambda>a. entry_written a s)) [0..<li_len it] t = Inr u" "completed k ?es t u"
    using entries_written_ok [OF pt b(2,3)] b(4,5) rc tf(2) by auto
  obtain r where ur: "u = t\<lparr>entries := (\<lambda>a. if a \<in> set ?es then Some (written_entry (the (entries t a))) else entries t a),
             pool := (pool t)\<lparr>reclaim_list := r\<rparr>\<rparr>" using u(2) unfolding completed_def by blast
  have uf: "entries u = (\<lambda>a. if a \<in> set ?es then Some (written_entry (the (entries s a))) else entries s a)"
    "pages u = pages s" "gpt_pages u = gpt_pages s" "gpt_init_done u = gpt_init_done s" "ctxs u = ctxs s" "posted u = posted s"
    "items u = (items s)(tmp \<mapsto> it\<lparr>li_ref_count := 1\<rparr>)" "sess u = with_bitmap c i bm' (sess s)"
    unfolding ur by (simp_all add: tf cong: if_cong)
  let ?c = "ctx\<lparr>sending_item := NULL, ctx_rb_index := - 1, ctx_rb := None, in_flight := CTX_IDLE\<rparr>"
  let ?S = "(with_bitmap c i bm' (sess s))\<lparr>rdma_write_freepool := given_back x (rdma_write_freepool (sess s))\<rparr>"
  let ?s' = "u\<lparr>items := (items s)(tmp := None), ctxs := (ctxs s)(x \<mapsto> ?c), sess := ?S\<rparr>"
  have fp: "rdma_write_freepool (with_bitmap c i bm' (sess s)) = rdma_write_freepool (sess s)" by (simp add: with_bitmap_def)
  have "write_done_postwork x s = Inr (0, ?s')"
    using w bm'(1) u(1) put_rdma_freepool_ok [OF assms(5), of x]
    by (simp add: write_done_postwork_def Let_def t_def [symmetric] put_free_item_def update_ctx_def give_write_ctx_def uf fp)
  moreover have "pool_ok k ?s'"
    using u(2) pool_ok_cong [of ?s' u k] unfolding completed_def by simp
  moreover have "reclaim_contents u = reclaim_contents s @ filter (\<lambda>a. \<not> test_flag (the (entries s a)) RECLAIMABLE) ?es"
    using u(2) unfolding completed_def rc tf by blast
  then have "reclaim_contents ?s' = reclaim_contents s @ filter (\<lambda>a. \<not> test_flag (the (entries s a)) RECLAIMABLE) ?es"
    by (simp add: reclaim_contents_def)
  ultimately show ?thesis
    unfolding write_recorded_def using bm(1) bm'(2) w(6) by (intro exI [of _ ?s']) (auto simp: uf)
qed

subsection \<open>Reading a recorded page\<close>

definition read_ctx_ready :: "ptr \<Rightarrow> rdma_ctx \<Rightarrow> rdma_mem \<Rightarrow> bool" where
  "read_ctx_ready y ctx s \<longleftrightarrow> (let p = rdma_read_freepool (sess s) in
     0 < fp_curr_nr p \<and> fp_curr_nr p \<le> length (fp_elements p) \<and>
     fp_elements p ! (fp_curr_nr p - 1) = y \<and> y \<noteq> NULL \<and> ctxs s y = Some ctx)"

text \<open>The state after a read of offset \<open>off\<close> of block \<open>i\<close> of node \<open>c\<close> has been posted.\<close>

definition read_posted :: "nat \<Rightarrow> nat \<Rightarrow> nat \<Rightarrow> ptr \<Rightarrow> ptr \<Rightarrow> rdma_ctx \<Rightarrow> rdma_mem \<Rightarrow> rdma_mem" where
  "read_posted c i off req y ctx s = s\<lparr>
     sess := (sess s)\<lparr>rdma_read_freepool := (rdma_read_freepool (sess s))\<lparr>fp_curr_nr := fp_curr_nr (rdma_read_freepool (sess s)) - 1\<rparr>\<rparr>,
     ctxs := (ctxs s)(y \<mapsto> ctx\<lparr>ctx_rb_index := int i, ctx_cb := c, ctx_req := req, in_flight := CTX_R_IN_FLIGHT\<rparr>),
     posted := posted s @ [WR_Read c (remote_rkey (block_at (sess s) c i)) (block_addr (sess s) c i off) y]\<rparr>"

lemma sector_page:
  fixes x :: nat
  shows "8 * x * 512 div ONE_GB = gb_of x" "8 * x * 512 mod ONE_GB = offset_of x"
proof -
  have "8 * x * 512 = x * (4096::nat)" by simp
  then show "8 * x * 512 div ONE_GB = gb_of x" "8 * x * 512 mod ONE_GB = offset_of x"
    by (simp_all only: page_gb page_offset)
qed

lemma request_read_page:
  "request_read env (8 * x) req s =
     (if \<not> isRDMAon (sess s) then Inr (1, s) else read_replicas env [0] (gb_of x) (offset_of x) req s)"
proof -
  have "[0..<NUM_REPLICA] = [0]" by simp
  then show ?thesis by (simp only: request_read_def Let_def sector_page)
qed

lemma request_read_ok:
  assumes "maps_ok (sess s)" and "isRDMAon (sess s)" and "placement (sess s) (gb_of x) = Some (c, i)"
    and "rb_state (block_at (sess s) c i) \<noteq> READONLY" and "rb_state (block_at (sess s) c i) \<noteq> NONE_ALLOWED"
    and "bitmap_g (block_at (sess s) c i) = Some bm" and "valet_bitmap_test bm (int (x mod PAGES_PER_GB)) = Inr True"
    and "read_ctx_ready y ctx s" and "io_post env = 0"
  shows "request_read env (8 * x) req s = Inr (0, read_posted c i (offset_of x) req y ctx s)"
proof -
  note l = placed_lookup [OF assms(1,3)]
  let ?p = "rdma_read_freepool (sess s)"
  have w: "0 < fp_curr_nr ?p" "fp_curr_nr ?p \<le> length (fp_elements ?p)" "fp_elements ?p ! (fp_curr_nr ?p - 1) = y"
    "y \<noteq> NULL" "ctxs s y = Some ctx" using assms(8) by (simp_all add: read_ctx_ready_def Let_def)
  have t: "take_read_ctx s = Inr (y, s\<lparr>sess := (sess s)\<lparr>rdma_read_freepool := ?p\<lparr>fp_curr_nr := fp_curr_nr ?p - 1\<rparr>\<rparr>\<rparr>)"
    using w by (simp add: take_read_ctx_def get_rdma_freepool_def)
  have d: "offset_of x div VALET_PAGE_SIZE = x mod PAGES_PER_GB" by simp
  show ?thesis
    using l assms(2,4-7,9) w(5)
    by (simp add: request_read_page d block_at_def rdma_read_def t update_ctx_def read_posted_def block_addr_def)
qed

lemma request_read_not_recorded:
  assumes "maps_ok (sess s)" and "gb_of x < SWAPSPACE_SIZE_G"
    and "case placement (sess s) (gb_of x) of None \<Rightarrow> True
      | Some (c, i) \<Rightarrow> rb_state (block_at (sess s) c i) = READONLY \<or> rb_state (block_at (sess s) c i) = NONE_ALLOWED \<or>
          (\<exists>bm. bitmap_g (block_at (sess s) c i) = Some bm \<and> valet_bitmap_test bm (int (x mod PAGES_PER_GB)) = Inr False)"
  shows "request_read env (8 * x) req s = Inr (1, s)"
proof (cases "placement (sess s) (gb_of x)")
  case None
  then have "cb_index_map (sess s) ! 0 ! gb_of x = NO_CB_MAPPED" using assms(2) by (simp add: placement_def split: if_splits)
  then have "tab_get (cb_index_map (sess s)) 0 (int (gb_of x)) = Inr NO_CB_MAPPED"
    using assms(1) tab_get_0 [OF _ assms(2)] by (simp add: maps_ok_def)
  then show ?thesis by (simp add: request_read_page)
next
  case (Some b)
  obtain c i where b: "b = (c, i)" by (cases b)
  note l = placed_lookup [OF assms(1) Some [unfolded b]]
  have d: "offset_of x div VALET_PAGE_SIZE = x mod PAGES_PER_GB" by simp
  show ?thesis using l assms(3) Some b
    by (auto simp: request_read_page d block_at_def)
qed

end
