(* ===== verification/Sender.thy ===== *)
theory Sender
  imports Completion
begin

text \<open>
  The sender of the data path (\<open>remote_sender_fn\<close> of rdmabox.c): it takes the items off
  the sending list, merges adjacent ones and hands each to \<open>request_write\<close>. When
  every block is active it empties the list and posts every page; when a block is read-only
  its items go back to the list and the loop goes on.
\<close>

subsection \<open>What one remote write changes\<close>

text \<open>
  \<open>A\<close> are the items it may touch; at most two contexts are taken off the pool of contexts.
\<close>

definition sent :: "ptr set \<Rightarrow> rdma_mem \<Rightarrow> rdma_mem \<Rightarrow> bool" where
  "sent A s s' \<longleftrightarrow> pool s' = pool s \<and> entries s' = entries s \<and> pages s' = pages s \<and> gpt_pages s' = gpt_pages s \<and>
     (\<forall>a. a \<notin> A \<longrightarrow> items s' a = items s a) \<and> set (posted s) \<subseteq> set (posted s') \<and>
     (\<exists>n. n \<le> fp_curr_nr (rdma_write_freepool (sess s)) \<and> fp_curr_nr (rdma_write_freepool (sess s)) \<le> n + 2 \<and>
       sess s' = (sess s)\<lparr>rdma_write_freepool := (rdma_write_freepool (sess s))\<lparr>fp_curr_nr := n\<rparr>\<rparr> \<and>
       (\<forall>x. x \<notin> set (drop n (take (fp_curr_nr (rdma_write_freepool (sess s))) (fp_elements (rdma_write_freepool (sess s))))) \<longrightarrow>
          ctxs s' x = ctxs s x))"

lemma slot_above:
  assumes "m \<le> k" and "k < n" and "n \<le> length xs"
  shows "xs ! k \<in> set (drop m (take n xs))"
proof -
  have "drop m (take n xs) ! (k - m) = xs ! k" using assms by simp
  moreover have "k - m < length (drop m (take n xs))" using assms by simp
  ultimately show ?thesis by (metis nth_mem)
qed

lemma sent_one:
  assumes "write_ctx_ready x ctx s"
  shows "sent {tmp} s (write_posted env c i off tmp it ds x ctx' s)"
proof -
  let ?p = "rdma_write_freepool (sess s)"
  have p: "0 < fp_curr_nr ?p" "fp_curr_nr ?p \<le> length (fp_elements ?p)" "fp_elements ?p ! (fp_curr_nr ?p - 1) = x"
    using assms by (simp_all add: write_ctx_ready_def Let_def)
  have "x \<in> set (drop (fp_curr_nr ?p - 1) (take (fp_curr_nr ?p) (fp_elements ?p)))" using slot_above [of _ _ "fp_curr_nr ?p" "fp_elements ?p"] p by fastforce
  then show ?thesis unfolding sent_def
    by (intro conjI exI [of _ "fp_curr_nr ?p - 1"]) (auto simp: write_posted_def)
qed

lemma sent_two:
  assumes "write_ctx_ready x ctx s" and "second_ctx_ready x y ctx2 s" and "items t = m" and "t = s\<lparr>items := m\<rparr>"
    and "\<forall>a. a \<noteq> tmp \<longrightarrow> a \<noteq> sec \<longrightarrow> m a = items s a"
  shows "sent {tmp, sec} s (write_posted env c i off tmp it ds y ctx3 (write_posted env2 c' i' off' sec it2 ds' x ctx4 t))"
proof -
  let ?p = "rdma_write_freepool (sess s)"
  have p: "1 < fp_curr_nr ?p" "fp_curr_nr ?p \<le> length (fp_elements ?p)" "fp_elements ?p ! (fp_curr_nr ?p - 1) = x"
    "fp_elements ?p ! (fp_curr_nr ?p - 2) = y"
    using assms(1,2) by (simp_all add: write_ctx_ready_def second_ctx_ready_def Let_def)
  have "x \<in> set (drop (fp_curr_nr ?p - 2) (take (fp_curr_nr ?p) (fp_elements ?p)))"
    "y \<in> set (drop (fp_curr_nr ?p - 2) (take (fp_curr_nr ?p) (fp_elements ?p)))" using slot_above [of _ _ "fp_curr_nr ?p" "fp_elements ?p"] p by fastforce+
  then show ?thesis unfolding sent_def assms(4) using assms(5)
    by (intro conjI exI [of _ "fp_curr_nr ?p - 2"]) (auto simp: write_posted_def numeral_2_eq_2)
qed

lemma sent_mono: "sent A s s' \<Longrightarrow> A \<subseteq> B \<Longrightarrow> sent B s s'"
  unfolding sent_def by blast

lemma request_write_sent:
  assumes "maps_ok (sess s)" and "items s tmp = Some it" and "item_pages it s ds" and "0 < li_len it"
    and "\<forall>j<li_len it. \<exists>c i. writable (sess s) (li_start_index it + j) c i"
    and "write_ctx_ready x ctx s" and "second_ctx_ready x y ctx' s" and "io_post env = 0" and "io_post env2 = 0"
    and "sec \<noteq> NULL" and "sec \<noteq> tmp" and "length (batch_list it2) = RDMA_WR_BUF_LEN"
  shows "\<exists>s' ws. request_write env env2 (sec, it2) tmp s = Inr (0, s') \<and> sent {tmp, sec} s s' \<and> posted s' = posted s @ ws \<and>
    (\<forall>j c i. j < li_len it \<longrightarrow> writable (sess s) (li_start_index it + j) c i \<longrightarrow>
      page_posted ws c (remote_rkey (block_at (sess s) c i)) (block_addr (sess s) c i (offset_of (li_start_index it + j))) (ds ! j))"
proof (cases "gb_of (li_start_index it + li_len it - 1) = gb_of (li_start_index it)")
  case True
  obtain c i where w: "writable (sess s) (li_start_index it) c i" using assms(4,5) by fastforce
  note run = request_write_one [OF assms(1-4) True w assms(6,8), of env2 "(sec, it2)"]
  define key where "key = remote_rkey (block_at (sess s) c i)"
  define ws where "ws = [WR_Write c key (block_addr (sess s) c i (offset_of (li_start_index it))) (concat ds) x,
       WR_Header c key (remote_addr (block_at (sess s) c i)) (io_now env)]"
  have "page_posted ws c' (remote_rkey (block_at (sess s) c' i')) (block_addr (sess s) c' i' (offset_of (li_start_index it + j))) (ds ! j)"
    if j: "j < li_len it" and w': "writable (sess s) (li_start_index it + j) c' i'" for j c' i'
  proof -
    have g: "gb_of (li_start_index it + j) = gb_of (li_start_index it)"
      by (rule same_gb_between [OF True j])
    then have "c' = c" "i' = i" using w w' unfolding writable_def by simp_all
    then show ?thesis using item_pages_posted [OF assms(3) j offset_in_block [OF g], of c key "sess s" i x ws]
      by (simp add: ws_def key_def)
  qed
  moreover have "sent {tmp, sec} s (write_posted env c i (offset_of (li_start_index it)) tmp it ds x ctx s)"
    using sent_one [OF assms(6)] by (rule sent_mono) simp
  ultimately show ?thesis using run by (intro exI [of _ "write_posted env c i (offset_of (li_start_index it)) tmp it ds x ctx s"] exI [of _ ws])
      (simp add: write_posted_def ws_def key_def)
next
  case False
  define b where "b = PAGES_PER_GB - li_start_index it mod PAGES_PER_GB"
  have b: "b < li_len it" using border_of(1) [of "li_start_index it" "li_len it"] False assms(4) by (simp add: b_def)
  obtain c i where w: "writable (sess s) (li_start_index it) c i" using assms(4,5) by fastforce
  obtain d k where v: "writable (sess s) (li_start_index it + b) d k" using assms(5) b by blast
  note run = request_write_two [OF assms(1-4) False b_def w v assms(6-12)]
  let ?it2 = "second_half it b it2"
  define ws where "ws = [WR_Write d (remote_rkey (block_at (sess s) d k)) (block_addr (sess s) d k (offset_of (li_start_index it + b))) (concat (drop b ds)) x,
       WR_Header d (remote_rkey (block_at (sess s) d k)) (remote_addr (block_at (sess s) d k)) (io_now env2),
       WR_Write c (remote_rkey (block_at (sess s) c i)) (block_addr (sess s) c i (offset_of (li_start_index it))) (concat (take b ds)) y,
       WR_Header c (remote_rkey (block_at (sess s) c i)) (remote_addr (block_at (sess s) c i)) (io_now env)]"
  have "page_posted ws c' (remote_rkey (block_at (sess s) c' i')) (block_addr (sess s) c' i' (offset_of (li_start_index it + j))) (ds ! j)"
    if j: "j < li_len it" and w': "writable (sess s) (li_start_index it + j) c' i'" for j c' i'
  proof (cases "j < b")
    case True
    have g: "gb_of (li_start_index it + j) = gb_of (li_start_index it)" using True same_gb unfolding b_def by blast
    then have "c' = c" "i' = i" using w w' unfolding writable_def by simp_all
    moreover have "take b ds ! j = ds ! j" using True by simp
    ultimately show ?thesis
      using item_pages_posted [OF item_pages_first [OF assms(3) less_imp_le [OF b]] _ offset_in_block [OF g], of c _ "sess s" i y ws] True
      by (simp add: ws_def)
  next
    case n: False
    define l where "l = j - b"
    have l: "li_start_index it + j = (li_start_index it + b) + l" "l < li_len ?it2" "drop b ds ! l = ds ! j"
      using n j assms(3) b by (simp_all add: l_def second_half_def item_pages_def)
    have "li_len it \<le> RDMA_WR_BUF_LEN" using assms(3) by (simp add: item_pages_def)
    moreover have "l < li_len it" using l(2) by (simp add: second_half_def)
    ultimately have "l < PAGES_PER_GB" by linarith
    moreover have "(li_start_index it + b) mod PAGES_PER_GB = 0" unfolding b_def by (rule next_block(2)) simp
    ultimately have g: "gb_of (li_start_index it + b + l) = gb_of (li_start_index it + b)"
      using same_block [of PAGES_PER_GB "li_start_index it + b" l] by simp
    then have "c' = d" "i' = k" using v w' unfolding writable_def l(1) by simp_all
    then show ?thesis unfolding l(1)
      using item_pages_posted [OF item_pages_second [OF assms(3) less_imp_le [OF b] assms(12)] l(2) offset_in_block [OF g],
          of d _ "sess s" k x ws]
      by (simp add: ws_def l(3))
  qed
  moreover have "sent {tmp, sec} s (write_posted env c i (offset_of (li_start_index it)) tmp (it\<lparr>li_len := b\<rparr>) (take b ds) y ctx'
     (write_posted env2 d k (offset_of (li_start_index it + b)) sec ?it2 (drop b ds) x ctx
       (s\<lparr>items := (items s)(sec \<mapsto> ?it2, tmp \<mapsto> it\<lparr>li_len := b\<rparr>)\<rparr>)))"
    by (rule sent_two [OF assms(6,7) _ refl]) simp_all
  ultimately show ?thesis using run by (intro exI [of _ "write_posted env c i (offset_of (li_start_index it)) tmp (it\<lparr>li_len := b\<rparr>) (take b ds) y ctx'
     (write_posted env2 d k (offset_of (li_start_index it + b)) sec ?it2 (drop b ds) x ctx
       (s\<lparr>items := (items s)(sec \<mapsto> ?it2, tmp \<mapsto> it\<lparr>li_len := b\<rparr>)\<rparr>))"] exI [of _ ws])
      (simp add: write_posted_def ws_def)
qed

subsection \<open>The sending list\<close>

definition sending_contents :: "'a valet_mem_scheme \<Rightarrow> ptr list" where
  "sending_contents s = (case sending_list (pool s) of None \<Rightarrow> [] | Some q \<Rightarrow> alf_contents q)"

definition sending_ok :: "nat \<Rightarrow> 'a valet_mem_scheme \<Rightarrow> bool" where
  "sending_ok k s \<longleftrightarrow> init_done (pool s) \<noteq> 0 \<and> (\<exists>q. sending_list (pool s) = Some q \<and> alf_win k q)"

abbreviation with_sending :: "alf_queue \<Rightarrow> rdma_mem \<Rightarrow> rdma_mem" where
  "with_sending q s \<equiv> s\<lparr>pool := (pool s)\<lparr>sending_list := Some q\<rparr>\<rparr>"

lemma get_sending_none:
  fixes s :: rdma_mem
  assumes "sending_ok k s" and "sending_contents s = []"
  shows "\<exists>q. get_sending_index s = Inr (None, with_sending q s) \<and> sending_ok k (with_sending q s) \<and> sending_contents (with_sending q s) = []"
  using assms win.get_empty
  by (auto simp: sending_ok_def sending_contents_def get_sending_index_def)

lemma get_sending_oldest:
  fixes s :: rdma_mem
  assumes "sending_ok k s" and "sending_contents s = a # as"
  shows "\<exists>q. get_sending_index s = Inr (Some a, with_sending q s) \<and> sending_ok k (with_sending q s) \<and> sending_contents (with_sending q s) = as"
proof -
  obtain q where q: "sending_list (pool s) = Some q" "alf_win k q" "init_done (pool s) \<noteq> 0" using assms(1) by (auto simp: sending_ok_def)
  then have "alf_contents q = a # as" using assms(2) by (simp add: sending_contents_def)
  from win.get_oldest [OF q(2) this] show ?thesis using q
    by (auto simp: sending_ok_def sending_contents_def get_sending_index_def)
qed

lemma put_sending_back:
  fixes s :: rdma_mem
  assumes "sending_ok k s" and "length (sending_contents s) < 2 ^ k"
  shows "\<exists>q. put_sending_index a s = Inr (0, with_sending q s) \<and> sending_ok k (with_sending q s) \<and>
    sending_contents (with_sending q s) = sending_contents s @ [a]"
proof -
  obtain q where q: "sending_list (pool s) = Some q" "alf_win k q" "init_done (pool s) \<noteq> 0" using assms(1) by (auto simp: sending_ok_def)
  then have "length (alf_contents q) < 2 ^ k" using assms(2) by (simp add: sending_contents_def)
  from win.put_room [OF q(2) this, of a] show ?thesis using q
    by (auto simp: sending_ok_def sending_contents_def put_sending_index_def)
qed

subsection \<open>Items that can be sent\<close>

definition sendable :: "rdma_mem \<Rightarrow> ptr \<Rightarrow> bool" where
  "sendable s a \<longleftrightarrow> (\<exists>it ds. items s a = Some it \<and> item_pages it s ds \<and> 0 < li_len it \<and>
     length (batch_list it) = RDMA_WR_BUF_LEN \<and> (\<forall>j<li_len it. \<exists>c i. writable (sess s) (li_start_index it + j) c i))"

text \<open>Item \<open>a\<close> carries the page with index \<open>p\<close>, whose bytes are \<open>d\<close>.\<close>

definition carries :: "rdma_mem \<Rightarrow> ptr \<Rightarrow> nat \<Rightarrow> page \<Rightarrow> bool" where
  "carries s a p d \<longleftrightarrow> (\<exists>it j e. items s a = Some it \<and> j < li_len it \<and> p = li_start_index it + j \<and>
     entries s (batch_list it ! j) = Some e \<and> pages s (te_page e) = Some d)"

text \<open>Every page of the items \<open>A\<close> of \<open>s\<close> has been posted to its own address.\<close>

definition delivered :: "rdma_mem \<Rightarrow> ptr set \<Rightarrow> rdma_mem \<Rightarrow> bool" where
  "delivered s A s' \<longleftrightarrow> (\<forall>a\<in>A. \<forall>p d c i. carries s a p d \<longrightarrow> writable (sess s) p c i \<longrightarrow>
     page_posted (posted s') c (remote_rkey (block_at (sess s) c i)) (block_addr (sess s) c i (offset_of p)) d)"

definition ctx_pool :: "nat \<Rightarrow> rdma_mem \<Rightarrow> bool" where
  "ctx_pool n s \<longleftrightarrow> (let p = rdma_write_freepool (sess s) in n \<le> fp_curr_nr p \<and> fp_curr_nr p \<le> fp_cap_nr p \<and>
     length (fp_elements p) = fp_cap_nr p \<and> distinct (take (fp_curr_nr p) (fp_elements p)) \<and>
     (\<forall>x\<in>set (take (fp_curr_nr p) (fp_elements p)). x \<noteq> NULL \<and>
        (\<exists>ctx. ctxs s x = Some ctx \<and> length (rdma_buf ctx) = VALET_PAGE_SIZE * RDMA_WR_BUF_LEN)))"

lemma ctx_pool_top:
  assumes "ctx_pool n s" and "2 \<le> n"
  obtains x ctx y ctx2 where "write_ctx_ready x ctx s" "second_ctx_ready x y ctx2 s"
proof -
  let ?p = "rdma_write_freepool (sess s)" and ?n = "fp_curr_nr (rdma_write_freepool (sess s))"
  let ?xs = "take ?n (fp_elements ?p)"
  have p: "2 \<le> ?n" "?n \<le> fp_cap_nr ?p" "length (fp_elements ?p) = fp_cap_nr ?p" "distinct ?xs"
    "\<forall>x\<in>set ?xs. x \<noteq> NULL \<and> (\<exists>ctx. ctxs s x = Some ctx \<and> length (rdma_buf ctx) = VALET_PAGE_SIZE * RDMA_WR_BUF_LEN)"
    using assms unfolding ctx_pool_def Let_def by auto
  have l: "length ?xs = ?n" using p(2,3) by simp
  have xs: "?xs ! (?n - 1) = fp_elements ?p ! (?n - 1)" "?xs ! (?n - 2) = fp_elements ?p ! (?n - 2)" using p(1) by simp_all
  have m: "?xs ! (?n - 1) \<in> set ?xs" "?xs ! (?n - 2) \<in> set ?xs" 
    using l p(1) nth_mem [of "?n - 1" ?xs] nth_mem [of "?n - 2" ?xs] by simp_all
  have d: "?xs ! (?n - 1) \<noteq> ?xs ! (?n - 2)" using nth_eq_iff_index_eq [OF p(4), of "?n - 1" "?n - 2"] l p(1) by linarith
  obtain ctx where "ctxs s (?xs ! (?n - 1)) = Some ctx" "length (rdma_buf ctx) = VALET_PAGE_SIZE * RDMA_WR_BUF_LEN" using p(5) m(1) by blast
  then have a: "write_ctx_ready (?xs ! (?n - 1)) ctx s"
    using p m(1) unfolding write_ctx_ready_def Let_def xs(1) [symmetric] by auto
  obtain ctx2 where "ctxs s (?xs ! (?n - 2)) = Some ctx2" "length (rdma_buf ctx2) = VALET_PAGE_SIZE * RDMA_WR_BUF_LEN" using p(5) m(2) by blast
  then have "second_ctx_ready (?xs ! (?n - 1)) (?xs ! (?n - 2)) ctx2 s"
    using p(1,5) m(2) d unfolding second_ctx_ready_def Let_def xs(2) [symmetric] by auto
  then show thesis using a that by blast
qed

lemma ctx_pool_sent:
  assumes "ctx_pool (n + 2) s" and "sent A s s'"
  shows "ctx_pool n s'"
proof -
  let ?p = "rdma_write_freepool (sess s)"
  let ?xs = "take (fp_curr_nr ?p) (fp_elements ?p)"
  obtain m where m: "m \<le> fp_curr_nr ?p" "fp_curr_nr ?p \<le> m + 2" "sess s' = (sess s)\<lparr>rdma_write_freepool := ?p\<lparr>fp_curr_nr := m\<rparr>\<rparr>"
      "\<forall>x. x \<notin> set (drop m ?xs) \<longrightarrow> ctxs s' x = ctxs s x"
    using assms(2) unfolding sent_def by blast
  have p: "n + 2 \<le> fp_curr_nr ?p" "fp_curr_nr ?p \<le> fp_cap_nr ?p" "length (fp_elements ?p) = fp_cap_nr ?p" "distinct ?xs"
    "\<forall>x\<in>set ?xs. x \<noteq> NULL \<and> (\<exists>ctx. ctxs s x = Some ctx \<and> length (rdma_buf ctx) = VALET_PAGE_SIZE * RDMA_WR_BUF_LEN)"
    using assms(1) unfolding ctx_pool_def Let_def by auto
  have t: "take m (fp_elements ?p) = take m ?xs" using m(1) by (simp add: min_absorb1)
  have "set (take m ?xs) \<inter> set (drop m ?xs) = {}" using p(4) by (rule set_take_disj_set_drop_if_distinct) simp
  then have same: "ctxs s' x = ctxs s x" if "x \<in> set (take m ?xs)" for x using m(4) that by blast
  have "x \<noteq> NULL \<and> (\<exists>ctx. ctxs s' x = Some ctx \<and> length (rdma_buf ctx) = VALET_PAGE_SIZE * RDMA_WR_BUF_LEN)"
    if "x \<in> set (take m ?xs)" for x
    unfolding same [OF that] using p(5) in_set_takeD [OF that] by blast
  moreover have "distinct (take m ?xs)" using p(4) by (rule distinct_take)
  moreover have "fp_curr_nr (rdma_write_freepool (sess s')) = m" "fp_elements (rdma_write_freepool (sess s')) = fp_elements ?p"
    "fp_cap_nr (rdma_write_freepool (sess s')) = fp_cap_nr ?p" unfolding m(3) by simp_all
  moreover have "n \<le> m" "m \<le> fp_cap_nr ?p" using p(1,2) m(1,2) by linarith+
  ultimately show ?thesis unfolding ctx_pool_def Let_def t using p(3) t by metis
qed

text \<open>What is left of the list is not touched by a write.\<close>

lemma sent_tables:
  assumes "sent A s s'"
  shows "maps_ok (sess s') = maps_ok (sess s)" "writable (sess s') = writable (sess s)"
    "block_at (sess s') = block_at (sess s)" "block_addr (sess s') = block_addr (sess s)"
proof -
  obtain p where p: "sess s' = (sess s)\<lparr>rdma_write_freepool := p\<rparr>" using assms unfolding sent_def by blast
  show "maps_ok (sess s') = maps_ok (sess s)" "writable (sess s') = writable (sess s)"
    "block_at (sess s') = block_at (sess s)" "block_addr (sess s') = block_addr (sess s)"
    by (simp_all add: p fun_eq_iff writable_def)
qed

lemma sent_item:
  assumes "sent A s s'" and "a \<notin> A"
  shows "sendable s' a = sendable s a" "carries s' a = carries s a"
proof -
  have "items s' a = items s a" "entries s' = entries s" "pages s' = pages s" using assms unfolding sent_def by blast+
  then show "sendable s' a = sendable s a" "carries s' a = carries s a"
    by (simp_all add: sendable_def carries_def fun_eq_iff item_pages_def sent_tables [OF assms(1)])
qed

lemma sent_sending: "sent A s s' \<Longrightarrow> sending_ok k s' = sending_ok k s \<and> sending_contents s' = sending_contents s"
  by (simp add: sent_def sending_ok_def sending_contents_def)

definition turn_ok :: "io_env \<times> io_env \<Rightarrow> ptr \<times> local_page_list \<Rightarrow> ptr set \<Rightarrow> bool" where
  "turn_ok env grant A \<longleftrightarrow> io_post (fst env) = 0 \<and> io_post (snd env) = 0 \<and> fst grant \<noteq> NULL \<and> fst grant \<notin> A \<and>
     length (batch_list (snd grant)) = RDMA_WR_BUF_LEN"

lemma send_item_ok:
  assumes "maps_ok (sess s)" and "ctx_pool (n + 2) s" and "sendable s f" and "turn_ok env grant (insert f A)"
  shows "\<exists>s'. send_item env grant f s = Inr s' \<and> sent {f, fst grant} s s' \<and> delivered s {f} s'"
proof -
  obtain it ds where it: "items s f = Some it" "item_pages it s ds" "0 < li_len it"
      "\<forall>j<li_len it. \<exists>c i. writable (sess s) (li_start_index it + j) c i" using assms(3) unfolding sendable_def by blast
  obtain x ctx y ctx2 where c: "write_ctx_ready x ctx s" "second_ctx_ready x y ctx2 s" using ctx_pool_top [OF assms(2) le_add2] by blast
  obtain sec it2 where g: "grant = (sec, it2)" by (cases grant)
  have t: "io_post (fst env) = 0" "io_post (snd env) = 0" "sec \<noteq> NULL" "sec \<noteq> f" "length (batch_list it2) = RDMA_WR_BUF_LEN"
    using assms(4) by (auto simp: turn_ok_def g)
  obtain s' ws where s': "request_write (fst env) (snd env) (sec, it2) f s = Inr (0, s')" "sent {f, sec} s s'" "posted s' = posted s @ ws"
      "\<forall>j c i. j < li_len it \<longrightarrow> writable (sess s) (li_start_index it + j) c i \<longrightarrow>
        page_posted ws c (remote_rkey (block_at (sess s) c i)) (block_addr (sess s) c i (offset_of (li_start_index it + j))) (ds ! j)"
    using request_write_sent [OF assms(1) it(1-4) c t] by blast
  have "delivered s {f} s'"
    unfolding delivered_def
  proof (intro ballI allI impI)
    fix a p d c i
    assume a: "a \<in> {f}" and "carries s a p d" and w: "writable (sess s) p c i"
    then obtain j e where j: "j < li_len it" "p = li_start_index it + j" "entries s (batch_list it ! j) = Some e" "pages s (te_page e) = Some d"
      using it(1) unfolding carries_def by auto
    obtain e' where "entries s (batch_list it ! j) = Some e'" "pages s (te_page e') = Some (ds ! j)"
      using it(2) j(1) unfolding item_pages_def by blast
    then have d: "ds ! j = d" using j(3,4) by simp
    note s'(4) [rule_format, OF j(1) w [unfolded j(2)], unfolded d]
    then show "page_posted (posted s') c (remote_rkey (block_at (sess s) c i)) (block_addr (sess s) c i (offset_of p)) d"
      unfolding j(2) s'(3) by (rule page_posted_mono) simp
  qed
  then show ?thesis using s'(1,2) by (auto simp: send_item_def g)
qed

subsection \<open>Merging\<close>

lemma merge_ok:
  assumes "sendable s f" and "sendable s t" and "f \<noteq> t" and "items s f = Some i" and "items s t = Some it"
    and "li_start_index it = li_start_index i + li_len i" and "li_len i + li_len it \<le> RDMA_WR_BUF_LEN"
  shows "\<exists>i'. merge_items f t s = Inr (s\<lparr>items := (items s)(f \<mapsto> i', t := None)\<rparr>) \<and>
    sendable (s\<lparr>items := (items s)(f \<mapsto> i', t := None)\<rparr>) f \<and>
    (\<forall>p d. carries s f p d \<or> carries s t p d \<longrightarrow> carries (s\<lparr>items := (items s)(f \<mapsto> i', t := None)\<rparr>) f p d)"
proof -
  obtain ds where f: "item_pages i s ds" "0 < li_len i" "length (batch_list i) = RDMA_WR_BUF_LEN"
      "\<forall>j<li_len i. \<exists>c k. writable (sess s) (li_start_index i + j) c k" using assms(1,4) unfolding sendable_def by auto
  obtain es where t: "item_pages it s es" "length (batch_list it) = RDMA_WR_BUF_LEN"
      "\<forall>j<li_len it. \<exists>c k. writable (sess s) (li_start_index it + j) c k" using assms(2,5) unfolding sendable_def by auto
  define b where "b = take (li_len i) (batch_list i) @ take (li_len it) (batch_list it) @ drop (li_len i + li_len it) (batch_list i)"
  define i' where "i' = i\<lparr>batch_list := b, li_len := li_len i + li_len it\<rparr>"
  have "foldM (\<lambda>j b. bind_ok (arr_get (batch_list it) j) (\<lambda>e. arr_set b (li_len i + j) e)) [0..<li_len it] (batch_list i) = Inr b"
    using copy_run [of 0 "li_len it" "batch_list it" "li_len i" "batch_list i"] assms(7) f(3) t(2) by (simp add: b_def)
  then have run: "merge_items f t s = Inr (s\<lparr>items := (items s)(f \<mapsto> i', t := None)\<rparr>)"
    using assms(4,5) by (simp add: merge_items_def put_free_item_def i'_def)
  have len: "li_len i \<le> length (batch_list i)" "li_len it \<le> length (batch_list it)" using f(3) t(2) assms(7) by simp_all
  have b1: "b ! j = batch_list i ! j" if "j < li_len i" for j using that len by (simp add: b_def nth_append)
  have b2: "b ! (li_len i + j) = batch_list it ! j" if "j < li_len it" for j using that len by (simp add: b_def nth_append)
  have split: "\<exists>l<li_len it. j = li_len i + l" if "\<not> j < li_len i" "j < li_len i + li_len it" for j
    using that by (intro exI [of _ "j - li_len i"]) simp
  let ?s = "s\<lparr>items := (items s)(f \<mapsto> i', t := None)\<rparr>"
  have "item_pages i' ?s (ds @ es)"
  proof -
    have l: "length ds = li_len i" "length es = li_len it" using f(1) t(1) by (simp_all add: item_pages_def)
    have "length ((ds @ es) ! j) = VALET_PAGE_SIZE \<and> (\<exists>e. entries s (b ! j) = Some e \<and> te_page e \<noteq> NULL \<and> pages s (te_page e) = Some ((ds @ es) ! j))"
      if lt: "j < li_len i + li_len it" for j
    proof (cases "j < li_len i")
      case True
      then show ?thesis using f(1) l b1 by (auto simp: item_pages_def nth_append)
    next
      case False
      obtain m where "m < li_len it" "j = li_len i + m" using split [OF False lt] by blast
      then show ?thesis using t(1) l b2 by (auto simp: item_pages_def nth_append)
    qed
    moreover have "li_len i + li_len it \<le> length b" using len assms(7) f(3) by (simp add: b_def)
    ultimately show ?thesis using l assms(7) by (simp add: item_pages_def i'_def)
  qed
  moreover have "\<exists>c k. writable (sess s) (li_start_index i + j) c k" if lt: "j < li_len i + li_len it" for j
  proof (cases "j < li_len i")
    case False
    obtain m where "m < li_len it" "j = li_len i + m" using split [OF False lt] by blast
    then show ?thesis using t(3) assms(6) by (simp add: add.assoc [symmetric])
  qed (use f(4) in blast)
  moreover have "length b = RDMA_WR_BUF_LEN" using len assms(7) f(3) t(2) by (simp add: b_def)
  ultimately have "sendable ?s f" unfolding sendable_def using f(2) assms(3)
    by (intro exI [of _ i'] exI [of _ "ds @ es"]) (simp add: i'_def)
  moreover have "carries ?s f p d" if c: "carries s f p d" for p d
  proof -
    obtain j e where "j < li_len i" "p = li_start_index i + j" "entries s (b ! j) = Some e" "pages s (te_page e) = Some d"
      using c assms(4) b1 unfolding carries_def by auto
    then show ?thesis using assms(3) unfolding carries_def by (intro exI [of _ i'] exI [of _ j] exI [of _ e]) (simp add: i'_def)
  qed
  moreover have "carries ?s f p d" if c: "carries s t p d" for p d
  proof -
    obtain j e where "j < li_len it" "p = li_start_index i + (li_len i + j)" "entries s (b ! (li_len i + j)) = Some e" "pages s (te_page e) = Some d"
      using c assms(5,6) b2 unfolding carries_def by (auto simp: add.assoc)
    then show ?thesis using assms(3) unfolding carries_def by (intro exI [of _ i'] exI [of _ "li_len i + j"] exI [of _ e]) (simp add: i'_def)
  qed
  ultimately show ?thesis using run by blast
qed

subsection \<open>The loop\<close>

lemma with_sending_frame [simp]:
  "ctx_pool n (with_sending q s) = ctx_pool n s" "sendable (with_sending q s) = sendable s"
  "carries (with_sending q s) = carries s" "delivered (with_sending q s) = delivered s"
  by (simp_all add: fun_eq_iff ctx_pool_def sendable_def carries_def delivered_def item_pages_def)

lemma merged_frame:
  assumes "a \<noteq> f" and "a \<noteq> t"
  shows "sendable (s\<lparr>items := (items s)(f \<mapsto> i', t := None)\<rparr>) a = sendable s a"
    "carries (s\<lparr>items := (items s)(f \<mapsto> i', t := None)\<rparr>) a = carries s a"
  using assms by (simp_all add: fun_eq_iff sendable_def carries_def item_pages_def)

lemma delivered_mono:
  assumes "delivered s A s'" and "set (posted s') \<subseteq> set (posted t)"
  shows "delivered s A t"
  using assms page_posted_mono unfolding delivered_def by blast

lemma delivered_sent:
  assumes "delivered s {f} t" and "sent {f, g} s t" and "delivered t A s'" and "set (posted t) \<subseteq> set (posted s')"
    and "f \<notin> A" and "g \<notin> A"
  shows "delivered s (insert f A) s'"
proof -
  have "carries t a = carries s a" if "a \<in> A" for a using that assms(5,6) by (intro sent_item(2) [OF assms(2)]) auto
  then have "delivered s A s'" using assms(3) unfolding delivered_def sent_tables [OF assms(2)] by metis
  then show ?thesis using delivered_mono [OF assms(1,4)] unfolding delivered_def by blast
qed

lemma sender_loop_drains:
  assumes "maps_ok (sess s)" and "sending_ok k s" and "sending_contents s = as" and "ctx_pool (2 * length as + 2) s"
    and "\<forall>a\<in>set (f # as). sendable s a" and "distinct (f # as)" and "\<forall>j. turn_ok (envs j) (grants j) (set (f # as))" and "length as < fuel"
  shows "\<exists>s'. sender_loop fuel envs grants (Some f) must_go s = Inr (0, s') \<and> sending_contents s' = [] \<and>
    set (posted s) \<subseteq> set (posted s') \<and> delivered s (set (f # as)) s'"
  using assms
proof (induction as arbitrary: s f fuel must_go)
  case Nil
  obtain n where n: "fuel = Suc n" using Nil.prems(8) by (cases fuel) auto
  obtain q where q: "get_sending_index s = Inr (None, with_sending q s)" "sending_contents (with_sending q s) = []"
    using get_sending_none [OF Nil.prems(2,3)] by blast
  obtain s' where s': "send_item (envs n) (grants n) f (with_sending q s) = Inr s'" "sent {f, fst (grants n)} (with_sending q s) s'"
      "delivered (with_sending q s) {f} s'"
    using send_item_ok [of "with_sending q s" 0 f "envs n" "grants n" "{}"] Nil.prems by auto
  have "sending_contents s' = []" using sent_sending [OF s'(2)] q(2) by simp
  moreover have "set (posted s) \<subseteq> set (posted s')" using s'(2) by (simp add: sent_def)
  ultimately show ?case using q(1) s'(1,3) by (simp add: n)
next
  case (Cons t as)
  obtain n where n: "fuel = Suc n" "length as < n" using Cons.prems(8) by (cases fuel) auto
  obtain q where q: "get_sending_index s = Inr (Some t, with_sending q s)" "sending_ok k (with_sending q s)" "sending_contents (with_sending q s) = as"
    using get_sending_oldest [OF Cons.prems(2,3)] by blast
  let ?s1 = "with_sending q s"
  obtain it i where it: "items s t = Some it" "items s f = Some i" using Cons.prems(5) unfolding sendable_def by auto
  have tf: "t \<noteq> f" using Cons.prems(6) by auto
  show ?case
  proof (cases "li_start_index it = li_start_index i + li_len i \<and> li_len i + li_len it \<le> RDMA_WR_BUF_LEN")
    case True
    obtain i' where m: "merge_items f t ?s1 = Inr (?s1\<lparr>items := (items ?s1)(f \<mapsto> i', t := None)\<rparr>)"
        "sendable (?s1\<lparr>items := (items ?s1)(f \<mapsto> i', t := None)\<rparr>) f"
        "\<forall>p d. carries s f p d \<or> carries s t p d \<longrightarrow> carries (?s1\<lparr>items := (items ?s1)(f \<mapsto> i', t := None)\<rparr>) f p d"
      using merge_ok [of ?s1 f t i it] Cons.prems(5) tf it True by auto
    let ?s2 = "?s1\<lparr>items := (items ?s1)(f \<mapsto> i', t := None)\<rparr>"
    have fr: "sendable ?s2 a = sendable s a" "carries ?s2 a = carries s a" if "a \<in> set as" for a
      using merged_frame [of a f t ?s1 i'] that Cons.prems(6) by auto
    have "sending_ok k ?s2" "sending_contents ?s2 = as" using q(2,3) by (simp_all add: sending_ok_def sending_contents_def)
    moreover have "ctx_pool (2 * length as + 2) ?s2" using Cons.prems(4) by (simp add: ctx_pool_def Let_def)
    moreover have "\<forall>a\<in>set (f # as). sendable ?s2 a" using m(2) fr(1) Cons.prems(5) by simp
    moreover have "distinct (f # as)" "\<forall>j. turn_ok (envs j) (grants j) (set (f # as))" using Cons.prems(6,7) by (auto simp: turn_ok_def)
    ultimately obtain s' where s': "sender_loop n envs grants (Some f) must_go ?s2 = Inr (0, s')" "sending_contents s' = []"
        "set (posted ?s2) \<subseteq> set (posted s')" "delivered ?s2 (set (f # as)) s'"
      using Cons.IH [of ?s2 f n must_go] Cons.prems(1) n(2) by auto
    have "delivered s (set (f # t # as)) s'" using s'(4) m(3) fr(2) unfolding delivered_def by auto
    then show ?thesis using q(1) it tf True m(1) s'(1-3) by (simp add: n(1))
  next
    case False
    obtain s2 where s2: "send_item (envs n) (grants n) f ?s1 = Inr s2" "sent {f, fst (grants n)} ?s1 s2" "delivered s {f} s2"
      using send_item_ok [of ?s1 "2 * length as + 2" f "envs n" "grants n" "set (t # as)"] Cons.prems by auto
    have out: "a \<notin> {f, fst (grants n)}" if "a \<in> set (t # as)" for a
      using that Cons.prems(6) Cons.prems(7) [rule_format, of n] by (auto simp: turn_ok_def)
    have "ctx_pool (2 * length as + 2) s2" using ctx_pool_sent [OF _ s2(2), of "2 * length as + 2"] Cons.prems(4) by simp
    moreover have "\<forall>a\<in>set (t # as). sendable s2 a" using sent_item(1) [OF s2(2) out] Cons.prems(5) by auto
    moreover have "sending_ok k s2" "sending_contents s2 = as" "maps_ok (sess s2)"
      using sent_sending [OF s2(2), of k] sent_tables(1) [OF s2(2)] q Cons.prems(1) by simp_all
    moreover have "distinct (t # as)" "\<forall>j. turn_ok (envs j) (grants j) (set (t # as))" using Cons.prems(6,7) by (auto simp: turn_ok_def)
    ultimately obtain s' where s': "sender_loop n envs grants (Some t) True s2 = Inr (0, s')" "sending_contents s' = []"
        "set (posted s2) \<subseteq> set (posted s')" "delivered s2 (set (t # as)) s'"
      using Cons.IH [of s2 t n True] n(2) by blast
    have "delivered ?s1 (insert f (set (t # as))) s'"
      by (rule delivered_sent [OF _ s2(2) s'(4,3)]) (use s2(3) out in auto)
    moreover have "set (posted s) \<subseteq> set (posted s')" using s2(2) s'(3) by (auto simp: sent_def)
    ultimately show ?thesis using q(1) it False s2(1) s'(1,2) by (auto simp: n(1))
  qed
qed

lemma sender_drains_list:
  assumes "maps_ok (sess s)" and "sending_ok k s" and "ctx_pool (2 * length (sending_contents s)) s"
    and "\<forall>a\<in>set (sending_contents s). sendable s a" and "distinct (sending_contents s)"
    and "\<forall>j. turn_ok (envs j) (grants j) (set (sending_contents s))" and "length (sending_contents s) < fuel"
  shows "\<exists>s'. remote_sender_fn fuel envs grants s = Inr (0, s') \<and> sending_contents s' = [] \<and> delivered s (set (sending_contents s)) s'"
proof (cases "sending_contents s")
  case Nil
  obtain n where "fuel = Suc n" using assms(7) by (cases fuel) auto
  then show ?thesis using get_sending_none [OF assms(2) Nil] Nil by (auto simp: remote_sender_fn_def delivered_def)
next
  case (Cons f as)
  obtain n where n: "fuel = Suc n" "length as < n" using assms(7) Cons by (cases fuel) auto
  obtain q where q: "get_sending_index s = Inr (Some f, with_sending q s)" "sending_ok k (with_sending q s)" "sending_contents (with_sending q s) = as"
    using get_sending_oldest [OF assms(2) Cons] by blast
  have "\<exists>s'. sender_loop n envs grants (Some f) False (with_sending q s) = Inr (0, s') \<and> sending_contents s' = [] \<and>
      set (posted (with_sending q s)) \<subseteq> set (posted s') \<and> delivered (with_sending q s) (set (f # as)) s'"
    using assms(1,3-6) n(2) Cons by (intro sender_loop_drains [OF _ q(2,3)]) simp_all
  then show ?thesis using q(1) Cons by (auto simp: remote_sender_fn_def n(1))
qed

subsection \<open>Items of a read-only block\<close>

definition refused :: "rdma_mem \<Rightarrow> ptr \<Rightarrow> bool" where
  "refused s a \<longleftrightarrow> (\<exists>it c i. items s a = Some it \<and> 0 < li_len it \<and>
     gb_of (li_start_index it + li_len it - 1) = gb_of (li_start_index it) \<and>
     placement (sess s) (gb_of (li_start_index it)) = Some (c, i) \<and> rb_state (block_at (sess s) c i) \<noteq> ACTIVE)"

lemma request_write_refused:
  assumes "maps_ok (sess s)" and "refused s a" and "sending_ok k s" and "length (sending_contents s) < 2 ^ k"
  shows "\<exists>q. request_write env env2 grant a s = Inr (0, with_sending q s) \<and> sending_ok k (with_sending q s) \<and>
    sending_contents (with_sending q s) = sending_contents s @ [a]"
proof -
  obtain it c i where r: "items s a = Some it" "0 < li_len it" "gb_of (li_start_index it + li_len it - 1) = gb_of (li_start_index it)"
      "placement (sess s) (gb_of (li_start_index it)) = Some (c, i)" "rb_state (block_at (sess s) c i) \<noteq> ACTIVE"
    using assms(2) unfolding refused_def by blast
  note l = placed_lookup [OF assms(1) r(4)]
  obtain q where q: "put_sending_index a s = Inr (0, with_sending q s)" "sending_ok k (with_sending q s)"
      "sending_contents (with_sending q s) = sending_contents s @ [a]" using put_sending_back [OF assms(3,4)] by blast
  have "rdma_write env (gb_of (li_start_index it)) (offset_of (li_start_index it)) a s = Inr (0, with_sending q s)"
    using get_cb_mapped [OF assms(1) r(4)] l q(1) r(5) by (simp add: rdma_write_def block_at_def)
  then have "request_write env env2 grant a s = Inr (0, with_sending q s)"
    using r(1,3) by (simp add: request_write_def Let_def page_gb page_offset page_last [OF r(2)])
  then show ?thesis using q(2,3) by blast
qed

definition not_adjacent :: "rdma_mem \<Rightarrow> ptr \<Rightarrow> ptr \<Rightarrow> bool" where
  "not_adjacent s a b \<longleftrightarrow> (\<forall>i j. items s a = Some i \<longrightarrow> items s b = Some j \<longrightarrow> li_start_index j \<noteq> li_start_index i + li_len i)"

lemma sender_loop_spins:
  assumes "maps_ok (sess s)" and "sending_ok k s" and "sending_contents s = [b]" and "0 < k"
    and "refused s a" and "refused s b" and "not_adjacent s a b" and "not_adjacent s b a"
  shows "sender_loop fuel envs grants (Some a) must_go s = Inl Hang"
  using assms
proof (induction fuel arbitrary: s a b must_go)
  case (Suc n)
  obtain q where q: "get_sending_index s = Inr (Some b, with_sending q s)" "sending_ok k (with_sending q s)" "sending_contents (with_sending q s) = []"
    using get_sending_oldest [OF Suc.prems(2,3)] by blast
  let ?s1 = "with_sending q s"
  obtain i j where it: "items s a = Some i" "items s b = Some j" using Suc.prems(5,6) unfolding refused_def by blast
  have "maps_ok (sess ?s1)" "refused ?s1 a" "length (sending_contents ?s1) < 2 ^ k" using Suc.prems(1,5) q(3) by (simp_all add: refused_def)
  from request_write_refused [OF this(1,2) q(2) this(3), of "fst (envs n)" "snd (envs n)" "grants n"]
  obtain r where r: "request_write (fst (envs n)) (snd (envs n)) (grants n) a ?s1 = Inr (0, with_sending r s)"
      "sending_ok k (with_sending r s)" "sending_contents (with_sending r s) = [a]" using q(3) by auto
  have "sender_loop n envs grants (Some b) True (with_sending r s) = Inl Hang"
    using Suc.prems(1,4-8) by (intro Suc.IH [OF _ r(2,3)]) (simp_all add: refused_def not_adjacent_def)
  moreover have "li_start_index j \<noteq> li_start_index i + li_len i" using Suc.prems(7) it unfolding not_adjacent_def by blast
  ultimately show ?case using q(1) it r(1) by (simp add: send_item_def)
qed simp

lemma sender_fn_spins:
  assumes "maps_ok (sess s)" and "sending_ok k s" and "sending_contents s = [a, b]" and "0 < k"
    and "refused s a" and "refused s b" and "not_adjacent s a b" and "not_adjacent s b a"
  shows "remote_sender_fn fuel envs grants s = Inl Hang"
proof (cases fuel)
  case (Suc n)
  obtain q where q: "get_sending_index s = Inr (Some a, with_sending q s)" "sending_ok k (with_sending q s)" "sending_contents (with_sending q s) = [b]"
    using get_sending_oldest [OF assms(2,3)] by blast
  have "sender_loop n envs grants (Some a) False (with_sending q s) = Inl Hang"
    using assms(1,4-8) by (intro sender_loop_spins [OF _ q(2,3)]) (simp_all add: refused_def not_adjacent_def)
  then show ?thesis using q(1) Suc by (simp add: remote_sender_fn_def)
qed (simp add: remote_sender_fn_def)

end
