(* ===== verification/Block_Request.thy ===== *)
theory Block_Request
  imports Sender
begin

text \<open>
  A write request of the block layer from end to end (\<open>valet_request\<close> of valet_drv.c): the pages go
  into the local pool and the page table, their item goes on the sending list, the sender takes it off and
  posts every page to its remote block.
\<close>

text \<open>The page table leaves the remote side alone.\<close>

lemma remote_frame:
  fixes s t :: rdma_mem
  assumes "gpt_mem.more s = gpt_mem.more t"
  shows "sess s = sess t" "ctxs s = ctxs t" "posted s = posted t"
  using assms by (cases s; cases t; simp)+

lemma written_item_sendable:
  fixes s2 :: rdma_mem
  assumes "copied k bufs b 0 n s1 s2" and "items s2 a = Some it" and "batch_list it = b" and "li_len it = n" and "0 < n"
    and "n \<le> RDMA_WR_BUF_LEN" and "length b = RDMA_WR_BUF_LEN" and "n \<le> length bufs" and "\<forall>x\<in>set bufs. length x = VALET_PAGE_SIZE"
    and "\<forall>i<n. \<exists>c l. writable (sess s2) (li_start_index it + i) c l"
  shows "sendable s2 a" "i < n \<Longrightarrow> carries s2 a (li_start_index it + i) (bufs ! i)"
proof -
  have e: "\<exists>e. entries s2 (b ! i) = Some e \<and> te_page e \<noteq> NULL \<and> pages s2 (te_page e) = Some (bufs ! i)" if "i < n" for i
    using assms(1) that unfolding copied_def by fastforce
  have "item_pages it s2 (take n bufs)"
    unfolding item_pages_def using assms(3,4,6-9) e by simp
  then show "sendable s2 a" unfolding sendable_def using assms(2-7,10) by auto
  show "carries s2 a (li_start_index it + i) (bufs ! i)" if "i < n"
    using e [OF that] assms(2-4) that unfolding carries_def by auto
qed

lemma block_write_ok:
  assumes "write_ready k j (be_item be) (be_entries be) n bufs s" and "\<forall>i<n. be_preload be i" and "0 < n"
    and "init_done (pool s) \<noteq> 0" and "sending_contents s = []" and "maps_ok (sess s)" and "ctx_pool 2 s"
    and "\<forall>i<n. \<exists>c l. writable (sess s) (pos div 8 + i) c l"
    and "\<forall>m. turn_ok (be_envs be m) (be_grants be m) {fst (be_item be)}" and "1 < be_fuel be"
  shows "\<exists>s'. valet_request be (WRITE pos n bufs) s = Inr (0, None, s') \<and> sending_contents s' = [] \<and>
    (\<forall>i<n. \<forall>c l. writable (sess s) (pos div 8 + i) c l \<longrightarrow>
       page_posted (posted s') c (remote_rkey (block_at (sess s) c l)) (block_addr (sess s) c l (offset_of (pos div 8 + i))) (bufs ! i))"
proof -
  let ?a = "fst (be_item be)" and ?it = "(snd (be_item be))\<lparr>li_start_index := pos div 8, li_len := n\<rparr>"
  obtain s0 s1 s2 b q q' where w: "write_to_brd (be_item be) (be_entries be) (be_preload be) pos n bufs s = Inr (0, with_sending q' s2)"
    "s0 = s\<lparr>items := (items s)(?a \<mapsto> ?it)\<rparr>" "batch_done k ?a (pos div 8) 0 n s0 ?it s1 b"
    "copied k bufs b 0 n s1 s2" "sending_list (pool s) = Some q" "alf_win j q'" "alf_contents q' = alf_contents q @ [?a]"
    using write_ok [OF assms(1,2), where pos = pos] by blast
  note bd = w(3) [unfolded batch_done_def] and cp = w(4) [unfolded copied_def]
  let ?s = "with_sending q' s2"
  have "gpt_mem.more s2 = gpt_mem.more s" using bd cp w(2) by simp
  note fr = remote_frame [OF this]
  have it: "items s2 ?a = Some (?it\<lparr>batch_list := b\<rparr>)" using bd cp by simp
  have r: "n \<le> RDMA_WR_BUF_LEN" "length (batch_list (snd (be_item be))) = RDMA_WR_BUF_LEN" "n \<le> length bufs" "\<forall>x\<in>set bufs. length x = VALET_PAGE_SIZE"
    using assms(1) unfolding write_ready_def by blast+
  have lb: "length b = RDMA_WR_BUF_LEN" using bd r(2) by simp
  note ws = written_item_sendable [OF w(4) it _ _ assms(3) r(1) lb r(3,4)]
  have send: "sendable s2 ?a" "carries s2 ?a (pos div 8 + i) (bufs ! i)" if "i < n" for i
    using ws(1) ws(2) [of i] assms(8) fr(1) that by simp_all
  have list: "sending_contents ?s = [?a]" using w(5,7) assms(5) by (simp add: sending_contents_def)
  have init: "init_done (pool s2) \<noteq> 0" using assms(4) bd cp w(2) by simp
  have "\<exists>s'. remote_sender_fn (be_fuel be) (be_envs be) (be_grants be) ?s = Inr (0, s') \<and> sending_contents s' = [] \<and>
      delivered ?s (set (sending_contents ?s)) s'"
  proof (rule sender_drains_list)
    show "maps_ok (sess ?s)" using assms(6) fr(1) by simp
    show "sending_ok j ?s" using w(6) init by (simp add: sending_ok_def)
    show "ctx_pool (2 * length (sending_contents ?s)) ?s" using assms(7) fr list by (simp add: ctx_pool_def Let_def)
    show "\<forall>a\<in>set (sending_contents ?s). sendable ?s a" "distinct (sending_contents ?s)"
      "\<forall>m. turn_ok (be_envs be m) (be_grants be m) (set (sending_contents ?s))" "length (sending_contents ?s) < be_fuel be"
      using send(1) assms(3,9,10) unfolding list by auto
  qed
  then obtain s' where s': "remote_sender_fn (be_fuel be) (be_envs be) (be_grants be) ?s = Inr (0, s')" "sending_contents s' = []"
      "delivered s2 {?a} s'" unfolding list by auto
  have "page_posted (posted s') c (remote_rkey (block_at (sess s) c l)) (block_addr (sess s) c l (offset_of (pos div 8 + i))) (bufs ! i)"
    if "i < n" "writable (sess s) (pos div 8 + i) c l" for i c l
    using s'(3) send(2) [OF that(1)] that(2) unfolding delivered_def fr(1) by blast
  then show ?thesis using w(1) s'(1,2) by (simp add: valet_request_def)
qed

end
