(* ===== verification/Roundtrip.thy ===== *)
theory Roundtrip
  imports Completion
begin

text \<open>
  A page written to a remote node and read back. The network card is a parameter: the memory of
  the node is a function of the address, it holds the bytes of a write at consecutive
  addresses once the write has completed, and a read brings the bytes at consecutive addresses into the
  buffer of its context.
\<close>

definition holds_at :: "(u64 \<Rightarrow> u8) \<Rightarrow> u64 \<Rightarrow> u8 list \<Rightarrow> bool" where
  "holds_at mem a data \<longleftrightarrow> (\<forall>k<length data. mem (a + of_nat k) = data ! k)"

definition fetched :: "(u64 \<Rightarrow> u8) \<Rightarrow> u64 \<Rightarrow> page" where
  "fetched mem a = map (\<lambda>k. mem (a + of_nat k)) [0..<VALET_PAGE_SIZE]"

definition received :: "ptr \<Rightarrow> page \<Rightarrow> rdma_mem \<Rightarrow> rdma_mem" where
  "received y d s = s\<lparr>ctxs := (ctxs s)(y \<mapsto> (the (ctxs s y))\<lparr>rdma_buf := d\<rparr>)\<rparr>"

lemma fetched_slice:
  assumes "holds_at mem a data" and "n + VALET_PAGE_SIZE \<le> length data"
  shows "fetched mem (a + of_nat n) = take VALET_PAGE_SIZE (drop n data)"
proof (rule nth_equalityI)
  show "length (fetched mem (a + of_nat n)) = length (take VALET_PAGE_SIZE (drop n data))"
    using assms(2) by (simp add: fetched_def)
next
  fix k assume "k < length (fetched mem (a + of_nat n))"
  then have k: "k < VALET_PAGE_SIZE" by (simp add: fetched_def)
  then have "n + k < length data" using assms(2) by simp
  then have "mem (a + of_nat (n + k)) = data ! (n + k)" using assms(1) unfolding holds_at_def by blast
  then show "fetched mem (a + of_nat n) ! k = take VALET_PAGE_SIZE (drop n data) ! k"
    using k assms(2) by (simp add: fetched_def add.assoc)
qed

subsection \<open>The write and its completion\<close>

lemma in_block:
  fixes p n :: nat
  assumes "0 < n" and "gb_of (p + n - 1) = gb_of p"
  shows "p mod PAGES_PER_GB + n \<le> PAGES_PER_GB"
proof -
  have "p + n - 1 = p + (n - 1)" using assms(1) by simp
  then have "n - 1 < PAGES_PER_GB - p mod PAGES_PER_GB" using assms(2) same_gb [of p "n - 1"] by metis
  then show ?thesis using assms(1) by linarith
qed

lemma posted_completes:
  assumes "maps_ok (sess s)" and "placement (sess s) g = Some (c, i)" and "tmp \<noteq> NULL" and "p + li_len it \<le> PAGES_PER_GB"
    and "batch_ready k it s" and "write_ctx_ready x ctx s"
  shows "\<exists>s'. write_done_postwork x (write_posted env c i (p * VALET_PAGE_SIZE) tmp it ds x ctx s) = Inr (0, s') \<and>
    write_recorded k x tmp (it\<lparr>li_ref_count := 0\<rparr>) c i p (write_posted env c i (p * VALET_PAGE_SIZE) tmp it ds x ctx s) s'"
proof -
  let ?t = "write_posted env c i (p * VALET_PAGE_SIZE) tmp it ds x ctx s"
  have x: "x \<noteq> NULL" "0 < fp_curr_nr (rdma_write_freepool (sess s))"
    "fp_curr_nr (rdma_write_freepool (sess s)) \<le> fp_cap_nr (rdma_write_freepool (sess s))"
    "length (fp_elements (rdma_write_freepool (sess s))) = fp_cap_nr (rdma_write_freepool (sess s))"
    using assms(6) unfolding write_ctx_ready_def Let_def by blast+
  have "maps_ok (sess ?t)" "placement (sess ?t) g = Some (c, i)" using assms(1,2) by (simp_all add: write_posted_def)
  moreover have "write_in_flight x tmp (it\<lparr>li_ref_count := 0\<rparr>) c i p ?t"
    using assms(3,4) x(1) by (simp add: write_in_flight_def write_posted_def)
  moreover have "batch_ready k (it\<lparr>li_ref_count := 0\<rparr>) ?t"
  proof -
    have "pool_ok k ?t = pool_ok k s" by (rule pool_ok_cong) (simp_all add: write_posted_def)
    then show ?thesis using assms(5) by (simp add: batch_ready_def) (simp add: write_posted_def reclaim_contents_def)
  qed
  moreover have "pool_slot_free (rdma_write_freepool (sess ?t))" using x by (auto simp: write_posted_def pool_slot_free_def)
  ultimately show ?thesis by (rule write_done_ok)
qed

lemma recorded_bit:
  assumes "maps_ok (sess s)" and "placement (sess s) g = Some (c, i)" and "write_recorded k x tmp it c i p s s'"
    and "p + li_len it \<le> PAGES_PER_GB" and "j < li_len it"
  shows "maps_ok (sess s')" "placement (sess s') g = Some (c, i)"
    "remote_rkey (block_at (sess s') c i) = remote_rkey (block_at (sess s) c i)" "block_addr (sess s') c i = block_addr (sess s) c i"
    "rb_state (block_at (sess s') c i) = rb_state (block_at (sess s) c i)"
    "\<exists>bm. bitmap_g (block_at (sess s') c i) = Some bm \<and> valet_bitmap_test bm (int (p + j)) = Inr True"
proof -
  note l = placed_lookup [OF assms(1,2)]
  obtain bm bm' where b: "bits_set bm bm' p (li_len it)"
      "sess s' = (with_bitmap c i bm' (sess s))\<lparr>rdma_write_freepool := given_back x (rdma_write_freepool (sess s))\<rparr>"
    using assms(3) unfolding write_recorded_def by blast
  have bk: "block_at (sess s') c i = (block_at (sess s) c i)\<lparr>bitmap_g := Some bm'\<rparr>"
    using with_bitmap_block(1) [OF l(5,4)] b(2) by simp
  show "maps_ok (sess s')" using with_bitmap_maps_ok [OF assms(1) _ l(5,4)] b by (simp add: bits_set_def)
  show "placement (sess s') g = Some (c, i)" using assms(2) b(2) by simp
  show "remote_rkey (block_at (sess s') c i) = remote_rkey (block_at (sess s) c i)"
    "rb_state (block_at (sess s') c i) = rb_state (block_at (sess s) c i)"
    "block_addr (sess s') c i = block_addr (sess s) c i" by (simp_all add: bk block_addr_def fun_eq_iff)
  show "\<exists>bm. bitmap_g (block_at (sess s') c i) = Some bm \<and> valet_bitmap_test bm (int (p + j)) = Inr True"
    using b(1) assms(4,5) unfolding bits_set_def by (auto simp: bk simp del: of_nat_add)
qed

subsection \<open>The read\<close>

lemma read_done_ok:
  assumes "y \<noteq> NULL" and "read_ctx_ready y cty s" and "fp_curr_nr (rdma_read_freepool (sess s)) \<le> fp_cap_nr (rdma_read_freepool (sess s))"
    and "length (fp_elements (rdma_read_freepool (sess s))) = fp_cap_nr (rdma_read_freepool (sess s))"
    and "length buffer = VALET_PAGE_SIZE" and "length d = VALET_PAGE_SIZE"
  shows "\<exists>s'. read_done_postwork y buffer (received y d (read_posted c i off req y cty s)) = Inr ((req, d), s')"
proof -
  let ?p = "rdma_read_freepool (sess s)"
  have p: "0 < fp_curr_nr ?p" using assms(2) by (simp add: read_ctx_ready_def Let_def)
  then have "pool_slot_free (?p\<lparr>fp_curr_nr := fp_curr_nr ?p - 1\<rparr>)" using assms(3,4) by (auto simp: pool_slot_free_def)
  from put_rdma_freepool_ok [OF this, of y] show ?thesis
    using assms(5,6)
    by (simp add: read_done_postwork_def received_def read_posted_def memcpy_def update_ctx_def give_read_ctx_def)
qed

text \<open>The contexts for reads are all in place, and none of them serves a write.\<close>

definition read_side_ready :: "ptr \<Rightarrow> ptr \<Rightarrow> rdma_ctx \<Rightarrow> rdma_mem \<Rightarrow> bool" where
  "read_side_ready x y cty s \<longleftrightarrow> isRDMAon (sess s) \<and> read_ctx_ready y cty s \<and> y \<noteq> NULL \<and> y \<noteq> x \<and>
     fp_curr_nr (rdma_read_freepool (sess s)) \<le> fp_cap_nr (rdma_read_freepool (sess s)) \<and>
     length (fp_elements (rdma_read_freepool (sess s))) = fp_cap_nr (rdma_read_freepool (sess s))"

lemma read_side_recorded:
  assumes "read_side_ready x y cty s" and "write_recorded k x tmp it c i p (write_posted env d l off tmp it' ds x ctx s) s'"
  shows "read_side_ready x y cty s'"
proof -
  let ?t = "write_posted env d l off tmp it' ds x ctx s"
  obtain bm' where b: "sess s' = (with_bitmap c i bm' (sess ?t))\<lparr>rdma_write_freepool := given_back x (rdma_write_freepool (sess ?t))\<rparr>"
    using assms(2) unfolding write_recorded_def by blast
  have c: "ctxs s' = (ctxs ?t)(x \<mapsto> (the (ctxs ?t x))\<lparr>sending_item := NULL, ctx_rb_index := - 1, ctx_rb := None, in_flight := CTX_IDLE\<rparr>)"
    using assms(2) unfolding write_recorded_def by blast
  have "rdma_read_freepool (sess s') = rdma_read_freepool (sess s)" "isRDMAon (sess s') = isRDMAon (sess s)"
    by (simp_all add: b with_bitmap_def write_posted_def isRDMAon_def)
  moreover have "ctxs s' y = ctxs s y" using assms(1) by (simp add: c write_posted_def read_side_ready_def)
  ultimately show ?thesis using assms(1) unfolding read_side_ready_def read_ctx_ready_def Let_def by simp
qed

definition page_comes_back :: "nat \<Rightarrow> u32 \<Rightarrow> ptr \<Rightarrow> ptr \<Rightarrow> ptr \<Rightarrow> page \<Rightarrow> page \<Rightarrow> rdma_mem \<Rightarrow> rdma_mem \<Rightarrow> rdma_mem \<Rightarrow> bool" where
  "page_comes_back c key x y req buffer d s1 s2 s3 \<longleftrightarrow>
     (\<exists>aw data ar. WR_Write c key aw data x \<in> set (posted s1) \<and> posted s3 = posted s2 @ [WR_Read c key ar y] \<and>
       (\<forall>mem. holds_at mem aw data \<longrightarrow> (\<exists>s4. read_done_postwork y buffer (received y (fetched mem ar) s3) = Inr ((req, d), s4))))"

lemma roundtrip_ok:
  assumes "maps_ok (sess s)" and "items s tmp = Some it" and "tmp \<noteq> NULL" and "item_pages it s ds" and "0 < li_len it"
    and "gb_of (li_start_index it + li_len it - 1) = gb_of (li_start_index it)"
    and "writable (sess s) (li_start_index it) c i" and "write_ctx_ready x ctx s" and "io_post env = 0"
    and "batch_ready k it s" and "read_side_ready x y cty s" and "io_post env' = 0" and "j < li_len it"
    and "length buffer = VALET_PAGE_SIZE"
  shows "\<exists>s1 s2 s3. request_write env env2 grant tmp s = Inr (0, s1) \<and> write_done_postwork x s1 = Inr (0, s2) \<and>
    request_read env' (8 * (li_start_index it + j)) req s2 = Inr (0, s3) \<and>
    page_comes_back c (remote_rkey (block_at (sess s) c i)) x y req buffer (ds ! j) s1 s2 s3"
proof -
  let ?p = "li_start_index it" and ?key = "remote_rkey (block_at (sess s) c i)"
  define q where "q = ?p mod PAGES_PER_GB"
  let ?s1 = "write_posted env c i (q * VALET_PAGE_SIZE) tmp it ds x ctx s"
  have w: "request_write env env2 grant tmp s = Inr (0, ?s1)"
    unfolding q_def by (rule request_write_one [OF assms(1,2,4-9)])
  have pl: "placement (sess s) (gb_of ?p) = Some (c, i)" "rb_state (block_at (sess s) c i) = ACTIVE"
    using assms(7) by (simp_all add: writable_def)
  have q: "q + li_len it \<le> PAGES_PER_GB" unfolding q_def by (rule in_block [OF assms(5,6)])
  obtain s2 where s2: "write_done_postwork x ?s1 = Inr (0, s2)" "write_recorded k x tmp (it\<lparr>li_ref_count := 0\<rparr>) c i q ?s1 s2"
    using posted_completes [OF assms(1) pl(1) assms(3) q assms(10,8)] by blast
  have m1: "maps_ok (sess ?s1)" "placement (sess ?s1) (gb_of ?p) = Some (c, i)" using assms(1) pl(1) by (simp_all add: write_posted_def)
  note r = recorded_bit [OF m1 s2(2)]
  have f1: "remote_rkey (block_at (sess ?s1) c i) = ?key" "block_addr (sess ?s1) c i = block_addr (sess s) c i"
    "rb_state (block_at (sess ?s1) c i) = ACTIVE" using pl(2) by (simp_all add: write_posted_def)
  have j: "gb_of (?p + j) = gb_of ?p" by (rule same_gb_between [OF assms(6,13)])
  have oj: "offset_of (?p + j) = offset_of ?p + VALET_PAGE_SIZE * j" by (rule offset_in_block [OF j])
  then have mj: "(?p + j) mod PAGES_PER_GB = q + j" unfolding q_def by simp
  obtain bm where bm: "bitmap_g (block_at (sess s2) c i) = Some bm" "valet_bitmap_test bm (int ((?p + j) mod PAGES_PER_GB)) = Inr True"
    using r(6) [of j] q assms(13) unfolding mj by auto
  have rs: "read_side_ready x y cty s2" by (rule read_side_recorded [OF assms(11) s2(2)])
  let ?s3 = "read_posted c i (offset_of (?p + j)) req y cty s2"
  have read: "request_read env' (8 * (?p + j)) req s2 = Inr (0, ?s3)"
    using r(1-5) [of j] q assms(12,13) f1(3) bm rs j
    by (intro request_read_ok) (simp_all add: read_side_ready_def)
  let ?aw = "block_addr (sess s) c i (offset_of ?p)" and ?ar = "block_addr (sess s) c i (offset_of (?p + j))"
  have aj: "?ar = ?aw + of_nat (VALET_PAGE_SIZE * j)" by (simp only: block_addr_def oj of_nat_add add.assoc)
  have sl: "take VALET_PAGE_SIZE (drop (VALET_PAGE_SIZE * j) (concat ds)) = ds ! j" "VALET_PAGE_SIZE * j + VALET_PAGE_SIZE \<le> length (concat ds)"
    "length (ds ! j) = VALET_PAGE_SIZE"
    using concat_page_slice [of ds VALET_PAGE_SIZE j] item_pages_bytes [OF assms(4)] assms(4,13) by (simp_all add: item_pages_def)
  have "\<exists>s4. read_done_postwork y buffer (received y (fetched mem ?ar) ?s3) = Inr ((req, ds ! j), s4)"
    if "holds_at mem ?aw (concat ds)" for mem
    unfolding aj fetched_slice [OF that sl(2)] sl(1)
    using rs assms(14) sl(3) by (intro read_done_ok) (simp_all add: read_side_ready_def)
  moreover have "WR_Write c ?key ?aw (concat ds) x \<in> set (posted ?s1)" by (simp add: write_posted_def q_def)
  moreover have "posted ?s3 = posted s2 @ [WR_Read c ?key ?ar y]"
    using r(3,4) [of j] q assms(13) f1 by (simp add: read_posted_def)
  ultimately have "page_comes_back c ?key x y req buffer (ds ! j) ?s1 s2 ?s3" unfolding page_comes_back_def by blast
  then show ?thesis using w s2(1) read by blast
qed

end
