(* ===== verification/Ctx_Pool.thy ===== *)
theory Ctx_Pool
  imports Rdma_State
begin

text \<open>
  The pools of transfer contexts (\<open>rdma_freepool_t\<close> of rdmabox.c) seen by their clients, which take
  contexts and give them back in any order: no context is handed out twice, none is lost, and a
  context that is given back always finds a slot.
\<close>

subsection \<open>Clients of a pool\<close>

text \<open>The state is the pool and the contexts the clients hold.\<close>

inductive pool_step :: "('p \<Rightarrow> (ptr \<times> 'p) outcome) \<Rightarrow> (ptr \<Rightarrow> 'p \<Rightarrow> 'p outcome) \<Rightarrow> 'p \<times> ptr set \<Rightarrow> 'p \<times> ptr set \<Rightarrow> bool"
  for get put where
  Take: "get p = Inr (x, p') \<Longrightarrow> x \<noteq> NULL \<Longrightarrow> pool_step get put (p, H) (p', insert x H)"
| Give: "x \<in> H \<Longrightarrow> put x p = Inr p' \<Longrightarrow> pool_step get put (p, H) (p', H - {x})"

locale resource_pool =
  fixes inv :: "'p \<Rightarrow> bool"
    and free :: "'p \<Rightarrow> ptr set"
    and capacity :: "'p \<Rightarrow> nat"
    and get :: "'p \<Rightarrow> (ptr \<times> 'p) outcome"
    and put :: "ptr \<Rightarrow> 'p \<Rightarrow> 'p outcome"
  assumes get_some: "inv p \<Longrightarrow> free p \<noteq> {} \<Longrightarrow>
      \<exists>x p'. get p = Inr (x, p') \<and> x \<in> free p \<and> inv p' \<and> free p' = free p - {x} \<and> capacity p' = capacity p"
    and get_none: "inv p \<Longrightarrow> free p = {} \<Longrightarrow> get p = Inr (NULL, p)"
    and put_ok: "inv p \<Longrightarrow> x \<notin> free p \<Longrightarrow> x \<noteq> NULL \<Longrightarrow> card (free p) < capacity p \<Longrightarrow>
      \<exists>p'. put x p = Inr p' \<and> inv p' \<and> free p' = insert x (free p) \<and> capacity p' = capacity p"
    and free_ok: "inv p \<Longrightarrow> finite (free p) \<and> NULL \<notin> free p \<and> card (free p) \<le> capacity p"
begin

text \<open>What the clients hold and what is free make up the contexts \<open>A\<close>, without overlap.\<close>

definition shared :: "ptr set \<Rightarrow> 'p \<times> ptr set \<Rightarrow> bool" where
  "shared A c \<longleftrightarrow> inv (fst c) \<and> free (fst c) \<inter> snd c = {} \<and> free (fst c) \<union> snd c = A \<and> finite A \<and> NULL \<notin> A \<and> card A \<le> capacity (fst c)"

lemma put_room:
  assumes "shared A (p, H)" and "x \<in> H"
  shows "\<exists>p'. put x p = Inr p' \<and> inv p' \<and> free p' = insert x (free p) \<and> capacity p' = capacity p"
proof -
  have s: "inv p" "x \<notin> free p" "x \<noteq> NULL" "insert x (free p) \<subseteq> A" "finite A" "card A \<le> capacity p"
    using assms unfolding shared_def by auto
  have "Suc (card (free p)) = card (insert x (free p))" using s(2) free_ok [OF s(1)] by simp
  also have "\<dots> \<le> card A" by (rule card_mono [OF s(5,4)])
  finally show ?thesis using put_ok [OF s(1-3)] s(6) by simp
qed

lemma shared_step:
  assumes "pool_step get put (p, H) c" and "shared A (p, H)"
  shows "shared A c"
proof -
  consider (take) x p' where "get p = Inr (x, p')" "x \<noteq> NULL" "c = (p', insert x H)"
    | (give) x p' where "x \<in> H" "put x p = Inr p'" "c = (p', H - {x})" using assms(1) by (auto elim: pool_step.cases)
  then show ?thesis
  proof cases
    case take
    have p: "inv p" using assms(2) by (simp add: shared_def)
    have "free p \<noteq> {}" using get_none [OF p] take(1,2) by auto
    then have "x \<in> free p" "inv p'" "free p' = free p - {x}" "capacity p' = capacity p" using get_some [OF p] take(1) by auto
    then show ?thesis using assms(2) unfolding shared_def take(3) by auto
  next
    case give
    then have "inv p'" "free p' = insert x (free p)" "capacity p' = capacity p" using put_room [OF assms(2) give(1)] by auto
    then show ?thesis using assms(2) give(1) unfolding shared_def give(3) by auto
  qed
qed

lemma shared_reachable:
  assumes "(pool_step get put)\<^sup>*\<^sup>* c d" and "shared A c"
  shows "shared A d"
  using assms by (induction rule: rtranclp_induct) (assumption, metis shared_step surj_pair)

end

subsection \<open>The pools of the session\<close>

definition freepool_ok :: "rdma_freepool \<Rightarrow> bool" where
  "freepool_ok p \<longleftrightarrow> fp_curr_nr p \<le> fp_cap_nr p \<and> length (fp_elements p) = fp_cap_nr p \<and>
     distinct (take (fp_curr_nr p) (fp_elements p)) \<and> NULL \<notin> set (take (fp_curr_nr p) (fp_elements p))"

definition free_ctxs :: "rdma_freepool \<Rightarrow> ptr set" where
  "free_ctxs p = set (take (fp_curr_nr p) (fp_elements p))"

lemma card_free_ctxs: "freepool_ok p \<Longrightarrow> card (free_ctxs p) = fp_curr_nr p"
  by (simp add: freepool_ok_def free_ctxs_def distinct_card)

lemma get_freepool_ok:
  assumes "freepool_ok p" and "free_ctxs p \<noteq> {}"
  shows "\<exists>x p'. get_rdma_freepool p = Inr (x, p') \<and> x \<in> free_ctxs p \<and> freepool_ok p' \<and> free_ctxs p' = free_ctxs p - {x} \<and> fp_cap_nr p' = fp_cap_nr p"
proof -
  obtain n where n: "fp_curr_nr p = Suc n" using assms(2) by (cases "fp_curr_nr p") (auto simp: free_ctxs_def)
  have l: "n < length (fp_elements p)" using assms(1) n by (simp add: freepool_ok_def)
  then have t: "take (Suc n) (fp_elements p) = take n (fp_elements p) @ [fp_elements p ! n]" by (simp add: take_Suc_conv_app_nth)
  then show ?thesis using assms(1) l by (auto simp: get_rdma_freepool_def n freepool_ok_def free_ctxs_def)
qed

lemma put_freepool_ok:
  assumes "freepool_ok p" and "x \<notin> free_ctxs p" and "x \<noteq> NULL" and "card (free_ctxs p) < fp_cap_nr p"
  shows "\<exists>p'. put_rdma_freepool x p = Inr p' \<and> freepool_ok p' \<and> free_ctxs p' = insert x (free_ctxs p) \<and> fp_cap_nr p' = fp_cap_nr p"
proof -
  have c: "fp_curr_nr p < fp_cap_nr p" "length (fp_elements p) = fp_cap_nr p" using assms(1,4) card_free_ctxs [OF assms(1)] by (simp_all add: freepool_ok_def)
  then have "take (Suc (fp_curr_nr p)) ((fp_elements p)[fp_curr_nr p := x]) = take (fp_curr_nr p) (fp_elements p) @ [x]"
    by (simp add: take_Suc_conv_app_nth)
  then show ?thesis using assms(1-3) c by (auto simp: put_rdma_freepool_def freepool_ok_def free_ctxs_def)
qed

interpretation ctxs: resource_pool freepool_ok free_ctxs fp_cap_nr get_rdma_freepool put_rdma_freepool
proof unfold_locales
  fix p assume "freepool_ok p"
  then show "finite (free_ctxs p) \<and> NULL \<notin> free_ctxs p \<and> card (free_ctxs p) \<le> fp_cap_nr p"
    using card_free_ctxs by (simp add: freepool_ok_def) (simp add: free_ctxs_def)
next
  fix p assume "freepool_ok p" "free_ctxs p = {}"
  then show "get_rdma_freepool p = Inr (NULL, p)"
    using card_free_ctxs by (fastforce simp: get_rdma_freepool_def)
qed (use get_freepool_ok put_freepool_ok in blast)+

text \<open>The pool as it is created holds one context per slot.\<close>

lemma freepool_fill_ok:
  assumes "freepool_ok p" and "fp_curr_nr p + n = fp_cap_nr p" and "\<forall>j\<in>{i..<i + n}. fst (kz j) \<noteq> NULL \<and> snd (kz j)"
    and "inj_on (\<lambda>j. fst (kz j)) {i..<i + n}" and "free_ctxs p \<inter> (\<lambda>j. fst (kz j)) ` {i..<i + n} = {}"
  shows "\<exists>p' cs'. freepool_fill n kz sz i p cs = Inr (0, p', cs') \<and> freepool_ok p' \<and> fp_cap_nr p' = fp_cap_nr p \<and>
    free_ctxs p' = free_ctxs p \<union> (\<lambda>j. fst (kz j)) ` {i..<i + n}"
  using assms
proof (induction n arbitrary: i p cs)
  case (Suc n)
  have r: "{i..<i + Suc n} = insert i {Suc i..<Suc i + n}" by auto
  have x: "fst (kz i) \<noteq> NULL" "snd (kz i)" "fst (kz i) \<notin> free_ctxs p" using Suc.prems(3,5) unfolding r by auto
  obtain p1 where p1: "put_rdma_freepool (fst (kz i)) p = Inr p1" "freepool_ok p1" "free_ctxs p1 = insert (fst (kz i)) (free_ctxs p)"
      "fp_cap_nr p1 = fp_cap_nr p" using put_freepool_ok [OF Suc.prems(1) x(3,1)] Suc.prems(2) card_free_ctxs [OF Suc.prems(1)] by auto
  have "fp_curr_nr p1 = Suc (fp_curr_nr p)" using card_free_ctxs [OF p1(2)] card_free_ctxs [OF Suc.prems(1)] x(3) ctxs.free_ok [OF Suc.prems(1)] p1(3) by simp
  then have c: "fp_curr_nr p1 + n = fp_cap_nr p1" using Suc.prems(2) p1(4) by simp
  have i: "inj_on (\<lambda>j. fst (kz j)) {Suc i..<Suc i + n}" "fst (kz i) \<notin> (\<lambda>j. fst (kz j)) ` {Suc i..<Suc i + n}"
    using Suc.prems(4) unfolding r by auto
  have g: "\<forall>j\<in>{Suc i..<Suc i + n}. fst (kz j) \<noteq> NULL \<and> snd (kz j)" using Suc.prems(3) unfolding r by blast
  have d: "free_ctxs p1 \<inter> (\<lambda>j. fst (kz j)) ` {Suc i..<Suc i + n} = {}" using Suc.prems(5) i(2) unfolding p1(3) r by auto
  show ?case using Suc.IH [OF p1(2) c g i(1) d] p1 x unfolding r by (simp add: Un_commute)
qed auto

lemma freepool_create_ok:
  assumes "\<forall>j<cap. fst (kz j) \<noteq> NULL \<and> snd (kz j)" and "inj_on (\<lambda>j. fst (kz j)) {..<cap}"
  shows "\<exists>p' cs'. rdma_freepool_create kz True cap sz p cs = Inr (0, p', cs') \<and> ctxs.shared ((\<lambda>j. fst (kz j)) ` {..<cap}) (p', {})"
proof -
  let ?p = "\<lparr>fp_cap_nr = cap, fp_curr_nr = 0, fp_elements = replicate cap NULL\<rparr>"
  have "\<exists>p' cs'. freepool_fill cap kz sz 0 ?p cs = Inr (0, p', cs') \<and> freepool_ok p' \<and> fp_cap_nr p' = fp_cap_nr ?p \<and>
    free_ctxs p' = free_ctxs ?p \<union> (\<lambda>j. fst (kz j)) ` {0..<0 + cap}"
    using assms by (intro freepool_fill_ok) (simp_all add: freepool_ok_def free_ctxs_def atLeast0LessThan)
  then obtain p' cs' where p': "freepool_fill cap kz sz 0 ?p cs = Inr (0, p', cs')" "freepool_ok p'" "fp_cap_nr p' = cap"
      "free_ctxs p' = (\<lambda>j. fst (kz j)) ` {..<cap}" by (auto simp: free_ctxs_def atLeast0LessThan)
  have "card ((\<lambda>j. fst (kz j)) ` {..<cap}) \<le> cap" using card_image_le [of "{..<cap}" "\<lambda>j. fst (kz j)"] by simp
  then have "ctxs.shared ((\<lambda>j. fst (kz j)) ` {..<cap}) (p', {})"
    using p'(2-4) assms(1) by (auto simp: ctxs.shared_def)
  then show ?thesis using p'(1) by (simp add: rdma_freepool_create_def)
qed

end
