(* ===== verification/Path_Properties.thy ===== *)
theory Path_Properties
  imports Block_Request Roundtrip Session_Properties Ctx_Pool
begin

text \<open>The properties of the data path to the remote nodes.\<close>

subsection \<open>A sample state\<close>

text \<open>
  Gigabytes 3 and 4 are placed on nodes 1 and 2. Item 900 lies inside gigabyte 3, item 901 crosses
  into gigabyte 4, item 902 lies in gigabyte 3 behind a gap; all have the entries 7 and 8.
\<close>

definition sample_node :: "nat \<Rightarrow> nat \<Rightarrow> nat \<Rightarrow> remote_block_state \<Rightarrow> kernel_cb" where
  "sample_node c i g st = (sample_cb c)\<lparr>rbh := blank_rbh\<lparr>
     remote_blocks := (replicate MAX_MR_SIZE_GB blank_block)[i := \<lparr>remote_rkey = of_nat g, remote_addr = 65536, rb_state = st,
       bitmap_g = Some (replicate BITMAP_INT_SIZE 0), rb_replica_index = 0\<rparr>],
     remote_mapped := (replicate MAX_MR_SIZE_GB RB_UNMAPPED)[i := RB_MAPPED],
     rb_idx_map := (replicate MAX_MR_SIZE_GB (- 1))[i := int g]\<rparr>\<rparr>"

definition io_session :: "remote_block_state \<Rightarrow> valet_session" where
  "io_session st = sample_session\<lparr>
     cb_index_map := [(replicate SWAPSPACE_SIZE_G NO_CB_MAPPED)[3 := 1, 4 := 2]],
     mapping_swapspace_to_rb := [(replicate SWAPSPACE_SIZE_G (- 1))[3 := 5, 4 := 7]],
     cb_state_list := [CB_IDLE, CB_MAPPED, CB_MAPPED], cb_list := [sample_cb 0, sample_node 1 5 3 st, sample_node 2 7 4 st],
     rdma_on := DEV_RDMA_ON,
     rdma_write_freepool := \<lparr>fp_cap_nr = 4, fp_curr_nr = 4, fp_elements = [601, 602, 603, 604]\<rparr>,
     rdma_read_freepool := \<lparr>fp_cap_nr = 1, fp_curr_nr = 1, fp_elements = [701]\<rparr>\<rparr>"

definition blank_ctx :: "nat \<Rightarrow> rdma_ctx" where
  "blank_ctx n = \<lparr>rdma_buf = replicate n 0, ctx_req = NULL, ctx_rb_index = - 1, ctx_cb = 0, ctx_offset = 0, ctx_len = 0,
     ctx_rb = None, sending_item = NULL, in_flight = CTX_IDLE, ctx_replica_index = 0\<rparr>"

definition io_item :: "nat \<Rightarrow> local_page_list" where
  "io_item start = \<lparr>li_ref_count = 0, li_start_index = start, li_len = 2, batch_list = [7, 8] @ replicate 126 0\<rparr>"

definition sample_io :: "remote_block_state \<Rightarrow> rdma_mem" where
  "sample_io st = \<lparr>pool = sample_pool, entries = entries sample_mem,
     items = [900 \<mapsto> io_item 786432, 901 \<mapsto> io_item 1048575, 902 \<mapsto> io_item 786440], pages = pages sample_mem, gpt_pages = [50 \<mapsto> 7, 51 \<mapsto> 8],
     gpt_init_done = 1, sess = io_session st, ctxs = [601 \<mapsto> blank_ctx 524288, 602 \<mapsto> blank_ctx 524288, 603 \<mapsto> blank_ctx 524288,
       604 \<mapsto> blank_ctx 524288, 701 \<mapsto> blank_ctx 4096],
     posted = []\<rparr>"

definition sample_ioenv :: io_env where
  "sample_ioenv = \<lparr>io_net = sample_net, io_now = (0, 0), io_post = 0\<rparr>"

lemma io_placement: "placement (io_session st) g = (if g = 3 then Some (1, 5) else if g = 4 then Some (2, 7) else None)"
  by (auto simp: placement_def io_session_def nth_list_update)

lemma io_blocks:
  "block_at (io_session st) 1 5 = \<lparr>remote_rkey = 3, remote_addr = 65536, rb_state = st, bitmap_g = Some (replicate BITMAP_INT_SIZE 0), rb_replica_index = 0\<rparr>"
  "block_at (io_session st) 2 7 = \<lparr>remote_rkey = 4, remote_addr = 65536, rb_state = st, bitmap_g = Some (replicate BITMAP_INT_SIZE 0), rb_replica_index = 0\<rparr>"
  by (simp_all add: block_at_def io_session_def sample_node_def blank_rbh_def)

lemma io_maps_ok: "maps_ok (io_session st)"
proof -
  have "session_ok (io_session st)"
    by (simp add: session_ok_def tables_ok_def io_session_def sample_node_def)
       (simp add: sample_session_defs less_3_iff all_conj_distrib flip: numeral_2_eq_2)
  moreover have "placed_ok (io_session st) 3 1 5" "placed_ok (io_session st) 4 2 7"
    by (simp_all add: placed_ok_def block_at_def) (simp_all add: io_session_def sample_session_def sample_node_def blank_rbh_def)
  ultimately show ?thesis
    by (auto simp: maps_ok_def io_placement split: if_splits) (simp_all add: tab_ok_def io_session_def)
qed

lemma io_fields [simp]:
  "sess (sample_io st) = io_session st" "items (sample_io st) 900 = Some (io_item 786432)"
  "items (sample_io st) 901 = Some (io_item 1048575)" "items (sample_io st) 902 = Some (io_item 786440)" "posted (sample_io st) = []"
  by (simp_all add: sample_io_def)

lemma io_item_simps [simp]: "li_len (io_item p) = 2" "li_start_index (io_item p) = p" "li_ref_count (io_item p) = 0"
  "length (batch_list (io_item p)) = 128" "take 2 (batch_list (io_item p)) = [7, 8]"
  by (simp_all add: io_item_def)

lemma less_2_iff: "j < (2::nat) \<longleftrightarrow> j = 0 \<or> j = 1" by auto

lemma io_pages: "item_pages (io_item p) (sample_io st) (replicate 2 (replicate 4096 0))"
  by (simp add: item_pages_def less_2_iff all_conj_distrib) (simp add: io_item_def sample_io_def sample_mem_def)

lemma io_ctxs: "write_ctx_ready 604 (blank_ctx 524288) (sample_io st)" "second_ctx_ready 604 603 (blank_ctx 524288) (sample_io st)"
  "read_ctx_ready 701 (blank_ctx 4096) (sample_io st)"
  by (simp_all add: write_ctx_ready_def second_ctx_ready_def read_ctx_ready_def sample_io_def io_session_def blank_ctx_def)

lemma io_batch: "batch_ready 2 (io_item p) (sample_io st)"
proof -
  have "pool_ok 2 (sample_io st) = pool_ok 2 sample_mem"
    by (simp add: pool_ok_def pool_shape_def pages_ok_def reclaim_ok_def free_list_def is_page_def mapped_def reclaim_contents_def
        sample_io_def) (simp add: sample_mem_def)
  moreover have "reclaim_contents (sample_io st) = [8, 7]"
    using sample_mem_lists(2) by (simp add: reclaim_contents_def sample_io_def sample_mem_def)
  ultimately show ?thesis using sample_mem_ok by (simp add: batch_ready_def) (simp add: sample_io_def sample_mem_def)
qed

subsection \<open>Writing to the remote nodes\<close>

text \<open>
  C6. A remote write of up to 128 pages whose gigabytes are placed in active blocks, with two contexts
  at hand: it succeeds, and every page is handed to the network card for its own address
  in its own block, with the bytes of the page, also when the request crosses from one
  gigabyte into the next and is split there.
\<close>

theorem remote_write_posts:
  assumes "maps_ok (sess s)" and "items s tmp = Some it" and "item_pages it s ds" and "0 < li_len it"
    and "\<forall>j<li_len it. \<exists>c i. writable (sess s) (li_start_index it + j) c i"
    and "write_ctx_ready x ctx s" and "second_ctx_ready x y ctx' s" and "io_post env = 0" and "io_post env2 = 0"
    and "sec \<noteq> NULL" and "sec \<noteq> tmp" and "length (batch_list it2) = RDMA_WR_BUF_LEN"
  shows "\<exists>s' ws. request_write env env2 (sec, it2) tmp s = Inr (0, s') \<and> posted s' = posted s @ ws \<and>
    (\<forall>j c i. j < li_len it \<longrightarrow> writable (sess s) (li_start_index it + j) c i \<longrightarrow>
      page_posted ws c (remote_rkey (block_at (sess s) c i)) (block_addr (sess s) c i (offset_of (li_start_index it + j))) (ds ! j))"
  using request_write_sent [OF assms] by blast

lemma io_writable: "writable (io_session ACTIVE) x 1 5 \<longleftrightarrow> gb_of x = 3" "writable (io_session ACTIVE) x 2 7 \<longleftrightarrow> gb_of x = 4"
  by (auto simp: writable_def io_placement io_blocks [unfolded One_nat_def])

theorem remote_write_posts_witness:
  "\<exists>s' ws. request_write sample_ioenv sample_ioenv (950, io_item 0) 901 (sample_io ACTIVE) = Inr (0, s') \<and> posted s' = ws \<and>
     page_posted ws 1 3 (block_addr (io_session ACTIVE) 1 5 (offset_of 1048575)) (replicate 4096 0) \<and>
     page_posted ws 2 4 (block_addr (io_session ACTIVE) 2 7 0) (replicate 4096 0)"
proof -
  let ?S = "io_session ACTIVE" and ?it = "io_item 1048575"
  have w: "writable ?S (1048575 + 0) 1 5" "writable ?S (1048575 + 1) 2 7" unfolding io_writable by simp_all
  then have all: "\<forall>j<li_len ?it. \<exists>c i. writable (sess (sample_io ACTIVE)) (li_start_index ?it + j) c i"
    by (auto simp: less_2_iff)
  obtain s' ws where r: "request_write sample_ioenv sample_ioenv (950, io_item 0) 901 (sample_io ACTIVE) = Inr (0, s')" "posted s' = ws"
    and p: "\<And>j c i. j < 2 \<Longrightarrow> writable ?S (1048575 + j) c i \<Longrightarrow>
      page_posted ws c (remote_rkey (block_at ?S c i)) (block_addr ?S c i (offset_of (1048575 + j))) (replicate 2 (replicate 4096 0) ! j)"
    using remote_write_posts [of "sample_io ACTIVE" 901 ?it "replicate 2 (replicate 4096 0)" 604 "blank_ctx 524288" 603
        "blank_ctx 524288" sample_ioenv sample_ioenv 950 "io_item 0"] all
    by (auto simp: io_maps_ok io_pages io_ctxs sample_ioenv_def)
  show ?thesis using r p [OF _ w(1)] p [OF _ w(2)] by (auto simp: io_blocks [unfolded One_nat_def])
qed

text \<open>The same state with the items \<open>xs\<close> on the sending list.\<close>

definition io_queue :: "ptr list \<Rightarrow> alf_queue" where
  "io_queue xs = \<lparr>q_size = 4, q_mask = 3, q_flags = 0, producer = \<lparr>head = of_nat (length xs), tail = of_nat (length xs)\<rparr>,
     consumer = \<lparr>head = 0, tail = 0\<rparr>, ring = xs @ replicate (4 - length xs) 0\<rparr>"

definition io_list :: "ptr list \<Rightarrow> remote_block_state \<Rightarrow> rdma_mem" where
  "io_list xs st = with_sending (io_queue xs) (sample_io st)"

lemma io_queue_ok: "alf_win 2 (io_queue [])" "alf_contents (io_queue []) = []" "alf_win 2 (io_queue [a, b])" "alf_contents (io_queue [a, b]) = [a, b]"
  by (simp_all add: io_queue_def alf_win_def alf_used_def alf_contents_def upt_rec)

lemma io_list_simps [simp]: "sess (io_list xs st) = io_session st" "items (io_list xs st) = items (sample_io st)"
  "sending_contents (io_list [] st) = []" "sending_contents (io_list [a, b] st) = [a, b]"
  "sending_ok 2 (io_list [] st)" "sending_ok 2 (io_list [a, b] st)" "init_done (pool (io_list xs st)) = 1"
  by (simp_all add: io_list_def sending_contents_def sending_ok_def io_queue_ok) (simp_all add: sample_io_def sample_pool_def)

lemma io_ctx_pool: "n \<le> 4 \<Longrightarrow> ctx_pool n (io_list xs st)"
  by (simp add: io_list_def ctx_pool_def sample_io_def io_session_def blank_ctx_def)

lemma io_sendable: "sendable (io_list xs ACTIVE) 900" "sendable (io_list xs ACTIVE) 901"
proof -
  have "\<exists>c i. writable (io_session ACTIVE) x c i" if "gb_of x = 3 \<or> gb_of x = 4" for x using that io_writable by blast
  then have "\<forall>j<2. \<exists>c i. writable (io_session ACTIVE) (p + j) c i" if "p = 786432 \<or> p = 1048575" for p
    using that by (auto simp: less_2_iff)
  then show "sendable (io_list xs ACTIVE) 900" "sendable (io_list xs ACTIVE) 901"
    unfolding io_list_def with_sending_frame sendable_def
    by (intro exI [of _ "io_item 786432"] exI [of _ "io_item 1048575"] exI [of _ "replicate 2 (replicate 4096 0)"]; simp add: io_pages)+
qed

lemma io_turn: "a \<noteq> 950 \<Longrightarrow> b \<noteq> 950 \<Longrightarrow> turn_ok (sample_ioenv, sample_ioenv) (950, io_item 0) {a, b}"
  by (simp add: turn_ok_def sample_ioenv_def)

text \<open>
  C5. The sender ends: with every item on the list inside active blocks and two contexts for each, as many turns
  as there are items and one more are enough; the list is empty then, and every page of every item
  has been posted to its own address, whether its item was sent alone, merged
  with its neighbours or split.
\<close>

theorem sender_drains:
  assumes "maps_ok (sess s)" and "sending_ok k s" and "ctx_pool (2 * length (sending_contents s)) s"
    and "\<forall>a\<in>set (sending_contents s). sendable s a" and "distinct (sending_contents s)"
    and "\<forall>j. turn_ok (envs j) (grants j) (set (sending_contents s))" and "length (sending_contents s) < fuel"
  shows "\<exists>s'. remote_sender_fn fuel envs grants s = Inr (0, s') \<and> sending_contents s' = [] \<and>
    (\<forall>a\<in>set (sending_contents s). \<forall>p d c i. carries s a p d \<longrightarrow> writable (sess s) p c i \<longrightarrow>
      page_posted (posted s') c (remote_rkey (block_at (sess s) c i)) (block_addr (sess s) c i (offset_of p)) d)"
  using sender_drains_list [OF assms] unfolding delivered_def .

theorem sender_drains_witness:
  "\<exists>s'. remote_sender_fn 3 (\<lambda>_. (sample_ioenv, sample_ioenv)) (\<lambda>_. (950, io_item 0)) (io_list [900, 901] ACTIVE) = Inr (0, s') \<and>
     sending_contents s' = []"
  using sender_drains [of "io_list [900, 901] ACTIVE" 2 "\<lambda>_. (sample_ioenv, sample_ioenv)" "\<lambda>_. (950, io_item 0)" 3]
  by (auto simp: io_maps_ok io_ctx_pool io_sendable io_turn)

text \<open>
  The sender does not end while a block is read-only: with two items of read-only blocks on the list that are not
  adjacent, each turn puts one back and takes the other off, so no number of turns is enough.
\<close>

theorem sender_spins:
  assumes "maps_ok (sess s)" and "sending_ok k s" and "sending_contents s = [a, b]" and "0 < k"
    and "refused s a" and "refused s b" and "not_adjacent s a b" and "not_adjacent s b a"
  shows "remote_sender_fn fuel envs grants s = Inl Hang"
  by (rule sender_fn_spins [OF assms])

theorem sender_spins_witness:
  "remote_sender_fn 1000 (\<lambda>_. (sample_ioenv, sample_ioenv)) (\<lambda>_. (950, io_item 0)) (io_list [900, 902] READONLY) = Inl Hang"
proof -
  have "refused (io_list [900, 902] READONLY) 900" unfolding refused_def
    by (intro exI [of _ "io_item 786432"] exI [of _ 1] exI [of _ 5]) (simp add: io_placement io_blocks [unfolded One_nat_def])
  moreover have "refused (io_list [900, 902] READONLY) 902" unfolding refused_def
    by (intro exI [of _ "io_item 786440"] exI [of _ 1] exI [of _ 5]) (simp add: io_placement io_blocks [unfolded One_nat_def])
  moreover have "not_adjacent (io_list [900, 902] READONLY) 900 902" "not_adjacent (io_list [900, 902] READONLY) 902 900"
    by (simp_all add: not_adjacent_def)
  ultimately show ?thesis by (intro sender_spins [of _ 2 900 902]) (simp_all add: io_maps_ok)
qed

text \<open>
  C3. A write request of the block layer from end to end: with memory for its pages, two contexts and active blocks, the
  request is answered with 0, nothing is left on the sending list, and every page has been posted to
  the address of its index with the bytes of the request.
\<close>

theorem block_write_posted:
  assumes "write_ready k j (be_item be) (be_entries be) n bufs s" and "\<forall>i<n. be_preload be i" and "0 < n"
    and "init_done (pool s) \<noteq> 0" and "sending_contents s = []" and "maps_ok (sess s)" and "ctx_pool 2 s"
    and "\<forall>i<n. \<exists>c l. writable (sess s) (pos div 8 + i) c l"
    and "\<forall>m. turn_ok (be_envs be m) (be_grants be m) {fst (be_item be)}" and "1 < be_fuel be"
  shows "\<exists>s'. valet_request be (WRITE pos n bufs) s = Inr (0, None, s') \<and> sending_contents s' = [] \<and>
    (\<forall>i<n. \<forall>c l. writable (sess s) (pos div 8 + i) c l \<longrightarrow>
       page_posted (posted s') c (remote_rkey (block_at (sess s) c l)) (block_addr (sess s) c l (offset_of (pos div 8 + i))) (bufs ! i))"
  by (rule block_write_ok [OF assms])

definition sample_be :: blk_env where
  "sample_be = \<lparr>be_item = (910, snd sample_item), be_entries = sample_entries, be_preload = (\<lambda>_. True), be_io = sample_ioenv, be_fuel = 2,
     be_envs = (\<lambda>_. (sample_ioenv, sample_ioenv)), be_grants = (\<lambda>_. (950, io_item 0))\<rparr>"

lemma io_write_ready: "write_ready 2 2 (be_item sample_be) (be_entries sample_be) 2 sample_bufs (io_list [] st)"
proof -
  have f: "gpt_pages (io_list [] st) = gpt_pages sample_gpt" "entries (io_list [] st) = entries sample_gpt" "pages (io_list [] st) = pages sample_gpt"
    "reclaim_list (pool (io_list [] st)) = reclaim_list (pool sample_gpt)" "gpt_init_done (io_list [] st) = 1"
    "pool (io_list [] st) = (pool sample_gpt)\<lparr>sending_list := Some (io_queue [])\<rparr>"
    by (simp_all add: io_list_def sample_io_def sample_gpt_def)
  have g: "gpt_ok 2 sample_gpt" "2 \<le> avail sample_gpt" "entry_grants_ok sample_entries {0..<2} sample_gpt"
    using sample_write_ready by (simp_all add: write_ready_def)
  have "pool_ok 2 (io_list [] st) = pool_ok 2 sample_gpt" "tree_ok (io_list [] st) = tree_ok sample_gpt"
    by (simp_all add: pool_ok_def pool_shape_def pages_ok_def reclaim_ok_def reclaim_contents_def free_list_def
        is_page_def mapped_def tree_ok_def f)
  then have "gpt_ok 2 (io_list [] st)" using g(1) by (simp add: gpt_ok_def)
  moreover have "avail (io_list [] st) = avail sample_gpt" by (simp add: avail_def reclaim_contents_def free_list_def f)
  moreover have "entry_grants_ok sample_entries {0..<2} (io_list [] st)" using g(3) by (simp add: entry_grants_ok_def f)
  moreover have "alf_used (io_queue []) < 2 ^ 2" by (simp add: io_queue_def alf_used_def)
  ultimately show ?thesis using g(2) io_queue_ok(1)
    by (auto simp: write_ready_def sample_be_def sample_item_def sample_bufs_def f(5,6))
qed

theorem block_write_posted_witness:
  "\<exists>s'. valet_request sample_be (WRITE 6291456 2 sample_bufs) (io_list [] ACTIVE) = Inr (0, None, s') \<and>
     page_posted (posted s') 1 3 (block_addr (io_session ACTIVE) 1 5 4096) (replicate 4096 2)"
proof -
  have w: "writable (io_session ACTIVE) (786432 + 0) 1 5" "writable (io_session ACTIVE) (786432 + 1) 1 5" unfolding io_writable by simp_all
  then have "\<forall>i<2. \<exists>c l. writable (io_session ACTIVE) (6291456 div 8 + i) c l" by (auto simp: less_2_iff)
  then obtain s' where s': "valet_request sample_be (WRITE 6291456 2 sample_bufs) (io_list [] ACTIVE) = Inr (0, None, s')"
    "\<forall>i<2. \<forall>c l. writable (io_session ACTIVE) (6291456 div 8 + i) c l \<longrightarrow>
       page_posted (posted s') c (remote_rkey (block_at (io_session ACTIVE) c l)) (block_addr (io_session ACTIVE) c l (offset_of (6291456 div 8 + i))) (sample_bufs ! i)"
    using block_write_posted [OF io_write_ready, of ACTIVE 6291456] by (auto simp: sample_be_def io_maps_ok io_ctx_pool io_turn [of 910 910, simplified])
  then show ?thesis using s'(2) [rule_format, of 1 1 5] w(2) by (auto simp: io_blocks [unfolded One_nat_def] sample_bufs_def)
qed

subsection \<open>Completion and reading back\<close>

text \<open>
  C7. What the completion of a remote write does: the bits of its pages in the bitmap of the block are set and no other
  bit changes; its entries are reclaimable, those that were not are the newest on
  the reclaim list, an entry with no other write pending is no longer marked as being updated; the
  item is freed, and the context is idle and back in its pool.
\<close>

theorem remote_write_completes:
  assumes "maps_ok (sess s)" and "placement (sess s) g = Some (c, i)" and "write_in_flight x tmp it c i p s"
    and "batch_ready k it s" and "pool_slot_free (rdma_write_freepool (sess s))"
  shows "\<exists>s'. write_done_postwork x s = Inr (0, s') \<and> write_recorded k x tmp it c i p s s'"
  by (rule write_done_ok [OF assms])

text \<open>Item 900 in flight with context 604.\<close>

abbreviation io_flight :: rdma_mem where
  "io_flight \<equiv> write_posted sample_ioenv 1 5 0 900 (io_item 786432) (replicate 2 (replicate 4096 0)) 604 (blank_ctx 524288) (sample_io ACTIVE)"

theorem remote_write_completes_witness:
  "\<exists>s'. write_done_postwork 604 io_flight = Inr (0, s') \<and> write_recorded 2 604 900 ((io_item 786432)\<lparr>li_ref_count := 0\<rparr>) 1 5 0 io_flight s'"
proof (rule remote_write_completes [where g = 3])
  have "pool_ok 2 io_flight = pool_ok 2 (sample_io ACTIVE)" by (rule pool_ok_cong) (simp_all add: write_posted_def)
  then show "batch_ready 2 ((io_item 786432)\<lparr>li_ref_count := 0\<rparr>) io_flight"
    using io_batch [of 786432 ACTIVE] by (simp add: batch_ready_def) (simp add: write_posted_def reclaim_contents_def)
qed (simp_all add: write_posted_def io_maps_ok io_placement write_in_flight_def pool_slot_free_def, simp_all add: io_session_def)

text \<open>
  C4. Round trip over the network: a request inside one gigabyte of an active block is written and its completion handled; a
  read of any of its pages then is posted, and when the memory of the node holds the bytes of the
  write, the completion of the read ends the request with the bytes of the page.
\<close>

theorem remote_roundtrip:
  assumes "maps_ok (sess s)" and "items s tmp = Some it" and "tmp \<noteq> NULL" and "item_pages it s ds" and "0 < li_len it"
    and "gb_of (li_start_index it + li_len it - 1) = gb_of (li_start_index it)"
    and "writable (sess s) (li_start_index it) c i" and "write_ctx_ready x ctx s" and "io_post env = 0"
    and "batch_ready k it s" and "read_side_ready x y cty s" and "io_post env' = 0" and "j < li_len it"
    and "length buffer = VALET_PAGE_SIZE"
  shows "\<exists>s1 s2 s3. request_write env env2 grant tmp s = Inr (0, s1) \<and> write_done_postwork x s1 = Inr (0, s2) \<and>
    request_read env' (8 * (li_start_index it + j)) req s2 = Inr (0, s3) \<and>
    page_comes_back c (remote_rkey (block_at (sess s) c i)) x y req buffer (ds ! j) s1 s2 s3"
  by (rule roundtrip_ok [OF assms])

theorem remote_roundtrip_witness:
  "\<exists>s1 s2 s3. request_write sample_ioenv sample_ioenv (950, io_item 0) 900 (sample_io ACTIVE) = Inr (0, s1) \<and>
    write_done_postwork 604 s1 = Inr (0, s2) \<and> request_read sample_ioenv (8 * (786432 + 1)) 77 s2 = Inr (0, s3) \<and>
    page_comes_back 1 3 604 701 77 (replicate 4096 9) (replicate 4096 0) s1 s2 s3"
proof -
  have "writable (io_session ACTIVE) 786432 1 5" unfolding io_writable by simp
  moreover have "read_side_ready 604 701 (blank_ctx 4096) (sample_io ACTIVE)"
    unfolding read_side_ready_def using io_ctxs(3) by simp (simp add: isRDMAon_def io_session_def)
  ultimately show ?thesis
    using remote_roundtrip [of "sample_io ACTIVE" 900 "io_item 786432" "replicate 2 (replicate 4096 0)" 1 5 604 "blank_ctx 524288" sample_ioenv 2
        701 "blank_ctx 4096" sample_ioenv 1 "replicate 4096 9" sample_ioenv "(950, io_item 0)" 77]
    by (simp add: io_maps_ok io_pages io_ctxs io_batch io_blocks [unfolded One_nat_def]) (simp add: sample_ioenv_def)
qed

text \<open>
  A read that finds its page neither in the pool nor recorded in a remote block that may be read, be it only because the
  block is read-only for a migration, is ended as a success: the block layer gets 0
  and the buffer it passed, unchanged.
\<close>

theorem read_ends_without_data:
  assumes "maps_ok (sess s)" and "gb_of x < SWAPSPACE_SIZE_G" and "gpt_init_done s \<noteq> 0"
    and "case gpt_pages s x of None \<Rightarrow> True | Some a \<Rightarrow> \<exists>e. entries s a = Some e \<and> te_page e = NULL"
    and "case placement (sess s) (gb_of x) of None \<Rightarrow> True
      | Some (c, i) \<Rightarrow> rb_state (block_at (sess s) c i) = READONLY \<or> rb_state (block_at (sess s) c i) = NONE_ALLOWED \<or>
          (\<exists>bm. bitmap_g (block_at (sess s) c i) = Some bm \<and> valet_bitmap_test bm (int (x mod PAGES_PER_GB)) = Inr False)"
  shows "valet_request be (READ (8 * x) req buffer) s = Inr (0, Some (Read_Ended buffer), s)"
proof -
  have "read_from_brd (8 * x) buffer s = Inr (Remote x)"
    using assms(3,4) by (auto simp: read_from_brd_def Let_def split: option.splits)
  then show ?thesis using request_read_not_recorded [OF assms(1,2,5), of "be_io be" req]
    by (simp add: valet_request_def radix_read_def)
qed

theorem read_ends_without_data_witness:
  "valet_request sample_be (READ (8 * 786433) 77 (replicate 4096 9)) (sample_io READONLY) = Inr (0, Some (Read_Ended (replicate 4096 9)), sample_io READONLY)"
proof (rule read_ends_without_data)
  show "case gpt_pages (sample_io READONLY) 786433 of None \<Rightarrow> True
    | Some a \<Rightarrow> \<exists>e. entries (sample_io READONLY) a = Some e \<and> te_page e = NULL" by (simp add: sample_io_def)
  show "gpt_init_done (sample_io READONLY) \<noteq> 0" by (simp add: sample_io_def)
qed (simp_all add: io_maps_ok io_placement io_blocks [unfolded One_nat_def])

subsection \<open>The pools of contexts\<close>

text \<open>
  C8. The contexts of a pool, after its creation and any number of takes and returns by its clients in any order: what is
  free and what the clients hold are the contexts created, no context is both, and a client can always
  return what it holds.
\<close>

theorem contexts_conserved:
  assumes "\<forall>j<cap. fst (kz j) \<noteq> NULL \<and> snd (kz j)" and "inj_on (\<lambda>j. fst (kz j)) {..<cap}"
  shows "\<exists>p' cs'. rdma_freepool_create kz True cap sz p cs = Inr (0, p', cs') \<and>
    (\<forall>q H. (pool_step get_rdma_freepool put_rdma_freepool)\<^sup>*\<^sup>* (p', {}) (q, H) \<longrightarrow>
      free_ctxs q \<inter> H = {} \<and> free_ctxs q \<union> H = (\<lambda>j. fst (kz j)) ` {..<cap} \<and> (\<forall>x\<in>H. \<exists>q'. put_rdma_freepool x q = Inr q'))"
proof -
  let ?A = "(\<lambda>j. fst (kz j)) ` {..<cap}"
  obtain p' cs' where p': "rdma_freepool_create kz True cap sz p cs = Inr (0, p', cs')" "ctxs.shared ?A (p', {})"
    using freepool_create_ok [OF assms] by blast
  have "free_ctxs q \<inter> H = {} \<and> free_ctxs q \<union> H = ?A \<and> (\<forall>x\<in>H. \<exists>q'. put_rdma_freepool x q = Inr q')"
    if "(pool_step get_rdma_freepool put_rdma_freepool)\<^sup>*\<^sup>* (p', {}) (q, H)" for q H
  proof -
    have sh: "ctxs.shared ?A (q, H)" by (rule ctxs.shared_reachable [OF that p'(2)])
    then have "free_ctxs q \<inter> H = {}" "free_ctxs q \<union> H = ?A" by (simp_all add: ctxs.shared_def)
    then show ?thesis using ctxs.put_room [OF sh] by blast
  qed
  then show ?thesis using p'(1) by blast
qed

theorem contexts_conserved_witness:
  "\<exists>p' cs'. rdma_freepool_create (\<lambda>i. (100 + i, True)) True 3 4096 empty_freepool Map.empty = Inr (0, p', cs') \<and>
    (\<forall>q H. (pool_step get_rdma_freepool put_rdma_freepool)\<^sup>*\<^sup>* (p', {}) (q, H) \<longrightarrow>
      free_ctxs q \<inter> H = {} \<and> free_ctxs q \<union> H = (\<lambda>j. fst (100 + j, True)) ` {..<3} \<and> (\<forall>x\<in>H. \<exists>q'. put_rdma_freepool x q = Inr q'))"
  by (rule contexts_conserved) (simp_all add: inj_on_def)

text \<open>
  C18. The slots of a pool do not name the contexts in use: after two contexts have been taken from a full pool and the first has
  come back, the second is in no slot any more. The wait for the transfers in flight of a block, which
  looks at the slots, then ends although the second may still be writing to it.
\<close>

theorem wait_misses_in_flight:
  assumes "fp_curr_nr (rdma_write_freepool (sess s)) = n" and "fp_cap_nr (rdma_write_freepool (sess s)) = n"
    and "fp_elements (rdma_write_freepool (sess s)) = es @ [a, b]" and "length es + 2 = n"
    and "a \<noteq> NULL" and "b \<noteq> NULL" and "a \<noteq> b" and "a \<notin> set es"
  shows "\<exists>s1 s2 s3. take_write_ctx s = Inr (b, s1) \<and> take_write_ctx s1 = Inr (a, s2) \<and> give_write_ctx b s2 = Inr s3 \<and>
    (\<forall>m. (\<forall>x. x \<noteq> a \<longrightarrow> \<not> ctx_active CTX_W_IN_FLIGHT rkey x (s3\<lparr>ctxs := m\<rparr>)) \<longrightarrow>
      valet_wait_in_flight_requests rkey True (s3\<lparr>ctxs := m\<rparr>) = Inr 0)"
proof -
  let ?p = "rdma_write_freepool (sess s)"
  define s3 where "s3 = s\<lparr>sess := (sess s)\<lparr>rdma_write_freepool := ?p\<lparr>fp_elements := es @ [b, b], fp_curr_nr := length es + 1\<rparr>\<rparr>\<rparr>"
  have n: "n = Suc (Suc (length es))" using assms(4) by simp
  have run: "take_write_ctx s = Inr (b, s\<lparr>sess := (sess s)\<lparr>rdma_write_freepool := ?p\<lparr>fp_curr_nr := length es + 1\<rparr>\<rparr>\<rparr>)"
    "take_write_ctx (s\<lparr>sess := (sess s)\<lparr>rdma_write_freepool := ?p\<lparr>fp_curr_nr := length es + 1\<rparr>\<rparr>\<rparr>) =
       Inr (a, s\<lparr>sess := (sess s)\<lparr>rdma_write_freepool := ?p\<lparr>fp_curr_nr := length es\<rparr>\<rparr>\<rparr>)"
    "give_write_ctx b (s\<lparr>sess := (sess s)\<lparr>rdma_write_freepool := ?p\<lparr>fp_curr_nr := length es\<rparr>\<rparr>\<rparr>) = Inr s3"
    using assms by (simp_all add: take_write_ctx_def get_rdma_freepool_def give_write_ctx_def put_rdma_freepool_def n nth_append s3_def)
  have slots: "set (take (fp_cap_nr (rdma_write_freepool (sess s3))) (fp_elements (rdma_write_freepool (sess s3)))) = set es \<union> {b}"
    using assms(2) by (simp add: s3_def n)
  have "valet_wait_in_flight_requests rkey True (s3\<lparr>ctxs := m\<rparr>) = Inr 0"
    if "\<forall>x. x \<noteq> a \<longrightarrow> \<not> ctx_active CTX_W_IN_FLIGHT rkey x (s3\<lparr>ctxs := m\<rparr>)" for m
  proof -
    have "filter (\<lambda>x. ctx_active CTX_W_IN_FLIGHT rkey x (s3\<lparr>ctxs := m\<rparr>))
        (take (fp_cap_nr (rdma_write_freepool (sess s3))) (fp_elements (rdma_write_freepool (sess s3)))) = []"
      using that assms(7,8) unfolding filter_empty_conv slots by auto
    then show ?thesis by (simp add: valet_wait_in_flight_requests_def active_transfers_def)
  qed
  then show ?thesis using run by blast
qed

theorem wait_misses_in_flight_witness:
  "\<exists>s1 s2 s3 m. take_write_ctx (sample_io ACTIVE) = Inr (604, s1) \<and> take_write_ctx s1 = Inr (603, s2) \<and> give_write_ctx 604 s2 = Inr s3 \<and>
    in_flight (the (m 603)) = CTX_W_IN_FLIGHT \<and> ctx_rb (the (m 603)) = Some (1, 5) \<and>
    valet_wait_in_flight_requests 3 True (s3\<lparr>ctxs := m\<rparr>) = Inr 0"
proof -
  define m where "m = [(603 :: ptr) \<mapsto> (blank_ctx 4096)\<lparr>in_flight := CTX_W_IN_FLIGHT, ctx_rb := Some (1, 5)\<rparr>]"
  have idle: "\<not> ctx_active CTX_W_IN_FLIGHT 3 x (s\<lparr>ctxs := m\<rparr>)" if "x \<noteq> 603" for x s
    using that by (simp add: ctx_active_def m_def)
  obtain s1 s2 s3 where "take_write_ctx (sample_io ACTIVE) = Inr (604, s1)" "take_write_ctx s1 = Inr (603, s2)" "give_write_ctx 604 s2 = Inr s3"
    "\<forall>m. (\<forall>x. x \<noteq> 603 \<longrightarrow> \<not> ctx_active CTX_W_IN_FLIGHT 3 x (s3\<lparr>ctxs := m\<rparr>)) \<longrightarrow> valet_wait_in_flight_requests 3 True (s3\<lparr>ctxs := m\<rparr>) = Inr 0"
    using wait_misses_in_flight [of "sample_io ACTIVE" 4 "[601, 602]" 603 604 3] by (auto simp: io_session_def)
  then show ?thesis using idle by (intro exI [of _ s1] exI [of _ s2] exI [of _ s3] exI [of _ m]) (simp add: m_def)
qed

end
