(* ===== verification/Diskbox.thy ===== *)
theory Diskbox
  imports Rdma_Path
begin

text \<open>
  The backup disk (diskbox.c): a block device of its own that hands requests to a disk of the kernel. Requests are appended to a list under a
  lock and a thread passes them on, one each turn. The device is used when \<open>DISKBACKUP\<close> is defined. What the kernel answers to a request for
  resources is the argument \<open>disk_env\<close>.
\<close>

subsection \<open>State\<close>

text \<open>A pointer of the kernel's objects that the code goes on to hold after it has given the object back.\<close>

datatype 'a cptr = Null | Freed | Live 'a

primrec live :: "'a cptr \<Rightarrow> 'a outcome" where
  "live Null = Inl Null_Deref"
| "live Freed = Inl Null_Deref"
| "live (Live x) = Inr x"

record gendisk =
  gd_major :: int
  gd_first_minor :: int
  gd_capacity :: u64
  gd_name :: string

text \<open>The function a request calls when it ends, with its private data.\<close>

datatype end_io = End_None | End_Request ptr | End_Ctx ptr

record bio =
  bi_sector :: u64
  bi_data :: "u8 list"
  bi_end_io :: end_io

record stackbd_t =
  sb_capacity :: u64
  sb_gd :: "gendisk cptr"
  bio_list :: "bio list"
  sb_thread :: bool
  is_active :: bool
  bdev_raw :: bool
  sb_queue :: "nat option cptr"
  submitted :: "bio list"
  io_errors :: "bio list"

text \<open>
  \<open>static stackbd_t stackbd\<close>: zero. The queue carries the limit on its requests; \<open>submitted\<close> is what has been passed to the disk, \<open>io_errors\<close>
  what has been ended with an error.
\<close>

definition zero_stackbd :: stackbd_t where
  "zero_stackbd = \<lparr>sb_capacity = 0, sb_gd = Null, bio_list = [], sb_thread = False, is_active = False, bdev_raw = False, sb_queue = Null,
     submitted = [], io_errors = []\<rparr>"

record disk_env =
  dk_queue :: bool
  dk_major :: int
  dk_gendisk :: bool
  dk_raw :: "u64 option"
  dk_thread :: bool

subsection \<open>Requests\<close>

definition bio_io_error :: "bio \<Rightarrow> stackbd_t \<Rightarrow> stackbd_t" where
  "bio_io_error b sb = sb\<lparr>io_errors := io_errors sb @ [b]\<rparr>"

definition stackbd_make_request :: "bio \<Rightarrow> stackbd_t \<Rightarrow> stackbd_t" where
  "stackbd_make_request b sb =
     (if \<not> bdev_raw sb \<or> \<not> is_active sb then bio_io_error b sb else sb\<lparr>bio_list := bio_list sb @ [b]\<rparr>)"

definition stackbd_make_request_bio :: "ptr \<Rightarrow> bio \<Rightarrow> stackbd_t \<Rightarrow> stackbd_t" where
  "stackbd_make_request_bio x b sb =
     (if \<not> bdev_raw sb \<or> \<not> is_active sb then bio_io_error b sb
      else sb\<lparr>bio_list := bio_list sb @ [b\<lparr>bi_end_io := End_Ctx x\<rparr>]\<rparr>)"

text \<open>The write of an item to the disk from the buffer of its context.\<close>

definition disk_write :: "ptr \<Rightarrow> rdma_ctx \<Rightarrow> bio \<Rightarrow> nat \<Rightarrow> nat \<Rightarrow> stackbd_t \<Rightarrow> stackbd_t outcome" where
  "disk_write x ctx cloned_bio io_size start_index sb =
     (if length (rdma_buf ctx) < io_size then Inl Out_Of_Bounds
      else Inr (stackbd_make_request_bio x
        (cloned_bio\<lparr>bi_sector := of_nat start_index * 8, bi_data := take io_size (rdma_buf ctx)\<rparr>) sb))"

text \<open>
  A request of the block layer is passed on as copies of its parts, as many as it has segments; the copy of the last one ends the request. A part
  that is not there is a \<open>NULL\<close> pointer.
\<close>

primrec clone_parts :: "nat \<Rightarrow> bio list \<Rightarrow> stackbd_t \<Rightarrow> (bio list \<times> stackbd_t) outcome" where
  "clone_parts 0 bs sb = Inr (bs, sb)"
| "clone_parts (Suc n) bs sb =
     (case bs of [] \<Rightarrow> Inl Null_Deref
      | b # bs \<Rightarrow> clone_parts n bs (sb\<lparr>bio_list := bio_list sb @ [b]\<rparr>))"

definition disk_write_bio_clone :: "ptr \<Rightarrow> bio list \<Rightarrow> nat \<Rightarrow> stackbd_t \<Rightarrow> stackbd_t outcome" where
  "disk_write_bio_clone req parts nr_phys_segments sb =
     (if \<not> bdev_raw sb \<or> \<not> is_active sb
      then (case parts of [] \<Rightarrow> Inl Null_Deref | b # _ \<Rightarrow> Inr (bio_io_error b sb))
      else bind_ok (clone_parts (nr_phys_segments - 1) parts sb) (\<lambda>(bs, sb).
        case bs of [] \<Rightarrow> Inl Null_Deref
        | b # _ \<Rightarrow> Inr (sb\<lparr>bio_list := bio_list sb @ [b\<lparr>bi_end_io := End_Request req\<rparr>]\<rparr>)))"

text \<open>One turn of the thread: nothing is waiting, or the first request goes to the disk.\<close>

definition stackbd_io_fn :: "bio \<Rightarrow> stackbd_t \<Rightarrow> stackbd_t" where
  "stackbd_io_fn b sb = sb\<lparr>submitted := submitted sb @ [b]\<rparr>"

definition stackbd_threadfn_step :: "stackbd_t \<Rightarrow> stackbd_t" where
  "stackbd_threadfn_step sb =
     (case bio_list sb of [] \<Rightarrow> sb | b # bs \<Rightarrow> stackbd_io_fn b (sb\<lparr>bio_list := bs\<rparr>))"

subsection \<open>The end of a request\<close>

definition valet_stackbd_end_io :: "ptr \<Rightarrow> int \<Rightarrow> ptr \<times> int" where
  "valet_stackbd_end_io req err = (req, err)"

text \<open>
  The end of a backup write. The item of the context is done when the disk and the nodes together have counted \<open>num_replica\<close> of their writes, and who
  counts last frees the entries, the item and the context.
\<close>

definition valet_stackbd_end_io_postwork :: "int \<Rightarrow> ptr \<Rightarrow> rdma_mem \<Rightarrow> rdma_mem outcome" where
  "valet_stackbd_end_io_postwork num_replica x s =
     (if x = NULL then Inr s
      else bind_ok (deref (ctxs s) x) (\<lambda>ctx.
        if ctx_rb ctx = None \<or> sending_item ctx = NULL then Inr s
        else bind_ok (deref (items s) (sending_item ctx)) (\<lambda>it.
          let n = li_ref_count it + 1;
              s = s\<lparr>items := (items s)(sending_item ctx \<mapsto> it\<lparr>li_ref_count := n\<rparr>)\<rparr>
          in if n < num_replica then Inr s
             else bind_ok (foldM (\<lambda>i s. bind_ok (arr_get (batch_list it) i) (\<lambda>entry. entry_written entry s))
                    [0..<li_len it] s) (\<lambda>s.
                  let s = put_free_item (sending_item ctx) s
                  in bind_ok (update_ctx x (\<lambda>c. c\<lparr>sending_item := NULL, ctx_rb_index := - 1, ctx_rb := None, in_flight := CTX_IDLE\<rparr>) s)
                       (give_write_ctx x)))))"

subsection \<open>Start and end\<close>

text \<open>
  \<open>capacity - 46139392\<close> is computed in 64 bits. When the thread cannot be made the disk is given back, but \<open>bdev_raw\<close> goes on to point
  to it.
\<close>

definition stackbd_bdev_open :: "disk_env \<Rightarrow> u64 option" where
  "stackbd_bdev_open env = dk_raw env"

definition stackbd_start :: "disk_env \<Rightarrow> stackbd_t \<Rightarrow> (int \<times> stackbd_t) outcome" where
  "stackbd_start env sb =
     (case stackbd_bdev_open env of
        None \<Rightarrow> Inr (- 14, sb\<lparr>bdev_raw := False\<rparr>)
      | Some cap \<Rightarrow>
          bind_ok (live (sb_gd sb)) (\<lambda>gd. bind_ok (live (sb_queue sb)) (\<lambda>_.
          let page_sec = VALET_PAGE_SIZE div 512;
              sb = sb\<lparr>bdev_raw := True, sb_capacity := cap, sb_gd := Live (gd\<lparr>gd_capacity := cap - 46139392\<rparr>),
                      sb_queue := Live (Some (page_sec * RDMA_WR_BUF_LEN))\<rparr>
          in if dk_thread env then Inr (0, sb\<lparr>sb_thread := True, is_active := True\<rparr>) else Inr (- 14, sb))))"

text \<open>The jump after a failed \<open>alloc_disk\<close> comes before the assignment of the error.\<close>

definition stackbd_init :: "disk_env \<Rightarrow> stackbd_t \<Rightarrow> (int \<times> stackbd_t) outcome" where
  "stackbd_init env sb =
     (if \<not> dk_queue env then Inr (- 14, sb\<lparr>sb_queue := Null\<rparr>)
      else if dk_major env < 0 then Inr (- 14, sb\<lparr>sb_queue := Freed\<rparr>)
      else if \<not> dk_gendisk env then Inr (0, sb\<lparr>sb_gd := Null, sb_queue := Freed\<rparr>)
      else
        let sb = sb\<lparr>sb_queue := Live None,
              sb_gd := Live \<lparr>gd_major = dk_major env, gd_first_minor = 0, gd_capacity = 0, gd_name = ''stackbd0''\<rparr>\<rparr>
        in bind_ok (stackbd_start env sb) (\<lambda>(ret, sb). Inr (if ret < 0 then - 1 else 0, sb)))"

definition stackbd_exit :: "stackbd_t \<Rightarrow> stackbd_t outcome" where
  "stackbd_exit sb =
     (let sb = (if is_active sb then sb\<lparr>sb_thread := False\<rparr> else sb)
      in bind_ok (live (sb_gd sb)) (\<lambda>_. bind_ok (live (sb_queue sb)) (\<lambda>_.
           Inr (sb\<lparr>sb_gd := Freed, sb_queue := Freed\<rparr>))))"

text \<open>Cylinders, heads, sectors and start; the cylinders have sixteen bits.\<close>

definition stackbd_getgeo :: "u64 \<Rightarrow> stackbd_t \<Rightarrow> u16 \<times> nat \<times> nat \<times> nat" where
  "stackbd_getgeo logical_block_size sb =
     (let s = sb_capacity sb * (logical_block_size div 512) in (ucast (drop_bit 6 (s AND NOT 0x3f)), 4, 16, 0))"


subsection \<open>Order\<close>

text \<open>What users of the disk and its thread do, one after the other.\<close>

datatype disk_op = Disk_Request bio | Disk_Backup ptr bio | Disk_Clone ptr "bio list" nat | Disk_Turn

primrec run_disk_op :: "disk_op \<Rightarrow> stackbd_t \<Rightarrow> stackbd_t outcome" where
  "run_disk_op (Disk_Request b) sb = Inr (stackbd_make_request b sb)"
| "run_disk_op (Disk_Backup x b) sb = Inr (stackbd_make_request_bio x b sb)"
| "run_disk_op (Disk_Clone req bs n) sb = disk_write_bio_clone req bs n sb"
| "run_disk_op Disk_Turn sb = Inr (stackbd_threadfn_step sb)"

text \<open>What an operation adds to the list of a device that is active.\<close>

primrec asked :: "disk_op \<Rightarrow> bio list" where
  "asked (Disk_Request b) = [b]"
| "asked (Disk_Backup x b) = [b\<lparr>bi_end_io := End_Ctx x\<rparr>]"
| "asked (Disk_Clone req bs n) = take (n - 1) bs @ [(bs ! (n - 1))\<lparr>bi_end_io := End_Request req\<rparr>]"
| "asked Disk_Turn = []"

primrec disk_op_ok :: "disk_op \<Rightarrow> bool" where
  "disk_op_ok (Disk_Request b) \<longleftrightarrow> True"
| "disk_op_ok (Disk_Backup x b) \<longleftrightarrow> True"
| "disk_op_ok (Disk_Clone req bs n) \<longleftrightarrow> 0 < n \<and> n \<le> length bs"
| "disk_op_ok Disk_Turn \<longleftrightarrow> True"

definition disk_up :: "stackbd_t \<Rightarrow> bool" where
  "disk_up sb \<longleftrightarrow> bdev_raw sb \<and> is_active sb"

lemma clone_parts_run:
  "n \<le> length bs \<Longrightarrow> clone_parts n bs sb = Inr (drop n bs, sb\<lparr>bio_list := bio_list sb @ take n bs\<rparr>)"
proof (induction n arbitrary: bs sb)
  case (Suc n)
  then obtain b cs where "bs = b # cs" "n \<le> length cs" by (cases bs) auto
  then show ?case using Suc.IH [of cs] by simp
qed simp

lemma clone_adds:
  assumes "disk_up sb" and "0 < n" "n \<le> length bs"
  shows "disk_write_bio_clone req bs n sb = Inr (sb\<lparr>bio_list := bio_list sb @ asked (Disk_Clone req bs n)\<rparr>)"
proof -
  have "drop (n - 1) bs = bs ! (n - 1) # drop n bs" using assms(2,3) by (metis Cons_nth_drop_Suc Suc_diff_1 Suc_le_lessD)
  then show ?thesis using assms clone_parts_run [of "n - 1" bs sb]
    by (simp add: disk_write_bio_clone_def disk_up_def)
qed

lemma disk_op_adds:
  assumes "disk_up sb" and "disk_op_ok oper"
  shows "\<exists>sb'. run_disk_op oper sb = Inr sb' \<and> disk_up sb' \<and> io_errors sb' = io_errors sb \<and>
    submitted sb' @ bio_list sb' = submitted sb @ bio_list sb @ asked oper \<and>
    (oper = Disk_Turn \<longrightarrow> length (bio_list sb') = length (bio_list sb) - 1)"
  using assms clone_adds [OF assms(1)]
  by (cases oper) (auto simp: disk_up_def stackbd_make_request_def stackbd_make_request_bio_def stackbd_threadfn_step_def
      stackbd_io_fn_def split: list.split)

lemma disk_ops_add:
  assumes "disk_up sb" and "\<forall>oper\<in>set ops. disk_op_ok oper"
  shows "\<exists>sb'. foldM run_disk_op ops sb = Inr sb' \<and> disk_up sb' \<and> io_errors sb' = io_errors sb \<and>
    submitted sb' @ bio_list sb' = submitted sb @ bio_list sb @ concat (map asked ops)"
  using assms
proof (induction ops arbitrary: sb)
  case (Cons oper ops)
  then obtain sb1 where sb1: "run_disk_op oper sb = Inr sb1" "disk_up sb1" "io_errors sb1 = io_errors sb"
    "submitted sb1 @ bio_list sb1 = submitted sb @ bio_list sb @ asked oper" using disk_op_adds by (metis list.set_intros(1))
  obtain sb' where "foldM run_disk_op ops sb1 = Inr sb'" "disk_up sb'" "io_errors sb' = io_errors sb1"
    "submitted sb' @ bio_list sb' = submitted sb1 @ bio_list sb1 @ concat (map asked ops)"
    using Cons.IH [OF sb1(2)] Cons.prems(2) by auto
  then show ?case using sb1 by (intro exI [of _ sb']) (simp flip: append_assoc)
qed simp

lemma disk_turns:
  "disk_up sb \<Longrightarrow> foldM run_disk_op (replicate (length (bio_list sb)) Disk_Turn) sb =
    Inr (sb\<lparr>bio_list := [], submitted := submitted sb @ bio_list sb\<rparr>)"
proof (induction "bio_list sb" arbitrary: sb)
  case (Cons b bs)
  let ?s = "stackbd_threadfn_step sb"
  have s: "?s = sb\<lparr>bio_list := bs, submitted := submitted sb @ [b]\<rparr>"
    using Cons.hyps(2) by (simp add: stackbd_threadfn_step_def stackbd_io_fn_def flip: Cons.hyps(2))
  then have "disk_up ?s" "bio_list ?s = bs" using Cons.prems by (simp_all add: disk_up_def)
  then have "foldM run_disk_op (replicate (length bs) Disk_Turn) ?s = Inr (?s\<lparr>bio_list := [], submitted := submitted ?s @ bs\<rparr>)"
    using Cons.hyps(1) [of ?s] by simp
  then show ?case using s by (simp flip: Cons.hyps(2))
qed simp

text \<open>
  The backup disk passes requests on in the order in which they were made, whoever made them and however their making and the turns of the thread
  alternate: nothing is lost, doubled or refused while the device is active, and when no more comes as many turns as there are requests waiting are enough.
\<close>

theorem disk_in_order:
  assumes "disk_up sb" and "\<forall>oper\<in>set ops. disk_op_ok oper"
  shows "\<exists>sb'. foldM run_disk_op ops sb = Inr sb' \<and> submitted sb' @ bio_list sb' = submitted sb @ bio_list sb @ concat (map asked ops) \<and>
    io_errors sb' = io_errors sb \<and>
    (\<exists>sb''. foldM run_disk_op (replicate (length (bio_list sb')) Disk_Turn) sb' = Inr sb'' \<and> bio_list sb'' = [] \<and>
       submitted sb'' = submitted sb @ bio_list sb @ concat (map asked ops))"
proof -
  obtain sb' where "foldM run_disk_op ops sb = Inr sb'" "disk_up sb'" "io_errors sb' = io_errors sb"
    "submitted sb' @ bio_list sb' = submitted sb @ bio_list sb @ concat (map asked ops)" using disk_ops_add [OF assms] by blast
  then show ?thesis using disk_turns [of sb'] by auto
qed

definition sample_bio :: "nat \<Rightarrow> bio" where
  "sample_bio n = \<lparr>bi_sector = of_nat n, bi_data = [], bi_end_io = End_None\<rparr>"

definition sample_disk_env :: disk_env where
  "sample_disk_env = \<lparr>dk_queue = True, dk_major = 252, dk_gendisk = True, dk_raw = Some 100000000, dk_thread = True\<rparr>"

definition sample_disk :: stackbd_t where
  "sample_disk = (case stackbd_init sample_disk_env zero_stackbd of Inr (_, sb) \<Rightarrow> sb | Inl _ \<Rightarrow> zero_stackbd)"

lemma sample_disk_started:
  "\<exists>sb. stackbd_init sample_disk_env zero_stackbd = Inr (0, sb) \<and> sb = sample_disk \<and> disk_up sb \<and> bio_list sb = [] \<and> submitted sb = []"
  by (simp add: sample_disk_def sample_disk_env_def stackbd_init_def stackbd_start_def stackbd_bdev_open_def disk_up_def zero_stackbd_def Let_def)

theorem disk_in_order_witness:
  "\<exists>sb' sb''. foldM run_disk_op [Disk_Request (sample_bio 1), Disk_Backup 9 (sample_bio 2), Disk_Turn, Disk_Clone 7 [sample_bio 3, sample_bio 4] 2] sample_disk = Inr sb' \<and>
    foldM run_disk_op (replicate (length (bio_list sb')) Disk_Turn) sb' = Inr sb'' \<and>
    submitted sb'' = [sample_bio 1, (sample_bio 2)\<lparr>bi_end_io := End_Ctx 9\<rparr>, sample_bio 3, (sample_bio 4)\<lparr>bi_end_io := End_Request 7\<rparr>]"
  using disk_in_order [of sample_disk "[Disk_Request (sample_bio 1), Disk_Backup 9 (sample_bio 2), Disk_Turn, Disk_Clone 7 [sample_bio 3, sample_bio 4] 2]"]
    sample_disk_started by force

text \<open>
  C40. A backup disk that could not be made counts as made: when no disk object is to be had, \<open>stackbd_init\<close> undoes what it did and returns 0. Every
  request is refused afterwards, and the end of the device works on a \<open>NULL\<close> disk.
\<close>

theorem disk_init_hides_failure:
  assumes "dk_queue env" and "0 \<le> dk_major env" and "\<not> dk_gendisk env"
  shows "\<exists>sb. stackbd_init env zero_stackbd = Inr (0, sb) \<and> (\<forall>b. bio_list (stackbd_make_request b sb) = [] \<and>
    io_errors (stackbd_make_request b sb) = [b]) \<and> stackbd_exit sb = Inl Null_Deref"
  using assms by (simp add: stackbd_init_def zero_stackbd_def stackbd_make_request_def bio_io_error_def stackbd_exit_def Let_def)

theorem disk_init_hides_failure_witness:
  "\<exists>sb. stackbd_init (sample_disk_env\<lparr>dk_gendisk := False\<rparr>) zero_stackbd = Inr (0, sb) \<and> stackbd_exit sb = Inl Null_Deref"
  using disk_init_hides_failure [of "sample_disk_env\<lparr>dk_gendisk := False\<rparr>"] by (auto simp: sample_disk_env_def)

end
