(* ===== verification/Node_Events.thy ===== *)
theory Node_Events
  imports Path_Properties Diskbox
begin

text \<open>
  What a node's connection reports to the block device (rdmabox.c): the handler of the completion queue, which takes received messages and
  finished sends, reads and writes off the queue one by one, and the handler of connection events with the failure of a node.
\<close>

subsection \<open>The completion queue\<close>

text \<open>
  A polled completion: a work request that was flushed or failed, a message with the outcome of the check of its length and of posting the next
  receive, a finished send, a read with the buffer of its request, a write, or an operation code the handler does not know.
\<close>

datatype work_completion =
    WC_Flushed
  | WC_Failed
  | WC_Recv message bool int
  | WC_Send
  | WC_Rdma_Read ptr page
  | WC_Rdma_Write ptr
  | WC_Unknown

definition node_error :: "int \<Rightarrow> rdma_mem \<Rightarrow> rdma_mem outcome" where
  "node_error c s =
     bind_ok (get_node c (sess s)) (\<lambda>cb. bind_ok (set_node c (cb\<lparr>cb_st := ERROR\<rparr>) (sess s)) (\<lambda>S. Inr (s\<lparr>sess := S\<rparr>)))"

text \<open>The loop; \<open>polled\<close> is what the poll that finds no completion returns. The requests that end come with their data.\<close>

primrec poll_loop ::
  "bool \<Rightarrow> int \<Rightarrow> work_completion list \<Rightarrow> int \<Rightarrow> (ptr \<times> page) list \<Rightarrow> rdma_mem \<Rightarrow> ((ptr \<times> page) list \<times> rdma_mem) outcome" where
  "poll_loop kz c [] polled ended s =
     (if polled \<noteq> 0 then bind_ok (node_error c s) (\<lambda>s. Inr (ended, s)) else Inr (ended, s))"
| "poll_loop kz c (wc # wcs) polled ended s =
     (case wc of
        WC_Flushed \<Rightarrow> poll_loop kz c wcs polled ended s
      | WC_Failed \<Rightarrow> bind_ok (node_error c s) (\<lambda>s. Inr (ended, s))
      | WC_Recv m len_ok repost \<Rightarrow>
          bind_ok (get_node c (sess s)) (\<lambda>cb. bind_ok (set_node c (cb\<lparr>recv_buf := m\<rparr>) (sess s)) (\<lambda>S.
          bind_ok (recv_msg_handler kz len_ok c S) (\<lambda>(ret, S).
            if ret \<noteq> 0 \<or> repost \<noteq> 0 then bind_ok (node_error c (s\<lparr>sess := S\<rparr>)) (\<lambda>s. Inr (ended, s))
            else poll_loop kz c wcs polled ended (s\<lparr>sess := S\<rparr>))))
      | WC_Send \<Rightarrow>
          bind_ok (send_done_postwork c (sess s)) (\<lambda>(ret, S).
            if ret \<noteq> 0 then bind_ok (node_error c (s\<lparr>sess := S\<rparr>)) (\<lambda>s. Inr (ended, s))
            else poll_loop kz c wcs polled ended (s\<lparr>sess := S\<rparr>))
      | WC_Rdma_Read x buffer \<Rightarrow>
          bind_ok (read_done_postwork x buffer s) (\<lambda>(e, s). poll_loop kz c wcs polled (ended @ [e]) s)
      | WC_Rdma_Write x \<Rightarrow>
          bind_ok (write_done_postwork x s) (\<lambda>(ret, s).
            if ret \<noteq> 0 then bind_ok (node_error c s) (\<lambda>s. Inr (ended, s)) else poll_loop kz c wcs polled ended s)
      | WC_Unknown \<Rightarrow> bind_ok (node_error c s) (\<lambda>s. Inr (ended, s)))"

definition rdma_cq_event_handler ::
  "bool \<Rightarrow> int \<Rightarrow> work_completion list \<Rightarrow> int \<Rightarrow> rdma_mem \<Rightarrow> ((ptr \<times> page) list \<times> rdma_mem) outcome" where
  "rdma_cq_event_handler kz c wcs polled s =
     bind_ok (get_node c (sess s)) (\<lambda>cb. if cb_st cb = ERROR then Inr ([], s) else poll_loop kz c wcs polled [] s)"

subsection \<open>The failure of a node\<close>

text \<open>
  The handler of a disconnection. The address \<open>cb_index_map + sess_rb_index\<close> it stores through is that of the pointer to a table, or beyond the array of
  these pointers: what was a table is none afterwards, and no access to it is within bounds. The loops over the two pools look at the slot \<open>i\<close> that
  the loop before them has left.
\<close>

definition store_at_table_pointer :: "int \<Rightarrow> valet_session \<Rightarrow> valet_session outcome" where
  "store_at_table_pointer sess_rb_index S =
     bind_ok (iarr_set (cb_index_map S) sess_rb_index []) (\<lambda>cm. Inr (S\<lparr>cb_index_map := cm\<rparr>))"

definition unmap_block :: "int \<Rightarrow> nat \<Rightarrow> int list \<times> valet_session \<Rightarrow> (int list \<times> valet_session) outcome" where
  "unmap_block c i = (\<lambda>(evict_list, S).
     bind_ok (get_node c S) (\<lambda>cb. let H = rbh cb in
     bind_ok (arr_get (rb_idx_map H) i) (\<lambda>sess_rb_index.
       if sess_rb_index = - 1 then Inr (evict_list, S)
       else bind_ok (iarr_set evict_list sess_rb_index 1) (\<lambda>evict_list.
         bind_ok (arr_get (remote_blocks H) i) (\<lambda>rb.
         bind_ok (case bitmap_g rb of None \<Rightarrow> Inl Null_Deref | Some bm \<Rightarrow> valet_bitmap_init bm) (\<lambda>bm.
         bind_ok (arr_set (remote_blocks H) i (rb\<lparr>bitmap_g := Some bm\<rparr>)) (\<lambda>rbs.
         bind_ok (arr_set (remote_mapped H) i RB_UNMAPPED) (\<lambda>ma.
         bind_ok (set_node c (cb\<lparr>rbh := H\<lparr>remote_blocks := rbs, remote_mapped := ma\<rparr>\<rparr>) S) (\<lambda>S.
         bind_ok (store_at_table_pointer sess_rb_index S) (\<lambda>S. Inr (evict_list, S)))))))))))"

text \<open>What the environment has: the parts of a request of the block layer with the number of their segments, and the network.\<close>

record fail_env =
  fe_parts :: "ptr \<Rightarrow> bio list"
  fe_segments :: "ptr \<Rightarrow> nat"
  fe_net :: net_env

definition end_write :: "nat \<Rightarrow> ptr list \<times> rdma_mem \<Rightarrow> (ptr list \<times> rdma_mem) outcome" where
  "end_write i = (\<lambda>(ended, s).
     bind_ok (arr_get (fp_elements (rdma_write_freepool (sess s))) i) (\<lambda>x. bind_ok (deref (ctxs s) x) (\<lambda>ctx.
       if in_flight ctx = CTX_W_IN_FLIGHT
       then bind_ok (update_ctx x (\<lambda>c. c\<lparr>in_flight := CTX_IDLE\<rparr>) s) (\<lambda>s.
              Inr (if ctx_req ctx = NULL then ended else ended @ [ctx_req ctx], s))
       else Inr (ended, s))))"

definition redo_read :: "fail_env \<Rightarrow> nat \<Rightarrow> stackbd_t \<times> rdma_mem \<Rightarrow> (stackbd_t \<times> rdma_mem) outcome" where
  "redo_read env i = (\<lambda>(sb, s).
     bind_ok (arr_get (fp_elements (rdma_read_freepool (sess s))) i) (\<lambda>x. bind_ok (deref (ctxs s) x) (\<lambda>ctx.
       if in_flight ctx = CTX_R_IN_FLIGHT
       then bind_ok (update_ctx x (\<lambda>c. c\<lparr>in_flight := CTX_IDLE\<rparr>) s) (\<lambda>s.
            bind_ok (disk_write_bio_clone (ctx_req ctx) (fe_parts env (ctx_req ctx)) (fe_segments env (ctx_req ctx)) sb) (\<lambda>sb.
            bind_ok (give_read_ctx x s) (\<lambda>s. Inr (sb, s))))
       else Inr (sb, s))))"

definition valet_disconnect_handler ::
  "fail_env \<Rightarrow> int \<Rightarrow> stackbd_t \<Rightarrow> rdma_mem \<Rightarrow> (int \<times> ptr list \<times> stackbd_t \<times> rdma_mem) outcome" where
  "valet_disconnect_handler env c sb s =
     bind_ok (get_node c (sess s)) (\<lambda>cb.
     bind_ok (iarr_get (cb_state_list (sess s)) (cb_index cb)) (\<lambda>st.
     bind_ok (iarr_set (cb_state_list (sess s)) (cb_index cb) CB_FAIL) (\<lambda>l.
     let S = (sess s)\<lparr>cb_state_list := l\<rparr> in
       if st = CB_CONNECTED then Inr (cb_index cb, [], sb, s\<lparr>sess := S\<rparr>)
       else
         bind_ok (foldM (unmap_block c) [0..<MAX_MR_SIZE_GB] (replicate SWAPSPACE_SIZE_G (- 1), S\<lparr>rdma_on := DEV_RDMA_OFF\<rparr>)) (\<lambda>(evict_list, S).
         bind_ok (get_node c S) (\<lambda>cb. bind_ok (set_node c (cb\<lparr>rbh := (rbh cb)\<lparr>block_size_gb := 0\<rparr>\<rparr>) S) (\<lambda>S.
         let s = s\<lparr>sess := S\<rparr> in
         bind_ok (foldM (\<lambda>_. end_write MAX_MR_SIZE_GB) [0..<fp_cap_nr (rdma_write_freepool S)] ([], s)) (\<lambda>(ended, s).
         bind_ok (foldM (\<lambda>_. redo_read env MAX_MR_SIZE_GB) [0..<fp_cap_nr (rdma_read_freepool S)] (sb, s)) (\<lambda>(sb, s).
         bind_ok (foldM (\<lambda>g S. if evict_list ! g = 1 then bind_ok (valet_remote_block_map (fe_net env) g S) (\<lambda>(_, S). Inr S) else Inr S)
                   [0..<SWAPSPACE_SIZE_G] ((sess s)\<lparr>rdma_on := DEV_RDMA_ON\<rparr>)) (\<lambda>S.
           Inr (0, ended, sb, s\<lparr>sess := S\<rparr>)))))))))) "

text \<open>An event of the connection manager once a node is connected: its state, and on a disconnection the handler.\<close>

definition node_event :: "fail_env \<Rightarrow> int \<Rightarrow> cm_event \<Rightarrow> stackbd_t \<Rightarrow> rdma_mem \<Rightarrow> (ptr list \<times> stackbd_t \<times> rdma_mem) outcome" where
  "node_event env c ev sb s =
     bind_ok (get_node c (sess s)) (\<lambda>cb. bind_ok (set_node c (valet_cma_event_handler ev cb) (sess s)) (\<lambda>S.
       if ev = EV_DISCONNECTED
       then bind_ok (valet_disconnect_handler env c sb (s\<lparr>sess := S\<rparr>)) (\<lambda>(_, ended, sb, s). Inr (ended, sb, s))
       else Inr ([], sb, s\<lparr>sess := S\<rparr>)))"

subsection \<open>A batch of messages\<close>

lemma foldM_keeps:
  "foldM f is s = Inr s' \<Longrightarrow> P s \<Longrightarrow> (\<And>i s s'. i \<in> set is \<Longrightarrow> f i s = Inr s' \<Longrightarrow> P s \<Longrightarrow> P s') \<Longrightarrow> P s'"
proof (induction "is" arbitrary: s)
  case (Cons i "is")
  then obtain s1 where "f i s = Inr s1" "foldM f is s1 = Inr s'" by (auto simp: bind_ok_eq_Inr)
  then show ?case using Cons by (metis list.set_intros)
qed simp

lemma get_node_bound: "get_node c S = Inr cb \<longleftrightarrow> 0 \<le> c \<and> nat c < length (cb_list S) \<and> cb = cb_list S ! nat c"
  by (auto simp: get_node_def iarr_get_def arr_get_def)

lemma set_node_get:
  assumes "set_node c cb S = Inr S'"
  shows "get_node c S' = Inr cb" and "cb_state_list S' = cb_state_list S"
  using assms by (auto simp: set_node_def get_node_def iarr_set_def iarr_get_def arr_set_def arr_get_def bind_ok_eq_Inr split: if_splits)

lemma set_node_runs: "get_node c S = Inr cb \<Longrightarrow> \<exists>S'. set_node c cb' S = Inr S'"
  by (auto simp: set_node_def get_node_def iarr_set_def iarr_get_def arr_set_def arr_get_def split: if_splits)

lemma block_install_st: "block_install kz g r i cb = Inr cb' \<Longrightarrow> cb_st cb' = cb_st cb"
  by (auto simp: block_install_def bind_ok_eq_Inr Let_def)

lemma set_mig_st: "set_mig i b cb = Inr cb' \<Longrightarrow> cb_st cb' = cb_st cb"
  by (auto simp: set_mig_def bind_ok_eq_Inr)

lemma migration_block_init_st: "valet_migration_block_init kz cb = Inr cb' \<Longrightarrow> cb_st cb' = cb_st cb"
  unfolding valet_migration_block_init_def Let_def
  by (erule foldM_keeps) (auto simp: bind_ok_eq_Inr dest!: block_install_st set_mig_st split: if_splits)

lemma evict_handler_prep_st: "evict_handler_prep cb = Inr cb' \<Longrightarrow> cb_st cb' = cb_st cb"
  unfolding evict_handler_prep_def Let_def
  by (erule foldM_keeps) (auto simp: bind_ok_eq_Inr dest!: set_mig_st)

lemma remote_block_init_loop_st:
  "remote_block_init_loop kz is c S = Inr S' \<Longrightarrow> get_node c S = Inr cb \<Longrightarrow> \<exists>cb'. get_node c S' = Inr cb' \<and> cb_st cb' = cb_st cb"
proof (induction "is")
  case (Cons i "is")
  then show ?case
    by (auto simp: bind_ok_eq_Inr Let_def dest!: set_node_get(1) block_install_st split: if_splits)
qed simp

text \<open>A message that is handled leaves the node in a state that is not \<open>ERROR\<close>.\<close>

lemma recv_msg_state:
  assumes "recv_msg_handler kz b c S = Inr (0, S')"
  shows "\<exists>cb. get_node c S' = Inr cb \<and> cb_st cb \<noteq> ERROR"
proof -
  obtain cb where cb: "get_node c S = Inr cb" using assms by (auto simp: recv_msg_handler_def bind_ok_eq_Inr)
  then have "b \<and> \<not> before_connected (cb_st cb)" using assms by (auto simp: recv_msg_handler_def split: if_splits)
  then show ?thesis using assms cb
    by (auto simp: recv_msg_handler_def valet_remote_block_init_def bind_ok_eq_Inr dest!: set_node_get(1) migration_block_init_st evict_handler_prep_st
        remote_block_init_loop_st split: msg_opcode.splits)
qed

lemma entry_written_sess: "entry_written x s = Inr s' \<Longrightarrow> sess s' = sess s"
proof -
  have u: "update_entry a f s = Inr t \<Longrightarrow> sess t = sess s" for a f and s t :: rdma_mem
    by (auto simp: update_entry_def bind_ok_eq_Inr)
  have p: "put_reclaimable_index a s = Inr (i, t) \<Longrightarrow> sess t = sess s" for a i and s t :: rdma_mem
    by (auto simp: put_reclaimable_index_def bind_ok_eq_Inr)
  assume "entry_written x s = Inr s'"
  then obtain f s1 e where s1: "update_entry x f s = Inr s1"
    "(if \<not> test_flag e RECLAIMABLE
      then bind_ok (update_entry x (set_flag RECLAIMABLE) s1) (\<lambda>s. bind_ok (put_reclaimable_index x s) (\<lambda>(err, s). Inr s))
      else Inr s1) = Inr s'"
    unfolding entry_written_def bind_ok_eq_Inr by blast
  show ?thesis using s1(2) u [OF s1(1)]
    by (cases "test_flag e RECLAIMABLE") (auto simp: bind_ok_eq_Inr dest!: u p)
qed

lemma give_write_ctx_nodes: "give_write_ctx x s = Inr s' \<Longrightarrow> cb_list (sess s') = cb_list (sess s)"
  by (auto simp: give_write_ctx_def bind_ok_eq_Inr)

lemma give_read_ctx_nodes: "give_read_ctx x s = Inr s' \<Longrightarrow> cb_list (sess s') = cb_list (sess s)"
  by (auto simp: give_read_ctx_def bind_ok_eq_Inr)

lemma update_ctx_sess: "update_ctx x f s = Inr s' \<Longrightarrow> sess s' = sess s"
  by (auto simp: update_ctx_def bind_ok_eq_Inr)

lemma entries_written_sess:
  "foldM (\<lambda>i s. bind_ok (arr_get l i) (\<lambda>entry. entry_written entry s)) is s = Inr s' \<Longrightarrow> sess s' = sess s"
  by (erule foldM_keeps) (auto simp: bind_ok_eq_Inr dest!: entry_written_sess)

lemma set_block_bitmap_st:
  assumes "set_block_bitmap b off len S = Inr S'" and "get_node c S = Inr cb"
  shows "\<exists>cb'. get_node c S' = Inr cb' \<and> cb_st cb' = cb_st cb"
  using assms
  by (auto simp: set_block_bitmap_def bind_ok_eq_Inr get_node_bound set_node_def iarr_set_def arr_set_eq_Inr nth_list_update split: if_splits)

lemma same_nodes: "cb_list S' = cb_list S \<Longrightarrow> get_node c S' = get_node c S"
  by (simp add: get_node_def)

lemma write_done_st:
  assumes "write_done_postwork x s = Inr (ret, s')" and "get_node c (sess s) = Inr cb"
  shows "\<exists>cb'. get_node c (sess s') = Inr cb' \<and> cb_st cb' = cb_st cb"
proof -
  have finish: "\<exists>cb'. get_node c (sess s') = Inr cb' \<and> cb_st cb' = cb_st cb"
    if "bind_ok (update_ctx x f t) (\<lambda>s. bind_ok (give_write_ctx x s) (\<lambda>s. Inr (0, s))) = Inr (ret, s')"
      and "set_block_bitmap b off len (sess s) = Inr (sess t)" for t f b off len
    using that set_block_bitmap_st [OF that(2) assms(2)]
    by (auto simp: bind_ok_eq_Inr dest!: give_write_ctx_nodes update_ctx_sess same_nodes [of _ _ c])
  consider "s' = s" | ctx b it where "deref (ctxs s) x = Inr ctx" "ctx_rb ctx = Some b" "x \<noteq> NULL" "sending_item ctx \<noteq> NULL"
      "deref (items s) (sending_item ctx) = Inr it"
  proof (cases "x = NULL")
    case True
    then show thesis using assms(1) that(1) by (simp add: write_done_postwork_def)
  next
    case False
    then obtain ctx where ctx: "deref (ctxs s) x = Inr ctx" using assms(1) by (auto simp: write_done_postwork_def bind_ok_eq_Inr)
    show thesis
    proof (cases "ctx_rb ctx = None \<or> sending_item ctx = NULL")
      case True
      then show thesis using assms(1) ctx False that(1) by (cases "ctx_rb ctx") (simp_all add: write_done_postwork_def)
    next
      case some: False
      then obtain b where b: "ctx_rb ctx = Some b" "sending_item ctx \<noteq> NULL" by (cases "ctx_rb ctx") auto
      then obtain it where "deref (items s) (sending_item ctx) = Inr it"
        using assms(1) ctx False by (auto simp: write_done_postwork_def bind_ok_eq_Inr)
      then show thesis using ctx b False that(2) by blast
    qed
  qed
  then show ?thesis
  proof cases
    case 1
    then show ?thesis using assms(2) by simp
  next
    case 2
    let ?s = "s\<lparr>items := (items s)(sending_item ctx \<mapsto> it\<lparr>li_ref_count := li_ref_count it + 1\<rparr>)\<rparr>"
    obtain S1 where S1: "set_block_bitmap b (ctx_offset ctx) (ctx_len ctx) (sess s) = Inr S1"
      using assms(1) 2 by (auto simp: write_done_postwork_def bind_ok_eq_Inr Let_def)
    let ?f = "\<lambda>c. c\<lparr>sending_item := NULL, ctx_rb_index := - 1, ctx_rb := None, in_flight := CTX_IDLE\<rparr>"
    have run: "write_done_postwork x s =
       (if ctx_replica_index ctx = 0 \<and> li_ref_count it + 1 < int NUM_REPLICA then Inr (0, ?s\<lparr>sess := S1\<rparr>)
        else bind_ok (if li_ref_count it + 1 \<ge> int NUM_REPLICA
             then bind_ok (foldM (\<lambda>i s. bind_ok (arr_get (batch_list it) i) (\<lambda>entry. entry_written entry s)) [0..<li_len it] (?s\<lparr>sess := S1\<rparr>))
                    (\<lambda>s. Inr (put_free_item (sending_item ctx) s))
             else Inr (?s\<lparr>sess := S1\<rparr>)) (\<lambda>s.
             bind_ok (update_ctx x ?f s) (\<lambda>s. bind_ok (give_write_ctx x s) (\<lambda>s. Inr (0, s)))))"
      using 2 S1 by (simp add: write_done_postwork_def Let_def cong: if_cong)
    consider "s' = ?s\<lparr>sess := S1\<rparr>" | t where "sess t = S1" "bind_ok (update_ctx x ?f t) (\<lambda>s. bind_ok (give_write_ctx x s) (\<lambda>s. Inr (0, s))) = Inr (ret, s')"
    proof (cases "li_ref_count it + 1 \<ge> int NUM_REPLICA")
      case True
      then obtain t where "foldM (\<lambda>i s. bind_ok (arr_get (batch_list it) i) (\<lambda>entry. entry_written entry s)) [0..<li_len it] (?s\<lparr>sess := S1\<rparr>) = Inr t"
        "bind_ok (update_ctx x ?f (put_free_item (sending_item ctx) t)) (\<lambda>s. bind_ok (give_write_ctx x s) (\<lambda>s. Inr (0, s))) = Inr (ret, s')"
        using assms(1) unfolding run by (auto simp: bind_ok_eq_Inr split: if_splits)
      then show thesis using that(2) [of "put_free_item (sending_item ctx) t"] entries_written_sess by (simp add: put_free_item_def)
    next
      case False
      then show thesis using assms(1) that(1) that(2) [of "?s\<lparr>sess := S1\<rparr>"] unfolding run by (cases "ctx_replica_index ctx = 0") simp_all
    qed
    then show ?thesis
    proof cases
      case 1
      then show ?thesis using set_block_bitmap_st [OF S1 assms(2)] by simp
    next
      case t: 2
      show ?thesis using finish [OF t(2)] S1 unfolding t(1) by blast
    qed
  qed
qed

lemma read_done_st:
  assumes "read_done_postwork x buf s = Inr (e, s')"
  shows "get_node c (sess s') = get_node c (sess s)"
  using assms
  by (auto simp: read_done_postwork_def bind_ok_eq_Inr intro!: same_nodes dest!: give_read_ctx_nodes update_ctx_sess)

lemma send_done_st:
  "send_done_postwork c S = Inr (ret, S') \<Longrightarrow> get_node c S = Inr cb \<Longrightarrow> \<exists>cb'. get_node c S' = Inr cb' \<and> cb_st cb' = cb_st cb"
  by (auto simp: send_done_postwork_def bind_ok_eq_Inr dest!: set_node_get(1) split: if_splits)

subsection \<open>A batch of completions\<close>

lemma poll_ended:
  "poll_loop kz c wcs polled ended s = bind_ok (poll_loop kz c wcs polled [] s) (\<lambda>(e, s). Inr (ended @ e, s))"
proof (induction wcs arbitrary: ended s)
  case Nil
  then show ?case by (simp add: bind_ok_assoc)
next
  case (Cons w wcs)
  show ?case
  proof (cases w)
    case (WC_Rdma_Read x buffer)
    have "poll_loop kz c wcs polled (ended @ [e]) s' =
        bind_ok (poll_loop kz c wcs polled [e] s') (\<lambda>(e, s). Inr (ended @ e, s))" for e s'
      by (subst (1 2) Cons.IH) (simp add: bind_ok_assoc case_prod_unfold)
    then show ?thesis by (simp add: WC_Rdma_Read bind_ok_assoc case_prod_unfold)
  next
    case (WC_Recv m b r)
    then show ?thesis by (simp add: bind_ok_assoc case_prod_unfold Cons.IH [of ended] bind_ok_if cong: if_cong)
  qed (use Cons.IH [of ended] in \<open>simp_all add: bind_ok_assoc case_prod_unfold bind_ok_if cong: if_cong\<close>)
qed

lemma node_error_get: "node_error c s = Inr s' \<Longrightarrow> \<exists>cb. get_node c (sess s') = Inr cb \<and> cb_st cb = ERROR"
  by (auto simp: node_error_def bind_ok_eq_Inr dest!: set_node_get(1))

text \<open>One completion, and then the rest: the rest is not looked at once the node is in error.\<close>

lemma poll_step:
  assumes "get_node c (sess s) = Inr cb" and "cb_st cb \<noteq> ERROR"
  shows "poll_loop kz c (w # wcs) polled [] s =
    bind_ok (poll_loop kz c [w] 0 [] s) (\<lambda>(e, s). bind_ok (rdma_cq_event_handler kz c wcs polled s) (\<lambda>(e', s). Inr (e @ e', s)))"
proof -
  have go: "rdma_cq_event_handler kz c wcs polled t = poll_loop kz c wcs polled [] t"
    if "get_node c (sess t) = Inr cb'" "cb_st cb' = cb_st cb" for t cb'
    using that assms(2) by (simp add: rdma_cq_event_handler_def)
  have stop: "bind_ok (bind_ok (node_error c t) (\<lambda>s. Inr ([], s)))
      (\<lambda>(e, s). bind_ok (rdma_cq_event_handler kz c wcs polled s) (\<lambda>(e', s). Inr (e @ e', s))) =
      bind_ok (node_error c t) (\<lambda>s. Inr ([], s))" for t
  proof (cases "node_error c t")
    case (Inr t')
    then obtain cb' where "get_node c (sess t') = Inr cb'" "cb_st cb' = ERROR" using node_error_get by blast
    then show ?thesis by (simp add: Inr rdma_cq_event_handler_def)
  qed simp
  have accumulate: "poll_loop kz c wcs polled e t = bind_ok (poll_loop kz c wcs polled [] t) (\<lambda>(e', s). Inr (e @ e', s))" for e t
    by (rule poll_ended)
  show ?thesis
  proof (cases w)
    case WC_Flushed
    then show ?thesis using go [OF assms(1)] accumulate [of "[]"] by simp
  next
    case (WC_Recv m b r)
    have "bind_ok (recv_msg_handler kz b c S) (\<lambda>(ret, S). if ret \<noteq> 0 \<or> r \<noteq> 0 then bind_ok (node_error c (s\<lparr>sess := S\<rparr>)) (\<lambda>s. Inr ([], s))
          else poll_loop kz c wcs polled [] (s\<lparr>sess := S\<rparr>)) =
        bind_ok (recv_msg_handler kz b c S) (\<lambda>(ret, S). bind_ok (if ret \<noteq> 0 \<or> r \<noteq> 0 then bind_ok (node_error c (s\<lparr>sess := S\<rparr>)) (\<lambda>s. Inr ([], s))
          else Inr ([], s\<lparr>sess := S\<rparr>)) (\<lambda>(e, s). bind_ok (rdma_cq_event_handler kz c wcs polled s) (\<lambda>(e', s). Inr (e @ e', s))))" for S
    proof (cases "recv_msg_handler kz b c S")
      case (Inr p)
      obtain ret S2 where p: "p = (ret, S2)" by (cases p)
      show ?thesis
      proof (cases "ret \<noteq> 0 \<or> r \<noteq> 0")
        case True
        then show ?thesis using Inr p stop [of "s\<lparr>sess := S2\<rparr>"] by simp
      next
        case False
        then obtain cb' where "get_node c S2 = Inr cb'" "cb_st cb' \<noteq> ERROR" using recv_msg_state Inr p by blast
        then show ?thesis using Inr p False by (simp add: rdma_cq_event_handler_def)
      qed
    qed simp
    then show ?thesis by (simp add: WC_Recv bind_ok_assoc case_prod_unfold cong: if_cong)
  next
    case WC_Send
    show ?thesis
    proof (cases "send_done_postwork c (sess s)")
      case (Inr p)
      obtain ret S2 where p: "p = (ret, S2)" by (cases p)
      obtain cb' where "get_node c S2 = Inr cb'" "cb_st cb' = cb_st cb" using send_done_st Inr p assms(1) by blast
      then show ?thesis using WC_Send Inr p go [of "s\<lparr>sess := S2\<rparr>"] stop [of "s\<lparr>sess := S2\<rparr>"] by simp
    qed (simp add: WC_Send)
  next
    case (WC_Rdma_Read x buffer)
    show ?thesis
    proof (cases "read_done_postwork x buffer s")
      case (Inr p)
      obtain e t where p: "p = (e, t)" by (cases p) simp
      have "get_node c (sess t) = Inr cb" using read_done_st Inr p assms(1) by auto
      then show ?thesis using WC_Rdma_Read Inr p go [of t cb] accumulate [of "[e]" t] by simp
    qed (simp add: WC_Rdma_Read)
  next
    case (WC_Rdma_Write x)
    show ?thesis
    proof (cases "write_done_postwork x s")
      case (Inr p)
      obtain ret t where p: "p = (ret, t)" by (cases p)
      obtain cb' where "get_node c (sess t) = Inr cb'" "cb_st cb' = cb_st cb" using write_done_st Inr p assms(1) by blast
      then show ?thesis using WC_Rdma_Write Inr p go [of t] stop [of t] by simp
    qed (simp add: WC_Rdma_Write)
  qed (use stop [of s] in simp_all)
qed

subsection \<open>Properties\<close>

text \<open>
  C16. The handler of the completion queue may be called for each completion or once for many: a batch is handled like its completions one by one, in
  their order, and a message or a finished send in a batch does what the model of a single message and of a single send says.
\<close>

theorem completions_one_by_one:
  "rdma_cq_event_handler kz c (w # wcs) polled s =
      bind_ok (rdma_cq_event_handler kz c [w] 0 s) (\<lambda>(e, s).
      bind_ok (rdma_cq_event_handler kz c wcs polled s) (\<lambda>(e', s). Inr (e @ e', s))) \<and>
   rdma_cq_event_handler kz c [WC_Recv m True 0] 0 s = bind_ok (recv_completion kz (c, m) (sess s)) (\<lambda>S. Inr ([], s\<lparr>sess := S\<rparr>)) \<and>
   rdma_cq_event_handler kz c [WC_Send] 0 s = bind_ok (send_completion c (sess s)) (\<lambda>S. Inr ([], s\<lparr>sess := S\<rparr>))"
proof -
  have "rdma_cq_event_handler kz c (w # wcs) polled s =
      bind_ok (rdma_cq_event_handler kz c [w] 0 s) (\<lambda>(e, s).
      bind_ok (rdma_cq_event_handler kz c wcs polled s) (\<lambda>(e', s). Inr (e @ e', s)))"
  proof (cases "get_node c (sess s)")
    case (Inr cb)
    then show ?thesis
      using poll_step [OF Inr, of kz w wcs polled] by (cases "cb_st cb = ERROR") (simp_all add: rdma_cq_event_handler_def)
  qed (simp add: rdma_cq_event_handler_def)
  moreover have "rdma_cq_event_handler kz c [WC_Recv m True 0] 0 s = bind_ok (recv_completion kz (c, m) (sess s)) (\<lambda>S. Inr ([], s\<lparr>sess := S\<rparr>))"
    by (cases "get_node c (sess s)")
      (auto simp: rdma_cq_event_handler_def recv_completion_def node_error_def bind_ok_assoc case_prod_unfold intro!: bind_ok_cong)
  moreover have "rdma_cq_event_handler kz c [WC_Send] 0 s = bind_ok (send_completion c (sess s)) (\<lambda>S. Inr ([], s\<lparr>sess := S\<rparr>))"
    by (cases "get_node c (sess s)")
      (auto simp: rdma_cq_event_handler_def send_completion_def node_error_def bind_ok_assoc case_prod_unfold intro!: bind_ok_cong)
  ultimately show ?thesis by blast
qed

subsection \<open>Node failure\<close>

text \<open>A loop in which one turn crashes and the turns before it keep an invariant or crash the same way.\<close>

lemma foldM_crash:
  assumes "P x" and "k \<in> set is" and "\<And>x. P x \<Longrightarrow> f k x = Inl e"
    and "\<And>j x. j \<in> set is \<Longrightarrow> P x \<Longrightarrow> f j x = Inl e \<or> (\<exists>x'. f j x = Inr x' \<and> P x')"
  shows "foldM f is x = Inl e"
  using assms
proof (induction "is" arbitrary: x)
  case (Cons j "is")
  show ?case
  proof (cases "j = k")
    case False
    then have "k \<in> set is" using Cons.prems(2) by simp
    have "f j x = Inl e \<or> (\<exists>x'. f j x = Inr x' \<and> P x')" using Cons.prems(1,4) by simp
    then show ?thesis using \<open>k \<in> set is\<close> Cons.IH Cons.prems(3,4) by auto
  qed (simp add: Cons.prems(1,3))
qed simp

text \<open>What the loop over the blocks of node \<open>c\<close> keeps: the map from blocks to gigabytes, and for every block in use a bitmap.\<close>

definition unmapping :: "int \<Rightarrow> int list \<Rightarrow> int list \<times> valet_session \<Rightarrow> bool" where
  "unmapping c m = (\<lambda>(ev, S). length ev = SWAPSPACE_SIZE_G \<and> length (cb_index_map S) = NUM_REPLICA \<and>
     (\<exists>cb. get_node c S = Inr cb \<and> tables_ok cb \<and> rb_idx_map (rbh cb) = m \<and>
        (\<forall>j<MAX_MR_SIZE_GB. m ! j \<noteq> - 1 \<longrightarrow> 0 \<le> m ! j \<and> m ! j < int SWAPSPACE_SIZE_G \<and>
           (\<exists>bm. bitmap_g (remote_blocks (rbh cb) ! j) = Some bm \<and> bitmap_ok bm))))"

lemma unmap_block_turn:
  assumes "unmapping c m x" and "j < MAX_MR_SIZE_GB"
  shows "unmap_block c j x = Inl Out_Of_Bounds \<or> (\<exists>x'. unmap_block c j x = Inr x' \<and> unmapping c m x')"
    and "m ! j > 0 \<Longrightarrow> unmap_block c j x = Inl Out_Of_Bounds"
proof -
  obtain ev S where x: "x = (ev, S)" by (cases x)
  obtain cb where cb: "get_node c S = Inr cb" "tables_ok cb" "rb_idx_map (rbh cb) = m" "length ev = SWAPSPACE_SIZE_G" "length (cb_index_map S) = 1"
    and used: "\<forall>j<MAX_MR_SIZE_GB. m ! j \<noteq> - 1 \<longrightarrow> 0 \<le> m ! j \<and> m ! j < int SWAPSPACE_SIZE_G \<and>
       (\<exists>bm. bitmap_g (remote_blocks (rbh cb) ! j) = Some bm \<and> bitmap_ok bm)"
    using assms(1) by (auto simp: unmapping_def x)
  have "(unmap_block c j x = Inl Out_Of_Bounds \<or> (\<exists>x'. unmap_block c j x = Inr x' \<and> unmapping c m x')) \<and>
    (m ! j > 0 \<longrightarrow> unmap_block c j x = Inl Out_Of_Bounds)"
  proof (cases "m ! j = - 1")
    case True
    then have "unmap_block c j x = Inr x" using cb assms(2) by (simp add: x unmap_block_def tables_ok_def Let_def)
    then show ?thesis using assms(1) True by simp
  next
    case False
    then obtain bm where bm: "bitmap_g (remote_blocks (rbh cb) ! j) = Some bm" "bitmap_ok bm" and g: "0 \<le> m ! j" "m ! j < int SWAPSPACE_SIZE_G"
      using used assms(2) by blast
    let ?H = "(rbh cb)\<lparr>remote_blocks := (remote_blocks (rbh cb))[j := (remote_blocks (rbh cb) ! j)\<lparr>bitmap_g := Some (replicate BITMAP_INT_SIZE 0)\<rparr>],
      remote_mapped := (remote_mapped (rbh cb))[j := RB_UNMAPPED]\<rparr>"
    obtain S' where S': "set_node c (cb\<lparr>rbh := ?H\<rparr>) S = Inr S'" using set_node_runs [OF cb(1)] by blast
    have c1: "length (cb_index_map S') = 1" using S' cb(5) by (auto simp: set_node_def bind_ok_eq_Inr)
    have "unmap_block c j x = bind_ok (store_at_table_pointer (m ! j) S') (\<lambda>S. Inr (ev[nat (m ! j) := 1], S))"
      using cb(1-4) assms(2) bm g False S' by (simp add: x unmap_block_def tables_ok_def valet_bitmap_init_def iarr_set_def Let_def)
    then have run: "unmap_block c j x = (if m ! j > 0 then Inl Out_Of_Bounds else Inr (ev[nat (m ! j) := 1], S'\<lparr>cb_index_map := (cb_index_map S')[0 := []]\<rparr>))"
      using c1 g by (auto simp: store_at_table_pointer_def iarr_set_def arr_set_def)
    have "unmapping c m (ev[nat (m ! j) := 1], S'\<lparr>cb_index_map := (cb_index_map S')[0 := []]\<rparr>)"
      using set_node_get(1) [OF S'] cb c1 used assms(2)
      by (auto simp: unmapping_def get_node_def tables_ok_def nth_list_update)
    then show ?thesis unfolding run by (metis (full_types))
  qed
  then show "unmap_block c j x = Inl Out_Of_Bounds \<or> (\<exists>x'. unmap_block c j x = Inr x' \<and> unmapping c m x')"
    and "m ! j > 0 \<Longrightarrow> unmap_block c j x = Inl Out_Of_Bounds" by blast+
qed

text \<open>
  C17. The failure of a node whose blocks are in use corrupts the session: when the connection to a node that holds a gigabyte other than the first is
  lost, the handler that should unmap its blocks stores the mark for an unmapped gigabyte outside the array of the pointers to the tables.
\<close>

theorem node_failure_corrupts:
  assumes "maps_ok (sess s)" and "placement (sess s) g = Some (c, i)" and "g \<noteq> 0" and "cb_state_list (sess s) ! c \<noteq> CB_CONNECTED"
    and "\<forall>j<MAX_MR_SIZE_GB. rb_idx_map (node_rbh (sess s) c) ! j \<noteq> - 1 \<longrightarrow> (\<exists>h. placement (sess s) h = Some (c, j))"
  shows "node_event env (int c) EV_DISCONNECTED sb s = Inl Out_Of_Bounds"
proof -
  have p: "placed_ok (sess s) h c j" if "placement (sess s) h = Some (c, j)" for h j using maps_ok_placed [OF assms(1) that] .
  have ok: "c < cb_num (sess s)" "i < MAX_MR_SIZE_GB" "rb_idx_map (node_rbh (sess s) c) ! i = int g" "cb_state_list (sess s) ! c \<noteq> CB_IDLE"
    using p [OF assms(2)] by (simp_all add: placed_ok_def)
  then have c: "c < length (cb_list (sess s))" "c < length (cb_state_list (sess s))" "cb_index (cb_list (sess s) ! c) = int c"
    "tables_ok (cb_list (sess s) ! c)" using assms(1) by (auto simp: maps_ok_def session_ok_def)
  let ?S = "(sess s)\<lparr>cb_list := (cb_list (sess s))[c := (cb_list (sess s) ! c)\<lparr>cb_st := CM_DISCONNECT\<rparr>],
    cb_state_list := (cb_state_list (sess s))[c := CB_FAIL], rdma_on := DEV_RDMA_OFF\<rparr>"
  have "\<exists>h<SWAPSPACE_SIZE_G. rb_idx_map (node_rbh (sess s) c) ! j = int h \<and> (\<exists>bm. bitmap_g (block_at (sess s) c j) = Some bm \<and> bitmap_ok bm)"
    if used: "j < MAX_MR_SIZE_GB" "rb_idx_map (node_rbh (sess s) c) ! j \<noteq> - 1" for j
  proof -
    obtain h where h: "placement (sess s) h = Some (c, j)" using assms(5) used by blast
    then have "h < SWAPSPACE_SIZE_G" by (simp add: placement_def split: if_splits)
    then show ?thesis using p [OF h] by (auto simp: placed_ok_def)
  qed
  then have "unmapping (int c) (rb_idx_map (node_rbh (sess s) c)) (replicate SWAPSPACE_SIZE_G (- 1), ?S)"
    using c assms(1) by (fastforce simp: unmapping_def maps_ok_def tab_ok_def tables_ok_def block_at_def)
  then have "foldM (unmap_block (int c)) [0..<MAX_MR_SIZE_GB] (replicate SWAPSPACE_SIZE_G (- 1), ?S) = Inl Out_Of_Bounds"
    using unmap_block_turn ok(2,3) assms(3) by (intro foldM_crash [where k = i and P = "unmapping (int c) (rb_idx_map (node_rbh (sess s) c))"]) auto
  then show ?thesis using c assms(4)
    by (simp add: node_event_def valet_disconnect_handler_def Let_def del: foldM.simps upt_rec_numeral)
qed

text \<open>
  The failure of a node that is connected and holds no block is noticed: it is marked as failed, nothing else of the session's placement changes, and it is no candidate
  when a node is chosen next.
\<close>

theorem idle_node_fails:
  assumes "session_ok (sess s)" and "c < cb_num (sess s)" and "cb_state_list (sess s) ! c = CB_CONNECTED"
  shows "\<exists>s'. node_event env (int c) EV_DISCONNECTED sb s = Inr ([], sb, s') \<and> placement (sess s') = placement (sess s) \<and>
    cb_state_list (sess s') = (cb_state_list (sess s))[c := CB_FAIL] \<and> cb_st (cb_list (sess s') ! c) = CM_DISCONNECT \<and> c \<notin> set (candidates (sess s'))"
proof -
  have c: "c < length (cb_list (sess s))" "c < length (cb_state_list (sess s))" "cb_index (cb_list (sess s) ! c) = int c"
    using assms by (auto simp: session_ok_def)
  let ?S = "(sess s)\<lparr>cb_list := (cb_list (sess s))[c := (cb_list (sess s) ! c)\<lparr>cb_st := CM_DISCONNECT\<rparr>],
    cb_state_list := (cb_state_list (sess s))[c := CB_FAIL]\<rparr>"
  have "node_event env (int c) EV_DISCONNECTED sb s = Inr ([], sb, s\<lparr>sess := ?S\<rparr>)"
    using c assms(3) by (simp add: node_event_def valet_disconnect_handler_def Let_def)
  moreover have "placement ?S = placement (sess s)" by (simp add: fun_eq_iff placement_def)
  moreover have "c \<notin> set (candidates ?S)" using c by (simp add: candidates_def)
  ultimately show ?thesis using c by (intro exI [of _ "s\<lparr>sess := ?S\<rparr>"]) simp
qed

subsection \<open>Samples\<close>

text \<open>Node 1 holds gigabyte 3 in its block 5.\<close>

theorem node_failure_corrupts_witness: "\<forall>env sb. node_event env (int 1) EV_DISCONNECTED sb (sample_io ACTIVE) = Inl Out_Of_Bounds"
proof (intro allI)
  fix env sb
  have s: "sess (sample_io ACTIVE) = io_session ACTIVE" by (simp add: sample_io_def)
  have "\<forall>j<MAX_MR_SIZE_GB. rb_idx_map (node_rbh (io_session ACTIVE) 1) ! j \<noteq> - 1 \<longrightarrow> j = 5"
    by (auto simp: io_session_def sample_node_def blank_rbh_def nth_list_update)
  then have "\<forall>j<MAX_MR_SIZE_GB. rb_idx_map (node_rbh (io_session ACTIVE) 1) ! j \<noteq> - 1 \<longrightarrow> (\<exists>h. placement (io_session ACTIVE) h = Some (1, j))"
    using io_placement [of ACTIVE 3] by auto
  moreover have "cb_state_list (io_session ACTIVE) ! 1 \<noteq> CB_CONNECTED" by (simp add: io_session_def)
  ultimately show "node_event env (int 1) EV_DISCONNECTED sb (sample_io ACTIVE) = Inl Out_Of_Bounds"
    using node_failure_corrupts [of "sample_io ACTIVE" 3 1 5 env sb] io_maps_ok [of ACTIVE] io_placement [of ACTIVE 3] unfolding s by simp
qed

theorem idle_node_fails_witness:
  "\<forall>env sb. \<exists>s'. node_event env (int 1) EV_DISCONNECTED sb ((sample_io ACTIVE)\<lparr>sess := (io_session ACTIVE)\<lparr>cb_state_list := [CB_IDLE, CB_CONNECTED, CB_MAPPED]\<rparr>\<rparr>) =
    Inr ([], sb, s') \<and> cb_state_list (sess s') = [CB_IDLE, CB_FAIL, CB_MAPPED]"
proof (intro allI)
  fix env sb
  let ?s = "(sample_io ACTIVE)\<lparr>sess := (io_session ACTIVE)\<lparr>cb_state_list := [CB_IDLE, CB_CONNECTED, CB_MAPPED]\<rparr>\<rparr>"
  have "session_ok (sess ?s)"
    by (simp add: session_ok_def tables_ok_def io_session_def sample_node_def)
       (simp add: sample_session_defs less_3_iff all_conj_distrib flip: numeral_2_eq_2)
  moreover have "1 < cb_num (sess ?s)" by (simp add: io_session_def sample_session_def)
  ultimately show "\<exists>s'. node_event env (int 1) EV_DISCONNECTED sb ?s = Inr ([], sb, s') \<and> cb_state_list (sess s') = [CB_IDLE, CB_FAIL, CB_MAPPED]"
    using idle_node_fails [of ?s 1 env sb] by auto
qed

end
