(* ===== verification/Verbs.thy ===== *)
theory Verbs
  imports Valet_Prelude
begin

text \<open>
  The objects that both programs get from the RDMA verbs library when they set up a connection: which addresses hold one, and what each of them
  refers to. The library itself is the argument \<open>L\<close>: the address of a new object and whether it refuses to give an object up. Using or destroying an
  address that holds no object is \<open>Null_Deref\<close>.
\<close>

datatype verbs_object =
    Pd
  | Channel
  | Cq "ptr option"
  | Qp ptr ptr
  | Mr ptr
  | Dma

text \<open>A completion queue may have a channel, a queue pair has a protection domain and a completion queue, a memory region a domain.\<close>

fun refers :: "verbs_object \<Rightarrow> ptr list" where
  "refers (Cq (Some ch)) = [ch]"
| "refers (Qp pd cq) = [pd, cq]"
| "refers (Mr pd) = [pd]"
| "refers _ = []"

type_synonym verbs_table = "(ptr \<times> verbs_object) list"

abbreviation holds :: "verbs_table \<Rightarrow> ptr \<rightharpoonup> verbs_object" where
  "holds T \<equiv> map_of T"

definition in_use :: "verbs_table \<Rightarrow> ptr \<Rightarrow> bool" where
  "in_use T p \<longleftrightarrow> list_ex (\<lambda>(q, ob). p \<in> set (refers ob)) T"

record verbs_lib =
  grant :: "verbs_table \<Rightarrow> ptr"
  refuses :: "verbs_table \<Rightarrow> ptr \<Rightarrow> bool"

definition use_object :: "ptr \<Rightarrow> verbs_table \<Rightarrow> unit outcome" where
  "use_object p T = (if holds T p = None then Inl Null_Deref else Inr ())"

definition create_object :: "verbs_lib \<Rightarrow> verbs_object \<Rightarrow> verbs_table \<Rightarrow> (ptr \<times> verbs_table) outcome" where
  "create_object L ob T =
     bind_ok (foldM (\<lambda>q _. use_object q T) (refers ob) ()) (\<lambda>_. Inr (grant L T, (grant L T, ob) # T))"

text \<open>The result of the call is never looked at in either program.\<close>

definition destroy_object :: "verbs_lib \<Rightarrow> ptr \<Rightarrow> verbs_table \<Rightarrow> verbs_table outcome" where
  "destroy_object L p T = bind_ok (use_object p T) (\<lambda>_. Inr (if refuses L T p then T else filter (\<lambda>e. fst e \<noteq> p) T))"

subsection \<open>What the library promises\<close>

text \<open>A new object is at an address of its own, and an object is given up unless another one refers to it.\<close>

definition lib_ok :: "verbs_lib \<Rightarrow> bool" where
  "lib_ok L \<longleftrightarrow> (\<forall>T. grant L T \<noteq> NULL \<and> holds T (grant L T) = None) \<and> (\<forall>T p. refuses L T p \<longleftrightarrow> in_use T p)"

text \<open>A table in which every reference is to an object.\<close>

definition table_ok :: "verbs_table \<Rightarrow> bool" where
  "table_ok T \<longleftrightarrow> (\<forall>e\<in>set T. \<forall>q\<in>set (refers (snd e)). holds T q \<noteq> None)"

lemma use_ok [simp]: "holds T p = Some ob \<Longrightarrow> use_object p T = Inr ()"
  by (simp add: use_object_def)

lemma use_gone [simp]: "holds T p = None \<Longrightarrow> use_object p T = Inl Null_Deref"
  by (simp add: use_object_def)

lemma use_all: "\<forall>q\<in>set qs. holds T q \<noteq> None \<Longrightarrow> foldM (\<lambda>q _. use_object q T) qs () = Inr ()"
  by (induction qs) auto

lemma use_some_gone: "\<exists>q\<in>set qs. holds T q = None \<Longrightarrow> foldM (\<lambda>q _. use_object q T) qs () = Inl Null_Deref"
  by (induction qs) (auto simp: use_object_def)

lemma create_runs:
  assumes "\<forall>q\<in>set (refers ob). holds T q \<noteq> None"
  shows "create_object L ob T = Inr (grant L T, (grant L T, ob) # T)"
  using assms by (simp add: create_object_def use_all)

lemma create_gone: "q \<in> set (refers ob) \<Longrightarrow> holds T q = None \<Longrightarrow> create_object L ob T = Inl Null_Deref"
  using use_some_gone [of "refers ob" T] by (metis create_object_def bind_ok_simps(1))

lemma created_ok: "table_ok T \<Longrightarrow> \<forall>q\<in>set (refers ob). holds T q \<noteq> None \<Longrightarrow> table_ok ((p, ob) # T)"
  by (auto simp: table_ok_def)

lemma grant_new: "lib_ok L \<Longrightarrow> holds T (grant L T) = None"
  by (simp add: lib_ok_def)

lemma grant_other: "lib_ok L \<Longrightarrow> holds T p = Some ob \<Longrightarrow> p \<noteq> grant L T"
  by (auto simp: lib_ok_def)

lemma holds_Some: "holds T p = Some ob \<Longrightarrow> (p, ob) \<in> set T"
  by (rule map_of_SomeD)

lemma in_use_iff: "in_use T p \<longleftrightarrow> (\<exists>e\<in>set T. p \<in> set (refers (snd e)))"
  by (force simp: in_use_def list_ex_iff)

lemma not_in_use_new: "table_ok T \<Longrightarrow> holds T p = None \<Longrightarrow> \<not> in_use T p"
  unfolding in_use_iff table_ok_def by blast

lemma drop_absent: "holds T p = None \<Longrightarrow> filter (\<lambda>e. fst e \<noteq> p) T = T"
  by (induction T) (auto split: if_splits)

lemma in_use_Cons: "in_use ((q, ob) # T) p \<longleftrightarrow> p \<in> set (refers ob) \<or> in_use T p"
  by (simp add: in_use_def)

text \<open>What has been created last is given up without a trace; an object that is referred to stays.\<close>

lemma destroy_last:
  assumes "lib_ok L" and "table_ok T" and "holds T p = None" and "p \<notin> set (refers ob)"
  shows "destroy_object L p ((p, ob) # T) = Inr T"
proof -
  have "\<not> refuses L ((p, ob) # T) p" using assms not_in_use_new by (simp add: lib_ok_def in_use_Cons)
  then show ?thesis using assms(3) by (simp add: destroy_object_def drop_absent)
qed

lemma destroy_used:
  assumes "lib_ok L" and "holds T p \<noteq> None" and "in_use T p"
  shows "destroy_object L p T = Inr T"
  using assms by (auto simp: destroy_object_def lib_ok_def)

lemma destroy_runs:
  assumes "holds T p \<noteq> None" shows "\<exists>T'. destroy_object L p T = Inr T'"
  using assms by (auto simp: destroy_object_def use_object_def)

lemma refs_live: "table_ok T \<Longrightarrow> holds T p = Some ob \<Longrightarrow> q \<in> set (refers ob) \<Longrightarrow> holds T q \<noteq> None"
  by (auto simp: table_ok_def dest!: holds_Some)

subsection \<open>A library\<close>

text \<open>Addresses in ascending order.\<close>

definition next_address :: "verbs_table \<Rightarrow> ptr" where
  "next_address T = foldr (\<lambda>e m. max (fst e) m) T 0 + 1"

definition counting_lib :: verbs_lib where
  "counting_lib = \<lparr>grant = next_address, refuses = in_use\<rparr>"

lemma next_address_above: "e \<in> set T \<Longrightarrow> fst e < next_address T"
  by (induction T) (auto simp: next_address_def)

lemma counting_lib_ok: "lib_ok counting_lib"
proof -
  have "holds T (next_address T) = None" for T
    using next_address_above [of "(next_address T, ob)" T for ob] by (auto simp: map_of_eq_None_iff)
  then show ?thesis by (simp add: lib_ok_def counting_lib_def next_address_def)
qed

end
