(* ===== verification/Connect_Setup.thy ===== *)
theory Connect_Setup
  imports Node_Select Verbs
begin

text \<open>
  What a connection to a node is made of (rdmabox.c): protection domain, completion queue, queue pair, memory region and DMA mappings, set up by
  \<open>connect_remote\<close> and taken down where it fails, and the work requests that are prepared for a node and for the transfer contexts.

  A pointer that the kernel answers with is null, an error in the range of \<open>IS_ERR\<close>, or an address. The key of a memory region is
  represented by the region.
\<close>

datatype vptr = VNull | VErr int | VAt ptr

definition vat :: "vptr \<Rightarrow> ptr outcome" where
  "vat v = (case v of VAt p \<Rightarrow> Inr p | _ \<Rightarrow> Inl Null_Deref)"

lemma vat_simps [simp]: "vat (VAt p) = Inr p" "vat VNull = Inl Null_Deref" "vat (VErr e) = Inl Null_Deref"
  by (simp_all add: vat_def)

abbreviation (input) MESSAGE_SIZE :: nat where "MESSAGE_SIZE \<equiv> 408"

record ib_sge =
  sg_addr :: ptr
  sg_length :: nat
  sg_lkey :: ptr

datatype wr_code = IB_WR_SEND | IB_WR_RDMA_WRITE | IB_WR_RDMA_READ

record ib_wr =
  wr_code :: wr_code
  wr_signaled :: bool
  wr_id :: ptr
  wr_sg :: ib_sge

record conn =
  cn_cq :: vptr
  cn_qp :: vptr
  cn_dma_mr :: vptr
  cn_recv_mr :: vptr
  cn_send_mr :: vptr
  cn_recv_dma :: ptr
  cn_send_dma :: ptr
  cn_rq_wr :: "ib_sge option"
  cn_sq_wr :: "ib_wr option"

text \<open>The objects there are, the protection domain of the session, and the connection of one node.\<close>

record node_setup =
  ns_table :: verbs_table
  ns_pd :: vptr
  ns_conn :: conn

text \<open>The answers of the library, 0 or a negative error.\<close>

record setup_env =
  se_pd :: int
  se_cq :: int
  se_notify :: int
  se_qp :: int
  se_mr :: int
  se_recv :: int

subsection \<open>Buffers\<close>

definition valet_setup_wr :: "conn \<Rightarrow> conn outcome" where
  "valet_setup_wr c =
     bind_ok (vat (cn_dma_mr c)) (\<lambda>mr.
       Inr (c\<lparr>cn_rq_wr := Some \<lparr>sg_addr = cn_recv_dma c, sg_length = MESSAGE_SIZE, sg_lkey = mr\<rparr>,
              cn_sq_wr := Some \<lparr>wr_code = IB_WR_SEND, wr_signaled = True, wr_id = NULL,
                wr_sg = \<lparr>sg_addr = cn_send_dma c, sg_length = MESSAGE_SIZE, sg_lkey = mr\<rparr>\<rparr>\<rparr>))"

text \<open>On an error, a region is deregistered if its pointer is neither null nor an error; later if it is not null.\<close>

definition dereg_valid :: "verbs_lib \<Rightarrow> vptr \<Rightarrow> verbs_table \<Rightarrow> verbs_table outcome" where
  "dereg_valid L v T = (case v of VAt p \<Rightarrow> destroy_object L p T | _ \<Rightarrow> Inr T)"

definition dereg_set :: "verbs_lib \<Rightarrow> vptr \<Rightarrow> verbs_table \<Rightarrow> verbs_table outcome" where
  "dereg_set L v T = (if v = VNull then Inr T else bind_ok (vat v) (\<lambda>p. destroy_object L p T))"

definition valet_setup_buffers :: "verbs_lib \<Rightarrow> setup_env \<Rightarrow> node_setup \<Rightarrow> (int \<times> node_setup) outcome" where
  "valet_setup_buffers L se N =
     bind_ok (vat (ns_pd N)) (\<lambda>pd. bind_ok (use_object pd (ns_table N)) (\<lambda>_.
     bind_ok (create_object L Dma (ns_table N)) (\<lambda>(r, T). bind_ok (create_object L Dma T) (\<lambda>(w, T).
     let c = (ns_conn N)\<lparr>cn_recv_dma := r, cn_send_dma := w\<rparr> in
       if se_mr se \<noteq> 0
       then let c = c\<lparr>cn_dma_mr := VErr (se_mr se)\<rparr> in
            bind_ok (dereg_valid L (cn_dma_mr c) T) (\<lambda>T. bind_ok (dereg_valid L (cn_recv_mr c) T) (\<lambda>T.
            bind_ok (dereg_valid L (cn_send_mr c) T) (\<lambda>T. Inr (se_mr se, N\<lparr>ns_table := T, ns_conn := c\<rparr>))))
       else bind_ok (create_object L (Mr pd) T) (\<lambda>(mr, T).
            bind_ok (valet_setup_wr (c\<lparr>cn_dma_mr := VAt mr\<rparr>)) (\<lambda>c. Inr (0, N\<lparr>ns_table := T, ns_conn := c\<rparr>)))))))"

definition valet_free_buffers :: "verbs_lib \<Rightarrow> node_setup \<Rightarrow> node_setup outcome" where
  "valet_free_buffers L N =
     (let c = ns_conn N in
      bind_ok (dereg_set L (cn_dma_mr c) (ns_table N)) (\<lambda>T. bind_ok (dereg_set L (cn_send_mr c) T) (\<lambda>T.
      bind_ok (dereg_set L (cn_recv_mr c) T) (\<lambda>T. bind_ok (vat (ns_pd N)) (\<lambda>pd. bind_ok (use_object pd T) (\<lambda>_.
      bind_ok (destroy_object L (cn_recv_dma c) T) (\<lambda>T. bind_ok (destroy_object L (cn_send_dma c) T) (\<lambda>T.
        Inr (N\<lparr>ns_table := T\<rparr>)))))))))"

subsection \<open>Queues\<close>

definition valet_create_qp :: "verbs_lib \<Rightarrow> setup_env \<Rightarrow> node_setup \<Rightarrow> (int \<times> node_setup) outcome" where
  "valet_create_qp L se N =
     bind_ok (vat (ns_pd N)) (\<lambda>pd. bind_ok (use_object pd (ns_table N)) (\<lambda>_. bind_ok (vat (cn_cq (ns_conn N))) (\<lambda>cq.
       if se_qp se \<noteq> 0 then Inr (se_qp se, N)
       else bind_ok (create_object L (Qp pd cq) (ns_table N)) (\<lambda>(qp, T).
              Inr (0, N\<lparr>ns_table := T, ns_conn := (ns_conn N)\<lparr>cn_qp := VAt qp\<rparr>\<rparr>)))))"

definition valet_free_qp :: "verbs_lib \<Rightarrow> node_setup \<Rightarrow> node_setup outcome" where
  "valet_free_qp L N =
     bind_ok (vat (cn_qp (ns_conn N))) (\<lambda>qp. bind_ok (destroy_object L qp (ns_table N)) (\<lambda>T.
     bind_ok (vat (cn_cq (ns_conn N))) (\<lambda>cq. bind_ok (destroy_object L cq T) (\<lambda>T. Inr (N\<lparr>ns_table := T\<rparr>)))))"

definition alloc_pd :: "verbs_lib \<Rightarrow> setup_env \<Rightarrow> node_setup \<Rightarrow> (int \<times> node_setup) outcome" where
  "alloc_pd L se N =
     (if ns_pd N \<noteq> VNull then Inr (0, N)
      else if se_pd se \<noteq> 0 then Inr (se_pd se, N\<lparr>ns_pd := VErr (se_pd se)\<rparr>)
      else bind_ok (create_object L Pd (ns_table N)) (\<lambda>(pd, T). Inr (0, N\<lparr>ns_table := T, ns_pd := VAt pd\<rparr>)))"

definition valet_setup_qp :: "verbs_lib \<Rightarrow> setup_env \<Rightarrow> node_setup \<Rightarrow> (int \<times> node_setup) outcome" where
  "valet_setup_qp L se N =
     bind_ok (alloc_pd L se N) (\<lambda>(ret, N).
       if ret \<noteq> 0 then Inr (ret, N)
       else if se_cq se \<noteq> 0 then Inr (se_cq se, N\<lparr>ns_conn := (ns_conn N)\<lparr>cn_cq := VErr (se_cq se)\<rparr>\<rparr>)
       else bind_ok (create_object L (Cq None) (ns_table N)) (\<lambda>(cq, T).
         let N = N\<lparr>ns_table := T, ns_conn := (ns_conn N)\<lparr>cn_cq := VAt cq\<rparr>\<rparr>;
             err2 = (\<lambda>ret N. bind_ok (destroy_object L cq (ns_table N)) (\<lambda>T. Inr (ret, N\<lparr>ns_table := T\<rparr>)))
         in if se_notify se \<noteq> 0 then err2 (se_notify se) N
            else bind_ok (valet_create_qp L se N) (\<lambda>(ret, N). if ret \<noteq> 0 then err2 ret N else Inr (0, N))))"

subsection \<open>Connecting\<close>

text \<open>\<open>connect_remote\<close> with all it sets up.\<close>

definition connect_node ::
  "verbs_lib \<Rightarrow> setup_env \<Rightarrow> connect_env \<Rightarrow> kernel_cb \<Rightarrow> node_setup \<Rightarrow> (int \<times> kernel_cb \<times> node_setup) outcome" where
  "connect_node L se ce cb N =
     bind_ok (valet_bind_client ce cb) (\<lambda>(ret, cb).
       if ret \<noteq> 0 then Inr (ret, cb, N)
       else bind_ok (valet_setup_qp L se N) (\<lambda>(ret, N).
         if ret \<noteq> 0 then Inr (ret, cb, N)
         else bind_ok (valet_setup_buffers L se N) (\<lambda>(ret, N).
           if ret \<noteq> 0 then bind_ok (valet_free_qp L N) (\<lambda>N. Inr (ret, cb, N))
           else bind_ok (vat (cn_qp (ns_conn N))) (\<lambda>_.
             if se_recv se \<noteq> 0 then bind_ok (valet_free_buffers L N) (\<lambda>N. Inr (se_recv se, cb, N))
             else bind_ok (valet_connect_client ce cb) (\<lambda>(ret, cb).
               if ret \<noteq> 0 then bind_ok (valet_free_buffers L N) (\<lambda>N. Inr (ret, cb, N)) else Inr (0, cb, N))))))"

subsection \<open>The work requests of a context\<close>

text \<open>
  The buffer of a context for writes is mapped together with its header, and two writes are chained: the data, whose completion carries the
  context, and the time. A context for reads has one request. \<open>key\<close> is the local key of the device.
\<close>

record ctx_setup =
  cx_dma :: ptr
  cx_header_dma :: ptr
  cx_chain :: "ib_wr list"

definition ctx_post_init :: "verbs_lib \<Rightarrow> ptr \<Rightarrow> bool \<Rightarrow> ptr \<Rightarrow> ctx_setup \<Rightarrow> verbs_table \<Rightarrow> (ctx_setup \<times> verbs_table) outcome" where
  "ctx_post_init L key isWrite x cx T =
     bind_ok (create_object L Dma T) (\<lambda>(d, T).
       if isWrite
       then bind_ok (create_object L Dma T) (\<lambda>(h, T).
              Inr (\<lparr>cx_dma = d, cx_header_dma = h,
                    cx_chain = [\<lparr>wr_code = IB_WR_RDMA_WRITE, wr_signaled = True, wr_id = x, wr_sg = \<lparr>sg_addr = 0, sg_length = 0, sg_lkey = key\<rparr>\<rparr>,
                                \<lparr>wr_code = IB_WR_RDMA_WRITE, wr_signaled = False, wr_id = NULL, wr_sg = \<lparr>sg_addr = 0, sg_length = 16, sg_lkey = key\<rparr>\<rparr>]\<rparr>, T))
       else Inr (cx\<lparr>cx_dma := d,
                    cx_chain := [\<lparr>wr_code = IB_WR_RDMA_READ, wr_signaled = True, wr_id = x, wr_sg = \<lparr>sg_addr = d, sg_length = VALET_PAGE_SIZE, sg_lkey = key\<rparr>\<rparr>]\<rparr>, T))"

record pools_setup =
  ps_table :: verbs_table
  ps_ctxs :: "ptr \<rightharpoonup> ctx_setup"
  ps_write_init :: bool
  ps_read_init :: bool
  ps_mig_thread :: bool

definition rdma_freepool_post_init :: "verbs_lib \<Rightarrow> ptr \<Rightarrow> rdma_freepool \<Rightarrow> bool \<Rightarrow> pools_setup \<Rightarrow> pools_setup outcome" where
  "rdma_freepool_post_init L key p isWrite P =
     bind_ok (foldM (\<lambda>i P. bind_ok (arr_get (fp_elements p) i) (\<lambda>x.
         case ps_ctxs P x of None \<Rightarrow> Inl Null_Deref
         | Some cx \<Rightarrow> bind_ok (ctx_post_init L key isWrite x cx (ps_table P)) (\<lambda>(cx, T).
             Inr (P\<lparr>ps_table := T, ps_ctxs := (ps_ctxs P)(x \<mapsto> cx)\<rparr>)))) [0..<fp_cap_nr p] P) (\<lambda>P.
       Inr (if isWrite then P\<lparr>ps_write_init := True\<rparr> else P\<lparr>ps_read_init := True\<rparr>))"

definition post_setup_connection :: "verbs_lib \<Rightarrow> ptr \<Rightarrow> valet_session \<Rightarrow> pools_setup \<Rightarrow> pools_setup outcome" where
  "post_setup_connection L key S P =
     bind_ok (if \<not> ps_write_init P then rdma_freepool_post_init L key (rdma_write_freepool S) True P else Inr P) (\<lambda>P.
     bind_ok (if \<not> ps_read_init P then rdma_freepool_post_init L key (rdma_read_freepool S) False P else Inr P) (\<lambda>P.
       Inr (P\<lparr>ps_mig_thread := True\<rparr>)))"

end
