(* ===== verification/Connect_Properties.thy ===== *)
theory Connect_Properties
  imports Connect_Setup
begin

text \<open>
  What is left of a connection to a node when it fails, stage by stage, and that the set-up with all its objects implements the coarse model of
  \<open>connect_remote\<close> the choice of a node is built on.
\<close>

subsection \<open>The stages\<close>

text \<open>A node before its connection: the session has no protection domain yet or a live one, and no region is registered for the messages.\<close>

definition setup_ready :: "node_setup \<Rightarrow> bool" where
  "setup_ready N \<longleftrightarrow> table_ok (ns_table N) \<and> (ns_pd N = VNull \<or> (\<exists>p. ns_pd N = VAt p \<and> holds (ns_table N) p = Some Pd)) \<and>
     cn_recv_mr (ns_conn N) = VNull \<and> cn_send_mr (ns_conn N) = VNull"

lemma alloc_pd_cases:
  assumes "lib_ok L" and "setup_ready N"
  obtains (failed) "ns_pd N = VNull" "se_pd se \<noteq> 0" "alloc_pd L se N = Inr (se_pd se, N\<lparr>ns_pd := VErr (se_pd se)\<rparr>)"
  | (found) p where "ns_pd N = VAt p" "holds (ns_table N) p = Some Pd" "alloc_pd L se N = Inr (0, N)"
  | (made) p where "ns_pd N = VNull" "se_pd se = 0" "p = grant L (ns_table N)"
      "alloc_pd L se N = Inr (0, N\<lparr>ns_table := (p, Pd) # ns_table N, ns_pd := VAt p\<rparr>)"
  using assms by (cases "ns_pd N") (auto simp: alloc_pd_def setup_ready_def create_runs)

text \<open>The first error of the set-up between the resolution of the route and the connection.\<close>

definition queue_error :: "setup_env \<Rightarrow> int" where
  "queue_error se = (if se_cq se \<noteq> 0 then se_cq se else if se_notify se \<noteq> 0 then se_notify se else se_qp se)"

definition domain_error :: "setup_env \<Rightarrow> int" where
  "domain_error se = (if queue_error se \<noteq> 0 then queue_error se else if se_mr se \<noteq> 0 then se_mr se else se_recv se)"

definition first_error :: "setup_env \<Rightarrow> node_setup \<Rightarrow> int" where
  "first_error se N = (if ns_pd N = VNull \<and> se_pd se \<noteq> 0 then se_pd se else domain_error se)"

text \<open>The stages on top of a protection domain \<open>p\<close>.\<close>

definition with_domain :: "node_setup \<Rightarrow> ptr \<Rightarrow> bool" where
  "with_domain N p \<longleftrightarrow> table_ok (ns_table N) \<and> ns_pd N = VAt p \<and> holds (ns_table N) p = Some Pd \<and>
     cn_recv_mr (ns_conn N) = VNull \<and> cn_send_mr (ns_conn N) = VNull"

definition with_queues :: "node_setup \<Rightarrow> ptr \<Rightarrow> ptr \<Rightarrow> ptr \<Rightarrow> verbs_table \<Rightarrow> bool" where
  "with_queues N p c q T \<longleftrightarrow> with_domain N p \<and> cn_cq (ns_conn N) = VAt c \<and> cn_qp (ns_conn N) = VAt q \<and>
     ns_table N = (q, Qp p c) # (c, Cq None) # T \<and> holds T c = None \<and> holds T q = None \<and> c \<noteq> q \<and> table_ok T \<and> holds T p = Some Pd"

lemma setup_qp_stage:
  assumes "lib_ok L" and "with_domain N p"
  shows "if queue_error se = 0
     then \<exists>N' c q. valet_setup_qp L se N = Inr (0, N') \<and> with_queues N' p c q (ns_table N)
     else \<exists>N'. valet_setup_qp L se N = Inr (queue_error se, N') \<and> ns_table N' = ns_table N \<and> ns_pd N' = ns_pd N"
proof -
  let ?T = "ns_table N"
  let ?c = "grant L ?T"
  let ?q = "grant L ((?c, Cq None) # ?T)"
  have T: "table_ok ?T" "ns_pd N = VAt p" "holds ?T p = Some Pd" using assms(2) by (simp_all add: with_domain_def)
  have pd: "alloc_pd L se N = Inr (0, N)" using T by (simp add: alloc_pd_def)
  have c: "p \<noteq> ?c" "holds ?T ?c = None" using grant_other [OF assms(1) T(3)] grant_new [OF assms(1)] by simp_all
  have q: "?q \<noteq> ?c" "holds ?T ?q = None" "p \<noteq> ?q" using grant_new [OF assms(1), of "(?c, Cq None) # ?T"] T(3) by (auto split: if_splits)
  have made: "create_object L (Cq None) ?T = Inr (?c, (?c, Cq None) # ?T)" by (simp add: create_runs)
  have qp: "create_object L (Qp p ?c) ((?c, Cq None) # ?T) = Inr (?q, (?q, Qp p ?c) # (?c, Cq None) # ?T)"
    using T(3) c(1) by (simp add: create_runs)
  have undo: "destroy_object L ?c ((?c, Cq None) # ?T) = Inr ?T" using destroy_last [OF assms(1) T(1) c(2)] by simp
  have ok: "table_ok ((?q, Qp p ?c) # (?c, Cq None) # ?T)" using T c(1) by (intro created_ok) auto
  show ?thesis
  proof (cases "queue_error se = 0")
    case True
    then have z: "se_cq se = 0" "se_notify se = 0" "se_qp se = 0" by (auto simp: queue_error_def split: if_splits)
    then have "\<exists>N'. valet_setup_qp L se N = Inr (0, N') \<and> with_queues N' p ?c ?q ?T"
      using T c q pd made qp ok assms(2)
      by (simp add: valet_setup_qp_def valet_create_qp_def with_queues_def with_domain_def)
    then show ?thesis using True by auto
  next
    case False
    then show ?thesis using T c pd made undo
      by (auto simp: valet_setup_qp_def valet_create_qp_def queue_error_def)
  qed
qed

text \<open>Buffers on top of the queues: two mappings and a region, or only the mappings.\<close>

lemma setup_buffers_stage:
  assumes "lib_ok L" and "with_domain N p" and "cn_cq (ns_conn N) = VAt c" and "cn_qp (ns_conn N) = VAt q"
  obtains r w m N' where "holds (ns_table N) r = None" "holds (ns_table N) w = None" "r \<noteq> w"
    "m \<noteq> r" "m \<noteq> w" "holds (ns_table N) m = None"
    "valet_setup_buffers L se N = Inr (se_mr se, N')" "ns_pd N' = VAt p" "cn_cq (ns_conn N') = VAt c" "cn_qp (ns_conn N') = VAt q"
    "se_mr se \<noteq> 0 \<longrightarrow> ns_table N' = (w, Dma) # (r, Dma) # ns_table N"
    "se_mr se = 0 \<longrightarrow> ns_table N' = (m, Mr p) # (w, Dma) # (r, Dma) # ns_table N"
    "se_mr se = 0 \<longrightarrow> cn_dma_mr (ns_conn N') = VAt m \<and> cn_recv_dma (ns_conn N') = r \<and> cn_send_dma (ns_conn N') = w \<and>
       cn_recv_mr (ns_conn N') = VNull \<and> cn_send_mr (ns_conn N') = VNull"
proof -
  let ?T = "ns_table N"
  let ?r = "grant L ?T"
  let ?w = "grant L ((?r, Dma) # ?T)"
  let ?m = "grant L ((?w, Dma) # (?r, Dma) # ?T)"
  have T: "ns_pd N = VAt p" "holds ?T p = Some Pd" "cn_recv_mr (ns_conn N) = VNull" "cn_send_mr (ns_conn N) = VNull"
    using assms(2) by (simp_all add: with_domain_def)
  have new: "holds ?T ?r = None" "?w \<noteq> ?r" "holds ?T ?w = None" "?m \<noteq> ?r" "?m \<noteq> ?w" "holds ?T ?m = None"
    using grant_new [OF assms(1), of ?T] grant_new [OF assms(1), of "(?r, Dma) # ?T"] grant_new [OF assms(1), of "(?w, Dma) # (?r, Dma) # ?T"]
    by (auto split: if_splits)
  have p: "p \<noteq> ?r" "p \<noteq> ?w" using T(2) new by auto
  have runs: "create_object L Dma ?T = Inr (?r, (?r, Dma) # ?T)" "create_object L Dma ((?r, Dma) # ?T) = Inr (?w, (?w, Dma) # (?r, Dma) # ?T)"
    "create_object L (Mr p) ((?w, Dma) # (?r, Dma) # ?T) = Inr (?m, (?m, Mr p) # (?w, Dma) # (?r, Dma) # ?T)"
    using T(2) p by (simp_all add: create_runs)
  show thesis
  proof (cases "se_mr se = 0")
    case True
    show thesis
      by (rule that [of ?r ?w ?m "snd (projr (valet_setup_buffers L se N))"])
         (use T new runs assms(3,4) True in \<open>simp_all add: valet_setup_buffers_def valet_setup_wr_def Let_def\<close>)
  next
    case False
    show thesis
      by (rule that [of ?r ?w ?m "snd (projr (valet_setup_buffers L se N))"])
         (use T new runs assms(3,4) False in \<open>simp_all add: valet_setup_buffers_def dereg_valid_def Let_def\<close>)
  qed
qed

lemma destroy_unused:
  "lib_ok L \<Longrightarrow> holds T p \<noteq> None \<Longrightarrow> \<not> in_use T p \<Longrightarrow> destroy_object L p T = Inr (filter (\<lambda>e. fst e \<noteq> p) T)"
  by (auto simp: destroy_object_def lib_ok_def)

text \<open>After a failure with the buffers only the queues go; after a later one only the buffers.\<close>

lemma free_qp_stage:
  assumes "lib_ok L" and "table_ok T" and "holds T c = None" and "holds T q = None" and "c \<noteq> q"
    and "ns_table N = (w, Dma) # (r, Dma) # (q, Qp p c) # (c, Cq None) # T" and "cn_cq (ns_conn N) = VAt c" and "cn_qp (ns_conn N) = VAt q"
    and "r \<notin> {c, q}" and "w \<notin> {c, q}" and "p \<noteq> q" and "q \<noteq> c"
  shows "valet_free_qp L N = Inr (N\<lparr>ns_table := (w, Dma) # (r, Dma) # T\<rparr>)"
proof -
  have "\<not> in_use (ns_table N) q" "\<not> in_use ((w, Dma) # (r, Dma) # (c, Cq None) # T) c"
    using assms not_in_use_new [OF assms(2)] by (auto simp: in_use_Cons)
  then show ?thesis
    using assms destroy_unused [OF assms(1), of "ns_table N" q] destroy_unused [OF assms(1), of "(w, Dma) # (r, Dma) # (c, Cq None) # T" c]
    by (simp add: valet_free_qp_def drop_absent)
qed

lemma free_buffers_stage:
  assumes "lib_ok L" and "table_ok T" and "ns_pd N = VAt p" and "holds T p = Some Pd"
    and "ns_table N = (m, Mr p) # (w, Dma) # (r, Dma) # T" and "holds T r = None" and "holds T w = None" and "holds T m = None"
    and "r \<noteq> w" and "m \<noteq> r" and "m \<noteq> w" and "cn_dma_mr (ns_conn N) = VAt m" and "cn_recv_mr (ns_conn N) = VNull"
    and "cn_send_mr (ns_conn N) = VNull" and "cn_recv_dma (ns_conn N) = r" and "cn_send_dma (ns_conn N) = w"
  shows "valet_free_buffers L N = Inr (N\<lparr>ns_table := T\<rparr>)"
proof -
  have p: "p \<noteq> r" "p \<noteq> w" "p \<noteq> m" using assms(4,6-8) by auto
  have ok: "table_ok ((w, Dma) # (r, Dma) # T)" "table_ok ((w, Dma) # T)" using assms(2) by (auto intro!: created_ok)
  have "\<not> in_use (ns_table N) m" "\<not> in_use ((w, Dma) # (r, Dma) # T) r" "\<not> in_use ((w, Dma) # T) w"
    using assms p not_in_use_new [OF assms(2)] by (auto simp: in_use_Cons)
  then show ?thesis
    using assms p destroy_unused [OF assms(1), of "ns_table N" m] destroy_unused [OF assms(1), of "(w, Dma) # (r, Dma) # T" r]
      destroy_unused [OF assms(1), of "(w, Dma) # T" w]
    by (simp add: valet_free_buffers_def dereg_set_def drop_absent)
qed

subsection \<open>What is left\<close>

text \<open>The objects left at a stage, on top of those there were.\<close>

definition left_over :: "setup_env \<Rightarrow> ptr \<Rightarrow> int \<Rightarrow> verbs_table \<Rightarrow> verbs_table \<Rightarrow> bool" where
  "left_over se p ret T T' \<longleftrightarrow>
     (if queue_error se \<noteq> 0 then T' = T
      else if se_mr se \<noteq> 0 then \<exists>r w. T' = (w, Dma) # (r, Dma) # T
      else \<exists>c q. let Q = (q, Qp p c) # (c, Cq None) # T in
             T' = Q \<and> ret \<noteq> 0 \<or> (\<exists>m r w. T' = (m, Mr p) # (w, Dma) # (r, Dma) # Q) \<and> ret = 0)"

lemma connect_outcome:
  assumes "lib_ok L" and "with_domain N p" and "valet_bind_client ce cb = Inr (0, cb1)"
  shows "if domain_error se \<noteq> 0 then \<exists>N'. connect_node L se ce cb N = Inr (domain_error se, cb1, N') \<and> left_over se p (domain_error se) (ns_table N) (ns_table N')
    else \<exists>F. connect_node L se ce cb N = bind_ok (valet_connect_client ce cb1) (\<lambda>(ret, cb). Inr (ret, cb, F ret)) \<and>
           (\<forall>ret. left_over se p ret (ns_table N) (ns_table (F ret)))"
proof (cases "queue_error se = 0")
  case False
  then obtain N' where "valet_setup_qp L se N = Inr (queue_error se, N')" "ns_table N' = ns_table N"
    using setup_qp_stage [OF assms(1,2), of se] by auto
  then show ?thesis using False assms(3) by (auto simp: domain_error_def connect_node_def left_over_def)
next
  case True
  let ?T = "ns_table N"
  obtain N1 c q where qp: "valet_setup_qp L se N = Inr (0, N1)" and w1: "with_queues N1 p c q ?T"
    using setup_qp_stage [OF assms(1,2), of se] True by auto
  have N1: "with_domain N1 p" "cn_cq (ns_conn N1) = VAt c" "cn_qp (ns_conn N1) = VAt q" "ns_table N1 = (q, Qp p c) # (c, Cq None) # ?T"
    "holds ?T c = None" "holds ?T q = None" "c \<noteq> q" "table_ok ?T" "holds ?T p = Some Pd"
    using w1 by (simp_all add: with_queues_def)
  then have pq: "p \<noteq> q" by auto
  obtain r w m N2 where st: "holds (ns_table N1) r = None" "holds (ns_table N1) w = None" "r \<noteq> w" "m \<noteq> r" "m \<noteq> w" "holds (ns_table N1) m = None"
    and run: "valet_setup_buffers L se N1 = Inr (se_mr se, N2)"
    and N2: "ns_pd N2 = VAt p" "cn_cq (ns_conn N2) = VAt c" "cn_qp (ns_conn N2) = VAt q"
    "se_mr se \<noteq> 0 \<longrightarrow> ns_table N2 = (w, Dma) # (r, Dma) # ns_table N1"
    "se_mr se = 0 \<longrightarrow> ns_table N2 = (m, Mr p) # (w, Dma) # (r, Dma) # ns_table N1"
    "se_mr se = 0 \<longrightarrow> cn_dma_mr (ns_conn N2) = VAt m \<and> cn_recv_dma (ns_conn N2) = r \<and> cn_send_dma (ns_conn N2) = w \<and>
       cn_recv_mr (ns_conn N2) = VNull \<and> cn_send_mr (ns_conn N2) = VNull"
    by (rule setup_buffers_stage [OF assms(1) N1(1-3), of se])
  have distinct: "r \<notin> {c, q}" "w \<notin> {c, q}" using st(1,2) N1(4) by (auto split: if_splits)
  show ?thesis
  proof (cases "se_mr se = 0")
    case False
    have "valet_free_qp L N2 = Inr (N2\<lparr>ns_table := (w, Dma) # (r, Dma) # ?T\<rparr>)"
      using free_qp_stage [OF assms(1) N1(8,5,6,7), of N2 w r p] N2 N1(4) False distinct pq N1(7) by simp
    then show ?thesis using qp run False True assms(3) by (auto simp: domain_error_def connect_node_def left_over_def)
  next
    case mr: True
    have "valet_free_buffers L N2 = Inr (N2\<lparr>ns_table := ns_table N1\<rparr>)"
      using N1(1) st mr N2 by (intro free_buffers_stage [OF assms(1), of "ns_table N1" N2 p m w r]) (simp_all add: with_domain_def)
    then show ?thesis
      using qp run mr True assms(3) N2(1-3,5) N1(4)
      by (cases "se_recv se = 0")
         (auto simp: domain_error_def connect_node_def left_over_def Let_def intro!: exI [of _ "\<lambda>ret. if ret \<noteq> 0 then N2\<lparr>ns_table := ns_table N1\<rparr> else N2"]
           bind_ok_cong split: if_splits)
  qed
qed

text \<open>A set-up that finds no protection domain goes on as one that has made it.\<close>

lemma connect_with_domain:
  assumes "alloc_pd L se N = Inr (0, M)" and "ns_pd M = VAt p"
  shows "connect_node L se ce cb N = bind_ok (valet_bind_client ce cb) (\<lambda>(ret, cb1). if ret \<noteq> 0 then Inr (ret, cb1, N) else connect_node L se ce cb M)"
proof -
  have "alloc_pd L se M = Inr (0, M)" using assms(2) by (simp add: alloc_pd_def)
  then have "valet_setup_qp L se N = valet_setup_qp L se M" using assms(1) by (simp add: valet_setup_qp_def)
  then show ?thesis unfolding connect_node_def by (cases "valet_bind_client ce cb") auto
qed

lemma domain_stage:
  assumes "lib_ok L" and "setup_ready N"
  obtains (failed) "ns_pd N = VNull" "se_pd se \<noteq> 0" "first_error se N = se_pd se"
      "valet_setup_qp L se N = Inr (se_pd se, N\<lparr>ns_pd := VErr (se_pd se)\<rparr>)"
  | (domain) M p where "alloc_pd L se N = Inr (0, M)" "with_domain M p" "first_error se N = domain_error se"
      "ns_table M = ns_table N \<or> ns_table M = (p, Pd) # ns_table N"
  using assms(1,2)
proof (cases rule: alloc_pd_cases [of L N se])
  case failed
  then show ?thesis by (intro that(1)) (simp_all add: first_error_def valet_setup_qp_def)
next
  case (found p)
  then show ?thesis using assms(2) by (intro that(2) [of N p]) (simp_all add: first_error_def with_domain_def setup_ready_def)
next
  case (made p)
  then show ?thesis using assms(2) created_ok [of "ns_table N" Pd p]
    by (intro that(2) [of "N\<lparr>ns_table := (p, Pd) # ns_table N, ns_pd := VAt p\<rparr>" p])
       (simp_all add: first_error_def with_domain_def setup_ready_def)
qed

lemma setup_aside [simp]:
  "valet_bind_client (ce\<lparr>ce_setup := e\<rparr>) cb = valet_bind_client ce cb"
  "valet_connect_client (ce\<lparr>ce_setup := e\<rparr>) cb = valet_connect_client ce cb"
  by (simp_all add: valet_bind_client_def valet_connect_client_def)

subsection \<open>Properties\<close>

text \<open>
  C13. The set-up with all its objects implements the model that the choice of a node is built on: for the caller and for the node, \<open>connect_remote\<close> does the
  same whether it is given the answers of the library call by call or only the first error among them, including a wait that does not end.
\<close>

theorem set_up_implements_connect:
  assumes "lib_ok L" and "setup_ready N"
  shows "bind_ok (connect_node L se ce cb N) (\<lambda>(ret, cb, N). Inr (ret, cb)) = connect_remote (ce\<lparr>ce_setup := first_error se N\<rparr>) cb"
proof (cases "\<exists>cb1. valet_bind_client ce cb = Inr (0, cb1)")
  case False
  then show ?thesis by (cases "valet_bind_client ce cb") (auto simp: connect_node_def connect_remote_def)
next
  case True
  then obtain cb1 where b: "valet_bind_client ce cb = Inr (0, cb1)" ..
  have coarse: "connect_remote (ce\<lparr>ce_setup := e\<rparr>) cb = (if e \<noteq> 0 then Inr (e, cb1) else valet_connect_client ce cb1)" for e
    using b by (simp add: connect_remote_def)
  show ?thesis using assms
  proof (cases rule: domain_stage [of L N se])
    case failed
    then show ?thesis using b coarse by (simp add: connect_node_def)
  next
    case (domain M p)
    have same: "connect_node L se ce cb N = connect_node L se ce cb M"
      using connect_with_domain [OF domain(1), of p ce cb] domain(2) b by (simp add: with_domain_def)
    show ?thesis
      using connect_outcome [OF assms(1) domain(2) b, of se] domain(3) coarse
      by (auto simp: same bind_ok_assoc case_prod_unfold split: if_splits)
  qed
qed

text \<open>
  C14. What a connection leaves behind, for every outcome. A connection that comes up has a queue pair and a completion queue of its own in the domain
  of the session, two mapped buffers and a region. One that fails before the queues are complete leaves nothing; one that cannot register the
  buffers leaves both of them mapped; one that fails later, because the first receive cannot be posted or the node refuses, leaves queue pair and
  completion queue.
\<close>

theorem connection_leaves:
  assumes "lib_ok L" and "setup_ready N" and "connect_node L se ce cb N = Inr (ret, cb', N')"
  shows "if (\<exists>cb1. valet_bind_client ce cb = Inr (0, cb1)) \<and> \<not> (ns_pd N = VNull \<and> se_pd se \<noteq> 0)
    then \<exists>p T. (T = ns_table N \<or> T = (p, Pd) # ns_table N) \<and> holds T p = Some Pd \<and> left_over se p ret T (ns_table N')
    else ns_table N' = ns_table N \<and> ret \<noteq> 0"
proof (cases "\<exists>cb1. valet_bind_client ce cb = Inr (0, cb1)")
  case False
  then show ?thesis using assms(3) by (auto simp: connect_node_def bind_ok_eq_Inr split: if_splits)
next
  case True
  then obtain cb1 where b: "valet_bind_client ce cb = Inr (0, cb1)" ..
  show ?thesis using assms(1,2)
  proof (cases rule: domain_stage [of L N se])
    case failed
    then show ?thesis using b assms(3) by (auto simp: connect_node_def)
  next
    case (domain M p)
    have "connect_node L se ce cb M = Inr (ret, cb', N')"
      using connect_with_domain [OF domain(1), of p ce cb] domain(2) b assms(3) by (simp add: with_domain_def)
    then have "left_over se p ret (ns_table M) (ns_table N')"
      using connect_outcome [OF assms(1) domain(2) b, of se] by (auto simp: bind_ok_eq_Inr split: if_splits dest!: sym [of "Inr _"])
    moreover have "\<not> (ns_pd N = VNull \<and> se_pd se \<noteq> 0)" using domain(1,2) by (auto simp: alloc_pd_def with_domain_def split: if_splits)
    ultimately show ?thesis using b domain(2,4) by (auto simp: with_domain_def)
  qed
qed

text \<open>
  C0. An error of \<open>ib_alloc_pd\<close> is fatal for the session: it is reported for the first connection, but the error stays in the place of the domain, which is
  not null, so that the next connection whose route is resolved takes it for a domain and crashes.
\<close>

theorem domain_error_sticks:
  assumes "ns_pd N = VNull" and "se_pd se \<noteq> 0" and "valet_bind_client ce cb = Inr (0, cb1)"
    and "valet_bind_client ce' cb' = Inr (0, cb1')" and "se_cq se' = 0" and "se_notify se' = 0"
  shows "\<exists>N'. connect_node L se ce cb N = Inr (se_pd se, cb1, N') \<and> connect_node L se' ce' cb' (N'\<lparr>ns_conn := c\<rparr>) = Inl Null_Deref"
  using assms
  by (intro exI [of _ "N\<lparr>ns_pd := VErr (se_pd se)\<rparr>"])
     (simp add: connect_node_def valet_setup_qp_def alloc_pd_def valet_create_qp_def create_runs)

subsection \<open>Samples\<close>

text \<open>The first connection of a session, with a node whose route is resolved and which accepts.\<close>

definition sample_setup :: node_setup where
  "sample_setup = \<lparr>ns_table = [], ns_pd = VNull, ns_conn = \<lparr>cn_cq = VNull, cn_qp = VNull, cn_dma_mr = VNull, cn_recv_mr = VNull, cn_send_mr = VNull,
     cn_recv_dma = NULL, cn_send_dma = NULL, cn_rq_wr = None, cn_sq_wr = None\<rparr>\<rparr>"

definition accepting_node :: connect_env where
  "accepting_node = \<lparr>ce_create_id = True, ce_resolve_addr = 0, ce_route_events = [EV_ADDR_RESOLVED, EV_ROUTE_RESOLVED], ce_setup = 0, ce_connect = 0,
     ce_connect_events = [EV_ESTABLISHED]\<rparr>"

definition no_errors :: setup_env where
  "no_errors = \<lparr>se_pd = 0, se_cq = 0, se_notify = 0, se_qp = 0, se_mr = 0, se_recv = 0\<rparr>"

lemma sample_ready: "setup_ready sample_setup"
  by (simp add: setup_ready_def sample_setup_def table_ok_def)

lemma accepting_bound: "valet_bind_client accepting_node cb = Inr (0, cb\<lparr>cb_st := ROUTE_RESOLVED\<rparr>)"
  by (simp add: valet_bind_client_def accepting_node_def)

lemma accepting_connected: "valet_connect_client accepting_node cb = Inr (0, cb\<lparr>cb_st := CONNECTED\<rparr>)"
  by (simp add: valet_connect_client_def accepting_node_def)

theorem set_up_implements_connect_witness:
  "\<forall>cb. bind_ok (connect_node counting_lib (no_errors\<lparr>se_mr := - 12\<rparr>) accepting_node cb sample_setup) (\<lambda>(ret, cb, N). Inr (ret, cb)) =
     Inr (- 12, cb\<lparr>cb_st := ROUTE_RESOLVED\<rparr>)"
proof
  fix cb
  have "first_error (no_errors\<lparr>se_mr := - 12\<rparr>) sample_setup = - 12"
    by (simp add: first_error_def domain_error_def queue_error_def no_errors_def)
  then show "bind_ok (connect_node counting_lib (no_errors\<lparr>se_mr := - 12\<rparr>) accepting_node cb sample_setup) (\<lambda>(ret, cb, N). Inr (ret, cb)) =
     Inr (- 12, cb\<lparr>cb_st := ROUTE_RESOLVED\<rparr>)"
    using set_up_implements_connect [OF counting_lib_ok sample_ready, of "no_errors\<lparr>se_mr := - 12\<rparr>" accepting_node cb]
    by (simp add: connect_remote_def accepting_bound)
qed

text \<open>A node whose first receive cannot be posted: its queue pair stays.\<close>

lemma failed_receive:
  "\<exists>N'. connect_node counting_lib (no_errors\<lparr>se_recv := - 12\<rparr>) accepting_node cb sample_setup = Inr (- 12, cb\<lparr>cb_st := ROUTE_RESOLVED\<rparr>, N')"
proof -
  let ?M = "sample_setup\<lparr>ns_table := [(1, Pd)], ns_pd := VAt 1\<rparr>"
  have "alloc_pd counting_lib (no_errors\<lparr>se_recv := - 12\<rparr>) sample_setup = Inr (0, ?M)"
    by (simp add: alloc_pd_def sample_setup_def no_errors_def create_runs counting_lib_def next_address_def)
  moreover have "with_domain ?M 1" by (simp add: with_domain_def sample_setup_def table_ok_def)
  ultimately show ?thesis
    using connect_with_domain [of counting_lib "no_errors\<lparr>se_recv := - 12\<rparr>" sample_setup ?M 1 accepting_node cb]
      connect_outcome [OF counting_lib_ok _ accepting_bound, of ?M 1 "no_errors\<lparr>se_recv := - 12\<rparr>" cb]
    by (auto simp: accepting_bound domain_error_def queue_error_def no_errors_def)
qed

theorem connection_leaves_witness:
  "\<forall>cb. \<exists>cb' N' c q p. connect_node counting_lib (no_errors\<lparr>se_recv := - 12\<rparr>) accepting_node cb sample_setup = Inr (- 12, cb', N') \<and>
     ns_table N' = [(q, Qp p c), (c, Cq None), (p, Pd)]"
proof
  fix cb
  obtain N' where run: "connect_node counting_lib (no_errors\<lparr>se_recv := - 12\<rparr>) accepting_node cb sample_setup = Inr (- 12, cb\<lparr>cb_st := ROUTE_RESOLVED\<rparr>, N')"
    using failed_receive by blast
  show "\<exists>cb' N' c q p. connect_node counting_lib (no_errors\<lparr>se_recv := - 12\<rparr>) accepting_node cb sample_setup = Inr (- 12, cb', N') \<and>
     ns_table N' = [(q, Qp p c), (c, Cq None), (p, Pd)]"
    using connection_leaves [OF counting_lib_ok sample_ready run] run
    by (auto simp: accepting_bound left_over_def queue_error_def no_errors_def sample_setup_def Let_def)
qed

theorem domain_error_sticks_witness:
  "\<forall>cb. \<exists>N'. connect_node counting_lib (no_errors\<lparr>se_pd := - 12\<rparr>) accepting_node cb sample_setup = Inr (- 12, cb\<lparr>cb_st := ROUTE_RESOLVED\<rparr>, N') \<and>
     connect_node counting_lib no_errors accepting_node cb (N'\<lparr>ns_conn := ns_conn sample_setup\<rparr>) = Inl Null_Deref"
proof
  fix cb
  have "ns_pd sample_setup = VNull" "se_pd (no_errors\<lparr>se_pd := - 12\<rparr>) \<noteq> 0" "se_cq no_errors = 0" "se_notify no_errors = 0"
    by (simp_all add: sample_setup_def no_errors_def)
  then show "\<exists>N'. connect_node counting_lib (no_errors\<lparr>se_pd := - 12\<rparr>) accepting_node cb sample_setup = Inr (- 12, cb\<lparr>cb_st := ROUTE_RESOLVED\<rparr>, N') \<and>
     connect_node counting_lib no_errors accepting_node cb (N'\<lparr>ns_conn := ns_conn sample_setup\<rparr>) = Inl Null_Deref"
    using domain_error_sticks [of sample_setup "no_errors\<lparr>se_pd := - 12\<rparr>" accepting_node cb _ accepting_node cb _ no_errors, OF _ _ accepting_bound accepting_bound]
    by simp
qed

end
