(* ===== verification/Connect_Contexts.thy ===== *)
theory Connect_Contexts
  imports Connect_Setup
begin

text \<open>The transfer contexts of a session (\<open>rdma_freepool_post_init\<close> of rdmabox.c) when the first node is mapped.\<close>

text \<open>What posting and completing a transfer rely on.\<close>

definition ctx_ready :: "verbs_table \<Rightarrow> bool \<Rightarrow> ptr \<Rightarrow> ctx_setup \<Rightarrow> bool" where
  "ctx_ready T isWrite x cx \<longleftrightarrow> holds T (cx_dma cx) = Some Dma \<and>
     (if isWrite
      then holds T (cx_header_dma cx) = Some Dma \<and> cx_header_dma cx \<noteq> cx_dma cx \<and> map wr_code (cx_chain cx) = [IB_WR_RDMA_WRITE, IB_WR_RDMA_WRITE] \<and>
           map wr_signaled (cx_chain cx) = [True, False] \<and> wr_id (hd (cx_chain cx)) = x
      else \<exists>wr. cx_chain cx = [wr] \<and> wr_code wr = IB_WR_RDMA_READ \<and> wr_signaled wr \<and> wr_id wr = x \<and> sg_addr (wr_sg wr) = cx_dma cx)"

text \<open>One turn of the loop, and the loop over the elements instead of their indices.\<close>

definition ctx_turn :: "verbs_lib \<Rightarrow> ptr \<Rightarrow> bool \<Rightarrow> ptr \<Rightarrow> pools_setup \<Rightarrow> pools_setup outcome" where
  "ctx_turn L key isWrite x P =
     (case ps_ctxs P x of None \<Rightarrow> Inl Null_Deref
      | Some cx \<Rightarrow> bind_ok (ctx_post_init L key isWrite x cx (ps_table P)) (\<lambda>(cx, T).
          Inr (P\<lparr>ps_table := T, ps_ctxs := (ps_ctxs P)(x \<mapsto> cx)\<rparr>)))"

lemma foldM_elements:
  "length es = n \<Longrightarrow> foldM (\<lambda>i s. bind_ok (arr_get es i) (\<lambda>x. f x s)) [0..<n] s = foldM f es s"
proof (induction es arbitrary: n rule: rev_induct)
  case (snoc e es)
  have longer: "foldM (\<lambda>i s. bind_ok (arr_get (es @ [e]) i) (\<lambda>x. f x s)) is s = foldM (\<lambda>i s. bind_ok (arr_get es i) (\<lambda>x. f x s)) is s"
    if "set is \<subseteq> {..<length es}" for "is"
    using that by (induction "is" arbitrary: s) (auto simp: nth_append)
  have "set [0..<length es] \<subseteq> {..<length es}" by auto
  then show ?case using snoc longer [of "[0..<length es]"] by (auto simp: foldM_append nth_append)
qed simp

lemma post_init_turns:
  "length (fp_elements p) = fp_cap_nr p \<Longrightarrow> rdma_freepool_post_init L key p isWrite P =
     bind_ok (foldM (ctx_turn L key isWrite) (fp_elements p) P) (\<lambda>P. Inr (if isWrite then P\<lparr>ps_write_init := True\<rparr> else P\<lparr>ps_read_init := True\<rparr>))"
  using foldM_elements [of "fp_elements p" "fp_cap_nr p" "ctx_turn L key isWrite" P]
  by (simp add: rdma_freepool_post_init_def ctx_turn_def)

definition grows :: "verbs_table \<Rightarrow> verbs_table \<Rightarrow> bool" where
  "grows T T' \<longleftrightarrow> (\<forall>p ob. holds T p = Some ob \<longrightarrow> holds T' p = Some ob)"

lemma ctx_ready_grows: "ctx_ready T w x cx \<Longrightarrow> grows T T' \<Longrightarrow> ctx_ready T' w x cx"
  by (auto simp: ctx_ready_def grows_def split: if_splits)

lemma ctx_post_init_ok:
  assumes "lib_ok L"
  shows "\<exists>cx' T'. ctx_post_init L key w x cx T = Inr (cx', T') \<and> grows T T' \<and> ctx_ready T' w x cx' \<and> holds T (cx_dma cx') = None"
proof -
  let ?d = "grant L T"
  let ?T = "(?d, Dma) # T"
  have new: "holds T ?d = None" "holds ?T (grant L ?T) = None" using grant_new [OF assms(1)] by blast+
  then have "grant L ?T \<noteq> ?d" "holds T (grant L ?T) = None" by (auto split: if_splits)
  then show ?thesis using new(1)
    by (cases w) (auto simp: ctx_post_init_def create_runs grows_def ctx_ready_def)
qed

lemma ctx_turn_ok:
  assumes "lib_ok L" and "ps_ctxs P x \<noteq> None"
  shows "\<exists>T cx. ctx_turn L key w x P = Inr (P\<lparr>ps_table := T, ps_ctxs := (ps_ctxs P)(x \<mapsto> cx)\<rparr>) \<and> grows (ps_table P) T \<and>
    ctx_ready T w x cx \<and> holds (ps_table P) (cx_dma cx) = None"
proof -
  obtain cx0 where "ps_ctxs P x = Some cx0" using assms(2) by blast
  moreover obtain cx T where "ctx_post_init L key w x cx0 (ps_table P) = Inr (cx, T)" "grows (ps_table P) T" "ctx_ready T w x cx"
    "holds (ps_table P) (cx_dma cx) = None" using ctx_post_init_ok [OF assms(1)] by blast
  ultimately show ?thesis by (auto simp: ctx_turn_def)
qed

text \<open>All turns: the contexts of \<open>xs\<close> are ready, with buffers that are new and differ; the others and the flags stay.\<close>

definition all_ready :: "bool \<Rightarrow> ptr list \<Rightarrow> pools_setup \<Rightarrow> pools_setup \<Rightarrow> bool" where
  "all_ready w xs P P' \<longleftrightarrow> grows (ps_table P) (ps_table P') \<and>
     (\<forall>x\<in>set xs. \<exists>cx. ps_ctxs P' x = Some cx \<and> ctx_ready (ps_table P') w x cx \<and> holds (ps_table P) (cx_dma cx) = None) \<and>
     inj_on (\<lambda>x. cx_dma (the (ps_ctxs P' x))) (set xs) \<and> (\<forall>x. x \<notin> set xs \<longrightarrow> ps_ctxs P' x = ps_ctxs P x) \<and>
     ps_write_init P' = ps_write_init P \<and> ps_read_init P' = ps_read_init P \<and> ps_mig_thread P' = ps_mig_thread P"

lemma ctx_turns_ok:
  assumes "lib_ok L"
  shows "distinct xs \<Longrightarrow> \<forall>x\<in>set xs. ps_ctxs P x \<noteq> None \<Longrightarrow> \<exists>P'. foldM (ctx_turn L key w) xs P = Inr P' \<and> all_ready w xs P P'"
proof (induction xs arbitrary: P)
  case (Cons x xs)
  obtain T cx where turn: "ctx_turn L key w x P = Inr (P\<lparr>ps_table := T, ps_ctxs := (ps_ctxs P)(x \<mapsto> cx)\<rparr>)" "grows (ps_table P) T"
    "ctx_ready T w x cx" "holds (ps_table P) (cx_dma cx) = None"
    using ctx_turn_ok [OF assms, of P x key w] Cons.prems(2) by auto
  let ?P = "P\<lparr>ps_table := T, ps_ctxs := (ps_ctxs P)(x \<mapsto> cx)\<rparr>"
  have "\<exists>P'. foldM (ctx_turn L key w) xs ?P = Inr P' \<and> all_ready w xs ?P P'" using Cons by simp
  then obtain P' where P': "foldM (ctx_turn L key w) xs ?P = Inr P'" "all_ready w xs ?P P'" by blast
  have x: "ps_ctxs P' x = Some cx" "x \<notin> set xs" "holds T (cx_dma cx) \<noteq> None"
    using P'(2) Cons.prems(1) turn(3) by (auto simp: all_ready_def ctx_ready_def)
  have "grows (ps_table P) (ps_table P')" using turn(2) P'(2) by (auto simp: all_ready_def grows_def)
  moreover have "ctx_ready (ps_table P') w x cx" using turn(3) P'(2) by (auto simp: all_ready_def intro: ctx_ready_grows)
  moreover have "holds (ps_table P) a = None" if "holds T a = None" for a using that turn(2) by (cases "holds (ps_table P) a") (auto simp: grows_def)
  moreover have "cx_dma (the (ps_ctxs P' y)) \<noteq> cx_dma cx" if "y \<in> set xs" for y
    using that P'(2) x(3) by (fastforce simp: all_ready_def)
  ultimately have "all_ready w (x # xs) P P'"
    using P'(2) x turn(4) by (auto simp: all_ready_def)
  then show ?case using turn(1) P'(1) by auto
qed (auto simp: all_ready_def grows_def)

text \<open>
  C15. When the first node is mapped, every transfer context of the two pools gets buffers of its own, the completion of the data write and of the
  read carry the context they belong to, the write of the time is silent and comes after the data, and both pools are marked, so that a second node
  changes nothing.
\<close>

theorem transfer_contexts_prepared:
  assumes "lib_ok L" and "length (fp_elements (rdma_write_freepool S)) = fp_cap_nr (rdma_write_freepool S)"
    and "length (fp_elements (rdma_read_freepool S)) = fp_cap_nr (rdma_read_freepool S)"
    and "distinct (fp_elements (rdma_write_freepool S) @ fp_elements (rdma_read_freepool S))"
    and "\<forall>x\<in>set (fp_elements (rdma_write_freepool S)) \<union> set (fp_elements (rdma_read_freepool S)). ps_ctxs P x \<noteq> None"
    and "\<not> ps_write_init P" and "\<not> ps_read_init P"
  shows "\<exists>P'. post_setup_connection L key S P = Inr P' \<and>
    (\<forall>x\<in>set (fp_elements (rdma_write_freepool S)). \<exists>cx. ps_ctxs P' x = Some cx \<and> ctx_ready (ps_table P') True x cx) \<and>
    (\<forall>x\<in>set (fp_elements (rdma_read_freepool S)). \<exists>cx. ps_ctxs P' x = Some cx \<and> ctx_ready (ps_table P') False x cx) \<and>
    inj_on (\<lambda>x. cx_dma (the (ps_ctxs P' x))) (set (fp_elements (rdma_write_freepool S)) \<union> set (fp_elements (rdma_read_freepool S))) \<and>
    post_setup_connection L key' S' P' = Inr P'"
proof -
  let ?W = "fp_elements (rdma_write_freepool S)" and ?R = "fp_elements (rdma_read_freepool S)"
  obtain P1 where w: "foldM (ctx_turn L key True) ?W P = Inr P1" "all_ready True ?W P P1"
    using ctx_turns_ok [OF assms(1), of ?W P key True] assms(4,5) by auto
  let ?P1 = "P1\<lparr>ps_write_init := True\<rparr>"
  have "\<forall>x\<in>set ?R. ps_ctxs ?P1 x \<noteq> None" using assms(4,5) w(2) by (auto simp: all_ready_def)
  then obtain P2 where r: "foldM (ctx_turn L key False) ?R ?P1 = Inr P2" "all_ready False ?R ?P1 P2"
    using ctx_turns_ok [OF assms(1), of ?R ?P1 key False] assms(4) by auto
  have keep: "ps_ctxs P2 x = ps_ctxs P1 x" if "x \<in> set ?W" for x using that r(2) assms(4) by (auto simp: all_ready_def)
  have W: "\<exists>cx. ps_ctxs P2 x = Some cx \<and> ctx_ready (ps_table P2) True x cx \<and> holds (ps_table P1) (cx_dma cx) \<noteq> None" if x: "x \<in> set ?W" for x
  proof -
    obtain cx where "ps_ctxs P1 x = Some cx" "ctx_ready (ps_table P1) True x cx" using w(2) x by (auto simp: all_ready_def)
    then show ?thesis using keep [OF x] r(2) by (auto simp: all_ready_def ctx_ready_def grows_def)
  qed
  have R: "\<exists>cx. ps_ctxs P2 x = Some cx \<and> ctx_ready (ps_table P2) False x cx \<and> holds (ps_table P1) (cx_dma cx) = None" if "x \<in> set ?R" for x
    using that r(2) by (auto simp: all_ready_def)
  have "inj_on (\<lambda>x. cx_dma (the (ps_ctxs P2 x))) (set ?W)" using w(2) keep by (auto simp: all_ready_def inj_on_def)
  moreover have "inj_on (\<lambda>x. cx_dma (the (ps_ctxs P2 x))) (set ?R)" using r(2) by (simp add: all_ready_def)
  moreover have "cx_dma (the (ps_ctxs P2 x)) \<noteq> cx_dma (the (ps_ctxs P2 y))" if "x \<in> set ?W" "y \<in> set ?R" for x y
    using W [OF that(1)] R [OF that(2)] by force
  ultimately have "inj_on (\<lambda>x. cx_dma (the (ps_ctxs P2 x))) (set ?W \<union> set ?R)" unfolding inj_on_def by (metis UnE)
  moreover have "post_setup_connection L key S P = Inr (P2\<lparr>ps_read_init := True, ps_mig_thread := True\<rparr>)"
    using w r assms(2,3,6,7) by (simp add: post_setup_connection_def post_init_turns all_ready_def)
  moreover have "ps_write_init P2" using r(2) by (simp add: all_ready_def)
  ultimately show ?thesis using W R
    by (intro exI [of _ "P2\<lparr>ps_read_init := True, ps_mig_thread := True\<rparr>"]) (auto simp: post_setup_connection_def)
qed

text \<open>Two contexts for writes and one for reads.\<close>

definition sample_pools :: pools_setup where
  "sample_pools = \<lparr>ps_table = [], ps_ctxs = (\<lambda>x. if x \<in> {8, 9, 12} then Some \<lparr>cx_dma = NULL, cx_header_dma = NULL, cx_chain = []\<rparr> else None),
     ps_write_init = False, ps_read_init = False, ps_mig_thread = False\<rparr>"

definition sample_pools_session :: valet_session where
  "sample_pools_session = \<lparr>cb_num = 0, mapped_cb_num = 0, cb_list = [], cb_state_list = [], cb_index_map = [], mapping_swapspace_to_rb = [], rdma_on = 0,
     rdma_write_freepool = \<lparr>fp_cap_nr = 2, fp_curr_nr = 2, fp_elements = [8, 9]\<rparr>, rdma_read_freepool = \<lparr>fp_cap_nr = 1, fp_curr_nr = 1, fp_elements = [12]\<rparr>\<rparr>"

theorem transfer_contexts_prepared_witness:
  "\<exists>P'. post_setup_connection counting_lib 5 sample_pools_session sample_pools = Inr P' \<and>
     (\<forall>x\<in>{8, 9}. \<exists>cx. ps_ctxs P' x = Some cx \<and> ctx_ready (ps_table P') True x cx) \<and> post_setup_connection counting_lib 7 sample_pools_session P' = Inr P'"
proof -
  have "length (fp_elements (rdma_write_freepool sample_pools_session)) = fp_cap_nr (rdma_write_freepool sample_pools_session)"
    "length (fp_elements (rdma_read_freepool sample_pools_session)) = fp_cap_nr (rdma_read_freepool sample_pools_session)"
    "distinct (fp_elements (rdma_write_freepool sample_pools_session) @ fp_elements (rdma_read_freepool sample_pools_session))"
    "\<forall>x\<in>set (fp_elements (rdma_write_freepool sample_pools_session)) \<union> set (fp_elements (rdma_read_freepool sample_pools_session)). ps_ctxs sample_pools x \<noteq> None"
    "\<not> ps_write_init sample_pools" "\<not> ps_read_init sample_pools"
    by (simp_all add: sample_pools_session_def sample_pools_def)
  from transfer_contexts_prepared [OF counting_lib_ok this, of 5 7 sample_pools_session] show ?thesis
    by (auto simp: sample_pools_session_def)
qed

end
