(* ===== verification/Hctx.thy ===== *)
theory Hctx
  imports Valet_Prelude
begin

text \<open>
  The memory of the hardware queues (\<open>valet_alloc_hctx\<close> of valet_drv.c, for kernels that ask the driver for it): each queue is allocated on a node
  of the machine, so that the queues are spread evenly over the nodes that are online. \<open>online\<close> lists these; a division by zero is a \<open>Panic\<close>.
\<close>

definition bucket_step :: "nat \<Rightarrow> nat \<Rightarrow> nat \<times> nat \<times> int \<times> nat \<Rightarrow> (nat \<times> nat \<times> int \<times> nat) outcome" where
  "bucket_step nr_hw_queues nr_online_nodes = (\<lambda>(n, node, tip, b_size).
     if b_size = 0 then Inl Panic
     else if n mod b_size = 0
     then Inr (1, node + 1, tip - 1, if tip - 1 = 0 then nr_hw_queues div nr_online_nodes else b_size)
     else Inr (n + 1, node, tip, b_size))"

text \<open>The walk over the nodes that are online; past the last one the loop leaves the number of nodes there can be.\<close>

primrec online_node :: "nat \<Rightarrow> nat list \<Rightarrow> nat \<Rightarrow> nat" where
  "online_node max_nodes [] node = max_nodes"
| "online_node max_nodes (n # ns) node = (if node = 0 then n else online_node max_nodes ns (node - 1))"

definition valet_alloc_hctx :: "nat \<Rightarrow> nat \<Rightarrow> nat list \<Rightarrow> nat \<Rightarrow> nat outcome" where
  "valet_alloc_hctx max_nodes nr_hw_queues online hctx_index =
     (let nr_online_nodes = length online in
      if nr_online_nodes = 0 then Inl Panic
      else bind_ok (foldM (\<lambda>_. bucket_step nr_hw_queues nr_online_nodes) [0..<hctx_index]
             (1, 0, int (nr_hw_queues mod nr_online_nodes), (nr_hw_queues + nr_online_nodes - 1) div nr_online_nodes)) (\<lambda>(n, node, tip, b_size).
           Inr (online_node max_nodes online node)))"

subsection \<open>The buckets\<close>

text \<open>\<open>q\<close> queues on \<open>m\<close> nodes: the size of the bucket of the \<open>k\<close>th node, and where it starts.\<close>

definition bucket :: "nat \<Rightarrow> nat \<Rightarrow> nat \<Rightarrow> nat" where
  "bucket q m k = q div m + (if k < q mod m then 1 else 0)"

definition bucket_start :: "nat \<Rightarrow> nat \<Rightarrow> nat \<Rightarrow> nat" where
  "bucket_start q m k = k * (q div m) + min k (q mod m)"

lemma bucket_start_Suc: "bucket_start q m (Suc k) = bucket_start q m k + bucket q m k"
  by (auto simp: bucket_start_def bucket_def)

lemma bucket_start_0: "bucket_start q m 0 = 0"
  by (simp add: bucket_start_def)

lemma bucket_start_all: "0 < m \<Longrightarrow> bucket_start q m m = q"
  using mod_less_divisor [of m q] by (simp add: bucket_start_def)

lemma bucket_start_mono: "j \<le> k \<Longrightarrow> bucket_start q m j \<le> bucket_start q m k"
  by (auto simp: bucket_start_def min_def intro!: add_mono mult_right_mono)

definition in_bucket :: "nat \<Rightarrow> nat \<Rightarrow> nat \<Rightarrow> nat \<Rightarrow> bool" where
  "in_bucket q m i k \<longleftrightarrow> bucket_start q m k \<le> i \<and> i < bucket_start q m (Suc k)"

lemma in_bucket_unique: "in_bucket q m i j \<Longrightarrow> in_bucket q m i k \<Longrightarrow> j = k"
proof (induction j k rule: linorder_wlog)
  case (le j k)
  show ?case
  proof (rule ccontr)
    assume "j \<noteq> k"
    then have "bucket_start q m (Suc j) \<le> bucket_start q m k" using le(1) by (intro bucket_start_mono) simp
    then show False using le(2,3) by (simp add: in_bucket_def)
  qed
qed simp

lemma in_bucket_node: "0 < m \<Longrightarrow> i < q \<Longrightarrow> in_bucket q m i k \<Longrightarrow> k < m"
  using bucket_start_mono [of m k q m] bucket_start_all [of m q] by (auto simp: in_bucket_def not_le intro: leI)

text \<open>The state of the loop after \<open>i\<close> turns.\<close>

definition bucket_state :: "nat \<Rightarrow> nat \<Rightarrow> nat \<Rightarrow> nat \<times> nat \<times> int \<times> nat \<Rightarrow> bool" where
  "bucket_state q m i = (\<lambda>(n, node, tip, b_size). in_bucket q m i node \<and> n = i - bucket_start q m node + 1 \<and>
     tip = int (q mod m) - int node \<and> b_size = bucket q m node)"

lemma div_round_up: "0 < m \<Longrightarrow> (q + m - 1) div m = bucket q m 0"
proof -
  assume m: "0 < m"
  have "q + m - 1 = q mod m + m - 1 + q div m * m" using m div_mult_mod_eq [of q m] by linarith
  then have "(q + m - 1) div m = (q mod m + m - 1 + q div m * m) div m" by (simp only:)
  also have "\<dots> = q div m + (q mod m + m - 1) div m" by (rule div_mult_self1) (use m in simp)
  also have "(q mod m + m - 1) div m = (if 0 < q mod m then 1 else 0)"
  proof (cases "0 < q mod m")
    case True
    then have "q mod m + m - 1 = (q mod m - 1) + 1 * m" by simp
    then have "(q mod m + m - 1) div m = (q mod m - 1) div m + 1" using m by (simp only: div_mult_self1 [OF m [THEN less_imp_neq, symmetric]])
    then show ?thesis using True m mod_less_divisor [OF m, of q] by simp
  qed (use m in simp)
  finally show ?thesis by (simp add: bucket_def)
qed

lemma bucket_first:
  assumes "0 < m" and "0 < q"
  shows "bucket_state q m 0 (1, 0, int (q mod m), (q + m - 1) div m)"
proof -
  have "0 < q div m \<or> 0 < q mod m" using assms by (metis div_mult_mod_eq gr0I mult_0 add_0)
  then have "0 < bucket q m 0" by (auto simp: bucket_def)
  then show ?thesis using div_round_up [OF assms(1), of q] by (simp add: bucket_state_def in_bucket_def bucket_start_Suc bucket_start_0)
qed

lemma bucket_next:
  assumes "bucket_state q m i x" and "Suc i < q" and "0 < m"
  shows "\<exists>x'. bucket_step q m x = Inr x' \<and> bucket_state q m (Suc i) x'"
proof -
  obtain node where x: "x = (i - bucket_start q m node + 1, node, int (q mod m) - int node, bucket q m node)" "in_bucket q m i node"
    using assms(1) by (cases x) (auto simp: bucket_state_def)
  let ?n = "i - bucket_start q m node + 1" and ?b = "bucket q m node"
  have n: "?n \<le> ?b" "bucket_start q m node \<le> i" using x(2) by (auto simp: in_bucket_def bucket_start_Suc)
  show ?thesis
  proof (cases "?n = ?b")
    case True
    have start: "bucket_start q m (Suc node) = Suc i" using True n(2) by (simp add: bucket_start_Suc)
    have "Suc node < m"
    proof (rule ccontr)
      assume "\<not> Suc node < m"
      then have "bucket_start q m m \<le> bucket_start q m (Suc node)" by (intro bucket_start_mono) simp
      then show False using assms(2) start bucket_start_all [OF assms(3), of q] by simp
    qed
    have size: "(if int (q mod m) - int node - 1 = 0 then q div m else ?b) = bucket q m (Suc node)" by (auto simp: bucket_def)
    have "0 < bucket q m (Suc node)"
    proof (cases "q div m = 0")
      case z: True
      then have "q mod m = q" using assms(3) by (simp add: div_eq_0_iff)
      then show ?thesis using z start assms(2) by (simp add: bucket_def bucket_start_def min_def split: if_splits)
    qed (simp add: bucket_def)
    then show ?thesis using True x(1) n start size
      by (auto simp: bucket_step_def bucket_state_def in_bucket_def bucket_start_Suc)
  next
    case False
    then have "?n < ?b" using n(1) by simp
    then have "?n mod ?b = ?n" "?n \<noteq> 0" by simp_all
    then show ?thesis using x n \<open>?n < ?b\<close>
      by (auto simp: bucket_step_def bucket_state_def in_bucket_def bucket_start_Suc)
  qed
qed

lemma bucket_loop:
  assumes "0 < m" and "i < q"
  shows "\<exists>n node tip b. foldM (\<lambda>_. bucket_step q m) [0..<i] (1, 0, int (q mod m), (q + m - 1) div m) = Inr (n, node, tip, b) \<and> in_bucket q m i node"
proof -
  have "\<exists>x. foldM (\<lambda>_. bucket_step q m) [0..<i] (1, 0, int (q mod m), (q + m - 1) div m) = Inr x \<and> bucket_state q m (length [0..<i]) x"
    using bucket_first [of m q] bucket_next [of q m] assms by (intro foldM_invariant) auto
  then show ?thesis by (auto simp: bucket_state_def)
qed

lemma online_node_nth: "k < length ns \<Longrightarrow> online_node x ns k = ns ! k"
  by (induction ns arbitrary: k) (auto simp: nth_Cons split: nat.split)

text \<open>
  The hardware queues are spread evenly: every queue is allocated on a node that is online, and the number of queues on the nodes differs by at most one,
  the first nodes having one more.
\<close>

theorem hctx_spread:
  assumes "distinct online" and "k < length online"
  shows "card {i. i < q \<and> valet_alloc_hctx max_nodes q online i = Inr (online ! k)} = q div length online + (if k < q mod length online then 1 else 0) \<and>
    (\<forall>i<q. \<exists>j<length online. valet_alloc_hctx max_nodes q online i = Inr (online ! j))"
proof -
  let ?m = "length online"
  have m: "0 < ?m" using assms(2) by linarith
  have at: "\<exists>j<?m. valet_alloc_hctx max_nodes q online i = Inr (online ! j) \<and> in_bucket q ?m i j" if iq: "i < q" for i
  proof -
    obtain n node tip b where run: "foldM (\<lambda>_. bucket_step q ?m) [0..<i] (1, 0, int (q mod ?m), (q + ?m - 1) div ?m) = Inr (n, node, tip, b)"
      "in_bucket q ?m i node" using bucket_loop [OF m iq] by blast
    have "node < ?m" by (rule in_bucket_node [OF m iq run(2)])
    moreover have "valet_alloc_hctx max_nodes q online i = Inr (online_node max_nodes online node)"
      using m unfolding valet_alloc_hctx_def Let_def run(1) by simp
    ultimately show ?thesis using run(2) by (auto simp: online_node_nth)
  qed
  have "valet_alloc_hctx max_nodes q online i = Inr (online ! k) \<longleftrightarrow> in_bucket q ?m i k" if "i < q" for i
    using at [OF that] in_bucket_unique [of q ?m i] assms by (auto simp: nth_eq_iff_index_eq)
  moreover have "i < q" if "in_bucket q ?m i k" for i
    using that bucket_start_mono [of "Suc k" ?m q ?m] bucket_start_all [OF m, of q] assms(2) by (simp add: in_bucket_def)
  ultimately have "{i. i < q \<and> valet_alloc_hctx max_nodes q online i = Inr (online ! k)} = {bucket_start q ?m k..<bucket_start q ?m (Suc k)}"
    by (auto simp: in_bucket_def)
  then show ?thesis using at by (auto simp: bucket_start_Suc bucket_def)
qed

theorem hctx_spread_witness:
  "card {i. i < 7 \<and> valet_alloc_hctx 64 7 [0, 2, 3] i = Inr 0} = 3 \<and> card {i. i < 7 \<and> valet_alloc_hctx 64 7 [0, 2, 3] i = Inr 3} = 2"
  using hctx_spread [of "[0, 2, 3]" 0 7 64] hctx_spread [of "[0, 2, 3]" 2 7 64] by simp

end
