(* ===== verification/Portal.thy ===== *)
theory Portal
  imports Valet_Prelude "HOL-Library.Char_ord"
begin

text \<open>
  The configuration strings: the portal of the block device (\<open>portal_parser\<close> of rdmabox.c), a string
  \<open>rdma://n,addr:port,addr:port\<close>, and the portal file of the daemon (\<open>portal_parser\<close> of daemon.c), one
  line for each node after a line with their number. Both list the nodes.

  Strings are without their terminating zero; a scan that passes it goes on in the memory behind, which is an argument
  where it matters.
\<close>

abbreviation (input) NUL :: char where "NUL \<equiv> CHR 0x00"

record portal =
  p_addr :: string
  p_port :: nat

subsection \<open>\<open>sscanf\<close> with \<open>%d\<close>\<close>

definition is_digit :: "char \<Rightarrow> bool" where
  "is_digit c \<longleftrightarrow> (48::nat) \<le> of_char c \<and> of_char c \<le> (57::nat)"

definition is_space :: "char \<Rightarrow> bool" where
  "is_space c \<longleftrightarrow> c = CHR '' '' \<or> ((9::nat) \<le> of_char c \<and> of_char c \<le> (13::nat))"

primrec scan_digits :: "string \<Rightarrow> int \<Rightarrow> int" where
  "scan_digits [] v = v"
| "scan_digits (c # cs) v = (if is_digit c then scan_digits cs (10 * v + (int (of_char c) - 48)) else v)"

text \<open>Without a digit where one is expected, the variable keeps its value.\<close>

definition scan_nat :: "string \<Rightarrow> int option" where
  "scan_nat s = (case s of [] \<Rightarrow> None | c # cs \<Rightarrow> if is_digit c then Some (scan_digits s 0) else None)"

definition wrap_int :: "int \<Rightarrow> int" where
  "wrap_int v = (v + 2147483648) mod 4294967296 - 2147483648"

text \<open>The \<open>sscanf\<close> of the C library takes a plus sign, the one of the kernel does not.\<close>

definition scan_int :: "bool \<Rightarrow> string \<Rightarrow> int option" where
  "scan_int pl s =
     map_option wrap_int
       (case dropWhile is_space s of
          [] \<Rightarrow> None
        | c # cs \<Rightarrow> if c = CHR ''-'' then map_option uminus (scan_nat cs)
                    else if pl \<and> c = CHR ''+'' then scan_nat cs else scan_nat (c # cs))"

definition c_string :: "string \<Rightarrow> string" where
  "c_string s = takeWhile (\<lambda>c. c \<noteq> NUL) s"

subsection \<open>One node\<close>

text \<open>
  The common body of both loops: \<open>mem\<close> is the memory from the start of the node's text on. The address goes into sixteen bytes with a
  zero behind it; the port is cut to sixteen bits.
\<close>

primrec find_colon :: "string \<Rightarrow> nat \<Rightarrow> nat outcome" where
  "find_colon [] j = Inl Out_Of_Bounds"
| "find_colon (c # cs) j = (if c = CHR '':'' then Inr j else find_colon cs (j + 1))"

definition parse_node :: "bool \<Rightarrow> string \<Rightarrow> portal outcome" where
  "parse_node pl mem =
     bind_ok (find_colon mem 0) (\<lambda>j.
       if j < 16
       then let port = (case scan_int pl (c_string (drop (j + 1) mem)) of None \<Rightarrow> 0 | Some p \<Rightarrow> p)
            in Inr \<lparr>p_addr = c_string (take j mem), p_port = nat (port mod 65536)\<rparr>
       else Inl Out_Of_Bounds)"

subsection \<open>The portal of the block device\<close>

text \<open>\<open>strsep\<close> at a comma: the token and what is left of the string, if anything.\<close>

fun strsep :: "string \<Rightarrow> string \<times> string option" where
  "strsep [] = ([], None)"
| "strsep (c # cs) = (if c = CHR '','' then ([], Some cs) else (let (t, r) = strsep cs in (c # t, r)))"

text \<open>The tokens stay in the string, with zeros for the commas.\<close>

primrec portal_loop :: "nat \<Rightarrow> string option \<Rightarrow> portal list \<Rightarrow> portal list outcome" where
  "portal_loop 0 p acc = Inr acc"
| "portal_loop (Suc n) p acc =
     (case p of None \<Rightarrow> Inl Null_Deref
      | Some s \<Rightarrow>
          (let (t, r) = strsep s
           in bind_ok (parse_node False (t @ (case r of None \<Rightarrow> [] | Some u \<Rightarrow> NUL # u))) (\<lambda>node. portal_loop n r (acc @ [node]))))"

definition bd_portal_parser :: "string \<Rightarrow> (int \<times> portal list) outcome" where
  "bd_portal_parser portal =
     (if length portal < 7 then Inl Out_Of_Bounds
      else let (t, r) = strsep (drop 7 portal);
               p_count = (case scan_int False t of None \<Rightarrow> 0 | Some n \<Rightarrow> n)
           in bind_ok (portal_loop (nat p_count) r []) (\<lambda>ps. Inr (p_count, ps)))"

subsection \<open>The portal file of the daemon\<close>

text \<open>
  \<open>fgets\<close> writes the line and a zero over the start of the buffer; the rest of it still holds earlier lines. The list of nodes
  has room for as many as the first line says.
\<close>

definition fgets_buf :: "string \<Rightarrow> string \<Rightarrow> string" where
  "fgets_buf line buf = line @ NUL # drop (length line + 1) buf"

primrec portal_lines :: "string list \<Rightarrow> int \<Rightarrow> string \<Rightarrow> portal list \<Rightarrow> portal list outcome" where
  "portal_lines [] p_count buf acc = Inr acc"
| "portal_lines (line # lines) p_count buf acc =
     bind_ok (parse_node True (fgets_buf line buf)) (\<lambda>node.
       if int (length acc) < p_count then portal_lines lines p_count (fgets_buf line buf) (acc @ [node]) else Inl Out_Of_Bounds)"

definition daemon_portal_parser :: "string list \<Rightarrow> string \<Rightarrow> (int \<times> portal list) outcome" where
  "daemon_portal_parser lines buf =
     (case lines of [] \<Rightarrow> Inr (case scan_int True (c_string buf) of None \<Rightarrow> 0 | Some n \<Rightarrow> n, [])
      | line # rest \<Rightarrow>
          (let p_count = (case scan_int True (c_string line) of None \<Rightarrow> 0 | Some n \<Rightarrow> n)
           in bind_ok (portal_lines rest p_count (fgets_buf line buf) []) (\<lambda>ps. Inr (p_count, ps))))"

subsection \<open>Decimal numbers\<close>

fun decimal :: "nat \<Rightarrow> string" where
  "decimal n = (if n < 10 then [char_of (48 + n)] else decimal (n div 10) @ [char_of (48 + n mod 10)])"

declare decimal.simps [simp del]

lemma of_char_digit: "k < 10 \<Longrightarrow> (of_char (char_of (48 + k)) :: nat) = 48 + k"
  by (simp add: take_bit_nat_eq_self)

lemma digit_not: "(k::nat) < 10 \<Longrightarrow> (of_char d :: nat) < 48 \<or> 57 < (of_char d :: nat) \<Longrightarrow> char_of (48 + k) \<noteq> d"
  by (rule notI, drule arg_cong [where f = "of_char :: char \<Rightarrow> nat"]) (auto simp: of_char_digit simp del: of_char_of)

lemma digit_char:
  assumes "k < 10"
  shows "is_digit (char_of (48 + k))" and "int (of_char (char_of (48 + k))) - 48 = int k" and "\<not> is_space (char_of (48 + k))"
    and "char_of (48 + k) \<noteq> CHR ''-''" and "char_of (48 + k) \<noteq> CHR ''+''" and "char_of (48 + k) \<noteq> CHR '':''"
    and "char_of (48 + k) \<noteq> CHR '',''" and "char_of (48 + k) \<noteq> NUL"
  using assms by (simp_all add: is_digit_def is_space_def of_char_digit digit_not del: of_char_of)

lemma scan_digits_append:
  "\<forall>c\<in>set cs. is_digit c \<Longrightarrow> scan_digits (cs @ ds) v = scan_digits ds (scan_digits cs v)"
  by (induction cs arbitrary: v) auto

lemma decimal_digits: "c \<in> set (decimal n) \<Longrightarrow> \<exists>k<(10::nat). c = char_of (48 + k)"
proof (induction n rule: decimal.induct)
  case (1 n)
  then show ?case by (subst (asm) (2) decimal.simps) (auto split: if_splits intro: exI [of _ "n mod 10"])
qed

lemma decimal_is_digit: "\<forall>c\<in>set (decimal n). is_digit c"
  using decimal_digits digit_char(1) by metis

definition no_digit :: "string \<Rightarrow> bool" where
  "no_digit s \<longleftrightarrow> (case s of [] \<Rightarrow> True | c # cs \<Rightarrow> \<not> is_digit c)"

lemma scan_digits_stop: "no_digit s \<Longrightarrow> scan_digits s v = v"
  by (cases s) (auto simp: no_digit_def)

lemma scan_digits_decimal: "no_digit s \<Longrightarrow> scan_digits (decimal n @ s) 0 = int n"
proof -
  have plain: "scan_digits (decimal n) 0 = int n"
  proof (induction n rule: decimal.induct)
    case (1 n)
    show ?case
    proof (cases "n < 10")
      case True
      then show ?thesis by (subst decimal.simps) (simp add: digit_char(1,2) del: of_char_of)
    next
      case False
      have "10 * int (n div 10) + int (n mod 10) = int n"
        by (metis mult_div_mod_eq of_nat_add of_nat_mult of_nat_numeral)
      with False show ?thesis
        using 1 decimal_is_digit [of "n div 10"]
        by (subst decimal.simps) (simp add: scan_digits_append digit_char(1,2) del: of_char_of)
    qed
  qed
  assume "no_digit s"
  then show ?thesis
    using plain decimal_is_digit [of n] by (simp add: scan_digits_append scan_digits_stop)
qed

lemma decimal_cons: obtains k :: nat and ks where "decimal n = char_of (48 + k) # ks" "k < 10"
proof -
  have "decimal n \<noteq> []" by (subst decimal.simps) simp
  then obtain c cs where "decimal n = c # cs" by (cases "decimal n") auto
  then show ?thesis using decimal_digits [of c n] that by auto
qed

lemma wrap_int_small: "0 \<le> v \<Longrightarrow> v < 2147483648 \<Longrightarrow> wrap_int v = v"
  by (simp add: wrap_int_def)

lemma scan_int_decimal:
  assumes "no_digit s" and "n < 2147483648"
  shows "scan_int pl (decimal n @ s) = Some (int n)"
proof -
  obtain k :: nat and ks where k: "decimal n = char_of (48 + k) # ks" "k < 10" by (rule decimal_cons)
  have "scan_digits (decimal n @ s) 0 = int n" using assms(1) by (rule scan_digits_decimal)
  then show ?thesis
    using k digit_char [OF k(2)] assms(2) by (simp add: scan_int_def scan_nat_def wrap_int_small)
qed

subsection \<open>The text of a list of nodes\<close>

definition node_text :: "portal \<Rightarrow> string" where
  "node_text p = p_addr p @ CHR '':'' # decimal (p_port p)"

definition good_node :: "portal \<Rightarrow> bool" where
  "good_node p \<longleftrightarrow> length (p_addr p) \<le> 15 \<and> CHR '':'' \<notin> set (p_addr p) \<and> CHR '','' \<notin> set (p_addr p) \<and> NUL \<notin> set (p_addr p) \<and>
     p_port p < 65536"

definition bd_text :: "portal list \<Rightarrow> string" where
  "bd_text ps = ''rdma://'' @ decimal (length ps) @ concat (map (\<lambda>p. CHR '','' # node_text p) ps)"

definition file_lines :: "portal list \<Rightarrow> string list" where
  "file_lines ps = (decimal (length ps) @ [CHR 0x0A]) # map (\<lambda>p. node_text p @ [CHR 0x0A]) ps"

lemma find_colon_at: "CHR '':'' \<notin> set a \<Longrightarrow> find_colon (a @ CHR '':'' # r) j = Inr (j + length a)"
  by (induction a arbitrary: j) auto

lemma decimal_free: "CHR '','' \<notin> set (decimal n)" "NUL \<notin> set (decimal n)"
  using decimal_digits digit_char(7,8) by metis+

lemma c_string_append: "NUL \<notin> set a \<Longrightarrow> c_string (a @ r) = a @ c_string r"
  unfolding c_string_def by (induction a) auto

lemma c_string_self: "NUL \<notin> set a \<Longrightarrow> c_string a = a"
  using c_string_append [of a "[]"] by (simp add: c_string_def)

lemma no_digit_c_string: "no_digit r \<Longrightarrow> no_digit (c_string r)"
  by (cases r) (auto simp: no_digit_def c_string_def)

lemma parse_node_text:
  assumes "good_node p" and "no_digit r"
  shows "parse_node pl (node_text p @ r) = Inr p"
proof -
  have "scan_int pl (c_string (decimal (p_port p) @ r)) = Some (int (p_port p))"
    using assms by (simp add: c_string_append decimal_free scan_int_decimal no_digit_c_string good_node_def)
  with assms(1) show ?thesis
    by (cases p) (auto simp: parse_node_def node_text_def find_colon_at good_node_def c_string_self nat_mod_distrib)
qed

lemma strsep_free: "CHR '','' \<notin> set t \<Longrightarrow> strsep t = (t, None)"
  by (induction t) auto

lemma strsep_comma: "CHR '','' \<notin> set t \<Longrightarrow> strsep (t @ CHR '','' # r) = (t, Some r)"
  by (induction t) auto

definition rest_text :: "portal list \<Rightarrow> string option" where
  "rest_text ps = (case ps of [] \<Rightarrow> None | p # qs \<Rightarrow> Some (node_text p @ concat (map (\<lambda>p. CHR '','' # node_text p) qs)))"

lemma strsep_rest:
  "CHR '','' \<notin> set t \<Longrightarrow> strsep (t @ concat (map (\<lambda>p. CHR '','' # node_text p) ps)) = (t, rest_text ps)"
  by (cases ps) (simp_all add: rest_text_def strsep_free strsep_comma)

lemma node_text_free: "good_node p \<Longrightarrow> CHR '','' \<notin> set (node_text p)"
  by (auto simp: node_text_def good_node_def decimal_free)

lemma portal_loop_text: "\<forall>p\<in>set ps. good_node p \<Longrightarrow> portal_loop (length ps) (rest_text ps) acc = Inr (acc @ ps)"
proof (induction ps arbitrary: acc)
  case (Cons p ps)
  have "no_digit (case rest_text ps of None \<Rightarrow> [] | Some u \<Rightarrow> NUL # u)"
    by (simp add: no_digit_def is_digit_def split: option.split)
  moreover have "rest_text (p # ps) = Some (node_text p @ concat (map (\<lambda>p. CHR '','' # node_text p) ps))"
    by (simp add: rest_text_def)
  ultimately show ?case
    using Cons by (simp add: strsep_rest node_text_free parse_node_text)
qed (simp add: rest_text_def)

lemma bd_parser_text:
  assumes "\<forall>p\<in>set ps. good_node p" and "length ps < 2147483648"
  shows "bd_portal_parser (bd_text ps) = Inr (int (length ps), ps)"
proof -
  have "scan_int False (decimal (length ps)) = Some (int (length ps))"
    using scan_int_decimal [of "[]" "length ps" False] assms(2) by (simp add: no_digit_def)
  then show ?thesis
    using assms(1) by (simp add: bd_portal_parser_def bd_text_def strsep_rest decimal_free portal_loop_text)
qed

lemma portal_lines_text:
  "\<forall>p\<in>set ps. good_node p \<Longrightarrow> int (length acc + length ps) \<le> n \<Longrightarrow>
   portal_lines (map (\<lambda>p. node_text p @ [CHR 0x0A]) ps) n buf acc = Inr (acc @ ps)"
proof (induction ps arbitrary: acc buf)
  case (Cons p ps)
  have "parse_node True (fgets_buf (node_text p @ [CHR 0x0A]) buf) = Inr p"
    using Cons.prems(1) parse_node_text [of p "CHR 0x0A # NUL # drop (length (node_text p) + 2) buf" True]
    by (simp add: fgets_buf_def no_digit_def is_digit_def)
  then show ?case using Cons by simp
qed simp

lemma file_parser_text:
  assumes "\<forall>p\<in>set ps. good_node p" and "length ps < 2147483648"
  shows "daemon_portal_parser (file_lines ps) buf = Inr (int (length ps), ps)"
proof -
  have "c_string (decimal (length ps) @ [CHR 0x0A]) = decimal (length ps) @ [CHR 0x0A]"
    by (rule c_string_self) (simp add: decimal_free)
  then have "scan_int True (c_string (decimal (length ps) @ [CHR 0x0A])) = Some (int (length ps))"
    using assms(2) by (simp add: scan_int_decimal no_digit_def is_digit_def)
  then show ?thesis
    using assms(1) by (simp add: daemon_portal_parser_def file_lines_def portal_lines_text)
qed

definition sample_nodes :: "portal list" where
  "sample_nodes = [\<lparr>p_addr = ''192.168.0.11'', p_port = 9400\<rparr>, \<lparr>p_addr = ''192.168.0.12'', p_port = 9401\<rparr>]"

text \<open>
  C37. Both programs read back a list of nodes from its text: the portal string of the block device, for any nodes whose address
  has at most fifteen characters and no separator and whose port has sixteen bits, and the portal file of the daemon,
  whatever the line buffer held before.
\<close>
theorem portal_roundtrip:
  assumes "\<forall>p\<in>set ps. good_node p" and "length ps < 2147483648"
  shows "bd_portal_parser (bd_text ps) = Inr (int (length ps), ps) \<and> daemon_portal_parser (file_lines ps) buf = Inr (int (length ps), ps)"
  using bd_parser_text [OF assms] file_parser_text [OF assms] by simp

theorem portal_roundtrip_witness:
  "bd_portal_parser (bd_text sample_nodes) = Inr (2, sample_nodes) \<and>
   daemon_portal_parser (file_lines sample_nodes) (replicate 256 (CHR ''9'')) = Inr (2, sample_nodes)"
  using portal_roundtrip [of sample_nodes "replicate 256 (CHR ''9'')"] by (simp add: sample_nodes_def good_node_def)

end
