(* ===== verification/Session_Create.thy ===== *)
theory Session_Create
  imports Ctx_Pool Block_Map Portal
begin

text \<open>
  The start of the block device's side (\<open>valet_session_create\<close> of rdmabox.c): the portal is parsed, one control block is made for each node, the
  placement tables are empty, and the two pools of contexts are filled. The addresses of the nodes are kept as the list of portals; only the connection
  manager uses them.
\<close>

abbreviation (input) VALET_QUEUE_DEPTH :: nat where "VALET_QUEUE_DEPTH \<equiv> 256"
abbreviation (input) MAX_PORTAL_NAME :: nat where "MAX_PORTAL_NAME \<equiv> 2048"
abbreviation (input) VALET_PAGE_SIZE :: nat where "VALET_PAGE_SIZE \<equiv> 4096"
abbreviation (input) RDMA_WR_BUF_LEN :: nat where "RDMA_WR_BUF_LEN \<equiv> 128"

text \<open>
  A control block as \<open>kzalloc\<close> gives it, with its index. Its tables are not there yet; \<open>IDLE\<close> and \<open>DONE\<close> stand for the zero in the
  two enumerations, which start at one.
\<close>

definition zero_cb :: "nat \<Rightarrow> kernel_cb" where
  "zero_cb i =
     (let m = \<lparr>m_type = DONE, m_size_gb = 0, m_rb_index = 0, m_cb_index = 0, m_replica_index = 0,
               m_buf = replicate MAX_MR_SIZE_GB 0, m_rkey = replicate MAX_MR_SIZE_GB 0\<rparr>
      in \<lparr>cb_index = int i,
          rbh = \<lparr>remote_blocks = [], remote_mapped = [], block_size_gb = 0, target_size_gb = 0, age_sum = 0, rb_idx_map = [],
            mig_rb_idx = [], c_state = RBH_IDLE, dest_rb_index = 0, dest_cb_index = 0, src_rb_index = 0, src_cb_index = 0,
            client_swapspace_index = 0, rbh_replica_index = 0\<rparr>,
          cb_st = IDLE, recv_buf = m, send_buf = m\<rparr>)"

text \<open>The node list and the tables. \<open>kzalloc\<close> of a negative size gives nothing.\<close>

definition create_tables :: "int \<Rightarrow> valet_session \<Rightarrow> valet_session" where
  "create_tables p_count S = S\<lparr>cb_num := nat p_count, mapped_cb_num := 0, cb_list := map zero_cb [0..<nat p_count],
     cb_state_list := replicate (nat p_count) CB_IDLE, cb_index_map := replicate NUM_REPLICA (replicate SWAPSPACE_SIZE_G NO_CB_MAPPED),
     mapping_swapspace_to_rb := replicate NUM_REPLICA (replicate SWAPSPACE_SIZE_G (- 1)), rdma_on := DEV_RDMA_OFF\<rparr>"

text \<open>
  \<open>kzw\<close> and \<open>kzr\<close> are what \<open>kzalloc\<close> gives for the contexts of the two pools. The portal is copied into a buffer of
  2048 bytes without its final zero. The result is the C return.
\<close>

definition valet_session_create ::
  "(nat \<Rightarrow> ptr \<times> bool) \<Rightarrow> (nat \<Rightarrow> ptr \<times> bool) \<Rightarrow> nat \<Rightarrow> string \<Rightarrow> rdma_mem \<Rightarrow> (int \<times> portal list \<times> rdma_mem) outcome" where
  "valet_session_create kzw kzr submit_queues portal s =
     (if MAX_PORTAL_NAME \<le> length portal then Inl Out_Of_Bounds
      else bind_ok (bd_portal_parser portal) (\<lambda>(p_count, ps).
        if p_count < 0 then Inl Panic
        else
          let S = create_tables p_count (sess s);
              cap = submit_queues * VALET_QUEUE_DEPTH * nat p_count
          in bind_ok (rdma_freepool_create kzw True cap (VALET_PAGE_SIZE * RDMA_WR_BUF_LEN) (rdma_write_freepool S) (ctxs s)) (\<lambda>(ret, wp, cs).
             if ret \<noteq> 0 then Inl Panic
             else bind_ok (rdma_freepool_create kzr True cap VALET_PAGE_SIZE (rdma_read_freepool S) cs) (\<lambda>(ret, rp, cs).
                  if ret \<noteq> 0 then Inl Panic
                  else Inr (0, ps, s\<lparr>sess := S\<lparr>rdma_write_freepool := wp, rdma_read_freepool := rp\<rparr>, ctxs := cs\<rparr>)))))"

subsection \<open>The pools\<close>

definition new_ctx :: "nat \<Rightarrow> rdma_ctx" where
  "new_ctx sz = \<lparr>rdma_buf = replicate sz 0, ctx_req = NULL, ctx_rb_index = - 1, ctx_cb = 0, ctx_offset = 0,
     ctx_len = 0, ctx_rb = None, sending_item = NULL, in_flight = CTX_IDLE, ctx_replica_index = 0\<rparr>"

lemma freepool_fill_contents:
  "freepool_fill n kz sz i p cs = Inr (0, p', cs') \<Longrightarrow>
   cs' x = (if x \<in> (\<lambda>j. fst (kz j)) ` {i..<i + n} then Some (new_ctx sz) else cs x)"
proof (induction n arbitrary: i p cs)
  case (Suc n)
  have r: "{i..<i + Suc n} = insert i {Suc i..<Suc i + n}" by auto
  obtain p1 where "freepool_fill n kz sz (Suc i) p1 (cs(fst (kz i) \<mapsto> new_ctx sz)) = Inr (0, p', cs')"
    using Suc.prems by (auto simp: bind_ok_eq_Inr new_ctx_def split: if_splits)
  from Suc.IH [OF this] show ?case unfolding r by auto
qed simp

lemma freepool_create_full:
  assumes "\<forall>j<cap. fst (kz j) \<noteq> NULL \<and> snd (kz j)" and "inj_on (\<lambda>j. fst (kz j)) {..<cap}"
  shows "\<exists>p' cs'. rdma_freepool_create kz True cap sz p cs = Inr (0, p', cs') \<and> free_ctxs p' = (\<lambda>j. fst (kz j)) ` {..<cap} \<and>
    (\<forall>x. cs' x = (if x \<in> (\<lambda>j. fst (kz j)) ` {..<cap} then Some (new_ctx sz) else cs x))"
proof -
  obtain p' cs' where p: "rdma_freepool_create kz True cap sz p cs = Inr (0, p', cs')" "ctxs.shared ((\<lambda>j. fst (kz j)) ` {..<cap}) (p', {})"
    using freepool_create_ok [OF assms] by blast
  have "cs' x = (if x \<in> (\<lambda>j. fst (kz j)) ` {0..<0 + cap} then Some (new_ctx sz) else cs x)" for x
    using p(1) by (intro freepool_fill_contents) (simp add: rdma_freepool_create_def)
  then show ?thesis using p by (auto simp: ctxs.shared_def atLeast0LessThan)
qed

subsection \<open>The tables\<close>

lemma create_tables_ok:
  "maps_ok (create_tables n S)" "placement (create_tables n S) g = None" "\<not> isRDMAon (create_tables n S)"
  "cb_num (create_tables n S) = nat n" "set (cb_state_list (create_tables n S)) \<subseteq> {CB_IDLE}"
proof -
  show p: "placement (create_tables n S) g = None" for g by (simp add: placement_def create_tables_def)
  have "session_ok (create_tables n S)"
    by (simp add: session_ok_def create_tables_def zero_cb_def Let_def)
  then show "maps_ok (create_tables n S)" by (simp add: maps_ok_def p) (simp add: create_tables_def tab_ok_def)
qed (auto simp: create_tables_def isRDMAon_def)

lemma pools_view:
  "maps_ok (S\<lparr>rdma_write_freepool := w, rdma_read_freepool := r\<rparr>) = maps_ok S"
  "placement (S\<lparr>rdma_write_freepool := w, rdma_read_freepool := r\<rparr>) = placement S"
proof -
  show p: "placement (S\<lparr>rdma_write_freepool := w, rdma_read_freepool := r\<rparr>) = placement S" by (simp add: fun_eq_iff placement_def)
  show "maps_ok (S\<lparr>rdma_write_freepool := w, rdma_read_freepool := r\<rparr>) = maps_ok S"
    unfolding maps_ok_def p by (simp add: session_ok_def placed_ok_def block_at_def)
qed

lemma nodes_fit: "length ps \<le> length (bd_text ps)"
proof -
  have "length ps \<le> length (concat (map (\<lambda>p. CHR '','' # node_text p) ps))" by (induction ps) auto
  then show ?thesis by (simp add: bd_text_def)
qed

lemma session_create_run:
  assumes "length portal < MAX_PORTAL_NAME" and "bd_portal_parser portal = Inr (int n, ps)" and "cap = q * VALET_QUEUE_DEPTH * n"
    and "rdma_freepool_create kw True cap (VALET_PAGE_SIZE * RDMA_WR_BUF_LEN) (rdma_write_freepool (create_tables (int n) (sess s))) (ctxs s) = Inr (0, wp, cs)"
    and "rdma_freepool_create kr True cap VALET_PAGE_SIZE (rdma_read_freepool (create_tables (int n) (sess s))) cs = Inr (0, rp, cs')"
  shows "valet_session_create kw kr q portal s =
    Inr (0, ps, s\<lparr>sess := (create_tables (int n) (sess s))\<lparr>rdma_write_freepool := wp, rdma_read_freepool := rp\<rparr>, ctxs := cs'\<rparr>)"
proof -
  have p: "\<not> MAX_PORTAL_NAME \<le> length portal" "\<not> int n < 0" using assms(1) by simp_all
  show ?thesis unfolding valet_session_create_def if_not_P [OF p(1)] assms(2) bind_ok_simps Let_def prod.case if_not_P [OF p(2)] nat_int
      assms(3) [symmetric] assms(4,5)
    by simp
qed

lemma session_create_ok:
  assumes "\<forall>p\<in>set ps. good_node p" and "length (bd_text ps) < MAX_PORTAL_NAME" and "cap = q * VALET_QUEUE_DEPTH * length ps"
    and "\<forall>j<cap. fst (kw j) \<noteq> NULL \<and> snd (kw j)" and "inj_on (\<lambda>j. fst (kw j)) {..<cap}"
    and "\<forall>j<cap. fst (kr j) \<noteq> NULL \<and> snd (kr j)" and "inj_on (\<lambda>j. fst (kr j)) {..<cap}"
    and "(\<lambda>j. fst (kw j)) ` {..<cap} \<inter> (\<lambda>j. fst (kr j)) ` {..<cap} = {}"
  shows "\<exists>s'. valet_session_create kw kr q (bd_text ps) s = Inr (0, ps, s') \<and> maps_ok (sess s') \<and> placement (sess s') = Map.empty \<and>
    cb_num (sess s') = length ps \<and> set (cb_state_list (sess s')) \<subseteq> {CB_IDLE} \<and> \<not> isRDMAon (sess s') \<and>
    free_ctxs (rdma_write_freepool (sess s')) = (\<lambda>j. fst (kw j)) ` {..<cap} \<and> free_ctxs (rdma_read_freepool (sess s')) = (\<lambda>j. fst (kr j)) ` {..<cap} \<and>
    (\<forall>j<cap. ctxs s' (fst (kw j)) = Some (new_ctx (VALET_PAGE_SIZE * RDMA_WR_BUF_LEN)) \<and> ctxs s' (fst (kr j)) = Some (new_ctx VALET_PAGE_SIZE))"
proof -
  let ?S = "create_tables (int (length ps)) (sess s)"
  have n: "length ps < 2147483648" using nodes_fit [of ps] assms(2) by linarith
  obtain wp cs where w: "rdma_freepool_create kw True cap (VALET_PAGE_SIZE * RDMA_WR_BUF_LEN) (rdma_write_freepool ?S) (ctxs s) = Inr (0, wp, cs)"
    "free_ctxs wp = (\<lambda>j. fst (kw j)) ` {..<cap}" "\<And>x. cs x = (if x \<in> (\<lambda>j. fst (kw j)) ` {..<cap} then Some (new_ctx (VALET_PAGE_SIZE * RDMA_WR_BUF_LEN)) else ctxs s x)"
    using freepool_create_full [OF assms(4,5)] by blast
  obtain rp cs' where r: "rdma_freepool_create kr True cap VALET_PAGE_SIZE (rdma_read_freepool ?S) cs = Inr (0, rp, cs')"
    "free_ctxs rp = (\<lambda>j. fst (kr j)) ` {..<cap}" "\<And>x. cs' x = (if x \<in> (\<lambda>j. fst (kr j)) ` {..<cap} then Some (new_ctx VALET_PAGE_SIZE) else cs x)"
    using freepool_create_full [OF assms(6,7)] by blast
  let ?s = "s\<lparr>sess := ?S\<lparr>rdma_write_freepool := wp, rdma_read_freepool := rp\<rparr>, ctxs := cs'\<rparr>"
  have "valet_session_create kw kr q (bd_text ps) s = Inr (0, ps, ?s)"
    by (rule session_create_run [OF assms(2) bd_parser_text [OF assms(1) n] assms(3) w(1) r(1)])
  moreover have "ctxs ?s (fst (kw j)) = Some (new_ctx (VALET_PAGE_SIZE * RDMA_WR_BUF_LEN)) \<and> ctxs ?s (fst (kr j)) = Some (new_ctx VALET_PAGE_SIZE)" if "j < cap" for j
    using that w(3) r(3) assms(8) by auto
  ultimately show ?thesis using w(2) r(2) create_tables_ok [of "int (length ps)" "sess s"]
    by (intro exI [of _ ?s]) (simp add: pools_view fun_eq_iff isRDMAon_def)
qed

text \<open>
  C38. The block device starts from a portal: the parsed nodes have one idle control block each, nothing is placed and remote memory is off, the invariant
  of the placement holds, and both pools are full of their own contexts, each with a buffer of the size its transfers need.
\<close>
theorem session_created:
  assumes "\<forall>p\<in>set ps. good_node p" and "length (bd_text ps) < MAX_PORTAL_NAME" and "cap = q * VALET_QUEUE_DEPTH * length ps"
    and "\<forall>j<cap. fst (kw j) \<noteq> NULL \<and> snd (kw j)" and "inj_on (\<lambda>j. fst (kw j)) {..<cap}"
    and "\<forall>j<cap. fst (kr j) \<noteq> NULL \<and> snd (kr j)" and "inj_on (\<lambda>j. fst (kr j)) {..<cap}"
    and "(\<lambda>j. fst (kw j)) ` {..<cap} \<inter> (\<lambda>j. fst (kr j)) ` {..<cap} = {}"
  shows "\<exists>s'. valet_session_create kw kr q (bd_text ps) s = Inr (0, ps, s') \<and> maps_ok (sess s') \<and> placement (sess s') = Map.empty \<and>
    cb_num (sess s') = length ps \<and> set (cb_state_list (sess s')) \<subseteq> {CB_IDLE} \<and> \<not> isRDMAon (sess s') \<and>
    free_ctxs (rdma_write_freepool (sess s')) = (\<lambda>j. fst (kw j)) ` {..<cap} \<and> free_ctxs (rdma_read_freepool (sess s')) = (\<lambda>j. fst (kr j)) ` {..<cap} \<and>
    (\<forall>j<cap. ctxs s' (fst (kw j)) = Some (new_ctx (VALET_PAGE_SIZE * RDMA_WR_BUF_LEN)) \<and> ctxs s' (fst (kr j)) = Some (new_ctx VALET_PAGE_SIZE))"
  using assms by (rule session_create_ok)

theorem session_created_witness:
  "\<forall>s. \<exists>s'. valet_session_create (\<lambda>j. (1000 + j, True)) (\<lambda>j. (9000 + j, True)) 4 (bd_text sample_nodes) s = Inr (0, sample_nodes, s') \<and>
    maps_ok (sess s') \<and> cb_num (sess s') = 2 \<and> placement (sess s') = Map.empty"
proof
  fix s
  have g: "\<forall>p\<in>set sample_nodes. good_node p" by (simp add: sample_nodes_def good_node_def)
  have t: "length (bd_text sample_nodes) < MAX_PORTAL_NAME" by (simp add: sample_nodes_def bd_text_def node_text_def decimal.simps)
  have n: "length sample_nodes = 2" "(2048::nat) = 4 * VALET_QUEUE_DEPTH * length sample_nodes" by (simp_all add: sample_nodes_def)
  let ?w = "\<lambda>j::nat. (1000 + j, True)" and ?r = "\<lambda>j::nat. (9000 + j, True)"
  have k: "\<forall>j<2048. fst (?w j) \<noteq> NULL \<and> snd (?w j)" "inj_on (\<lambda>j. fst (?w j)) {..<2048}"
      "\<forall>j<2048. fst (?r j) \<noteq> NULL \<and> snd (?r j)" "inj_on (\<lambda>j. fst (?r j)) {..<2048}"
      "(\<lambda>j. fst (?w j)) ` {..<2048} \<inter> (\<lambda>j. fst (?r j)) ` {..<2048} = {}"
    by (auto simp: inj_on_def)
  show "\<exists>s'. valet_session_create ?w ?r 4 (bd_text sample_nodes) s = Inr (0, sample_nodes, s') \<and>
      maps_ok (sess s') \<and> cb_num (sess s') = 2 \<and> placement (sess s') = Map.empty"
    using session_created [OF g t n(2) k, of s] unfolding n(1) by blast
qed

end
