(* ===== verification/Driver.thy ===== *)
theory Driver
  imports Session_Create Diskbox
begin

text \<open>
  The block device driver (valet_drv.c) and the files under which it is configured (valet_configfs.c): a session is a directory, its portal an
  attribute, each device a directory inside it. The driver registers a device with the block layer of the kernel, which calls back for each hardware queue and
  for each request.

  What the kernel grants is the argument \<open>kern_env\<close>. The driver's objects live in maps from addresses; the page pool and the page table
  are global, in \<open>heap\<close>, whose session is the one in use.
\<close>

subsection \<open>State\<close>

datatype valet_dev_state = DEVICE_INITIALIZING | DEVICE_OPENNING | DEVICE_RUNNING | DEVICE_OFFLINE

record valet_queue =
  vq_depth :: nat
  vq_sess :: ptr
  vq_xdev :: ptr

text \<open>The block layer's queue: for each hardware queue the \<open>valet_queue\<close> in its driver data, and the limit on a request in sectors.\<close>

record request_queue =
  rq_hctxs :: "nat option list"
  rq_max_sectors :: nat

record valet_file =
  vf_major :: int
  st_size :: u64
  file_name :: string
  vf_disk :: "gendisk cptr"
  vf_queue :: "request_queue cptr"
  vf_queues :: "valet_queue list cptr"
  vf_queue_depth :: nat
  nr_queues :: nat
  vf_index :: int
  dev_name :: string
  vf_sess :: ptr
  vf_state :: valet_dev_state

record dev_session =
  ds_portal :: string
  ds_devs :: "ptr list"
  ds_xdev :: ptr
  ds_capacity :: u64
  ds_nodes :: valet_session

record drv =
  heap :: rdma_mem
  files :: "ptr \<rightharpoonup> valet_file"
  sessions :: "ptr \<rightharpoonup> dev_session"
  g_valet_sessions :: "ptr list cptr"
  valet_indexes :: int
  created_portals :: int
  valet_major :: int
  submit_queues :: nat
  stackbd :: stackbd_t
  configfs_up :: bool

record kern_env =
  ke_queues :: bool
  ke_vzalloc :: "u64 \<Rightarrow> bool"
  ke_vmalloc :: "nat \<Rightarrow> ptr list option"
  ke_alloc :: "nat \<Rightarrow> ptr \<times> page"
  ke_freeram :: int
  ke_backup :: "disk_env option"
  ke_tag_set :: int
  ke_init_queue :: int
  ke_disk :: bool
  ke_ctx_w :: "nat \<Rightarrow> ptr \<times> bool"
  ke_ctx_r :: "nat \<Rightarrow> ptr \<times> bool"

text \<open>What \<open>kzalloc\<close> gives; an object enters its map under the address granted.\<close>

definition zero_file :: valet_file where
  "zero_file = \<lparr>vf_major = 0, st_size = 0, file_name = [], vf_disk = Null, vf_queue = Null, vf_queues = Null, vf_queue_depth = 0, nr_queues = 0,
     vf_index = 0, dev_name = [], vf_sess = NULL, vf_state = DEVICE_INITIALIZING\<rparr>"

definition zero_nodes :: valet_session where
  "zero_nodes = \<lparr>cb_num = 0, mapped_cb_num = 0, cb_list = [], cb_state_list = [], cb_index_map = [], mapping_swapspace_to_rb = [], rdma_on = 0,
     rdma_write_freepool = \<lparr>fp_cap_nr = 0, fp_curr_nr = 0, fp_elements = []\<rparr>, rdma_read_freepool = \<lparr>fp_cap_nr = 0, fp_curr_nr = 0, fp_elements = []\<rparr>\<rparr>"

definition zero_dev_session :: dev_session where
  "zero_dev_session = \<lparr>ds_portal = [], ds_devs = [], ds_xdev = NULL, ds_capacity = 0, ds_nodes = zero_nodes\<rparr>"

definition put_file :: "ptr \<Rightarrow> valet_file \<Rightarrow> drv \<Rightarrow> drv" where
  "put_file fp f d = d\<lparr>files := (files d)(fp \<mapsto> f)\<rparr>"

definition put_session :: "ptr \<Rightarrow> dev_session \<Rightarrow> drv \<Rightarrow> drv" where
  "put_session sp S d = d\<lparr>sessions := (sessions d)(sp \<mapsto> S)\<rparr>"

text \<open>\<open>sscanf\<close> with \<open>%s\<close> into a buffer of \<open>n\<close> bytes: the first word, if there is one.\<close>

definition scan_word :: "string \<Rightarrow> string option" where
  "scan_word s = (let w = takeWhile (\<lambda>c. \<not> is_space c) (dropWhile is_space s) in if w = [] then None else Some w)"

definition scan_into :: "nat \<Rightarrow> string \<Rightarrow> string \<Rightarrow> string outcome" where
  "scan_into n s old = (case scan_word s of None \<Rightarrow> Inr old | Some w \<Rightarrow> if length w < n then Inr w else Inl Out_Of_Bounds)"

definition kfree :: "'a cptr \<Rightarrow> 'a cptr outcome" where
  "kfree p = (case p of Null \<Rightarrow> Inr Null | Live x \<Rightarrow> Inr Freed | Freed \<Rightarrow> Inl Null_Deref)"

subsection \<open>The state of a device\<close>

definition valet_set_device_state :: "valet_dev_state \<Rightarrow> valet_file \<Rightarrow> int \<times> valet_file" where
  "valet_set_device_state st f =
     (case st of
        DEVICE_OPENNING \<Rightarrow>
          if vf_state f = DEVICE_OFFLINE \<or> vf_state f = DEVICE_RUNNING then (- 22, f) else (0, f\<lparr>vf_state := st\<rparr>)
      | DEVICE_RUNNING \<Rightarrow> (0, f\<lparr>vf_state := st\<rparr>)
      | DEVICE_OFFLINE \<Rightarrow> (0, f\<lparr>vf_state := st\<rparr>)
      | DEVICE_INITIALIZING \<Rightarrow> (- 22, f))"

definition valet_device_state_str :: "valet_file \<Rightarrow> string" where
  "valet_device_state_str f =
     (case vf_state f of
        DEVICE_INITIALIZING \<Rightarrow> ''Initial state'' | DEVICE_OPENNING \<Rightarrow> ''openning''
      | DEVICE_RUNNING \<Rightarrow> ''running'' | DEVICE_OFFLINE \<Rightarrow> ''offline'')"

subsection \<open>Queues\<close>

definition valet_setup_queues :: "kern_env \<Rightarrow> nat \<Rightarrow> valet_file \<Rightarrow> int \<times> valet_file" where
  "valet_setup_queues env n f =
     (if \<not> ke_queues env then (- 12, f\<lparr>vf_queues := Null\<rparr>)
      else (0, f\<lparr>vf_queues := Live (replicate n \<lparr>vq_depth = 0, vq_sess = NULL, vq_xdev = NULL\<rparr>)\<rparr>))"

definition valet_destroy_queues :: "valet_file \<Rightarrow> valet_file outcome" where
  "valet_destroy_queues f = bind_ok (kfree (vf_queues f)) (\<lambda>qs. Inr (f\<lparr>vf_queues := qs\<rparr>))"

text \<open>The callback of the block layer for its hardware queue \<open>index\<close>.\<close>

definition valet_init_hctx :: "ptr \<Rightarrow> nat \<Rightarrow> valet_file \<Rightarrow> valet_file outcome" where
  "valet_init_hctx fp index f =
     bind_ok (live (vf_queues f)) (\<lambda>qs.
     bind_ok (arr_set qs index \<lparr>vq_depth = vf_queue_depth f, vq_sess = vf_sess f, vq_xdev = fp\<rparr>) (\<lambda>qs.
     bind_ok (live (vf_queue f)) (\<lambda>rq. bind_ok (arr_set (rq_hctxs rq) index (Some index)) (\<lambda>hs.
       Inr (f\<lparr>vf_queues := Live qs, vf_queue := Live (rq\<lparr>rq_hctxs := hs\<rparr>)\<rparr>)))))"

text \<open>\<open>blk_mq_init_queue\<close> makes the queue and calls back for each hardware queue.\<close>

definition init_queue :: "nat \<Rightarrow> ptr \<Rightarrow> valet_file \<Rightarrow> valet_file outcome" where
  "init_queue n fp f = foldM (valet_init_hctx fp) [0..<n] (f\<lparr>vf_queue := Live \<lparr>rq_hctxs = replicate n None, rq_max_sectors = 0\<rparr>\<rparr>)"

subsection \<open>Registering a device\<close>

text \<open>
  The name of the disk goes into a buffer of 32 bytes. A page has eight sectors; a request may have \<open>MAX_SECTORS\<close> pages.
\<close>

definition disk_of_file :: "string \<Rightarrow> valet_file \<Rightarrow> gendisk" where
  "disk_of_file nm f = \<lparr>gd_major = vf_major f, gd_first_minor = vf_index f, gd_capacity = st_size f div 512, gd_name = nm\<rparr>"

definition valet_register_block_device :: "kern_env \<Rightarrow> ptr \<Rightarrow> drv \<Rightarrow> (int \<times> drv) outcome" where
  "valet_register_block_device env fp d =
     bind_ok (deref (files d) fp) (\<lambda>f.
     bind_ok (mempool_init (ke_vzalloc env) (ke_vmalloc env) (ke_alloc env) (ke_freeram env) (heap d)) (\<lambda>(err, h).
       if err \<noteq> 0 then Inr (err, d\<lparr>heap := h\<rparr>)
       else let (err, h) = gpt_init h; d = d\<lparr>heap := h\<rparr> in
       if err \<noteq> 0 then Inr (err, d)
       else bind_ok (case ke_backup env of None \<Rightarrow> Inr (0, stackbd d) | Some b \<Rightarrow> stackbd_init b (stackbd d)) (\<lambda>(err, sb).
         let d = d\<lparr>stackbd := sb\<rparr>; f = f\<lparr>vf_major := valet_major d\<rparr> in
         if err \<noteq> 0 then Inr (err, d)
         else if ke_tag_set env \<noteq> 0 then Inr (ke_tag_set env, put_file fp f d)
         else if ke_init_queue env \<noteq> 0 then Inr (ke_init_queue env, put_file fp (f\<lparr>vf_queue := Freed\<rparr>) d)
         else bind_ok (init_queue (submit_queues d) fp f) (\<lambda>f.
           if \<not> ke_disk env then Inr (- 12, put_file fp (f\<lparr>vf_disk := Null, vf_queue := Freed\<rparr>) d)
           else bind_ok (scan_into 32 (dev_name f) []) (\<lambda>nm. bind_ok (live (vf_queue f)) (\<lambda>rq.
             Inr (0, put_file fp (f\<lparr>vf_disk := Live (disk_of_file nm f), vf_queue := Live (rq\<lparr>rq_max_sectors := 4096 div 512 * 8\<rparr>)\<rparr>) d)))))))"

definition valet_unregister_block_device :: "ptr \<Rightarrow> drv \<Rightarrow> drv outcome" where
  "valet_unregister_block_device fp d =
     bind_ok (deref (files d) fp) (\<lambda>f. bind_ok (live (vf_disk f)) (\<lambda>_. bind_ok (live (vf_queue f)) (\<lambda>_.
     bind_ok (stackbd_exit (stackbd d)) (\<lambda>sb.
       Inr ((put_file fp (f\<lparr>vf_disk := Freed, vf_queue := Freed\<rparr>) d)\<lparr>stackbd := sb\<rparr>)))))"

subsection \<open>Devices\<close>

definition valet_create_device :: "kern_env \<Rightarrow> ptr \<Rightarrow> string \<Rightarrow> ptr \<Rightarrow> drv \<Rightarrow> (int \<times> drv) outcome" where
  "valet_create_device env sp xdev_name fp d =
     bind_ok (deref (sessions d) sp) (\<lambda>S. bind_ok (deref (files d) fp) (\<lambda>f.
     bind_ok (scan_into 256 xdev_name (file_name f)) (\<lambda>fn.
       let f = f\<lparr>file_name := fn, vf_index := valet_indexes d, nr_queues := submit_queues d, vf_queue_depth := VALET_QUEUE_DEPTH, vf_sess := sp\<rparr>;
           d = d\<lparr>valet_indexes := valet_indexes d + 1\<rparr>;
           (ret, f) = valet_setup_queues env (submit_queues d) f
       in if ret \<noteq> 0 then Inr (ret, put_file fp f d)
          else bind_ok (valet_register_block_device env fp
                 (put_session sp (S\<lparr>ds_xdev := fp\<rparr>) (put_file fp (f\<lparr>st_size := ds_capacity S\<rparr>) d))) (\<lambda>(ret, d).
               bind_ok (deref (files d) fp) (\<lambda>f.
                 if ret \<noteq> 0 then bind_ok (valet_destroy_queues f) (\<lambda>f. Inr (ret, put_file fp f d))
                 else Inr (0, put_file fp (snd (valet_set_device_state DEVICE_RUNNING f)) d))))))"

definition valet_destroy_device :: "ptr \<Rightarrow> ptr \<Rightarrow> drv \<Rightarrow> drv outcome" where
  "valet_destroy_device sp fp d =
     bind_ok (deref (files d) fp) (\<lambda>f.
       let f = snd (valet_set_device_state DEVICE_OFFLINE f); d = put_file fp f d
       in bind_ok (if vf_disk f = Null then Inr d
                   else bind_ok (valet_unregister_block_device fp d) (\<lambda>d. bind_ok (deref (files d) fp) (\<lambda>f.
                        bind_ok (valet_destroy_queues f) (\<lambda>f. Inr (put_file fp f d))))) (\<lambda>d.
          bind_ok (deref (sessions d) sp) (\<lambda>S. Inr (put_session sp (S\<lparr>ds_devs := remove1 fp (ds_devs S)\<rparr>) d))))"

definition valet_destroy_session_devices :: "ptr \<Rightarrow> drv \<Rightarrow> drv outcome" where
  "valet_destroy_session_devices sp d =
     bind_ok (deref (sessions d) sp) (\<lambda>S. foldM (valet_destroy_device sp) (ds_devs S) d)"

text \<open>The searches give \<open>NULL\<close> when nothing has the name.\<close>

primrec find_file :: "string \<Rightarrow> ptr list \<Rightarrow> drv \<Rightarrow> ptr outcome" where
  "find_file nm [] d = Inr NULL"
| "find_file nm (pos # ps) d = bind_ok (deref (files d) pos) (\<lambda>f. if file_name f = nm then Inr pos else find_file nm ps d)"

definition valet_file_find :: "ptr \<Rightarrow> string \<Rightarrow> drv \<Rightarrow> ptr outcome" where
  "valet_file_find sp nm d = bind_ok (deref (sessions d) sp) (\<lambda>S. find_file nm (ds_devs S) d)"

primrec find_session :: "string \<Rightarrow> ptr list \<Rightarrow> drv \<Rightarrow> ptr outcome" where
  "find_session nm [] d = Inr NULL"
| "find_session nm (pos # ps) d =
     bind_ok (deref (sessions d) pos) (\<lambda>S. if c_string (ds_portal S) = nm then Inr pos else find_session nm ps d)"

definition valet_session_find_by_portal :: "string \<Rightarrow> drv \<Rightarrow> ptr outcome" where
  "valet_session_find_by_portal nm d = bind_ok (live (g_valet_sessions d)) (\<lambda>ps. find_session nm ps d)"

subsection \<open>Requests\<close>

datatype mq_status = BLK_MQ_RQ_QUEUE_OK | BLK_MQ_RQ_QUEUE_ERROR

text \<open>A request arrives on hardware queue \<open>h\<close> of a device; the queue's driver data leads to the session.\<close>

definition hctx_session :: "ptr \<Rightarrow> nat \<Rightarrow> drv \<Rightarrow> (ptr \<times> dev_session) outcome" where
  "hctx_session fp h d =
     bind_ok (deref (files d) fp) (\<lambda>f. bind_ok (live (vf_queue f)) (\<lambda>rq. bind_ok (arr_get (rq_hctxs rq) h) (\<lambda>dd.
     case dd of None \<Rightarrow> Inl Null_Deref
     | Some i \<Rightarrow> bind_ok (live (vf_queues f)) (\<lambda>qs. bind_ok (arr_get qs i) (\<lambda>q.
         bind_ok (deref (sessions d) (vq_sess q)) (\<lambda>S. Inr (vq_sess q, S)))))))"

definition valet_queue_rq :: "blk_env \<Rightarrow> ptr \<Rightarrow> nat \<Rightarrow> blk_request \<Rightarrow> drv \<Rightarrow> (mq_status \<times> read_end option \<times> drv) outcome" where
  "valet_queue_rq be fp h r d =
     bind_ok (hctx_session fp h d) (\<lambda>(sp, S).
     bind_ok (valet_request be r ((heap d)\<lparr>sess := ds_nodes S\<rparr>)) (\<lambda>(err, e, m).
       Inr (if err \<noteq> 0 then BLK_MQ_RQ_QUEUE_ERROR else BLK_MQ_RQ_QUEUE_OK, e,
            (put_session sp (S\<lparr>ds_nodes := sess m\<rparr>) d)\<lparr>heap := m\<rparr>)))"

subsection \<open>Configuration\<close>

text \<open>\<open>junk\<close> is what the uninitialised local array \<open>xdev_name\<close> holds.\<close>

definition device_attr_store :: "kern_env \<Rightarrow> string \<Rightarrow> ptr \<Rightarrow> ptr \<Rightarrow> string \<Rightarrow> drv \<Rightarrow> (int \<times> drv) outcome" where
  "device_attr_store env junk sp fp page d =
     bind_ok (scan_into 256 page junk) (\<lambda>xdev_name.
     bind_ok (valet_file_find sp xdev_name d) (\<lambda>pos.
       if pos \<noteq> NULL then Inr (- 17, d)
       else bind_ok (valet_create_device env sp xdev_name fp d) (\<lambda>(ret, d).
            Inr (if ret \<noteq> 0 then ret else int (length page), d))))"

definition state_attr_show :: "valet_file \<Rightarrow> string" where
  "state_attr_show f = valet_device_state_str f @ [CHR 0x0A]"

definition valet_device_make_group :: "ptr \<Rightarrow> ptr \<Rightarrow> string \<Rightarrow> drv \<Rightarrow> (ptr \<times> drv) outcome" where
  "valet_device_make_group fp sp nm d =
     (if fp = NULL then Inr (NULL, d)
      else let (err, f) = valet_set_device_state DEVICE_OPENNING zero_file
      in if err \<noteq> 0 then Inr (NULL, d)
         else bind_ok (scan_into 256 nm (dev_name f)) (\<lambda>nm. bind_ok (deref (sessions d) sp) (\<lambda>S.
           Inr (fp, put_session sp (S\<lparr>ds_devs := fp # ds_devs S\<rparr>) (put_file fp (f\<lparr>dev_name := nm\<rparr>) d)))))"

definition valet_device_drop :: "ptr \<Rightarrow> ptr \<Rightarrow> drv \<Rightarrow> drv outcome" where
  "valet_device_drop sp fp d =
     bind_ok (valet_destroy_device sp fp d) (\<lambda>d. Inr (d\<lparr>files := (files d)(fp := None)\<rparr>))"

definition valet_session_make_group :: "ptr \<Rightarrow> drv \<Rightarrow> (ptr \<times> drv) outcome" where
  "valet_session_make_group sp d =
     (if sp = NULL then Inr (NULL, d)
      else bind_ok (live (g_valet_sessions d)) (\<lambda>ps.
        Inr (sp, (put_session sp zero_dev_session d)\<lparr>g_valet_sessions := Live (sp # ps), created_portals := created_portals d + 1\<rparr>)))"

definition valet_session_destroy :: "ptr \<Rightarrow> drv \<Rightarrow> drv outcome" where
  "valet_session_destroy sp d =
     bind_ok (live (g_valet_sessions d)) (\<lambda>ps.
       valet_destroy_session_devices sp (d\<lparr>g_valet_sessions := Live (remove1 sp ps)\<rparr>))"

definition valet_session_drop :: "ptr \<Rightarrow> drv \<Rightarrow> drv outcome" where
  "valet_session_drop sp d =
     bind_ok (valet_session_destroy sp d) (\<lambda>d. Inr (d\<lparr>sessions := (sessions d)(sp := None)\<rparr>))"

text \<open>
  The portal of a session. \<open>memcpy\<close> writes the text over the start of \<open>portal\<close> without a zero behind it, and the parser works on that array:
  \<open>strsep\<close> puts zeros for the commas it finds.
\<close>

fun cut_commas :: "nat \<Rightarrow> string \<Rightarrow> string" where
  "cut_commas 0 s = s"
| "cut_commas n [] = []"
| "cut_commas (Suc n) (c # cs) =
     (if c = NUL then c # cs else if c = CHR '','' then NUL # cut_commas n cs else c # cut_commas (Suc n) cs)"

definition overlay :: "string \<Rightarrow> string \<Rightarrow> string" where
  "overlay s old = s @ drop (length s) old"

definition parsed_portal :: "nat \<Rightarrow> string \<Rightarrow> string" where
  "parsed_portal p_count buf = take 7 buf @ cut_commas (Suc p_count) (drop 7 buf)"

definition create_session :: "kern_env \<Rightarrow> string \<Rightarrow> ptr \<Rightarrow> drv \<Rightarrow> (int \<times> drv) outcome" where
  "create_session env portal sp d =
     bind_ok (deref (sessions d) sp) (\<lambda>S.
       let buf = overlay portal (ds_portal S)
       in bind_ok (valet_session_create (ke_ctx_w env) (ke_ctx_r env) (submit_queues d) (c_string buf) ((heap d)\<lparr>sess := ds_nodes S\<rparr>)) (\<lambda>(ret, ps, m).
          Inr (ret, (put_session sp (S\<lparr>ds_portal := parsed_portal (length ps) buf, ds_capacity := of_nat (SWAPSPACE_SIZE_G * ONE_GB), ds_nodes := sess m\<rparr>) d)
            \<lparr>heap := m\<rparr>)))"

text \<open>The attribute: \<open>strcat\<close> into 2048 bytes, then the first word of that.\<close>

definition portal_attr_store :: "kern_env \<Rightarrow> ptr \<Rightarrow> string \<Rightarrow> drv \<Rightarrow> (int \<times> drv) outcome" where
  "portal_attr_store env sp buf d =
     (if MAX_PORTAL_NAME \<le> length (''rdma://'' @ buf) then Inl Out_Of_Bounds
      else bind_ok (scan_into MAX_PORTAL_NAME (''rdma://'' @ buf) []) (\<lambda>rdma.
        bind_ok (valet_session_find_by_portal rdma d) (\<lambda>pos.
          if pos \<noteq> NULL then Inr (- 17, d)
          else bind_ok (create_session env rdma sp d) (\<lambda>(ret, d). Inr (if ret \<noteq> 0 then - 22 else int (length buf), d)))))"

subsection \<open>The module\<close>

definition valet_create_configfs_files :: "int \<Rightarrow> drv \<Rightarrow> int \<times> drv" where
  "valet_create_configfs_files err d = (err, d\<lparr>configfs_up := (err = 0)\<rparr>)"

definition valet_init_module :: "int \<Rightarrow> nat \<Rightarrow> int \<Rightarrow> drv \<Rightarrow> int \<times> drv" where
  "valet_init_module err cpus major d =
     (let (err, d) = valet_create_configfs_files err d
      in if err \<noteq> 0 then (1, d)
         else let d = d\<lparr>submit_queues := cpus, valet_major := major\<rparr>
         in if major < 0 then (major, d) else (0, d\<lparr>g_valet_sessions := Live []\<rparr>))"

definition valet_cleanup_module :: "drv \<Rightarrow> drv outcome" where
  "valet_cleanup_module d =
     bind_ok (live (g_valet_sessions d)) (\<lambda>ps. bind_ok (foldM valet_session_destroy ps d) (\<lambda>d. Inr (d\<lparr>configfs_up := False\<rparr>)))"

end
