(* ===== verification/Driver_Lemmas.thy ===== *)
theory Driver_Lemmas
  imports Driver
begin

text \<open>
  What the operations of the driver do to its objects: the queues of a device, its registration, and the searches.
\<close>

subsection \<open>Words\<close>

definition plain_word :: "string \<Rightarrow> bool" where
  "plain_word w \<longleftrightarrow> w \<noteq> [] \<and> (\<forall>c\<in>set w. \<not> is_space c)"

lemma takeWhile_all: "\<forall>c\<in>set w. P c \<Longrightarrow> (r = [] \<or> \<not> P (hd r)) \<Longrightarrow> takeWhile P (w @ r) = w"
  by (cases r) (auto simp: takeWhile_append)

lemma scan_word_plain:
  assumes "plain_word w" and "r = [] \<or> is_space (hd r)"
  shows "scan_word (w @ r) = Some w"
proof -
  obtain c cs where w: "w = c # cs" using assms(1) by (auto simp: plain_word_def neq_Nil_conv)
  have "dropWhile is_space (w @ r) = w @ r" using assms(1) w by (simp add: plain_word_def)
  moreover have "takeWhile (\<lambda>c. \<not> is_space c) (w @ r) = w"
    using assms by (intro takeWhile_all) (auto simp: plain_word_def)
  ultimately show ?thesis using w by (simp add: scan_word_def)
qed

lemma scan_word_result: "scan_word s = Some w \<Longrightarrow> plain_word w \<and> length w \<le> length s"
proof -
  assume "scan_word s = Some w"
  then have w: "w \<noteq> []" "w = takeWhile (\<lambda>c. \<not> is_space c) (dropWhile is_space s)"
    by (auto simp: scan_word_def Let_def split: if_splits)
  have "length w \<le> length (dropWhile is_space s)" unfolding w(2) by (rule length_takeWhile_le)
  also have "\<dots> \<le> length s" by (rule length_dropWhile_le)
  finally show ?thesis using w by (auto simp: plain_word_def dest: set_takeWhileD)
qed

lemma scan_into_plain: "plain_word w \<Longrightarrow> length w < n \<Longrightarrow> r = [] \<or> is_space (hd r) \<Longrightarrow> scan_into n (w @ r) old = Inr w"
  using scan_word_plain [of w r] by (simp add: scan_into_def)

subsection \<open>The queues of a device\<close>

definition queue_of :: "ptr \<Rightarrow> valet_file \<Rightarrow> valet_queue" where
  "queue_of fp f = \<lparr>vq_depth = vf_queue_depth f, vq_sess = vf_sess f, vq_xdev = fp\<rparr>"

definition with_queues :: "nat \<Rightarrow> ptr \<Rightarrow> valet_file \<Rightarrow> valet_file" where
  "with_queues n fp f = f\<lparr>vf_queues := Live (replicate n (queue_of fp f)), vf_queue := Live \<lparr>rq_hctxs = map Some [0..<n], rq_max_sectors = 0\<rparr>\<rparr>"

lemma init_queue_ok:
  assumes "vf_queues f = Live qs" and "length qs = n"
  shows "init_queue n fp f = Inr (with_queues n fp f)"
proof -
  let ?b = "\<lambda>j. f\<lparr>vf_queues := Live (replicate j (queue_of fp f) @ drop j qs),
     vf_queue := Live \<lparr>rq_hctxs = map Some [0..<j] @ replicate (n - j) None, rq_max_sectors = 0\<rparr>\<rparr>"
  have "foldM (valet_init_hctx fp) [0..<n] (?b 0) = Inr (?b n)"
  proof (rule foldM_upt [where b = ?b])
    fix j assume j: "j < n"
    then have "n - j = Suc (n - Suc j)" by simp
    then have h: "(map Some [0..<j] @ replicate (n - j) None)[j := Some j] = map Some [0..<Suc j] @ replicate (n - Suc j) None"
      by (simp add: list_update_append)
    have "drop j qs = qs ! j # drop (Suc j) qs" using j assms(2) by (simp add: Cons_nth_drop_Suc)
    then have "(replicate j (queue_of fp f) @ drop j qs)[j := queue_of fp f] = replicate j (queue_of fp f) @ queue_of fp f # drop (Suc j) qs"
      by (simp add: list_update_append)
    also have "\<dots> = replicate (Suc j) (queue_of fp f) @ drop (Suc j) qs" by (simp only: replicate_app_Cons_same replicate.simps append_Cons)
    finally have q: "(replicate j (queue_of fp f) @ drop j qs)[j := queue_of fp f] = replicate (Suc j) (queue_of fp f) @ drop (Suc j) qs" .
    have "valet_init_hctx fp j (?b j) = Inr (f\<lparr>vf_queues := Live ((replicate j (queue_of fp f) @ drop j qs)[j := queue_of fp f]),
        vf_queue := Live \<lparr>rq_hctxs = (map Some [0..<j] @ replicate (n - j) None)[j := Some j], rq_max_sectors = 0\<rparr>\<rparr>)"
      using j assms(2) by (simp add: valet_init_hctx_def queue_of_def)
    then show "valet_init_hctx fp j (?b j) = Inr (?b (Suc j))" unfolding h q .
  qed
  moreover have "?b 0 = f\<lparr>vf_queue := Live \<lparr>rq_hctxs = replicate n None, rq_max_sectors = 0\<rparr>\<rparr>"
    using assms(1) by (cases f) simp
  moreover have "?b n = with_queues n fp f" using assms(2) by (simp add: with_queues_def)
  ultimately show ?thesis by (simp add: init_queue_def)
qed


subsection \<open>Registration\<close>

text \<open>The device as a registration that succeeds leaves it.\<close>

definition registered :: "nat \<Rightarrow> int \<Rightarrow> ptr \<Rightarrow> string \<Rightarrow> valet_file \<Rightarrow> valet_file" where
  "registered n major fp nm f =
     (let f = with_queues n fp (f\<lparr>vf_major := major\<rparr>)
      in f\<lparr>vf_disk := Live (disk_of_file nm f), vf_queue := Live \<lparr>rq_hctxs = map Some [0..<n], rq_max_sectors = 64\<rparr>\<rparr>)"

lemma registered_sel [simp]:
  "file_name (registered n major fp nm f) = file_name f" "vf_index (registered n major fp nm f) = vf_index f"
  "vf_sess (registered n major fp nm f) = vf_sess f" "vf_state (registered n major fp nm f) = vf_state f"
  "vf_queue (registered n major fp nm f) = Live \<lparr>rq_hctxs = map Some [0..<n], rq_max_sectors = 64\<rparr>"
  "vf_queues (registered n major fp nm f) = Live (replicate n (queue_of fp f))"
  "vf_disk (registered n major fp nm f) =
     Live \<lparr>gd_major = major, gd_first_minor = vf_index f, gd_capacity = st_size f div 512, gd_name = nm\<rparr>"
  by (simp_all add: registered_def with_queues_def queue_of_def disk_of_file_def Let_def)

lemma register_run:
  assumes "files d fp = Some f" and "vf_queues f = Live qs" "length qs = submit_queues d"
    and "mempool_init (ke_vzalloc env) (ke_vmalloc env) (ke_alloc env) (ke_freeram env) (heap d) = Inr (0, h)"
    and "ke_backup env = None" "ke_tag_set env = 0" "ke_init_queue env = 0" "ke_disk env"
    and "scan_into 32 (dev_name f) [] = Inr nm"
  shows "valet_register_block_device env fp d =
    Inr (0, put_file fp (registered (submit_queues d) (valet_major d) fp nm f) (d\<lparr>heap := h\<lparr>gpt_pages := Map.empty, gpt_init_done := 1\<rparr>\<rparr>))"
proof -
  have q: "init_queue (submit_queues d) fp (f\<lparr>vf_major := valet_major d\<rparr>) =
      Inr (with_queues (submit_queues d) fp (f\<lparr>vf_major := valet_major d\<rparr>))"
    using assms(2,3) by (intro init_queue_ok) simp_all
  then show ?thesis using assms
    by (simp add: valet_register_block_device_def gpt_init_def deref_def with_queues_def registered_def put_file_def Let_def)
qed

lemma register_cases:
  assumes "valet_register_block_device env fp d = Inr (ret, d')" and "files d fp = Some f"
    and "vf_queues f = Live qs" "length qs = submit_queues d" and "vf_disk f = Null"
  obtains (up) h sb nm where "ret = 0"
      "d' = (put_file fp (registered (submit_queues d) (valet_major d) fp nm f) d)\<lparr>heap := h, stackbd := sb\<rparr>"
      "gpt_pages h = Map.empty"
    | (down) h sb f' qs' where "ret \<noteq> 0" "d' = (put_file fp f' d)\<lparr>heap := h, stackbd := sb\<rparr>"
      "vf_disk f' = Null" "vf_state f' = vf_state f" "vf_queues f' = Live qs'" "file_name f' = file_name f"
proof -
  let ?n = "submit_queues d" and ?f = "f\<lparr>vf_major := valet_major d\<rparr>"
  have q: "init_queue ?n fp ?f = Inr (with_queues ?n fp ?f)" using assms(3,4) by (intro init_queue_ok) simp_all
  have same: "d\<lparr>heap := h\<rparr> = (put_file fp f d)\<lparr>heap := h, stackbd := stackbd d\<rparr>"
    "d\<lparr>heap := h, stackbd := sb\<rparr> = (put_file fp f d)\<lparr>heap := h, stackbd := sb\<rparr>" for h sb
    using assms(2) by (simp_all add: put_file_def fun_upd_idem)
  obtain err h where h: "mempool_init (ke_vzalloc env) (ke_vmalloc env) (ke_alloc env) (ke_freeram env) (heap d) = Inr (err, h)"
    using assms(1,2) by (auto simp: valet_register_block_device_def deref_def bind_ok_eq_Inr)
  show thesis
  proof (cases "err = 0")
    case False
    then have "ret \<noteq> 0 \<and> d' = d\<lparr>heap := h\<rparr>"
      using assms(1,2) h by (auto simp: valet_register_block_device_def deref_def)
    then show thesis using down assms(3,5) unfolding same by blast
  next
    case True
    let ?h = "h\<lparr>gpt_pages := Map.empty, gpt_init_done := 1\<rparr>"
    have run: "valet_register_block_device env fp d =
        bind_ok (case ke_backup env of None \<Rightarrow> Inr (0, stackbd d) | Some b \<Rightarrow> stackbd_init b (stackbd d)) (\<lambda>(err, sb).
         let d = d\<lparr>heap := ?h, stackbd := sb\<rparr> in
         if err \<noteq> 0 then Inr (err, d)
         else if ke_tag_set env \<noteq> 0 then Inr (ke_tag_set env, put_file fp ?f d)
         else if ke_init_queue env \<noteq> 0 then Inr (ke_init_queue env, put_file fp (?f\<lparr>vf_queue := Freed\<rparr>) d)
         else let g = with_queues ?n fp ?f in
           if \<not> ke_disk env then Inr (- 12, put_file fp (g\<lparr>vf_disk := Null, vf_queue := Freed\<rparr>) d)
           else bind_ok (scan_into 32 (dev_name f) []) (\<lambda>nm. Inr (0, put_file fp (registered ?n (valet_major d) fp nm f) d)))"
      using assms(2) h True q
      by (cases "ke_backup env")
        (simp_all add: valet_register_block_device_def deref_def gpt_init_def registered_def with_queues_def disk_of_file_def Let_def cong: if_cong)
    obtain err2 sb where sb: "(case ke_backup env of None \<Rightarrow> Inr (0, stackbd d) | Some b \<Rightarrow> stackbd_init b (stackbd d)) = Inr (err2, sb)"
      using assms(1) unfolding run by (cases "case ke_backup env of None \<Rightarrow> Inr (0, stackbd d) | Some b \<Rightarrow> stackbd_init b (stackbd d)") auto
    have upd: "put_file fp f' (d\<lparr>heap := ?h, stackbd := sb\<rparr>) = (put_file fp f' d)\<lparr>heap := ?h, stackbd := sb\<rparr>" for f'
      by (simp add: put_file_def)
    show thesis
    proof (cases "err2 = 0 \<and> ke_tag_set env = 0 \<and> ke_init_queue env = 0 \<and> ke_disk env")
      case False
      then consider "err2 \<noteq> 0" | "err2 = 0" "ke_tag_set env \<noteq> 0" | "err2 = 0" "ke_tag_set env = 0" "ke_init_queue env \<noteq> 0"
        | "err2 = 0" "ke_tag_set env = 0" "ke_init_queue env = 0" "\<not> ke_disk env" by blast
      then obtain f' where "ret \<noteq> 0" "d' = put_file fp f' (d\<lparr>heap := ?h, stackbd := sb\<rparr>)"
        "vf_disk f' = Null" "vf_state f' = vf_state f" "file_name f' = file_name f" "\<exists>qs'. vf_queues f' = Live qs'"
      proof cases
        case 1
        then have "ret \<noteq> 0" "d' = put_file fp f (d\<lparr>heap := ?h, stackbd := sb\<rparr>)"
          using assms(1) same(2) [of sb ?h] unfolding run sb upd by simp_all
        then show thesis using that assms(3,5) by blast
      next
        case 2
        then show thesis using that [of ?f] assms(1,3,5) unfolding run sb by (simp add: Let_def)
      next
        case 3
        then show thesis using that [of "?f\<lparr>vf_queue := Freed\<rparr>"] assms(1,3,5) unfolding run sb by (simp add: Let_def)
      next
        case 4
        then show thesis using that [of "(with_queues ?n fp ?f)\<lparr>vf_disk := Null, vf_queue := Freed\<rparr>"] assms(1,3,5) unfolding run sb
          by (simp add: Let_def with_queues_def)
      qed
      then show thesis unfolding upd using down by blast
    next
      case up': True
      then obtain nm where "ret = 0" "d' = put_file fp (registered ?n (valet_major d) fp nm f) (d\<lparr>heap := ?h, stackbd := sb\<rparr>)"
        using assms(1) unfolding run sb
        by (auto simp: registered_def with_queues_def disk_of_file_def Let_def bind_ok_eq_Inr)
      then have "ret = 0" "d' = (put_file fp (registered ?n (valet_major d) fp nm f) d)\<lparr>heap := ?h, stackbd := sb\<rparr>"
        "gpt_pages ?h = Map.empty" by (simp_all add: put_file_def)
      then show thesis by (rule up)
    qed
  qed
qed


lemma put_file_sel [simp]: "files (put_file fp f d) = (files d)(fp \<mapsto> f)" "sessions (put_file fp f d) = sessions d"
  "g_valet_sessions (put_file fp f d) = g_valet_sessions d" "heap (put_file fp f d) = heap d" "submit_queues (put_file fp f d) = submit_queues d"
  "valet_indexes (put_file fp f d) = valet_indexes d"
  by (simp_all add: put_file_def)

subsection \<open>Creation\<close>

text \<open>The driver after a device has been worked on.\<close>

definition worked :: "ptr \<Rightarrow> valet_file \<Rightarrow> ptr \<Rightarrow> dev_session \<Rightarrow> int \<Rightarrow> rdma_mem \<Rightarrow> stackbd_t \<Rightarrow> drv \<Rightarrow> drv" where
  "worked fp f sp S i h sb d = d\<lparr>files := (files d)(fp \<mapsto> f), sessions := (sessions d)(sp \<mapsto> S), valet_indexes := i, heap := h, stackbd := sb\<rparr>"

lemma worked_sel [simp]:
  "files (worked fp f sp S i h sb d) = (files d)(fp \<mapsto> f)" "sessions (worked fp f sp S i h sb d) = (sessions d)(sp \<mapsto> S)"
  "valet_indexes (worked fp f sp S i h sb d) = i" "heap (worked fp f sp S i h sb d) = h" "stackbd (worked fp f sp S i h sb d) = sb"
  "g_valet_sessions (worked fp f sp S i h sb d) = g_valet_sessions d" "submit_queues (worked fp f sp S i h sb d) = submit_queues d"
  by (simp_all add: worked_def)

text \<open>The device between the allocation of its queues and its registration.\<close>

definition prepared :: "string \<Rightarrow> ptr \<Rightarrow> dev_session \<Rightarrow> drv \<Rightarrow> valet_file \<Rightarrow> valet_file" where
  "prepared fn sp S d f = f\<lparr>file_name := fn, vf_index := valet_indexes d, nr_queues := submit_queues d, vf_queue_depth := VALET_QUEUE_DEPTH,
     vf_sess := sp, vf_queues := Live (replicate (submit_queues d) \<lparr>vq_depth = 0, vq_sess = NULL, vq_xdev = NULL\<rparr>), st_size := ds_capacity S\<rparr>"

definition running :: "string \<Rightarrow> string \<Rightarrow> ptr \<Rightarrow> ptr \<Rightarrow> dev_session \<Rightarrow> drv \<Rightarrow> valet_file \<Rightarrow> valet_file" where
  "running nm fn fp sp S d f =
     (registered (submit_queues d) (valet_major d) fp nm (prepared fn sp S d f))\<lparr>vf_state := DEVICE_RUNNING\<rparr>"

lemma create_run:
  assumes "files d fp = Some f" and "sessions d sp = Some S" and "scan_into 256 xdev_name (file_name f) = Inr fn" and "ke_queues env"
  shows "valet_create_device env sp xdev_name fp d =
    bind_ok (valet_register_block_device env fp
        (worked fp (prepared fn sp S d f) sp (S\<lparr>ds_xdev := fp\<rparr>) (valet_indexes d + 1) (heap d) (stackbd d) d)) (\<lambda>(ret, d).
      bind_ok (deref (files d) fp) (\<lambda>f.
        if ret \<noteq> 0 then bind_ok (valet_destroy_queues f) (\<lambda>f. Inr (ret, put_file fp f d))
        else Inr (0, put_file fp (f\<lparr>vf_state := DEVICE_RUNNING\<rparr>) d)))"
proof -
  have "put_session sp (S\<lparr>ds_xdev := fp\<rparr>) (put_file fp (prepared fn sp S d f) (d\<lparr>valet_indexes := valet_indexes d + 1\<rparr>)) =
      worked fp (prepared fn sp S d f) sp (S\<lparr>ds_xdev := fp\<rparr>) (valet_indexes d + 1) (heap d) (stackbd d) d"
    by (simp add: put_session_def put_file_def worked_def)
  moreover have "snd (valet_set_device_state DEVICE_RUNNING f) = f\<lparr>vf_state := DEVICE_RUNNING\<rparr>" for f
    by (simp add: valet_set_device_state_def)
  ultimately show ?thesis using assms unfolding valet_create_device_def
    by (simp add: deref_def valet_setup_queues_def prepared_def Let_def cong: if_cong)
qed

lemma create_cases:
  assumes "valet_create_device env sp xdev_name fp d = Inr (ret, d')" and "files d fp = Some f" "sessions d sp = Some S" and "vf_disk f = Null"
  obtains (up) h sb nm fn where "ret = 0" "scan_into 256 xdev_name (file_name f) = Inr fn"
      "d' = worked fp (running nm fn fp sp S d f) sp (S\<lparr>ds_xdev := fp\<rparr>) (valet_indexes d + 1) h sb d" "gpt_pages h = Map.empty"
    | (down) h sb g S' fn where "ret \<noteq> 0" "scan_into 256 xdev_name (file_name f) = Inr fn"
      "d' = worked fp g sp S' (valet_indexes d + 1) h sb d" "vf_disk g = Null" "vf_state g = vf_state f" "file_name g = fn"
      "S' = S \<or> S' = S\<lparr>ds_xdev := fp\<rparr>"
proof -
  obtain fn where fn: "scan_into 256 xdev_name (file_name f) = Inr fn"
    using assms(1-3) by (auto simp: valet_create_device_def deref_def bind_ok_eq_Inr)
  show thesis
  proof (cases "ke_queues env")
    case False
    let ?g = "f\<lparr>file_name := fn, vf_index := valet_indexes d, nr_queues := submit_queues d, vf_queue_depth := VALET_QUEUE_DEPTH,
       vf_sess := sp, vf_queues := Null\<rparr>"
    have "put_file fp ?g (d\<lparr>valet_indexes := valet_indexes d + 1\<rparr>) = worked fp ?g sp S (valet_indexes d + 1) (heap d) (stackbd d) d"
      using assms(3) by (cases d) (simp add: put_file_def worked_def fun_upd_idem)
    then have "ret \<noteq> 0" "d' = worked fp ?g sp S (valet_indexes d + 1) (heap d) (stackbd d) d"
      using assms(1-3) fn False
      by (simp_all add: valet_create_device_def deref_def valet_setup_queues_def)
    then show thesis using down [where fn = fn and g = ?g and h = "heap d" and sb = "stackbd d" and S' = S] fn assms(4) by simp
  next
    case True
    let ?p = "prepared fn sp S d f" and ?S = "S\<lparr>ds_xdev := fp\<rparr>"
    let ?d = "worked fp ?p sp ?S (valet_indexes d + 1) (heap d) (stackbd d) d"
    obtain r d1 where r: "valet_register_block_device env fp ?d = Inr (r, d1)"
      using assms(1) unfolding create_run [OF assms(2,3) fn True] by (auto simp: bind_ok_eq_Inr)
    have p: "files ?d fp = Some ?p" "vf_queues ?p = Live (replicate (submit_queues d) \<lparr>vq_depth = 0, vq_sess = NULL, vq_xdev = NULL\<rparr>)"
      "vf_disk ?p = Null" "vf_state ?p = vf_state f" "file_name ?p = fn" using assms(4) by (simp_all add: prepared_def)
    have m: "valet_major ?d = valet_major d" by (simp add: worked_def)
    have put: "put_file fp g ((put_file fp f' ?d)\<lparr>heap := h, stackbd := sb\<rparr>) = worked fp g sp ?S (valet_indexes d + 1) h sb d" for g f' h sb
      by (simp add: put_file_def worked_def)
    have n: "length (replicate (submit_queues d) \<lparr>vq_depth = 0, vq_sess = NULL, vq_xdev = NULL\<rparr>) = submit_queues ?d" by simp
    from r p(1,2) n p(3) show thesis
    proof (cases rule: register_cases)
      case (up h sb nm)
      have "ret = 0 \<and> d' = worked fp (running nm fn fp sp S d f) sp ?S (valet_indexes d + 1) h sb d"
        using assms(1) r up(1) unfolding create_run [OF assms(2,3) fn True] up(2)
        by (simp add: deref_def running_def m put)
      then show thesis using that(1) fn up(3) by blast
    next
      case (down h sb f' qs')
      have "ret \<noteq> 0 \<and> d' = worked fp (f'\<lparr>vf_queues := Freed\<rparr>) sp ?S (valet_indexes d + 1) h sb d"
        using assms(1) r down(1,5) unfolding create_run [OF assms(2,3) fn True] down(2)
        by (simp add: deref_def valet_destroy_queues_def kfree_def put)
      then show thesis using that(2) [where fn = fn and g = "f'\<lparr>vf_queues := Freed\<rparr>" and h = h and sb = sb and S' = ?S] fn down p by auto
    qed
  qed
qed

end
