(* ===== verification/Driver_Steps.thy ===== *)
theory Driver_Steps
  imports Driver_Lemmas
begin

text \<open>
  The driver as a whole: the events that configuration and the block layer cause, the states they lead to, and the invariant of the driver's objects.
\<close>

subsection \<open>Events\<close>

datatype drv_event =
    New_Session ptr
  | Store_Portal kern_env ptr string
  | New_Device ptr ptr string
  | Store_Name kern_env string ptr ptr string
  | Request blk_env ptr nat blk_request
  | Drop_Device ptr ptr
  | Drop_Session ptr

primrec run_drv_event :: "drv_event \<Rightarrow> drv \<Rightarrow> drv outcome" where
  "run_drv_event (New_Session sp) d = bind_ok (valet_session_make_group sp d) (\<lambda>(_, d). Inr d)"
| "run_drv_event (Store_Portal env sp buf) d = bind_ok (portal_attr_store env sp buf d) (\<lambda>(_, d). Inr d)"
| "run_drv_event (New_Device fp sp nm) d = bind_ok (valet_device_make_group fp sp nm d) (\<lambda>(_, d). Inr d)"
| "run_drv_event (Store_Name env junk sp fp page) d = bind_ok (device_attr_store env junk sp fp page d) (\<lambda>(_, d). Inr d)"
| "run_drv_event (Request be fp h r) d = bind_ok (valet_queue_rq be fp h r d) (\<lambda>(_, _, d). Inr d)"
| "run_drv_event (Drop_Device sp fp) d = valet_device_drop sp fp d"
| "run_drv_event (Drop_Session sp) d = valet_session_drop sp d"

text \<open>
  What the environment may cause: the kernel grants addresses that are not in use, a directory is removed only when it is empty, and a device is given its
  name once.
\<close>

fun possible :: "drv_event \<Rightarrow> drv \<Rightarrow> bool" where
  "possible (New_Session sp) d \<longleftrightarrow> sessions d sp = None"
| "possible (Store_Portal env sp buf) d \<longleftrightarrow> sessions d sp \<noteq> None"
| "possible (New_Device fp sp nm) d \<longleftrightarrow> sessions d sp \<noteq> None \<and> files d fp = None"
| "possible (Store_Name env junk sp fp page) d \<longleftrightarrow> (\<exists>S f. sessions d sp = Some S \<and> fp \<in> set (ds_devs S) \<and> files d fp = Some f \<and>
     vf_state f = DEVICE_OPENNING)"
| "possible (Request be fp h r) d \<longleftrightarrow> True"
| "possible (Drop_Device sp fp) d \<longleftrightarrow> (\<exists>S. sessions d sp = Some S \<and> fp \<in> set (ds_devs S))"
| "possible (Drop_Session sp) d \<longleftrightarrow> (\<exists>S. sessions d sp = Some S \<and> ds_devs S = [])"

text \<open>Before the module is there nothing is; \<open>h\<close> is the memory it finds.\<close>

definition unloaded :: "rdma_mem \<Rightarrow> drv" where
  "unloaded h = \<lparr>heap = h, files = Map.empty, sessions = Map.empty, g_valet_sessions = Null, valet_indexes = 0, created_portals = 0, valet_major = 0,
     submit_queues = 0, stackbd = zero_stackbd, configfs_up = False\<rparr>"

inductive drv_reach :: "drv \<Rightarrow> bool" where
  loaded: "valet_init_module 0 cpus major (unloaded h) = (0, d) \<Longrightarrow> drv_reach d"
| event: "drv_reach d \<Longrightarrow> possible ev d \<Longrightarrow> run_drv_event ev d = Inr d' \<Longrightarrow> drv_reach d'"

subsection \<open>The invariant\<close>

definition file_ok :: "nat \<Rightarrow> ptr \<Rightarrow> ptr \<Rightarrow> valet_file \<Rightarrow> bool" where
  "file_ok n sp fp f \<longleftrightarrow> fp \<noteq> NULL \<and>
     (vf_state f = DEVICE_OPENNING \<and> vf_disk f = Null \<or>
     vf_state f = DEVICE_RUNNING \<and> (\<exists>g m dep. vf_disk f = Live g \<and> gd_first_minor g = vf_index f \<and>
        vf_queue f = Live \<lparr>rq_hctxs = map Some [0..<n], rq_max_sectors = m\<rparr> \<and>
        vf_queues f = Live (replicate n \<lparr>vq_depth = dep, vq_sess = sp, vq_xdev = fp\<rparr>)))"

definition owned_by :: "drv \<Rightarrow> ptr \<Rightarrow> ptr set" where
  "owned_by d sp = (case sessions d sp of None \<Rightarrow> {} | Some S \<Rightarrow> set (ds_devs S))"

definition minors_ok :: "drv \<Rightarrow> bool" where
  "minors_ok d \<longleftrightarrow> (\<forall>fp f. files d fp = Some f \<longrightarrow> vf_state f = DEVICE_RUNNING \<longrightarrow> vf_index f < valet_indexes d) \<and>
     (\<forall>fp f fp' f'. fp \<noteq> fp' \<longrightarrow> files d fp = Some f \<longrightarrow> files d fp' = Some f' \<longrightarrow>
        vf_state f = DEVICE_RUNNING \<longrightarrow> vf_state f' = DEVICE_RUNNING \<longrightarrow> vf_index f \<noteq> vf_index f')"

definition driver_ok :: "drv \<Rightarrow> bool" where
  "driver_ok d \<longleftrightarrow>
     (\<exists>ps. g_valet_sessions d = Live ps \<and> distinct ps \<and> set ps = dom (sessions d)) \<and>
     (\<forall>sp S. sessions d sp = Some S \<longrightarrow> distinct (ds_devs S)) \<and>
     (\<forall>sp fp. fp \<in> owned_by d sp \<longrightarrow> (\<exists>f. files d fp = Some f \<and> file_ok (submit_queues d) sp fp f)) \<and>
     (\<forall>sp sp'. sp \<noteq> sp' \<longrightarrow> owned_by d sp \<inter> owned_by d sp' = {}) \<and> minors_ok d"

lemma driver_okI:
  assumes "\<exists>ps. g_valet_sessions d = Live ps \<and> distinct ps \<and> set ps = dom (sessions d)"
    and "\<And>sp S. sessions d sp = Some S \<Longrightarrow> distinct (ds_devs S)"
    and "\<And>sp fp. fp \<in> owned_by d sp \<Longrightarrow> \<exists>f. files d fp = Some f \<and> file_ok (submit_queues d) sp fp f"
    and "\<And>sp sp'. sp \<noteq> sp' \<Longrightarrow> owned_by d sp \<inter> owned_by d sp' = {}" and "minors_ok d"
  shows "driver_ok d"
  using assms unfolding driver_ok_def by blast

lemma driver_okD:
  assumes "driver_ok d"
  shows "\<exists>ps. g_valet_sessions d = Live ps \<and> distinct ps \<and> set ps = dom (sessions d)"
    and "\<And>sp S. sessions d sp = Some S \<Longrightarrow> distinct (ds_devs S)"
    and "\<And>sp fp. fp \<in> owned_by d sp \<Longrightarrow> \<exists>f. files d fp = Some f \<and> file_ok (submit_queues d) sp fp f"
    and "\<And>sp sp'. sp \<noteq> sp' \<Longrightarrow> owned_by d sp \<inter> owned_by d sp' = {}" and "minors_ok d"
  using assms unfolding driver_ok_def by blast+

text \<open>An event that leaves the devices of every session and every device as they are.\<close>

lemma driver_ok_frame:
  assumes "driver_ok d" and "g_valet_sessions d' = g_valet_sessions d" and "files d' = files d" and "submit_queues d' = submit_queues d"
    and "valet_indexes d' = valet_indexes d" and "\<And>sp. map_option ds_devs (sessions d' sp) = map_option ds_devs (sessions d sp)"
  shows "driver_ok d'"
proof -
  have s: "sessions d' sp = None \<longleftrightarrow> sessions d sp = None" for sp using assms(6) [of sp] by (cases "sessions d sp") auto
  have o: "owned_by d' sp = owned_by d sp" for sp
    using assms(6) [of sp] by (auto simp: owned_by_def split: option.splits)
  have "distinct (ds_devs S)" if "sessions d' sp = Some S" for sp S
    using assms(6) [of sp] that driver_okD(2) [OF assms(1), of sp] by (cases "sessions d sp") auto
  moreover have "dom (sessions d') = dom (sessions d)" using s by (auto simp: dom_def)
  ultimately show ?thesis
    using driver_okD(1,3,4,5) [OF assms(1)] assms(2-5) by (intro driver_okI) (auto simp: o minors_ok_def)
qed


subsection \<open>Every event keeps it\<close>

lemma loaded_ok: "valet_init_module 0 cpus major (unloaded h) = (0, d) \<Longrightarrow> driver_ok d"
  by (auto simp: valet_init_module_def valet_create_configfs_files_def unloaded_def driver_ok_def owned_by_def minors_ok_def Let_def split: if_splits)

lemma new_session_ok:
  assumes "driver_ok d" and "sessions d sp = None" and "valet_session_make_group sp d = Inr (r, d')"
  shows "driver_ok d'"
proof (cases "sp = NULL")
  case True
  then show ?thesis using assms by (simp add: valet_session_make_group_def)
next
  case False
  obtain ps where ps: "g_valet_sessions d = Live ps" "distinct ps" "set ps = dom (sessions d)" using driver_okD(1) [OF assms(1)] by blast
  have d': "d' = (put_session sp zero_dev_session d)\<lparr>g_valet_sessions := Live (sp # ps), created_portals := created_portals d + 1\<rparr>"
    using assms(3) ps(1) False by (auto simp: valet_session_make_group_def)
  have o: "owned_by d' x = owned_by d x" for x
    using assms(2) by (simp add: d' owned_by_def put_session_def zero_dev_session_def)
  show ?thesis
  proof (rule driver_okI)
    show "\<exists>ps. g_valet_sessions d' = Live ps \<and> distinct ps \<and> set ps = dom (sessions d')"
      using ps assms(2) by (auto simp: d' put_session_def)
    show "distinct (ds_devs S)" if "sessions d' x = Some S" for x S
      using that driver_okD(2) [OF assms(1), of x] by (auto simp: d' put_session_def zero_dev_session_def split: if_splits)
    show "\<exists>f. files d' fp = Some f \<and> file_ok (submit_queues d') x fp f" if "fp \<in> owned_by d' x" for x fp
      using that driver_okD(3) [OF assms(1)] unfolding o by (simp add: d' put_session_def)
    show "owned_by d' x \<inter> owned_by d' y = {}" if "x \<noteq> y" for x y
      using driver_okD(4) [OF assms(1) that] by (simp add: o)
    show "minors_ok d'" using driver_okD(5) [OF assms(1)] by (simp add: minors_ok_def d' put_session_def)
  qed
qed

lemma new_device_ok:
  assumes "driver_ok d" and "sessions d sp = Some S" and "files d fp = None" and "valet_device_make_group fp sp nm d = Inr (r, d')"
  shows "driver_ok d'"
proof (cases "fp = NULL")
  case True
  then show ?thesis using assms by (simp add: valet_device_make_group_def)
next
  case False
  obtain w where d': "d' = put_session sp (S\<lparr>ds_devs := fp # ds_devs S\<rparr>) (put_file fp (zero_file\<lparr>vf_state := DEVICE_OPENNING, dev_name := w\<rparr>) d)"
    using assms(2,4) False
    by (auto simp: valet_device_make_group_def valet_set_device_state_def deref_def bind_ok_eq_Inr zero_file_def)
  have o: "owned_by d' x = (if x = sp then insert fp (owned_by d sp) else owned_by d x)" for x
    using assms(2) by (simp add: d' owned_by_def put_session_def put_file_def)
  have new: "fp \<notin> owned_by d x" for x using driver_okD(3) [OF assms(1), of fp x] assms(3) by auto
  have f: "files d' = (files d)(fp \<mapsto> zero_file\<lparr>vf_state := DEVICE_OPENNING, dev_name := w\<rparr>)" "submit_queues d' = submit_queues d"
    "valet_indexes d' = valet_indexes d" by (simp_all add: d' put_session_def)
  show ?thesis
  proof (rule driver_okI)
    show "\<exists>ps. g_valet_sessions d' = Live ps \<and> distinct ps \<and> set ps = dom (sessions d')"
      using driver_okD(1) [OF assms(1)] assms(2) by (simp add: d' put_session_def insert_absorb domI)
    show "distinct (ds_devs T)" if "sessions d' x = Some T" for x T
      using that driver_okD(2) [OF assms(1), of x] new [of sp] assms(2)
      by (auto simp: d' put_session_def owned_by_def split: if_splits)
    show "\<exists>f. files d' g = Some f \<and> file_ok (submit_queues d') x g f" if "g \<in> owned_by d' x" for x g
      using that driver_okD(3) [OF assms(1), of g x] unfolding o f
      by (cases "g = fp") (auto simp: file_ok_def zero_file_def new False split: if_splits)
    show "owned_by d' x \<inter> owned_by d' y = {}" if "x \<noteq> y" for x y
      using driver_okD(4) [OF assms(1) that] new that by (auto simp: o)
    show "minors_ok d'" using driver_okD(5) [OF assms(1)] unfolding minors_ok_def f
      by (auto simp: zero_file_def split: if_splits)
  qed
qed

text \<open>Work on one device that was being opened.\<close>

lemma worked_ok:
  assumes ok: "driver_ok d" and S: "sessions d sp = Some S" and fp: "fp \<in> set (ds_devs S)" and f: "files d fp = Some f"
    and "vf_state f = DEVICE_OPENNING" and S': "ds_devs S' = ds_devs S" and g: "file_ok (submit_queues d) sp fp g"
    and i: "vf_state g = DEVICE_RUNNING \<Longrightarrow> vf_index g = valet_indexes d"
  shows "driver_ok (worked fp g sp S' (valet_indexes d + 1) h sb d)" (is "driver_ok ?d")
proof -
  have o: "owned_by ?d x = owned_by d x" for x using S S' by (simp add: owned_by_def)
  have mine: "fp \<in> owned_by d sp" using S fp by (simp add: owned_by_def)
  show ?thesis
  proof (rule driver_okI)
    show "\<exists>ps. g_valet_sessions ?d = Live ps \<and> distinct ps \<and> set ps = dom (sessions ?d)"
      using driver_okD(1) [OF ok] S by (simp add: insert_absorb domI)
    show "distinct (ds_devs T)" if "sessions ?d x = Some T" for x T
      using that driver_okD(2) [OF ok, of x] S S' by (auto split: if_splits)
    show "\<exists>f. files ?d y = Some f \<and> file_ok (submit_queues ?d) x y f" if "y \<in> owned_by ?d x" for x y
    proof (cases "y = fp")
      case True
      then have "x = sp" using that driver_okD(4) [OF ok, of x sp] mine unfolding o by blast
      then show ?thesis using g True by simp
    next
      case False
      then show ?thesis using that driver_okD(3) [OF ok, of y x] unfolding o by simp
    qed
    show "owned_by ?d x \<inter> owned_by ?d y = {}" if "x \<noteq> y" for x y using driver_okD(4) [OF ok that] by (simp add: o)
    have "vf_index f' < valet_indexes d" if "files d y = Some f'" "vf_state f' = DEVICE_RUNNING" for y f'
      using driver_okD(5) [OF ok] that unfolding minors_ok_def by blast
    then show "minors_ok ?d" using driver_okD(5) [OF ok] i unfolding minors_ok_def
      by (auto split: if_splits) (fastforce+)?
  qed
qed


lemma running_ok:
  "fp \<noteq> NULL \<Longrightarrow> file_ok (submit_queues d) sp fp (running nm fn fp sp S d f)" "vf_index (running nm fn fp sp S d f) = valet_indexes d"
  by (auto simp: running_def file_ok_def prepared_def queue_of_def)

lemma store_name_ok:
  assumes ok: "driver_ok d" and "sessions d sp = Some S" "fp \<in> set (ds_devs S)" "files d fp = Some f" "vf_state f = DEVICE_OPENNING"
    and "device_attr_store env junk sp fp page d = Inr (r, d')"
  shows "driver_ok d'"
proof -
  have disk: "vf_disk f = Null" and nn: "fp \<noteq> NULL"
    using driver_okD(3) [OF ok, of fp sp] assms(2-5) by (auto simp: owned_by_def file_ok_def)
  obtain w pos where w: "scan_into 256 page junk = Inr w" "valet_file_find sp w d = Inr pos"
    using assms(6) by (auto simp: device_attr_store_def bind_ok_eq_Inr)
  show ?thesis
  proof (cases "pos = NULL")
    case False
    then show ?thesis using assms(6) w ok by (auto simp: device_attr_store_def)
  next
    case True
    then obtain ret where "valet_create_device env sp w fp d = Inr (ret, d')"
      using assms(6) w by (auto simp: device_attr_store_def bind_ok_eq_Inr)
    from this assms(4,2) disk show ?thesis
    proof (cases rule: create_cases)
      case (up h sb nm fn)
      show ?thesis unfolding up(3)
        by (rule worked_ok [OF ok assms(2-5)]) (simp_all add: running_ok nn)
    next
      case (down h sb g S' fn)
      show ?thesis unfolding down(3)
        by (rule worked_ok [OF ok assms(2-5)]) (use down assms(5) nn in \<open>auto simp: file_ok_def\<close>)
    qed
  qed
qed

lemma create_session_shape:
  assumes "sessions d sp = Some S" and "create_session env w sp d = Inr (ret, d')"
  obtains S' m where "ds_devs S' = ds_devs S" "d' = (put_session sp S' d)\<lparr>heap := m\<rparr>"
proof -
  obtain n m where "d' = (put_session sp (S\<lparr>ds_portal := parsed_portal n (overlay w (ds_portal S)),
      ds_capacity := of_nat (SWAPSPACE_SIZE_G * ONE_GB), ds_nodes := sess m\<rparr>) d)\<lparr>heap := m\<rparr>"
    using assms by (auto simp: create_session_def deref_def bind_ok_eq_Inr Let_def)
  with that [OF _ this] show thesis by simp
qed

lemma store_portal_ok:
  assumes ok: "driver_ok d" and S: "sessions d sp = Some S" and "portal_attr_store env sp buf d = Inr (r, d')"
  shows "driver_ok d'"
proof -
  obtain w pos where w: "scan_into MAX_PORTAL_NAME (''rdma://'' @ buf) [] = Inr w" "valet_session_find_by_portal w d = Inr pos"
    using assms(3) by (auto simp: portal_attr_store_def bind_ok_eq_Inr split: if_splits)
  show ?thesis
  proof (cases "pos = NULL")
    case False
    then have "d' = d" using assms(3) w by (simp add: portal_attr_store_def split: if_splits)
    then show ?thesis using ok by simp
  next
    case True
    then obtain ret where "create_session env w sp d = Inr (ret, d')"
      using assms(3) w by (auto simp: portal_attr_store_def bind_ok_eq_Inr split: if_splits)
    from create_session_shape [OF S this] obtain S' m where "ds_devs S' = ds_devs S" "d' = (put_session sp S' d)\<lparr>heap := m\<rparr>" .
    then show ?thesis using S by (intro driver_ok_frame [OF ok]) (auto simp: put_session_def)
  qed
qed

lemma request_ok:
  assumes ok: "driver_ok d" and "valet_queue_rq be fp h r d = Inr (st, e, d')"
  shows "driver_ok d'"
proof -
  obtain sp S m where "sessions d sp = Some S" "d' = (put_session sp (S\<lparr>ds_nodes := sess m\<rparr>) d)\<lparr>heap := m\<rparr>"
    using assms(2)
    by (auto simp: valet_queue_rq_def hctx_session_def deref_def bind_ok_eq_Inr split: option.splits)
  then show ?thesis by (intro driver_ok_frame [OF ok]) (auto simp: put_session_def)
qed

lemma drop_device_ok:
  assumes ok: "driver_ok d" and S: "sessions d sp = Some S" and fp: "fp \<in> set (ds_devs S)" and "valet_device_drop sp fp d = Inr d'"
  shows "driver_ok d'"
proof -
  have mine: "fp \<in> owned_by d sp" using S fp by (simp add: owned_by_def)
  have d': "g_valet_sessions d' = g_valet_sessions d \<and> files d' = (files d)(fp := None) \<and>
      sessions d' = (sessions d)(sp \<mapsto> S\<lparr>ds_devs := remove1 fp (ds_devs S)\<rparr>) \<and> submit_queues d' = submit_queues d \<and> valet_indexes d' = valet_indexes d"
    using assms(4) S
    by (auto simp: valet_device_drop_def valet_destroy_device_def valet_unregister_block_device_def deref_def bind_ok_eq_Inr
        put_session_def put_file_def Let_def split: if_splits option.splits)
  have o: "owned_by d' x = owned_by d x - {fp}" for x
  proof (cases "x = sp")
    case True
    then show ?thesis using S driver_okD(2) [OF ok S] by (simp add: owned_by_def d')
  next
    case False
    then have "fp \<notin> owned_by d x" using driver_okD(4) [OF ok False] mine by blast
    then show ?thesis using False by (simp add: owned_by_def d')
  qed
  show ?thesis
  proof (rule driver_okI)
    show "\<exists>ps. g_valet_sessions d' = Live ps \<and> distinct ps \<and> set ps = dom (sessions d')"
      using driver_okD(1) [OF ok] S by (simp add: d' insert_absorb domI)
    show "distinct (ds_devs T)" if "sessions d' x = Some T" for x T
      using that driver_okD(2) [OF ok, of x] S by (auto simp: d' split: if_splits)
    show "\<exists>f. files d' y = Some f \<and> file_ok (submit_queues d') x y f" if "y \<in> owned_by d' x" for x y
      using that driver_okD(3) [OF ok, of y x] unfolding o by (simp add: d')
    show "owned_by d' x \<inter> owned_by d' y = {}" if "x \<noteq> y" for x y using driver_okD(4) [OF ok that] by (auto simp: o)
    show "minors_ok d'" using driver_okD(5) [OF ok] unfolding minors_ok_def by (auto simp: d' split: if_splits)
  qed
qed

lemma drop_session_ok:
  assumes ok: "driver_ok d" and S: "sessions d sp = Some S" and "ds_devs S = []" and "valet_session_drop sp d = Inr d'"
  shows "driver_ok d'"
proof -
  obtain ps where ps: "g_valet_sessions d = Live ps" "distinct ps" "set ps = dom (sessions d)" using driver_okD(1) [OF ok] by blast
  have d': "d' = d\<lparr>g_valet_sessions := Live (remove1 sp ps), sessions := (sessions d)(sp := None)\<rparr>"
    using assms(3,4) S ps(1) by (auto simp: valet_session_drop_def valet_session_destroy_def valet_destroy_session_devices_def deref_def)
  have o: "owned_by d' x = owned_by d x" for x using S assms(3) by (simp add: owned_by_def d')
  show ?thesis
  proof (rule driver_okI)
    show "\<exists>ps. g_valet_sessions d' = Live ps \<and> distinct ps \<and> set ps = dom (sessions d')" using ps by (auto simp: d')
    show "distinct (ds_devs T)" if "sessions d' x = Some T" for x T
      using that driver_okD(2) [OF ok, of x] by (auto simp: d' split: if_splits)
    show "minors_ok d'" using driver_okD(5) [OF ok] by (simp add: minors_ok_def d')
    show "\<exists>f. files d' y = Some f \<and> file_ok (submit_queues d') x y f" if "y \<in> owned_by d' x" for x y
      using that driver_okD(3) [OF ok, of y x] unfolding o by (simp add: d')
    show "owned_by d' x \<inter> owned_by d' y = {}" if "x \<noteq> y" for x y using driver_okD(4) [OF ok that] by (simp add: o)
  qed
qed

lemma drv_event_ok:
  assumes ok: "driver_ok d" and "possible ev d" and "run_drv_event ev d = Inr d'"
  shows "driver_ok d'"
proof (cases ev)
  case (New_Session sp)
  then show ?thesis using assms new_session_ok [OF ok, of sp] by (auto simp: bind_ok_eq_Inr)
next
  case (Store_Portal env sp buf)
  then show ?thesis using assms store_portal_ok [OF ok, of sp] by (auto simp: bind_ok_eq_Inr)
next
  case (New_Device fp sp nm)
  then show ?thesis using assms new_device_ok [OF ok, of sp _ fp] by (auto simp: bind_ok_eq_Inr)
next
  case (Store_Name env junk sp fp page)
  then show ?thesis using assms store_name_ok [OF ok, of sp _ fp] by (auto simp: bind_ok_eq_Inr)
next
  case (Request be fp h r)
  then show ?thesis using assms(3) request_ok [OF ok, of be fp h r] by (auto simp: bind_ok_eq_Inr)
next
  case (Drop_Device sp fp)
  then show ?thesis using assms drop_device_ok [OF ok, of sp _ fp] by auto
next
  case (Drop_Session sp)
  then show ?thesis using assms drop_session_ok [OF ok, of sp] by auto
qed

lemma drv_reach_ok: "drv_reach d \<Longrightarrow> driver_ok d"
  by (induction rule: drv_reach.induct) (use loaded_ok drv_event_ok in blast)+

end
