(* ===== verification/Driver_Properties.thy ===== *)
theory Driver_Properties
  imports Driver_Steps Pool_Properties
begin

text \<open>
  The properties of the driver and its configuration: how a device comes up and what its requests reach, and where the code falls short.
\<close>


subsection \<open>A device comes up\<close>

lemma find_file_free:
  "\<forall>x\<in>set xs. \<exists>g. files d x = Some g \<and> file_name g \<noteq> w \<Longrightarrow> find_file w xs d = Inr NULL"
  by (induction xs) (auto simp: deref_def)

lemma pool_ok_gpt [simp]: "pool_ok k (h\<lparr>gpt_pages := t, gpt_init_done := i\<rparr>) = pool_ok k h"
proof -
  let ?h = "h\<lparr>gpt_pages := t, gpt_init_done := i\<rparr>"
  have "is_page ?h = is_page h" "mapped ?h = mapped h" "free_list ?h = free_list h" "reclaim_contents ?h = reclaim_contents h"
    by (simp_all add: fun_eq_iff is_page_def mapped_def free_list_def reclaim_contents_def)
  then show ?thesis by (simp add: pool_ok_def pool_shape_def pages_ok_def reclaim_ok_def)
qed

lemma device_up:
  assumes "sessions d sp = Some S" and "files d fp = Some f" and "plain_word w" "length w < 256"
    and "\<forall>x\<in>set (ds_devs S). \<exists>g. files d x = Some g \<and> file_name g \<noteq> w" and "scan_into 32 (dev_name f) [] = Inr nm"
    and "mempool_init (ke_vzalloc env) (ke_vmalloc env) (ke_alloc env) (ke_freeram env) (heap d) = Inr (0, h)"
    and "ke_queues env" "ke_backup env = None" "ke_tag_set env = 0" "ke_init_queue env = 0" "ke_disk env"
  shows "device_attr_store env junk sp fp (w @ [CHR 0x0A]) d =
    Inr (int (length w) + 1, worked fp (running nm w fp sp S d f) sp (S\<lparr>ds_xdev := fp\<rparr>) (valet_indexes d + 1)
      (h\<lparr>gpt_pages := Map.empty, gpt_init_done := 1\<rparr>) (stackbd d) d)"
proof -
  have w: "scan_into 256 w x = Inr w" "scan_into 256 (w @ [CHR 0x0A]) x = Inr w" for x
    using scan_into_plain [OF assms(3,4), of "[]"] scan_into_plain [OF assms(3,4), of "[CHR 0x0A]"] by (simp_all add: is_space_def)
  have find: "valet_file_find sp w d = Inr NULL" using assms(1) find_file_free [OF assms(5)] by (simp add: valet_file_find_def deref_def)
  let ?p = "prepared w sp S d f"
  let ?d = "worked fp ?p sp (S\<lparr>ds_xdev := fp\<rparr>) (valet_indexes d + 1) (heap d) (stackbd d) d"
  have "valet_register_block_device env fp ?d = Inr (0, put_file fp (registered (submit_queues d) (valet_major d) fp nm ?p)
      (?d\<lparr>heap := h\<lparr>gpt_pages := Map.empty, gpt_init_done := 1\<rparr>\<rparr>))"
    using register_run [of ?d fp ?p "replicate (submit_queues d) \<lparr>vq_depth = 0, vq_sess = NULL, vq_xdev = NULL\<rparr>" env h nm] assms(6-12)
    by (simp add: prepared_def) (simp add: worked_def)
  then have "valet_create_device env sp w fp d = Inr (0, worked fp (running nm w fp sp S d f) sp (S\<lparr>ds_xdev := fp\<rparr>) (valet_indexes d + 1)
      (h\<lparr>gpt_pages := Map.empty, gpt_init_done := 1\<rparr>) (stackbd d) d)"
    unfolding create_run [OF assms(2,1) w(1) assms(8)]
    by (simp add: deref_def running_def) (simp add: put_file_def worked_def)
  then show ?thesis using w(2) find by (simp add: device_attr_store_def)
qed


text \<open>
  C12. A device comes up: when the kernel grants what it is asked for, writing a new name to the attribute of a device that is being opened is accepted as a
  whole; the device runs under that name, with the next minor number and a disk of the session's capacity in sectors of 512 bytes, each of its hardware queues leads to the
  session, the page pool is sound and the page table empty.
\<close>

theorem device_comes_up:
  assumes "drv_reach d" and "sessions d sp = Some S" and "fp \<in> set (ds_devs S)" and "files d fp = Some f" and "vf_state f = DEVICE_OPENNING"
    and "plain_word w" "length w < 256" "\<forall>x\<in>set (ds_devs S). \<forall>g. files d x = Some g \<longrightarrow> file_name g \<noteq> w"
    and "scan_into 32 (dev_name f) [] = Inr nm"
    and "nothing_mapped (heap d)" "ke_vmalloc env 131072 = Some es" "length es = 131072" "grants_ok (ke_alloc env) {0..<131072} (heap d)"
      "all_granted (ke_alloc env) {0..<131072}" "ke_vzalloc env 52428992"
    and "ke_queues env" "ke_backup env = None" "ke_tag_set env = 0" "ke_init_queue env = 0" "ke_disk env"
  shows "\<exists>d' g. device_attr_store env junk sp fp (w @ [CHR 0x0A]) d = Inr (int (length w) + 1, d') \<and> drv_reach d' \<and> files d' fp = Some g \<and>
    file_name g = w \<and> state_attr_show g = ''running'' @ [CHR 0x0A] \<and>
    vf_disk g = Live \<lparr>gd_major = valet_major d, gd_first_minor = valet_indexes d, gd_capacity = ds_capacity S div 512, gd_name = nm\<rparr> \<and>
    (\<forall>h < submit_queues d. \<exists>T. hctx_session fp h d' = Inr (sp, T) \<and> ds_nodes T = ds_nodes S) \<and>
    pool_ok 18 (heap d') \<and> gpt_pages (heap d') = Map.empty"
proof -
  obtain h where h: "mempool_init (ke_vzalloc env) (ke_vmalloc env) (ke_alloc env) (ke_freeram env) (heap d) = Inr (0, h)" "pool_ok 18 h"
    using mempool_init_ok [of "heap d" "ke_vmalloc env" es "ke_alloc env" "ke_vzalloc env" "ke_freeram env"] assms(10-15) by blast
  have names: "\<forall>x\<in>set (ds_devs S). \<exists>g. files d x = Some g \<and> file_name g \<noteq> w"
    using assms(2,8) driver_okD(3) [OF drv_reach_ok [OF assms(1)], of _ sp] by (fastforce simp: owned_by_def)
  let ?g = "running nm w fp sp S d f"
  let ?d = "worked fp ?g sp (S\<lparr>ds_xdev := fp\<rparr>) (valet_indexes d + 1) (h\<lparr>gpt_pages := Map.empty, gpt_init_done := 1\<rparr>) (stackbd d) d"
  have run: "device_attr_store env junk sp fp (w @ [CHR 0x0A]) d = Inr (int (length w) + 1, ?d)"
    by (rule device_up [OF assms(2,4,6,7) names assms(9) h(1) assms(16-20)])
  have "drv_reach ?d"
    by (rule drv_reach.event [OF assms(1), of "Store_Name env junk sp fp (w @ [CHR 0x0A])"]) (use assms(2-5) run in auto)
  moreover have "hctx_session fp i ?d = Inr (sp, S\<lparr>ds_xdev := fp\<rparr>)" if "i < submit_queues d" for i
    using that by (simp add: hctx_session_def deref_def running_def queue_of_def prepared_def)
  moreover have "pool_ok 18 (heap ?d)" using h(2) by simp
  ultimately show ?thesis using run
    by (intro exI [of _ ?d] exI [of _ ?g]) (simp add: running_def prepared_def state_attr_show_def valet_device_state_str_def)
qed

subsection \<open>Where the code falls short\<close>

lemma find_file_hit:
  "fp \<in> set xs \<Longrightarrow> \<forall>x\<in>set xs. x \<noteq> NULL \<and> files d x \<noteq> None \<Longrightarrow> files d fp = Some g \<Longrightarrow> file_name g = w \<Longrightarrow>
   \<exists>pos. find_file w xs d = Inr pos \<and> pos \<noteq> NULL"
  by (induction xs) (auto simp: deref_def)

lemma find_session_free:
  "\<forall>x\<in>set xs. \<exists>T. sessions d x = Some T \<and> c_string (ds_portal T) \<noteq> w \<Longrightarrow> find_session w xs d = Inr NULL"
  by (induction xs) (auto simp: deref_def)

lemma cut_commas_first:
  "CHR '','' \<notin> set a \<Longrightarrow> NUL \<notin> set a \<Longrightarrow> c_string (cut_commas (Suc n) (a @ CHR '','' # b)) = a"
  by (induction a) (auto simp: c_string_def)

text \<open>The stored portal is cut at its first comma.\<close>

lemma stored_portal:
  assumes "ps \<noteq> []"
  shows "c_string (parsed_portal n (bd_text ps)) = ''rdma://'' @ decimal (length ps)" and "''rdma://'' @ decimal (length ps) \<noteq> bd_text ps"
proof -
  obtain p qs where ps: "ps = p # qs" using assms by (cases ps) auto
  let ?b = "node_text p @ concat (map (\<lambda>p. CHR '','' # node_text p) qs)"
  have t: "bd_text ps = ''rdma://'' @ decimal (length ps) @ CHR '','' # ?b" using ps by (simp add: bd_text_def)
  have "parsed_portal n (bd_text ps) = ''rdma://'' @ cut_commas (Suc n) (decimal (length ps) @ CHR '','' # ?b)"
    unfolding t by (simp add: parsed_portal_def)
  then show "c_string (parsed_portal n (bd_text ps)) = ''rdma://'' @ decimal (length ps)"
    using cut_commas_first [OF decimal_free, of n "length ps" ?b] c_string_append [of "''rdma://''"] by simp
  show "''rdma://'' @ decimal (length ps) \<noteq> bd_text ps" unfolding t by simp
qed

lemma bd_text_no_NUL:
  assumes "\<forall>p\<in>set ps. good_node p"
  shows "NUL \<notin> set (bd_text ps)"
proof -
  have "NUL \<notin> set (node_text p)" if "p \<in> set ps" for p
    using that assms by (auto simp: node_text_def good_node_def decimal_free)
  then show ?thesis by (auto simp: bd_text_def decimal_free)
qed

lemma store_name_created:
  assumes "device_attr_store env junk sp fp page d = Inr (r, d')" and "valet_file_find sp w d = Inr NULL" and "scan_into 256 page junk = Inr w"
  obtains ret where "valet_create_device env sp w fp d = Inr (ret, d')" "r = (if ret \<noteq> 0 then ret else int (length page))"
  using assms by (auto simp: device_attr_store_def bind_ok_eq_Inr)

text \<open>
  A second device makes the driver forget: page pool and page table are shared by all devices, and bringing up any device starts both afresh. Afterwards no page
  of any device is found in the table, while the other devices go on as before.
\<close>

theorem second_device_forgets:
  assumes "drv_reach d" and "sessions d sp = Some S" and "fp \<in> set (ds_devs S)" and "files d fp = Some f" and "vf_state f = DEVICE_OPENNING"
    and "device_attr_store env junk sp fp page d = Inr (r, d')" and "files d' fp = Some g" and "vf_state g = DEVICE_RUNNING"
  shows "(\<forall>i. gpt_lookup_page i (heap d') = NULL) \<and> (\<forall>x. x \<noteq> fp \<longrightarrow> files d' x = files d x)"
proof -
  have disk: "vf_disk f = Null"
    using driver_okD(3) [OF drv_reach_ok [OF assms(1)], of fp sp] assms(2-5) by (auto simp: owned_by_def file_ok_def)
  obtain w where w: "scan_into 256 page junk = Inr w" "valet_file_find sp w d = Inr NULL"
    using assms(4-8) by (auto simp: device_attr_store_def bind_ok_eq_Inr split: if_splits)
  obtain ret where "valet_create_device env sp w fp d = Inr (ret, d')" by (rule store_name_created [OF assms(6) w(2,1)])
  from this assms(4,2) disk show ?thesis
  proof (cases rule: create_cases)
    case (up h sb nm fn)
    then show ?thesis by (simp add: gpt_lookup_page_def)
  next
    case (down h sb g' S' fn)
    then show ?thesis using assms(5,7,8) by simp
  qed
qed

text \<open>
  A failed attempt blocks the name: when a device could not be brought up, for whatever reason, a later attempt with the same name is refused as existing, 
  whatever the kernel would grant by then.
\<close>

theorem name_taken_after_failure:
  assumes "drv_reach d" and "sessions d sp = Some S" and "fp \<in> set (ds_devs S)" and "files d fp = Some f" and "vf_state f = DEVICE_OPENNING"
    and "plain_word w" "length w < 256"
    and "device_attr_store env junk sp fp (w @ [CHR 0x0A]) d = Inr (r, d')" and "files d' fp = Some g" and "vf_state g \<noteq> DEVICE_RUNNING"
  shows "device_attr_store env' junk' sp fp (w @ [CHR 0x0A]) d' = Inr (- 17, d')"
proof -
  have disk: "vf_disk f = Null"
    using driver_okD(3) [OF drv_reach_ok [OF assms(1)], of fp sp] assms(2-5) by (auto simp: owned_by_def file_ok_def)
  have scan: "scan_into 256 (w @ [CHR 0x0A]) x = Inr w" "scan_into 256 w x = Inr w" for x
    using scan_into_plain [OF assms(6,7), of "[CHR 0x0A]"] scan_into_plain [OF assms(6,7), of "[]"] by (simp_all add: is_space_def)
  have "\<exists>pos. valet_file_find sp w d' = Inr pos \<and> pos \<noteq> NULL"
  proof (cases "valet_file_find sp w d = Inr NULL")
    case False
    then obtain pos where "valet_file_find sp w d = Inr pos" "pos \<noteq> NULL"
      using assms(8) scan(1) by (auto simp: device_attr_store_def bind_ok_eq_Inr)
    then show ?thesis using assms(8) scan(1) by (simp add: device_attr_store_def)
  next
    case True
    obtain ret where "valet_create_device env sp w fp d = Inr (ret, d')" by (rule store_name_created [OF assms(8) True scan(1)])
    from this assms(4,2) disk have "\<exists>S'. sessions d' sp = Some S' \<and> ds_devs S' = ds_devs S \<and> file_name g = w"
    proof (cases rule: create_cases)
      case (up h sb nm fn)
      then show ?thesis using assms(9,10) by (auto simp: running_def)
    next
      case (down h sb g' S' fn)
      then show ?thesis using assms(9) scan(2) by auto
    qed
    then obtain S' where S': "sessions d' sp = Some S'" "fp \<in> set (ds_devs S')" "file_name g = w" using assms(3) by auto
    have "drv_reach d'"
      by (rule drv_reach.event [OF assms(1), of "Store_Name env junk sp fp (w @ [CHR 0x0A])"]) (use assms(2-5,8) in auto)
    then have "\<forall>x\<in>set (ds_devs S'). x \<noteq> NULL \<and> files d' x \<noteq> None"
      using driver_okD(3) [OF drv_reach_ok, of d' _ sp] S'(1) by (fastforce simp: owned_by_def file_ok_def)
    then show ?thesis using find_file_hit [OF S'(2) _ assms(9) S'(3)] S'(1) by (simp add: valet_file_find_def deref_def)
  qed
  then show ?thesis using scan(1) by (auto simp: device_attr_store_def)
qed

text \<open>
  A portal is never recognised: the parser puts zeros for the commas of the portal it has stored, so that the text a session was created from, given again for
  another session, is not found among the sessions.
\<close>

theorem portal_never_found:
  assumes "drv_reach d" and "sessions d sp = Some S" and "ds_portal S = []" and "\<forall>p\<in>set ps. good_node p" "ps \<noteq> []"
    and "bd_text ps = ''rdma://'' @ w" "length (bd_text ps) + 1 < 2048" "plain_word w"
    and "\<forall>x T. sessions d x = Some T \<longrightarrow> c_string (ds_portal T) \<noteq> bd_text ps"
    and "portal_attr_store env sp (w @ [CHR 0x0A]) d = Inr (r, d')"
  shows "r = int (length w) + 1 \<and> drv_reach d' \<and> valet_session_find_by_portal (bd_text ps) d' = Inr NULL"
proof -
  have "plain_word (bd_text ps)" using assms(8) unfolding assms(6) by (auto simp: plain_word_def is_space_def)
  then have scan: "scan_into 2048 (''rdma://'' @ w @ [CHR 0x0A]) [] = Inr (bd_text ps)"
    using scan_into_plain [of "bd_text ps" 2048 "[CHR 0x0A]"] assms(7) unfolding assms(6) by (simp add: is_space_def)
  obtain xs where xs: "g_valet_sessions d = Live xs" "set xs = dom (sessions d)" using driver_okD(1) [OF drv_reach_ok [OF assms(1)]] by blast
  then have "valet_session_find_by_portal (bd_text ps) d = Inr NULL"
    using assms(9) unfolding valet_session_find_by_portal_def xs(1) by (auto intro!: find_session_free)
  then obtain ret where ret: "create_session env (bd_text ps) sp d = Inr (ret, d')" "r = (if ret \<noteq> 0 then - 22 else int (length w) + 1)"
    using assms(7,10) scan unfolding assms(6) by (auto simp: portal_attr_store_def bind_ok_eq_Inr)
  have n: "length ps < 2147483648" using nodes_fit [of ps] assms(7) by linarith
  obtain qs m where c: "valet_session_create (ke_ctx_w env) (ke_ctx_r env) (submit_queues d) (bd_text ps) ((heap d)\<lparr>sess := ds_nodes S\<rparr>) = Inr (ret, qs, m)"
    "d' = (put_session sp (S\<lparr>ds_portal := parsed_portal (length qs) (bd_text ps), ds_capacity := of_nat (SWAPSPACE_SIZE_G * ONE_GB), ds_nodes := sess m\<rparr>) d)\<lparr>heap := m\<rparr>"
    using ret(1) assms(2,3) c_string_self [OF bd_text_no_NUL [OF assms(4)]]
    by (auto simp: create_session_def deref_def overlay_def bind_ok_eq_Inr Let_def)
  have "ret = 0" using c(1) by (auto simp: valet_session_create_def bind_ok_eq_Inr Let_def split: if_splits)
  moreover have "drv_reach d'"
    by (rule drv_reach.event [OF assms(1), of "Store_Portal env sp (w @ [CHR 0x0A])"]) (use assms(2,10) in auto)
  moreover have "\<forall>x\<in>set xs. \<exists>T. sessions d' x = Some T \<and> c_string (ds_portal T) \<noteq> bd_text ps"
    using xs(2) assms(2,9) stored_portal [OF assms(5)] by (auto simp: c(2) put_session_def)
  then have "valet_session_find_by_portal (bd_text ps) d' = Inr NULL"
    using xs(1) by (simp add: valet_session_find_by_portal_def c(2) put_session_def find_session_free)
  ultimately show ?thesis using ret(2) by simp
qed

text \<open>
  A device that runs without the backup disk cannot be removed: unregistering it tears down the backup disk whether there is one or not, and the code follows the
  null pointer of its disk.
\<close>

theorem device_drop_faults:
  assumes "drv_reach d" and "sessions d sp = Some S" and "fp \<in> set (ds_devs S)" and "files d fp = Some f" and "vf_state f = DEVICE_RUNNING"
    and "sb_gd (stackbd d) = Null"
  shows "valet_device_drop sp fp d = Inl Null_Deref"
proof -
  have "\<exists>g q. vf_disk f = Live g \<and> vf_queue f = Live q"
    using driver_okD(3) [OF drv_reach_ok [OF assms(1)], of fp sp] assms(2-5) by (auto simp: owned_by_def file_ok_def)
  then show ?thesis using assms(4-6)
    by (auto simp: valet_device_drop_def valet_destroy_device_def valet_unregister_block_device_def valet_set_device_state_def deref_def stackbd_exit_def put_file_def Let_def)
qed

subsection \<open>Samples\<close>

definition blank_heap :: rdma_mem where
  "blank_heap = \<lparr>pool = sample_pool, entries = Map.empty, items = Map.empty, pages = Map.empty, gpt_pages = Map.empty, gpt_init_done = 0,
     sess = zero_nodes, ctxs = Map.empty, posted = []\<rparr>"

definition granting :: kern_env where
  "granting = \<lparr>ke_queues = True, ke_vzalloc = (\<lambda>_. True), ke_vmalloc = sample_vmalloc, ke_alloc = sample_alloc, ke_freeram = 1000000,
     ke_backup = None, ke_tag_set = 0, ke_init_queue = 0, ke_disk = True, ke_ctx_w = (\<lambda>j. (10000 + j, True)), ke_ctx_r = (\<lambda>j. (20000 + j, True))\<rparr>"

text \<open>A module with one session, and with one device in it.\<close>

definition with_session :: drv where
  "with_session = (unloaded blank_heap)\<lparr>configfs_up := True, submit_queues := 2, valet_major := 252, g_valet_sessions := Live [100],
     sessions := [100 \<mapsto> zero_dev_session], created_portals := 1\<rparr>"

definition opening_file :: valet_file where
  "opening_file = zero_file\<lparr>vf_state := DEVICE_OPENNING, dev_name := ''valet0''\<rparr>"

definition with_device :: drv where
  "with_device = with_session\<lparr>files := [200 \<mapsto> opening_file], sessions := [100 \<mapsto> zero_dev_session\<lparr>ds_devs := [200]\<rparr>]\<rparr>"

lemma with_session_reach: "drv_reach with_session"
proof -
  have "valet_init_module 0 2 252 (unloaded blank_heap) =
      (0, (unloaded blank_heap)\<lparr>configfs_up := True, submit_queues := 2, valet_major := 252, g_valet_sessions := Live []\<rparr>)"
    by (simp add: valet_init_module_def valet_create_configfs_files_def unloaded_def)
  from drv_reach.loaded [OF this] show ?thesis
    by (rule drv_reach.event [of _ "New_Session 100"])
      (simp_all add: valet_session_make_group_def put_session_def with_session_def unloaded_def)
qed

lemma with_device_reach: "drv_reach with_device"
proof -
  have "scan_into 256 ''valet0'' x = Inr ''valet0''" for x
    by (simp add: scan_into_def scan_word_def is_space_def)
  then show ?thesis
    by (intro drv_reach.event [OF with_session_reach, of "New_Device 200 100 ''valet0''"])
      (simp_all add: valet_device_make_group_def valet_set_device_state_def deref_def put_session_def put_file_def with_session_def with_device_def
        unloaded_def opening_file_def zero_dev_session_def zero_file_def)
qed

lemma with_device_sel:
  "sessions with_device 100 = Some (zero_dev_session\<lparr>ds_devs := [200]\<rparr>)" "files with_device 200 = Some opening_file"
  "vf_state opening_file = DEVICE_OPENNING" "heap with_device = blank_heap" "stackbd with_device = zero_stackbd"
  "submit_queues with_device = 2" "valet_indexes with_device = 0" "file_name opening_file = []" "dev_name opening_file = ''valet0''"
  "files with_device x = (if x = 200 then Some opening_file else None)"
  by (simp_all add: with_device_def with_session_def unloaded_def opening_file_def zero_file_def)

lemma sample_word: "plain_word ''vbd1''" "length ''vbd1'' < 256" by (simp_all add: plain_word_def is_space_def)

lemma granting_sel:
  "nothing_mapped blank_heap" "ke_vmalloc granting 131072 = Some (replicate 131072 0)" "grants_ok (ke_alloc granting) {0..<131072} blank_heap"
  "all_granted (ke_alloc granting) {0..<131072}" "ke_vzalloc granting 52428992" "ke_queues granting" "ke_backup granting = None"
  "ke_tag_set granting = 0" "ke_init_queue granting = 0" "ke_disk granting"
  using sample_grants [of blank_heap] by (simp_all add: granting_def blank_heap_def nothing_mapped_def sample_vmalloc_def)

lemma device_comes_up_witness:
  "\<exists>d' g. device_attr_store granting [] 100 200 (''vbd1'' @ [CHR 0x0A]) with_device = Inr (5, d') \<and> files d' 200 = Some g \<and>
    state_attr_show g = ''running'' @ [CHR 0x0A] \<and> pool_ok 18 (heap d')"
proof -
  have name: "scan_into 32 (dev_name opening_file) [] = Inr ''valet0''"
    by (simp add: with_device_sel scan_into_def scan_word_def is_space_def)
  show ?thesis
    using device_comes_up [OF with_device_reach with_device_sel(1) _ with_device_sel(2,3) sample_word _ name, of granting "replicate 131072 0" "[]"]
      granting_sel by (simp add: with_device_sel) blast
qed

text \<open>The device running.\<close>

definition with_running :: drv where
  "with_running = snd (projr (device_attr_store granting [] 100 200 (''vbd1'' @ [CHR 0x0A]) with_device))"

lemma with_running_reach:
  obtains f S where "drv_reach with_running" "files with_running 200 = Some f" "vf_state f = DEVICE_RUNNING" "sessions with_running 100 = Some S"
    "200 \<in> set (ds_devs S)" "stackbd with_running = zero_stackbd" "submit_queues with_running = 2"
    "device_attr_store granting [] 100 200 (''vbd1'' @ [CHR 0x0A]) with_device = Inr (5, with_running)"
proof -
  obtain h where h: "mempool_init (ke_vzalloc granting) (ke_vmalloc granting) (ke_alloc granting) (ke_freeram granting) (heap with_device) = Inr (0, h)"
    using mempool_init_ok [of blank_heap "ke_vmalloc granting" "replicate 131072 0" "ke_alloc granting" "ke_vzalloc granting" "ke_freeram granting"]
      granting_sel by (auto simp: with_device_sel)
  have name: "scan_into 32 (dev_name opening_file) [] = Inr ''valet0''"
    by (simp add: with_device_sel scan_into_def scan_word_def is_space_def)
  let ?f = "running ''valet0'' ''vbd1'' 200 100 (zero_dev_session\<lparr>ds_devs := [200]\<rparr>) with_device opening_file"
  let ?S = "zero_dev_session\<lparr>ds_devs := [200], ds_xdev := 200\<rparr>"
  from device_up [OF with_device_sel(1,2) sample_word _ name h granting_sel(6-10)]
  have run: "device_attr_store granting [] 100 200 (''vbd1'' @ [CHR 0x0A]) with_device = Inr (5, worked 200 ?f 100 ?S 1 (h\<lparr>gpt_pages := Map.empty, gpt_init_done := 1\<rparr>) zero_stackbd with_device)"
    by (simp add: with_device_sel)
  then have eq: "with_running = worked 200 ?f 100 ?S 1 (h\<lparr>gpt_pages := Map.empty, gpt_init_done := 1\<rparr>) zero_stackbd with_device"
    by (simp add: with_running_def)
  have "drv_reach with_running"
    by (rule drv_reach.event [OF with_device_reach, of "Store_Name granting [] 100 200 (''vbd1'' @ [CHR 0x0A])"])
      (simp_all only: run_drv_event.simps run eq bind_ok_simps prod.case possible.simps with_device_sel, simp_all add: with_device_sel)
  then show thesis
    by (rule that [of ?f ?S]) (simp_all only: run eq, simp_all add: running_def with_device_sel)
qed


theorem second_device_forgets_witness: "gpt_lookup_page 7 (heap with_running) = NULL"
proof -
  obtain f where w: "files with_running 200 = Some f" "vf_state f = DEVICE_RUNNING"
    "device_attr_store granting [] 100 200 (''vbd1'' @ [CHR 0x0A]) with_device = Inr (5, with_running)" by (rule with_running_reach)
  show ?thesis using second_device_forgets [OF with_device_reach with_device_sel(1) _ with_device_sel(2,3) w(3,1,2)] by simp
qed

theorem device_drop_faults_witness: "valet_device_drop 100 200 with_running = Inl Null_Deref"
proof -
  obtain f S where w: "drv_reach with_running" "files with_running 200 = Some f" "vf_state f = DEVICE_RUNNING" "sessions with_running 100 = Some S"
    "200 \<in> set (ds_devs S)" "stackbd with_running = zero_stackbd" by (rule with_running_reach)
  show ?thesis by (rule device_drop_faults [OF w(1,4,5,2,3)]) (simp add: w(6) zero_stackbd_def)
qed

text \<open>Creation fails for want of the queues' memory; with all memory granted the name is refused.\<close>

theorem name_taken_after_failure_witness:
  "\<exists>d'. device_attr_store (granting\<lparr>ke_queues := False\<rparr>) [] 100 200 (''vbd1'' @ [CHR 0x0A]) with_device = Inr (- 12, d') \<and>
    device_attr_store granting [] 100 200 (''vbd1'' @ [CHR 0x0A]) d' = Inr (- 17, d')"
proof -
  have scan: "scan_into 256 (''vbd1'' @ [CHR 0x0A]) x = Inr ''vbd1''" "scan_into 256 ''vbd1'' x = Inr ''vbd1''" for x
    by (simp_all add: scan_into_def scan_word_def is_space_def)
  obtain d' g where d': "device_attr_store (granting\<lparr>ke_queues := False\<rparr>) [] 100 200 (''vbd1'' @ [CHR 0x0A]) with_device = Inr (- 12, d')"
    "files d' 200 = Some g" "vf_state g = DEVICE_OPENNING"
    unfolding device_attr_store_def scan
    by (simp add: valet_file_find_def deref_def with_device_sel valet_create_device_def scan valet_setup_queues_def)
  show ?thesis
    using d'(1) name_taken_after_failure [OF with_device_reach with_device_sel(1) _ with_device_sel(2,3) sample_word d'(1,2)] d'(3) by auto
qed

definition sample_attr :: string where
  "sample_attr = ''2,192.168.0.11:9400,192.168.0.12:9401''"

lemma sample_portal:
  "bd_text sample_nodes = ''rdma://'' @ sample_attr" "plain_word sample_attr" "length sample_attr = 37" "\<forall>p\<in>set sample_nodes. good_node p"
  "plain_word (''rdma://'' @ sample_attr)"
  by (simp_all add: sample_attr_def sample_nodes_def bd_text_def node_text_def decimal.simps char_of_def bit_Suc_0_iff plain_word_def is_space_def good_node_def)

lemma sample_store: "\<exists>r d'. portal_attr_store granting 100 (sample_attr @ [CHR 0x0A]) with_session = Inr (r, d')"
proof -
  have scan: "scan_into 2048 (''rdma://'' @ sample_attr @ [CHR 0x0A]) [] = Inr (bd_text sample_nodes)"
    using scan_into_plain [OF sample_portal(5), of 2048 "[CHR 0x0A]"] by (simp add: sample_portal is_space_def)
  have find: "valet_session_find_by_portal (bd_text sample_nodes) with_session = Inr NULL"
    by (simp add: valet_session_find_by_portal_def with_session_def deref_def zero_dev_session_def c_string_def sample_portal(1))
  let ?k = "\<lambda>a j::nat. (a + j, True)"
  have k: "\<forall>j<1024. fst (?k 10000 j) \<noteq> NULL \<and> snd (?k 10000 j)" "inj_on (\<lambda>j. fst (?k 10000 j)) {..<1024}"
      "\<forall>j<1024. fst (?k 20000 j) \<noteq> NULL \<and> snd (?k 20000 j)" "inj_on (\<lambda>j. fst (?k 20000 j)) {..<1024}"
      "(\<lambda>j. fst (?k 10000 j)) ` {..<1024} \<inter> (\<lambda>j. fst (?k 20000 j)) ` {..<1024} = {}"
    by (auto simp: inj_on_def)
  have "length (bd_text sample_nodes) < 2048" "(1024::nat) = 2 * 256 * length sample_nodes"
    by (simp_all add: sample_portal) (simp add: sample_nodes_def)
  from session_create_ok [OF sample_portal(4) this k, of "blank_heap\<lparr>sess := zero_nodes\<rparr>"]
  have "\<exists>s'. valet_session_create (ke_ctx_w granting) (ke_ctx_r granting) (submit_queues with_session) (bd_text sample_nodes)
      ((heap with_session)\<lparr>sess := zero_nodes\<rparr>) = Inr (0, sample_nodes, s')"
    by (auto simp: granting_def with_session_def unloaded_def)
  then have "\<exists>d'. create_session granting (bd_text sample_nodes) 100 with_session = Inr (0, d')"
    using c_string_self [OF bd_text_no_NUL [OF sample_portal(4)]]
    by (auto simp: create_session_def with_session_def deref_def zero_dev_session_def overlay_def Let_def)
  then show ?thesis using scan find by (auto simp: portal_attr_store_def sample_portal(3))
qed

theorem portal_never_found_witness:
  "\<exists>d'. portal_attr_store granting 100 (sample_attr @ [CHR 0x0A]) with_session = Inr (38, d') \<and>
    valet_session_find_by_portal (bd_text sample_nodes) d' = Inr NULL"
proof -
  obtain r d' where run: "portal_attr_store granting 100 (sample_attr @ [CHR 0x0A]) with_session = Inr (r, d')" using sample_store by blast
  have S: "sessions with_session 100 = Some zero_dev_session" "ds_portal zero_dev_session = []"
    by (simp_all add: with_session_def zero_dev_session_def)
  have free: "\<forall>x T. sessions with_session x = Some T \<longrightarrow> c_string (ds_portal T) \<noteq> bd_text sample_nodes"
    by (simp add: with_session_def S(2) c_string_def sample_portal(1))
  have n: "sample_nodes \<noteq> []" "length (bd_text sample_nodes) + 1 < 2048"
    by (simp add: sample_nodes_def) (simp add: sample_portal(1,3))
  have "r = 38 \<and> valet_session_find_by_portal (bd_text sample_nodes) d' = Inr NULL"
    using portal_never_found [OF with_session_reach S sample_portal(4) n(1) sample_portal(1) n(2) sample_portal(2) free run]
    by (simp add: sample_portal(3))
  then show ?thesis using run by simp
qed

end
