(* ===== verification/Daemon.thy ===== *)
theory Daemon
  imports Rdma_State
begin

text \<open>
  The memory daemon of a remote node (daemon.c, daemon.h): the gigabyte regions it lends out, its
  connections, the control messages it answers, eviction, migration between nodes, and the monitor
  of the free memory.

  The global \<open>session\<close>, the heap and what has been handed to the network card are the fields of
  \<open>daemon\<close>. Of a region only the time in its header matters to the daemon. An object that has
  been freed is no longer in its map. What the operating system and the verbs library answer is an argument.
  A call of \<open>exit\<close> is \<open>Panic\<close>.
\<close>

abbreviation (input) MAX_CLIENT :: nat where "MAX_CLIENT \<equiv> 32"
abbreviation (input) MAX_FREE_MEM_GB :: nat where "MAX_FREE_MEM_GB \<equiv> 32"
abbreviation (input) FREE_MEM_EVICT_THRESHOLD :: int where "FREE_MEM_EVICT_THRESHOLD \<equiv> 10"
abbreviation (input) FREE_MEM_EXPAND_THRESHOLD :: int where "FREE_MEM_EXPAND_THRESHOLD \<equiv> 20"
abbreviation (input) MEM_EVICT_HIT_THRESHOLD :: int where "MEM_EVICT_HIT_THRESHOLD \<equiv> 1"
abbreviation (input) MEM_EXPAND_HIT_THRESHOLD :: int where "MEM_EXPAND_HIT_THRESHOLD \<equiv> 20"
abbreviation (input) ONE_MB :: int where "ONE_MB \<equiv> 1048576"
abbreviation (input) RB_MALLOCED :: int where "RB_MALLOCED \<equiv> 1"
abbreviation (input) RB_EMPTY :: int where "RB_EMPTY \<equiv> 0"

datatype daemon_cb_state = D_CB_IDLE | D_CB_CONNECTED | D_CB_MAPPED | D_CB_FAILED

datatype daemon_state = D_IDLE | D_CONNECT_REQUEST | D_ADDR_RESOLVED | D_ROUTE_RESOLVED | D_CONNECTED
  | D_RECV_QUERY_REPL | D_RECV_MR_MAP | D_RECV_MIG_MAP | D_RDMA_READ_INP | D_RDMA_READ_COMPLETE
  | D_RDMA_WRITE_INP | D_RDMA_WRITE_COMPLETE | D_RDMA_SEND_COMPLETE | D_ERROR

fun d_before_connected :: "daemon_state \<Rightarrow> bool" where
  "d_before_connected D_IDLE = True"
| "d_before_connected D_CONNECT_REQUEST = True"
| "d_before_connected D_ADDR_RESOLVED = True"
| "d_before_connected D_ROUTE_RESOLVED = True"
| "d_before_connected _ = False"

record query_message =
  q_type :: msg_opcode
  q_size_gb :: int
  q_sum :: u64

record migration_remote_block_handler =
  mig_buf :: "u64 list"
  mig_rkey :: "u32 list"
  mig_client_rb_index :: int
  mig_src_rb_index :: int
  mig_src_cb_index :: int
  mig_local_rb_index :: int
  migration_sem :: nat

text \<open>The message buffers are allocated when the connection is set up.\<close>

record rping_cb =
  d_server :: bool
  d_cb_index :: int
  d_recv_buf :: "message option"
  d_send_buf :: "message option"
  d_qmsg :: query_message
  d_state :: daemon_state
  d_evict_sem :: nat
  d_sem :: nat
  d_rb_idx_map :: "int list"
  d_migrbh :: migration_remote_block_handler

record ibv_mr =
  mr_addr :: u64
  mr_rkey :: u32

record rdma_mr_handler =
  region_list :: "ptr list"
  mr_list :: "ptr list"
  d_size_gb :: int
  mapped_size :: int
  rb_owner :: "int list"
  client_rb_idx :: "int list"
  malloc_map :: "int list"
  d_replica_index :: "int list"

datatype daemon_request =
    D_Send ptr message
  | D_Write ptr u32 u64 int

text \<open>\<open>rb_owner\<close> is the field \<open>cb_index_map\<close> of the region handler.\<close>

record daemon =
  my_index :: int
  d_cb_list :: "ptr list"
  d_cb_state_list :: "daemon_cb_state list"
  mig_cb_list :: "ptr list"
  mig_cb_state_list :: "daemon_cb_state list"
  mrh :: rdma_mr_handler
  rping_cbs :: "ptr \<rightharpoonup> rping_cb"
  regions :: "ptr \<rightharpoonup> int \<times> int"
  ibv_mrs :: "ptr \<rightharpoonup> ibv_mr"
  d_posted :: "daemon_request list"

subsection \<open>Access to the state\<close>

definition get_rcb :: "ptr \<Rightarrow> daemon \<Rightarrow> rping_cb outcome" where
  "get_rcb x d = (case rping_cbs d x of None \<Rightarrow> Inl Null_Deref | Some cb \<Rightarrow> Inr cb)"

definition set_rcb :: "ptr \<Rightarrow> rping_cb \<Rightarrow> daemon \<Rightarrow> daemon" where
  "set_rcb x cb d = d\<lparr>rping_cbs := (rping_cbs d)(x \<mapsto> cb)\<rparr>"

definition buf_get :: "message option \<Rightarrow> message outcome" where
  "buf_get b = (case b of None \<Rightarrow> Inl Null_Deref | Some m \<Rightarrow> Inr m)"

definition region_get :: "int \<Rightarrow> daemon \<Rightarrow> (int \<times> int) outcome" where
  "region_get i d = bind_ok (iarr_get (region_list (mrh d)) i) (\<lambda>p.
     case regions d p of None \<Rightarrow> Inl Null_Deref | Some tv \<Rightarrow> Inr tv)"

definition mr_get :: "int \<Rightarrow> daemon \<Rightarrow> ibv_mr outcome" where
  "mr_get i d = bind_ok (iarr_get (mr_list (mrh d)) i) (\<lambda>p.
     case ibv_mrs d p of None \<Rightarrow> Inl Null_Deref | Some mr \<Rightarrow> Inr mr)"

text \<open>\<open>free\<close> of a region and \<open>ibv_dereg_mr\<close>: the object has to be there.\<close>

definition region_free :: "int \<Rightarrow> daemon \<Rightarrow> daemon outcome" where
  "region_free i d = bind_ok (iarr_get (region_list (mrh d)) i) (\<lambda>p.
     case regions d p of None \<Rightarrow> Inl Null_Deref | Some _ \<Rightarrow> Inr (d\<lparr>regions := (regions d)(p := None)\<rparr>))"

definition ibv_dereg_mr :: "int \<Rightarrow> daemon \<Rightarrow> daemon outcome" where
  "ibv_dereg_mr i d = bind_ok (iarr_get (mr_list (mrh d)) i) (\<lambda>p.
     case ibv_mrs d p of None \<Rightarrow> Inl Null_Deref | Some _ \<Rightarrow> Inr (d\<lparr>ibv_mrs := (ibv_mrs d)(p := None)\<rparr>))"

text \<open>A request that cannot be posted ends the daemon, except an RDMA write; \<open>sent\<close> is whether it could.\<close>

definition post_send :: "bool \<Rightarrow> ptr \<Rightarrow> daemon \<Rightarrow> daemon outcome" where
  "post_send sent x d =
     bind_ok (get_rcb x d) (\<lambda>cb. bind_ok (buf_get (d_send_buf cb)) (\<lambda>m.
       if sent then Inr (d\<lparr>d_posted := d_posted d @ [D_Send x m]\<rparr>) else Inl Panic))"

text \<open>The two halves of a region go to consecutive remote addresses, as one list of requests.\<close>

definition post_write :: "bool \<Rightarrow> ptr \<Rightarrow> u32 \<Rightarrow> u64 \<Rightarrow> int \<Rightarrow> daemon \<Rightarrow> daemon outcome" where
  "post_write sent x rkey addr region_index d =
     bind_ok (region_get region_index d) (\<lambda>_. bind_ok (mr_get region_index d) (\<lambda>_.
       Inr (if sent then d\<lparr>d_posted := d_posted d @ [D_Write x rkey addr region_index]\<rparr> else d)))"

subsection \<open>Free memory\<close>

text \<open>
  \<open>get_free_mem\<close> reads the second line of the memory statistics, which \<open>fgets\<close> cuts at 59 characters, and collects
  its digits.
\<close>

primrec digits_value :: "string \<Rightarrow> int \<Rightarrow> int" where
  "digits_value [] res = res"
| "digits_value (c # cs) res =
     (if (48::nat) \<le> of_char c \<and> of_char c \<le> (57::nat) then digits_value cs (res * 10 + (int (of_char c) - 48)) else digits_value cs res)"

definition get_free_mem :: "string \<Rightarrow> int" where
  "get_free_mem line = digits_value (take 59 line) 0"

subsection \<open>Start\<close>

definition initial_size :: "int \<Rightarrow> int" where
  "initial_size free_mem_g =
     (let f = (if free_mem_g > FREE_MEM_EXPAND_THRESHOLD
               then free_mem_g - (FREE_MEM_EVICT_THRESHOLD + FREE_MEM_EXPAND_THRESHOLD) div 2
               else if free_mem_g > FREE_MEM_EVICT_THRESHOLD then free_mem_g - FREE_MEM_EVICT_THRESHOLD
               else 0)
      in if f > int MAX_FREE_MEM_GB then int MAX_FREE_MEM_GB else f)"

text \<open>\<open>posix_memalign\<close> and \<open>memset\<close>: the region \<open>i\<close> is new and zero. Address 0 is a failure, after which the \<open>memset\<close> goes to nowhere.\<close>

definition new_region :: "(nat \<Rightarrow> ptr) \<Rightarrow> nat \<Rightarrow> daemon \<Rightarrow> daemon outcome" where
  "new_region grant i d =
     (if grant i = NULL then Inl Null_Deref
      else bind_ok (arr_set (region_list (mrh d)) i (grant i)) (\<lambda>rs.
        bind_ok (arr_set (malloc_map (mrh d)) i RB_MALLOCED) (\<lambda>ms.
          Inr (d\<lparr>regions := (regions d)(grant i \<mapsto> (0, 0)), mrh := (mrh d)\<lparr>region_list := rs, malloc_map := ms\<rparr>\<rparr>))))"

text \<open>
  The session as \<open>rdma_session_init\<close> leaves it; \<open>line\<close> is the line of the memory statistics. A connection to each
  other node is prepared, \<open>self\<close> gives the nodes with the address and port of this one. Name resolution is not modelled.
\<close>

definition blank_rcb :: rping_cb where
  "blank_rcb = \<lparr>d_server = False, d_cb_index = 0, d_recv_buf = None, d_send_buf = None,
     d_qmsg = \<lparr>q_type = DONE, q_size_gb = 0, q_sum = 0\<rparr>, d_state = D_IDLE, d_evict_sem = 0, d_sem = 0,
     d_rb_idx_map = replicate MAX_MR_SIZE_GB 0,
     d_migrbh = \<lparr>mig_buf = replicate MAX_MR_SIZE_GB 0, mig_rkey = replicate MAX_MR_SIZE_GB 0, mig_client_rb_index = 0,
       mig_src_rb_index = 0, mig_src_cb_index = 0, mig_local_rb_index = 0, migration_sem = 0\<rparr>\<rparr>"

definition mig_cb_init :: "(nat \<Rightarrow> ptr) \<Rightarrow> (nat \<Rightarrow> bool) \<Rightarrow> nat \<Rightarrow> daemon \<Rightarrow> daemon outcome" where
  "mig_cb_init mig self i d =
     (if mig i = NULL then Inl Null_Deref
      else bind_ok (arr_set (mig_cb_list d) i (mig i)) (\<lambda>l. bind_ok (arr_set (mig_cb_state_list d) i D_CB_IDLE) (\<lambda>st.
        Inr (d\<lparr>mig_cb_list := l, mig_cb_state_list := st,
               rping_cbs := (rping_cbs d)(mig i \<mapsto> blank_rcb\<lparr>d_cb_index := int i\<rparr>),
               my_index := (if self i then int i else my_index d)\<rparr>))))"

definition rdma_session_init :: "string \<Rightarrow> (nat \<Rightarrow> ptr) \<Rightarrow> (nat \<Rightarrow> ptr) \<Rightarrow> (nat \<Rightarrow> bool) \<Rightarrow> nat \<Rightarrow> daemon \<Rightarrow> daemon outcome" where
  "rdma_session_init line grant mig self mig_server_num d =
     (let free_mem_g = initial_size (get_free_mem line div ONE_MB);
          d = d\<lparr>mrh := (mrh d)\<lparr>rb_owner := replicate MAX_FREE_MEM_GB (- 1), malloc_map := replicate MAX_FREE_MEM_GB RB_EMPTY\<rparr>\<rparr>
      in bind_ok (foldM (new_region grant) [0..<nat free_mem_g] d) (\<lambda>d.
         foldM (mig_cb_init mig self) [0..<mig_server_num]
           (d\<lparr>mrh := (mrh d)\<lparr>d_size_gb := free_mem_g, mapped_size := 0\<rparr>,
              d_cb_list := replicate MAX_CLIENT NULL, d_cb_state_list := replicate MAX_CLIENT D_CB_IDLE,
              mig_cb_list := replicate mig_server_num NULL, mig_cb_state_list := replicate mig_server_num D_CB_IDLE\<rparr>)))"

subsection \<open>Answers to the client\<close>

definition age_sum_step :: "daemon \<Rightarrow> nat \<Rightarrow> u64 \<Rightarrow> u64 outcome" where
  "age_sum_step d i acc =
     bind_ok (arr_get (rb_owner (mrh d)) i) (\<lambda>c.
       if c \<noteq> - 1 then bind_ok (region_get (int i) d) (\<lambda>tv. Inr (acc + of_int (fst tv * 1000000 + snd tv))) else Inr acc)"

text \<open>
  The answer is copied over the first sixteen bytes of the buffer: the sum lies over \<open>rb_index\<close> and \<open>cb_index\<close>.
\<close>

definition query_overlay :: "query_message \<Rightarrow> message \<Rightarrow> message" where
  "query_overlay q m = m\<lparr>m_type := q_type q, m_size_gb := q_size_gb q,
     m_rb_index := sint (ucast (q_sum q) :: u32), m_cb_index := sint (ucast (drop_bit 32 (q_sum q)) :: u32)\<rparr>"

definition reply_query :: "bool \<Rightarrow> ptr \<Rightarrow> daemon \<Rightarrow> daemon outcome" where
  "reply_query sent x d =
     bind_ok (get_rcb x d) (\<lambda>cb.
     bind_ok (foldM (age_sum_step d) [0..<MAX_FREE_MEM_GB] 0) (\<lambda>acc.
     let free_mem = d_size_gb (mrh d) - mapped_size (mrh d);
         q = \<lparr>q_type = RESP_QUERY, q_size_gb = (if free_mem < 0 then 0 else free_mem), q_sum = acc\<rparr>
     in bind_ok (buf_get (d_send_buf cb)) (\<lambda>m.
          post_send sent x (set_rcb x (cb\<lparr>d_qmsg := q, d_send_buf := Some (query_overlay q m)\<rparr>) d))))"

definition send_evict :: "bool \<Rightarrow> ptr \<Rightarrow> int \<Rightarrow> int \<Rightarrow> int \<Rightarrow> daemon \<Rightarrow> daemon outcome" where
  "send_evict sent x evict_index client_rb_index src_cb d =
     bind_ok (get_rcb x d) (\<lambda>cb. bind_ok (buf_get (d_send_buf cb)) (\<lambda>m.
     bind_ok (foldM (\<lambda>i m.
         if int i = evict_index
         then bind_ok (mr_get (int i) d) (\<lambda>mr. bind_ok (arr_set (m_rkey m) i (htonl (mr_rkey mr))) (\<lambda>ks.
              bind_ok (arr_set (m_buf m) i (htonll (mr_addr mr))) (\<lambda>bs.
              bind_ok (arr_get (d_replica_index (mrh d)) i) (\<lambda>r.
                Inr (m\<lparr>m_rkey := ks, m_buf := bs, m_replica_index := r\<rparr>)))))
         else bind_ok (arr_set (m_rkey m) i 0) (\<lambda>ks. Inr (m\<lparr>m_rkey := ks\<rparr>)))
       [0..<MAX_MR_SIZE_GB]
       (m\<lparr>m_type := EVICT, m_size_gb := client_rb_index, m_cb_index := src_cb, m_rb_index := evict_index\<rparr>)) (\<lambda>m.
       post_send sent x (set_rcb x (cb\<lparr>d_send_buf := Some m\<rparr>) d))))"

text \<open>
  \<open>prepare_single_mr\<close> lends the first region that is allocated and free; 32 stands for none. The answer names it with its
  key and address in network order. \<open>reg\<close> is what \<open>ibv_reg_mr\<close> gives: the
  object and its key. The result is the C return.
\<close>

primrec find_free_block :: "nat list \<Rightarrow> rdma_mr_handler \<Rightarrow> nat outcome" where
  "find_free_block [] h = Inr MAX_FREE_MEM_GB"
| "find_free_block (i # is) h =
     bind_ok (arr_get (malloc_map h) i) (\<lambda>m. bind_ok (arr_get (rb_owner h) i) (\<lambda>c.
       if m = RB_MALLOCED \<and> c = - 1 then Inr i else find_free_block is h))"

definition lend_block :: "ptr \<times> u32 \<Rightarrow> nat \<Rightarrow> message \<Rightarrow> rping_cb \<Rightarrow> message \<Rightarrow> daemon \<Rightarrow> (rping_cb \<times> message \<times> daemon) outcome" where
  "lend_block reg i rm cb m d =
     bind_ok (arr_set (d_rb_idx_map cb) i (int i)) (\<lambda>idx.
     bind_ok (arr_set (d_replica_index (mrh d)) i (m_replica_index rm)) (\<lambda>rep.
     bind_ok (arr_set (rb_owner (mrh d)) i (d_cb_index cb)) (\<lambda>own.
     bind_ok (arr_set (client_rb_idx (mrh d)) i (m_size_gb rm)) (\<lambda>cri.
     bind_ok (arr_get (region_list (mrh d)) i) (\<lambda>p.
     bind_ok (arr_set (mr_list (mrh d)) i (fst reg)) (\<lambda>mrl.
     bind_ok (if fst reg = NULL then Inl Null_Deref else Inr \<lparr>mr_addr = of_nat p, mr_rkey = snd reg\<rparr>) (\<lambda>mr.
     bind_ok (arr_set (m_buf m) i (htonll (mr_addr mr))) (\<lambda>bs.
     bind_ok (arr_set (m_rkey m) i (htonl (mr_rkey mr))) (\<lambda>ks.
       Inr (cb\<lparr>d_rb_idx_map := idx\<rparr>, m\<lparr>m_buf := bs, m_rkey := ks\<rparr>,
            d\<lparr>ibv_mrs := (ibv_mrs d)(fst reg \<mapsto> mr),
              mrh := (mrh d)\<lparr>d_replica_index := rep, rb_owner := own, client_rb_idx := cri, mr_list := mrl\<rparr>\<rparr>))))))))))"

definition prepare_single_mr :: "ptr \<times> u32 \<Rightarrow> ptr \<Rightarrow> bool \<Rightarrow> daemon \<Rightarrow> (int \<times> daemon) outcome" where
  "prepare_single_mr reg x isMigration d =
     bind_ok (get_rcb x d) (\<lambda>cb. bind_ok (buf_get (d_recv_buf cb)) (\<lambda>rm. bind_ok (buf_get (d_send_buf cb)) (\<lambda>m.
     bind_ok (foldM (\<lambda>i ks. arr_set ks i 0) [0..<MAX_FREE_MEM_GB] (m_rkey m)) (\<lambda>ks.
     bind_ok (find_free_block [0..<MAX_FREE_MEM_GB] (mrh d)) (\<lambda>i.
     bind_ok (if i < MAX_FREE_MEM_GB then lend_block reg i rm cb (m\<lparr>m_rkey := ks\<rparr>) d
              else Inr (cb, m\<lparr>m_rkey := ks\<rparr>, d)) (\<lambda>(cb, m, d).
     let m = m\<lparr>m_size_gb := m_size_gb rm, m_replica_index := m_replica_index rm\<rparr>;
         m = (if isMigration then m\<lparr>m_type := RESP_MIG_MAP, m_cb_index := my_index d, m_rb_index := int i\<rparr>
              else m\<lparr>m_type := RESP_MR_MAP\<rparr>)
     in Inr (int i, set_rcb x (cb\<lparr>d_send_buf := Some m\<rparr>)
          (d\<lparr>mrh := (mrh d)\<lparr>mapped_size := mapped_size (mrh d) + 1\<rparr>\<rparr>))))))))"

primrec find_key :: "nat list \<Rightarrow> message \<Rightarrow> nat option outcome" where
  "find_key [] m = Inr None"
| "find_key (i # is) m = bind_ok (arr_get (m_rkey m) i) (\<lambda>key. if key \<noteq> 0 then Inr (Some i) else find_key is m)"

text \<open>The client has stopped using a block: its region is given back to the system.\<close>

definition recv_delete_rb :: "ptr \<Rightarrow> daemon \<Rightarrow> daemon outcome" where
  "recv_delete_rb x d =
     bind_ok (get_rcb x d) (\<lambda>cb. bind_ok (buf_get (d_recv_buf cb)) (\<lambda>m.
     bind_ok (find_key [0..<MAX_MR_SIZE_GB] m) (\<lambda>k.
     bind_ok (case k of None \<Rightarrow> Inr (cb, d)
       | Some i \<Rightarrow>
           bind_ok (arr_get (d_rb_idx_map cb) i) (\<lambda>index. bind_ok (arr_set (d_rb_idx_map cb) i (- 1)) (\<lambda>idx.
           bind_ok (ibv_dereg_mr index d) (\<lambda>d. bind_ok (region_free index d) (\<lambda>d.
           bind_ok (iarr_set (rb_owner (mrh d)) index (- 1)) (\<lambda>own.
           bind_ok (iarr_set (malloc_map (mrh d)) index RB_EMPTY) (\<lambda>ms.
             Inr (cb\<lparr>d_rb_idx_map := idx\<rparr>, d\<lparr>mrh := (mrh d)\<lparr>rb_owner := own, malloc_map := ms\<rparr>\<rparr>)))))))) (\<lambda>(cb, d).
       Inr (set_rcb x (cb\<lparr>d_evict_sem := d_evict_sem cb + 1\<rparr>)
         (d\<lparr>mrh := (mrh d)\<lparr>d_size_gb := d_size_gb (mrh d) - 1, mapped_size := mapped_size (mrh d) - 1\<rparr>\<rparr>))))))"

subsection \<open>Migration\<close>

text \<open>Without a key in the message, what \<open>rkey\<close> and \<open>addr\<close> hold is what the stack held: \<open>junk\<close>.\<close>

definition do_migration :: "bool \<Rightarrow> u32 \<times> u64 \<Rightarrow> ptr \<Rightarrow> daemon \<Rightarrow> daemon outcome" where
  "do_migration sent junk x d =
     bind_ok (get_rcb x d) (\<lambda>cb. bind_ok (buf_get (d_recv_buf cb)) (\<lambda>m.
     bind_ok (find_key [0..<MAX_MR_SIZE_GB] m) (\<lambda>k.
     bind_ok (case k of None \<Rightarrow> Inr junk
       | Some i \<Rightarrow> bind_ok (arr_get (m_rkey m) i) (\<lambda>key. bind_ok (arr_get (m_buf m) i) (\<lambda>a. Inr (ntohl key, ntohll a)))) (\<lambda>(rkey, addr).
       post_write sent x rkey addr (m_size_gb m)
         (set_rcb x (cb\<lparr>d_migrbh := (d_migrbh cb)\<lparr>mig_local_rb_index := m_size_gb m\<rparr>, d_state := D_RDMA_WRITE_INP\<rparr>) d)))))"

subsection \<open>Received messages\<close>

record daemon_env =
  de_sent :: bool
  de_reg :: "ptr \<times> u32"
  de_junk :: "u32 \<times> u64"

definition mig_map_prep :: "message \<Rightarrow> rping_cb \<Rightarrow> rping_cb outcome" where
  "mig_map_prep m cb =
     (let h = (d_migrbh cb)\<lparr>mig_client_rb_index := m_size_gb m, mig_src_rb_index := m_rb_index m, mig_src_cb_index := m_cb_index m\<rparr>
      in bind_ok (find_key [0..<MAX_MR_SIZE_GB] m) (\<lambda>k.
         bind_ok (case k of None \<Rightarrow> Inr h
           | Some i \<Rightarrow> bind_ok (arr_get (m_rkey m) i) (\<lambda>key. bind_ok (arr_get (m_buf m) i) (\<lambda>a.
               bind_ok (arr_set (mig_rkey h) i (ntohl key)) (\<lambda>ks. bind_ok (arr_set (mig_buf h) i (ntohll a)) (\<lambda>bs.
                 Inr (h\<lparr>mig_rkey := ks, mig_buf := bs\<rparr>)))))) (\<lambda>h.
           Inr (cb\<lparr>d_state := D_RECV_MR_MAP, d_migrbh := h\<rparr>))))"

definition handle_recv :: "daemon_env \<Rightarrow> ptr \<Rightarrow> daemon \<Rightarrow> (int \<times> daemon) outcome" where
  "handle_recv env x d =
     bind_ok (get_rcb x d) (\<lambda>cb. bind_ok (buf_get (d_recv_buf cb)) (\<lambda>m.
     case m_type m of
       REQ_QUERY \<Rightarrow> bind_ok (reply_query (de_sent env) x d) (\<lambda>d. Inr (0, d))
     | REQ_MIG_MAP \<Rightarrow>
         bind_ok (iarr_set (d_cb_state_list d) (d_cb_index cb) D_CB_MAPPED) (\<lambda>l.
         bind_ok (mig_map_prep m cb) (\<lambda>cb.
         bind_ok (prepare_single_mr (de_reg env) x True (set_rcb x cb (d\<lparr>d_cb_state_list := l\<rparr>))) (\<lambda>(i, d).
         bind_ok (get_rcb x d) (\<lambda>cb.
         bind_ok (post_send (de_sent env) x (set_rcb x (cb\<lparr>d_migrbh := (d_migrbh cb)\<lparr>mig_local_rb_index := i\<rparr>\<rparr>) d)) (\<lambda>d. Inr (0, d))))))
     | REQ_MR_MAP \<Rightarrow>
         bind_ok (prepare_single_mr (de_reg env) x False d) (\<lambda>(_, d).
         bind_ok (post_send (de_sent env) x d) (\<lambda>d.
         bind_ok (iarr_set (d_cb_state_list d) (d_cb_index cb) D_CB_MAPPED) (\<lambda>l. Inr (0, d\<lparr>d_cb_state_list := l\<rparr>))))
     | DELETE_RB \<Rightarrow> bind_ok (recv_delete_rb x d) (\<lambda>d. Inr (0, d))
     | RESP_QUERY \<Rightarrow> Inr (0, set_rcb x (cb\<lparr>d_state := D_RECV_QUERY_REPL\<rparr>) d)
     | REQ_MIGRATION \<Rightarrow> bind_ok (do_migration (de_sent env) (de_junk env) x (set_rcb x (cb\<lparr>d_state := D_RECV_MIG_MAP\<rparr>) d)) (\<lambda>d. Inr (0, d))
     | _ \<Rightarrow> Inr (- 1, d)))"

text \<open>A message that arrives is in the buffer when its completion is handled; the result of the handler is ignored.\<close>

definition receive :: "daemon_env \<Rightarrow> ptr \<Rightarrow> message \<Rightarrow> daemon \<Rightarrow> daemon outcome" where
  "receive env x m d =
     bind_ok (get_rcb x d) (\<lambda>cb. bind_ok (handle_recv env x (set_rcb x (cb\<lparr>d_recv_buf := Some m\<rparr>) d)) (\<lambda>(_, d). Inr d))"

datatype wc_opcode = WC_SEND | WC_RDMA_WRITE | WC_RDMA_READ | WC_RECV message | WC_UNKNOWN

datatype wc_status = WC_SUCCESS | WC_FLUSH_ERR | WC_FAILURE

definition rping_cq_event_handler :: "daemon_env \<Rightarrow> wc_status \<Rightarrow> wc_opcode \<Rightarrow> ptr \<Rightarrow> daemon \<Rightarrow> (int \<times> daemon) outcome" where
  "rping_cq_event_handler env status opcode x d =
     bind_ok (get_rcb x d) (\<lambda>cb.
       if status \<noteq> WC_SUCCESS
       then Inr (if status \<noteq> WC_FLUSH_ERR then - 1 else 0, set_rcb x (cb\<lparr>d_state := D_ERROR\<rparr>) d)
       else case opcode of
         WC_SEND \<Rightarrow>
           (let h = d_migrbh cb
            in Inr (0, set_rcb x (cb\<lparr>d_migrbh := (if d_state cb = D_RECV_MR_MAP then h\<lparr>migration_sem := migration_sem h + 1\<rparr> else h),
                                   d_state := D_RDMA_SEND_COMPLETE\<rparr>) d))
       | WC_RDMA_WRITE \<Rightarrow>
           bind_ok (iarr_get (rb_owner (mrh d)) (mig_local_rb_index (d_migrbh cb))) (\<lambda>c.
           bind_ok (iarr_get (d_cb_list d) c) (\<lambda>y. bind_ok (get_rcb y d) (\<lambda>ccb. bind_ok (buf_get (d_send_buf ccb)) (\<lambda>m.
           bind_ok (post_send (de_sent env) y (set_rcb y (ccb\<lparr>d_send_buf := Some (m\<lparr>m_type := DONE_MIGRATION\<rparr>)\<rparr>) d)) (\<lambda>d.
           bind_ok (get_rcb x d) (\<lambda>cb. Inr (0, set_rcb x (cb\<lparr>d_state := D_RDMA_WRITE_COMPLETE\<rparr>) d)))))))
       | WC_RDMA_READ \<Rightarrow>
           Inr (0, set_rcb x (cb\<lparr>d_state := D_RDMA_READ_COMPLETE,
                               d_migrbh := (d_migrbh cb)\<lparr>migration_sem := migration_sem (d_migrbh cb) + 1\<rparr>\<rparr>) d)
       | WC_RECV m \<Rightarrow> bind_ok (receive env x m d) (\<lambda>d. Inr (0, d))
       | WC_UNKNOWN \<Rightarrow> Inr (- 1, set_rcb x (cb\<lparr>d_state := D_ERROR\<rparr>) d))"

subsection \<open>Eviction\<close>

text \<open>
  First the regions that nobody uses go. The flag says that enough of them were found and the function has returned.
\<close>

primrec free_unmapped :: "nat list \<Rightarrow> int \<Rightarrow> int \<Rightarrow> daemon \<Rightarrow> (bool \<times> int \<times> daemon) outcome" where
  "free_unmapped [] evict_size freed_g d = Inr (False, freed_g, d)"
| "free_unmapped (i # is) evict_size freed_g d =
     bind_ok (arr_get (malloc_map (mrh d)) i) (\<lambda>m. bind_ok (arr_get (rb_owner (mrh d)) i) (\<lambda>c.
       if m = RB_MALLOCED \<and> c = - 1
       then bind_ok (region_free (int i) d) (\<lambda>d. bind_ok (arr_set (malloc_map (mrh d)) i RB_EMPTY) (\<lambda>ms.
              let d = d\<lparr>mrh := (mrh d)\<lparr>malloc_map := ms\<rparr>\<rparr>
              in if freed_g + 1 = evict_size
                 then Inr (True, freed_g + 1, d\<lparr>mrh := (mrh d)\<lparr>d_size_gb := d_size_gb (mrh d) - evict_size\<rparr>\<rparr>)
                 else free_unmapped is evict_size (freed_g + 1) d))
       else free_unmapped is evict_size freed_g d))"

text \<open>
  Then the block in use with the oldest time is called back from its client, one after the other. A
  time of zero counts as no time yet.
\<close>

definition micros :: "int \<times> int \<Rightarrow> int" where
  "micros tv = fst tv * 1000000 + snd tv"

definition oldest_step :: "daemon \<Rightarrow> nat \<Rightarrow> (int \<times> int) \<times> int \<Rightarrow> ((int \<times> int) \<times> int) outcome" where
  "oldest_step d i acc =
     bind_ok (arr_get (rb_owner (mrh d)) i) (\<lambda>c.
       if c \<noteq> - 1
       then bind_ok (region_get (int i) d) (\<lambda>tv.
              Inr (if fst acc = (0, 0) then (tv, int i) else if micros (fst acc) > micros tv then (tv, int i) else acc))
       else Inr acc)"

definition find_oldest :: "int \<Rightarrow> daemon \<Rightarrow> int outcome" where
  "find_oldest idx d = bind_ok (foldM (oldest_step d) [0..<MAX_FREE_MEM_GB] ((0, 0), idx)) (\<lambda>acc. Inr (snd acc))"

text \<open>While the monitor waits, the receiver handles the messages \<open>msgs\<close>; without a \<open>DELETE_RB\<close> of the client it waits forever.
  What arrives is an answer to the \<open>EVICT\<close> message: \<open>react\<close> gives the messages for the connection and what was sent on it.\<close>

type_synonym reaction = "ptr \<Rightarrow> message \<Rightarrow> (daemon_env \<times> ptr \<times> message) list"

definition wait_evicted :: "(daemon_env \<times> ptr \<times> message) list \<Rightarrow> ptr \<Rightarrow> daemon \<Rightarrow> daemon outcome" where
  "wait_evicted msgs y d =
     bind_ok (foldM (\<lambda>(env, x, m) d. receive env x m d) msgs d) (\<lambda>d.
     bind_ok (get_rcb y d) (\<lambda>cb.
       if d_evict_sem cb = 0 then Inl Hang else Inr (set_rcb y (cb\<lparr>d_evict_sem := d_evict_sem cb - 1\<rparr>) d)))"

definition evict_one :: "bool \<Rightarrow> reaction \<Rightarrow> int \<Rightarrow> daemon \<Rightarrow> (int \<times> daemon) outcome" where
  "evict_one sent react idx d =
     bind_ok (find_oldest idx d) (\<lambda>idx.
     bind_ok (iarr_get (rb_owner (mrh d)) idx) (\<lambda>c. bind_ok (iarr_get (d_cb_list d) c) (\<lambda>y.
     bind_ok (iarr_get (client_rb_idx (mrh d)) idx) (\<lambda>rb.
     bind_ok (send_evict sent y idx rb (my_index d) d) (\<lambda>d.
     bind_ok (get_rcb y d) (\<lambda>cb. bind_ok (buf_get (d_send_buf cb)) (\<lambda>m.
     bind_ok (wait_evicted (react y m) y d) (\<lambda>d. Inr (idx, d)))))))))"

primrec evict_loop :: "nat \<Rightarrow> (nat \<Rightarrow> bool \<times> reaction) \<Rightarrow> int \<Rightarrow> daemon \<Rightarrow> daemon outcome" where
  "evict_loop 0 envs idx d = Inr d"
| "evict_loop (Suc n) envs idx d =
     bind_ok (evict_one (fst (envs n)) (snd (envs n)) idx d) (\<lambda>(idx, d). evict_loop n envs idx d)"

definition do_evict :: "(nat \<Rightarrow> bool \<times> reaction) \<Rightarrow> int \<Rightarrow> daemon \<Rightarrow> daemon outcome" where
  "do_evict envs evict_size d =
     bind_ok (free_unmapped [0..<MAX_FREE_MEM_GB] evict_size 0 d) (\<lambda>(returned, freed_g, d).
       if returned then Inr d
       else let d = d\<lparr>mrh := (mrh d)\<lparr>d_size_gb := d_size_gb (mrh d) - freed_g\<rparr>\<rparr>;
                e = evict_size - freed_g;
                e = (if mapped_size (mrh d) < e then mapped_size (mrh d) else e)
            in evict_loop (nat e) envs (- 1) d)"

subsection \<open>The monitor\<close>

primrec expand_regions :: "nat list \<Rightarrow> (nat \<Rightarrow> ptr) \<Rightarrow> int \<Rightarrow> int \<Rightarrow> daemon \<Rightarrow> daemon outcome" where
  "expand_regions [] grant expand_size j d = Inr d"
| "expand_regions (i # is) grant expand_size j d =
     bind_ok (arr_get (malloc_map (mrh d)) i) (\<lambda>m.
       if m = RB_EMPTY
       then bind_ok (new_region grant i d) (\<lambda>d. if j + 1 = expand_size then Inr d else expand_regions is grant expand_size (j + 1) d)
       else expand_regions is grant expand_size j d)"

record monitor =
  last_free_mem_g :: int
  evict_hit_count :: int
  expand_hit_count :: int

text \<open>
  One second of \<open>free_mem_monitor_fn\<close>. The weighted mean of the present and the last value is computed in floating point; \<open>filtered\<close>
  is its integer part.
\<close>

definition monitor_step ::
  "(nat \<Rightarrow> bool \<times> reaction) \<Rightarrow> (nat \<Rightarrow> ptr) \<Rightarrow> int \<Rightarrow> monitor \<Rightarrow> daemon \<Rightarrow> (monitor \<times> daemon) outcome" where
  "monitor_step envs grant filtered mon d =
     (let mon = mon\<lparr>last_free_mem_g := filtered\<rparr>
      in if filtered < FREE_MEM_EVICT_THRESHOLD
         then let mon = mon\<lparr>evict_hit_count := evict_hit_count mon + 1, expand_hit_count := 0\<rparr>
              in if evict_hit_count mon \<ge> MEM_EVICT_HIT_THRESHOLD
                 then let stop = FREE_MEM_EVICT_THRESHOLD - last_free_mem_g mon;
                          stop = (if d_size_gb (mrh d) < stop then d_size_gb (mrh d) else stop)
                      in bind_ok (if stop > 0 then do_evict envs stop d else Inr d) (\<lambda>d.
                           Inr (mon\<lparr>evict_hit_count := 0, last_free_mem_g := last_free_mem_g mon + stop\<rparr>, d))
                 else Inr (mon, d)
         else if filtered > FREE_MEM_EXPAND_THRESHOLD
         then let mon = mon\<lparr>expand_hit_count := expand_hit_count mon + 1, evict_hit_count := 0\<rparr>
              in if expand_hit_count mon \<ge> MEM_EXPAND_HIT_THRESHOLD
                 then let e = last_free_mem_g mon - FREE_MEM_EXPAND_THRESHOLD;
                          e = (if e + d_size_gb (mrh d) > int MAX_FREE_MEM_GB then int MAX_FREE_MEM_GB - d_size_gb (mrh d) else e)
                      in bind_ok (expand_regions [0..<MAX_FREE_MEM_GB] grant e 0 d) (\<lambda>d.
                           Inr (mon\<lparr>expand_hit_count := 0, last_free_mem_g := last_free_mem_g mon - e\<rparr>,
                                d\<lparr>mrh := (mrh d)\<lparr>d_size_gb := d_size_gb (mrh d) + e\<rparr>\<rparr>))
                 else Inr (mon, d)
         else Inr (mon, d))"

subsection \<open>Connections\<close>

text \<open>
  What setting up an incoming connection meets: the new control block with what the memory held, the results of the
  verbs calls, the message buffers (none if they could not be registered).
\<close>

record accept_env =
  ae_cb :: "ptr \<times> rping_cb"
  ae_server_qp :: int
  ae_qp :: int
  ae_bufs :: "(message \<times> message) option"
  ae_accept :: int

primrec add_client :: "nat list \<Rightarrow> ptr \<Rightarrow> daemon \<Rightarrow> daemon outcome" where
  "add_client [] x d = Inr d"
| "add_client (i # is) x d =
     bind_ok (arr_get (d_cb_state_list d) i) (\<lambda>st.
       if st = D_CB_IDLE
       then bind_ok (arr_set (d_cb_list d) i x) (\<lambda>l. bind_ok (arr_set (d_cb_state_list d) i D_CB_CONNECTED) (\<lambda>sl.
            bind_ok (get_rcb x d) (\<lambda>cb. Inr (set_rcb x (cb\<lparr>d_cb_index := int i\<rparr>) (d\<lparr>d_cb_list := l, d_cb_state_list := sl\<rparr>)))))
       else add_client is x d)"

definition add_mig :: "int \<Rightarrow> ptr \<Rightarrow> daemon \<Rightarrow> daemon outcome" where
  "add_mig mig x d =
     bind_ok (iarr_get (mig_cb_state_list d) mig) (\<lambda>st.
       if st = D_CB_IDLE
       then bind_ok (iarr_set (mig_cb_list d) mig x) (\<lambda>l. bind_ok (iarr_set (mig_cb_state_list d) mig D_CB_CONNECTED) (\<lambda>sl.
            bind_ok (get_rcb x d) (\<lambda>cb. Inr (set_rcb x (cb\<lparr>d_cb_index := mig\<rparr>) (d\<lparr>mig_cb_list := l, mig_cb_state_list := sl\<rparr>)))))
       else Inr d)"

definition free_rcb :: "ptr \<Rightarrow> daemon \<Rightarrow> daemon" where
  "free_rcb x d = d\<lparr>rping_cbs := (rping_cbs d)(x := None)\<rparr>"

text \<open>
  After a failure of \<open>rping_create_qp\<close> the clean-up deregisters buffers that were never set.
\<close>

definition setup_connection :: "accept_env \<Rightarrow> int \<Rightarrow> daemon \<Rightarrow> daemon outcome" where
  "setup_connection ae mig d =
     (let x = fst (ae_cb ae)
      in if x = NULL then Inr d
         else if ae_server_qp ae \<noteq> 0 then Inr (free_rcb x d)
         else if ae_qp ae \<noteq> 0 then Inl Null_Deref
         else
           let cb = snd (ae_cb ae);
               cb = cb\<lparr>d_server := True, d_rb_idx_map := replicate MAX_FREE_MEM_GB (- 1), d_evict_sem := 0,
                      d_migrbh := (d_migrbh cb)\<lparr>migration_sem := 0\<rparr>\<rparr>;
               d = set_rcb x cb d
           in bind_ok (if mig \<noteq> - 1 then add_mig mig x d else add_client [0..<MAX_CLIENT] x d) (\<lambda>d.
              case ae_bufs ae of None \<Rightarrow> Inr (free_rcb x d)
              | Some (r, m) \<Rightarrow>
                  bind_ok (get_rcb x d) (\<lambda>cb.
                    let d = set_rcb x (cb\<lparr>d_recv_buf := Some r, d_send_buf := Some m\<rparr>) d
                    in Inr (if ae_accept ae \<noteq> 0 then free_rcb x d else d))))"

datatype daemon_cm_event = D_EV_ADDR_RESOLVED int | D_EV_ROUTE_RESOLVED | D_EV_CONNECT_REQUEST accept_env int
  | D_EV_ESTABLISHED bool | D_EV_FAILED | D_EV_REJECTED | D_EV_DISCONNECTED | D_EV_DEVICE_REMOVAL | D_EV_OTHER

text \<open>
  \<open>D_EV_FAILED\<close> stands for the four error events with the same handling. A result other than 0 ends the daemon.
\<close>

definition post_sem :: "ptr \<Rightarrow> daemon \<Rightarrow> daemon outcome" where
  "post_sem x d = bind_ok (get_rcb x d) (\<lambda>cb. Inr (set_rcb x (cb\<lparr>d_sem := d_sem cb + 1\<rparr>) d))"

definition set_state :: "ptr \<Rightarrow> daemon_state \<Rightarrow> daemon \<Rightarrow> daemon outcome" where
  "set_state x st d = bind_ok (get_rcb x d) (\<lambda>cb. Inr (set_rcb x (cb\<lparr>d_state := st\<rparr>) d))"

definition rping_cma_event_handler :: "daemon_cm_event \<Rightarrow> ptr \<Rightarrow> daemon \<Rightarrow> (int \<times> daemon) outcome" where
  "rping_cma_event_handler ev x d =
     (case ev of
        D_EV_ADDR_RESOLVED ret \<Rightarrow> bind_ok (set_state x D_ADDR_RESOLVED d) (\<lambda>d.
          if ret \<noteq> 0 then bind_ok (set_state x D_ERROR d) (\<lambda>d. bind_ok (post_sem x d) (\<lambda>d. Inr (ret, d))) else Inr (0, d))
      | D_EV_ROUTE_RESOLVED \<Rightarrow> bind_ok (set_state x D_ROUTE_RESOLVED d) (\<lambda>d. bind_ok (post_sem x d) (\<lambda>d. Inr (0, d)))
      | D_EV_CONNECT_REQUEST ae mig \<Rightarrow> bind_ok (set_state x D_CONNECT_REQUEST d) (\<lambda>d.
          bind_ok (setup_connection ae mig d) (\<lambda>d. Inr (0, d)))
      | D_EV_ESTABLISHED sent \<Rightarrow> bind_ok (set_state x D_CONNECTED d) (\<lambda>d. bind_ok (get_rcb x d) (\<lambda>cb.
          bind_ok (if d_server cb then reply_query sent x d else Inr d) (\<lambda>d. bind_ok (post_sem x d) (\<lambda>d. Inr (0, d)))))
      | D_EV_FAILED \<Rightarrow> bind_ok (post_sem x d) (\<lambda>d. Inr (0, d))
      | D_EV_REJECTED \<Rightarrow> bind_ok (post_sem x d) (\<lambda>d. Inr (- 1, d))
      | D_EV_DISCONNECTED \<Rightarrow> bind_ok (post_sem x d) (\<lambda>d. Inr (0, d))
      | D_EV_DEVICE_REMOVAL \<Rightarrow> Inr (- 1, d)
      | D_EV_OTHER \<Rightarrow> Inr (0, d))"

end
