(* ===== verification/Daemon_Regions.thy ===== *)
theory Daemon_Regions
  imports Daemon Block_Map
begin

text \<open>
  The regions of the daemon: an abstract view of them, as a map from the slots in use to the client that
  holds them, the invariant that ties the daemon's arrays, its heap and its counters to this view, and what each operation on a
  region does to it.
\<close>

subsection \<open>The abstract view and the invariant\<close>

text \<open>A slot is empty, allocated and free (\<open>Some None\<close>), or lent to a client.\<close>

definition slots :: "daemon \<Rightarrow> nat \<Rightarrow> int option option" where
  "slots d i = (if i < MAX_FREE_MEM_GB \<and> malloc_map (mrh d) ! i = RB_MALLOCED
     then Some (if rb_owner (mrh d) ! i = - 1 then None else Some (rb_owner (mrh d) ! i)) else None)"

definition lent :: "daemon \<Rightarrow> nat set" where
  "lent d = {i. \<exists>c. slots d i = Some (Some c)}"

definition arrays_ok :: "rdma_mr_handler \<Rightarrow> bool" where
  "arrays_ok h \<longleftrightarrow> length (region_list h) = MAX_FREE_MEM_GB \<and> length (mr_list h) = MAX_FREE_MEM_GB \<and>
     length (rb_owner h) = MAX_FREE_MEM_GB \<and> length (client_rb_idx h) = MAX_FREE_MEM_GB \<and>
     length (malloc_map h) = MAX_FREE_MEM_GB \<and> length (d_replica_index h) = MAX_FREE_MEM_GB \<and>
     (\<forall>i<MAX_FREE_MEM_GB. malloc_map h ! i = RB_MALLOCED \<or> malloc_map h ! i = RB_EMPTY) \<and>
     (\<forall>i<MAX_FREE_MEM_GB. rb_owner h ! i \<noteq> - 1 \<longrightarrow> malloc_map h ! i = RB_MALLOCED)"

definition heap_ok :: "daemon \<Rightarrow> bool" where
  "heap_ok d \<longleftrightarrow> arrays_ok (mrh d) \<and>
     (\<forall>i\<in>dom (slots d). regions d (region_list (mrh d) ! i) \<noteq> None) \<and> inj_on (\<lambda>i. region_list (mrh d) ! i) (dom (slots d)) \<and>
     (\<forall>i\<in>lent d. \<exists>mr. ibv_mrs d (mr_list (mrh d) ! i) = Some mr \<and> mr_addr mr = of_nat (region_list (mrh d) ! i) \<and> mr_rkey mr \<noteq> 0) \<and>
     inj_on (\<lambda>i. mr_list (mrh d) ! i) (lent d)"

definition counts_ok :: "daemon \<Rightarrow> bool" where
  "counts_ok d \<longleftrightarrow> d_size_gb (mrh d) = int (card (dom (slots d))) \<and> mapped_size (mrh d) = int (card (lent d))"

lemma slots_bound: "slots d i \<noteq> None \<Longrightarrow> i < MAX_FREE_MEM_GB"
  by (simp add: slots_def split: if_splits)

lemma finite_slots [simp]: "finite (dom (slots d))" "finite (lent d)"
proof -
  have "dom (slots d) \<subseteq> {..<MAX_FREE_MEM_GB}" "lent d \<subseteq> {..<MAX_FREE_MEM_GB}"
    using slots_bound by (force simp: lent_def)+
  then show "finite (dom (slots d))" "finite (lent d)" using finite_subset by blast+
qed

lemma card_slots: "card (dom (slots d)) \<le> MAX_FREE_MEM_GB"
proof -
  have "dom (slots d) \<subseteq> {..<MAX_FREE_MEM_GB}" using slots_bound by force
  then show ?thesis using card_mono [of "{..<MAX_FREE_MEM_GB}"] by fastforce
qed

lemma lent_slots: "lent d \<subseteq> dom (slots d)"
  by (auto simp: lent_def)

lemma slot_owner:
  assumes "heap_ok d" and "i < MAX_FREE_MEM_GB"
  shows "slots d i = Some (Some c) \<longleftrightarrow> rb_owner (mrh d) ! i = c \<and> c \<noteq> - 1"
    "slots d i = Some None \<longleftrightarrow> malloc_map (mrh d) ! i = RB_MALLOCED \<and> rb_owner (mrh d) ! i = - 1"
    "slots d i = None \<longleftrightarrow> malloc_map (mrh d) ! i = RB_EMPTY"
  using assms by (auto simp: heap_ok_def arrays_ok_def slots_def)

text \<open>The view depends on two arrays only; the invariant of the heap on the arrays and the two maps.\<close>

lemma slots_cong: "malloc_map (mrh d') = malloc_map (mrh d) \<Longrightarrow> rb_owner (mrh d') = rb_owner (mrh d) \<Longrightarrow> slots d' = slots d"
  by (simp add: fun_eq_iff slots_def)

lemma heap_cong:
  assumes "mrh d' = (mrh d)\<lparr>d_size_gb := n, mapped_size := k\<rparr>" and "regions d' = regions d" and "ibv_mrs d' = ibv_mrs d"
  shows "heap_ok d' = heap_ok d" "slots d' = slots d" "lent d' = lent d"
proof -
  show s: "slots d' = slots d" by (rule slots_cong) (simp_all add: assms(1))
  then show l: "lent d' = lent d" by (simp add: lent_def)
  show "heap_ok d' = heap_ok d" unfolding heap_ok_def s l assms by (simp add: arrays_ok_def)
qed

lemma view_cong:
  assumes "mrh d' = mrh d" and "regions d' = regions d" and "ibv_mrs d' = ibv_mrs d"
  shows "slots d' = slots d" "lent d' = lent d" "heap_ok d' = heap_ok d" "counts_ok d' = counts_ok d"
proof -
  show s: "slots d' = slots d" by (rule slots_cong) (simp_all add: assms(1))
  then show l: "lent d' = lent d" by (simp add: lent_def)
  show "heap_ok d' = heap_ok d" "counts_ok d' = counts_ok d" unfolding heap_ok_def counts_ok_def s l assms by simp_all
qed

lemma frame_rcb [simp]:
  "mrh (set_rcb x cb d) = mrh d" "regions (set_rcb x cb d) = regions d" "ibv_mrs (set_rcb x cb d) = ibv_mrs d"
  "d_cb_list (set_rcb x cb d) = d_cb_list d" "d_cb_state_list (set_rcb x cb d) = d_cb_state_list d" "my_index (set_rcb x cb d) = my_index d"
  "d_posted (set_rcb x cb d) = d_posted d" "rping_cbs (set_rcb x cb d) = (rping_cbs d)(x \<mapsto> cb)"
  "slots (set_rcb x cb d) = slots d" "lent (set_rcb x cb d) = lent d" "heap_ok (set_rcb x cb d) = heap_ok d"
  "counts_ok (set_rcb x cb d) = counts_ok d"
  by (simp_all add: set_rcb_def view_cong [of "d\<lparr>rping_cbs := (rping_cbs d)(x \<mapsto> cb)\<rparr>" d])

subsection \<open>A new region\<close>

lemma inj_on_new:
  assumes "inj_on f A" and "i \<notin> A" and "\<And>j. j \<in> A \<Longrightarrow> f j \<noteq> v"
  shows "inj_on (\<lambda>j. if j = i then v else f j) (insert i A)"
  using assms unfolding inj_on_def by (metis insert_iff)

lemma new_region_ok:
  assumes "heap_ok d" and "i < MAX_FREE_MEM_GB" and "slots d i = None" and "grant i \<noteq> NULL" and "regions d (grant i) = None"
  shows "\<exists>d'. new_region grant i d = Inr d' \<and> heap_ok d' \<and> slots d' = (slots d)(i \<mapsto> None) \<and> lent d' = lent d \<and>
    d' = d\<lparr>regions := (regions d)(grant i \<mapsto> (0, 0)), mrh := (mrh d)\<lparr>region_list := (region_list (mrh d))[i := grant i],
        malloc_map := (malloc_map (mrh d))[i := RB_MALLOCED]\<rparr>\<rparr>"
proof -
  let ?d = "d\<lparr>regions := (regions d)(grant i \<mapsto> (0, 0)), mrh := (mrh d)\<lparr>region_list := (region_list (mrh d))[i := grant i],
        malloc_map := (malloc_map (mrh d))[i := RB_MALLOCED]\<rparr>\<rparr>"
  have a: "arrays_ok (mrh d)" using assms(1) by (simp add: heap_ok_def)
  have o: "rb_owner (mrh d) ! i = - 1" using assms(2,3) a by (auto simp: slots_def arrays_ok_def split: if_splits)
  have s: "slots ?d = (slots d)(i \<mapsto> None)" using assms(2) a o by (auto simp: fun_eq_iff slots_def arrays_ok_def)
  have l: "lent ?d = lent d" using assms(3) unfolding lent_def s by auto
  have ne: "region_list (mrh d) ! j \<noteq> grant i" if "j \<in> dom (slots d)" for j
    using assms(1,5) that unfolding heap_ok_def by metis
  have i: "i \<notin> dom (slots d)" using assms(3) by blast
  have r: "region_list (mrh ?d) ! j = (if j = i then grant i else region_list (mrh d) ! j)" for j
    using assms(2) a by (simp add: arrays_ok_def)
  have "\<forall>j\<in>dom (slots ?d). regions ?d (region_list (mrh ?d) ! j) \<noteq> None"
    unfolding r s using assms(1) by (auto simp: heap_ok_def)
  moreover have "inj_on (\<lambda>j. region_list (mrh ?d) ! j) (dom (slots ?d))"
    unfolding r s dom_fun_upd using inj_on_new [OF _ i, of "\<lambda>j. region_list (mrh d) ! j" "grant i"] assms(1) ne by (simp add: heap_ok_def)
  moreover have "\<forall>j\<in>lent d. \<exists>mr. ibv_mrs d (mr_list (mrh d) ! j) = Some mr \<and> mr_addr mr = of_nat (region_list (mrh ?d) ! j) \<and> mr_rkey mr \<noteq> 0"
    unfolding r using assms(1) i lent_slots by (auto simp: heap_ok_def)
  moreover have "arrays_ok (mrh ?d)" using a assms(2) by (auto simp: arrays_ok_def nth_list_update)
  ultimately have "heap_ok ?d" using assms(1) unfolding heap_ok_def l by simp
  then show ?thesis using s l a assms(2,4) by (intro exI [of _ ?d]) (simp add: new_region_def arrays_ok_def)
qed

subsection \<open>Connections\<close>

definition msg_ok :: "message \<Rightarrow> bool" where
  "msg_ok m \<longleftrightarrow> length (m_rkey m) = MAX_MR_SIZE_GB \<and> length (m_buf m) = MAX_MR_SIZE_GB"

text \<open>The list of the clients with their states.\<close>

definition clients :: "daemon \<Rightarrow> ptr list \<times> daemon_cb_state list" where
  "clients d = (d_cb_list d, d_cb_state_list d)"

lemma clients_frame [simp]: "clients (set_rcb x cb d) = clients d" "clients (d\<lparr>mrh := h\<rparr>) = clients d"
  by (simp_all add: clients_def)

text \<open>\<open>y\<close> is the connection of client \<open>c\<close>.\<close>

definition conn :: "daemon \<Rightarrow> ptr \<Rightarrow> nat \<Rightarrow> rping_cb \<Rightarrow> bool" where
  "conn d y c cb \<longleftrightarrow> rping_cbs d y = Some cb \<and> d_cb_index cb = int c \<and> c < MAX_CLIENT \<and> length (d_cb_list d) = MAX_CLIENT \<and>
     d_cb_list d ! c = y \<and> length (d_cb_state_list d) = MAX_CLIENT \<and> length (d_rb_idx_map cb) = MAX_MR_SIZE_GB \<and>
     (\<exists>m. d_send_buf cb = Some m \<and> msg_ok m)"

definition owners_ok :: "daemon \<Rightarrow> bool" where
  "owners_ok d \<longleftrightarrow> (\<forall>i c. slots d i = Some (Some c) \<longrightarrow>
     (\<exists>y cb. 0 \<le> c \<and> conn d y (nat c) cb \<and> d_rb_idx_map cb ! i = int i))"

definition daemon_ok :: "daemon \<Rightarrow> bool" where
  "daemon_ok d \<longleftrightarrow> heap_ok d \<and> counts_ok d \<and> owners_ok d"

lemma owners_keep:
  assumes "owners_ok d" and "conn d x c cb" and "d_cb_list d' = d_cb_list d" and "length (d_cb_state_list d') = MAX_CLIENT"
    and "rping_cbs d' = (rping_cbs d)(x \<mapsto> cb')" and "d_cb_index cb' = d_cb_index cb" and "length (d_rb_idx_map cb') = MAX_MR_SIZE_GB"
    and "\<exists>m. d_send_buf cb' = Some m \<and> msg_ok m"
    and "\<And>i k. slots d' i = Some (Some k) \<Longrightarrow> (slots d i = Some (Some k) \<and> d_rb_idx_map cb' ! i = d_rb_idx_map cb ! i) \<or> (k = int c \<and> d_rb_idx_map cb' ! i = int i)"
  shows "owners_ok d'" "conn d' x c cb'"
proof -
  show cx: "conn d' x c cb'" using assms(2-8) by (auto simp: conn_def)
  have other: "conn d' y k cb2" if "conn d y k cb2" "y \<noteq> x" for y k cb2 using that assms(3-5) by (simp add: conn_def)
  show "owners_ok d'" unfolding owners_ok_def
  proof (intro allI impI)
    fix i k assume k: "slots d' i = Some (Some k)"
    from assms(9) [OF k] show "\<exists>y cb. 0 \<le> k \<and> conn d' y (nat k) cb \<and> d_rb_idx_map cb ! i = int i"
    proof
      assume a: "slots d i = Some (Some k) \<and> d_rb_idx_map cb' ! i = d_rb_idx_map cb ! i"
      then obtain y cb2 where y: "0 \<le> k" "conn d y (nat k) cb2" "d_rb_idx_map cb2 ! i = int i" using assms(1) unfolding owners_ok_def by blast
      show ?thesis
      proof (cases "y = x")
        case True
        then have "cb2 = cb" "int (nat k) = int c" using y(2) assms(2) by (auto simp: conn_def simp del: int_nat_eq)
        then show ?thesis using cx y a by (auto simp del: int_nat_eq)
      qed (use other y in blast)
    next
      assume "k = int c \<and> d_rb_idx_map cb' ! i = int i"
      then show ?thesis using cx by auto
    qed
  qed
qed

subsection \<open>Lending a region\<close>

lemma card_dom_upd:
  assumes "finite (dom f)"
  shows "f i = None \<Longrightarrow> card (dom (f(i \<mapsto> v))) = Suc (card (dom f))" "f i \<noteq> None \<Longrightarrow> card (dom (f(i := None))) = card (dom f) - 1"
  using assms by (auto simp: insert_absorb domIff card_Diff_singleton)

lemma find_free_ok:
  assumes "heap_ok d" and "slots d i = Some None" and "\<forall>j<i. slots d j \<noteq> Some None"
  shows "find_free_block [0..<MAX_FREE_MEM_GB] (mrh d) = Inr i"
proof -
  have i: "i < MAX_FREE_MEM_GB" using slots_bound [of d i] assms(2) by simp
  have a: "length (malloc_map (mrh d)) = MAX_FREE_MEM_GB" "length (rb_owner (mrh d)) = MAX_FREE_MEM_GB" using assms(1) by (simp_all add: heap_ok_def arrays_ok_def)
  have "find_free_block (js @ i # ks) (mrh d) = Inr i" if "\<forall>j\<in>set js. j < i" for js ks
    using that
  proof (induction js)
    case Nil
    then show ?case using i a slot_owner(2) [OF assms(1) i] assms(2) by simp
  next
    case (Cons j js)
    then have "j < i" "j < MAX_FREE_MEM_GB" using i by auto
    then show ?case using Cons a slot_owner(2) [OF assms(1), of j] assms(3) by auto
  qed
  from this [of "[0..<i]" "[Suc i..<MAX_FREE_MEM_GB]"] show ?thesis using i upt_add_eq_append [of 0 i "MAX_FREE_MEM_GB - i"] by (simp add: upt_conv_Cons)
qed

lemma find_free_none:
  assumes "heap_ok d" and "\<forall>j. slots d j \<noteq> Some None"
  shows "find_free_block [0..<MAX_FREE_MEM_GB] (mrh d) = Inr MAX_FREE_MEM_GB"
proof -
  have a: "length (malloc_map (mrh d)) = MAX_FREE_MEM_GB" "length (rb_owner (mrh d)) = MAX_FREE_MEM_GB" using assms(1) by (simp_all add: heap_ok_def arrays_ok_def)
  have "find_free_block js (mrh d) = Inr MAX_FREE_MEM_GB" if "\<forall>j\<in>set js. j < MAX_FREE_MEM_GB" for js
    using that a slot_owner(2) [OF assms(1)] assms(2) by (induction js) auto
  then show ?thesis by simp
qed

text \<open>The session after slot \<open>i\<close> has been lent to client \<open>c\<close>, before the counter is raised.\<close>

definition lent_to :: "ptr \<times> u32 \<Rightarrow> nat \<Rightarrow> message \<Rightarrow> int \<Rightarrow> daemon \<Rightarrow> daemon" where
  "lent_to reg i rm c d = d\<lparr>ibv_mrs := (ibv_mrs d)(fst reg \<mapsto> \<lparr>mr_addr = of_nat (region_list (mrh d) ! i), mr_rkey = snd reg\<rparr>),
     mrh := (mrh d)\<lparr>d_replica_index := (d_replica_index (mrh d))[i := m_replica_index rm], rb_owner := (rb_owner (mrh d))[i := c],
       client_rb_idx := (client_rb_idx (mrh d))[i := m_size_gb rm], mr_list := (mr_list (mrh d))[i := fst reg]\<rparr>\<rparr>"

lemma lent_to_view:
  assumes "heap_ok d" and "slots d i = Some None" and "c \<noteq> - 1" and "ibv_mrs d (fst reg) = None" and "snd reg \<noteq> 0"
  shows "heap_ok (lent_to reg i rm c d)" "slots (lent_to reg i rm c d) = (slots d)(i \<mapsto> Some c)" "lent (lent_to reg i rm c d) = insert i (lent d)"
proof -
  let ?d = "lent_to reg i rm c d"
  have i: "i < MAX_FREE_MEM_GB" using slots_bound [of d i] assms(2) by simp
  have a: "arrays_ok (mrh d)" using assms(1) by (simp add: heap_ok_def)
  have m: "malloc_map (mrh d) ! i = RB_MALLOCED" using slot_owner(2) [OF assms(1) i] assms(2) by simp
  show s: "slots ?d = (slots d)(i \<mapsto> Some c)" using i a m assms(3) by (auto simp: fun_eq_iff slots_def lent_to_def arrays_ok_def nth_list_update)
  show l: "lent ?d = insert i (lent d)" unfolding lent_def s by auto
  have dom: "dom (slots ?d) = dom (slots d)" unfolding s using assms(2) by auto
  have il: "i \<notin> lent d" using assms(2) by (simp add: lent_def)
  have ne: "mr_list (mrh d) ! j \<noteq> fst reg" if "j \<in> lent d" for j using assms(1,4) that unfolding heap_ok_def by force
  have mr: "mr_list (mrh ?d) ! j = (if j = i then fst reg else mr_list (mrh d) ! j)" for j using i a by (simp add: lent_to_def arrays_ok_def)
  have "inj_on (\<lambda>j. mr_list (mrh ?d) ! j) (lent ?d)"
    unfolding mr l using inj_on_new [OF _ il, of "\<lambda>j. mr_list (mrh d) ! j" "fst reg"] assms(1) ne by (simp add: heap_ok_def)
  moreover have "\<exists>m. ibv_mrs ?d (mr_list (mrh ?d) ! j) = Some m \<and> mr_addr m = of_nat (region_list (mrh ?d) ! j) \<and> mr_rkey m \<noteq> 0" if "j \<in> lent ?d" for j
    unfolding mr using that il ne assms(1,5) unfolding l by (cases "j = i") (auto simp: lent_to_def heap_ok_def)
  moreover have "arrays_ok (mrh ?d)" using a m i by (auto simp: arrays_ok_def lent_to_def nth_list_update)
  moreover have "region_list (mrh ?d) = region_list (mrh d)" "regions ?d = regions d" by (simp_all add: lent_to_def)
  ultimately show "heap_ok ?d" using assms(1) unfolding heap_ok_def dom by simp
qed

lemma clear_keys: "length (m_rkey m) = MAX_MR_SIZE_GB \<Longrightarrow> foldM (\<lambda>i ks. arr_set ks i 0) [0..<MAX_FREE_MEM_GB] (m_rkey m) = Inr (replicate MAX_FREE_MEM_GB 0)"
proof -
  assume l: "length (m_rkey m) = MAX_MR_SIZE_GB"
  have "foldM (\<lambda>i ks. arr_set ks i 0) [0..<MAX_FREE_MEM_GB] (replicate 0 0 @ drop 0 (m_rkey m)) = Inr (replicate MAX_FREE_MEM_GB 0 @ drop MAX_FREE_MEM_GB (m_rkey m))"
  proof (rule foldM_upt [where b = "\<lambda>j. replicate j 0 @ drop j (m_rkey m)"])
    fix j assume "j < MAX_FREE_MEM_GB"
    then have "drop j (m_rkey m) = m_rkey m ! j # drop (Suc j) (m_rkey m)" using l by (simp add: Cons_nth_drop_Suc)
    then show "arr_set (replicate j 0 @ drop j (m_rkey m)) j 0 = Inr (replicate (Suc j) 0 @ drop (Suc j) (m_rkey m))"
      using l by (simp add: list_update_append replicate_append_same)
  qed
  then show ?thesis using l by simp
qed

text \<open>The answer that names slot \<open>i\<close>.\<close>

definition lent_reply :: "bool \<Rightarrow> int \<Rightarrow> ptr \<times> u32 \<Rightarrow> ptr \<Rightarrow> nat \<Rightarrow> message \<Rightarrow> message \<Rightarrow> message" where
  "lent_reply mig me reg p i rm m =
     (let m = m\<lparr>m_buf := (m_buf m)[i := htonll (of_nat p)], m_rkey := (replicate MAX_FREE_MEM_GB 0)[i := htonl (snd reg)],
              m_size_gb := m_size_gb rm, m_replica_index := m_replica_index rm\<rparr>
      in if mig then m\<lparr>m_type := RESP_MIG_MAP, m_cb_index := me, m_rb_index := int i\<rparr> else m\<lparr>m_type := RESP_MR_MAP\<rparr>)"

lemma prepare_run:
  assumes "heap_ok d" and "conn d x c cb" and "d_recv_buf cb = Some rm" and "d_send_buf cb = Some m" and "slots d i = Some None"
    and "\<forall>j<i. slots d j \<noteq> Some None" and "fst reg \<noteq> NULL"
  shows "prepare_single_mr reg x mig d = Inr (int i,
    set_rcb x (cb\<lparr>d_rb_idx_map := (d_rb_idx_map cb)[i := int i],
        d_send_buf := Some (lent_reply mig (my_index d) reg (region_list (mrh d) ! i) i rm m)\<rparr>)
     ((lent_to reg i rm (int c) d)\<lparr>mrh := (mrh (lent_to reg i rm (int c) d))\<lparr>mapped_size := mapped_size (mrh d) + 1\<rparr>\<rparr>))"
proof -
  have i: "i < MAX_FREE_MEM_GB" using slots_bound [of d i] assms(5) by simp
  have a: "arrays_ok (mrh d)" using assms(1) by (simp add: heap_ok_def)
  have l: "length (m_rkey m) = MAX_MR_SIZE_GB" "length (m_buf m) = MAX_MR_SIZE_GB" "rping_cbs d x = Some cb" "d_cb_index cb = int c"
    "length (d_rb_idx_map cb) = MAX_MR_SIZE_GB" using assms(2,4) by (auto simp: conn_def msg_ok_def)
  have lend: "lend_block reg i rm cb (m\<lparr>m_rkey := replicate MAX_FREE_MEM_GB 0\<rparr>) d =
      Inr (cb\<lparr>d_rb_idx_map := (d_rb_idx_map cb)[i := int i]\<rparr>,
        m\<lparr>m_buf := (m_buf m)[i := htonll (of_nat (region_list (mrh d) ! i))], m_rkey := (replicate MAX_FREE_MEM_GB 0)[i := htonl (snd reg)]\<rparr>, lent_to reg i rm (int c) d)"
    using i a l assms(7) by (simp add: lend_block_def arrays_ok_def lent_to_def)
  show ?thesis
    using assms(3,4) l find_free_ok [OF assms(1,5,6)] clear_keys [OF l(1)] lend i
    by (simp add: prepare_single_mr_def get_rcb_def buf_get_def Let_def lent_reply_def) (simp add: lent_to_def)
qed

end
