(* ===== verification/Daemon_Messages.thy ===== *)
theory Daemon_Messages
  imports Daemon_Regions
begin

text \<open>
  What the daemon does with the messages of a client: it answers a query, lends a region, takes one back. Each keeps the
  invariant of the daemon and has its effect on the abstract view of the regions.
\<close>

subsection \<open>Lending\<close>

lemma prepare_ok:
  assumes "daemon_ok d" and "conn d x c cb" and "d_recv_buf cb = Some rm" and "d_send_buf cb = Some m" and "slots d i = Some None"
    and "\<forall>j<i. slots d j \<noteq> Some None" and "fst reg \<noteq> NULL" and "ibv_mrs d (fst reg) = None" and "snd reg \<noteq> 0"
  shows "\<exists>d' cb'. prepare_single_mr reg x mig d = Inr (int i, d') \<and> daemon_ok d' \<and> slots d' = (slots d)(i \<mapsto> Some (int c)) \<and>
    conn d' x c cb' \<and> d_send_buf cb' = Some (lent_reply mig (my_index d) reg (region_list (mrh d) ! i) i rm m) \<and>
    clients d' = clients d \<and> d_posted d' = d_posted d \<and> region_list (mrh d') = region_list (mrh d)"
proof -
  have h: "heap_ok d" "counts_ok d" "owners_ok d" using assms(1) by (simp_all add: daemon_ok_def)
  let ?l = "lent_to reg i rm (int c) d"
  let ?cb = "cb\<lparr>d_rb_idx_map := (d_rb_idx_map cb)[i := int i], d_send_buf := Some (lent_reply mig (my_index d) reg (region_list (mrh d) ! i) i rm m)\<rparr>"
  let ?u = "?l\<lparr>mrh := (mrh ?l)\<lparr>mapped_size := mapped_size (mrh d) + 1\<rparr>\<rparr>"
  let ?d = "set_rcb x ?cb ?u"
  have c1: "int c \<noteq> - 1" by simp
  note v = lent_to_view [OF h(1) assms(5) c1 assms(8,9), of rm]
  have hu: "heap_ok ?u = heap_ok ?l" "slots ?u = slots ?l" "lent ?u = lent ?l"
    using heap_cong [where d' = ?u and d = ?l and n = "d_size_gb (mrh ?l)" and k = "mapped_size (mrh d) + 1"] by simp_all
  have i: "i < MAX_FREE_MEM_GB" using slots_bound [of d i] assms(5) by simp
  have s: "slots ?d = (slots d)(i \<mapsto> Some (int c))" using hu v by simp
  have "card (dom (slots ?d)) = card (dom (slots d))" unfolding s using assms(5) by (simp add: insert_absorb domIff)
  moreover have "i \<notin> lent d" using assms(5) by (simp add: lent_def)
  then have "card (lent ?d) = Suc (card (lent d))" using hu v by simp
  ultimately have ct: "counts_ok ?d" using h(2) by (simp add: counts_ok_def) (simp add: lent_to_def)
  have ok: "\<exists>m'. d_send_buf ?cb = Some m' \<and> msg_ok m'" using assms(2,4) by (auto simp: lent_reply_def Let_def msg_ok_def conn_def)
  have ow: "(slots d j = Some (Some k) \<and> d_rb_idx_map ?cb ! j = d_rb_idx_map cb ! j) \<or> (k = int c \<and> d_rb_idx_map ?cb ! j = int j)"
    if "slots ?d j = Some (Some k)" for j k
    using that i assms(2) unfolding s by (cases "j = i") (auto simp: conn_def)
  have fr: "d_cb_list ?d = d_cb_list d" "length (d_cb_state_list ?d) = MAX_CLIENT" "rping_cbs ?d = (rping_cbs d)(x \<mapsto> ?cb)"
    "length (d_rb_idx_map ?cb) = MAX_MR_SIZE_GB" using assms(2) by (auto simp: lent_to_def conn_def)
  have cn: "owners_ok ?d" "conn ?d x c ?cb"
    using owners_keep [OF h(3) assms(2) fr(1,2,3) _ fr(4) ok ow] by simp_all
  have "daemon_ok ?d" using hu v ct cn(1) by (simp add: daemon_ok_def)
  then show ?thesis using prepare_run [OF h(1) assms(2-7), of mig] s cn(2)
    by (intro exI [of _ ?d] exI [of _ ?cb]) (simp add: lent_to_def clients_def)
qed

lemma posted_view [simp]: "slots (d\<lparr>d_posted := p\<rparr>) = slots d" "lent (d\<lparr>d_posted := p\<rparr>) = lent d" "heap_ok (d\<lparr>d_posted := p\<rparr>) = heap_ok d"
  "counts_ok (d\<lparr>d_posted := p\<rparr>) = counts_ok d" "conn (d\<lparr>d_posted := p\<rparr>) = conn d" "owners_ok (d\<lparr>d_posted := p\<rparr>) = owners_ok d" "daemon_ok (d\<lparr>d_posted := p\<rparr>) = daemon_ok d"
proof -
  show v: "slots (d\<lparr>d_posted := p\<rparr>) = slots d" "lent (d\<lparr>d_posted := p\<rparr>) = lent d" "heap_ok (d\<lparr>d_posted := p\<rparr>) = heap_ok d"
    "counts_ok (d\<lparr>d_posted := p\<rparr>) = counts_ok d" using view_cong [of "d\<lparr>d_posted := p\<rparr>" d] by simp_all
  show c: "conn (d\<lparr>d_posted := p\<rparr>) = conn d" by (simp add: fun_eq_iff conn_def)
  show "owners_ok (d\<lparr>d_posted := p\<rparr>) = owners_ok d" by (simp add: owners_ok_def v c)
  then show "daemon_ok (d\<lparr>d_posted := p\<rparr>) = daemon_ok d" by (simp add: daemon_ok_def v)
qed

lemma states_view:
  assumes "length l = MAX_CLIENT" and "length (d_cb_state_list d) = MAX_CLIENT"
  shows "slots (d\<lparr>d_cb_state_list := l\<rparr>) = slots d" "conn (d\<lparr>d_cb_state_list := l\<rparr>) = conn d" "daemon_ok (d\<lparr>d_cb_state_list := l\<rparr>) = daemon_ok d"
proof -
  note v = view_cong [of "d\<lparr>d_cb_state_list := l\<rparr>" d, simplified]
  show s: "slots (d\<lparr>d_cb_state_list := l\<rparr>) = slots d" by (rule v)
  show c: "conn (d\<lparr>d_cb_state_list := l\<rparr>) = conn d" using assms by (simp add: fun_eq_iff conn_def)
  show "daemon_ok (d\<lparr>d_cb_state_list := l\<rparr>) = daemon_ok d" by (simp add: daemon_ok_def owners_ok_def v c)
qed

text \<open>What is in the receive buffer does not matter to the invariant.\<close>

lemma recv_conn:
  assumes "conn d x c cb" and "daemon_ok d"
  shows "conn (set_rcb x (cb\<lparr>d_recv_buf := Some m\<rparr>) d) x c (cb\<lparr>d_recv_buf := Some m\<rparr>)" "daemon_ok (set_rcb x (cb\<lparr>d_recv_buf := Some m\<rparr>) d)"
proof -
  let ?cb = "cb\<lparr>d_recv_buf := Some m\<rparr>" and ?d = "set_rcb x (cb\<lparr>d_recv_buf := Some m\<rparr>) d"
  have h: "heap_ok d" "counts_ok d" "owners_ok d" using assms(2) by (simp_all add: daemon_ok_def)
  have "owners_ok ?d \<and> conn ?d x c ?cb"
    using owners_keep [OF h(3) assms(1), of ?d ?cb] assms(1) by (auto simp: conn_def)
  then show "conn ?d x c ?cb" "daemon_ok ?d" using h by (simp_all add: daemon_ok_def)
qed

lemma map_request_ok:
  assumes "daemon_ok d" and "conn d x c cb" and "m_type rm = REQ_MR_MAP" and "slots d i = Some None" and "\<forall>j<i. slots d j \<noteq> Some None"
    and "de_sent env" and "fst (de_reg env) \<noteq> NULL" and "ibv_mrs d (fst (de_reg env)) = None" and "d_send_buf cb = Some m"
    and "snd (de_reg env) \<noteq> 0"
  shows "\<exists>d'. receive env x rm d = Inr d' \<and> daemon_ok d' \<and> slots d' = (slots d)(i \<mapsto> Some (int c)) \<and>
    clients d' = (d_cb_list d, (d_cb_state_list d)[c := D_CB_MAPPED]) \<and>
    d_posted d' = d_posted d @ [D_Send x (lent_reply False (my_index d) (de_reg env) (region_list (mrh d) ! i) i rm m)]"
proof -
  let ?cb = "cb\<lparr>d_recv_buf := Some rm\<rparr>" and ?d = "set_rcb x (cb\<lparr>d_recv_buf := Some rm\<rparr>) d"
  note r = recv_conn [OF assms(2,1), of rm]
  obtain d' cb' where p: "prepare_single_mr (de_reg env) x False ?d = Inr (int i, d')" "daemon_ok d'" "slots d' = (slots d)(i \<mapsto> Some (int c))"
      "conn d' x c cb'" "d_send_buf cb' = Some (lent_reply False (my_index d) (de_reg env) (region_list (mrh d) ! i) i rm m)" "d_posted d' = d_posted d"
      "clients d' = clients d"
    using prepare_ok [OF r(2,1), of rm m i "de_reg env" False] assms(4-10) by auto
  have cx: "rping_cbs d x = Some cb" "rping_cbs d' x = Some cb'" "d_cb_index cb = int c" "c < MAX_CLIENT" "length (d_cb_state_list d') = MAX_CLIENT"
    using assms(2) p(4) by (simp_all add: conn_def)
  let ?e = "d'\<lparr>d_posted := d_posted d' @ [D_Send x (lent_reply False (my_index d) (de_reg env) (region_list (mrh d) ! i) i rm m)]\<rparr>"
  have run: "receive env x rm d = Inr (?e\<lparr>d_cb_state_list := (d_cb_state_list d')[c := D_CB_MAPPED]\<rparr>)"
    using p(1,5) cx assms(3,6) by (simp add: receive_def handle_recv_def get_rcb_def buf_get_def post_send_def)
  have "daemon_ok (?e\<lparr>d_cb_state_list := (d_cb_state_list d')[c := D_CB_MAPPED]\<rparr>) = daemon_ok ?e"
    "slots (?e\<lparr>d_cb_state_list := (d_cb_state_list d')[c := D_CB_MAPPED]\<rparr>) = slots ?e"
    by (rule states_view; use cx(5) in simp)+
  then show ?thesis using run p(2,3,6,7) by (simp add: clients_def)
qed

subsection \<open>Taking back\<close>

definition names_block :: "message \<Rightarrow> nat \<Rightarrow> bool" where
  "names_block m i \<longleftrightarrow> i < MAX_MR_SIZE_GB \<and> length (m_rkey m) = MAX_MR_SIZE_GB \<and> m_rkey m ! i \<noteq> 0 \<and> (\<forall>j<i. m_rkey m ! j = 0)"

lemma find_key_ok:
  assumes "names_block m i"
  shows "find_key [0..<MAX_MR_SIZE_GB] m = Inr (Some i)"
proof -
  have i: "i < MAX_MR_SIZE_GB" "length (m_rkey m) = MAX_MR_SIZE_GB" "m_rkey m ! i \<noteq> 0" using assms by (simp_all add: names_block_def)
  have "find_key (js @ i # ks) m = Inr (Some i)" if "\<forall>j\<in>set js. j < i" for js ks
    using that i assms by (induction js) (auto simp: names_block_def)
  from this [of "[0..<i]" "[Suc i..<MAX_MR_SIZE_GB]"] show ?thesis
    using i(1) upt_add_eq_append [of 0 i "MAX_MR_SIZE_GB - i"] by (simp add: upt_conv_Cons)
qed

text \<open>The session after slot \<open>i\<close> has been taken back and freed.\<close>

definition taken_back :: "nat \<Rightarrow> daemon \<Rightarrow> daemon" where
  "taken_back i d = d\<lparr>ibv_mrs := (ibv_mrs d)(mr_list (mrh d) ! i := None), regions := (regions d)(region_list (mrh d) ! i := None),
     mrh := (mrh d)\<lparr>rb_owner := (rb_owner (mrh d))[i := - 1], malloc_map := (malloc_map (mrh d))[i := RB_EMPTY],
       d_size_gb := d_size_gb (mrh d) - 1, mapped_size := mapped_size (mrh d) - 1\<rparr>\<rparr>"

lemma taken_back_view:
  assumes "heap_ok d" and "counts_ok d" and "slots d i = Some (Some c)"
  shows "heap_ok (taken_back i d)" "counts_ok (taken_back i d)" "slots (taken_back i d) = (slots d)(i := None)" "lent (taken_back i d) = lent d - {i}"
proof -
  let ?d = "taken_back i d"
  have i: "i < MAX_FREE_MEM_GB" using slots_bound [of d i] assms(3) by simp
  have a: "arrays_ok (mrh d)" using assms(1) by (simp add: heap_ok_def)
  show s: "slots ?d = (slots d)(i := None)" using i a by (auto simp: fun_eq_iff slots_def taken_back_def arrays_ok_def nth_list_update)
  show l: "lent ?d = lent d - {i}" unfolding lent_def s by auto
  have il: "i \<in> lent d" "i \<in> dom (slots d)" using assms(3) by (auto simp: lent_def)
  have inj: "inj_on (\<lambda>j. region_list (mrh d) ! j) (dom (slots d))" "inj_on (\<lambda>j. mr_list (mrh d) ! j) (lent d)" using assms(1) by (simp_all add: heap_ok_def)
  have r: "region_list (mrh ?d) = region_list (mrh d)" "mr_list (mrh ?d) = mr_list (mrh d)" by (simp_all add: taken_back_def)
  have "regions ?d (region_list (mrh d) ! j) = regions d (region_list (mrh d) ! j)" if "j \<in> dom (slots d)" "j \<noteq> i" for j
    using inj_onD [OF inj(1) _ that(1) il(2)] that(2) by (auto simp: taken_back_def)
  then have 1: "\<forall>j\<in>dom (slots ?d). regions ?d (region_list (mrh ?d) ! j) \<noteq> None"
    unfolding s r using assms(1) by (auto simp: heap_ok_def split: if_splits)
  have "ibv_mrs ?d (mr_list (mrh d) ! j) = ibv_mrs d (mr_list (mrh d) ! j)" if "j \<in> lent d" "j \<noteq> i" for j
    using inj_onD [OF inj(2) _ that(1) il(1)] that(2) by (auto simp: taken_back_def)
  then have 2: "\<forall>j\<in>lent ?d. \<exists>m. ibv_mrs ?d (mr_list (mrh ?d) ! j) = Some m \<and> mr_addr m = of_nat (region_list (mrh ?d) ! j) \<and> mr_rkey m \<noteq> 0"
    unfolding l r using assms(1) by (auto simp: heap_ok_def)
  have "inj_on (\<lambda>j. region_list (mrh d) ! j) (dom (slots ?d))" "inj_on (\<lambda>j. mr_list (mrh d) ! j) (lent ?d)"
    unfolding s l by (auto intro: inj_on_subset [OF inj(1)] inj_on_subset [OF inj(2)] split: if_splits)
  moreover have "arrays_ok (mrh ?d)" using a i by (auto simp: arrays_ok_def taken_back_def nth_list_update)
  ultimately show "heap_ok ?d" using 1 2 unfolding heap_ok_def r by simp
  have "card (dom (slots ?d)) = card (dom (slots d)) - 1" "0 < card (dom (slots d))" "card (lent ?d) = card (lent d) - 1" "0 < card (lent d)"
    using il unfolding s l by (auto simp: card_Diff_singleton card_gt_0_iff)
  then show "counts_ok ?d" using assms(2) by (auto simp: counts_ok_def) (simp_all add: taken_back_def)
qed

lemma delete_run:
  assumes "heap_ok d" and "conn d x c cb" and "d_recv_buf cb = Some m" and "names_block m i" and "slots d i = Some (Some k)"
    and "d_rb_idx_map cb ! i = int i"
  shows "recv_delete_rb x d = Inr (set_rcb x (cb\<lparr>d_rb_idx_map := (d_rb_idx_map cb)[i := - 1], d_evict_sem := d_evict_sem cb + 1\<rparr>) (taken_back i d))"
proof -
  have i: "i < MAX_FREE_MEM_GB" using slots_bound [of d i] assms(5) by simp
  have a: "arrays_ok (mrh d)" using assms(1) by (simp add: heap_ok_def)
  have "i \<in> lent d" using assms(5) by (simp add: lent_def)
  then obtain mr tv where "ibv_mrs d (mr_list (mrh d) ! i) = Some mr" "regions d (region_list (mrh d) ! i) = Some tv"
    using assms(1) lent_slots unfolding heap_ok_def by blast
  then show ?thesis
    using i a assms(2,3,6) find_key_ok [OF assms(4)]
    by (simp add: recv_delete_rb_def get_rcb_def buf_get_def conn_def arrays_ok_def ibv_dereg_mr_def region_free_def taken_back_def)
qed

lemma delete_ok:
  assumes "daemon_ok d" and "conn d x c cb" and "m_type m = DELETE_RB" and "names_block m i" and "slots d i = Some (Some (int c))"
  shows "\<exists>cb'. receive env x m d = Inr (set_rcb x cb' (taken_back i d)) \<and> daemon_ok (set_rcb x cb' (taken_back i d)) \<and>
    slots (taken_back i d) = (slots d)(i := None) \<and> conn (set_rcb x cb' (taken_back i d)) x c cb' \<and>
    cb' = cb\<lparr>d_recv_buf := Some m, d_rb_idx_map := (d_rb_idx_map cb)[i := - 1], d_evict_sem := d_evict_sem cb + 1\<rparr>"
proof -
  let ?cb = "cb\<lparr>d_recv_buf := Some m\<rparr>" and ?d = "set_rcb x (cb\<lparr>d_recv_buf := Some m\<rparr>) d"
  let ?cb' = "cb\<lparr>d_recv_buf := Some m, d_rb_idx_map := (d_rb_idx_map cb)[i := - 1], d_evict_sem := d_evict_sem cb + 1\<rparr>"
  have h: "heap_ok d" "counts_ok d" "owners_ok d" using assms(1) by (simp_all add: daemon_ok_def)
  note r = recv_conn [OF assms(2,1), of m] and v = taken_back_view [OF h(1,2) assms(5)]
  have cx: "rping_cbs d x = Some cb" using assms(2) by (simp add: conn_def)
  obtain y cb2 where "conn d y (nat (int c)) cb2" "d_rb_idx_map cb2 ! i = int i" using h(3) assms(5) unfolding owners_ok_def by blast
  then have ix: "d_rb_idx_map ?cb ! i = int i" using assms(2) by (auto simp: conn_def)
  have "recv_delete_rb x ?d = Inr (set_rcb x ?cb' (taken_back i ?d))"
    using delete_run [OF _ r(1) _ assms(4) _ ix] h(1) assms(5) by simp
  moreover have tb: "set_rcb x ?cb' (taken_back i ?d) = set_rcb x ?cb' (taken_back i d)"
    by (simp add: taken_back_def set_rcb_def)
  ultimately have run: "receive env x m d = Inr (set_rcb x ?cb' (taken_back i d))"
    using cx assms(3) by (simp add: receive_def handle_recv_def get_rcb_def buf_get_def)
  let ?e = "set_rcb x ?cb' (taken_back i d)"
  have fr: "d_cb_list ?e = d_cb_list d" "length (d_cb_state_list ?e) = MAX_CLIENT" "rping_cbs ?e = (rping_cbs d)(x \<mapsto> ?cb')"
    "length (d_rb_idx_map ?cb') = MAX_MR_SIZE_GB" "\<exists>m. d_send_buf ?cb' = Some m \<and> msg_ok m" using assms(2) by (auto simp: conn_def taken_back_def)
  have ow: "(slots d j = Some (Some k) \<and> d_rb_idx_map ?cb' ! j = d_rb_idx_map cb ! j) \<or> (k = int c \<and> d_rb_idx_map ?cb' ! j = int j)"
    if "slots ?e j = Some (Some k)" for j k using that v(3) by (auto split: if_splits)
  have "owners_ok ?e" "conn ?e x c ?cb'" using owners_keep [OF h(3) assms(2) fr(1-3) _ fr(4,5) ow] by simp_all
  then show ?thesis using run v by (intro exI [of _ ?cb']) (simp add: daemon_ok_def)
qed

subsection \<open>Queries\<close>

text \<open>The age of the blocks in use, in microseconds.\<close>

definition ages :: "daemon \<Rightarrow> nat \<Rightarrow> u64" where
  "ages d n = sum_list (map (\<lambda>i. of_int (micros (the (regions d (region_list (mrh d) ! i))))) (filter (\<lambda>i. i \<in> lent d) [0..<n]))"

lemma region_of:
  assumes "heap_ok d" and "i \<in> dom (slots d)"
  shows "region_get (int i) d = Inr (the (regions d (region_list (mrh d) ! i)))"
proof -
  have "i < MAX_FREE_MEM_GB" using slots_bound [of d i] assms(2) by auto
  moreover obtain tv where "regions d (region_list (mrh d) ! i) = Some tv" using assms unfolding heap_ok_def by blast
  ultimately show ?thesis using assms(1) by (simp add: region_get_def heap_ok_def arrays_ok_def)
qed

lemma region_get_rcb [simp]: "region_get i (set_rcb x cb d) = region_get i d" "mr_get i (set_rcb x cb d) = mr_get i d"
  by (simp_all add: region_get_def mr_get_def)

lemma owner_lent: "heap_ok d \<Longrightarrow> i < MAX_FREE_MEM_GB \<Longrightarrow> rb_owner (mrh d) ! i \<noteq> - 1 \<longleftrightarrow> i \<in> lent d"
  using slot_owner(1) [of d i] by (auto simp: lent_def)

lemma age_sum_ok:
  assumes "heap_ok d"
  shows "foldM (age_sum_step d) [0..<MAX_FREE_MEM_GB] 0 = Inr (ages d MAX_FREE_MEM_GB)"
proof -
  have "foldM (age_sum_step d) [0..<MAX_FREE_MEM_GB] (ages d 0) = Inr (ages d MAX_FREE_MEM_GB)"
  proof (rule foldM_upt [where b = "ages d"])
    fix j assume j: "j < MAX_FREE_MEM_GB"
    have "length (rb_owner (mrh d)) = MAX_FREE_MEM_GB" using assms by (simp add: heap_ok_def arrays_ok_def)
    moreover have "j \<in> lent d \<Longrightarrow> region_get (int j) d = Inr (the (regions d (region_list (mrh d) ! j)))" using region_of [OF assms, of j] lent_slots [of d] by blast
    ultimately show "age_sum_step d j (ages d j) = Inr (ages d (Suc j))"
      using j owner_lent [OF assms j] by (cases "j \<in> lent d") (auto simp: age_sum_step_def ages_def micros_def)
  qed
  then show ?thesis by (simp add: ages_def)
qed

lemma query_reply_ok:
  assumes "daemon_ok d" and "conn d x c cb" and "d_send_buf cb = Some m" and "m_type rm = REQ_QUERY" and "de_sent env"
  shows "\<exists>d'. receive env x rm d = Inr d' \<and> daemon_ok d' \<and> slots d' = slots d \<and> clients d' = clients d \<and>
    d_posted d' = d_posted d @ [D_Send x (query_overlay \<lparr>q_type = RESP_QUERY, q_size_gb = int (card (dom (slots d))) - int (card (lent d)),
      q_sum = ages d MAX_FREE_MEM_GB\<rparr> m)]"
proof -
  let ?cb = "cb\<lparr>d_recv_buf := Some rm\<rparr>" and ?d = "set_rcb x (cb\<lparr>d_recv_buf := Some rm\<rparr>) d"
  let ?q = "\<lparr>q_type = RESP_QUERY, q_size_gb = int (card (dom (slots d))) - int (card (lent d)), q_sum = ages d MAX_FREE_MEM_GB\<rparr>"
  note r = recv_conn [OF assms(2,1), of rm]
  have h: "heap_ok d" "counts_ok d" using assms(1) by (simp_all add: daemon_ok_def)
  have "card (lent d) \<le> card (dom (slots d))" by (rule card_mono) (simp_all add: lent_slots)
  then have f: "d_size_gb (mrh d) - mapped_size (mrh d) = q_size_gb ?q" "\<not> q_size_gb ?q < 0" using h(2) by (simp_all add: counts_ok_def)
  have "age_sum_step ?d = age_sum_step d" by (simp add: fun_eq_iff age_sum_step_def cong: if_cong)
  then have ag: "foldM (age_sum_step ?d) [0..<MAX_FREE_MEM_GB] 0 = Inr (ages d MAX_FREE_MEM_GB)" using age_sum_ok [OF h(1)] by simp
  let ?cb' = "?cb\<lparr>d_qmsg := ?q, d_send_buf := Some (query_overlay ?q m)\<rparr>"
  let ?e = "set_rcb x ?cb' d"
  have cx: "rping_cbs d x = Some cb" using assms(2) by (simp add: conn_def)
  have run: "receive env x rm d = Inr (?e\<lparr>d_posted := d_posted d @ [D_Send x (query_overlay ?q m)]\<rparr>)"
    using cx assms(3-5) ag f
    by (simp add: receive_def handle_recv_def get_rcb_def buf_get_def reply_query_def post_send_def Let_def) (simp add: set_rcb_def)
  have "owners_ok ?e"
    using owners_keep(1) [of d x c cb ?e ?cb'] assms(1-3) by (auto simp: daemon_ok_def conn_def query_overlay_def msg_ok_def)
  then have "daemon_ok ?e" using h by (simp add: daemon_ok_def)
  then show ?thesis using run by (simp add: clients_def)
qed

end
