(* ===== verification/Daemon_Evict.thy ===== *)
theory Daemon_Evict
  imports Daemon_Messages
begin

text \<open>
  Giving memory back to the system (\<open>do_evict\<close> of daemon.c): free regions go first; then the blocks in use are
  called back from their clients, the one written least recently first.
\<close>

subsection \<open>Free regions\<close>

definition freed :: "nat \<Rightarrow> daemon \<Rightarrow> daemon" where
  "freed i d = d\<lparr>regions := (regions d)(region_list (mrh d) ! i := None), mrh := (mrh d)\<lparr>malloc_map := (malloc_map (mrh d))[i := RB_EMPTY]\<rparr>\<rparr>"

lemma freed_view:
  assumes "heap_ok d" and "slots d i = Some None"
  shows "heap_ok (freed i d)" "slots (freed i d) = (slots d)(i := None)" "lent (freed i d) = lent d"
    "\<exists>tv. regions d (region_list (mrh d) ! i) = Some tv"
proof -
  let ?d = "freed i d"
  have i: "i < MAX_FREE_MEM_GB" using slots_bound [of d i] assms(2) by simp
  have a: "arrays_ok (mrh d)" using assms(1) by (simp add: heap_ok_def)
  have o: "rb_owner (mrh d) ! i = - 1" using slot_owner(2) [OF assms(1) i] assms(2) by simp
  show s: "slots ?d = (slots d)(i := None)" using i a by (auto simp: fun_eq_iff slots_def freed_def arrays_ok_def nth_list_update)
  show l: "lent ?d = lent d" using assms(2) unfolding lent_def s by auto
  have inj: "inj_on (\<lambda>j. region_list (mrh d) ! j) (dom (slots d))" using assms(1) by (simp add: heap_ok_def)
  have r: "region_list (mrh ?d) = region_list (mrh d)" "mr_list (mrh ?d) = mr_list (mrh d)" "ibv_mrs ?d = ibv_mrs d" by (simp_all add: freed_def)
  have id: "i \<in> dom (slots d)" using assms(2) by auto
  have "regions ?d (region_list (mrh d) ! j) = regions d (region_list (mrh d) ! j)" if "j \<in> dom (slots d)" "j \<noteq> i" for j
    using inj_onD [OF inj _ that(1) id] that(2) by (auto simp: freed_def)
  then have "\<forall>j\<in>dom (slots ?d). regions ?d (region_list (mrh ?d) ! j) \<noteq> None"
    unfolding s r using assms(1) by (auto simp: heap_ok_def split: if_splits)
  moreover have "inj_on (\<lambda>j. region_list (mrh d) ! j) (dom (slots ?d))" unfolding s by (auto intro: inj_on_subset [OF inj] split: if_splits)
  moreover have "arrays_ok (mrh ?d)" using a i o by (auto simp: arrays_ok_def freed_def nth_list_update)
  ultimately show "heap_ok ?d" using assms(1) unfolding heap_ok_def l r by simp
  show "\<exists>tv. regions d (region_list (mrh d) ! i) = Some tv" using assms(1) id unfolding heap_ok_def by blast
qed

text \<open>\<open>d'\<close> is \<open>d\<close> without the free slots \<open>A\<close> and with \<open>n\<close> less on the counter.\<close>

definition without :: "nat set \<Rightarrow> int \<Rightarrow> daemon \<Rightarrow> daemon \<Rightarrow> bool" where
  "without A n d d' \<longleftrightarrow> heap_ok d' \<and> slots d' = (\<lambda>i. if i \<in> A then None else slots d i) \<and> lent d' = lent d \<and>
     (\<forall>i\<in>lent d. regions d' (region_list (mrh d) ! i) = regions d (region_list (mrh d) ! i)) \<and>
     (\<exists>R M. d' = d\<lparr>regions := R, mrh := (mrh d)\<lparr>malloc_map := M, d_size_gb := d_size_gb (mrh d) - n\<rparr>\<rparr>)"

lemma without_refl: "heap_ok d \<Longrightarrow> without {} 0 d d"
  by (auto simp: without_def intro!: exI [of _ "regions d"] exI [of _ "malloc_map (mrh d)"])

lemma without_step:
  assumes "heap_ok d" and "slots d i = Some None" and "without A n (freed i d) d'"
  shows "without (insert i A) n d d'"
proof -
  note f = freed_view [OF assms(1,2)]
  have "region_list (mrh d) ! j \<noteq> region_list (mrh d) ! i" if "j \<in> lent d" for j
  proof -
    have "j \<in> dom (slots d)" "i \<in> dom (slots d)" "j \<noteq> i" using that assms(2) lent_slots by (auto simp: lent_def)
    then show ?thesis using assms(1) unfolding heap_ok_def by (metis inj_onD)
  qed
  then have r: "\<forall>j\<in>lent d. regions (freed i d) (region_list (mrh d) ! j) = regions d (region_list (mrh d) ! j)" by (simp add: freed_def)
  have m: "region_list (mrh (freed i d)) = region_list (mrh d)" by (simp add: freed_def)
  have w: "heap_ok d'" "slots d' = (\<lambda>j. if j \<in> A then None else slots (freed i d) j)" "lent d' = lent (freed i d)"
    "\<forall>j\<in>lent (freed i d). regions d' (region_list (mrh (freed i d)) ! j) = regions (freed i d) (region_list (mrh (freed i d)) ! j)"
    using assms(3) unfolding without_def by blast+
  obtain R M where "d' = (freed i d)\<lparr>regions := R, mrh := (mrh (freed i d))\<lparr>malloc_map := M, d_size_gb := d_size_gb (mrh (freed i d)) - n\<rparr>\<rparr>"
    using assms(3) unfolding without_def by blast
  then have "\<exists>R M. d' = d\<lparr>regions := R, mrh := (mrh d)\<lparr>malloc_map := M, d_size_gb := d_size_gb (mrh d) - n\<rparr>\<rparr>"
    by (intro exI [of _ R] exI [of _ M]) (simp add: freed_def)
  moreover have "slots d' = (\<lambda>j. if j \<in> insert i A then None else slots d j)" unfolding w(2) f(2) by auto
  ultimately show ?thesis using w(1,3,4) f(3) r m unfolding without_def by auto
qed

lemma free_unmapped_ok:
  assumes "heap_ok d" and "distinct is" and "\<forall>i\<in>set is. i < MAX_FREE_MEM_GB" and "F = filter (\<lambda>i. slots d i = Some None) is"
    and "n = evict_size - f" and "0 < n"
  shows "if n \<le> int (length F) then \<exists>d'. free_unmapped is evict_size f d = Inr (True, evict_size, d') \<and> without (set (take (nat n) F)) evict_size d d'
    else \<exists>d'. free_unmapped is evict_size f d = Inr (False, f + int (length F), d') \<and> without (set F) 0 d d'"
  using assms
proof (induction "is" arbitrary: d F n f)
  case Nil
  then show ?case using without_refl by auto
next
  case (Cons i "is")
  have i: "i < MAX_FREE_MEM_GB" using Cons.prems(3) by simp
  have a: "length (malloc_map (mrh d)) = MAX_FREE_MEM_GB" "length (rb_owner (mrh d)) = MAX_FREE_MEM_GB" "length (region_list (mrh d)) = MAX_FREE_MEM_GB"
    using Cons.prems(1) by (simp_all add: heap_ok_def arrays_ok_def)
  show ?case
  proof (cases "slots d i = Some None")
    case False
    then show ?thesis using Cons.IH [of d F n f] Cons.prems i a slot_owner(2) [OF Cons.prems(1) i] by (auto simp: Let_def)
  next
    case True
    note v = freed_view [OF Cons.prems(1) True]
    define G where "G = filter (\<lambda>j. slots d j = Some None) is"
    have F: "F = i # G" using Cons.prems(4) True by (simp add: G_def)
    have G: "G = filter (\<lambda>j. slots (freed i d) j = Some None) is" unfolding G_def v(2) using Cons.prems(2) by (intro filter_cong) auto
    have step: "free_unmapped (i # is) evict_size f d = (if f + 1 = evict_size
        then Inr (True, f + 1, (freed i d)\<lparr>mrh := (mrh (freed i d))\<lparr>d_size_gb := d_size_gb (mrh d) - evict_size\<rparr>\<rparr>)
        else free_unmapped is evict_size (f + 1) (freed i d))"
      using v(4) i a slot_owner(2) [OF Cons.prems(1) i] True by (auto simp: region_free_def freed_def Let_def)
    show ?thesis
    proof (cases "f + 1 = evict_size")
      case True
      then have n: "n = 1" using Cons.prems(5) by simp
      let ?e = "(freed i d)\<lparr>mrh := (mrh (freed i d))\<lparr>d_size_gb := d_size_gb (mrh d) - evict_size\<rparr>\<rparr>"
      have e: "heap_ok ?e = heap_ok (freed i d)" "slots ?e = slots (freed i d)" "lent ?e = lent (freed i d)"
        using heap_cong [where d' = ?e and d = "freed i d" and n = "d_size_gb (mrh d) - evict_size" and k = "mapped_size (mrh d)"] by (simp_all add: freed_def)
      have "without {} evict_size (freed i d) ?e" unfolding without_def using e v(1)
        by (auto simp: freed_def intro!: exI [of _ "regions (freed i d)"] exI [of _ "malloc_map (mrh (freed i d))"])
      then have "without {i} evict_size d ?e" using without_step [OF Cons.prems(1) \<open>slots d i = Some None\<close>] by fastforce
      then show ?thesis using step True n F by auto
    next
      case False
      have m: "n - 1 = evict_size - (f + 1)" "0 < n - 1" using Cons.prems(5,6) False by auto
      note ih = Cons.IH [OF v(1) _ _ G m]
      show ?thesis
      proof (cases "n \<le> int (length F)")
        case True
        then obtain d' where d': "free_unmapped is evict_size (f + 1) (freed i d) = Inr (True, evict_size, d')"
            "without (set (take (nat (n - 1)) G)) evict_size (freed i d) d'" using ih Cons.prems(2,3) F by (auto split: if_splits)
        have "take (nat n) F = i # take (nat (n - 1)) G" using m(2) F by (simp add: take_Cons' nat_diff_distrib)
        then show ?thesis using without_step [OF Cons.prems(1) \<open>slots d i = Some None\<close> d'(2)] d'(1) step False True by auto
      next
        case big: False
        then obtain d' where d': "free_unmapped is evict_size (f + 1) (freed i d) = Inr (False, f + 1 + int (length G), d')"
            "without (set G) 0 (freed i d) d'" using ih Cons.prems(2,3) F by (auto split: if_splits)
        then show ?thesis using without_step [OF Cons.prems(1) \<open>slots d i = Some None\<close> d'(2)] step False big F by (auto simp: add.assoc)
      qed
    qed
  qed
qed

subsection \<open>The block written least recently\<close>

definition time_of :: "daemon \<Rightarrow> nat \<Rightarrow> int \<times> int" where
  "time_of d i = the (regions d (region_list (mrh d) ! i))"

definition oldest :: "daemon \<Rightarrow> nat \<Rightarrow> bool" where
  "oldest d i \<longleftrightarrow> i \<in> lent d \<and> (\<forall>j\<in>lent d. micros (time_of d i) \<le> micros (time_of d j))"

lemma find_oldest_ok:
  assumes "heap_ok d" and "lent d \<noteq> {}" and "\<forall>i\<in>lent d. time_of d i \<noteq> (0, 0)"
  shows "\<exists>i. find_oldest idx d = Inr (int i) \<and> oldest d i"
proof -
  define I where "I n acc \<longleftrightarrow> (if lent d \<inter> {..<n} = {} then acc = ((0, 0), idx)
      else \<exists>i\<in>lent d \<inter> {..<n}. acc = (time_of d i, int i) \<and> (\<forall>j\<in>lent d \<inter> {..<n}. micros (time_of d i) \<le> micros (time_of d j)))" for n acc
  have a: "length (rb_owner (mrh d)) = MAX_FREE_MEM_GB" using assms(1) by (simp add: heap_ok_def arrays_ok_def)
  have step: "\<exists>acc'. oldest_step d ([0..<MAX_FREE_MEM_GB] ! n) acc = Inr acc' \<and> I (Suc n) acc'"
    if n: "n < length [0..<MAX_FREE_MEM_GB]" and I: "I n acc" for n acc
  proof -
    have n': "n < MAX_FREE_MEM_GB" "[0..<MAX_FREE_MEM_GB] ! n = n" using n by simp_all
    have lt: "lent d \<inter> {..<Suc n} = (if n \<in> lent d then insert n (lent d \<inter> {..<n}) else lent d \<inter> {..<n})" by (auto simp: less_Suc_eq)
    show ?thesis
    proof (cases "n \<in> lent d")
      case False
      then show ?thesis using n' a owner_lent [OF assms(1) n'(1)] I by (simp add: oldest_step_def I_def lt)
    next
      case True
      have g: "region_get (int n) d = Inr (time_of d n)" using region_of [OF assms(1), of n] True lent_slots [of d] by (auto simp: time_of_def)
      have run: "oldest_step d n acc = Inr (if fst acc = (0, 0) then (time_of d n, int n)
          else if micros (fst acc) > micros (time_of d n) then (time_of d n, int n) else acc)"
        using n' a owner_lent [OF assms(1) n'(1)] True g by (simp add: oldest_step_def)
      show ?thesis
      proof (cases "lent d \<inter> {..<n} = {}")
        case e: True
        then show ?thesis using I run n' True by (simp add: I_def lt)
      next
        case e: False
        then obtain i where i: "i \<in> lent d \<inter> {..<n}" "acc = (time_of d i, int i)" "\<forall>j\<in>lent d \<inter> {..<n}. micros (time_of d i) \<le> micros (time_of d j)"
          using I unfolding I_def by auto
        have "time_of d i \<noteq> (0, 0)" using assms(3) i(1) by blast
        then have run': "oldest_step d n acc = Inr (if micros (time_of d i) > micros (time_of d n) then (time_of d n, int n) else (time_of d i, int i))"
          using run i(2) by simp
        have "I (Suc n) (if micros (time_of d i) > micros (time_of d n) then (time_of d n, int n) else (time_of d i, int i))"
          unfolding I_def lt using True i(1,3) by (auto intro: order_trans [OF less_imp_le])
        then show ?thesis using run' n'(2) by simp
      qed
    qed
  qed
  have "I 0 ((0, 0), idx)" by (simp add: I_def)
  from foldM_invariant [of I "((0, 0), idx)" "[0..<MAX_FREE_MEM_GB]" "oldest_step d", OF this step]
  obtain acc where acc: "foldM (oldest_step d) [0..<MAX_FREE_MEM_GB] ((0, 0), idx) = Inr acc" "I MAX_FREE_MEM_GB acc" by auto
  have "lent d \<inter> {..<MAX_FREE_MEM_GB} = lent d" using slots_bound by (force simp: lent_def)
  then obtain i where "i \<in> lent d" "acc = (time_of d i, int i)" "\<forall>j\<in>lent d. micros (time_of d i) \<le> micros (time_of d j)"
    using acc(2) assms(2) unfolding I_def by auto
  then show ?thesis using acc(1) by (intro exI [of _ i]) (simp add: find_oldest_def oldest_def)
qed

subsection \<open>Calling a block back\<close>

definition evict_msg :: "int \<Rightarrow> int \<Rightarrow> nat \<Rightarrow> ibv_mr \<Rightarrow> int \<Rightarrow> message \<Rightarrow> message" where
  "evict_msg rb me i mr r m = m\<lparr>m_type := EVICT, m_size_gb := rb, m_cb_index := me, m_rb_index := int i,
     m_rkey := (replicate MAX_MR_SIZE_GB 0)[i := htonl (mr_rkey mr)], m_buf := (m_buf m)[i := htonll (mr_addr mr)], m_replica_index := r\<rparr>"

text \<open>The loop that names one block in a message and clears the other keys; \<open>upd\<close> is what else it sets for the block.\<close>

lemma key_fill:
  fixes G :: "message \<Rightarrow> message outcome" and m :: message
  assumes "length (m_rkey m) = MAX_MR_SIZE_GB" and "i < MAX_MR_SIZE_GB"
    and G: "\<And>ks. length ks = MAX_MR_SIZE_GB \<Longrightarrow> G (m\<lparr>m_rkey := ks\<rparr>) = Inr ((upd m)\<lparr>m_rkey := ks[i := a]\<rparr>)"
  shows "foldM (\<lambda>j m. if int j = int i then G m else bind_ok (arr_set (m_rkey m) j 0) (\<lambda>ks. Inr (m\<lparr>m_rkey := ks\<rparr>))) [0..<MAX_MR_SIZE_GB] m =
    Inr ((upd m)\<lparr>m_rkey := (replicate MAX_MR_SIZE_GB 0)[i := a]\<rparr>)"
    (is "foldM ?f _ m = _")
proof -
  define ks where "ks j = (replicate j 0 @ drop j (m_rkey m))" for j
  define b where "b j = (if j \<le> i then m\<lparr>m_rkey := ks j\<rparr> else (upd m)\<lparr>m_rkey := (ks j)[i := a]\<rparr>)" for j
  have up: "(ks j)[j := v] = (ks (Suc j))[j := v]" "(ks j)[j := 0] = ks (Suc j)" "length (ks j) = MAX_MR_SIZE_GB" if "j < MAX_MR_SIZE_GB" for j v
  proof -
    have "drop j (m_rkey m) = m_rkey m ! j # drop (Suc j) (m_rkey m)" using assms(1) that by (simp add: Cons_nth_drop_Suc)
    moreover have "replicate (Suc j) (0::u32) = replicate j 0 @ [0]" by (simp add: replicate_append_same)
    ultimately show "(ks j)[j := v] = (ks (Suc j))[j := v]" "(ks j)[j := 0] = ks (Suc j)" "length (ks j) = MAX_MR_SIZE_GB"
      using assms(1) that by (simp_all add: ks_def list_update_append)
  qed
  have step: "?f j (b j) = Inr (b (Suc j))" if j: "j < MAX_MR_SIZE_GB" for j
  proof -
    consider "j < i" | "j = i" | "i < j" by linarith
    then show ?thesis
    proof cases
      case 1
      then show ?thesis using up(2,3) [OF j] j by (simp add: b_def)
    next
      case 2
      then show ?thesis using G [OF up(3) [OF j]] up(1) [OF j] by (simp add: b_def)
    next
      case 3
      have "((ks j)[i := a])[j := 0] = (ks (Suc j))[i := a]"
        using up(2) [OF j] 3 by (metis list_update_swap less_irrefl)
      then show ?thesis using up(3) [OF j] j 3 by (simp add: b_def)
    qed
  qed
  have "foldM ?f [0..<MAX_MR_SIZE_GB] (b 0) = Inr (b MAX_MR_SIZE_GB)" by (rule foldM_upt) (rule step)
  moreover have "b 0 = m" by (simp add: b_def ks_def)
  moreover have "b MAX_MR_SIZE_GB = (upd m)\<lparr>m_rkey := (replicate MAX_MR_SIZE_GB 0)[i := a]\<rparr>"
    using assms(1,2) by (simp add: b_def ks_def)
  ultimately show ?thesis by simp
qed

lemma evict_fill:
  assumes "msg_ok m" and "i < MAX_MR_SIZE_GB" and "mr_get (int i) d = Inr mr" and "length (d_replica_index (mrh d)) = MAX_FREE_MEM_GB"
  shows "foldM (\<lambda>j m. if int j = int i
         then bind_ok (mr_get (int j) d) (\<lambda>mr. bind_ok (arr_set (m_rkey m) j (htonl (mr_rkey mr))) (\<lambda>ks.
              bind_ok (arr_set (m_buf m) j (htonll (mr_addr mr))) (\<lambda>bs.
              bind_ok (arr_get (d_replica_index (mrh d)) j) (\<lambda>r.
                Inr (m\<lparr>m_rkey := ks, m_buf := bs, m_replica_index := r\<rparr>)))))
         else bind_ok (arr_set (m_rkey m) j 0) (\<lambda>ks. Inr (m\<lparr>m_rkey := ks\<rparr>))) [0..<MAX_MR_SIZE_GB] m =
    Inr (m\<lparr>m_rkey := (replicate MAX_MR_SIZE_GB 0)[i := htonl (mr_rkey mr)], m_buf := (m_buf m)[i := htonll (mr_addr mr)], m_replica_index := d_replica_index (mrh d) ! i\<rparr>)"
proof -
  let ?G = "\<lambda>m. bind_ok (mr_get (int i) d) (\<lambda>mr. bind_ok (arr_set (m_rkey m) i (htonl (mr_rkey mr))) (\<lambda>ks.
      bind_ok (arr_set (m_buf m) i (htonll (mr_addr mr))) (\<lambda>bs. bind_ok (arr_get (d_replica_index (mrh d)) i) (\<lambda>r.
        Inr (m\<lparr>m_rkey := ks, m_buf := bs, m_replica_index := r\<rparr>)))))"
  let ?upd = "\<lambda>m. m\<lparr>m_buf := (m_buf m)[i := htonll (mr_addr mr)], m_replica_index := d_replica_index (mrh d) ! i\<rparr>"
  have l: "length (m_rkey m) = MAX_MR_SIZE_GB" "length (m_buf m) = MAX_MR_SIZE_GB" using assms(1) by (simp_all add: msg_ok_def)
  have "?G (m\<lparr>m_rkey := ks\<rparr>) = Inr ((?upd m)\<lparr>m_rkey := ks[i := htonl (mr_rkey mr)]\<rparr>)" if "length ks = MAX_MR_SIZE_GB" for ks
    using that assms l by simp
  from key_fill [where G = ?G and upd = ?upd, OF l(1) assms(2) this]
  show ?thesis by (simp cong: if_cong)
qed

lemma send_evict_ok:
  assumes "heap_ok d" and "conn d y c cb" and "d_send_buf cb = Some m" and "i \<in> lent d" and "ibv_mrs d (mr_list (mrh d) ! i) = Some mr"
  shows "send_evict True y (int i) rb me d = Inr ((set_rcb y (cb\<lparr>d_send_buf := Some (evict_msg rb me i mr (d_replica_index (mrh d) ! i) m)\<rparr>) d)
    \<lparr>d_posted := d_posted d @ [D_Send y (evict_msg rb me i mr (d_replica_index (mrh d) ! i) m)]\<rparr>)"
proof -
  have i: "i < MAX_FREE_MEM_GB" using slots_bound assms(4) by (force simp: lent_def)
  have a: "arrays_ok (mrh d)" using assms(1) by (simp add: heap_ok_def)
  have ok: "msg_ok (m\<lparr>m_type := EVICT, m_size_gb := rb, m_cb_index := me, m_rb_index := int i\<rparr>)" using assms(2,3) by (auto simp: conn_def msg_ok_def)
  have mr: "mr_get (int i) d = Inr mr" using i a assms(5) by (simp add: mr_get_def arrays_ok_def)
  have r: "length (d_replica_index (mrh d)) = MAX_FREE_MEM_GB" using a by (simp add: arrays_ok_def)
  have cx: "rping_cbs d y = Some cb" using assms(2) by (simp add: conn_def)
  show ?thesis unfolding send_evict_def
    using evict_fill [OF ok i mr r] cx assms(3) by (simp add: get_rcb_def buf_get_def post_send_def evict_msg_def)
qed

lemma htonl_nonzero: "htonl x \<noteq> 0 \<longleftrightarrow> x \<noteq> 0"
proof -
  have "htonl 0 = 0" by (simp add: htonl_def)
  then show ?thesis by (metis htonl_htonl)
qed

lemma evict_msg_names: "i < MAX_MR_SIZE_GB \<Longrightarrow> mr_rkey mr \<noteq> 0 \<Longrightarrow> names_block (evict_msg rb me i mr r m) i \<and> m_type (evict_msg rb me i mr r m) = EVICT"
  by (auto simp: names_block_def evict_msg_def htonl_nonzero)

text \<open>A client answers the call for a block by deleting that block.\<close>

definition obliging :: "reaction \<Rightarrow> bool" where
  "obliging react \<longleftrightarrow> (\<forall>y m i. m_type m = EVICT \<longrightarrow> names_block m i \<longrightarrow>
     (\<exists>env m'. react y m = [(env, y, m')] \<and> m_type m' = DELETE_RB \<and> names_block m' i))"

text \<open>The effect of a call back: slot \<open>i\<close> is empty, the times of the other blocks are as before.\<close>

definition called_back :: "nat \<Rightarrow> daemon \<Rightarrow> daemon \<Rightarrow> bool" where
  "called_back i d d' \<longleftrightarrow> daemon_ok d' \<and> clients d' = clients d \<and> slots d' = (slots d)(i := None) \<and> (\<forall>j\<in>lent d'. time_of d' j = time_of d j)"

lemma taken_back_times:
  assumes "heap_ok d" and "i \<in> lent d" and "j \<in> lent d" and "j \<noteq> i"
  shows "time_of (taken_back i d) j = time_of d j"
proof -
  have "inj_on (\<lambda>j. region_list (mrh d) ! j) (dom (slots d))" "i \<in> dom (slots d)" "j \<in> dom (slots d)"
    using assms(1-3) lent_slots by (auto simp: heap_ok_def)
  then have "region_list (mrh d) ! j \<noteq> region_list (mrh d) ! i" using assms(4) by (metis inj_onD)
  then show ?thesis by (simp add: time_of_def taken_back_def)
qed

lemma evict_one_ok:
  assumes "daemon_ok d" and "lent d \<noteq> {}" and "\<forall>i\<in>lent d. time_of d i \<noteq> (0, 0)" and "obliging react"
  shows "\<exists>i d'. evict_one True react idx d = Inr (int i, d') \<and> oldest d i \<and> called_back i d d'"
proof -
  have h: "heap_ok d" "counts_ok d" "owners_ok d" using assms(1) by (simp_all add: daemon_ok_def)
  obtain i where i: "find_oldest idx d = Inr (int i)" "oldest d i" using find_oldest_ok [OF h(1) assms(2,3)] by blast
  then have il: "i \<in> lent d" by (simp add: oldest_def)
  then obtain k where k: "slots d i = Some (Some k)" by (auto simp: lent_def)
  have ib: "i < MAX_FREE_MEM_GB" using slots_bound [of d i] k by simp
  have a: "arrays_ok (mrh d)" using h(1) by (simp add: heap_ok_def)
  have ok: "rb_owner (mrh d) ! i = k" using slot_owner(1) [OF h(1) ib, of k] k by simp
  obtain y cb where y: "0 \<le> k" "conn d y (nat k) cb" using h(3) k unfolding owners_ok_def by blast
  obtain m where m: "d_send_buf cb = Some m" "msg_ok m" using y(2) by (auto simp: conn_def)
  obtain mr where mr: "ibv_mrs d (mr_list (mrh d) ! i) = Some mr" "mr_rkey mr \<noteq> 0" using h(1) il unfolding heap_ok_def by blast
  define m1 where "m1 = evict_msg (client_rb_idx (mrh d) ! i) (my_index d) i mr (d_replica_index (mrh d) ! i) m"
  define cb1 where "cb1 = cb\<lparr>d_send_buf := Some m1\<rparr>"
  define d1 where "d1 = (set_rcb y cb1 d)\<lparr>d_posted := d_posted d @ [D_Send y m1]\<rparr>"
  have send: "send_evict True y (int i) (client_rb_idx (mrh d) ! i) (my_index d) d = Inr d1"
    unfolding d1_def cb1_def m1_def by (rule send_evict_ok [OF h(1) y(2) m(1) il mr(1)])
  have v1: "slots d1 = slots d" "lent d1 = lent d" "mrh d1 = mrh d" "regions d1 = regions d" "rping_cbs d1 = (rping_cbs d)(y \<mapsto> cb1)" by (simp_all add: d1_def)
  have "owners_ok (set_rcb y cb1 d) \<and> conn (set_rcb y cb1 d) y (nat k) cb1"
    using owners_keep [OF h(3) y(2), of "set_rcb y cb1 d" cb1] y(2) m(2) by (auto simp: cb1_def m1_def conn_def evict_msg_def msg_ok_def)
  then have d1: "daemon_ok d1" "conn d1 y (nat k) cb1" using h by (simp_all add: d1_def daemon_ok_def)
  obtain env m' where re: "react y m1 = [(env, y, m')]" "m_type m' = DELETE_RB" "names_block m' i"
    using assms(4) evict_msg_names [OF ib mr(2)] unfolding obliging_def m1_def by blast
  obtain cb2 where del: "receive env y m' d1 = Inr (set_rcb y cb2 (taken_back i d1))" "daemon_ok (set_rcb y cb2 (taken_back i d1))"
      "slots (taken_back i d1) = (slots d1)(i := None)" "conn (set_rcb y cb2 (taken_back i d1)) y (nat k) cb2" "d_evict_sem cb2 = Suc (d_evict_sem cb1)"
    using delete_ok [OF d1 re(2,3), of env] k y(1) v1(1) by auto
  define d2 where "d2 = set_rcb y (cb2\<lparr>d_evict_sem := d_evict_sem cb1\<rparr>) (taken_back i d1)"
  have wait: "wait_evicted [(env, y, m')] y d1 = Inr d2"
    using del(1,5) by (simp add: wait_evicted_def get_rcb_def d2_def) (simp add: set_rcb_def)
  have "owners_ok d2"
    using owners_keep(1) [of "set_rcb y cb2 (taken_back i d1)" y "nat k" cb2 d2 "cb2\<lparr>d_evict_sem := d_evict_sem cb1\<rparr>"] del(2,4)
    by (auto simp: daemon_ok_def d2_def conn_def)
  then have "daemon_ok d2" using del(2) by (simp add: daemon_ok_def d2_def)
  moreover have s2: "slots d2 = (slots d)(i := None)" using del(3) v1(1) by (simp add: d2_def)
  moreover have "time_of d2 j = time_of d j" if "j \<in> lent d2" for j
  proof -
    have "j \<in> lent d" "j \<noteq> i" using that unfolding lent_def s2 by (auto split: if_splits)
    then have "time_of (taken_back i d1) j = time_of d1 j" using d1(1) il v1(2) by (intro taken_back_times) (simp_all add: daemon_ok_def)
    then show ?thesis by (simp add: time_of_def d2_def v1)
  qed
  moreover have "clients d2 = clients d" by (simp add: clients_def d2_def taken_back_def d1_def)
  ultimately have cb: "called_back i d d2" by (simp add: called_back_def)
  have "length (d_cb_list d) = MAX_CLIENT" "d_cb_list d ! nat k = y" "nat k < MAX_CLIENT" using y(2) by (simp_all add: conn_def)
  then have "iarr_get (d_cb_list d) k = Inr y" using y(1) by (simp add: iarr_get_def)
  then have "evict_one True react idx d = Inr (int i, d2)"
    using i(1) ib a ok send re(1) wait v1(5)
    by (simp add: evict_one_def arrays_ok_def get_rcb_def buf_get_def cb1_def)
  then show ?thesis using i(2) cb by blast
qed

text \<open>The blocks \<open>E\<close> have gone, none of them younger than a block that stays.\<close>

definition evicted :: "nat set \<Rightarrow> daemon \<Rightarrow> daemon \<Rightarrow> bool" where
  "evicted E d d' \<longleftrightarrow> daemon_ok d' \<and> clients d' = clients d \<and> E \<subseteq> lent d \<and> slots d' = (\<lambda>i. if i \<in> E then None else slots d i) \<and>
     (\<forall>i\<in>E. \<forall>j\<in>lent d - E. micros (time_of d i) \<le> micros (time_of d j))"

lemma evicted_lent: "evicted E d d' \<Longrightarrow> lent d' = lent d - E"
  unfolding evicted_def lent_def by auto

lemma evict_loop_ok:
  assumes "daemon_ok d" and "n \<le> card (lent d)" and "\<forall>i\<in>lent d. time_of d i \<noteq> (0, 0)" and "\<forall>k. fst (envs k) \<and> obliging (snd (envs k))"
  shows "\<exists>d' E. evict_loop n envs idx d = Inr d' \<and> evicted E d d' \<and> card E = n"
  using assms(1-3)
proof (induction n arbitrary: d idx)
  case 0
  then show ?case by (auto simp: evicted_def intro!: exI [of _ "{}"])
next
  case (Suc n)
  have ne: "lent d \<noteq> {}" using Suc.prems(2) by auto
  obtain i d1 where i: "evict_one True (snd (envs n)) idx d = Inr (int i, d1)" "oldest d i" "called_back i d d1"
    using evict_one_ok [OF Suc.prems(1) ne Suc.prems(3)] assms(4) by blast
  have s1: "daemon_ok d1" "clients d1 = clients d" "slots d1 = (slots d)(i := None)" "\<forall>j\<in>lent d1. time_of d1 j = time_of d j" using i(3) by (simp_all add: called_back_def)
  have l1: "lent d1 = lent d - {i}" unfolding lent_def s1(3) by auto
  have il: "i \<in> lent d" "\<forall>j\<in>lent d. micros (time_of d i) \<le> micros (time_of d j)" using i(2) by (simp_all add: oldest_def)
  have "n \<le> card (lent d1)" using Suc.prems(2) il(1) unfolding l1 by simp
  moreover have "\<forall>j\<in>lent d1. time_of d1 j \<noteq> (0, 0)" using s1(4) Suc.prems(3) l1 by auto
  ultimately obtain d' E where E: "evict_loop n envs (int i) d1 = Inr d'" "evicted E d1 d'" "card E = n" using Suc.IH [OF s1(1)] by blast
  have e: "daemon_ok d'" "clients d' = clients d1" "E \<subseteq> lent d - {i}" "slots d' = (\<lambda>j. if j \<in> E then None else slots d1 j)"
    "\<forall>a\<in>E. \<forall>j\<in>lent d1 - E. micros (time_of d1 a) \<le> micros (time_of d1 j)" using E(2) unfolding evicted_def l1 by blast+
  have "micros (time_of d a) \<le> micros (time_of d j)" if "a \<in> insert i E" "j \<in> lent d - insert i E" for a j
  proof (cases "a = i")
    case False
    then have "a \<in> E" "a \<in> lent d1" "j \<in> lent d1 - E" "j \<in> lent d1" using that e(3) unfolding l1 by auto
    then show ?thesis using e(5) s1(4) by metis
  qed (use that il(2) in auto)
  then have "evicted (insert i E) d d'" unfolding evicted_def using e(1-4) s1(2) il(1) unfolding s1(3) by auto
  moreover have "card (insert i E) = Suc n" using E(3) e(3) finite_subset [OF _ finite_slots(2)] by (subst card_insert_disjoint) auto
  ultimately show ?case using i(1) E(1) assms(4) by auto
qed

lemma without_daemon_ok:
  assumes "daemon_ok d" and "without A n d d'" and "int (card A) = n" and "A \<subseteq> dom (slots d)"
  shows "daemon_ok d'" "\<forall>i\<in>lent d'. time_of d' i = time_of d i" "clients d' = clients d"
proof -
  have w: "heap_ok d'" "slots d' = (\<lambda>i. if i \<in> A then None else slots d i)" "lent d' = lent d"
    "\<forall>i\<in>lent d. regions d' (region_list (mrh d) ! i) = regions d (region_list (mrh d) ! i)" using assms(2) unfolding without_def by blast+
  obtain R M where e: "d' = d\<lparr>regions := R, mrh := (mrh d)\<lparr>malloc_map := M, d_size_gb := d_size_gb (mrh d) - n\<rparr>\<rparr>"
    using assms(2) unfolding without_def by blast
  have "dom (slots d') = dom (slots d) - A" unfolding w(2) by (auto split: if_splits)
  then have "card (dom (slots d')) = card (dom (slots d)) - card A" using assms(4) by (simp add: card_Diff_subset finite_subset)
  moreover have "card A \<le> card (dom (slots d))" using assms(4) by (simp add: card_mono)
  moreover have "d_size_gb (mrh d') = d_size_gb (mrh d) - n" "mapped_size (mrh d') = mapped_size (mrh d)" unfolding e by simp_all
  moreover have "counts_ok d" using assms(1) by (simp add: daemon_ok_def)
  ultimately have "counts_ok d'" using assms(3) w(3) by (simp add: counts_ok_def)
  moreover have "conn d' = conn d" unfolding e by (simp add: fun_eq_iff conn_def)
  then have "owners_ok d'" using assms(1) unfolding daemon_ok_def owners_ok_def w(2) by (auto split: if_splits)
  ultimately show "daemon_ok d'" using w(1) by (simp add: daemon_ok_def)
  have "region_list (mrh d') = region_list (mrh d)" unfolding e by simp
  then show "\<forall>i\<in>lent d'. time_of d' i = time_of d i" using w(3,4) by (simp add: time_of_def)
  show "clients d' = clients d" unfolding e by (simp add: clients_def)
qed

lemma set_filter_slots: "set (filter (\<lambda>i. slots d i = Some None) [0..<MAX_FREE_MEM_GB]) = {i. slots d i = Some None}"
  using slots_bound by force

lemma do_evict_ok:
  assumes "daemon_ok d" and "0 < n" and "n \<le> int (card (dom (slots d)))" and "\<forall>i\<in>lent d. time_of d i \<noteq> (0, 0)"
    and "\<forall>k. fst (envs k) \<and> obliging (snd (envs k))"
  shows "\<exists>d' A E. do_evict envs n d = Inr d' \<and> daemon_ok d' \<and> clients d' = clients d \<and> slots d' = (\<lambda>i. if i \<in> A \<union> E then None else slots d i) \<and>
    A \<subseteq> {i. slots d i = Some None} \<and> E \<subseteq> lent d \<and> int (card (A \<union> E)) = n \<and> (E \<noteq> {} \<longrightarrow> A = {i. slots d i = Some None}) \<and>
    (\<forall>i\<in>E. \<forall>j\<in>lent d - E. micros (time_of d i) \<le> micros (time_of d j))"
proof -
  have h: "heap_ok d" "counts_ok d" using assms(1) by (simp_all add: daemon_ok_def)
  define F where "F = filter (\<lambda>i. slots d i = Some None) [0..<MAX_FREE_MEM_GB]"
  have F: "set F = {i. slots d i = Some None}" "distinct F" unfolding F_def using set_filter_slots by simp_all
  have fu: "if n \<le> int (length F) then \<exists>d'. free_unmapped [0..<MAX_FREE_MEM_GB] n 0 d = Inr (True, n, d') \<and> without (set (take (nat n) F)) n d d'
    else \<exists>d'. free_unmapped [0..<MAX_FREE_MEM_GB] n 0 d = Inr (False, 0 + int (length F), d') \<and> without (set F) 0 d d'"
    using assms(2) by (intro free_unmapped_ok [OF h(1) _ _ F_def]) simp_all
  show ?thesis
  proof (cases "n \<le> int (length F)")
    case True
    let ?A = "set (take (nat n) F)"
    obtain d' where d': "free_unmapped [0..<MAX_FREE_MEM_GB] n 0 d = Inr (True, n, d')" "without ?A n d d'" using fu True by auto
    have c: "int (card ?A) = n" using F(2) True assms(2) by (simp add: distinct_card)
    have sub: "?A \<subseteq> {i. slots d i = Some None}" using F(1) set_take_subset by fastforce
    then have "?A \<subseteq> dom (slots d)" by auto
    then have "daemon_ok d' \<and> clients d' = clients d" using without_daemon_ok(1,3) [OF assms(1) d'(2) c] by blast
    moreover have "slots d' = (\<lambda>i. if i \<in> ?A then None else slots d i)" using d'(2) unfolding without_def by blast
    ultimately show ?thesis using d'(1) c sub by (intro exI [of _ d'] exI [of _ ?A] exI [of _ "{}"]) (simp add: do_evict_def)
  next
    case False
    obtain d1 where d1: "free_unmapped [0..<MAX_FREE_MEM_GB] n 0 d = Inr (False, int (length F), d1)" "without (set F) 0 d d1" using fu False by auto
    define d2 where "d2 = d1\<lparr>mrh := (mrh d1)\<lparr>d_size_gb := d_size_gb (mrh d1) - int (length F)\<rparr>\<rparr>"
    have w: "slots d1 = (\<lambda>i. if i \<in> set F then None else slots d i)" "lent d1 = lent d" using d1(2) unfolding without_def by blast+
    have hc: "heap_ok d2 = heap_ok d1" "slots d2 = slots d1" "lent d2 = lent d1"
      using heap_cong [where d' = d2 and d = d1 and n = "d_size_gb (mrh d1) - int (length F)" and k = "mapped_size (mrh d1)"] by (simp_all add: d2_def)
    have "without (set F) (int (length F)) d d2"
      using d1(2) hc unfolding without_def by (auto simp: d2_def) blast
    moreover have cF: "int (card (set F)) = int (length F)" using F(2) by (simp add: distinct_card)
    moreover have "set F \<subseteq> dom (slots d)" using F(1) by auto
    ultimately have d2: "daemon_ok d2" "\<forall>i\<in>lent d2. time_of d2 i = time_of d i" "clients d2 = clients d" using without_daemon_ok [OF assms(1)] by blast+
    have un: "dom (slots d) = set F \<union> lent d" "set F \<inter> lent d = {}" unfolding F(1) by (auto simp: lent_def)
    then have ct: "card (dom (slots d)) = length F + card (lent d)" using F(2) by (simp add: card_Un_disjoint distinct_card)
    have ms: "mapped_size (mrh d2) = int (card (lent d))" using d2(1) hc(3) w(2) by (simp add: daemon_ok_def counts_ok_def)
    define e where "e = nat (n - int (length F))"
    have e: "int e = n - int (length F)" "e \<le> card (lent d2)" "\<not> mapped_size (mrh d2) < n - int (length F)"
      using False assms(3) ct ms hc(3) w(2) by (simp_all add: e_def)
    have "\<forall>i\<in>lent d2. time_of d2 i \<noteq> (0, 0)" using d2(2) assms(4) hc(3) w(2) by simp
    then obtain d' E where E: "evict_loop e envs (- 1) d2 = Inr d'" "evicted E d2 d'" "card E = e"
      using evict_loop_ok [OF d2(1) e(2) _ assms(5)] by blast
    have run: "do_evict envs n d = Inr d'" using d1(1) E(1) e(3) by (simp add: do_evict_def d2_def [symmetric] Let_def) (simp add: d2_def e_def)
    have l2: "lent d2 = lent d" using hc(3) w(2) by simp
    have ev: "daemon_ok d'" "E \<subseteq> lent d" "clients d' = clients d2" "slots d' = (\<lambda>i. if i \<in> E then None else slots d2 i)"
      and ages: "\<forall>i\<in>E. \<forall>j\<in>lent d - E. micros (time_of d2 i) \<le> micros (time_of d2 j)"
      using E(2) unfolding evicted_def l2 by blast+
    have old: "\<forall>i\<in>E. \<forall>j\<in>lent d - E. micros (time_of d i) \<le> micros (time_of d j)"
      using ages d2(2) ev(2) unfolding l2 by (metis DiffD1 subsetD)
    have "set F \<inter> E = {}" using un(2) ev(2) by blast
    then have "int (card (set F \<union> E)) = n" using E(3) e(1) F(2) finite_subset [OF ev(2)] by (simp add: card_Un_disjoint distinct_card)
    moreover have "slots d' = (\<lambda>i. if i \<in> set F \<union> E then None else slots d i)" unfolding ev(4) hc(2) w(1) by auto
    ultimately show ?thesis using run ev(1-3) d2(3) old F(1) by (intro exI [of _ d'] exI [of _ "set F"] exI [of _ E]) auto
  qed
qed

end
