(* ===== verification/Daemon_Monitor.thy ===== *)
theory Daemon_Monitor
  imports Daemon_Evict
begin

text \<open>
  The start of the daemon and the monitor of the free memory (daemon.c): how many regions there are, and
  when there are more or fewer.
\<close>

subsection \<open>New regions\<close>

definition grown :: "nat set \<Rightarrow> daemon \<Rightarrow> daemon \<Rightarrow> bool" where
  "grown A d d' \<longleftrightarrow> heap_ok d' \<and> slots d' = (\<lambda>i. if i \<in> A then Some None else slots d i) \<and> lent d' = lent d \<and>
     (\<exists>R L M. d' = d\<lparr>regions := R, mrh := (mrh d)\<lparr>region_list := L, malloc_map := M\<rparr>\<rparr>)"

lemma grown_refl: "heap_ok d \<Longrightarrow> grown {} d d"
  by (auto simp: grown_def intro!: exI [of _ "regions d"] exI [of _ "region_list (mrh d)"] exI [of _ "malloc_map (mrh d)"])

text \<open>The system has memory for the slots \<open>A\<close>, at new addresses.\<close>

definition region_grants :: "(nat \<Rightarrow> ptr) \<Rightarrow> nat set \<Rightarrow> daemon \<Rightarrow> bool" where
  "region_grants grant A d \<longleftrightarrow> inj_on grant A \<and> (\<forall>i\<in>A. grant i \<noteq> NULL \<and> regions d (grant i) = None)"

definition added :: "(nat \<Rightarrow> ptr) \<Rightarrow> nat \<Rightarrow> daemon \<Rightarrow> daemon" where
  "added grant i d = d\<lparr>regions := (regions d)(grant i \<mapsto> (0, 0)), mrh := (mrh d)\<lparr>region_list := (region_list (mrh d))[i := grant i],
        malloc_map := (malloc_map (mrh d))[i := RB_MALLOCED]\<rparr>\<rparr>"

lemma added_ok:
  assumes "heap_ok d" and "i < MAX_FREE_MEM_GB" and "slots d i = None" and "region_grants grant (insert i A) d" and "i \<notin> A"
  shows "new_region grant i d = Inr (added grant i d)" "heap_ok (added grant i d)" "slots (added grant i d) = (slots d)(i \<mapsto> None)"
    "lent (added grant i d) = lent d" "region_grants grant A (added grant i d)"
proof -
  have "grant i \<noteq> NULL" "regions d (grant i) = None" using assms(4) by (simp_all add: region_grants_def)
  from new_region_ok [where grant = grant, OF assms(1-3) this] show "new_region grant i d = Inr (added grant i d)" "heap_ok (added grant i d)"
    "slots (added grant i d) = (slots d)(i \<mapsto> None)" "lent (added grant i d) = lent d" by (auto simp: added_def)
  show "region_grants grant A (added grant i d)" using assms(4,5) by (auto simp: region_grants_def added_def inj_on_def)
qed

lemma grown_step:
  assumes "grown A (added grant i d) d'" and "slots (added grant i d) = (slots d)(i \<mapsto> None)" and "lent (added grant i d) = lent d"
  shows "grown (insert i A) d d'"
proof -
  obtain R L M where e: "d' = (added grant i d)\<lparr>regions := R, mrh := (mrh (added grant i d))\<lparr>region_list := L, malloc_map := M\<rparr>\<rparr>"
    using assms(1) unfolding grown_def by blast
  have g: "heap_ok d'" "slots d' = (\<lambda>j. if j \<in> A then Some None else slots (added grant i d) j)" "lent d' = lent (added grant i d)"
    using assms(1) unfolding grown_def by blast+
  have "slots d' = (\<lambda>j. if j \<in> insert i A then Some None else slots d j)" unfolding g(2) assms(2) by auto
  moreover have "\<exists>R L M. d' = d\<lparr>regions := R, mrh := (mrh d)\<lparr>region_list := L, malloc_map := M\<rparr>\<rparr>"
    by (intro exI [of _ R] exI [of _ L] exI [of _ M]) (simp add: e added_def)
  ultimately show ?thesis using g(1,3) assms(3) unfolding grown_def by simp
qed

lemma expand_ok_some:
  assumes "heap_ok d" and "distinct is" and "\<forall>i\<in>set is. i < MAX_FREE_MEM_GB" and "F = filter (\<lambda>i. slots d i = None) is"
    and "n = e - j" and "0 < n" and "n \<le> int (length F)" and "region_grants grant (set F) d"
  shows "\<exists>d'. expand_regions is grant e j d = Inr d' \<and> grown (set (take (nat n) F)) d d'"
  using assms
proof (induction "is" arbitrary: d F n j)
  case (Cons i "is")
  have i: "i < MAX_FREE_MEM_GB" using Cons.prems(3) by simp
  have a: "length (malloc_map (mrh d)) = MAX_FREE_MEM_GB" using Cons.prems(1) by (simp add: heap_ok_def arrays_ok_def)
  show ?case
  proof (cases "slots d i = None")
    case False
    then show ?thesis using Cons.IH [of d F n j] Cons.prems i a slot_owner(3) [OF Cons.prems(1) i] by simp
  next
    case True
    define G where "G = filter (\<lambda>k. slots d k = None) is"
    have F: "F = i # G" using Cons.prems(4) True by (simp add: G_def)
    have iG: "i \<notin> set G" using Cons.prems(2) by (simp add: G_def)
    note v = added_ok [OF Cons.prems(1) i True Cons.prems(8) [unfolded F list.set] iG]
    have G: "G = filter (\<lambda>k. slots (added grant i d) k = None) is" unfolding G_def v(3) using Cons.prems(2) by (intro filter_cong) auto
    have step: "expand_regions (i # is) grant e j d = (if j + 1 = e then Inr (added grant i d) else expand_regions is grant e (j + 1) (added grant i d))"
      using i a slot_owner(3) [OF Cons.prems(1) i] True v(1) by simp
    show ?thesis
    proof (cases "j + 1 = e")
      case t: True
      then have "n = 1" using Cons.prems(5) by simp
      then show ?thesis using step t grown_step [OF grown_refl [OF v(2)] v(3,4)] F by auto
    next
      case False
      have m: "n - 1 = e - (j + 1)" "0 < n - 1" "n - 1 \<le> int (length G)" using Cons.prems(5-7) False F by auto
      obtain d' where d': "expand_regions is grant e (j + 1) (added grant i d) = Inr d'" "grown (set (take (nat (n - 1)) G)) (added grant i d) d'"
        using Cons.IH [OF v(2) _ _ G m v(5)] Cons.prems(2,3) by auto
      have "take (nat n) F = i # take (nat (n - 1)) G" using m(2) F by (simp add: take_Cons' nat_diff_distrib)
      then show ?thesis using step False d'(1) grown_step [OF d'(2) v(3,4)] by simp
    qed
  qed
qed auto

lemma expand_full:
  assumes "heap_ok d" and "\<forall>i\<in>set is. slots d i \<noteq> None"
  shows "expand_regions is grant e j d = Inr d"
  using assms(2)
proof (induction "is")
  case (Cons i "is")
  have i: "i < MAX_FREE_MEM_GB" using slots_bound [of d i] Cons.prems by simp
  have "length (malloc_map (mrh d)) = MAX_FREE_MEM_GB" using assms(1) by (simp add: heap_ok_def arrays_ok_def)
  then show ?case using i slot_owner(3) [OF assms(1) i] Cons by simp
qed simp

text \<open>More regions keep the invariant, once they are counted.\<close>

lemma grown_daemon_ok:
  assumes "daemon_ok d" and "grown A d d'" and "A \<subseteq> {i. slots d i = None}" and "finite A"
  shows "daemon_ok (d'\<lparr>mrh := (mrh d')\<lparr>d_size_gb := d_size_gb (mrh d') + int (card A)\<rparr>\<rparr>)"
    "slots (d'\<lparr>mrh := (mrh d')\<lparr>d_size_gb := d_size_gb (mrh d') + int (card A)\<rparr>\<rparr>) = (\<lambda>i. if i \<in> A then Some None else slots d i)"
proof -
  let ?e = "d'\<lparr>mrh := (mrh d')\<lparr>d_size_gb := d_size_gb (mrh d') + int (card A)\<rparr>\<rparr>"
  have g: "heap_ok d'" "slots d' = (\<lambda>i. if i \<in> A then Some None else slots d i)" "lent d' = lent d" using assms(2) unfolding grown_def by blast+
  obtain R L M where e: "d' = d\<lparr>regions := R, mrh := (mrh d)\<lparr>region_list := L, malloc_map := M\<rparr>\<rparr>" using assms(2) unfolding grown_def by blast
  have hc: "heap_ok ?e = heap_ok d'" "slots ?e = slots d'" "lent ?e = lent d'"
    using heap_cong [where d' = ?e and d = d' and n = "d_size_gb (mrh d') + int (card A)" and k = "mapped_size (mrh d')"] by simp_all
  show "slots ?e = (\<lambda>i. if i \<in> A then Some None else slots d i)" using hc(2) g(2) by simp
  have "dom (slots ?e) = dom (slots d) \<union> A" unfolding hc(2) g(2) by auto
  moreover have "dom (slots d) \<inter> A = {}" using assms(3) by auto
  ultimately have "card (dom (slots ?e)) = card (dom (slots d)) + card A" using assms(4) by (simp add: card_Un_disjoint)
  moreover have "d_size_gb (mrh d') = d_size_gb (mrh d)" "mapped_size (mrh d') = mapped_size (mrh d)" unfolding e by simp_all
  moreover have "counts_ok d" using assms(1) by (simp add: daemon_ok_def)
  ultimately have "counts_ok ?e" using hc(3) g(3) by (simp add: counts_ok_def)
  moreover have "conn ?e = conn d" unfolding e by (simp add: fun_eq_iff conn_def)
  then have "owners_ok ?e" using assms(1) unfolding daemon_ok_def owners_ok_def hc(2) g(2) by (auto split: if_splits)
  ultimately show "daemon_ok ?e" using hc(1) g(1) by (simp add: daemon_ok_def)
qed

subsection \<open>One second of the monitor\<close>

definition empties :: "daemon \<Rightarrow> nat list" where
  "empties d = filter (\<lambda>i. slots d i = None) [0..<MAX_FREE_MEM_GB]"

lemma empties_count: "int (length (empties d)) = int MAX_FREE_MEM_GB - int (card (dom (slots d)))"
proof -
  have "set (empties d) = {..<MAX_FREE_MEM_GB} - dom (slots d)" by (auto simp: empties_def)
  moreover have "dom (slots d) \<subseteq> {..<MAX_FREE_MEM_GB}" using slots_bound by force
  ultimately have "card (set (empties d)) = MAX_FREE_MEM_GB - card (dom (slots d))" by (simp add: card_Diff_subset)
  moreover have "distinct (empties d)" by (simp add: empties_def)
  ultimately show ?thesis using card_slots [of d] by (simp add: distinct_card)
qed

lemma expand_monitor_ok:
  assumes "daemon_ok d" and "region_grants grant (set (empties d)) d" and "0 \<le> e" and "e \<le> int (length (empties d))"
    and "e = 0 \<longrightarrow> empties d = []"
  shows "\<exists>d' A. expand_regions [0..<MAX_FREE_MEM_GB] grant e 0 d = Inr d' \<and> clients d' = clients d \<and>
    daemon_ok (d'\<lparr>mrh := (mrh d')\<lparr>d_size_gb := d_size_gb (mrh d') + e\<rparr>\<rparr>) \<and> A \<subseteq> {i. slots d i = None} \<and> int (card A) = e \<and>
    slots (d'\<lparr>mrh := (mrh d')\<lparr>d_size_gb := d_size_gb (mrh d') + e\<rparr>\<rparr>) = (\<lambda>i. if i \<in> A then Some None else slots d i)"
proof (cases "e = 0")
  case True
  then have "empties d = []" using assms(5) by blast
  then have "\<forall>i\<in>set [0..<MAX_FREE_MEM_GB]. slots d i \<noteq> None" unfolding empties_def filter_empty_conv by blast
  then have "expand_regions [0..<MAX_FREE_MEM_GB] grant e 0 d = Inr d" using assms(1) by (intro expand_full) (auto simp: daemon_ok_def)
  then show ?thesis using assms(1) True by (intro exI [of _ d] exI [of _ "{}"]) simp
next
  case False
  have h: "heap_ok d" using assms(1) by (simp add: daemon_ok_def)
  let ?A = "set (take (nat e) (empties d))"
  obtain d' where d': "expand_regions [0..<MAX_FREE_MEM_GB] grant e 0 d = Inr d'" "grown ?A d d'"
    using expand_ok_some [OF h _ _ empties_def [of d], of e e 0 grant] assms(2-4) False by auto
  have sub: "?A \<subseteq> {i. slots d i = None}" by (auto simp: empties_def dest: in_set_takeD)
  have c: "int (card ?A) = e" using assms(3,4) by (simp add: distinct_card empties_def)
  note g = grown_daemon_ok [OF assms(1) d'(2) sub, unfolded c]
  have "clients d' = clients d" using d'(2) by (auto simp: grown_def clients_def)
  then show ?thesis using d'(1) sub c g by (intro exI [of _ d'] exI [of _ ?A]) simp
qed

lemma monitor_ok:
  assumes "daemon_ok d" and "\<forall>i\<in>lent d. time_of d i \<noteq> (0, 0)" and "\<forall>k. fst (envs k) \<and> obliging (snd (envs k))"
    and "region_grants grant (set (empties d)) d" and "0 \<le> evict_hit_count mon"
  shows "\<exists>mon' d'. monitor_step envs grant filtered mon d = Inr (mon', d') \<and> daemon_ok d' \<and> clients d' = clients d \<and> lent d' \<subseteq> lent d \<and> 0 \<le> evict_hit_count mon' \<and>
    (FREE_MEM_EVICT_THRESHOLD \<le> filtered \<longrightarrow> slots d \<subseteq>\<^sub>m slots d') \<and> (filtered \<le> FREE_MEM_EXPAND_THRESHOLD \<longrightarrow> slots d' \<subseteq>\<^sub>m slots d) \<and>
    (filtered < FREE_MEM_EVICT_THRESHOLD \<longrightarrow> int (card (dom (slots d'))) = max 0 (int (card (dom (slots d))) - (FREE_MEM_EVICT_THRESHOLD - filtered)))"
proof -
  have sz: "d_size_gb (mrh d) = int (card (dom (slots d)))" using assms(1) by (simp add: daemon_ok_def counts_ok_def)
  consider (evict) "filtered < FREE_MEM_EVICT_THRESHOLD" | (expand) "filtered > FREE_MEM_EXPAND_THRESHOLD"
      "MEM_EXPAND_HIT_THRESHOLD \<le> expand_hit_count mon + 1"
    | (idle) "\<not> filtered < FREE_MEM_EVICT_THRESHOLD" "\<not> (filtered > FREE_MEM_EXPAND_THRESHOLD \<and> MEM_EXPAND_HIT_THRESHOLD \<le> expand_hit_count mon + 1)"
    by linarith
  then show ?thesis
  proof cases
    case idle
    then show ?thesis using assms(1,5) by (auto simp: monitor_step_def Let_def)
  next
    case evict
    define stop where "stop = (if d_size_gb (mrh d) < FREE_MEM_EVICT_THRESHOLD - filtered then d_size_gb (mrh d) else FREE_MEM_EVICT_THRESHOLD - filtered)"
    have st: "stop \<le> int (card (dom (slots d)))" "0 \<le> stop"
      "int (card (dom (slots d))) - stop = max 0 (int (card (dom (slots d))) - (FREE_MEM_EVICT_THRESHOLD - filtered))"
      using evict by (auto simp: stop_def sz)
    have "\<exists>d'. (if stop > 0 then do_evict envs stop d else Inr d) = Inr d' \<and> daemon_ok d' \<and> clients d' = clients d \<and> slots d' \<subseteq>\<^sub>m slots d \<and>
        int (card (dom (slots d'))) = int (card (dom (slots d))) - stop"
    proof (cases "stop > 0")
      case True
      obtain d' A E where d': "do_evict envs stop d = Inr d'" "daemon_ok d' \<and> clients d' = clients d" "slots d' = (\<lambda>i. if i \<in> A \<union> E then None else slots d i)"
          "A \<subseteq> {i. slots d i = Some None}" "E \<subseteq> lent d" "int (card (A \<union> E)) = stop"
        using do_evict_ok [OF assms(1) True st(1) assms(2,3)] by blast
      have sub: "A \<union> E \<subseteq> dom (slots d)" using d'(4,5) by (auto simp: lent_def)
      have "dom (slots d') = dom (slots d) - (A \<union> E)" unfolding d'(3) by (auto split: if_splits)
      then have "card (dom (slots d')) = card (dom (slots d)) - card (A \<union> E)" using sub finite_subset [OF sub] by (simp only: card_Diff_subset finite_slots)
      moreover have "card (A \<union> E) \<le> card (dom (slots d))" by (rule card_mono [OF finite_slots(1) sub])
      ultimately have "int (card (dom (slots d'))) = int (card (dom (slots d))) - stop" using d'(6) by linarith
      moreover have "slots d' \<subseteq>\<^sub>m slots d" unfolding d'(3) by (auto simp: map_le_def split: if_splits)
      ultimately show ?thesis using True d'(1,2) by auto
    next
      case False
      then have "stop = 0" using st(2) by simp
      then show ?thesis using assms(1) by simp
    qed
    then obtain d' where d': "(if stop > 0 then do_evict envs stop d else Inr d) = Inr d'" "daemon_ok d' \<and> clients d' = clients d" "slots d' \<subseteq>\<^sub>m slots d"
        "int (card (dom (slots d'))) = int (card (dom (slots d))) - stop" by blast
    have "monitor_step envs grant filtered mon d = Inr (mon\<lparr>last_free_mem_g := filtered + stop, evict_hit_count := 0, expand_hit_count := 0\<rparr>, d')"
      using evict d'(1) assms(5) unfolding monitor_step_def Let_def stop_def
      by (cases "d_size_gb (mrh d) < FREE_MEM_EVICT_THRESHOLD - filtered") (simp_all split: if_splits)
    moreover have "lent d' \<subseteq> lent d" using d'(3) by (force simp: lent_def map_le_def)
    ultimately show ?thesis using d'(2-4) st(3) evict by auto
  next
    case expand
    define e where "e = (if filtered - FREE_MEM_EXPAND_THRESHOLD + d_size_gb (mrh d) > int MAX_FREE_MEM_GB then int MAX_FREE_MEM_GB - d_size_gb (mrh d)
        else filtered - FREE_MEM_EXPAND_THRESHOLD)"
    have e: "0 \<le> e" "e \<le> int (length (empties d))" "e = 0 \<longrightarrow> empties d = []"
      using expand(1) card_slots [of d] empties_count [of d] by (auto simp: e_def sz)
    obtain d' A where d': "expand_regions [0..<MAX_FREE_MEM_GB] grant e 0 d = Inr d'" "clients d' = clients d"
        "daemon_ok (d'\<lparr>mrh := (mrh d')\<lparr>d_size_gb := d_size_gb (mrh d') + e\<rparr>\<rparr>)" "A \<subseteq> {i. slots d i = None}"
        "slots (d'\<lparr>mrh := (mrh d')\<lparr>d_size_gb := d_size_gb (mrh d') + e\<rparr>\<rparr>) = (\<lambda>i. if i \<in> A then Some None else slots d i)"
      using expand_monitor_ok [OF assms(1,4) e] by blast
    have "slots d \<subseteq>\<^sub>m slots (d'\<lparr>mrh := (mrh d')\<lparr>d_size_gb := d_size_gb (mrh d') + e\<rparr>\<rparr>)" unfolding d'(5) using d'(4) by (auto simp: map_le_def)
    moreover have "monitor_step envs grant filtered mon d = Inr (mon\<lparr>last_free_mem_g := filtered - e, evict_hit_count := 0, expand_hit_count := 0\<rparr>,
        d'\<lparr>mrh := (mrh d')\<lparr>d_size_gb := d_size_gb (mrh d') + e\<rparr>\<rparr>)"
      using expand d'(1) unfolding monitor_step_def Let_def e_def
      by (cases "filtered - FREE_MEM_EXPAND_THRESHOLD + d_size_gb (mrh d) > int MAX_FREE_MEM_GB") simp_all
    moreover have "lent (d'\<lparr>mrh := (mrh d')\<lparr>d_size_gb := d_size_gb (mrh d') + e\<rparr>\<rparr>) \<subseteq> lent d" unfolding lent_def d'(5) by (auto split: if_splits)
    ultimately show ?thesis using d'(2,3) expand(1) by auto
  qed
qed

end
