(* ===== verification/Daemon_Start.thy ===== *)
theory Daemon_Start
  imports Daemon_Monitor Portal
begin

text \<open>
  The start of the daemon: the size it takes from the free memory, the invariant that \<open>rdma_session_init\<close> sets up, and
  what \<open>get_free_mem\<close> reads.
\<close>

subsection \<open>Free memory\<close>

lemma digits_skip: "\<forall>c\<in>set cs. \<not> is_digit c \<Longrightarrow> digits_value cs v = v"
  by (induction cs) (auto simp: is_digit_def)

lemma digits_append: "digits_value (cs @ ds) v = digits_value ds (digits_value cs v)"
  by (induction cs arbitrary: v) auto

lemma digits_scan: "\<forall>c\<in>set cs. is_digit c \<Longrightarrow> digits_value cs v = scan_digits cs v"
  by (induction cs arbitrary: v) (auto simp: is_digit_def mult.commute)

lemma get_free_mem_line:
  assumes "\<forall>c\<in>set pre \<union> set post. \<not> is_digit c" and "length (pre @ decimal n) \<le> 59"
  shows "get_free_mem (pre @ decimal n @ post) = int n"
proof -
  have t: "take 59 (pre @ decimal n @ post) = pre @ decimal n @ take (59 - length (pre @ decimal n)) post"
    using assms(2) by simp
  have "digits_value (decimal n) 0 = int n"
    using digits_scan [OF decimal_is_digit, of n 0] scan_digits_decimal [of "[]" n] by (simp add: no_digit_def)
  moreover have "\<forall>c\<in>set (take k post). \<not> is_digit c" for k using assms(1) set_take_subset by fastforce
  ultimately show ?thesis
    using assms(1) unfolding get_free_mem_def t by (simp add: digits_append digits_skip)
qed

lemma initial_size_bounds:
  "0 \<le> initial_size f" "initial_size f \<le> int MAX_FREE_MEM_GB" "0 < initial_size f \<Longrightarrow> FREE_MEM_EVICT_THRESHOLD \<le> f - initial_size f"
  unfolding initial_size_def Let_def by auto

subsection \<open>The regions\<close>

definition static_arrays :: "rdma_mr_handler \<Rightarrow> bool" where
  "static_arrays h \<longleftrightarrow> length (region_list h) = MAX_FREE_MEM_GB \<and> length (mr_list h) = MAX_FREE_MEM_GB \<and>
     length (client_rb_idx h) = MAX_FREE_MEM_GB \<and> length (d_replica_index h) = MAX_FREE_MEM_GB"

definition cleared :: "daemon \<Rightarrow> daemon" where
  "cleared d = d\<lparr>mrh := (mrh d)\<lparr>rb_owner := replicate MAX_FREE_MEM_GB (- 1), malloc_map := replicate MAX_FREE_MEM_GB RB_EMPTY\<rparr>\<rparr>"

lemma cleared_ok: "static_arrays (mrh d) \<Longrightarrow> heap_ok (cleared d)" "slots (cleared d) = (\<lambda>i. None)" "lent (cleared d) = {}"
proof -
  show s: "slots (cleared d) = (\<lambda>i. None)" by (simp add: fun_eq_iff slots_def cleared_def)
  then show l: "lent (cleared d) = {}" by (simp add: lent_def)
  show "heap_ok (cleared d)" if "static_arrays (mrh d)"
    using that unfolding heap_ok_def s l by (simp add: arrays_ok_def static_arrays_def cleared_def)
qed

lemma regions_start:
  assumes "static_arrays (mrh d)" and "n \<le> MAX_FREE_MEM_GB" and "region_grants grant {..<n} d"
  shows "\<exists>d'. foldM (new_region grant) [0..<n] (cleared d) = Inr d' \<and> heap_ok d' \<and>
    slots d' = (\<lambda>i. if i < n then Some None else None) \<and> lent d' = {} \<and> rping_cbs d' = rping_cbs d"
proof -
  let ?I = "\<lambda>j s. heap_ok s \<and> slots s = (\<lambda>i. if i < j then Some None else None) \<and> lent s = {} \<and> rping_cbs s = rping_cbs d \<and>
    region_grants grant {j..<n} s"
  have "?I 0 (cleared d)" using assms cleared_ok by (auto simp: region_grants_def cleared_def inj_on_def)
  moreover have "\<exists>s'. new_region grant ([0..<n] ! j) s = Inr s' \<and> ?I (Suc j) s'" if j: "j < length [0..<n]" and I: "?I j s" for j s
  proof -
    have "insert j {Suc j..<n} = {j..<n}" using j by auto
    then have g: "region_grants grant (insert j {Suc j..<n}) s" using I by simp
    have "j < MAX_FREE_MEM_GB" "slots s j = None" using j assms(2) I by auto
    note a = added_ok [OF _ this g]
    have f: "(\<lambda>i. if i < j then Some None else None)(j \<mapsto> None) = (\<lambda>i. if i < Suc j then Some None else None)"
      by (auto simp: fun_eq_iff less_Suc_eq)
    show ?thesis using a I j f by (intro exI [of _ "added grant j s"]) (simp add: added_def)
  qed
  ultimately show ?thesis using foldM_invariant [of ?I "cleared d" "[0..<n]" "new_region grant"] by auto
qed

subsection \<open>The connections to the other nodes\<close>

lemma mig_start:
  assumes "mig_cb_list d = replicate k NULL" and "mig_cb_state_list d = replicate k D_CB_IDLE" and "inj_on mig {..<k}" and "\<forall>i<k. mig i \<noteq> NULL"
  shows "\<exists>d'. foldM (mig_cb_init mig self) [0..<k] d = Inr d' \<and> mrh d' = mrh d \<and> regions d' = regions d \<and> ibv_mrs d' = ibv_mrs d \<and>
    d_cb_list d' = d_cb_list d \<and> d_cb_state_list d' = d_cb_state_list d \<and> mig_cb_list d' = map mig [0..<k] \<and>
    (\<forall>i<k. rping_cbs d' (mig i) = Some (blank_rcb\<lparr>d_cb_index := int i\<rparr>))"
proof -
  let ?I = "\<lambda>j s. mrh s = mrh d \<and> regions s = regions d \<and> ibv_mrs s = ibv_mrs d \<and> d_cb_list s = d_cb_list d \<and>
    d_cb_state_list s = d_cb_state_list d \<and> mig_cb_list s = map mig [0..<j] @ replicate (k - j) NULL \<and>
    length (mig_cb_state_list s) = k \<and> (\<forall>i<j. rping_cbs s (mig i) = Some (blank_rcb\<lparr>d_cb_index := int i\<rparr>))"
  have "?I 0 d" using assms by simp
  moreover have "\<exists>s'. mig_cb_init mig self ([0..<k] ! j) s = Inr s' \<and> ?I (Suc j) s'" if j: "j < length [0..<k]" and I: "?I j s" for j s
  proof -
    obtain r where r: "k - j = Suc r" "k - Suc j = r" using j by (cases "k - j") auto
    have "mig i \<noteq> mig j" if "i < j" for i using assms(3) that j by (simp add: inj_on_eq_iff)
    moreover have "mig_cb_init mig self j s = Inr (s\<lparr>mig_cb_list := (mig_cb_list s)[j := mig j],
        mig_cb_state_list := (mig_cb_state_list s)[j := D_CB_IDLE], rping_cbs := (rping_cbs s)(mig j \<mapsto> blank_rcb\<lparr>d_cb_index := int j\<rparr>),
        my_index := (if self j then int j else my_index s)\<rparr>)"
      using I j assms(4) by (simp add: mig_cb_init_def cong: if_cong)
    moreover have "(mig_cb_list s)[j := mig j] = map mig [0..<Suc j] @ replicate (k - Suc j) NULL"
      using I r by (simp add: list_update_append)
    ultimately show ?thesis using I j by (simp add: less_Suc_eq all_conj_distrib)
  qed
  ultimately show ?thesis using foldM_invariant [of ?I d "[0..<k]" "mig_cb_init mig self"] by auto
qed

subsection \<open>The session\<close>

lemma session_init_ok:
  assumes "static_arrays (mrh d)" and "n = nat (initial_size (get_free_mem line div ONE_MB))" and "region_grants grant {..<n} d"
    and "inj_on mig {..<k}" and "\<forall>i<k. mig i \<noteq> NULL"
  shows "\<exists>d'. rdma_session_init line grant mig self k d = Inr d' \<and> daemon_ok d' \<and>
    slots d' = (\<lambda>i. if i < n then Some None else None) \<and> clients d' = (replicate MAX_CLIENT NULL, replicate MAX_CLIENT D_CB_IDLE) \<and>
    (\<forall>i<k. mig_cb_list d' ! i = mig i \<and> rping_cbs d' (mig i) = Some (blank_rcb\<lparr>d_cb_index := int i\<rparr>))"
proof -
  let ?f = "initial_size (get_free_mem line div ONE_MB)"
  have n: "n \<le> MAX_FREE_MEM_GB" "?f = int n" using assms(2) initial_size_bounds [of "get_free_mem line div ONE_MB"] by auto
  obtain d1 where d1: "foldM (new_region grant) [0..<n] (cleared d) = Inr d1" "heap_ok d1" "slots d1 = (\<lambda>i. if i < n then Some None else None)"
    "lent d1 = {}" using regions_start [OF assms(1) n(1) assms(3)] by blast
  let ?d2 = "d1\<lparr>mrh := (mrh d1)\<lparr>d_size_gb := int n, mapped_size := 0\<rparr>, d_cb_list := replicate MAX_CLIENT NULL,
    d_cb_state_list := replicate MAX_CLIENT D_CB_IDLE, mig_cb_list := replicate k NULL, mig_cb_state_list := replicate k D_CB_IDLE\<rparr>"
  have v2: "heap_ok ?d2" "slots ?d2 = slots d1" "lent ?d2 = {}"
    using heap_cong [where d' = ?d2 and d = d1 and n = "int n" and k = 0] d1(2,4) by simp_all
  obtain d3 where d3: "foldM (mig_cb_init mig self) [0..<k] ?d2 = Inr d3" "mrh d3 = mrh ?d2" "regions d3 = regions ?d2" "ibv_mrs d3 = ibv_mrs ?d2"
    "d_cb_state_list d3 = d_cb_state_list ?d2" "d_cb_list d3 = d_cb_list ?d2" "mig_cb_list d3 = map mig [0..<k]" "\<forall>i<k. rping_cbs d3 (mig i) = Some (blank_rcb\<lparr>d_cb_index := int i\<rparr>)"
    using mig_start [of ?d2 k mig self] assms(4,5) by auto
  have v3: "heap_ok d3" "slots d3 = slots d1" "lent d3 = {}" using view_cong [OF d3(2-4)] v2 by simp_all
  have "dom (slots d3) = {..<n}" unfolding v3(2) d1(3) by (auto simp: dom_def)
  then have "daemon_ok d3"
    using v3 by (auto simp: daemon_ok_def counts_ok_def owners_ok_def lent_def d3(2))
  moreover have "clients d3 = (replicate MAX_CLIENT NULL, replicate MAX_CLIENT D_CB_IDLE)" unfolding clients_def d3(5,6) by simp
  moreover have "rdma_session_init line grant mig self k d = Inr d3"
    using d1(1) d3(1) n(2) by (simp add: rdma_session_init_def Let_def flip: cleared_def)
  ultimately show ?thesis using v3(2) d1(3) d3(7,8) by auto
qed

end
