(* ===== verification/Lease.thy ===== *)
theory Lease
  imports Daemon_Start Block_Map
begin

text \<open>
  The two ends of the control connection together: the block device (rdmabox.c) and the daemon (daemon.c). What the daemon
  posts is what the block device receives, and the other way round.
\<close>

subsection \<open>A block is lent\<close>

lemma lent_reply_map:
  assumes "msg_ok m" and "i < MAX_FREE_MEM_GB" and "snd reg \<noteq> 0" and "m_size_gb rm = int g" and "g < SWAPSPACE_SIZE_G" and "m_replica_index rm = 0"
  shows "map_reply (lent_reply False me reg p i rm m) g i"
    "ntohl (m_rkey (lent_reply False me reg p i rm m) ! i) = snd reg"
    "ntohll (m_buf (lent_reply False me reg p i rm m) ! i) = of_nat p"
  using assms by (simp_all add: map_reply_def lent_reply_def msg_ok_def htonl_nonzero)

text \<open>
  With every region in use or empty, the daemon still answers and counts a block as lent; the block device places nothing, and
  yet has its node in the state that a block was mapped.
\<close>

lemma nothing_lent_run:
  assumes "heap_ok d" and "conn d x c cb" and "m_type rm = REQ_MR_MAP" and "\<forall>i. slots d i \<noteq> Some None" and "de_sent env"
  shows "\<exists>d' m. receive env x rm d = Inr d' \<and> slots d' = slots d \<and> d_posted d' = d_posted d @ [D_Send x m] \<and>
    mapped_size (mrh d') = mapped_size (mrh d) + 1 \<and> m_type m = RESP_MR_MAP \<and> m_rkey m = replicate MAX_MR_SIZE_GB 0"
proof -
  obtain m where m: "d_send_buf cb = Some m" "msg_ok m" using assms(2) by (auto simp: conn_def)
  define m1 where "m1 = m\<lparr>m_rkey := replicate MAX_FREE_MEM_GB 0, m_size_gb := m_size_gb rm, m_replica_index := m_replica_index rm, m_type := RESP_MR_MAP\<rparr>"
  define d1 where "d1 = set_rcb x (cb\<lparr>d_recv_buf := Some rm, d_send_buf := Some m1\<rparr>) (d\<lparr>mrh := (mrh d)\<lparr>mapped_size := mapped_size (mrh d) + 1\<rparr>\<rparr>)"
  let ?d0 = "set_rcb x (cb\<lparr>d_recv_buf := Some rm\<rparr>) d"
  have "heap_ok ?d0" "\<forall>i. slots ?d0 i \<noteq> Some None" using assms(1,4) by simp_all
  note f = find_free_none [OF this]
  have prep: "prepare_single_mr (de_reg env) x False ?d0 = Inr (int MAX_FREE_MEM_GB, d1)"
    using f m clear_keys [of m]
    by (simp add: prepare_single_mr_def get_rcb_def buf_get_def msg_ok_def d1_def m1_def) (simp add: set_rcb_def)
  have c: "rping_cbs d x = Some cb" "d_cb_index cb = int c" "c < length (d_cb_state_list d)" using assms(2) by (simp_all add: conn_def)
  let ?d' = "d1\<lparr>d_posted := d_posted d @ [D_Send x m1], d_cb_state_list := (d_cb_state_list d)[c := D_CB_MAPPED]\<rparr>"
  have "receive env x rm d = Inr ?d'"
    using prep c assms(3,5) by (simp add: receive_def handle_recv_def get_rcb_def buf_get_def post_send_def) (simp add: d1_def)
  moreover have "slots ?d' = slots d" by (rule slots_cong) (simp_all add: d1_def)
  ultimately show ?thesis by (intro exI [of _ ?d'] exI [of _ m1]) (simp add: d1_def m1_def)
qed

lemma nothing_mapped:
  assumes "c < length (cb_list S)" and "c < length (cb_state_list S)" and "cb_index (cb_list S ! c) = int c" and "connected (cb_list S ! c)"
    and "m_type m = RESP_MR_MAP" and "m_rkey m = replicate MAX_MR_SIZE_GB 0"
  shows "\<exists>S'. recv_completion k (int c, m) S = Inr S' \<and> placement S' = placement S \<and> cb_st (cb_list S' ! c) = RECV_MR_MAP \<and>
    cb_state_list S' = (cb_state_list S)[c := CB_MAPPED]"
proof -
  let ?S = "S\<lparr>cb_state_list := (cb_state_list S)[c := CB_MAPPED], cb_list := (cb_list S)[c := (cb_list S ! c)\<lparr>recv_buf := m, cb_st := RECV_MR_MAP\<rparr>]\<rparr>"
  have "valet_remote_block_init k (int c) ?S = Inr ?S"
    unfolding valet_remote_block_init_def using remote_block_init_skip [of c ?S "[0..<MAX_MR_SIZE_GB]" k "[]"] assms(1,6) by simp
  then have "recv_completion k (int c, m) S = Inr ?S"
    using assms(1-5) by (simp add: recv_completion_def recv_msg_handler_def connected_def get_node_def set_node_def)
  then show ?thesis using assms(1) by (intro exI [of _ ?S]) (simp add: placement_def fun_eq_iff)
qed

subsection \<open>A query\<close>

lemma sint_low: "sint (w :: u32) mod 4294967296 = uint w"
proof -
  have "take_bit 32 (sint w) = uint w" using uint_sint [of w] by simp
  then show ?thesis by (simp add: take_bit_eq_mod)
qed

lemma low_half: "uint (ucast (s :: u64) :: u32) = uint s mod 4294967296"
  by (simp add: unsigned_ucast_eq take_bit_eq_mod)

lemma high_half: "uint (ucast (drop_bit 32 (s :: u64)) :: u32) = uint s div 4294967296"
proof -
  have "0 \<le> uint s div 4294967296" "uint s div 4294967296 < 4294967296"
    using uint_bounded [of s] by (simp_all add: div_less_iff_less_mult pos_imp_zdiv_nonneg_iff)
  then have "uint s div 4294967296 mod 4294967296 = uint s div 4294967296" by (rule mod_pos_pos_trivial)
  then show ?thesis unfolding low_half by (simp add: drop_bit_eq_div uint_div)
qed

lemma query_sum_overlay: "query_sum (query_overlay q m) = uint (q_sum q)"
proof -
  have "query_sum (query_overlay q m) = sint (ucast (q_sum q) :: u32) mod 4294967296 +
      4294967296 * (sint (ucast (drop_bit 32 (q_sum q)) :: u32) mod 4294967296)"
    by (simp add: query_sum_def query_overlay_def)
  then show ?thesis unfolding sint_low high_half low_half [of "q_sum q"] by simp
qed

lemma recv_query_answer:
  assumes "c < length (cb_list S)" and "connected (cb_list S ! c)" and "m_type m = RESP_QUERY"
  shows "recv_completion k (int c, m) S = Inr (S\<lparr>cb_list := (cb_list S)[c := (cb_list S ! c)\<lparr>recv_buf := m,
    rbh := (rbh (cb_list S ! c))\<lparr>target_size_gb := m_size_gb m, age_sum := query_sum m\<rparr>, cb_st := RECV_QUERY_REPL\<rparr>]\<rparr>)"
  using assms by (simp add: recv_completion_def recv_msg_handler_def connected_def get_node_def set_node_def)

subsection \<open>A block is called back\<close>

lemma evict_prep_ok:
  fixes cb :: kernel_cb
  assumes "length (m_rkey (recv_buf cb)) = MAX_MR_SIZE_GB" and "length (mig_rb_idx (rbh cb)) = MAX_MR_SIZE_GB"
  shows "evict_handler_prep cb = Inr (cb\<lparr>rbh := (rbh cb)\<lparr>client_swapspace_index := m_size_gb (recv_buf cb), src_cb_index := m_cb_index (recv_buf cb),
      src_rb_index := m_rb_index (recv_buf cb), rbh_replica_index := m_replica_index (recv_buf cb),
      mig_rb_idx := map (\<lambda>key. key \<noteq> 0) (m_rkey (recv_buf cb))\<rparr>\<rparr>)"
proof -
  let ?k = "m_rkey (recv_buf cb)"
  define cb1 where "cb1 = cb\<lparr>rbh := (rbh cb)\<lparr>client_swapspace_index := m_size_gb (recv_buf cb), src_cb_index := m_cb_index (recv_buf cb),
      src_rb_index := m_rb_index (recv_buf cb), rbh_replica_index := m_replica_index (recv_buf cb)\<rparr>\<rparr>"
  define b where "b j = cb1\<lparr>rbh := (rbh cb1)\<lparr>mig_rb_idx := map (\<lambda>key. key \<noteq> 0) (take j ?k) @ drop j (mig_rb_idx (rbh cb))\<rparr>\<rparr>" for j
  have "bind_ok (arr_get ?k j) (\<lambda>key. set_mig j (key \<noteq> 0) (b j)) = Inr (b (Suc j))" if j: "j < MAX_MR_SIZE_GB" for j
  proof -
    have "drop j (mig_rb_idx (rbh cb)) = mig_rb_idx (rbh cb) ! j # drop (Suc j) (mig_rb_idx (rbh cb))"
      using assms(2) j by (simp add: Cons_nth_drop_Suc)
    then show ?thesis using assms j
      by (simp add: set_mig_def b_def take_Suc_conv_app_nth list_update_append arr_set_def arr_get_def)
  qed
  then have "foldM (\<lambda>i cb. bind_ok (arr_get ?k i) (\<lambda>key. set_mig i (key \<noteq> 0) cb)) [0..<MAX_MR_SIZE_GB] (b 0) = Inr (b MAX_MR_SIZE_GB)"
    by (rule foldM_upt [where b = b])
  moreover have "b 0 = cb1" by (simp add: b_def cb1_def)
  ultimately show ?thesis using assms by (simp add: evict_handler_prep_def b_def cb1_def Let_def)
qed

lemma delete_message_ok:
  assumes "length (mig_rb_idx (rbh cb)) = MAX_MR_SIZE_GB" and "length (m_rkey (send_buf cb)) = MAX_MR_SIZE_GB"
  shows "delete_rb_message cb = Inr (cb\<lparr>send_buf := (send_buf cb)\<lparr>m_rkey := map (\<lambda>m. if m then 1 else 0) (mig_rb_idx (rbh cb)), m_type := DELETE_RB\<rparr>\<rparr>)"
proof -
  define b where "b j = map (\<lambda>m. if m then 1 else 0) (take j (mig_rb_idx (rbh cb))) @ drop j (m_rkey (send_buf cb))" for j
  have "bind_ok (arr_get (mig_rb_idx (rbh cb)) j) (\<lambda>m. arr_set (b j) j (if m then 1 else 0)) = Inr (b (Suc j))" if j: "j < MAX_MR_SIZE_GB" for j
  proof -
    have "drop j (m_rkey (send_buf cb)) = m_rkey (send_buf cb) ! j # drop (Suc j) (m_rkey (send_buf cb))"
      using assms(2) j by (simp add: Cons_nth_drop_Suc)
    then show ?thesis using assms j by (simp add: b_def take_Suc_conv_app_nth list_update_append arr_set_def arr_get_def)
  qed
  then have "foldM (\<lambda>i ks. bind_ok (arr_get (mig_rb_idx (rbh cb)) i) (\<lambda>m. arr_set ks i (if m then 1 else 0))) [0..<MAX_MR_SIZE_GB] (b 0) =
      Inr (b MAX_MR_SIZE_GB)"
    by (rule foldM_upt [where b = b])
  then show ?thesis using assms by (simp add: delete_rb_message_def b_def)
qed

lemma asked_for:
  assumes "names_block m i" and "m_rkey m' = map (\<lambda>b. if b then 1 else 0) (map (\<lambda>key. key \<noteq> 0) (m_rkey m))"
  shows "names_block m' i"
  using assms by (auto simp: names_block_def)

lemma recv_evict:
  assumes "c < length (cb_list S)" and "connected (cb_list S ! c)" and "tables_ok (cb_list S ! c)" and "m_type m = EVICT"
    and "length (m_rkey m) = MAX_MR_SIZE_GB"
  shows "recv_completion k (int c, m) S = Inr (S\<lparr>cb_list := (cb_list S)[c := (cb_list S ! c)\<lparr>recv_buf := m, cb_st := RECV_EVICT,
    rbh := (rbh (cb_list S ! c))\<lparr>client_swapspace_index := m_size_gb m, src_cb_index := m_cb_index m, src_rb_index := m_rb_index m,
      rbh_replica_index := m_replica_index m, mig_rb_idx := map (\<lambda>key. key \<noteq> 0) (m_rkey m), c_state := RBH_EVICT\<rparr>\<rparr>]\<rparr>)"
proof -
  let ?cb = "(cb_list S ! c)\<lparr>recv_buf := m, cb_st := RECV_EVICT\<rparr>"
  have "evict_handler_prep ?cb = Inr (?cb\<lparr>rbh := (rbh ?cb)\<lparr>client_swapspace_index := m_size_gb m, src_cb_index := m_cb_index m,
      src_rb_index := m_rb_index m, rbh_replica_index := m_replica_index m, mig_rb_idx := map (\<lambda>key. key \<noteq> 0) (m_rkey m)\<rparr>\<rparr>)"
    using evict_prep_ok [of ?cb] assms(3,5) by (simp add: tables_ok_def)
  then show ?thesis using assms(1,2,4)
    by (simp add: recv_completion_def recv_msg_handler_def connected_def get_node_def set_node_def)
qed

text \<open>The daemon asks for a block, the block device names it in its answer, the daemon takes it back.\<close>

lemma eviction_round_ok:
  assumes "daemon_ok d" and "conn d y c cb" and "slots d i = Some (Some (int c))" and "n < length (cb_list S)" and "connected (cb_list S ! n)"
    and "tables_ok (cb_list S ! n)" and "length (m_rkey (send_buf (cb_list S ! n))) = MAX_MR_SIZE_GB"
  shows "\<exists>d1 m S1 ncb d2. send_evict True y (int i) rb me d = Inr d1 \<and> d_posted d1 = d_posted d @ [D_Send y m] \<and>
    recv_completion k (int n, m) S = Inr S1 \<and> client_swapspace_index (rbh (cb_list S1 ! n)) = rb \<and> src_rb_index (rbh (cb_list S1 ! n)) = int i \<and>
    delete_rb_message (cb_list S1 ! n) = Inr ncb \<and> receive env y (send_buf ncb) d1 = Inr d2 \<and>
    daemon_ok d2 \<and> slots d2 = (slots d)(i := None)"
proof -
  have h: "heap_ok d" "owners_ok d" "counts_ok d" using assms(1) by (simp_all add: daemon_ok_def)
  have il: "i \<in> lent d" using assms(3) by (auto simp: lent_def)
  have ib: "i < MAX_FREE_MEM_GB" using slots_bound [of d i] assms(3) by simp
  obtain m where m: "d_send_buf cb = Some m" "msg_ok m" using assms(2) by (auto simp: conn_def)
  obtain mr where mr: "ibv_mrs d (mr_list (mrh d) ! i) = Some mr" "mr_rkey mr \<noteq> 0" using h(1) il unfolding heap_ok_def by blast
  define m1 where "m1 = evict_msg rb me i mr (d_replica_index (mrh d) ! i) m"
  define cb1 where "cb1 = cb\<lparr>d_send_buf := Some m1\<rparr>"
  define d1 where "d1 = (set_rcb y cb1 d)\<lparr>d_posted := d_posted d @ [D_Send y m1]\<rparr>"
  have send: "send_evict True y (int i) rb me d = Inr d1"
    unfolding d1_def cb1_def m1_def by (rule send_evict_ok [OF h(1) assms(2) m(1) il mr(1)])
  have "owners_ok (set_rcb y cb1 d) \<and> conn (set_rcb y cb1 d) y c cb1"
    using owners_keep [OF h(2) assms(2), of "set_rcb y cb1 d" cb1] assms(2) m(2) by (auto simp: cb1_def m1_def conn_def evict_msg_def msg_ok_def)
  then have d1: "daemon_ok d1" "conn d1 y c cb1" "slots d1 = slots d" using h by (simp_all add: d1_def daemon_ok_def)
  have names: "names_block m1 i" "m_type m1 = EVICT" using evict_msg_names [OF ib mr(2)] by (simp_all add: m1_def)
  obtain S1 where S1: "recv_completion k (int n, m1) S = Inr S1" "S1 = S\<lparr>cb_list := (cb_list S)[n := (cb_list S ! n)\<lparr>recv_buf := m1, cb_st := RECV_EVICT,
    rbh := (rbh (cb_list S ! n))\<lparr>client_swapspace_index := m_size_gb m1, src_cb_index := m_cb_index m1, src_rb_index := m_rb_index m1,
      rbh_replica_index := m_replica_index m1, mig_rb_idx := map (\<lambda>key. key \<noteq> 0) (m_rkey m1), c_state := RBH_EVICT\<rparr>\<rparr>]\<rparr>"
    using recv_evict [OF assms(4-6) names(2)] names(1) by (simp add: names_block_def)
  then have f: "client_swapspace_index (rbh (cb_list S1 ! n)) = rb" "src_rb_index (rbh (cb_list S1 ! n)) = int i"
    "mig_rb_idx (rbh (cb_list S1 ! n)) = map (\<lambda>key. key \<noteq> 0) (m_rkey m1)" "send_buf (cb_list S1 ! n) = send_buf (cb_list S ! n)"
    using assms(4) by (simp_all add: m1_def evict_msg_def)
  obtain ncb where n: "delete_rb_message (cb_list S1 ! n) = Inr ncb" "m_type (send_buf ncb) = DELETE_RB"
      "m_rkey (send_buf ncb) = map (\<lambda>b. if b then 1 else 0) (map (\<lambda>key. key \<noteq> 0) (m_rkey m1))"
    using delete_message_ok [of "cb_list S1 ! n"] f(3,4) assms(7) names(1) by (simp add: names_block_def)
  obtain d2 where d2: "receive env y (send_buf ncb) d1 = Inr d2" "daemon_ok d2" "slots d2 = (slots d)(i := None)"
    using delete_ok [OF d1(1,2) n(2) asked_for [OF names(1) n(3)], of env] assms(3) d1(3) by auto
  have "d_posted d1 = d_posted d @ [D_Send y m1]" by (simp add: d1_def)
  then show ?thesis using send S1(1) f(1,2) n(1) d2 by blast
qed

end
