(* ===== verification/Daemon_Steps.thy ===== *)
theory Daemon_Steps
  imports Daemon_Start
begin

text \<open>
  The daemon as a state machine: clients connect, their messages arrive, their writes stamp the regions, the monitor runs. Every
  event the daemon has to expect is handled, and keeps its invariant.
\<close>

subsection \<open>A new client\<close>

text \<open>The slot of a client that was never there is marked idle; a region is never lent to such a slot.\<close>

definition idle_free :: "daemon \<Rightarrow> bool" where
  "idle_free d \<longleftrightarrow> (\<forall>i c. slots d i = Some (Some c) \<longrightarrow> d_cb_state_list d ! nat c \<noteq> D_CB_IDLE)"

definition live :: "daemon \<Rightarrow> bool" where
  "live d \<longleftrightarrow> daemon_ok d \<and> idle_free d \<and> length (d_cb_list d) = MAX_CLIENT \<and> length (d_cb_state_list d) = MAX_CLIENT"

definition accepted :: "accept_env \<Rightarrow> daemon \<Rightarrow> bool" where
  "accepted ae d \<longleftrightarrow> fst (ae_cb ae) \<noteq> NULL \<and> rping_cbs d (fst (ae_cb ae)) = None \<and> ae_server_qp ae = 0 \<and> ae_qp ae = 0 \<and> ae_accept ae = 0 \<and>
     (\<exists>r m. ae_bufs ae = Some (r, m) \<and> msg_ok m)"

lemma add_client_first:
  assumes "rping_cbs d x = Some cb" and "length (d_cb_list d) = MAX_CLIENT" and "length (d_cb_state_list d) = MAX_CLIENT"
    and "\<forall>j\<in>set js. d_cb_state_list d ! j \<noteq> D_CB_IDLE \<and> j < MAX_CLIENT" and "d_cb_state_list d ! i = D_CB_IDLE" and "i < MAX_CLIENT"
  shows "add_client (js @ i # is) x d = Inr (set_rcb x (cb\<lparr>d_cb_index := int i\<rparr>)
    (d\<lparr>d_cb_list := (d_cb_list d)[i := x], d_cb_state_list := (d_cb_state_list d)[i := D_CB_CONNECTED]\<rparr>))"
  using assms by (induction js) (simp_all add: get_rcb_def)

lemma first_idle:
  assumes "D_CB_IDLE \<in> set l" and "length l = MAX_CLIENT"
  obtains i js "is" where "[0..<MAX_CLIENT] = js @ i # is" "l ! i = D_CB_IDLE" "i < MAX_CLIENT" "\<forall>j\<in>set js. l ! j \<noteq> D_CB_IDLE \<and> j < MAX_CLIENT"
proof -
  define i where "i = (LEAST i. i < MAX_CLIENT \<and> l ! i = D_CB_IDLE)"
  obtain k where k: "k < MAX_CLIENT \<and> l ! k = D_CB_IDLE" using assms by (metis in_set_conv_nth)
  have i: "i < MAX_CLIENT \<and> l ! i = D_CB_IDLE" unfolding i_def using k by (rule LeastI [where P = "\<lambda>i. i < MAX_CLIENT \<and> l ! i = D_CB_IDLE"])
  have "l ! j \<noteq> D_CB_IDLE" if "j < i" for j using not_less_Least [OF that [unfolded i_def]] that i by auto
  moreover have "[0..<MAX_CLIENT] = [0..<i] @ i # [Suc i..<MAX_CLIENT]"
    using i by (metis upt_add_eq_append upt_conv_Cons le_add_diff_inverse less_imp_le zero_le)
  ultimately show thesis using i that by auto
qed

lemma connect_ok:
  assumes "live d" and "accepted ae d" and "D_CB_IDLE \<in> set (d_cb_state_list d)"
  shows "\<exists>d' i cb. setup_connection ae (- 1) d = Inr d' \<and> live d' \<and> slots d' = slots d \<and> d_cb_state_list d ! i = D_CB_IDLE \<and>
    conn d' (fst (ae_cb ae)) i cb"
proof -
  have h: "heap_ok d" "counts_ok d" "owners_ok d" "idle_free d" "length (d_cb_list d) = MAX_CLIENT" "length (d_cb_state_list d) = MAX_CLIENT"
    using assms(1) by (simp_all add: live_def daemon_ok_def)
  obtain i js "is" where i: "[0..<MAX_CLIENT] = js @ i # is" "d_cb_state_list d ! i = D_CB_IDLE" "i < MAX_CLIENT"
    "\<forall>j\<in>set js. d_cb_state_list d ! j \<noteq> D_CB_IDLE \<and> j < MAX_CLIENT" by (rule first_idle [OF assms(3) h(6)])
  obtain r m where b: "ae_bufs ae = Some (r, m)" "msg_ok m" using assms(2) by (auto simp: accepted_def)
  let ?x = "fst (ae_cb ae)" and ?cb = "snd (ae_cb ae)"
  let ?cb1 = "?cb\<lparr>d_server := True, d_rb_idx_map := replicate MAX_FREE_MEM_GB (- 1), d_evict_sem := 0,
    d_migrbh := (d_migrbh ?cb)\<lparr>migration_sem := 0\<rparr>\<rparr>"
  let ?cb2 = "?cb1\<lparr>d_cb_index := int i, d_recv_buf := Some r, d_send_buf := Some m\<rparr>"
  let ?d1 = "d\<lparr>d_cb_list := (d_cb_list d)[i := ?x], d_cb_state_list := (d_cb_state_list d)[i := D_CB_CONNECTED]\<rparr>"
  let ?d = "set_rcb ?x ?cb2 ?d1"
  have a: "fst (ae_cb ae) \<noteq> NULL" "rping_cbs d ?x = None" "ae_server_qp ae = 0" "ae_qp ae = 0" "ae_accept ae = 0"
    using assms(2) by (simp_all add: accepted_def)
  have "add_client [0..<MAX_CLIENT] ?x (set_rcb ?x ?cb1 d) = Inr (set_rcb ?x (?cb1\<lparr>d_cb_index := int i\<rparr>) ?d1)"
    unfolding i(1) using add_client_first [of "set_rcb ?x ?cb1 d" ?x ?cb1 js i "is"] h(5,6) i(2-4)
    by (simp add: set_rcb_def)
  then have run: "setup_connection ae (- 1) d = Inr ?d"
    using a b(1) unfolding setup_connection_def Let_def by (simp add: get_rcb_def) (simp add: set_rcb_def)
  have v: "slots ?d1 = slots d" "heap_ok ?d1 = heap_ok d" "counts_ok ?d1 = counts_ok d" using view_cong [of ?d1 d] by simp_all
  have cn: "conn ?d ?x i ?cb2" using h(5,6) i(3) b(2) by (simp add: conn_def)
  have keep: "conn ?d y k c" if "conn d y k c" "k \<noteq> i" for y k c using that a(2) by (auto simp: conn_def)
  have ne: "nat k \<noteq> i" if "slots d j = Some (Some k)" for j k using h(4) i(2) that by (auto simp: idle_free_def)
  have "owners_ok ?d" unfolding owners_ok_def
  proof (intro allI impI)
    fix j k assume "slots ?d j = Some (Some k)"
    then have k: "slots d j = Some (Some k)" using v(1) by simp
    then obtain y c where "0 \<le> k" "conn d y (nat k) c" "d_rb_idx_map c ! j = int j" using h(3) unfolding owners_ok_def by blast
    then show "\<exists>y c. 0 \<le> k \<and> conn ?d y (nat k) c \<and> d_rb_idx_map c ! j = int j" using keep ne [OF k] by blast
  qed
  then have "daemon_ok ?d" using v h by (simp add: daemon_ok_def)
  moreover have "idle_free ?d" using h(4,6) i(3) unfolding idle_free_def by (simp add: v nth_list_update)
  ultimately have "live ?d" using h(5,6) by (simp add: live_def)
  then show ?thesis using run cn i(2) v(1) by (intro exI [of _ ?d] exI [of _ i] exI [of _ ?cb2]) simp
qed

subsection \<open>The events\<close>

datatype daemon_event =
    Client_Connects accept_env
  | Message_Arrives daemon_env ptr message
  | Time_Written nat "int \<times> int"
  | Second_Passes "nat \<Rightarrow> bool \<times> reaction" "nat \<Rightarrow> ptr" int monitor

fun run_event :: "daemon_event \<Rightarrow> daemon \<Rightarrow> daemon outcome" where
  "run_event (Client_Connects ae) d = setup_connection ae (- 1) d"
| "run_event (Message_Arrives env x m) d = receive env x m d"
| "run_event (Time_Written i tv) d = Inr (d\<lparr>regions := (regions d)(region_list (mrh d) ! i \<mapsto> tv)\<rparr>)"
| "run_event (Second_Passes envs grant filtered mon) d = bind_ok (monitor_step envs grant filtered mon d) (\<lambda>(mon, d). Inr d)"

text \<open>
  What the environment may do: a client connects while there is a slot for it; it sends queries, mapping requests while a region is
  free, and deletions of what it holds, in well-formed messages; it stamps what it holds.
\<close>

definition admissible_message :: "daemon_env \<Rightarrow> nat \<Rightarrow> message \<Rightarrow> daemon \<Rightarrow> bool" where
  "admissible_message env c m d \<longleftrightarrow> de_sent env \<and>
     (m_type m = REQ_QUERY \<or>
      m_type m = REQ_MR_MAP \<and> (\<exists>i. slots d i = Some None) \<and> fst (de_reg env) \<noteq> NULL \<and> ibv_mrs d (fst (de_reg env)) = None \<and> snd (de_reg env) \<noteq> 0 \<or>
      m_type m = DELETE_RB \<and> (\<exists>i. names_block m i \<and> slots d i = Some (Some (int c))))"

fun admissible :: "daemon_event \<Rightarrow> daemon \<Rightarrow> bool" where
  "admissible (Client_Connects ae) d = (accepted ae d \<and> D_CB_IDLE \<in> set (d_cb_state_list d))"
| "admissible (Message_Arrives env x m) d = (\<exists>c cb. conn d x c cb \<and> admissible_message env c m d)"
| "admissible (Time_Written i tv) d = (i \<in> lent d)"
| "admissible (Second_Passes envs grant filtered mon) d =
     ((\<forall>i\<in>lent d. time_of d i \<noteq> (0, 0)) \<and> (\<forall>k. fst (envs k) \<and> obliging (snd (envs k))) \<and>
      region_grants grant (set (empties d)) d \<and> 0 \<le> evict_hit_count mon)"

inductive daemon_step :: "daemon \<Rightarrow> daemon \<Rightarrow> bool" where
  event: "admissible ev d \<Longrightarrow> run_event ev d = Inr d' \<Longrightarrow> daemon_step d d'"

inductive_cases daemon_stepE: "daemon_step d d'"

lemma first_free:
  assumes "slots d i = Some None"
  obtains j where "slots d j = Some None" "\<forall>k<j. slots d k \<noteq> Some None"
  using assms LeastI [of "\<lambda>j. slots d j = Some None"] not_less_Least [of _ "\<lambda>j. slots d j = Some None"] by blast

lemma message_ok:
  assumes "live d" and "conn d x c cb" and "admissible_message env c m d"
  shows "\<exists>d'. receive env x m d = Inr d' \<and> live d'"
proof -
  have d: "daemon_ok d" "idle_free d" "length (d_cb_list d) = MAX_CLIENT" "length (d_cb_state_list d) = MAX_CLIENT" using assms(1) by (simp_all add: live_def)
  obtain sm where sm: "d_send_buf cb = Some sm" using assms(2) by (auto simp: conn_def)
  have e: "de_sent env" using assms(3) by (simp add: admissible_message_def)
  consider (query) "m_type m = REQ_QUERY"
    | (map) i where "m_type m = REQ_MR_MAP" "slots d i = Some None" "fst (de_reg env) \<noteq> NULL" "ibv_mrs d (fst (de_reg env)) = None" "snd (de_reg env) \<noteq> 0"
    | (delete) i where "m_type m = DELETE_RB" "names_block m i" "slots d i = Some (Some (int c))"
    using assms(3) unfolding admissible_message_def by blast
  then show ?thesis
  proof cases
    case query
    obtain d' where "receive env x m d = Inr d'" "daemon_ok d'" "slots d' = slots d" "clients d' = clients d"
      using query_reply_ok [OF d(1) assms(2) sm query e] by blast
    then show ?thesis using d by (intro exI [of _ d']) (simp add: live_def idle_free_def clients_def)
  next
    case map
    obtain j where j: "slots d j = Some None" "\<forall>k<j. slots d k \<noteq> Some None" using first_free [OF map(2)] by blast
    obtain d' where r: "receive env x m d = Inr d'" "daemon_ok d'" "slots d' = (slots d)(j \<mapsto> Some (int c))"
        "clients d' = (d_cb_list d, (d_cb_state_list d)[c := D_CB_MAPPED])"
      using map_request_ok [OF d(1) assms(2) map(1) j e map(3,4) sm map(5)] by blast
    have "c < MAX_CLIENT" using assms(2) by (simp add: conn_def)
    then have "idle_free d'" using d(2,4) r(3,4) by (auto simp: idle_free_def clients_def nth_list_update)
    then show ?thesis using r d by (intro exI [of _ d']) (simp add: live_def clients_def)
  next
    case delete
    obtain cb' where r: "receive env x m d = Inr (set_rcb x cb' (taken_back i d))" "daemon_ok (set_rcb x cb' (taken_back i d))"
        "slots (taken_back i d) = (slots d)(i := None)"
      using delete_ok [OF d(1) assms(2) delete] by blast
    have "idle_free (set_rcb x cb' (taken_back i d))" using d(2) r(3) by (auto simp: idle_free_def taken_back_def)
    then show ?thesis using r d by (intro exI [of _ "set_rcb x cb' (taken_back i d)"]) (simp add: live_def taken_back_def)
  qed
qed

lemma stamp_ok:
  assumes "live d" and "i \<in> lent d"
  shows "live (d\<lparr>regions := (regions d)(region_list (mrh d) ! i \<mapsto> tv)\<rparr>)"
proof -
  let ?d = "d\<lparr>regions := (regions d)(region_list (mrh d) ! i \<mapsto> tv)\<rparr>"
  have s: "slots ?d = slots d" by (rule slots_cong) simp_all
  then have l: "lent ?d = lent d" by (simp add: lent_def)
  have "heap_ok d" "counts_ok d" "owners_ok d" using assms(1) by (simp_all add: live_def daemon_ok_def)
  then have "heap_ok ?d" "counts_ok ?d" by (simp_all add: heap_ok_def counts_ok_def s l)
  moreover have "conn ?d = conn d" by (simp add: fun_eq_iff conn_def)
  then have "owners_ok ?d" using \<open>owners_ok d\<close> by (simp add: owners_ok_def s)
  ultimately show ?thesis using assms(1) by (simp add: live_def daemon_ok_def idle_free_def s)
qed

lemma second_ok:
  assumes "live d" and "admissible (Second_Passes envs grant filtered mon) d"
  shows "\<exists>d'. run_event (Second_Passes envs grant filtered mon) d = Inr d' \<and> live d'"
proof -
  have d: "daemon_ok d" "idle_free d" using assms(1) by (simp_all add: live_def)
  obtain mon' d' where r: "monitor_step envs grant filtered mon d = Inr (mon', d')" "daemon_ok d'" "clients d' = clients d" "lent d' \<subseteq> lent d"
      "FREE_MEM_EVICT_THRESHOLD \<le> filtered \<longrightarrow> slots d \<subseteq>\<^sub>m slots d'" "filtered \<le> FREE_MEM_EXPAND_THRESHOLD \<longrightarrow> slots d' \<subseteq>\<^sub>m slots d"
    using monitor_ok [OF d(1), of envs grant mon filtered] assms(2) by auto
  have same: "slots d i = Some (Some c)" if "slots d' i = Some (Some c)" for i c
  proof -
    have "i \<in> dom (slots d')" "i \<in> dom (slots d)" using that r(4) by (auto simp: lent_def)
    moreover have "slots d \<subseteq>\<^sub>m slots d' \<or> slots d' \<subseteq>\<^sub>m slots d" using r(5,6) by linarith
    ultimately show ?thesis using that by (metis map_le_def)
  qed
  have "idle_free d'" using d(2) same r(3) by (auto simp: idle_free_def clients_def)
  then show ?thesis using r(1-3) assms(1) by (intro exI [of _ d']) (simp add: live_def clients_def)
qed

lemma event_ok: "live d \<Longrightarrow> admissible ev d \<Longrightarrow> \<exists>d'. run_event ev d = Inr d' \<and> live d'"
proof (cases ev)
  case (Client_Connects ae)
  then show "live d \<Longrightarrow> admissible ev d \<Longrightarrow> ?thesis" using connect_ok [of d ae] by auto
next
  case (Message_Arrives env x m)
  then show "live d \<Longrightarrow> admissible ev d \<Longrightarrow> ?thesis" using message_ok by auto
next
  case (Time_Written i tv)
  then show "live d \<Longrightarrow> admissible ev d \<Longrightarrow> ?thesis" using stamp_ok by simp
next
  case (Second_Passes envs grant filtered mon)
  then show "live d \<Longrightarrow> admissible ev d \<Longrightarrow> ?thesis" using second_ok by blast
qed

lemma step_live: "daemon_step d d' \<Longrightarrow> live d \<Longrightarrow> live d'"
  using event_ok by (fastforce elim: daemon_stepE)

lemma reachable_live: "daemon_step\<^sup>*\<^sup>* d d' \<Longrightarrow> live d \<Longrightarrow> live d'"
  by (induction rule: rtranclp_induct) (use step_live in blast)+

lemma start_live:
  assumes "daemon_ok d" and "slots d = (\<lambda>i. if i < n then Some None else None)"
    and "clients d = (replicate MAX_CLIENT NULL, replicate MAX_CLIENT D_CB_IDLE)"
  shows "live d"
  using assms by (simp add: live_def idle_free_def clients_def split: if_splits)

end
