(* ===== verification/Daemon_Connect.thy ===== *)
theory Daemon_Connect
  imports Daemon_Evict
begin

text \<open>
  The connections from one daemon to another, and the migration of a block over them (daemon.c): the node that receives the
  block asks the node that has it, which writes the block to it.
\<close>

subsection \<open>Connecting\<close>

definition sem_wait :: "ptr \<Rightarrow> daemon \<Rightarrow> daemon outcome" where
  "sem_wait x d = bind_ok (get_rcb x d) (\<lambda>cb.
     if d_sem cb = 0 then Inl Hang else Inr (set_rcb x (cb\<lparr>d_sem := d_sem cb - 1\<rparr>) d))"

text \<open>The events that \<open>cm_thread\<close> has handled when the waiting thread goes on.\<close>

definition cm_thread :: "daemon_cm_event list \<Rightarrow> ptr \<Rightarrow> daemon \<Rightarrow> daemon outcome" where
  "cm_thread evs x d = foldM (\<lambda>ev d. bind_ok (rping_cma_event_handler ev x d) (\<lambda>(ret, d). if ret \<noteq> 0 then Inl Panic else Inr d)) evs d"

text \<open>
  What connecting meets: the results of the verbs calls, the events that arrive, the two message buffers with what the memory held, the result of
  registering them. What becomes of a queue pair after a failure is not modelled.
\<close>

record create_env =
  cr_channel :: int
  cr_id :: int
  cr_resolve_addr :: int
  cr_route_events :: "daemon_cm_event list"
  cr_qp :: int
  cr_bufs :: "message \<times> message"
  cr_reg :: int
  cr_connect :: int
  cr_connect_events :: "daemon_cm_event list"

definition d_bind_client :: "create_env \<Rightarrow> ptr \<Rightarrow> daemon \<Rightarrow> (int \<times> daemon) outcome" where
  "d_bind_client ce x d =
     (if cr_resolve_addr ce \<noteq> 0 then Inr (cr_resolve_addr ce, d)
      else bind_ok (cm_thread (cr_route_events ce) x d) (\<lambda>d. bind_ok (sem_wait x d) (\<lambda>d. bind_ok (get_rcb x d) (\<lambda>cb.
           Inr (if d_state cb \<noteq> D_ROUTE_RESOLVED then - 1 else 0, d)))))"

definition d_connect_client :: "create_env \<Rightarrow> ptr \<Rightarrow> daemon \<Rightarrow> (int \<times> daemon) outcome" where
  "d_connect_client ce x d =
     (if cr_connect ce \<noteq> 0 then Inr (cr_connect ce, d)
      else bind_ok (cm_thread (cr_connect_events ce) x d) (\<lambda>d. bind_ok (sem_wait x d) (\<lambda>d. bind_ok (get_rcb x d) (\<lambda>cb.
           Inr (if d_state cb \<noteq> D_CONNECTED then - 1 else 0, d)))))"

definition setup_buffers :: "create_env \<Rightarrow> ptr \<Rightarrow> daemon \<Rightarrow> (int \<times> daemon) outcome" where
  "setup_buffers ce x d = bind_ok (get_rcb x d) (\<lambda>cb.
     Inr (cr_reg ce, set_rcb x (cb\<lparr>d_send_buf := Some (fst (cr_bufs ce)), d_recv_buf := Some (snd (cr_bufs ce))\<rparr>) d))"

definition rping_create_connection :: "create_env \<Rightarrow> ptr \<Rightarrow> daemon \<Rightarrow> (int \<times> daemon) outcome" where
  "rping_create_connection ce x d =
     (if cr_channel ce \<noteq> 0 then Inr (cr_channel ce, d)
      else if cr_id ce \<noteq> 0 then Inr (cr_id ce, d)
      else bind_ok (d_bind_client ce x d) (\<lambda>(ret, d).
        if ret \<noteq> 0 then Inr (ret, d)
        else if cr_qp ce \<noteq> 0 then Inr (cr_qp ce, d)
        else bind_ok (setup_buffers ce x d) (\<lambda>(ret, d).
          if ret \<noteq> 0 then Inr (ret, d) else d_connect_client ce x d)))"

subsection \<open>Asking for a block\<close>

definition migration_fill :: "int \<Rightarrow> daemon \<Rightarrow> message \<Rightarrow> message outcome" where
  "migration_fill local_rb_index d m =
     foldM (\<lambda>i m.
         if int i = local_rb_index
         then bind_ok (mr_get (int i) d) (\<lambda>mr. bind_ok (arr_set (m_rkey m) i (htonl (mr_rkey mr))) (\<lambda>ks.
              bind_ok (arr_set (m_buf m) i (htonll (mr_addr mr))) (\<lambda>bs. Inr (m\<lparr>m_rkey := ks, m_buf := bs\<rparr>))))
         else bind_ok (arr_set (m_rkey m) i 0) (\<lambda>ks. Inr (m\<lparr>m_rkey := ks\<rparr>)))
       [0..<MAX_MR_SIZE_GB] m"

text \<open>The result of connecting is ignored.\<close>

definition request_migration :: "bool \<Rightarrow> create_env \<Rightarrow> int \<Rightarrow> int \<Rightarrow> int \<Rightarrow> daemon \<Rightarrow> daemon outcome" where
  "request_migration sent ce local_rb_index src_rb src_cb d =
     bind_ok (iarr_get (mig_cb_list d) src_cb) (\<lambda>x. bind_ok (get_rcb x d) (\<lambda>cb.
     bind_ok (if d_before_connected (d_state cb) then bind_ok (rping_create_connection ce x d) (\<lambda>(ret, d). Inr d) else Inr d) (\<lambda>d.
     bind_ok (get_rcb x d) (\<lambda>cb. bind_ok (buf_get (d_send_buf cb)) (\<lambda>m.
     bind_ok (migration_fill local_rb_index d (m\<lparr>m_size_gb := src_rb, m_type := REQ_MIGRATION\<rparr>)) (\<lambda>m.
       post_send sent x (set_rcb x (cb\<lparr>d_send_buf := Some m\<rparr>) d)))))))"

text \<open>One turn of the migration thread of connection \<open>x\<close>.\<close>

definition do_migration_fn :: "bool \<Rightarrow> create_env \<Rightarrow> ptr \<Rightarrow> daemon \<Rightarrow> daemon outcome" where
  "do_migration_fn sent ce x d =
     bind_ok (get_rcb x d) (\<lambda>cb.
       let h = d_migrbh cb
       in if migration_sem h = 0 then Inl Hang
          else request_migration sent ce (mig_local_rb_index h) (mig_src_rb_index h) (mig_src_cb_index h)
                 (set_rcb x (cb\<lparr>d_migrbh := h\<lparr>migration_sem := migration_sem h - 1\<rparr>\<rparr>) d))"

subsection \<open>A connection that comes up\<close>

definition comes_up :: "create_env \<Rightarrow> bool" where
  "comes_up ce \<longleftrightarrow> cr_channel ce = 0 \<and> cr_id ce = 0 \<and> cr_resolve_addr ce = 0 \<and> cr_qp ce = 0 \<and> cr_reg ce = 0 \<and> cr_connect ce = 0 \<and>
     cr_route_events ce = [D_EV_ADDR_RESOLVED 0, D_EV_ROUTE_RESOLVED] \<and> (\<exists>sent. cr_connect_events ce = [D_EV_ESTABLISHED sent])"

lemmas cm_defs = cm_thread_def rping_cma_event_handler_def set_state_def post_sem_def get_rcb_def sem_wait_def

lemma set_rcb_twice [simp]: "set_rcb x a (set_rcb x b d) = set_rcb x a d"
  by (simp add: set_rcb_def)

lemma connection_up:
  assumes "comes_up ce" and "rping_cbs d x = Some cb" and "\<not> d_server cb"
  shows "rping_create_connection ce x d = Inr (0, set_rcb x (cb\<lparr>d_send_buf := Some (fst (cr_bufs ce)), d_recv_buf := Some (snd (cr_bufs ce)),
    d_state := D_CONNECTED\<rparr>) d)"
proof -
  have bind: "d_bind_client ce x d = Inr (0, set_rcb x (cb\<lparr>d_state := D_ROUTE_RESOLVED\<rparr>) d)"
    using assms by (simp add: d_bind_client_def comes_up_def cm_defs)
  let ?d = "set_rcb x (cb\<lparr>d_state := D_ROUTE_RESOLVED, d_send_buf := Some (fst (cr_bufs ce)), d_recv_buf := Some (snd (cr_bufs ce))\<rparr>) d"
  have bufs: "setup_buffers ce x (set_rcb x (cb\<lparr>d_state := D_ROUTE_RESOLVED\<rparr>) d) = Inr (0, ?d)"
    using assms(1) by (simp add: setup_buffers_def get_rcb_def comes_up_def)
  have "d_connect_client ce x ?d = Inr (0, set_rcb x (cb\<lparr>d_send_buf := Some (fst (cr_bufs ce)), d_recv_buf := Some (snd (cr_bufs ce)),
    d_state := D_CONNECTED\<rparr>) d)"
    using assms by (auto simp: d_connect_client_def comes_up_def cm_defs)
  then show ?thesis using assms(1) bind bufs by (simp add: rping_create_connection_def comes_up_def)
qed

subsection \<open>A block moves\<close>

lemma migration_fill_ok:
  assumes "msg_ok m" and "i < MAX_MR_SIZE_GB" and "mr_get (int i) d = Inr mr"
  shows "migration_fill (int i) d m =
    Inr (m\<lparr>m_rkey := (replicate MAX_MR_SIZE_GB 0)[i := htonl (mr_rkey mr)], m_buf := (m_buf m)[i := htonll (mr_addr mr)]\<rparr>)"
proof -
  let ?G = "\<lambda>m. bind_ok (mr_get (int i) d) (\<lambda>mr. bind_ok (arr_set (m_rkey m) i (htonl (mr_rkey mr))) (\<lambda>ks.
      bind_ok (arr_set (m_buf m) i (htonll (mr_addr mr))) (\<lambda>bs. Inr (m\<lparr>m_rkey := ks, m_buf := bs\<rparr>))))"
  let ?upd = "\<lambda>m. m\<lparr>m_buf := (m_buf m)[i := htonll (mr_addr mr)]\<rparr>"
  have l: "length (m_rkey m) = MAX_MR_SIZE_GB" "length (m_buf m) = MAX_MR_SIZE_GB" using assms(1) by (simp_all add: msg_ok_def)
  have "?G (m\<lparr>m_rkey := ks\<rparr>) = Inr ((?upd m)\<lparr>m_rkey := ks[i := htonl (mr_rkey mr)]\<rparr>)" if "length ks = MAX_MR_SIZE_GB" for ks
    using that assms l by simp
  from key_fill [where G = ?G and upd = ?upd, OF l(1) assms(2) this]
  show ?thesis by (simp add: migration_fill_def cong: if_cong)
qed

text \<open>The connection \<open>x\<close> to another daemon is up, or comes up when it is used.\<close>

definition linked :: "create_env \<Rightarrow> daemon \<Rightarrow> ptr \<Rightarrow> bool" where
  "linked ce d x \<longleftrightarrow> (\<exists>cb. rping_cbs d x = Some cb \<and>
     (if d_before_connected (d_state cb) then comes_up ce \<and> \<not> d_server cb \<and> msg_ok (fst (cr_bufs ce))
      else \<exists>m. d_send_buf cb = Some m \<and> msg_ok m))"

lemma linked_use:
  assumes "linked ce d x"
  obtains cb m where "(case rping_cbs d x of Some cb \<Rightarrow> if d_before_connected (d_state cb)
      then bind_ok (rping_create_connection ce x d) (\<lambda>(ret, d). Inr d) else Inr d) = Inr (set_rcb x cb d)"
    "d_send_buf cb = Some m" "msg_ok m"
proof -
  obtain cb where c: "rping_cbs d x = Some cb" using assms by (auto simp: linked_def)
  show thesis
  proof (cases "d_before_connected (d_state cb)")
    case True
    then show thesis using assms c connection_up [of ce d x cb]
      by (intro that [of "cb\<lparr>d_send_buf := Some (fst (cr_bufs ce)), d_recv_buf := Some (snd (cr_bufs ce)), d_state := D_CONNECTED\<rparr>"])
         (auto simp: linked_def)
  next
    case False
    moreover have "set_rcb x cb d = d" using c by (simp add: set_rcb_def fun_upd_idem)
    ultimately show thesis using assms c that [of cb] by (auto simp: linked_def)
  qed
qed

lemma block_mr:
  assumes "heap_ok d" and "i \<in> lent d"
  obtains mr where "mr_get (int i) d = Inr mr" "mr_addr mr = of_nat (region_list (mrh d) ! i)" "mr_rkey mr \<noteq> 0" "i < MAX_FREE_MEM_GB"
proof -
  have i: "i < MAX_FREE_MEM_GB" using slots_bound [of d i] assms(2) by (auto simp: lent_def)
  obtain mr where "ibv_mrs d (mr_list (mrh d) ! i) = Some mr" "mr_addr mr = of_nat (region_list (mrh d) ! i)" "mr_rkey mr \<noteq> 0"
    using assms unfolding heap_ok_def by blast
  then show thesis using that i assms(1) by (auto simp: mr_get_def heap_ok_def arrays_ok_def)
qed

lemma mr_get_set_rcb [simp]: "mr_get k (set_rcb x cb d) = mr_get k d"
  by (simp add: mr_get_def)

lemma migration_asks:
  assumes "heap_ok d" and "i \<in> lent d" and "src < length (mig_cb_list d)" and "linked ce d (mig_cb_list d ! src)" and "mr_get (int i) d = Inr mr"
  shows "\<exists>d' m. request_migration True ce (int i) rb (int src) d = Inr d' \<and> d_posted d' = d_posted d @ [D_Send (mig_cb_list d ! src) m] \<and>
    mrh d' = mrh d \<and> regions d' = regions d \<and> ibv_mrs d' = ibv_mrs d \<and>
    m_type m = REQ_MIGRATION \<and> m_size_gb m = rb \<and> names_block m i \<and> length (m_buf m) = MAX_MR_SIZE_GB \<and>
    ntohl (m_rkey m ! i) = mr_rkey mr \<and> ntohll (m_buf m ! i) = mr_addr mr"
proof -
  let ?x = "mig_cb_list d ! src"
  obtain cb0 where c0: "rping_cbs d ?x = Some cb0" using assms(4) by (auto simp: linked_def)
  obtain cb m where c: "(case rping_cbs d ?x of Some cb \<Rightarrow> if d_before_connected (d_state cb)
      then bind_ok (rping_create_connection ce ?x d) (\<lambda>(ret, d). Inr d) else Inr d) = Inr (set_rcb ?x cb d)"
    "d_send_buf cb = Some m" "msg_ok m" using linked_use [OF assms(4)] by blast
  have i: "i < MAX_FREE_MEM_GB" using slots_bound [of d i] assms(2) by (auto simp: lent_def)
  have key: "mr_rkey mr \<noteq> 0" using block_mr [OF assms(1,2)] assms(5) by (metis sum.inject(2))
  let ?base = "m\<lparr>m_size_gb := rb, m_type := REQ_MIGRATION\<rparr>"
  let ?m = "?base\<lparr>m_rkey := (replicate MAX_MR_SIZE_GB 0)[i := htonl (mr_rkey mr)], m_buf := (m_buf ?base)[i := htonll (mr_addr mr)]\<rparr>"
  have ok: "msg_ok ?base" using c(3) by (simp add: msg_ok_def)
  have fill: "migration_fill (int i) (set_rcb ?x cb d) ?base = Inr ?m"
    by (rule migration_fill_ok [OF ok i]) (simp add: assms(5))
  let ?d = "(set_rcb ?x (cb\<lparr>d_send_buf := Some ?m\<rparr>) d)\<lparr>d_posted := d_posted d @ [D_Send ?x ?m]\<rparr>"
  have conn: "(if d_before_connected (d_state cb0) then bind_ok (rping_create_connection ce ?x d) (\<lambda>(ret, d). Inr d) else Inr d) = Inr (set_rcb ?x cb d)"
    using c(1) c0 by simp
  have g: "get_rcb ?x d = Inr cb0" "get_rcb ?x (set_rcb ?x cb d) = Inr cb" using c0 by (simp_all add: get_rcb_def)
  have "request_migration True ce (int i) rb (int src) d = Inr ?d"
    unfolding request_migration_def using assms(3) g conn c(2) fill by (simp add: buf_get_def post_send_def get_rcb_def)
  then show ?thesis using i key c(3)
    by (intro exI [of _ ?d] exI [of _ ?m]) (auto simp: names_block_def htonl_nonzero msg_ok_def)
qed

text \<open>The node that has the block writes it to where the message says.\<close>

lemma migration_writes:
  assumes "heap_ok d" and "j \<in> lent d" and "rping_cbs d y = Some cb" and "m_type m = REQ_MIGRATION" and "m_size_gb m = int j" and "names_block m i"
    and "length (m_buf m) = MAX_MR_SIZE_GB" and "de_sent env"
  shows "receive env y m d = Inr ((set_rcb y (cb\<lparr>d_recv_buf := Some m, d_migrbh := (d_migrbh cb)\<lparr>mig_local_rb_index := int j\<rparr>, d_state := D_RDMA_WRITE_INP\<rparr>) d)
    \<lparr>d_posted := d_posted d @ [D_Write y (ntohl (m_rkey m ! i)) (ntohll (m_buf m ! i)) (int j)]\<rparr>)"
proof -
  obtain mr where mr: "mr_get (int j) d = Inr mr" "j < MAX_FREE_MEM_GB" using block_mr [OF assms(1,2)] by blast
  obtain tv where tv: "region_get (int j) d = Inr tv" using region_of [OF assms(1)] assms(2) lent_slots by blast
  have i: "i < length (m_rkey m)" "i < length (m_buf m)" using assms(6,7) by (simp_all add: names_block_def)
  have r: "region_get (int j) (set_rcb y c d) = Inr tv" for c using tv by (simp add: region_get_def)
  show ?thesis
    using find_key_ok [OF assms(6)] i r mr(1) assms(3-5,8)
    by (simp add: receive_def handle_recv_def do_migration_def post_write_def get_rcb_def buf_get_def)
qed

end
