(* ===== verification/Daemon_Properties.thy ===== *)
theory Daemon_Properties
  imports Lease Session_Properties Daemon_Steps Daemon_Connect
begin

text \<open>
  The properties of the memory daemon (daemon.c), alone and together with the block device at the other end of its connections, each with a
  concrete instance.
\<close>

subsection \<open>A small daemon\<close>

text \<open>Region 1 is lent to client 0; region 0 is free, or not there.\<close>

definition sample_rcb :: rping_cb where
  "sample_rcb = blank_rcb\<lparr>d_server := True, d_recv_buf := Some blank_message, d_send_buf := Some blank_message, d_state := D_CONNECTED,
     d_rb_idx_map := (replicate MAX_MR_SIZE_GB (- 1))[1 := 1]\<rparr>"

definition sample_regions :: "bool \<Rightarrow> rdma_mr_handler" where
  "sample_regions free = \<lparr>region_list = (replicate MAX_FREE_MEM_GB NULL)[0 := 100, 1 := 200], mr_list = (replicate MAX_FREE_MEM_GB NULL)[1 := 300],
     d_size_gb = (if free then 2 else 1), mapped_size = 1, rb_owner = (replicate MAX_FREE_MEM_GB (- 1))[1 := 0],
     client_rb_idx = (replicate MAX_FREE_MEM_GB 0)[1 := 6], malloc_map = (replicate MAX_FREE_MEM_GB RB_EMPTY)[0 := if free then RB_MALLOCED else RB_EMPTY, 1 := RB_MALLOCED],
     d_replica_index = replicate MAX_FREE_MEM_GB 0\<rparr>"

definition sample_daemon :: "bool \<Rightarrow> daemon" where
  "sample_daemon free = \<lparr>my_index = 4, d_cb_list = (replicate MAX_CLIENT NULL)[0 := 9], d_cb_state_list = (replicate MAX_CLIENT D_CB_IDLE)[0 := D_CB_MAPPED],
     mig_cb_list = [], mig_cb_state_list = [], mrh = sample_regions free, rping_cbs = [9 \<mapsto> sample_rcb],
     regions = [100 \<mapsto> (0, 0), 200 \<mapsto> (5, 6)], ibv_mrs = [300 \<mapsto> \<lparr>mr_addr = 200, mr_rkey = 77\<rparr>], d_posted = []\<rparr>"

lemma sample_slots: "slots (sample_daemon free) = (\<lambda>i. if i = 0 then (if free then Some None else None) else if i = 1 then Some (Some 0) else None)"
  by (auto simp: fun_eq_iff slots_def sample_daemon_def sample_regions_def nth_list_update)

lemma sample_lent: "lent (sample_daemon free) = {1}"
  by (auto simp: lent_def sample_slots split: if_splits)

lemma sample_dom: "dom (slots (sample_daemon free)) = (if free then {0, 1} else {1})"
  by (auto simp: sample_slots dom_def split: if_splits)

lemma sample_conn: "conn (sample_daemon free) 9 0 sample_rcb"
  by (simp add: conn_def sample_daemon_def sample_rcb_def blank_rcb_def blank_message_def msg_ok_def)

lemma sample_daemon_ok: "daemon_ok (sample_daemon free)"
proof -
  have "arrays_ok (mrh (sample_daemon free))"
    by (auto simp: arrays_ok_def sample_daemon_def sample_regions_def nth_list_update)
  then have "heap_ok (sample_daemon free)"
    unfolding heap_ok_def sample_lent sample_dom by (simp add: sample_daemon_def sample_regions_def)
  moreover have "counts_ok (sample_daemon free)"
    unfolding counts_ok_def sample_lent sample_dom by (simp add: sample_daemon_def sample_regions_def)
  moreover have "owners_ok (sample_daemon free)"
    unfolding owners_ok_def
  proof (intro allI impI)
    fix i c assume "slots (sample_daemon free) i = Some (Some c)"
    then have "i = 1" "c = 0" by (simp_all add: sample_slots split: if_splits)
    then show "\<exists>y cb. 0 \<le> c \<and> conn (sample_daemon free) y (nat c) cb \<and> d_rb_idx_map cb ! i = int i"
      using sample_conn [of free] by (intro exI [of _ 9] exI [of _ sample_rcb]) (simp add: sample_rcb_def)
  qed
  ultimately show ?thesis by (simp add: daemon_ok_def)
qed

lemma sample_times: "\<forall>i\<in>lent (sample_daemon free). time_of (sample_daemon free) i \<noteq> (0, 0)"
  unfolding sample_lent by (simp add: time_of_def sample_daemon_def sample_regions_def)

definition sample_denv :: daemon_env where
  "sample_denv = \<lparr>de_sent = True, de_reg = (400, 88), de_junk = (0, 0)\<rparr>"

definition sample_react :: reaction where
  "sample_react = (\<lambda>y m. [(sample_denv, y, m\<lparr>m_type := DELETE_RB\<rparr>)])"

lemma sample_obliging: "obliging sample_react"
  by (auto simp: obliging_def sample_react_def names_block_def)

subsection \<open>The start\<close>

text \<open>
  C36. The daemon starts: from a memory statistics line with \<open>kb\<close> kilobytes free, \<open>rdma_session_init\<close> allocates the regions
  of slots 0 to \<open>n - 1\<close>, all free to lend, and prepares a connection to each other node; the invariant of the daemon holds. There are at most 32 regions, and
  if there are any, they leave the system ten gigabytes.
\<close>
theorem daemon_starts:
  assumes "\<forall>c\<in>set pre \<union> set post. \<not> is_digit c" and "length (pre @ decimal kb) \<le> 59" and "n = nat (initial_size (int kb div ONE_MB))"
    and "static_arrays (mrh d)" and "region_grants grant {..<n} d" and "inj_on mig {..<k}" and "\<forall>i<k. mig i \<noteq> NULL"
  shows "(\<exists>d'. rdma_session_init (pre @ decimal kb @ post) grant mig self k d = Inr d' \<and> daemon_ok d' \<and>
      slots d' = (\<lambda>i. if i < n then Some None else None) \<and> clients d' = (replicate MAX_CLIENT NULL, replicate MAX_CLIENT D_CB_IDLE) \<and>
      (\<forall>i<k. mig_cb_list d' ! i = mig i \<and> rping_cbs d' (mig i) = Some (blank_rcb\<lparr>d_cb_index := int i\<rparr>))) \<and>
    n \<le> MAX_FREE_MEM_GB \<and> (0 < n \<longrightarrow> FREE_MEM_EVICT_THRESHOLD \<le> int kb div ONE_MB - int n)"
proof -
  have l: "get_free_mem (pre @ decimal kb @ post) = int kb" using assms(1,2) by (rule get_free_mem_line)
  have "n \<le> MAX_FREE_MEM_GB \<and> (0 < n \<longrightarrow> FREE_MEM_EVICT_THRESHOLD \<le> int kb div ONE_MB - int n)"
    using assms(3) initial_size_bounds [of "int kb div ONE_MB"] by auto
  then show ?thesis using session_init_ok [OF assms(4) _ assms(5-7), of "pre @ decimal kb @ post"] assms(3) unfolding l by blast
qed

theorem daemon_starts_witness:
  "\<exists>d'. rdma_session_init (''MemFree:  '' @ decimal 26214400 @ '' kB'') (\<lambda>i. 1000 + i) (\<lambda>i. 2000 + i) (\<lambda>i. i = 1) 2 (sample_daemon False) = Inr d' \<and>
    daemon_ok d' \<and> slots d' = (\<lambda>i. if i < 10 then Some None else None)"
proof -
  have l: "length (decimal 26214400) = 8" by (simp add: decimal.simps)
  have g: "region_grants (\<lambda>i. 1000 + i) {..<10} (sample_daemon False)" by (auto simp: region_grants_def sample_daemon_def)
  have n: "(10::nat) = nat (initial_size (int 26214400 div ONE_MB))" by (simp add: initial_size_def)
  have a: "static_arrays (mrh (sample_daemon False))" by (simp add: static_arrays_def sample_daemon_def sample_regions_def)
  have d: "\<forall>c\<in>set ''MemFree:  '' \<union> set '' kB''. \<not> is_digit c" by (simp add: is_digit_def)
  show ?thesis using daemon_starts [OF d _ n a g, of "\<lambda>i. 2000 + i" 2 "\<lambda>i. i = 1"] l by auto
qed

subsection \<open>Messages\<close>

text \<open>
  A query from the block device is answered with the number of free regions and with the sum of the ages of the lent ones, and
  the block device reads these two numbers from the answer, the sum from the two integers it lies over; the
  regions stay as they are.
\<close>
theorem query_answered:
  assumes "daemon_ok d" and "conn d x c cb" and "m_type rm = REQ_QUERY" and "de_sent env" and "n < length (cb_list S)" and "connected (cb_list S ! n)"
  shows "\<exists>d' m S'. receive env x rm d = Inr d' \<and> daemon_ok d' \<and> slots d' = slots d \<and> d_posted d' = d_posted d @ [D_Send x m] \<and>
    recv_completion k (int n, m) S = Inr S' \<and> cb_st (cb_list S' ! n) = RECV_QUERY_REPL \<and>
    target_size_gb (rbh (cb_list S' ! n)) = int (card (dom (slots d))) - int (card (lent d)) \<and>
    age_sum (rbh (cb_list S' ! n)) = uint (ages d MAX_FREE_MEM_GB)"
proof -
  obtain m where m: "d_send_buf cb = Some m" using assms(2) by (auto simp: conn_def)
  let ?q = "\<lparr>q_type = RESP_QUERY, q_size_gb = int (card (dom (slots d))) - int (card (lent d)), q_sum = ages d MAX_FREE_MEM_GB\<rparr>"
  obtain d' where d': "receive env x rm d = Inr d'" "daemon_ok d'" "slots d' = slots d" "d_posted d' = d_posted d @ [D_Send x (query_overlay ?q m)]"
    using query_reply_ok [OF assms(1,2) m assms(3,4)] by blast
  have "m_type (query_overlay ?q m) = RESP_QUERY" "m_size_gb (query_overlay ?q m) = q_size_gb ?q" by (simp_all add: query_overlay_def)
  then show ?thesis using d' recv_query_answer [OF assms(5,6), of "query_overlay ?q m" k] assms(5)
    by (intro exI [of _ d'] exI [of _ "query_overlay ?q m"]) (simp add: query_sum_overlay)
qed

theorem query_answered_witness:
  "\<exists>d' m S'. receive sample_denv 9 (blank_message\<lparr>m_type := REQ_QUERY\<rparr>) (sample_daemon True) = Inr d' \<and> d_posted d' = [D_Send 9 m] \<and>
    recv_completion True (int 1, m) sample_session = Inr S' \<and> target_size_gb (rbh (cb_list S' ! 1)) = 1"
proof -
  have c: "1 < length (cb_list sample_session)" "connected (cb_list sample_session ! 1)"
    by (simp_all add: sample_session_def sample_cb_def connected_def)
  have "card (dom (slots (sample_daemon True))) = 2" "card (lent (sample_daemon True)) = 1" by (simp_all add: sample_dom sample_lent)
  moreover have "d_posted (sample_daemon True) = []" by (simp add: sample_daemon_def)
  ultimately show ?thesis
    using query_answered [OF sample_daemon_ok sample_conn, of "blank_message\<lparr>m_type := REQ_QUERY\<rparr>" sample_denv 1 sample_session True True] c
    by (auto simp: sample_denv_def)
qed

text \<open>
  C27. A gigabyte is lent: the daemon answers a mapping request with its first free region, which is the client's from then on, and the block
  device, on that answer, places the gigabyte in the block with the same index, with the key and the address of the daemon's memory. Both
  invariants are kept.
\<close>
theorem block_lent:
  assumes "daemon_ok d" and "conn d x c cb" and "slots d i = Some None" and "\<forall>j<i. slots d j \<noteq> Some None"
    and "m_type rm = REQ_MR_MAP" and "m_size_gb rm = int g" and "m_replica_index rm = 0" and "g < SWAPSPACE_SIZE_G"
    and "de_sent env" and "fst (de_reg env) \<noteq> NULL" and "ibv_mrs d (fst (de_reg env)) = None" and "snd (de_reg env) \<noteq> 0"
    and "maps_ok S" and "n < cb_num S" and "tables_ok (cb_list S ! n)" and "connected (cb_list S ! n)" and "remote_mapped (node_rbh S n) ! i = RB_UNMAPPED"
  shows "\<exists>d' m S'. receive env x rm d = Inr d' \<and> d_posted d' = d_posted d @ [D_Send x m] \<and> recv_completion True (int n, m) S = Inr S' \<and>
    daemon_ok d' \<and> slots d' = (slots d)(i \<mapsto> Some (int c)) \<and> maps_ok S' \<and> placement S' = (placement S)(g \<mapsto> (n, i)) \<and>
    fresh_block m i (block_at S' n i) \<and> remote_rkey (block_at S' n i) = snd (de_reg env) \<and>
    remote_addr (block_at S' n i) = of_nat (region_list (mrh d) ! i)"
proof -
  obtain m where m: "d_send_buf cb = Some m" "msg_ok m" using assms(2) by (auto simp: conn_def)
  have i: "i < MAX_FREE_MEM_GB" using slots_bound [of d i] assms(3) by simp
  let ?m = "lent_reply False (my_index d) (de_reg env) (region_list (mrh d) ! i) i rm m"
  obtain d' where d': "receive env x rm d = Inr d'" "daemon_ok d'" "slots d' = (slots d)(i \<mapsto> Some (int c))" "d_posted d' = d_posted d @ [D_Send x ?m]"
    using map_request_ok [OF assms(1,2,5,3,4,9-11) m(1) assms(12)] by blast
  note r = lent_reply_map [OF m(2) i assms(12,6,8,7), of "my_index d" "region_list (mrh d) ! i"]
  let ?S = "mapped_session n ?m g i S"
  have l: "length (cb_list S) = cb_num S" using assms(13) by (simp add: maps_ok_def session_ok_def)
  have "fresh_block ?m i (block_at ?S n i)"
    using l assms(14,15) i by (simp add: fresh_block_def block_at_def mapped_session_def installed_def tables_ok_def)
  then show ?thesis
    using d' r recv_map_reply [OF assms(13-16) r(1)] mapped_maps_ok [OF assms(13-15) r(1) assms(17)] placement_mapped [OF assms(13) r(1)]
    by (intro exI [of _ d'] exI [of _ ?m] exI [of _ ?S]) (simp add: fresh_block_def)
qed

theorem block_lent_witness:
  "\<exists>d' m S'. receive sample_denv 9 (blank_message\<lparr>m_type := REQ_MR_MAP, m_size_gb := 3\<rparr>) (sample_daemon True) = Inr d' \<and>
    recv_completion True (int 1, m) sample_session = Inr S' \<and> slots d' 0 = Some (Some 0) \<and> placement S' 3 = Some (1, 0) \<and>
    remote_rkey (block_at S' 1 0) = 88 \<and> remote_addr (block_at S' 1 0) = 100"
proof -
  let ?rm = "blank_message\<lparr>m_type := REQ_MR_MAP, m_size_gb := 3\<rparr>"
  have s: "slots (sample_daemon True) 0 = Some None" "\<forall>j<0. slots (sample_daemon True) j \<noteq> Some None" by (simp_all add: sample_slots)
  have rm: "m_type ?rm = REQ_MR_MAP" "m_size_gb ?rm = int 3" "m_replica_index ?rm = 0" "3 < SWAPSPACE_SIZE_G" by (simp_all add: blank_message_def)
  have e: "de_sent sample_denv" "fst (de_reg sample_denv) \<noteq> NULL" "ibv_mrs (sample_daemon True) (fst (de_reg sample_denv)) = None" "snd (de_reg sample_denv) \<noteq> 0"
    by (simp_all add: sample_denv_def sample_daemon_def)
  have n: "1 < cb_num sample_session" "tables_ok (cb_list sample_session ! 1)" "connected (cb_list sample_session ! 1)"
    "remote_mapped (node_rbh sample_session 1) ! 0 = RB_UNMAPPED"
    by (simp_all add: sample_session_defs connected_def tables_ok_def)
  have v: "snd (de_reg sample_denv) = 88" "(of_nat (region_list (mrh (sample_daemon True)) ! 0) :: u64) = 100"
    by (simp_all add: sample_denv_def sample_daemon_def sample_regions_def)
  obtain d' m S' where r: "receive sample_denv 9 ?rm (sample_daemon True) = Inr d'" "recv_completion True (int 1, m) sample_session = Inr S'"
    "slots d' = (slots (sample_daemon True))(0 \<mapsto> Some (int 0))" "placement S' = (placement sample_session)(3 \<mapsto> (1, 0))"
    "remote_rkey (block_at S' 1 0) = 88" "remote_addr (block_at S' 1 0) = 100"
    using block_lent [OF sample_daemon_ok sample_conn s rm e sample_maps_ok n] unfolding v by blast
  then show ?thesis by (intro exI [of _ d'] exI [of _ m] exI [of _ S']) simp
qed

text \<open>
  With no region free to lend, a mapping request is answered all the same, with a message that names no block: the daemon's count of lent
  regions goes up and no longer agrees with its regions, the block device places nothing and yet takes the request for served.
\<close>
theorem map_without_region:
  assumes "daemon_ok d" and "conn d x c cb" and "m_type rm = REQ_MR_MAP" and "\<forall>i. slots d i \<noteq> Some None" and "de_sent env"
    and "session_ok S" and "n < cb_num S" and "connected (cb_list S ! n)"
  shows "\<exists>d' m S'. receive env x rm d = Inr d' \<and> d_posted d' = d_posted d @ [D_Send x m] \<and> recv_completion k (int n, m) S = Inr S' \<and>
    slots d' = slots d \<and> mapped_size (mrh d') = mapped_size (mrh d) + 1 \<and> \<not> counts_ok d' \<and>
    placement S' = placement S \<and> cb_st (cb_list S' ! n) = RECV_MR_MAP"
proof -
  have h: "heap_ok d" "counts_ok d" using assms(1) by (simp_all add: daemon_ok_def)
  obtain d' m where d': "receive env x rm d = Inr d'" "slots d' = slots d" "d_posted d' = d_posted d @ [D_Send x m]"
    "mapped_size (mrh d') = mapped_size (mrh d) + 1" "m_type m = RESP_MR_MAP" "m_rkey m = replicate MAX_MR_SIZE_GB 0"
    using nothing_lent_run [OF h(1) assms(2-5)] by blast
  have "\<not> counts_ok d'" using h(2) d'(2,4) by (simp add: counts_ok_def lent_def)
  moreover have "n < length (cb_list S)" "n < length (cb_state_list S)" "cb_index (cb_list S ! n) = int n"
    using assms(6,7) by (simp_all add: session_ok_def)
  ultimately show ?thesis using d' nothing_mapped [OF _ _ _ assms(8) d'(5,6), of k] by blast
qed

theorem map_without_region_witness:
  "\<exists>d' m S'. receive sample_denv 9 (blank_message\<lparr>m_type := REQ_MR_MAP\<rparr>) (sample_daemon False) = Inr d' \<and>
    d_posted d' = [D_Send 9 m] \<and> recv_completion True (int 1, m) sample_session = Inr S' \<and> \<not> counts_ok d' \<and> placement S' = placement sample_session"
proof -
  have c: "1 < cb_num sample_session" "connected (cb_list sample_session ! 1)"
    by (simp_all add: sample_session_def sample_cb_def connected_def)
  have n: "\<forall>i. slots (sample_daemon False) i \<noteq> Some None" "d_posted (sample_daemon False) = []" by (simp_all add: sample_slots) (simp add: sample_daemon_def)
  have e: "m_type (blank_message\<lparr>m_type := REQ_MR_MAP\<rparr>) = REQ_MR_MAP" "de_sent sample_denv" by (simp_all add: sample_denv_def)
  show ?thesis
    using map_without_region [OF sample_daemon_ok sample_conn e(1) n(1) e(2) sample_session_ok c, of True] n(2) by auto
qed

subsection \<open>Eviction\<close>

text \<open>
  C35. A region is called back: the daemon's \<open>EVICT\<close> message tells the block device which gigabyte and which region is meant, the \<open>DELETE_RB\<close> with which
  the block device ends the migration names the same region, and on it the daemon gives that region, and no other, back to the system.
\<close>
theorem block_called_back:
  assumes "daemon_ok d" and "conn d y c cb" and "slots d i = Some (Some (int c))" and "n < length (cb_list S)" and "connected (cb_list S ! n)"
    and "tables_ok (cb_list S ! n)" and "length (m_rkey (send_buf (cb_list S ! n))) = MAX_MR_SIZE_GB"
  shows "\<exists>d1 m S1 ncb d2. send_evict True y (int i) rb me d = Inr d1 \<and> d_posted d1 = d_posted d @ [D_Send y m] \<and>
    recv_completion k (int n, m) S = Inr S1 \<and> client_swapspace_index (rbh (cb_list S1 ! n)) = rb \<and> src_rb_index (rbh (cb_list S1 ! n)) = int i \<and>
    delete_rb_message (cb_list S1 ! n) = Inr ncb \<and> receive env y (send_buf ncb) d1 = Inr d2 \<and>
    daemon_ok d2 \<and> slots d2 = (slots d)(i := None)"
  using assms by (rule eviction_round_ok)

theorem block_called_back_witness:
  "\<exists>d1 m S1 ncb d2. send_evict True 9 (int 1) 6 4 (sample_daemon True) = Inr d1 \<and> d_posted d1 = d_posted (sample_daemon True) @ [D_Send 9 m] \<and>
    recv_completion True (int 1, m) sample_session = Inr S1 \<and> client_swapspace_index (rbh (cb_list S1 ! 1)) = 6 \<and>
    src_rb_index (rbh (cb_list S1 ! 1)) = int 1 \<and>
    delete_rb_message (cb_list S1 ! 1) = Inr ncb \<and> receive sample_denv 9 (send_buf ncb) d1 = Inr d2 \<and>
    daemon_ok d2 \<and> slots d2 = (slots (sample_daemon True))(1 := None)"
proof -
  have s: "slots (sample_daemon True) 1 = Some (Some (int 0))" by (simp add: sample_slots)
  have n: "1 < length (cb_list sample_session)" "connected (cb_list sample_session ! 1)" "tables_ok (cb_list sample_session ! 1)"
    "length (m_rkey (send_buf (cb_list sample_session ! 1))) = MAX_MR_SIZE_GB"
    by (simp_all add: sample_session_defs connected_def tables_ok_def)
  show ?thesis by (rule block_called_back [OF sample_daemon_ok sample_conn s n])
qed

text \<open>
  C34. Eviction of \<open>n\<close> regions gives exactly \<open>n\<close> of them back: regions nobody uses go first, only when they are all gone are lent ones called back, and of
  those the ones with the oldest times. The clients answer each call with a \<open>DELETE_RB\<close> of the region asked for, and no lent region
  has the time zero, which the search takes for no time. The invariant is kept.
\<close>
theorem eviction_order:
  assumes "daemon_ok d" and "0 < n" and "n \<le> int (card (dom (slots d)))" and "\<forall>i\<in>lent d. time_of d i \<noteq> (0, 0)"
    and "\<forall>k. fst (envs k) \<and> obliging (snd (envs k))"
  shows "\<exists>d' A E. do_evict envs n d = Inr d' \<and> daemon_ok d' \<and> slots d' = (\<lambda>i. if i \<in> A \<union> E then None else slots d i) \<and>
    A \<subseteq> {i. slots d i = Some None} \<and> E \<subseteq> lent d \<and> int (card (A \<union> E)) = n \<and> (E \<noteq> {} \<longrightarrow> A = {i. slots d i = Some None}) \<and>
    (\<forall>i\<in>E. \<forall>j\<in>lent d - E. micros (time_of d i) \<le> micros (time_of d j))"
  using do_evict_ok [OF assms] by blast

theorem eviction_order_witness:
  "\<exists>d'. do_evict (\<lambda>_. (True, sample_react)) 1 (sample_daemon True) = Inr d' \<and> daemon_ok d' \<and> slots d' 0 = None \<and> slots d' 1 = Some (Some 0)"
proof -
  have c: "(1::int) \<le> int (card (dom (slots (sample_daemon True))))" by (simp add: sample_dom)
  obtain d' A E where r: "do_evict (\<lambda>_. (True, sample_react)) 1 (sample_daemon True) = Inr d'" "daemon_ok d'"
    "slots d' = (\<lambda>i. if i \<in> A \<union> E then None else slots (sample_daemon True) i)" "A \<subseteq> {i. slots (sample_daemon True) i = Some None}"
    "E \<subseteq> lent (sample_daemon True)" "int (card (A \<union> E)) = 1" "E \<noteq> {} \<longrightarrow> A = {i. slots (sample_daemon True) i = Some None}"
    using eviction_order [OF sample_daemon_ok _ c sample_times, of "\<lambda>_. (True, sample_react)"] sample_obliging by auto
  have s: "{i. slots (sample_daemon True) i = Some None} = {0}" by (auto simp: sample_slots split: if_splits)
  have "A \<subseteq> {0}" "E \<subseteq> {1}" using r(4,5) unfolding s sample_lent by simp_all
  then have "A = {0}" "E = {}" using r(6,7) unfolding s by (auto simp: subset_singleton_iff)
  then show ?thesis using r(1-3) by (simp add: sample_slots)
qed

subsection \<open>The monitor\<close>

text \<open>
  Each second of the monitor ends, keeps the invariant of the daemon, and moves the number of regions only in the direction the free memory asks
  for: no region goes when at least ten gigabytes are free, none comes when at most twenty are, and below ten it gives back what is missing, as far as there are
  regions.
\<close>
theorem monitor_keeps:
  assumes "daemon_ok d" and "\<forall>i\<in>lent d. time_of d i \<noteq> (0, 0)" and "\<forall>k. fst (envs k) \<and> obliging (snd (envs k))"
    and "region_grants grant (set (empties d)) d" and "0 \<le> evict_hit_count mon"
  shows "\<exists>mon' d'. monitor_step envs grant filtered mon d = Inr (mon', d') \<and> daemon_ok d' \<and> 0 \<le> evict_hit_count mon' \<and>
    (FREE_MEM_EVICT_THRESHOLD \<le> filtered \<longrightarrow> slots d \<subseteq>\<^sub>m slots d') \<and> (filtered \<le> FREE_MEM_EXPAND_THRESHOLD \<longrightarrow> slots d' \<subseteq>\<^sub>m slots d) \<and>
    (filtered < FREE_MEM_EVICT_THRESHOLD \<longrightarrow> int (card (dom (slots d'))) = max 0 (int (card (dom (slots d))) - (FREE_MEM_EVICT_THRESHOLD - filtered)))"
  using monitor_ok [OF assms] by blast

theorem monitor_keeps_witness:
  "\<exists>mon' d'. monitor_step (\<lambda>_. (True, sample_react)) (\<lambda>i. 1000 + i) 9 \<lparr>last_free_mem_g = 12, evict_hit_count = 0, expand_hit_count = 3\<rparr> (sample_daemon True) = Inr (mon', d') \<and>
    daemon_ok d' \<and> card (dom (slots d')) = 1"
proof -
  have g: "region_grants (\<lambda>i. 1000 + i) (set (empties (sample_daemon True))) (sample_daemon True)"
    by (auto simp: region_grants_def sample_daemon_def inj_on_def)
  have "card (dom (slots (sample_daemon True))) = 2" by (simp add: sample_dom)
  then show ?thesis
    using monitor_keeps [OF sample_daemon_ok sample_times _ g, of "\<lambda>_. (True, sample_react)"
        "\<lparr>last_free_mem_g = 12, evict_hit_count = 0, expand_hit_count = 3\<rparr>" 9] sample_obliging by auto
qed

subsection \<open>The daemon as a whole\<close>



subsection \<open>Migration between two daemons\<close>

text \<open>
  C33. A block moves: the daemon \<open>d\<close> that got the new region \<open>i\<close> connects to the daemon \<open>e\<close> that has the block in its region \<open>j\<close>, if it
  is not connected yet, and on its message \<open>e\<close> writes its region \<open>j\<close>, and nothing else, to the address of region \<open>i\<close> with that region's key.
  Neither daemon's regions change hands.
\<close>
theorem migration_copies:
  assumes "heap_ok d" and "i \<in> lent d" and "src < length (mig_cb_list d)" and "linked ce d (mig_cb_list d ! src)"
    and "heap_ok e" and "j \<in> lent e" and "rping_cbs e y = Some cb" and "de_sent env"
  shows "\<exists>d' m e' mr. request_migration True ce (int i) (int j) (int src) d = Inr d' \<and> d_posted d' = d_posted d @ [D_Send (mig_cb_list d ! src) m] \<and>
    slots d' = slots d \<and> mr_get (int i) d = Inr mr \<and> mr_addr mr = of_nat (region_list (mrh d) ! i) \<and>
    receive env y m e = Inr e' \<and> d_posted e' = d_posted e @ [D_Write y (mr_rkey mr) (mr_addr mr) (int j)] \<and> slots e' = slots e"
proof -
  obtain mr where mr: "mr_get (int i) d = Inr mr" "mr_addr mr = of_nat (region_list (mrh d) ! i)" using block_mr [OF assms(1,2)] by blast
  obtain d' m where d': "request_migration True ce (int i) (int j) (int src) d = Inr d'" "d_posted d' = d_posted d @ [D_Send (mig_cb_list d ! src) m]"
    "mrh d' = mrh d" "m_type m = REQ_MIGRATION" "m_size_gb m = int j" "names_block m i" "length (m_buf m) = MAX_MR_SIZE_GB"
    "ntohl (m_rkey m ! i) = mr_rkey mr" "ntohll (m_buf m ! i) = mr_addr mr"
    using migration_asks [OF assms(1-4) mr(1), of "int j"] by blast
  have "slots d' = slots d" by (rule slots_cong) (simp_all add: d'(3))
  moreover obtain e' where "receive env y m e = Inr e'" "d_posted e' = d_posted e @ [D_Write y (mr_rkey mr) (mr_addr mr) (int j)]" "slots e' = slots e"
    using migration_writes [OF assms(5-7) d'(4-7) assms(8)] unfolding d'(8,9) by auto
  ultimately show ?thesis using d'(1,2) mr by blast
qed

definition sample_link :: create_env where
  "sample_link = \<lparr>cr_channel = 0, cr_id = 0, cr_resolve_addr = 0, cr_route_events = [D_EV_ADDR_RESOLVED 0, D_EV_ROUTE_RESOLVED], cr_qp = 0,
     cr_bufs = (blank_message, blank_message), cr_reg = 0, cr_connect = 0, cr_connect_events = [D_EV_ESTABLISHED True]\<rparr>"

definition sample_target :: daemon where
  "sample_target = (sample_daemon True)\<lparr>mig_cb_list := [20], mig_cb_state_list := [D_CB_IDLE], rping_cbs := [9 \<mapsto> sample_rcb, 20 \<mapsto> blank_rcb]\<rparr>"

theorem migration_copies_witness:
  "\<exists>d' m e'. request_migration True sample_link (int 1) (int 1) (int 0) sample_target = Inr d' \<and> d_posted d' = [D_Send 20 m] \<and>
    receive sample_denv 9 m (sample_daemon True) = Inr e' \<and> d_posted e' = [D_Write 9 77 200 1]"
proof -
  have v: "heap_ok sample_target" "lent sample_target = {1}"
    using view_cong [of sample_target "sample_daemon True"] sample_daemon_ok [of True] sample_lent [of True]
    by (simp_all add: sample_target_def daemon_ok_def)
  then have l: "1 \<in> lent sample_target" "1 \<in> lent (sample_daemon True)" by (simp_all add: sample_lent)
  have x: "mig_cb_list sample_target ! 0 = 20" "0 < length (mig_cb_list sample_target)" "d_posted sample_target = []" "d_posted (sample_daemon True) = []"
    by (simp_all add: sample_target_def sample_daemon_def)
  have k: "linked sample_link sample_target (mig_cb_list sample_target ! 0)"
    by (auto simp: linked_def comes_up_def sample_link_def sample_target_def blank_rcb_def blank_message_def msg_ok_def)
  have h: "heap_ok (sample_daemon True)" "rping_cbs (sample_daemon True) 9 = Some sample_rcb" "de_sent sample_denv"
    using sample_daemon_ok [of True] by (simp_all add: daemon_ok_def) (simp_all add: sample_daemon_def sample_denv_def)
  have m: "mr_get (int 1) sample_target = Inr \<lparr>mr_addr = 200, mr_rkey = 77\<rparr>"
    by (simp add: mr_get_def iarr_get_def sample_target_def sample_daemon_def sample_regions_def)
  obtain d' m e' mr where r: "request_migration True sample_link (int 1) (int 1) (int 0) sample_target = Inr d'" "d_posted d' = [] @ [D_Send 20 m]"
    "mr_get (int 1) sample_target = Inr mr" "receive sample_denv 9 m (sample_daemon True) = Inr e'" "d_posted e' = [] @ [D_Write 9 (mr_rkey mr) (mr_addr mr) (int 1)]"
    using migration_copies [OF v(1) l(1) x(2) k h(1) l(2) h(2,3)] unfolding x by blast
  then have "mr = \<lparr>mr_addr = 200, mr_rkey = 77\<rparr>" using m by simp
  then show ?thesis using r by (intro exI [of _ d'] exI [of _ m] exI [of _ e']) simp
qed

end
