(* ===== verification/Daemon_Setup.thy ===== *)
theory Daemon_Setup
  imports Connect_Setup Daemon_Connect
begin

text \<open>
  What the connections of the daemon are made of (daemon.c). All incoming connections share one protection domain, completion channel and completion
  queue, kept in \<open>s_ctx\<close> with the thread that receives completions; a connection to another daemon has a channel and a queue of its own in the
  same domain. A field that has not been set, or whose object is gone, names no object.
\<close>

record server_ctx =
  sc_pd :: ptr
  sc_channel :: ptr
  sc_cq :: ptr

record dconn =
  dc_server :: bool
  dc_pd :: ptr
  dc_channel :: ptr
  dc_cq :: ptr
  dc_qp :: ptr
  dc_recv_mr :: ptr
  dc_send_mr :: ptr
  dc_rq_wr :: "ib_sge option"
  dc_sq_wr :: "ib_wr option"
  dc_send_thread :: bool

record dsetup =
  du_table :: verbs_table
  s_ctx :: "server_ctx option"
  recv_thread :: bool

text \<open>
  The answers of the library: 0 or an error. \<open>dv_same\<close> is whether the connection comes over the device of the first one, \<open>dv_bufs\<close> are the addresses of the
  two message buffers.
\<close>

record dsetup_env =
  dv_same :: bool
  dv_pd :: int
  dv_channel :: int
  dv_cq :: int
  dv_notify :: int
  dv_qp :: int
  dv_bufs :: "ptr \<times> ptr"
  dv_reg_recv :: int
  dv_reg_send :: int
  dv_accept :: int

definition get_sctx :: "dsetup \<Rightarrow> server_ctx outcome" where
  "get_sctx D = (case s_ctx D of None \<Rightarrow> Inl Null_Deref | Some ctx \<Rightarrow> Inr ctx)"

definition destroy :: "verbs_lib \<Rightarrow> ptr \<Rightarrow> dsetup \<Rightarrow> dsetup outcome" where
  "destroy L p D = bind_ok (destroy_object L p (du_table D)) (\<lambda>T. Inr (D\<lparr>du_table := T\<rparr>))"

definition create :: "verbs_lib \<Rightarrow> verbs_object \<Rightarrow> dsetup \<Rightarrow> (ptr \<times> dsetup) outcome" where
  "create L ob D = bind_ok (create_object L ob (du_table D)) (\<lambda>(p, T). Inr (p, D\<lparr>du_table := T\<rparr>))"

subsection \<open>Queue pairs\<close>

definition rping_create_qp :: "verbs_lib \<Rightarrow> dsetup_env \<Rightarrow> dconn \<Rightarrow> dsetup \<Rightarrow> (int \<times> dconn \<times> dsetup) outcome" where
  "rping_create_qp L e c D =
     bind_ok (get_sctx D) (\<lambda>ctx.
       let cq = (if dc_server c then sc_cq ctx else dc_cq c) in
       bind_ok (use_object (sc_pd ctx) (du_table D)) (\<lambda>_. bind_ok (use_object cq (du_table D)) (\<lambda>_.
         if dv_qp e \<noteq> 0 then Inr (dv_qp e, c, D)
         else bind_ok (create L (Qp (sc_pd ctx) cq) D) (\<lambda>(qp, D). Inr (0, c\<lparr>dc_qp := qp\<rparr>, D)))))"

definition rping_free_qp :: "verbs_lib \<Rightarrow> dconn \<Rightarrow> dsetup \<Rightarrow> dsetup outcome" where
  "rping_free_qp L c D =
     bind_ok (destroy L (dc_qp c) D) (\<lambda>D.
       if dc_server c
       then bind_ok (get_sctx D) (\<lambda>ctx. bind_ok (destroy L (sc_cq ctx) D) (\<lambda>D. bind_ok (destroy L (sc_channel ctx) D) (destroy L (sc_pd ctx))))
       else bind_ok (destroy L (dc_cq c) D) (\<lambda>D. bind_ok (destroy L (dc_channel c) D) (destroy L (dc_pd c))))"

text \<open>The shared objects, made for the first connection. The structure is allocated first and stays when one of them cannot be made.\<close>

definition rping_server_setup_qp :: "verbs_lib \<Rightarrow> dsetup_env \<Rightarrow> dsetup \<Rightarrow> (int \<times> dsetup) outcome" where
  "rping_server_setup_qp L e D =
     (if s_ctx D \<noteq> None then (if dv_same e then Inr (0, D) else Inl Panic)
      else if dv_pd e \<noteq> 0 then Inr (dv_pd e, D\<lparr>s_ctx := Some \<lparr>sc_pd = NULL, sc_channel = NULL, sc_cq = NULL\<rparr>\<rparr>)
      else bind_ok (create L Pd D) (\<lambda>(pd, D).
        let err1 = (\<lambda>ctx D. bind_ok (destroy L pd D) (\<lambda>D. Inr (D\<lparr>s_ctx := Some ctx\<rparr>))) in
        if dv_channel e \<noteq> 0 then bind_ok (err1 \<lparr>sc_pd = pd, sc_channel = NULL, sc_cq = NULL\<rparr> D) (\<lambda>D. Inr (dv_channel e, D))
        else bind_ok (create L Channel D) (\<lambda>(ch, D).
          let err2 = (\<lambda>ctx D. bind_ok (destroy L ch D) (err1 ctx)) in
          if dv_cq e \<noteq> 0 then bind_ok (err2 \<lparr>sc_pd = pd, sc_channel = ch, sc_cq = NULL\<rparr> D) (\<lambda>D. Inr (dv_cq e, D))
          else bind_ok (create L (Cq (Some ch)) D) (\<lambda>(cq, D).
            let ctx = \<lparr>sc_pd = pd, sc_channel = ch, sc_cq = cq\<rparr> in
            if dv_notify e \<noteq> 0 then bind_ok (bind_ok (destroy L cq D) (err2 ctx)) (\<lambda>D. Inr (dv_notify e, D))
            else Inr (0, D\<lparr>s_ctx := Some ctx, recv_thread := True\<rparr>)))))"

text \<open>The objects of a connection to another daemon. The domain is the shared one, and is given up too when one of them cannot be made.\<close>

definition rping_setup_qp :: "verbs_lib \<Rightarrow> dsetup_env \<Rightarrow> dconn \<Rightarrow> dsetup \<Rightarrow> (int \<times> dconn \<times> dsetup) outcome" where
  "rping_setup_qp L e c D =
     bind_ok (get_sctx D) (\<lambda>ctx.
       let c = c\<lparr>dc_pd := sc_pd ctx\<rparr>; err1 = destroy L (sc_pd ctx) in
       if dv_channel e \<noteq> 0 then bind_ok (err1 D) (\<lambda>D. Inr (dv_channel e, c\<lparr>dc_channel := NULL\<rparr>, D))
       else bind_ok (create L Channel D) (\<lambda>(ch, D).
         let c = c\<lparr>dc_channel := ch\<rparr>; err2 = (\<lambda>D. bind_ok (destroy L ch D) err1) in
         if dv_cq e \<noteq> 0 then bind_ok (err2 D) (\<lambda>D. Inr (dv_cq e, c\<lparr>dc_cq := NULL\<rparr>, D))
         else bind_ok (create L (Cq (Some ch)) D) (\<lambda>(cq, D).
           let c = c\<lparr>dc_cq := cq\<rparr>; err3 = (\<lambda>D. bind_ok (destroy L cq D) err2) in
           if dv_notify e \<noteq> 0 then bind_ok (err3 D) (\<lambda>D. Inr (dv_notify e, c, D))
           else bind_ok (rping_create_qp L e c D) (\<lambda>(ret, c, D).
             if ret \<noteq> 0 then bind_ok (err3 D) (\<lambda>D. Inr (ret, c, D)) else Inr (0, c, D)))))"

subsection \<open>Buffers\<close>

definition rping_setup_wr :: "dsetup_env \<Rightarrow> dconn \<Rightarrow> dconn" where
  "rping_setup_wr e c =
     c\<lparr>dc_rq_wr := Some \<lparr>sg_addr = snd (dv_bufs e), sg_length = MESSAGE_SIZE, sg_lkey = dc_recv_mr c\<rparr>,
       dc_sq_wr := Some \<lparr>wr_code = IB_WR_SEND, wr_signaled = True, wr_id = NULL,
         wr_sg = \<lparr>sg_addr = fst (dv_bufs e), sg_length = MESSAGE_SIZE, sg_lkey = dc_send_mr c\<rparr>\<rparr>\<rparr>"

definition rping_setup_buffers :: "verbs_lib \<Rightarrow> dsetup_env \<Rightarrow> dconn \<Rightarrow> dsetup \<Rightarrow> (int \<times> dconn \<times> dsetup) outcome" where
  "rping_setup_buffers L e c D =
     bind_ok (get_sctx D) (\<lambda>ctx. bind_ok (use_object (sc_pd ctx) (du_table D)) (\<lambda>_.
       if dv_reg_recv e \<noteq> 0 then Inr (dv_reg_recv e, c\<lparr>dc_recv_mr := NULL\<rparr>, D)
       else bind_ok (create L (Mr (sc_pd ctx)) D) (\<lambda>(r, D).
         if dv_reg_send e \<noteq> 0 then bind_ok (destroy L r D) (\<lambda>D. Inr (dv_reg_send e, c\<lparr>dc_recv_mr := r, dc_send_mr := NULL\<rparr>, D))
         else bind_ok (create L (Mr (sc_pd ctx)) D) (\<lambda>(w, D).
                Inr (0, rping_setup_wr e (c\<lparr>dc_recv_mr := r, dc_send_mr := w\<rparr>), D)))))"

definition rping_free_buffers :: "verbs_lib \<Rightarrow> dconn \<Rightarrow> dsetup \<Rightarrow> dsetup outcome" where
  "rping_free_buffers L c D = bind_ok (destroy L (dc_recv_mr c) D) (destroy L (dc_send_mr c))"

subsection \<open>An incoming connection\<close>

text \<open>What \<open>malloc\<close> leaves in a control block.\<close>

definition blank_dconn :: dconn where
  "blank_dconn = \<lparr>dc_server = False, dc_pd = NULL, dc_channel = NULL, dc_cq = NULL, dc_qp = NULL, dc_recv_mr = NULL, dc_send_mr = NULL,
     dc_rq_wr = None, dc_sq_wr = None, dc_send_thread = False\<rparr>"

text \<open>\<open>pthread_cancel\<close> and \<open>pthread_join\<close>; a thread that has been joined is none any more.\<close>

definition stop_receiver :: "dsetup \<Rightarrow> dsetup outcome" where
  "stop_receiver D = (if recv_thread D then Inr (D\<lparr>recv_thread := False\<rparr>) else Inl Null_Deref)"

text \<open>\<open>setup_connection\<close> with all it sets up; \<open>ae_cb\<close> and the contents of the buffers, \<open>bufs\<close>, as in the model of the messages.\<close>

definition accept_connection ::
  "verbs_lib \<Rightarrow> dsetup_env \<Rightarrow> ptr \<times> rping_cb \<Rightarrow> message \<times> message \<Rightarrow> int \<Rightarrow> daemon \<times> dsetup \<Rightarrow> (daemon \<times> dsetup) outcome" where
  "accept_connection L e new bufs mig = (\<lambda>(d, D).
     let x = fst new in
     if x = NULL then Inr (d, D)
     else bind_ok (rping_server_setup_qp L e D) (\<lambda>(ret, D).
       if ret \<noteq> 0 then Inr (free_rcb x d, D)
       else bind_ok (rping_create_qp L e (blank_dconn\<lparr>dc_server := True\<rparr>) D) (\<lambda>(ret, c, D).
         let err3 = (\<lambda>d D. bind_ok (stop_receiver D) (\<lambda>D. bind_ok (rping_free_buffers L c D) (\<lambda>D.
                       bind_ok (rping_free_qp L c D) (\<lambda>D. Inr (free_rcb x d, D))))) in
         if ret \<noteq> 0 then err3 d D
         else
           let cb = snd new;
               cb = cb\<lparr>d_server := True, d_rb_idx_map := replicate MAX_FREE_MEM_GB (- 1), d_evict_sem := 0,
                      d_migrbh := (d_migrbh cb)\<lparr>migration_sem := 0\<rparr>\<rparr>;
               d = set_rcb x cb d
           in bind_ok (if mig \<noteq> - 1 then add_mig mig x d else add_client [0..<MAX_CLIENT] x d) (\<lambda>d.
              bind_ok (rping_setup_buffers L e c D) (\<lambda>(ret, c, D).
                if ret \<noteq> 0 then bind_ok (rping_free_qp L c D) (\<lambda>D. Inr (free_rcb x d, D))
                else bind_ok (get_rcb x d) (\<lambda>cb.
                  let d = set_rcb x (cb\<lparr>d_recv_buf := Some (fst bufs), d_send_buf := Some (snd bufs)\<rparr>) d in
                  if dv_accept e \<noteq> 0
                  then bind_ok (stop_receiver D) (\<lambda>D. bind_ok (rping_free_buffers L c D) (\<lambda>D.
                       bind_ok (rping_free_qp L c D) (\<lambda>D. Inr (free_rcb x d, D))))
                  else Inr (d, D)))))))"

subsection \<open>A connection to another daemon\<close>

text \<open>\<open>rping_create_connection\<close> with all it sets up; the thread for its completions is started before the connection is asked for.\<close>

definition create_connection ::
  "verbs_lib \<Rightarrow> dsetup_env \<Rightarrow> create_env \<Rightarrow> ptr \<Rightarrow> daemon \<times> dsetup \<Rightarrow> (int \<times> dconn \<times> daemon \<times> dsetup) outcome" where
  "create_connection L e ce x = (\<lambda>(d, D).
     let c = blank_dconn in
     if cr_channel ce \<noteq> 0 then Inr (cr_channel ce, c, d, D)
     else if cr_id ce \<noteq> 0 then Inr (cr_id ce, c, d, D)
     else bind_ok (d_bind_client ce x d) (\<lambda>(ret, d).
       if ret \<noteq> 0 then Inr (ret, c, d, D)
       else bind_ok (rping_setup_qp L e c D) (\<lambda>(ret, c, D).
         if ret \<noteq> 0 then Inr (ret, c, d, D)
         else bind_ok (rping_setup_buffers L e c D) (\<lambda>(ret, c, D).
           bind_ok (setup_buffers (ce\<lparr>cr_reg := ret\<rparr>) x d) (\<lambda>(_, d).
             if ret \<noteq> 0 then bind_ok (rping_free_qp L c D) (\<lambda>D. Inr (ret, c, d, D))
             else let c = c\<lparr>dc_send_thread := True\<rparr> in
               bind_ok (d_connect_client ce x d) (\<lambda>(ret, d).
                 if ret \<noteq> 0
                 then bind_ok (rping_free_buffers L c D) (\<lambda>D. bind_ok (rping_free_qp L c D) (\<lambda>D. Inr (ret, c, d, D)))
                 else Inr (0, c, d, D)))))))"

end
