(* ===== verification/Daemon_Setup_Properties.thy ===== *)
theory Daemon_Setup_Properties
  imports Daemon_Setup
begin

text \<open>
  The set-up of the daemon's connections with all its objects implements the model of \<open>setup_connection\<close>, and what a failure does to the service: the
  objects that all clients share, and the thread that receives for all of them.
\<close>

subsection \<open>The shared objects\<close>

definition service_ok :: "server_ctx \<Rightarrow> verbs_table \<Rightarrow> bool" where
  "service_ok ctx T \<longleftrightarrow> table_ok T \<and> holds T NULL = None \<and> holds T (sc_pd ctx) = Some Pd \<and> holds T (sc_channel ctx) = Some Channel \<and>
     holds T (sc_cq ctx) = Some (Cq (Some (sc_channel ctx)))"

definition dsetup_ok :: "dsetup_env \<Rightarrow> dsetup \<Rightarrow> bool" where
  "dsetup_ok e D \<longleftrightarrow> table_ok (du_table D) \<and> holds (du_table D) NULL = None \<and>
     (case s_ctx D of None \<Rightarrow> True | Some ctx \<Rightarrow> service_ok ctx (du_table D) \<and> recv_thread D \<and> dv_same e)"

definition server_error :: "dsetup_env \<Rightarrow> dsetup \<Rightarrow> int" where
  "server_error e D =
     (if s_ctx D \<noteq> None then 0 else if dv_pd e \<noteq> 0 then dv_pd e else if dv_channel e \<noteq> 0 then dv_channel e
      else if dv_cq e \<noteq> 0 then dv_cq e else dv_notify e)"

lemma created_run:
  assumes "\<forall>q\<in>set (refers ob). holds (du_table D) q \<noteq> None"
  shows "create L ob D = Inr (grant L (du_table D), D\<lparr>du_table := (grant L (du_table D), ob) # du_table D\<rparr>)"
  using assms by (simp add: create_def create_runs)

lemma holds_filter: "q \<noteq> p \<Longrightarrow> holds (filter (\<lambda>e. fst e \<noteq> p) T) q = holds T q"
  by (induction T) auto

lemma destroy_keeps:
  assumes "holds (du_table D) p \<noteq> None"
  shows "\<exists>T. destroy L p D = Inr (D\<lparr>du_table := T\<rparr>) \<and> (\<forall>q. q \<noteq> p \<longrightarrow> holds T q = holds (du_table D) q)"
  using assms
  by (intro exI [of _ "if refuses L (du_table D) p then du_table D else filter (\<lambda>e. fst e \<noteq> p) (du_table D)"])
     (auto simp: destroy_def destroy_object_def holds_filter)

lemma destroy_gone: "holds (du_table D) p = None \<Longrightarrow> destroy L p D = Inl Null_Deref"
  by (simp add: destroy_def destroy_object_def)

lemma grant_not_null: "lib_ok L \<Longrightarrow> grant L T \<noteq> NULL"
  by (simp add: lib_ok_def)

lemma server_stage:
  assumes "lib_ok L" and "dsetup_ok e D"
  shows "if server_error e D = 0
    then \<exists>D' ctx. rping_server_setup_qp L e D = Inr (0, D') \<and> s_ctx D' = Some ctx \<and> service_ok ctx (du_table D') \<and> recv_thread D'
    else \<exists>ctx. rping_server_setup_qp L e D = Inr (server_error e D, D\<lparr>s_ctx := Some ctx\<rparr>) \<and> (dv_pd e = 0 \<longrightarrow> holds (du_table D) (sc_pd ctx) = None)"
proof (cases "s_ctx D")
  case (Some ctx)
  then show ?thesis using assms(2) by (auto simp: server_error_def rping_server_setup_qp_def dsetup_ok_def)
next
  case None
  let ?T = "du_table D"
  let ?p = "grant L ?T"
  let ?h = "grant L ((?p, Pd) # ?T)"
  let ?q = "grant L ((?h, Channel) # (?p, Pd) # ?T)"
  have T: "table_ok ?T" "table_ok ((?p, Pd) # ?T)" "table_ok ((?h, Channel) # (?p, Pd) # ?T)"
    "table_ok ((?q, Cq (Some ?h)) # (?h, Channel) # (?p, Pd) # ?T)"
    using assms(2) by (auto simp: dsetup_ok_def intro!: created_ok)
  have new: "holds ?T ?p = None" "holds ((?p, Pd) # ?T) ?h = None" "holds ((?h, Channel) # (?p, Pd) # ?T) ?q = None"
    using grant_new [OF assms(1)] by blast+
  have other: "?h \<noteq> ?p" "?q \<noteq> ?p" "?q \<noteq> ?h" using new(2,3) by (auto split: if_splits)
  have null: "?p \<noteq> NULL" "?h \<noteq> NULL" "?q \<noteq> NULL" "holds ?T NULL = None" using grant_not_null [OF assms(1)] assms(2) by (simp_all add: dsetup_ok_def)
  have made: "create_object L Pd ?T = Inr (?p, (?p, Pd) # ?T)" "create_object L Channel ((?p, Pd) # ?T) = Inr (?h, (?h, Channel) # (?p, Pd) # ?T)"
    "create_object L (Cq (Some ?h)) ((?h, Channel) # (?p, Pd) # ?T) = Inr (?q, (?q, Cq (Some ?h)) # (?h, Channel) # (?p, Pd) # ?T)"
    by (simp_all add: create_runs)
  have undo: "destroy_object L ?p ((?p, Pd) # ?T) = Inr ?T" "destroy_object L ?h ((?h, Channel) # (?p, Pd) # ?T) = Inr ((?p, Pd) # ?T)"
    "destroy_object L ?q ((?q, Cq (Some ?h)) # (?h, Channel) # (?p, Pd) # ?T) = Inr ((?h, Channel) # (?p, Pd) # ?T)"
    using destroy_last [OF assms(1) T(1) new(1)] destroy_last [OF assms(1) T(2) new(2)] destroy_last [OF assms(1) T(3) new(3)] other by simp_all
  show ?thesis using None T(4) new other null made undo
    by (auto simp: server_error_def rping_server_setup_qp_def create_def destroy_def service_ok_def Let_def)
qed

subsection \<open>Stages of an incoming connection\<close>

lemma create_qp_stage:
  assumes "lib_ok L" and "s_ctx D = Some ctx" and "service_ok ctx (du_table D)" and "dc_server c"
  shows "if dv_qp e = 0
    then \<exists>q. let T = (q, Qp (sc_pd ctx) (sc_cq ctx)) # du_table D in
           rping_create_qp L e c D = Inr (0, c\<lparr>dc_qp := q\<rparr>, D\<lparr>du_table := T\<rparr>) \<and> service_ok ctx T \<and> holds (du_table D) q = None
    else rping_create_qp L e c D = Inr (dv_qp e, c, D)"
proof -
  let ?q = "grant L (du_table D)"
  have l: "holds (du_table D) (sc_pd ctx) = Some Pd" "holds (du_table D) (sc_cq ctx) = Some (Cq (Some (sc_channel ctx)))"
    "holds (du_table D) (sc_channel ctx) = Some Channel" "table_ok (du_table D)"
    using assms(3) by (simp_all add: service_ok_def)
  have q: "sc_pd ctx \<noteq> ?q" "sc_cq ctx \<noteq> ?q" "sc_channel ctx \<noteq> ?q" "holds (du_table D) ?q = None"
    using grant_other [OF assms(1) l(1)] grant_other [OF assms(1) l(2)] grant_other [OF assms(1) l(3)] grant_new [OF assms(1)] by simp_all
  have "table_ok ((?q, Qp (sc_pd ctx) (sc_cq ctx)) # du_table D)" using l by (intro created_ok) auto
  then have ok: "service_ok ctx ((?q, Qp (sc_pd ctx) (sc_cq ctx)) # du_table D)" "holds (du_table D) ?q = None"
    using l(1-3) q assms(3) grant_not_null [OF assms(1)] by (simp_all add: service_ok_def)
  show ?thesis
  proof (cases "dv_qp e = 0")
    case True
    then have "rping_create_qp L e c D = Inr (0, c\<lparr>dc_qp := ?q\<rparr>, D\<lparr>du_table := (?q, Qp (sc_pd ctx) (sc_cq ctx)) # du_table D\<rparr>)"
      using assms(2,4) l(1,2) by (simp add: rping_create_qp_def get_sctx_def created_run)
    then show ?thesis unfolding if_P [OF True] Let_def using ok by blast
  next
    case False
    then have "rping_create_qp L e c D = Inr (dv_qp e, c, D)" using assms(2,4) l(1,2) by (simp add: rping_create_qp_def get_sctx_def cong del: bind_ok_cong)
    then show ?thesis unfolding if_not_P [OF False] .
  qed
qed

text \<open>The objects on top of those there were; a region that could not be registered leaves none.\<close>

lemma buffers_stage:
  assumes "lib_ok L" and "s_ctx D = Some ctx" and "service_ok ctx (du_table D)"
  shows "\<exists>r w c'. holds (du_table D) r = None \<and> holds (du_table D) w = None \<and> r \<noteq> w \<and> dc_qp c' = dc_qp c \<and> dc_server c' = dc_server c \<and>
      dc_channel c' = dc_channel c \<and> dc_cq c' = dc_cq c \<and> dc_pd c' = dc_pd c \<and> dc_send_thread c' = dc_send_thread c \<and>
      (if dv_reg_recv e \<noteq> 0 then rping_setup_buffers L e c D = Inr (dv_reg_recv e, c', D)
       else if dv_reg_send e \<noteq> 0 then rping_setup_buffers L e c D = Inr (dv_reg_send e, c', D)
       else rping_setup_buffers L e c D = Inr (0, c', D\<lparr>du_table := (w, Mr (sc_pd ctx)) # (r, Mr (sc_pd ctx)) # du_table D\<rparr>) \<and>
         dc_recv_mr c' = r \<and> dc_send_mr c' = w)"
proof -
  let ?T = "du_table D"
  let ?r = "grant L ?T"
  let ?w = "grant L ((?r, Mr (sc_pd ctx)) # ?T)"
  have T: "table_ok ?T" "holds ?T (sc_pd ctx) = Some Pd" using assms(3) by (simp_all add: service_ok_def)
  have new: "holds ?T ?r = None" "holds ((?r, Mr (sc_pd ctx)) # ?T) ?w = None" using grant_new [OF assms(1)] by blast+
  then have n: "?w \<noteq> ?r" "holds ?T ?w = None" "?r \<noteq> sc_pd ctx" using T(2) by (auto split: if_splits)
  have made: "create_object L (Mr (sc_pd ctx)) ?T = Inr (?r, (?r, Mr (sc_pd ctx)) # ?T)"
    "create_object L (Mr (sc_pd ctx)) ((?r, Mr (sc_pd ctx)) # ?T) = Inr (?w, (?w, Mr (sc_pd ctx)) # (?r, Mr (sc_pd ctx)) # ?T)"
    using T(2) n by (simp_all add: create_runs)
  have undo: "destroy_object L ?r ((?r, Mr (sc_pd ctx)) # ?T) = Inr ?T" using destroy_last [OF assms(1) T(1) new(1)] n by simp
  let ?c = "fst (snd (projr (rping_setup_buffers L e c D)))"
  note run = rping_setup_buffers_def get_sctx_def create_def destroy_def
  consider "dv_reg_recv e \<noteq> 0" | "dv_reg_recv e = 0" "dv_reg_send e \<noteq> 0" | "dv_reg_recv e = 0" "dv_reg_send e = 0" by blast
  then show ?thesis
  proof cases
    case 1
    then show ?thesis using assms(2) T(2) new(1) n by (intro exI [of _ ?r] exI [of _ ?w] exI [of _ ?c]) (simp add: run)
  next
    case 2
    then show ?thesis using assms(2) T(2) new(1) n made undo by (intro exI [of _ ?r] exI [of _ ?w] exI [of _ ?c]) (simp add: run)
  next
    case 3
    then show ?thesis using assms(2) T(2) new(1) n made by (intro exI [of _ ?r] exI [of _ ?w] exI [of _ ?c]) (simp add: run rping_setup_wr_def)
  qed
qed

text \<open>Giving up what is live never crashes.\<close>

lemma free_qp_runs:
  assumes "s_ctx D = Some ctx" and "service_ok ctx (du_table D)" and "dc_server c" and "holds (du_table D) (dc_qp c) = Some (Qp a b)"
  shows "\<exists>T. rping_free_qp L c D = Inr (D\<lparr>du_table := T\<rparr>)"
proof -
  have l: "holds (du_table D) (sc_pd ctx) = Some Pd" "holds (du_table D) (sc_cq ctx) = Some (Cq (Some (sc_channel ctx)))"
    "holds (du_table D) (sc_channel ctx) = Some Channel" using assms(2) by (simp_all add: service_ok_def)
  have d: "distinct [dc_qp c, sc_cq ctx, sc_channel ctx, sc_pd ctx]" using l assms(4) by auto
  obtain T1 where 1: "destroy L (dc_qp c) D = Inr (D\<lparr>du_table := T1\<rparr>)" "\<forall>q. q \<noteq> dc_qp c \<longrightarrow> holds T1 q = holds (du_table D) q"
    using destroy_keeps [of D "dc_qp c" L] assms(4) by auto
  obtain T2 where 2: "destroy L (sc_cq ctx) (D\<lparr>du_table := T1\<rparr>) = Inr (D\<lparr>du_table := T2\<rparr>)" "\<forall>q. q \<noteq> sc_cq ctx \<longrightarrow> holds T2 q = holds T1 q"
    using destroy_keeps [of "D\<lparr>du_table := T1\<rparr>" "sc_cq ctx" L] 1 l d by auto
  obtain T3 where 3: "destroy L (sc_channel ctx) (D\<lparr>du_table := T2\<rparr>) = Inr (D\<lparr>du_table := T3\<rparr>)" "\<forall>q. q \<noteq> sc_channel ctx \<longrightarrow> holds T3 q = holds T2 q"
    using destroy_keeps [of "D\<lparr>du_table := T2\<rparr>" "sc_channel ctx" L] 1 2 l d by auto
  obtain T4 where "destroy L (sc_pd ctx) (D\<lparr>du_table := T3\<rparr>) = Inr (D\<lparr>du_table := T4\<rparr>)"
    using destroy_keeps [of "D\<lparr>du_table := T3\<rparr>" "sc_pd ctx" L] 1 2 3 l d by auto
  then show ?thesis using assms(1,3) 1(1) 2(1) 3(1) by (intro exI [of _ T4]) (simp add: rping_free_qp_def get_sctx_def)
qed

text \<open>The answers of the library as the model of the messages has them.\<close>

definition answers :: "dsetup_env \<Rightarrow> dsetup \<Rightarrow> ptr \<times> rping_cb \<Rightarrow> message \<times> message \<Rightarrow> accept_env" where
  "answers e D new bufs = \<lparr>ae_cb = new, ae_server_qp = server_error e D, ae_qp = dv_qp e,
     ae_bufs = (if dv_reg_recv e \<noteq> 0 \<or> dv_reg_send e \<noteq> 0 then None else Some bufs), ae_accept = dv_accept e\<rparr>"

text \<open>The part of an incoming connection that follows the entry into the session.\<close>

definition accept_rest ::
  "verbs_lib \<Rightarrow> dsetup_env \<Rightarrow> ptr \<Rightarrow> message \<times> message \<Rightarrow> dconn \<Rightarrow> daemon \<Rightarrow> dsetup \<Rightarrow> (daemon \<times> dsetup) outcome" where
  "accept_rest L e x bufs c d D =
     bind_ok (rping_setup_buffers L e c D) (\<lambda>(ret, c, D).
       if ret \<noteq> 0 then bind_ok (rping_free_qp L c D) (\<lambda>D. Inr (free_rcb x d, D))
       else bind_ok (get_rcb x d) (\<lambda>cb.
         let d = set_rcb x (cb\<lparr>d_recv_buf := Some (fst bufs), d_send_buf := Some (snd bufs)\<rparr>) d in
         if dv_accept e \<noteq> 0
         then bind_ok (stop_receiver D) (\<lambda>D. bind_ok (rping_free_buffers L c D) (\<lambda>D.
              bind_ok (rping_free_qp L c D) (\<lambda>D. Inr (free_rcb x d, D))))
         else Inr (d, D)))"

lemma free_buffers_runs:
  assumes "lib_ok L" and "table_ok T" and "du_table D = (w, Mr p) # (r, Mr p) # T" and "holds T r = None" and "holds T w = None" and "r \<noteq> w"
    and "holds T p = Some Pd" and "dc_recv_mr c = r" and "dc_send_mr c = w"
  shows "rping_free_buffers L c D = Inr (D\<lparr>du_table := T\<rparr>)"
proof -
  have p: "p \<noteq> r" "p \<noteq> w" using assms(4,5,7) by auto
  have w: "destroy_object L w ((w, Mr p) # T) = Inr T" using destroy_last [OF assms(1,2,5)] p by simp
  have "\<not> in_use (du_table D) r" using not_in_use_new [OF assms(2,4)] p assms(3) by (simp add: in_use_Cons)
  then have "destroy_object L r (du_table D) = Inr ((w, Mr p) # T)"
    using assms by (auto simp: destroy_object_def lib_ok_def drop_absent)
  then show ?thesis using w assms(8,9) by (simp add: rping_free_buffers_def destroy_def)
qed

lemma accept_rest_runs:
  assumes "lib_ok L" and "s_ctx D = Some ctx" and "service_ok ctx (du_table D)" and "recv_thread D" and "dc_server c"
    and "holds (du_table D) (dc_qp c) = Some (Qp a b)" and "get_rcb x d = Inr cb"
  shows "\<exists>D'. accept_rest L e x bufs c d D =
     Inr (if dv_reg_recv e \<noteq> 0 \<or> dv_reg_send e \<noteq> 0 then free_rcb x d
          else let d = set_rcb x (cb\<lparr>d_recv_buf := Some (fst bufs), d_send_buf := Some (snd bufs)\<rparr>) d in if dv_accept e \<noteq> 0 then free_rcb x d else d, D')"
proof -
  obtain r w c' where st: "holds (du_table D) r = None" "holds (du_table D) w = None" "r \<noteq> w" "dc_qp c' = dc_qp c" "dc_server c' = dc_server c"
    and run: "if dv_reg_recv e \<noteq> 0 then rping_setup_buffers L e c D = Inr (dv_reg_recv e, c', D)
       else if dv_reg_send e \<noteq> 0 then rping_setup_buffers L e c D = Inr (dv_reg_send e, c', D)
       else rping_setup_buffers L e c D = Inr (0, c', D\<lparr>du_table := (w, Mr (sc_pd ctx)) # (r, Mr (sc_pd ctx)) # du_table D\<rparr>) \<and>
         dc_recv_mr c' = r \<and> dc_send_mr c' = w"
    using buffers_stage [OF assms(1-3), of c e] by metis
  have s: "dc_server c'" "holds (du_table D) (dc_qp c') = Some (Qp a b)" "table_ok (du_table D)" "holds (du_table D) (sc_pd ctx) = Some Pd"
    using assms(3,5,6) st(4,5) by (simp_all add: service_ok_def)
  obtain T where free: "rping_free_qp L c' D = Inr (D\<lparr>du_table := T\<rparr>)" using free_qp_runs [OF assms(2,3) s(1,2)] by auto
  obtain T' where free': "rping_free_qp L c' (D\<lparr>recv_thread := False\<rparr>) = Inr (D\<lparr>recv_thread := False\<rparr>\<lparr>du_table := T'\<rparr>)"
    using free_qp_runs [of "D\<lparr>recv_thread := False\<rparr>" ctx c' a b L] assms(2,3) s(1,2) by auto
  have bufs: "rping_free_buffers L c' (D\<lparr>du_table := (w, Mr (sc_pd ctx)) # (r, Mr (sc_pd ctx)) # du_table D, recv_thread := False\<rparr>) = Inr (D\<lparr>recv_thread := False\<rparr>)"
    if "dc_recv_mr c' = r" "dc_send_mr c' = w"
    using free_buffers_runs [OF assms(1) s(3) _ st(1-3) s(4) that] by simp
  consider "dv_reg_recv e \<noteq> 0" | "dv_reg_recv e = 0" "dv_reg_send e \<noteq> 0" | "dv_reg_recv e = 0" "dv_reg_send e = 0" "dv_accept e \<noteq> 0"
    | "dv_reg_recv e = 0" "dv_reg_send e = 0" "dv_accept e = 0" by blast
  then show ?thesis
    by cases (use run free free' bufs assms(4,7) in \<open>simp_all add: accept_rest_def stop_receiver_def Let_def\<close>)
qed

text \<open>The new control block as it is entered into the session, and the entry.\<close>

definition new_rcb :: "rping_cb \<Rightarrow> rping_cb" where
  "new_rcb cb = cb\<lparr>d_server := True, d_rb_idx_map := replicate MAX_FREE_MEM_GB (- 1), d_evict_sem := 0, d_migrbh := (d_migrbh cb)\<lparr>migration_sem := 0\<rparr>\<rparr>"

definition enter :: "int \<Rightarrow> ptr \<Rightarrow> daemon \<Rightarrow> daemon outcome" where
  "enter mig x d = (if mig \<noteq> - 1 then add_mig mig x d else add_client [0..<MAX_CLIENT] x d)"

lemma get_rcb_set: "get_rcb x (set_rcb x cb d) = Inr cb"
  by (simp add: get_rcb_def set_rcb_def)

lemma add_client_get: "add_client is x d = Inr d' \<Longrightarrow> get_rcb x d = Inr cb \<Longrightarrow> \<exists>cb'. get_rcb x d' = Inr cb'"
  by (induction "is") (auto simp: bind_ok_eq_Inr get_rcb_set split: if_splits)

lemma enter_get: "enter mig x d = Inr d' \<Longrightarrow> get_rcb x d = Inr cb \<Longrightarrow> \<exists>cb'. get_rcb x d' = Inr cb'"
  using add_client_get by (auto simp: enter_def add_mig_def bind_ok_eq_Inr get_rcb_set split: if_splits)

lemma accept_unfold:
  "fst new \<noteq> NULL \<Longrightarrow> accept_connection L e new bufs mig (d, D) =
     bind_ok (rping_server_setup_qp L e D) (\<lambda>(ret, D).
       if ret \<noteq> 0 then Inr (free_rcb (fst new) d, D)
       else bind_ok (rping_create_qp L e (blank_dconn\<lparr>dc_server := True\<rparr>) D) (\<lambda>(ret, c, D).
         if ret \<noteq> 0
         then bind_ok (stop_receiver D) (\<lambda>D. bind_ok (rping_free_buffers L c D) (\<lambda>D. bind_ok (rping_free_qp L c D) (\<lambda>D. Inr (free_rcb (fst new) d, D))))
         else bind_ok (enter mig (fst new) (set_rcb (fst new) (new_rcb (snd new)) d)) (\<lambda>d. accept_rest L e (fst new) bufs c d D)))"
  unfolding accept_connection_def enter_def new_rcb_def accept_rest_def Let_def prod.case by (simp only: if_False)

lemma accept_stage:
  assumes "lib_ok L" and "dsetup_ok e D" and "fst new \<noteq> NULL" and "server_error e D = 0" and "dv_qp e = 0"
  obtains c D2 ctx a b where "accept_connection L e new bufs mig (d, D) =
      bind_ok (enter mig (fst new) (set_rcb (fst new) (new_rcb (snd new)) d)) (\<lambda>d. accept_rest L e (fst new) bufs c d D2)"
    "s_ctx D2 = Some ctx" "service_ok ctx (du_table D2)" "recv_thread D2" "dc_server c" "holds (du_table D2) (dc_qp c) = Some (Qp a b)"
proof -
  obtain D1 ctx where 1: "rping_server_setup_qp L e D = Inr (0, D1)" "s_ctx D1 = Some ctx" "service_ok ctx (du_table D1)" "recv_thread D1"
    using server_stage [OF assms(1,2)] assms(4) by auto
  let ?c = "blank_dconn\<lparr>dc_server := True\<rparr>"
  obtain q T where 2: "rping_create_qp L e ?c D1 = Inr (0, ?c\<lparr>dc_qp := q\<rparr>, D1\<lparr>du_table := T\<rparr>)" "service_ok ctx T"
    "T = (q, Qp (sc_pd ctx) (sc_cq ctx)) # du_table D1"
    using create_qp_stage [OF assms(1) 1(2,3), of ?c e] assms(5) by (auto simp: Let_def)
  show thesis
    by (rule that [of "?c\<lparr>dc_qp := q\<rparr>" "D1\<lparr>du_table := T\<rparr>" ctx "sc_pd ctx" "sc_cq ctx"])
       (use assms(3) 1 2 in \<open>simp_all add: accept_unfold\<close>)
qed

text \<open>A further connection, with the objects that are there.\<close>

lemma accept_shared:
  assumes "lib_ok L" and "s_ctx D = Some ctx" and "service_ok ctx (du_table D)" and "dv_same e" and "fst new \<noteq> NULL" and "dv_qp e = 0"
  obtains q where "accept_connection L e new bufs mig (d, D) = bind_ok (enter mig (fst new) (set_rcb (fst new) (new_rcb (snd new)) d)) (\<lambda>d.
      accept_rest L e (fst new) bufs (blank_dconn\<lparr>dc_server := True, dc_qp := q\<rparr>) d
        (D\<lparr>du_table := (q, Qp (sc_pd ctx) (sc_cq ctx)) # du_table D\<rparr>))"
    "service_ok ctx ((q, Qp (sc_pd ctx) (sc_cq ctx)) # du_table D)" "holds (du_table D) q = None"
proof -
  let ?c = "blank_dconn\<lparr>dc_server := True\<rparr>"
  obtain q T where 2: "rping_create_qp L e ?c D = Inr (0, ?c\<lparr>dc_qp := q\<rparr>, D\<lparr>du_table := T\<rparr>)" "service_ok ctx T"
    "T = (q, Qp (sc_pd ctx) (sc_cq ctx)) # du_table D" "holds (du_table D) q = None"
    using create_qp_stage [OF assms(1-3), of ?c e] assms(6) by (auto simp: Let_def)
  show thesis
    by (rule that [of q])
       (use assms(2,4,5) 2 in \<open>simp_all add: accept_unfold rping_server_setup_qp_def\<close>)
qed

text \<open>Only the first connection starts the thread.\<close>

definition stopped :: "dsetup \<Rightarrow> bool" where
  "stopped D \<longleftrightarrow> s_ctx D \<noteq> None \<and> \<not> recv_thread D"

lemma destroy_stopped: "destroy L p D = Inr D' \<Longrightarrow> stopped D \<Longrightarrow> stopped D'"
  by (auto simp: destroy_def stopped_def bind_ok_eq_Inr)

lemma create_stopped: "create L ob D = Inr (p, D') \<Longrightarrow> stopped D \<Longrightarrow> stopped D'"
  by (auto simp: create_def stopped_def bind_ok_eq_Inr)

lemma create_qp_stopped: "rping_create_qp L e c D = Inr (ret, c', D') \<Longrightarrow> stopped D \<Longrightarrow> stopped D'"
  by (auto simp: rping_create_qp_def bind_ok_eq_Inr Let_def dest: create_stopped split: if_splits)

lemma free_qp_stopped: "rping_free_qp L c D = Inr D' \<Longrightarrow> stopped D \<Longrightarrow> stopped D'"
  by (auto simp: rping_free_qp_def bind_ok_eq_Inr dest!: destroy_stopped split: if_splits)

lemma setup_buffers_stopped: "rping_setup_buffers L e c D = Inr (ret, c', D') \<Longrightarrow> stopped D \<Longrightarrow> stopped D'"
  by (auto simp: rping_setup_buffers_def bind_ok_eq_Inr dest!: create_stopped destroy_stopped split: if_splits)

lemma accept_stopped:
  assumes "accept_connection L e new bufs mig (d, D) = Inr (d', D')" and "stopped D"
  shows "stopped D'"
proof (cases "fst new = NULL")
  case False
  have s: "stop_receiver M = Inl Null_Deref" if "stopped M" for M using that by (simp add: stop_receiver_def stopped_def)
  have "rping_server_setup_qp L e D = Inr (0, D) \<or> rping_server_setup_qp L e D = Inl Panic"
    using assms(2) by (auto simp: rping_server_setup_qp_def stopped_def)
  then have rest: "rping_server_setup_qp L e D = Inr (0, D)" using assms(1) False by (auto simp: accept_unfold)
  obtain ret c D1 where 1: "rping_create_qp L e (blank_dconn\<lparr>dc_server := True\<rparr>) D = Inr (ret, c, D1)"
    using assms(1) False by (auto simp: accept_unfold rest bind_ok_eq_Inr)
  have D1: "stopped D1" using create_qp_stopped [OF 1 assms(2)] .
  then obtain d1 where "accept_rest L e (fst new) bufs c d1 D1 = Inr (d', D')"
    using assms(1) False s by (auto simp: accept_unfold rest 1 bind_ok_eq_Inr split: if_splits)
  then show ?thesis using D1 s
    by (auto simp: accept_rest_def bind_ok_eq_Inr Let_def dest!: setup_buffers_stopped free_qp_stopped split: if_splits)
qed (use assms in \<open>simp add: accept_connection_def\<close>)

lemma accepts_stopped:
  "foldM (\<lambda>(e, new, bufs, mig). accept_connection L e new bufs mig) as (d, D) = Inr (d', D') \<Longrightarrow> stopped D \<Longrightarrow> stopped D'"
proof (induction as arbitrary: d D)
  case (Cons a as)
  obtain e new bufs mig where a: "a = (e, new, bufs, mig)" by (cases a)
  obtain d1 D1 where "accept_connection L e new bufs mig (d, D) = Inr (d1, D1)"
    "foldM (\<lambda>(e, new, bufs, mig). accept_connection L e new bufs mig) as (d1, D1) = Inr (d', D')"
    using Cons.prems(1) by (auto simp: a bind_ok_eq_Inr)
  then show ?case using Cons.IH accept_stopped Cons.prems(2) by blast
qed simp

text \<open>A rejected connection gives up only what is its own while another one uses the shared objects; an accepted one needs no thread.\<close>

definition no_failure :: "dsetup_env \<Rightarrow> bool" where
  "no_failure e \<longleftrightarrow> dv_same e \<and> dv_qp e = 0 \<and> dv_reg_recv e = 0 \<and> dv_reg_send e = 0"

lemma coarse_accept:
  assumes "s_ctx D \<noteq> None" and "fst new \<noteq> NULL" and "no_failure e"
  shows "setup_connection (answers e D new bufs) mig d = bind_ok (enter mig (fst new) (set_rcb (fst new) (new_rcb (snd new)) d)) (\<lambda>d.
    bind_ok (get_rcb (fst new) d) (\<lambda>cb. let d = set_rcb (fst new) (cb\<lparr>d_recv_buf := Some (fst bufs), d_send_buf := Some (snd bufs)\<rparr>) d in
      Inr (if dv_accept e \<noteq> 0 then free_rcb (fst new) d else d)))"
  using assms by (simp add: setup_connection_def answers_def server_error_def no_failure_def enter_def new_rcb_def case_prod_unfold Let_def)

lemma free_shared:
  assumes "lib_ok L" and "s_ctx D = Some ctx" and "service_ok ctx (du_table D)" and "holds (du_table D) q0 = Some (Qp (sc_pd ctx) (sc_cq ctx))"
    and "holds (du_table D) q = None" and "dc_server c" and "dc_qp c = q" and "service_ok ctx ((q, ob) # du_table D)" and "ob = Qp (sc_pd ctx) (sc_cq ctx)"
  shows "rping_free_qp L c (D\<lparr>du_table := (q, ob) # du_table D\<rparr>) = Inr D"
proof -
  have l: "holds (du_table D) (sc_pd ctx) = Some Pd" "holds (du_table D) (sc_cq ctx) = Some (Cq (Some (sc_channel ctx)))"
    "holds (du_table D) (sc_channel ctx) = Some Channel" "table_ok (du_table D)" using assms(3) by (simp_all add: service_ok_def)
  have u: "in_use (du_table D) (sc_pd ctx)" "in_use (du_table D) (sc_cq ctx)" "in_use (du_table D) (sc_channel ctx)"
    using holds_Some [OF assms(4)] holds_Some [OF l(2)] unfolding in_use_iff by force+
  have "q \<notin> set (refers ob)" using assms(5,9) l by auto
  then have "destroy_object L q ((q, ob) # du_table D) = Inr (du_table D)" using destroy_last [OF assms(1) l(4) assms(5)] by blast
  then show ?thesis
    using assms(2,6,7) u l destroy_used [OF assms(1)] by (simp add: rping_free_qp_def get_sctx_def destroy_def)
qed

lemma accept_outcome:
  assumes "lib_ok L" and "s_ctx D = Some ctx" and "service_ok ctx (du_table D)" and "fst new \<noteq> NULL" and "no_failure e"
    and "dv_accept e \<noteq> 0 \<Longrightarrow> recv_thread D \<and> holds (du_table D) q0 = Some (Qp (sc_pd ctx) (sc_cq ctx))"
  shows "\<exists>D'. accept_connection L e new bufs mig (d, D) = bind_ok (setup_connection (answers e D new bufs) mig d) (\<lambda>d. Inr (d, D')) \<and>
    (dv_accept e \<noteq> 0 \<longrightarrow> D' = D\<lparr>recv_thread := False\<rparr>)"
proof -
  let ?x = "fst new"
  have e: "dv_same e" "dv_qp e = 0" "dv_reg_recv e = 0" "dv_reg_send e = 0" using assms(5) by (simp_all add: no_failure_def)
  obtain q where run: "accept_connection L e new bufs mig (d, D) = bind_ok (enter mig ?x (set_rcb ?x (new_rcb (snd new)) d)) (\<lambda>d.
      accept_rest L e ?x bufs (blank_dconn\<lparr>dc_server := True, dc_qp := q\<rparr>) d (D\<lparr>du_table := (q, Qp (sc_pd ctx) (sc_cq ctx)) # du_table D\<rparr>))"
    and q: "service_ok ctx ((q, Qp (sc_pd ctx) (sc_cq ctx)) # du_table D)" "holds (du_table D) q = None"
    by (rule accept_shared [OF assms(1-3) e(1) assms(4) e(2), of bufs mig d])
  let ?c = "blank_dconn\<lparr>dc_server := True, dc_qp := q\<rparr>"
  let ?D = "D\<lparr>du_table := (q, Qp (sc_pd ctx) (sc_cq ctx)) # du_table D\<rparr>"
  obtain r w c' where st: "holds (du_table ?D) r = None" "holds (du_table ?D) w = None" "r \<noteq> w" "dc_qp c' = q" "dc_server c'"
    and b: "rping_setup_buffers L e ?c ?D = Inr (0, c', ?D\<lparr>du_table := (w, Mr (sc_pd ctx)) # (r, Mr (sc_pd ctx)) # du_table ?D\<rparr>)"
      "dc_recv_mr c' = r" "dc_send_mr c' = w"
    using buffers_stage [OF assms(1), of ?D ctx ?c e] assms(2) q(1) e by (auto simp: blank_dconn_def)
  let ?D3 = "?D\<lparr>du_table := (w, Mr (sc_pd ctx)) # (r, Mr (sc_pd ctx)) # du_table ?D\<rparr>"
  have s: "table_ok (du_table ?D)" "holds (du_table ?D) (sc_pd ctx) = Some Pd" using q(1) by (simp_all add: service_ok_def)
  let ?N = "D\<lparr>recv_thread := False\<rparr>"
  have "rping_free_buffers L c' (?D3\<lparr>recv_thread := False\<rparr>) = Inr (?N\<lparr>du_table := du_table ?D\<rparr>)"
    using free_buffers_runs [OF assms(1) s(1) _ st(1-3) s(2) b(2,3)] by simp
  moreover have "rping_free_qp L c' (?N\<lparr>du_table := du_table ?D\<rparr>) = Inr ?N" if "dv_accept e \<noteq> 0"
    using free_shared [OF assms(1), of ?N ctx q0 q c'] assms(2,3) assms(6) [OF that] q st(4,5) by simp
  ultimately have rest: "accept_rest L e ?x bufs ?c d1 ?D = bind_ok (get_rcb ?x d1) (\<lambda>cb.
      let d = set_rcb ?x (cb\<lparr>d_recv_buf := Some (fst bufs), d_send_buf := Some (snd bufs)\<rparr>) d1 in
      Inr (if dv_accept e \<noteq> 0 then free_rcb ?x d else d, if dv_accept e \<noteq> 0 then ?N else ?D3))" for d1
    using b(1) assms(6) by (simp add: accept_rest_def stop_receiver_def Let_def)
  have "setup_connection (answers e D new bufs) mig d = bind_ok (enter mig ?x (set_rcb ?x (new_rcb (snd new)) d)) (\<lambda>d.
    bind_ok (get_rcb ?x d) (\<lambda>cb. let d = set_rcb ?x (cb\<lparr>d_recv_buf := Some (fst bufs), d_send_buf := Some (snd bufs)\<rparr>) d in
      Inr (if dv_accept e \<noteq> 0 then free_rcb ?x d else d)))"
    by (rule coarse_accept [OF _ assms(4,5)]) (simp add: assms(2))
  then show ?thesis unfolding run rest
    by (intro exI [of _ "if dv_accept e \<noteq> 0 then ?N else ?D3"]) (simp add: bind_ok_assoc Let_def)
qed

subsection \<open>Properties\<close>

text \<open>
  C30. The set-up of an incoming connection with all its objects implements the model that the messages of the daemon are built on, as long as the shared
  objects are there: the session and the control blocks become what \<open>setup_connection\<close> makes of them, given only which of the calls failed. No clean-up
  on the way uses an object that is gone, except after a queue pair that could not be created, where both crash.
\<close>

theorem accept_implements:
  assumes "lib_ok L" and "dsetup_ok e D"
  shows "bind_ok (accept_connection L e new bufs mig (d, D)) (\<lambda>(d, D). Inr d) = setup_connection (answers e D new bufs) mig d"
proof -
  consider "fst new = NULL" | "fst new \<noteq> NULL" "server_error e D \<noteq> 0" | "fst new \<noteq> NULL" "server_error e D = 0" "dv_qp e \<noteq> 0"
    | (up) "fst new \<noteq> NULL" "server_error e D = 0" "dv_qp e = 0" by blast
  then show ?thesis
  proof cases
    case 1
    then show ?thesis by (simp add: accept_connection_def setup_connection_def answers_def)
  next
    case 2
    then show ?thesis using server_stage [OF assms] by (auto simp: accept_connection_def setup_connection_def answers_def)
  next
    case 3
    then obtain D1 ctx where 1: "rping_server_setup_qp L e D = Inr (0, D1)" "s_ctx D1 = Some ctx" "service_ok ctx (du_table D1)" "recv_thread D1"
      using server_stage [OF assms] by auto
    let ?c = "blank_dconn\<lparr>dc_server := True\<rparr>"
    have "rping_create_qp L e ?c D1 = Inr (dv_qp e, ?c, D1)" using create_qp_stage [OF assms(1) 1(2,3), of ?c e] 3(3) by simp
    moreover have "rping_free_buffers L ?c (D1\<lparr>recv_thread := False\<rparr>) = Inl Null_Deref"
      using 1(3) by (simp add: service_ok_def rping_free_buffers_def blank_dconn_def destroy_gone)
    ultimately show ?thesis using 1 3
      by (simp add: accept_connection_def setup_connection_def answers_def stop_receiver_def)
  next
    case up
    let ?x = "fst new"
    let ?d = "set_rcb ?x (new_rcb (snd new)) d"
    obtain c D2 ctx a b where run: "accept_connection L e new bufs mig (d, D) = bind_ok (enter mig ?x ?d) (\<lambda>d. accept_rest L e ?x bufs c d D2)"
      and st: "s_ctx D2 = Some ctx" "service_ok ctx (du_table D2)" "recv_thread D2" "dc_server c" "holds (du_table D2) (dc_qp c) = Some (Qp a b)"
      by (rule accept_stage [OF assms up, of bufs mig d])
    have coarse: "setup_connection (answers e D new bufs) mig d = bind_ok (enter mig ?x ?d) (\<lambda>d.
        if dv_reg_recv e \<noteq> 0 \<or> dv_reg_send e \<noteq> 0 then Inr (free_rcb ?x d)
        else bind_ok (get_rcb ?x d) (\<lambda>cb. let d = set_rcb ?x (cb\<lparr>d_recv_buf := Some (fst bufs), d_send_buf := Some (snd bufs)\<rparr>) d in
               Inr (if dv_accept e \<noteq> 0 then free_rcb ?x d else d)))"
      using up by (simp add: setup_connection_def answers_def enter_def new_rcb_def case_prod_unfold Let_def)
    show ?thesis
    proof (cases "enter mig ?x ?d")
      case (Inr d1)
      obtain cb where cb: "get_rcb ?x d1 = Inr cb" using enter_get [OF Inr] get_rcb_set by blast
      show ?thesis using accept_rest_runs [OF assms(1) st cb, of e bufs] cb Inr by (auto simp: run coarse Let_def)
    qed (simp add: run coarse)
  qed
qed

text \<open>
  C31. One client whose connection cannot be accepted ends the service for all: the clean-up cancels the thread that receives the messages of every client.
  The shared objects stay, since another client uses them, and with them the mark that they have been set up: later clients are accepted as before, but
  no sequence of connections ever starts the thread again.
\<close>

theorem rejected_client_stops_service:
  assumes "lib_ok L" and "s_ctx D = Some ctx" and "service_ok ctx (du_table D)" and "recv_thread D"
    and "holds (du_table D) q = Some (Qp (sc_pd ctx) (sc_cq ctx))" and "no_failure e" and "dv_accept e \<noteq> 0" and "fst new \<noteq> NULL"
    and "setup_connection (answers e D new bufs) mig d = Inr d1"
  defines "D1 \<equiv> D\<lparr>recv_thread := False\<rparr>"
  shows "accept_connection L e new bufs mig (d, D) = Inr (d1, D1) \<and>
    (\<forall>as d2 D2. foldM (\<lambda>(e, new, bufs, mig). accept_connection L e new bufs mig) as (d1, D1) = Inr (d2, D2) \<longrightarrow> \<not> recv_thread D2) \<and>
    (\<forall>e' new' bufs' mig' d2. no_failure e' \<and> dv_accept e' = 0 \<and> fst new' \<noteq> NULL \<and>
       setup_connection (answers e' D1 new' bufs') mig' d1 = Inr d2 \<longrightarrow> (\<exists>D2. accept_connection L e' new' bufs' mig' (d1, D1) = Inr (d2, D2)))"
proof (intro conjI allI impI)
  show "accept_connection L e new bufs mig (d, D) = Inr (d1, D1)"
    using accept_outcome [OF assms(1-3,8,6), of q bufs mig d] assms(4,5,7,9) by (auto simp: D1_def)
  show "\<not> recv_thread D2" if "foldM (\<lambda>(e, new, bufs, mig). accept_connection L e new bufs mig) as (d1, D1) = Inr (d2, D2)" for as d2 D2
    using accepts_stopped [OF that] assms(2) by (simp add: stopped_def D1_def)
  show "\<exists>D2. accept_connection L e' new' bufs' mig' (d1, D1) = Inr (d2, D2)"
    if "no_failure e' \<and> dv_accept e' = 0 \<and> fst new' \<noteq> NULL \<and> setup_connection (answers e' D1 new' bufs') mig' d1 = Inr d2" for e' new' bufs' mig' d2
    using accept_outcome [OF assms(1), of D1 ctx new' e' 0 bufs' mig' d1] assms(2,3) that by (auto simp: D1_def)
qed

text \<open>
  When the completion channel, the completion queue or its notification cannot be set up for the first client, what has been set up is given up, but
  the structure that points to it stays: the next client is taken for a further one, and the daemon crashes on a domain that is gone.
\<close>

theorem failed_service_crashes:
  assumes "lib_ok L" and "dsetup_ok e D" and "s_ctx D = None" and "dv_pd e = 0" and "server_error e D \<noteq> 0"
    and "fst new \<noteq> NULL" and "fst new' \<noteq> NULL" and "dv_same e'"
  shows "\<exists>D'. accept_connection L e new bufs mig (d, D) = Inr (free_rcb (fst new) d, D') \<and> du_table D' = du_table D \<and>
    accept_connection L e' new' bufs' mig' (d', D') = Inl Null_Deref"
proof -
  obtain ctx where r: "rping_server_setup_qp L e D = Inr (server_error e D, D\<lparr>s_ctx := Some ctx\<rparr>)" "holds (du_table D) (sc_pd ctx) = None"
    using server_stage [OF assms(1,2)] assms(4,5) by auto
  have "rping_create_qp L e' (blank_dconn\<lparr>dc_server := True\<rparr>) (D\<lparr>s_ctx := Some ctx\<rparr>) = Inl Null_Deref"
    using r(2) by (simp add: rping_create_qp_def get_sctx_def cong del: bind_ok_cong)
  then have "accept_connection L e' new' bufs' mig' (d', D\<lparr>s_ctx := Some ctx\<rparr>) = Inl Null_Deref"
    using assms(7,8) by (simp add: accept_unfold rping_server_setup_qp_def)
  then show ?thesis using r(1) assms(5,6) by (intro exI [of _ "D\<lparr>s_ctx := Some ctx\<rparr>"]) (simp add: accept_unfold)
qed

subsection \<open>Samples\<close>

text \<open>One client is connected; the session has one slot left.\<close>

definition sample_ctx :: server_ctx where
  "sample_ctx = \<lparr>sc_pd = 1, sc_channel = 2, sc_cq = 3\<rparr>"

definition sample_service :: dsetup where
  "sample_service = \<lparr>du_table = [(4, Qp 1 3), (3, Cq (Some 2)), (2, Channel), (1, Pd)], s_ctx = Some sample_ctx, recv_thread = True\<rparr>"

definition sample_answers :: dsetup_env where
  "sample_answers = \<lparr>dv_same = True, dv_pd = 0, dv_channel = 0, dv_cq = 0, dv_notify = 0, dv_qp = 0, dv_bufs = (0, 0), dv_reg_recv = 0, dv_reg_send = 0, dv_accept = 0\<rparr>"

definition one_slot :: "daemon \<Rightarrow> daemon" where
  "one_slot d = d\<lparr>d_cb_list := [NULL], d_cb_state_list := [D_CB_IDLE]\<rparr>"

lemma sample_service_ok: "service_ok sample_ctx (du_table sample_service)"
  by (simp add: service_ok_def table_ok_def sample_service_def sample_ctx_def)

lemma one_slot_enter: "\<exists>d1. enter (- 1) x (set_rcb x (new_rcb cb) (one_slot d)) = Inr d1 \<and> (\<exists>cb'. get_rcb x d1 = Inr cb')"
proof -
  have "[0..<MAX_CLIENT] = 0 # [1..<MAX_CLIENT]" by (simp add: upt_conv_Cons)
  then obtain d1 where "enter (- 1) x (set_rcb x (new_rcb cb) (one_slot d)) = Inr d1"
    by (simp add: enter_def one_slot_def get_rcb_def set_rcb_def del: upt_rec_numeral)
  then show ?thesis using enter_get get_rcb_set by blast
qed

lemma one_slot_accepted:
  assumes "no_failure e" and "x \<noteq> NULL" and "s_ctx D \<noteq> None"
  shows "\<exists>d1. setup_connection (answers e D (x, cb) bufs) (- 1) (one_slot d) = Inr d1"
  using one_slot_enter [of x cb d] coarse_accept [of D "(x, cb)" e bufs "- 1" "one_slot d"] assms by (auto simp: Let_def)

theorem accept_implements_witness:
  "\<forall>x cb bufs mig d. bind_ok (accept_connection counting_lib sample_answers (x, cb) bufs mig (d, sample_service)) (\<lambda>(d, D). Inr d) =
     setup_connection (answers sample_answers sample_service (x, cb) bufs) mig d"
proof -
  have "dsetup_ok sample_answers sample_service"
    using sample_service_ok by (simp add: dsetup_ok_def sample_service_def sample_answers_def service_ok_def)
  from accept_implements [OF counting_lib_ok this] show ?thesis by blast
qed

theorem rejected_client_stops_service_witness:
  "\<forall>cb bufs d. \<exists>d1. accept_connection counting_lib (sample_answers\<lparr>dv_accept := 12\<rparr>) (9, cb) bufs (- 1) (one_slot d, sample_service) =
     Inr (d1, sample_service\<lparr>recv_thread := False\<rparr>)"
proof (intro allI)
  fix cb :: rping_cb and bufs d
  let ?e = "sample_answers\<lparr>dv_accept := 12\<rparr>"
  have s: "s_ctx sample_service = Some sample_ctx" "recv_thread sample_service"
    "holds (du_table sample_service) 4 = Some (Qp (sc_pd sample_ctx) (sc_cq sample_ctx))" by (simp_all add: sample_service_def sample_ctx_def)
  have e: "no_failure ?e" "dv_accept ?e \<noteq> 0" "fst (9 :: ptr, cb) \<noteq> NULL" by (simp_all add: no_failure_def sample_answers_def)
  obtain d1 where "setup_connection (answers ?e sample_service (9, cb) bufs) (- 1) (one_slot d) = Inr d1"
    using one_slot_accepted [OF e(1), of 9 sample_service cb bufs d] s(1) by auto
  from rejected_client_stops_service [OF counting_lib_ok s(1) sample_service_ok s(2,3) e this]
  show "\<exists>d1. accept_connection counting_lib ?e (9, cb) bufs (- 1) (one_slot d, sample_service) = Inr (d1, sample_service\<lparr>recv_thread := False\<rparr>)" by blast
qed

theorem failed_service_crashes_witness:
  "\<forall>cb bufs d. \<exists>D'. accept_connection counting_lib (sample_answers\<lparr>dv_cq := 12\<rparr>) (9, cb) bufs (- 1) (d, \<lparr>du_table = [], s_ctx = None, recv_thread = False\<rparr>) =
       Inr (free_rcb 9 d, D') \<and>
     accept_connection counting_lib sample_answers (10, cb) bufs (- 1) (free_rcb 9 d, D') = Inl Null_Deref"
proof (intro allI)
  fix cb :: rping_cb and bufs d
  let ?D = "\<lparr>du_table = [], s_ctx = None, recv_thread = False\<rparr>" and ?e = "sample_answers\<lparr>dv_cq := 12\<rparr>"
  have "dsetup_ok ?e ?D" "s_ctx ?D = None" "dv_pd ?e = 0" "server_error ?e ?D \<noteq> 0" "fst (9 :: ptr, cb) \<noteq> NULL" "fst (10 :: ptr, cb) \<noteq> NULL" "dv_same sample_answers"
    by (simp_all add: dsetup_ok_def table_ok_def sample_answers_def server_error_def)
  from failed_service_crashes [OF counting_lib_ok this]
  show "\<exists>D'. accept_connection counting_lib ?e (9, cb) bufs (- 1) (d, ?D) = Inr (free_rcb 9 d, D') \<and>
     accept_connection counting_lib sample_answers (10, cb) bufs (- 1) (free_rcb 9 d, D') = Inl Null_Deref" by (metis fst_conv)
qed

end
