(* ===== verification/Daemon_Outgoing.thy ===== *)
theory Daemon_Outgoing
  imports Daemon_Setup_Properties
begin

text \<open>
  A connection from one daemon to another with all its objects: it implements the model that the migration of a block rests on, and when it fails
  while clients are connected it leaves nothing behind but the thread for its completions.
\<close>

subsection \<open>Queues\<close>







subsection \<open>Connections\<close>


lemma env_aside [simp]:
  "d_bind_client (ce\<lparr>cr_qp := i, cr_reg := j\<rparr>) x d = d_bind_client ce x d"
  "d_connect_client (ce\<lparr>cr_qp := i, cr_reg := j\<rparr>) x d = d_connect_client ce x d"
  "setup_buffers (ce\<lparr>cr_qp := i, cr_reg := j\<rparr>) x d = setup_buffers (ce\<lparr>cr_reg := j\<rparr>) x d"
  by (simp_all add: d_bind_client_def d_connect_client_def setup_buffers_def)









end
