(* ===== verification/Daemon_Main.thy ===== *)
theory Daemon_Main
  imports Daemon_Properties Portal
begin

text \<open>
  The program around the daemon (daemon.c): \<open>main\<close> with its options and the portal file, the listener that handles the events of connections, and the two
  threads that take completions off the queues. A call of \<open>exit\<close> is \<open>Panic\<close>.
\<close>

subsection \<open>Threads\<close>

type_synonym completion = "daemon_env \<times> wc_status \<times> wc_opcode \<times> ptr"

text \<open>The results of the handler are not looked at.\<close>

definition poll_completions :: "completion list \<Rightarrow> daemon \<Rightarrow> daemon outcome" where
  "poll_completions = foldM (\<lambda>(env, status, opcode, x) d. bind_ok (rping_cq_event_handler env status opcode x d) (\<lambda>(_, d). Inr d))"


text \<open>
  One turn of the thread of connection \<open>x\<close>, and whether it goes on. \<open>polled\<close> is the result of the poll that finds no completion; it takes the place of the last
  result of the handler.
\<close>

definition sender_cq_thread :: "int \<Rightarrow> bool \<Rightarrow> int \<Rightarrow> int \<Rightarrow> ptr \<Rightarrow> (daemon_env \<times> wc_status \<times> wc_opcode) list \<Rightarrow> daemon \<Rightarrow> (bool \<times> daemon) outcome" where
  "sender_cq_thread got own_cq notify polled x wcs d =
     (if got \<noteq> 0 \<or> \<not> own_cq \<or> notify \<noteq> 0 then Inr (False, d)
      else bind_ok (poll_completions (map (\<lambda>(env, status, opcode). (env, status, opcode, x)) wcs) d) (\<lambda>d. Inr (polled = 0, d)))"

subsection \<open>Options\<close>








subsection \<open>Start\<close>






subsection \<open>What comes up\<close>










end
